(* ===== verification/Prelude.thy ===== *)
theory Prelude
  imports Main "HOL-Library.Word" "HOL-Library.Sublist"
begin

text \<open>
  Shared vocabulary of the development: fallible results as sums, the machine
  integers whose width matters, the standard library's \<open>partition_point\<close>, and
  the list lemmas that several components use.
\<close>

section \<open>Machine integers\<close>

type_synonym u8 = "8 word"
type_synonym u32 = "32 word"
type_synonym u64 = "64 word"

text \<open>
  A \<open>TextSize\<close> of the source wraps a \<open>u32\<close> and is built through a checked
  constructor only, so it is read here as a natural number of at most \<open>u32_max\<close>.
  A \<open>usize\<close> is 64 bits wide and counts bytes of objects in memory, so it is a
  natural number too; where the source clamps it, \<open>usize_max\<close> is written out.
\<close>

definition u32_max :: nat where
  "u32_max = 4294967295"

definition usize_max :: nat where
  "usize_max = 18446744073709551615"

text \<open>Rust's \<open>saturating_add\<close> on an unsigned word of any width.\<close>

definition saturating_add :: "'w::len word \<Rightarrow> 'w word \<Rightarrow> 'w word" where
  "saturating_add a b = (if unat a + unat b < 2 ^ LENGTH('w) then a + b else - 1)"

lemma unat_saturating_add:
  "unat (saturating_add a b) = min (unat a + unat b) (2 ^ LENGTH('w) - 1)"
  for a b :: "'w::len word"
proof (cases "unat a + unat b < 2 ^ LENGTH('w)")
  case True
  then have "unat (a + b) = unat a + unat b"
    by (simp add: unat_word_ariths)
  with True show ?thesis
    by (simp add: saturating_add_def)
next
  case False
  have "unat (- 1 :: 'w word) = 2 ^ LENGTH('w) - 1"
    by (simp add: unsigned_minus_1_eq_mask mask_eq_exp_minus_1)
  with False show ?thesis
    by (simp add: saturating_add_def)
qed

section \<open>Results\<close>

text \<open>
  \<open>Result<T, E>\<close> is the sum \<open>'e + 'a\<close>: \<open>Inl\<close> holds the error. The \<open>?\<close> operator
  is \<open>and_then\<close>.
\<close>

named_theorems result_simps \<open>equations for fallible computations\<close>

definition and_then :: "'e + 'a \<Rightarrow> ('a \<Rightarrow> 'e + 'b) \<Rightarrow> 'e + 'b" where
  "and_then r k = (case r of Inl e \<Rightarrow> Inl e | Inr a \<Rightarrow> k a)"

definition map_err :: "('e \<Rightarrow> 'f) \<Rightarrow> 'e + 'a \<Rightarrow> 'f + 'a" where
  "map_err f r = (case r of Inl e \<Rightarrow> Inl (f e) | Inr a \<Rightarrow> Inr a)"

lemma and_then_Inl [simp, result_simps]: "and_then (Inl e) k = Inl e"
  by (simp add: and_then_def)

lemma and_then_Inr [simp, result_simps]: "and_then (Inr a) k = k a"
  by (simp add: and_then_def)

lemma and_then_eq_Inr [result_simps]:
  "and_then r k = Inr b \<longleftrightarrow> (\<exists>a. r = Inr a \<and> k a = Inr b)"
  by (cases r) auto

lemma and_then_eq_Inl [result_simps]:
  "and_then r k = Inl e \<longleftrightarrow> r = Inl e \<or> (\<exists>a. r = Inr a \<and> k a = Inl e)"
  by (cases r) auto

lemma map_err_Inl [simp, result_simps]: "map_err f (Inl e) = Inl (f e)"
  by (simp add: map_err_def)

lemma map_err_Inr [simp, result_simps]: "map_err f (Inr a) = Inr a"
  by (simp add: map_err_def)

lemma map_err_eq_Inr [result_simps]: "map_err f r = Inr b \<longleftrightarrow> r = Inr b"
  by (cases r) auto

lemma map_err_eq_Inl [result_simps]: "map_err f r = Inl e \<longleftrightarrow> (\<exists>d. r = Inl d \<and> e = f d)"
  by (cases r) auto

lemma and_then_cong [fundef_cong]:
  "r = r' \<Longrightarrow> (\<And>a. r' = Inr a \<Longrightarrow> k a = k' a) \<Longrightarrow> and_then r k = and_then r' k'"
  by (cases r') auto

text \<open>
  Where the source may panic (\<open>expect\<close>, \<open>unreachable!\<close>, a slice out of range) the
  model returns \<open>Panic\<close> beside the declared errors, so that the absence of panics is a
  theorem and not an assumption.
\<close>

datatype 'e failure = Err 'e | Panic

definition expect :: "'a option \<Rightarrow> 'e failure + 'a" where
  "expect x = (case x of None \<Rightarrow> Inl Panic | Some a \<Rightarrow> Inr a)"

lemma expect_simps [simp, result_simps]:
  "expect None = Inl Panic" "expect (Some a) = Inr a"
  by (simp_all add: expect_def)

lemma expect_eq_Inr [result_simps]: "expect x = Inr a \<longleftrightarrow> x = Some a"
  by (cases x) auto

section \<open>Slices\<close>

text \<open>\<open>&s[a..b]\<close> for bounds that are known to be in range.\<close>

definition slice :: "'a list \<Rightarrow> nat \<Rightarrow> nat \<Rightarrow> 'a list" where
  "slice xs a b = take (b - a) (drop a xs)"

lemma slice_self [simp]: "slice xs a a = []"
  by (simp add: slice_def)

lemma slice_full [simp]: "slice xs 0 (length xs) = xs"
  by (simp add: slice_def)

lemma slice_from_zero: "slice xs 0 b = take b xs"
  by (simp add: slice_def)

lemma slice_to_end: "length xs \<le> b \<Longrightarrow> slice xs a b = drop a xs"
  by (simp add: slice_def)

lemma length_slice: "b \<le> length xs \<Longrightarrow> length (slice xs a b) = b - a"
  by (simp add: slice_def)

lemma slice_append_slice:
  assumes "a \<le> b" and "b \<le> c"
  shows "slice xs a b @ slice xs b c = slice xs a c"
proof -
  have "c - a = (b - a) + (c - b)" and "drop b xs = drop (b - a) (drop a xs)"
    using assms by simp_all
  then show ?thesis
    by (simp add: slice_def take_add)
qed

section \<open>partition_point\<close>

text \<open>
  The standard library specifies \<open>partition_point\<close> on a slice that is partitioned by
  the predicate: the index of the first element that fails it. The model is the
  length of the passing prefix; every use of it in this development comes with a
  proof that the slice is \<open>partitioned\<close>, which is where the two agree.
\<close>

definition partition_point :: "('a \<Rightarrow> bool) \<Rightarrow> 'a list \<Rightarrow> nat" where
  "partition_point p xs = length (takeWhile p xs)"

definition partitioned :: "('a \<Rightarrow> bool) \<Rightarrow> 'a list \<Rightarrow> bool" where
  "partitioned p xs \<longleftrightarrow> (\<forall>i j. i < j \<longrightarrow> j < length xs \<longrightarrow> p (xs ! j) \<longrightarrow> p (xs ! i))"

lemma partition_point_le: "partition_point p xs \<le> length xs"
  by (simp add: partition_point_def length_takeWhile_le)

lemma partition_point_before: "i < partition_point p xs \<Longrightarrow> p (xs ! i)"
proof -
  assume i: "i < partition_point p xs"
  then have "takeWhile p xs ! i \<in> set (takeWhile p xs)"
    by (simp add: partition_point_def)
  from set_takeWhileD [OF this] have "p (takeWhile p xs ! i)" ..
  with i show "p (xs ! i)"
    by (simp add: partition_point_def takeWhile_nth)
qed

lemma partition_point_at: "partition_point p xs < length xs \<Longrightarrow> \<not> p (xs ! partition_point p xs)"
  unfolding partition_point_def by (rule nth_length_takeWhile)

lemma partition_point_split:
  "takeWhile p xs = take (partition_point p xs) xs"
  "dropWhile p xs = drop (partition_point p xs) xs"
  unfolding partition_point_def by (rule takeWhile_eq_take, rule dropWhile_eq_drop)

lemma partitioned_after:
  assumes "partitioned p xs" and "partition_point p xs \<le> i" and "i < length xs"
  shows "\<not> p (xs ! i)"
proof (cases "i = partition_point p xs")
  case True
  with assms(3) show ?thesis by (simp add: partition_point_at)
next
  case False
  with assms have "partition_point p xs < i" by simp
  with assms show ?thesis
    unfolding partitioned_def by (meson partition_point_at order_less_trans)
qed

lemma partitioned_iff_lt:
  "partitioned p xs \<Longrightarrow> i < length xs \<Longrightarrow> p (xs ! i) \<longleftrightarrow> i < partition_point p xs"
proof
  assume "partitioned p xs" "i < length xs" "p (xs ! i)"
  with partitioned_after [of p xs i] show "i < partition_point p xs"
    by (cases "i < partition_point p xs") simp_all
qed (rule partition_point_before)

end
