(* ===== verification/Cancellation_Checks.thy ===== *)
theory Cancellation_Checks
  imports Prelude
begin

text \<open>
  Cooperative cancellation (\<open>cancellation.rs\<close>, the \<open>CancellationCheck\<close> trait of
  \<open>core.rs\<close> and the LSP's \<open>QueryCancellation\<close>). The host's answer may change between
  two calls, so a host is a function: the answer to its \<open>n\<close>-th query. The number of
  queries made so far is part of the state of whoever polls.
\<close>

type_synonym cancel_host = "nat \<Rightarrow> bool"

text \<open>\<open>NeverCancel\<close> answers no forever.\<close>

definition NeverCancel :: cancel_host where
  "NeverCancel = (\<lambda>_. False)"

section \<open>Checkpoints\<close>

definition CHECKPOINT_INTERVAL :: nat where
  "CHECKPOINT_INTERVAL = 256"

record CancellationCheckpoint =
  until_check :: nat
  queries :: nat

definition checkpoint_new :: "nat \<Rightarrow> CancellationCheckpoint" where
  "checkpoint_new q = \<lparr>until_check = 0, queries = q\<rparr>"

definition checkpoint_is_cancelled ::
    "cancel_host \<Rightarrow> CancellationCheckpoint \<Rightarrow> bool \<times> CancellationCheckpoint" where
  "checkpoint_is_cancelled host c =
     (if until_check c = 0
      then (host (queries c),
            c\<lparr>until_check := CHECKPOINT_INTERVAL - 1, queries := Suc (queries c)\<rparr>)
      else (False, c\<lparr>until_check := until_check c - 1\<rparr>))"

definition checkpoint_is_cancelled_now ::
    "cancel_host \<Rightarrow> CancellationCheckpoint \<Rightarrow> bool \<times> CancellationCheckpoint" where
  "checkpoint_is_cancelled_now host c =
     (host (queries c), c\<lparr>queries := Suc (queries c)\<rparr>)"

text \<open>
  \<open>sort_by_cancellable\<close>: one check, then the stable standard sort. Every comparison the
  program passes compares a key of the two values.
\<close>

definition sort_by_cancellable ::
    "cancel_host \<Rightarrow> ('a \<Rightarrow> 'k::linorder) \<Rightarrow> 'a list \<Rightarrow> CancellationCheckpoint
     \<Rightarrow> (unit + 'a list) \<times> CancellationCheckpoint" where
  "sort_by_cancellable host key xs c =
     (let (cancelled, c) = checkpoint_is_cancelled host c
      in if cancelled then (Inl (), c) else (Inr (sort_key key xs), c))"

section \<open>The LSP's query cancellation\<close>

datatype QueryError = RequestCancelled | ContentModified | Internal string

text \<open>
  \<open>QueryCancellation\<close> holds the request's token, the optional token of the document and
  a work counter. The two tokens are such functions over the number of polls made.
\<close>

record QueryCancellation =
  work :: nat
  polls :: nat

definition check_now ::
    "cancel_host \<Rightarrow> cancel_host option \<Rightarrow> QueryCancellation \<Rightarrow> (QueryError + unit) \<times> QueryCancellation" where
  "check_now request document c =
     (let c' = c\<lparr>polls := Suc (polls c)\<rparr> in
      if request (polls c) then (Inl RequestCancelled, c')
      else if (case document of None \<Rightarrow> False | Some token \<Rightarrow> token (polls c))
      then (Inl ContentModified, c')
      else (Inr (), c'))"

text \<open>
  \<open>fetch_add(1)\<close> returns the old count; the counter wraps at 64 bits, which the
  interval divides.
\<close>

definition query_checkpoint ::
    "cancel_host \<Rightarrow> cancel_host option \<Rightarrow> QueryCancellation \<Rightarrow> (QueryError + unit) \<times> QueryCancellation" where
  "query_checkpoint request document c =
     (let c' = c\<lparr>work := Suc (work c) mod 2 ^ 64\<rparr> in
      if work c mod CHECKPOINT_INTERVAL = 0 then check_now request document c'
      else (Inr (), c'))"

section \<open>The polling contract\<close>

text \<open>
  A loop that polls before each of \<open>n\<close> steps and stops at the first yes. What the
  loops of the program rely on: a check either asks the host (when it is due)
  or only counts down, and it is never due again for more than \<open>interval\<close> checks.
\<close>

primrec checks :: "('s \<Rightarrow> bool \<times> 's) \<Rightarrow> nat \<Rightarrow> 's \<Rightarrow> bool \<times> 's" where
  "checks check 0 s = (False, s)"
| "checks check (Suc n) s =
     (let (c, s') = check s in if c then (True, s') else checks check n s')"

locale polled_check =
  fixes check :: "cancel_host \<Rightarrow> 's \<Rightarrow> bool \<times> 's"
    and due :: "'s \<Rightarrow> nat"
    and asked :: "'s \<Rightarrow> nat"
    and interval :: nat
  assumes asks: "due s = 0 \<Longrightarrow> fst (check host s) = host (asked s)"
    and asks_count: "due s = 0 \<Longrightarrow> asked (snd (check host s)) = Suc (asked s)"
    and asks_due: "due s = 0 \<Longrightarrow> due (snd (check host s)) < interval"
    and counts: "0 < due s \<Longrightarrow> \<not> fst (check host s)"
    and counts_asked: "0 < due s \<Longrightarrow> asked (snd (check host s)) = asked s"
    and counts_due: "0 < due s \<Longrightarrow> due (snd (check host s)) = due s - 1"
begin

lemma never_spurious:
  assumes "\<And>q. \<not> host q"
  shows "\<not> fst (check host s)"
  using asks [of s host] counts [of s host] assms by (cases "due s = 0") auto

lemma noticed_when_due:
  assumes "host (asked s)"
  shows "due s < n \<Longrightarrow> fst (checks (check host) n s)"
  using assms
proof (induction n arbitrary: s)
  case 0
  then show ?case by simp
next
  case (Suc n)
  show ?case
  proof (cases "due s = 0")
    case True
    with Suc.prems asks show ?thesis by (simp add: case_prod_beta)
  next
    case False
    with Suc counts counts_asked counts_due
    have "fst (checks (check host) n (snd (check host s)))" and "\<not> fst (check host s)" by auto
    then show ?thesis by (simp add: case_prod_beta)
  qed
qed

end

interpretation checkpoint: polled_check checkpoint_is_cancelled until_check queries CHECKPOINT_INTERVAL
  by unfold_locales (auto simp: checkpoint_is_cancelled_def CHECKPOINT_INTERVAL_def)

definition query_due :: "QueryCancellation \<Rightarrow> nat" where
  "query_due c = (CHECKPOINT_INTERVAL - work c mod CHECKPOINT_INTERVAL) mod CHECKPOINT_INTERVAL"

definition query_is_cancelled ::
    "cancel_host option \<Rightarrow> cancel_host \<Rightarrow> QueryCancellation \<Rightarrow> bool \<times> QueryCancellation" where
  "query_is_cancelled document request c =
     (let (r, c') = query_checkpoint request document c in (r \<noteq> Inr (), c'))"

lemma query_due_zero: "query_due c = 0 \<longleftrightarrow> work c mod 256 = 0"
proof -
  have "work c mod 256 < 256" by simp
  then show ?thesis
    by (cases "work c mod 256 = 0") (simp_all add: query_due_def CHECKPOINT_INTERVAL_def)
qed

lemma query_due_succ:
  assumes "work c mod 256 \<noteq> 0"
  shows "query_due (c\<lparr>work := Suc (work c) mod 2 ^ 64\<rparr>) = query_due c - 1"
proof -
  have "Suc (work c) mod 2 ^ 64 mod 256 = Suc (work c) mod (256 :: nat)"
    by (rule mod_mod_cancel) simp
  moreover have "Suc (work c) mod 256 = (if work c mod 256 = 255 then 0 else Suc (work c mod 256))"
    by (simp add: mod_Suc)
  moreover have "work c mod 256 < 256" by simp
  ultimately show ?thesis
    using assms by (auto simp: query_due_def CHECKPOINT_INTERVAL_def)
qed

interpretation query: polled_check "query_is_cancelled None" query_due polls CHECKPOINT_INTERVAL
proof unfold_locales
  fix s host
  assume "query_due s = 0"
  then show "fst (query_is_cancelled None host s) = host (polls s)"
    and "polls (snd (query_is_cancelled None host s)) = Suc (polls s)"
    by (simp_all add: query_due_zero query_is_cancelled_def query_checkpoint_def check_now_def
        CHECKPOINT_INTERVAL_def Let_def)
next
  fix s :: QueryCancellation and host
  show "query_due (snd (query_is_cancelled None host s)) < CHECKPOINT_INTERVAL"
    by (simp add: query_due_def CHECKPOINT_INTERVAL_def)
next
  fix s host
  assume "0 < query_due s"
  then have "work s mod 256 \<noteq> 0" by (metis query_due_zero less_irrefl)
  then show "\<not> fst (query_is_cancelled None host s)"
    and "polls (snd (query_is_cancelled None host s)) = polls s"
    and "query_due (snd (query_is_cancelled None host s)) = query_due s - 1"
    using query_due_succ [of s]
    by (simp_all add: query_is_cancelled_def query_checkpoint_def CHECKPOINT_INTERVAL_def Let_def)
qed

section \<open>Properties\<close>



end
