(* ===== verification/Str.thy ===== *)
theory Str
  imports Prelude
begin

text \<open>
  Rust's \<open>str\<close> and the part of its standard library that the program uses. A string
  is the list of its UTF-8 bytes: an Isabelle \<open>char\<close> is exactly one byte, so every
  offset of the model is the byte offset of the source, and the literals of the
  source (all ASCII) are written as they are. Operations that the source performs per
  Unicode scalar value go through \<open>chars\<close>, which groups the bytes of each scalar by
  its lead byte. On the well-formed strings that Rust guarantees (\<open>valid_utf8\<close>) the
  grouping is the decoding.
\<close>

type_synonym str = string

section \<open>Bytes and scalar values\<close>

abbreviation byte_val :: "char \<Rightarrow> nat" where
  "byte_val \<equiv> of_char"

definition is_continuation :: "char \<Rightarrow> bool" where
  "is_continuation b \<longleftrightarrow> 128 \<le> byte_val b \<and> byte_val b < 192"

definition utf8_len :: "char \<Rightarrow> nat" where
  "utf8_len b =
     (if byte_val b < 192 then 1 else if byte_val b < 224 then 2
      else if byte_val b < 240 then 3 else 4)"

lemma utf8_len_pos [simp]: "0 < utf8_len b"
  by (simp add: utf8_len_def)

lemma utf8_len_nonzero [simp]: "utf8_len b \<noteq> 0"
  by (simp add: utf8_len_def)

lemma utf8_len_le: "utf8_len b \<le> 4"
  by (simp add: utf8_len_def)

fun chars :: "str \<Rightarrow> str list" where
  "chars [] = []"
| "chars (b # s) = (b # take (utf8_len b - 1) s) # chars (drop (utf8_len b - 1) s)"

lemma concat_chars [simp]: "concat (chars s) = s"
  by (induction s rule: chars.induct) auto

lemma chars_nonempty: "ch \<in> set (chars s) \<Longrightarrow> ch \<noteq> []"
  by (induction s rule: chars.induct) auto

lemma length_chars_le: "length (chars s) \<le> length s"
  by (induction s rule: chars.induct) (auto intro: le_trans)

text \<open>\<open>char::len_utf16\<close> and \<open>encode_utf16().count()\<close>: four-byte scalars take two units.\<close>

definition len_utf16 :: "str \<Rightarrow> nat" where
  "len_utf16 ch = (case ch of [] \<Rightarrow> 0 | b # _ \<Rightarrow> if utf8_len b = 4 then 2 else 1)"

definition utf16_len :: "str \<Rightarrow> nat" where
  "utf16_len s = sum_list (map len_utf16 (chars s))"

text \<open>Well-formed UTF-8 (Unicode, table 3-7).\<close>

definition in_byte_range :: "nat \<Rightarrow> nat \<Rightarrow> char \<Rightarrow> bool" where
  "in_byte_range lo hi b \<longleftrightarrow> lo \<le> byte_val b \<and> byte_val b \<le> hi"

definition valid_scalar :: "str \<Rightarrow> bool" where
  "valid_scalar ch = (case ch of
      [a] \<Rightarrow> byte_val a < 128
    | [a, b] \<Rightarrow> in_byte_range 194 223 a \<and> is_continuation b
    | [a, b, c] \<Rightarrow>
        (if byte_val a = 224 then in_byte_range 160 191 b
         else if byte_val a = 237 then in_byte_range 128 159 b
         else in_byte_range 225 239 a \<and> is_continuation b) \<and> is_continuation c
    | [a, b, c, d] \<Rightarrow>
        (if byte_val a = 240 then in_byte_range 144 191 b
         else if byte_val a = 244 then in_byte_range 128 143 b
         else in_byte_range 241 243 a \<and> is_continuation b)
        \<and> is_continuation c \<and> is_continuation d
    | _ \<Rightarrow> False)"

definition valid_utf8 :: "str \<Rightarrow> bool" where
  "valid_utf8 s \<longleftrightarrow> list_all valid_scalar (chars s)"

definition char_boundary :: "str \<Rightarrow> nat \<Rightarrow> bool" where
  "char_boundary s i \<longleftrightarrow> i = 0 \<or> i = length s \<or> (i < length s \<and> \<not> is_continuation (s ! i))"

lemma char_boundary_0 [simp]: "char_boundary s 0"
  by (simp add: char_boundary_def)

lemma char_boundary_length [simp]: "char_boundary s (length s)"
  by (simp add: char_boundary_def)

lemma char_boundary_le: "char_boundary s i \<Longrightarrow> i \<le> length s"
  by (auto simp: char_boundary_def)

text \<open>\<open>str::get(a..b)\<close>: absent when out of range, reversed, or inside a scalar value.\<close>

definition str_get :: "str \<Rightarrow> nat \<Rightarrow> nat \<Rightarrow> str option" where
  "str_get s a b =
     (if a \<le> b \<and> b \<le> length s \<and> char_boundary s a \<and> char_boundary s b
      then Some (slice s a b) else None)"

definition char_indices_from :: "nat \<Rightarrow> str list \<Rightarrow> (nat \<times> str) list" where
  "char_indices_from n cs =
     zip (map (\<lambda>k. n + length (concat (take k cs))) [0..<length cs]) cs"

definition char_indices :: "str \<Rightarrow> (nat \<times> str) list" where
  "char_indices s = char_indices_from 0 (chars s)"

lemma char_indices_from_Nil [simp]: "char_indices_from n [] = []"
  by (simp add: char_indices_from_def)

lemma char_indices_from_Cons [simp]:
  "char_indices_from n (c # cs) = (n, c) # char_indices_from (n + length c) cs"
proof -
  have "map (\<lambda>k. n + length (concat (take k (c # cs)))) [0..<Suc (length cs)] =
        n # map (\<lambda>k. n + length c + length (concat (take k cs))) [0..<length cs]"
    by (simp add: upt_rec [of 0 "Suc (length cs)"] map_Suc_upt [symmetric] add.assoc comp_def
             del: upt_Suc)
  then show ?thesis
    by (simp add: char_indices_from_def del: upt_Suc)
qed

section \<open>Boundaries of scalar values\<close>

definition char_offset :: "str \<Rightarrow> nat \<Rightarrow> nat" where
  "char_offset s k = length (concat (take k (chars s)))"

lemma char_offset_0 [simp]: "char_offset s 0 = 0"
  by (simp add: char_offset_def)

lemma char_offset_all: "length (chars s) \<le> k \<Longrightarrow> char_offset s k = length s"
  by (simp add: char_offset_def)

lemma char_offset_le: "char_offset s k \<le> length s"
  unfolding char_offset_def
  by (metis append_take_drop_id concat_append concat_chars le_add1 length_append)

lemma take_char_offset: "take (char_offset s k) s = concat (take k (chars s))"
  unfolding char_offset_def
  by (metis append_eq_conv_conj append_take_drop_id concat_append concat_chars)

lemma drop_char_offset: "drop (char_offset s k) s = concat (drop k (chars s))"
  unfolding char_offset_def
  by (metis append_eq_conv_conj append_take_drop_id concat_append concat_chars)

lemma take_append_full:
  "length s < n \<longrightarrow> r = [] \<Longrightarrow> take n (take n s @ r) = take n s \<and> drop n (take n s @ r) = r"
  by (cases "length s < n") auto

lemma chars_concat_take: "chars (concat (take k (chars s))) = take k (chars s)"
proof (induction s arbitrary: k rule: chars.induct)
  case 1
  then show ?case by simp
next
  case (2 b s)
  let ?n = "utf8_len b - 1"
  show ?case
  proof (cases k)
    case 0
    then show ?thesis by simp
  next
    case (Suc j)
    let ?rest = "concat (take j (chars (drop ?n s)))"
    have "length s < ?n \<longrightarrow> ?rest = []" by simp
    from take_append_full [OF this] "2.IH" Suc show ?thesis by simp
  qed
qed

lemma chars_concat_drop: "chars (concat (drop k (chars s))) = drop k (chars s)"
proof (induction s arbitrary: k rule: chars.induct)
  case 1
  then show ?case by simp
next
  case (2 b s)
  show ?case
  proof (cases k)
    case 0
    then show ?thesis by simp
  next
    case (Suc j)
    with "2.IH" show ?thesis by simp
  qed
qed

lemma chars_take_offset: "chars (take (char_offset s k) s) = take k (chars s)"
  by (simp add: take_char_offset chars_concat_take)

lemma chars_drop_offset: "chars (drop (char_offset s k) s) = drop k (chars s)"
  by (simp add: drop_char_offset chars_concat_drop)

lemma valid_scalar_shape:
  assumes "valid_scalar (b # t)"
  shows "length t = utf8_len b - 1" and "\<not> is_continuation b"
    and "\<forall>c \<in> set t. is_continuation c"
proof -
  have "length t = utf8_len b - 1 \<and> \<not> is_continuation b \<and> (\<forall>c \<in> set t. is_continuation c)"
    using assms
    by (auto simp: valid_scalar_def utf8_len_def is_continuation_def in_byte_range_def
             split: list.splits if_splits)
  then show "length t = utf8_len b - 1" "\<not> is_continuation b" "\<forall>c \<in> set t. is_continuation c"
    by auto
qed

lemma valid_utf8_head: "valid_utf8 (b # s) \<Longrightarrow> \<not> is_continuation b"
  using valid_scalar_shape(2) by (fastforce simp: valid_utf8_def)

lemma valid_utf8_take_offset: "valid_utf8 s \<Longrightarrow> valid_utf8 (take (char_offset s k) s)"
  unfolding valid_utf8_def chars_take_offset by (auto simp: list_all_iff dest: in_set_takeD)

lemma valid_utf8_drop_offset: "valid_utf8 s \<Longrightarrow> valid_utf8 (drop (char_offset s k) s)"
  unfolding valid_utf8_def chars_drop_offset by (auto simp: list_all_iff dest: in_set_dropD)

lemma char_offset_boundary:
  assumes "valid_utf8 s"
  shows "char_boundary s (char_offset s k)"
proof (cases "char_offset s k < length s")
  case True
  then obtain b t where bt: "drop (char_offset s k) s = b # t"
    by (metis drop_eq_Nil2 linorder_not_less neq_Nil_conv)
  moreover have "valid_utf8 (drop (char_offset s k) s)"
    using assms by (rule valid_utf8_drop_offset)
  ultimately have "\<not> is_continuation b"
    using valid_utf8_head by simp
  moreover from bt have "s ! char_offset s k = b"
    by (metis True hd_drop_conv_nth list.sel(1))
  ultimately show ?thesis
    using True by (simp add: char_boundary_def)
next
  case False
  with char_offset_le [of s k] show ?thesis
    by (simp add: char_boundary_def)
qed

lemma char_boundary_offset:
  "valid_utf8 s \<Longrightarrow> char_boundary s i \<Longrightarrow> \<exists>k \<le> length (chars s). i = char_offset s k"
proof (induction s arbitrary: i rule: chars.induct)
  case 1
  then show ?case by (simp add: char_boundary_def)
next
  case (2 b s)
  let ?t = "take (utf8_len b - 1) s"
  let ?r = "drop (utf8_len b - 1) s"
  have shape: "length ?t = utf8_len b - 1" "\<forall>c \<in> set ?t. is_continuation c"
    and validr: "valid_utf8 ?r"
    using "2.prems"(1) valid_scalar_shape [of b ?t] by (simp_all add: valid_utf8_def)
  show ?case
  proof (cases "i = 0")
    case True
    then show ?thesis by (intro exI [of _ 0]) simp
  next
    case False
    then obtain j where j: "i = Suc j" by (cases i) auto
    have "length ?t \<le> j"
    proof (rule ccontr)
      assume "\<not> length ?t \<le> j"
      then have "j < length ?t" by (rule not_le_imp_less)
      then have "j < length s" and "?t ! j = s ! j" by auto
      with \<open>j < length ?t\<close> have "s ! j \<in> set ?t" by (metis nth_mem)
      with shape(2) have "is_continuation ((b # s) ! i)" and "i < length (b # s)"
        using j \<open>j < length s\<close> by auto
      with "2.prems"(2) j show False
        by (auto simp: char_boundary_def)
    qed
    moreover have "j \<le> length s"
      using "2.prems"(2) j char_boundary_le by fastforce
    ultimately have "char_boundary ?r (j - length ?t)"
      using "2.prems"(2) j shape(1) by (auto simp: char_boundary_def diff_less_mono)
    from "2.IH" [OF validr this] obtain k where
      k: "k \<le> length (chars ?r)" "j - length ?t = char_offset ?r k" by auto
    have "char_offset (b # s) (Suc k) = Suc (length ?t) + char_offset ?r k"
      by (simp add: char_offset_def)
    moreover have "j = length ?t + char_offset ?r k"
      using k(2) \<open>length ?t \<le> j\<close> by linarith
    ultimately have "i = char_offset (b # s) (Suc k)"
      unfolding j by linarith
    with k(1) show ?thesis
      by (intro exI [of _ "Suc k"]) simp
  qed
qed

lemma char_boundary_after_ascii:
  assumes "valid_utf8 s" and "i < length s" and "byte_val (s ! i) < 128"
  shows "char_boundary s (Suc i)"
proof -
  have "char_boundary s i"
    using assms(2,3) by (simp add: char_boundary_def is_continuation_def)
  with assms(1) obtain k where k: "i = char_offset s k"
    using char_boundary_offset by blast
  then obtain b t where bt: "drop i s = b # t" and b: "b = s ! i"
    by (metis Cons_nth_drop_Suc assms(2))
  then have "chars (drop i s) = [b] # chars t"
    using assms(3) by (simp add: utf8_len_def)
  with k have "drop k (chars s) = [b] # chars t"
    using chars_drop_offset [of s k] by simp
  then have "take (Suc k) (chars s) = take k (chars s) @ [[b]]"
    by (metis Cons_nth_drop_Suc drop_eq_Nil2 linorder_not_le list.inject list.simps(3)
        take_Suc_conv_app_nth)
  then have "char_offset s (Suc k) = Suc i"
    using k by (simp add: char_offset_def)
  with char_offset_boundary [OF assms(1), of "Suc k"] show ?thesis by simp
qed

lemma valid_utf8_slice:
  assumes "valid_utf8 s" and "char_boundary s a" and "char_boundary s b" and "a \<le> b"
  shows "valid_utf8 (slice s a b)"
proof -
  obtain j k where jk: "a = char_offset s j" "b = char_offset s k"
    using assms char_boundary_offset by blast
  let ?p = "take b s"
  have p: "valid_utf8 ?p"
    using assms(1) jk(2) valid_utf8_take_offset by simp
  have "char_boundary ?p a"
    using assms(2,4) char_boundary_le [OF assms(3)] by (auto simp: char_boundary_def)
  with p obtain m where "a = char_offset ?p m"
    using char_boundary_offset by blast
  with p have "valid_utf8 (drop a ?p)"
    using valid_utf8_drop_offset by metis
  then show ?thesis
    by (simp add: slice_def drop_take)
qed

section \<open>ASCII classes\<close>

definition is_ascii_digit :: "char \<Rightarrow> bool" where
  "is_ascii_digit b \<longleftrightarrow> in_byte_range 48 57 b"

definition is_ascii_upper :: "char \<Rightarrow> bool" where
  "is_ascii_upper b \<longleftrightarrow> in_byte_range 65 90 b"

definition is_ascii_lower :: "char \<Rightarrow> bool" where
  "is_ascii_lower b \<longleftrightarrow> in_byte_range 97 122 b"

definition is_ascii_alphabetic :: "char \<Rightarrow> bool" where
  "is_ascii_alphabetic b \<longleftrightarrow> is_ascii_upper b \<or> is_ascii_lower b"

definition is_ascii_alphanumeric :: "char \<Rightarrow> bool" where
  "is_ascii_alphanumeric b \<longleftrightarrow> is_ascii_alphabetic b \<or> is_ascii_digit b"

definition ascii_lower :: "char \<Rightarrow> char" where
  "ascii_lower b = (if is_ascii_upper b then char_of (byte_val b + 32) else b)"

definition to_ascii_lowercase :: "str \<Rightarrow> str" where
  "to_ascii_lowercase s = map ascii_lower s"

definition eq_ignore_ascii_case :: "str \<Rightarrow> str \<Rightarrow> bool" where
  "eq_ignore_ascii_case a b \<longleftrightarrow> to_ascii_lowercase a = to_ascii_lowercase b"

lemma byte_val_less_256: "byte_val b < 256"
  by (metis nat_of_char_less_256)

lemma ascii_lower_idem [simp]: "ascii_lower (ascii_lower b) = ascii_lower b"
  by (auto simp: ascii_lower_def is_ascii_upper_def in_byte_range_def)

lemma to_ascii_lowercase_idem [simp]:
  "to_ascii_lowercase (to_ascii_lowercase s) = to_ascii_lowercase s"
  by (simp add: to_ascii_lowercase_def)

lemma length_to_ascii_lowercase [simp]: "length (to_ascii_lowercase s) = length s"
  by (simp add: to_ascii_lowercase_def)

section \<open>Unicode classes the source asks about\<close>

text \<open>\<open>char::is_control\<close>: U+0000 to U+001F and U+007F to U+009F.\<close>

definition is_control :: "str \<Rightarrow> bool" where
  "is_control ch = (case ch of
      [a] \<Rightarrow> byte_val a < 32 \<or> byte_val a = 127
    | [a, b] \<Rightarrow> byte_val a = 194 \<and> in_byte_range 128 159 b
    | _ \<Rightarrow> False)"

text \<open>\<open>char::is_whitespace\<close>: the White\_Space property, by encoded bytes.\<close>

definition is_whitespace :: "str \<Rightarrow> bool" where
  "is_whitespace ch = (case map byte_val ch of
      [a] \<Rightarrow> a \<in> {9, 10, 11, 12, 13, 32}
    | [a, b] \<Rightarrow> a = 194 \<and> b \<in> {133, 160}
    | [a, b, c] \<Rightarrow>
        (a = 225 \<and> b = 154 \<and> c = 128)
        \<or> (a = 226 \<and> b = 128 \<and> ((128 \<le> c \<and> c \<le> 138) \<or> c \<in> {168, 169, 175}))
        \<or> (a = 226 \<and> b = 129 \<and> c = 159)
        \<or> (a = 227 \<and> b = 128 \<and> c = 128)
    | _ \<Rightarrow> False)"

definition trim_start :: "str \<Rightarrow> str" where
  "trim_start s = concat (dropWhile is_whitespace (chars s))"

definition trim :: "str \<Rightarrow> str" where
  "trim s =
     concat (rev (dropWhile is_whitespace (rev (dropWhile is_whitespace (chars s)))))"

section \<open>Trimming sets of ASCII characters\<close>

text \<open>
  A byte of an ASCII set never occurs inside a longer scalar, so trimming by such a set
  works on bytes.
\<close>

definition trim_start_matches :: "char list \<Rightarrow> str \<Rightarrow> str" where
  "trim_start_matches pat s = dropWhile (\<lambda>b. List.member pat b) s"

definition trim_end_matches :: "char list \<Rightarrow> str \<Rightarrow> str" where
  "trim_end_matches pat s = rev (dropWhile (\<lambda>b. List.member pat b) (rev s))"

definition trim_matches :: "char list \<Rightarrow> str \<Rightarrow> str" where
  "trim_matches pat s = trim_end_matches pat (trim_start_matches pat s)"

abbreviation line_feed :: char where
  "line_feed \<equiv> CHR 0x0A"

abbreviation carriage_return :: char where
  "carriage_return \<equiv> CHR 0x0D"

abbreviation tab :: char where
  "tab \<equiv> CHR 0x09"

abbreviation backslash :: char where
  "backslash \<equiv> CHR 0x5C"

abbreviation quote_char :: char where
  "quote_char \<equiv> CHR 0x27"

abbreviation double_quote :: char where
  "double_quote \<equiv> CHR 0x22"

lemma trim_end_matches_split:
  "\<exists>e. s = trim_end_matches pat s @ e \<and> (\<forall>b \<in> set e. List.member pat b)"
proof -
  let ?p = "\<lambda>b. List.member pat b"
  have "rev s = takeWhile ?p (rev s) @ dropWhile ?p (rev s)" by simp
  then have "s = rev (dropWhile ?p (rev s)) @ rev (takeWhile ?p (rev s))"
    by (metis rev_append rev_rev_ident)
  moreover have "\<forall>b \<in> set (rev (takeWhile ?p (rev s))). ?p b"
    by (auto dest: set_takeWhileD)
  ultimately show ?thesis
    unfolding trim_end_matches_def by blast
qed

lemma length_trim_end_matches: "length (trim_end_matches pat s) \<le> length s"
  unfolding trim_end_matches_def by (metis length_dropWhile_le length_rev)

lemma trim_end_matches_eq_take:
  "trim_end_matches pat s = take (length (trim_end_matches pat s)) s"
  using trim_end_matches_split [of s pat] by (metis append_eq_conv_conj)

section \<open>Searching and splitting\<close>

definition starts_with :: "str \<Rightarrow> str \<Rightarrow> bool" where
  "starts_with s p \<longleftrightarrow> take (length p) s = p"

definition ends_with :: "str \<Rightarrow> str \<Rightarrow> bool" where
  "ends_with s p \<longleftrightarrow> length p \<le> length s \<and> drop (length s - length p) s = p"

definition strip_prefix :: "str \<Rightarrow> str \<Rightarrow> str option" where
  "strip_prefix s p = (if starts_with s p then Some (drop (length p) s) else None)"

definition strip_suffix :: "str \<Rightarrow> str \<Rightarrow> str option" where
  "strip_suffix s p = (if ends_with s p then Some (take (length s - length p) s) else None)"

fun find_if :: "('a \<Rightarrow> bool) \<Rightarrow> 'a list \<Rightarrow> nat option" where
  "find_if p [] = None"
| "find_if p (b # s) = (if p b then Some 0 else map_option Suc (find_if p s))"

definition find_char :: "char \<Rightarrow> str \<Rightarrow> nat option" where
  "find_char c s = find_if (\<lambda>b. b = c) s"

definition rfind_char :: "char \<Rightarrow> str \<Rightarrow> nat option" where
  "rfind_char c s = map_option (\<lambda>i. length s - 1 - i) (find_char c (rev s))"

fun find_str :: "str \<Rightarrow> str \<Rightarrow> nat option" where
  "find_str p [] = (if p = [] then Some 0 else None)"
| "find_str p (b # s) =
     (if starts_with (b # s) p then Some 0 else map_option Suc (find_str p s))"

definition split_once_char :: "char \<Rightarrow> str \<Rightarrow> (str \<times> str) option" where
  "split_once_char c s = map_option (\<lambda>i. (take i s, drop (Suc i) s)) (find_char c s)"

definition rsplit_once_char :: "char \<Rightarrow> str \<Rightarrow> (str \<times> str) option" where
  "rsplit_once_char c s = map_option (\<lambda>i. (take i s, drop (Suc i) s)) (rfind_char c s)"

definition split_once_str :: "str \<Rightarrow> str \<Rightarrow> (str \<times> str) option" where
  "split_once_str p s = map_option (\<lambda>i. (take i s, drop (i + length p) s)) (find_str p s)"

fun split_chars :: "char list \<Rightarrow> str \<Rightarrow> str list" where
  "split_chars pat [] = [[]]"
| "split_chars pat (b # s) =
     (if List.member pat b then [] # split_chars pat s
      else (case split_chars pat s of [] \<Rightarrow> [[b]] | w # ws \<Rightarrow> (b # w) # ws))"

text \<open>\<open>split_inclusive('\n')\<close>: each piece keeps its line feed, and no empty last piece.\<close>

fun split_inclusive_lf :: "str \<Rightarrow> str list" where
  "split_inclusive_lf [] = []"
| "split_inclusive_lf (b # s) =
     (if b = line_feed then [b] # split_inclusive_lf s
      else (case split_inclusive_lf s of [] \<Rightarrow> [[b]] | w # ws \<Rightarrow> (b # w) # ws))"

lemma find_if_Some:
  "find_if p s = Some i \<longleftrightarrow> i < length s \<and> p (s ! i) \<and> (\<forall>j < i. \<not> p (s ! j))"
proof (induction s arbitrary: i)
  case Nil
  then show ?case by simp
next
  case (Cons b s)
  show ?case
    by (cases i) (auto simp: Cons.IH nth_Cons' less_Suc_eq_0_disj All_less_Suc2)
qed

lemma find_if_None: "find_if p s = None \<longleftrightarrow> (\<forall>b \<in> set s. \<not> p b)"
  by (induction s) auto

lemma find_char_Some:
  "find_char c s = Some i \<longleftrightarrow> i < length s \<and> s ! i = c \<and> c \<notin> set (take i s)"
  by (auto simp: find_char_def find_if_Some in_set_conv_nth)

lemma find_char_None [simp]: "find_char c s = None \<longleftrightarrow> c \<notin> set s"
  by (auto simp: find_char_def find_if_None)

lemma find_char_length: "find_char c s = Some i \<Longrightarrow> i < length s"
  by (simp add: find_char_Some)

lemma rfind_char_length: "rfind_char c s = Some i \<Longrightarrow> i < length s"
  by (auto simp: rfind_char_def find_char_Some)

lemma starts_with_length: "starts_with s p \<Longrightarrow> length p \<le> length s"
  by (metis length_take min.cobounded1 starts_with_def)

lemma starts_with_prefix: "starts_with s p \<longleftrightarrow> (\<exists>t. s = p @ t)"
  unfolding starts_with_def by (metis append_eq_conv_conj append_take_drop_id)

lemma starts_with_append [simp]: "starts_with (p @ s) p"
  by (simp add: starts_with_def)

lemma strip_prefix_Some: "strip_prefix s p = Some t \<longleftrightarrow> s = p @ t"
  by (auto simp: strip_prefix_def starts_with_prefix)

lemma strip_suffix_Some: "strip_suffix s p = Some t \<longleftrightarrow> s = t @ p"
proof
  assume "strip_suffix s p = Some t"
  then have "drop (length s - length p) s = p" and "t = take (length s - length p) s"
    by (auto simp: strip_suffix_def ends_with_def split: if_splits)
  then show "s = t @ p" by (metis append_take_drop_id)
qed (simp add: strip_suffix_def ends_with_def)

lemma split_chars_nonempty [simp]: "split_chars pat s \<noteq> []"
  by (induction s) (auto split: list.split)

lemma split_chars_no_sep:
  "w \<in> set (split_chars seps s) \<Longrightarrow> b \<in> set w \<Longrightarrow> \<not> List.member seps b"
proof (induction s arbitrary: w)
  case Nil
  then show ?case by simp
next
  case (Cons a s)
  obtain u us where u: "split_chars seps s = u # us"
    by (meson neq_Nil_conv split_chars_nonempty)
  show ?case
  proof (cases "List.member seps a")
    case True
    with Cons show ?thesis by auto
  next
    case False
    with Cons.prems u have "w = a # u \<or> w \<in> set us" by auto
    with Cons.IH [of u] Cons.IH [of w] Cons.prems(2) u False show ?thesis by auto
  qed
qed

lemma concat_split_inclusive_lf [simp]: "concat (split_inclusive_lf s) = s"
  by (induction s) (auto split: list.splits)

lemma split_inclusive_lf_nonempty: "w \<in> set (split_inclusive_lf s) \<Longrightarrow> w \<noteq> []"
  by (induction s arbitrary: w) (auto split: list.splits if_splits)

lemma split_inclusive_lf_eq_Nil [simp]: "split_inclusive_lf s = [] \<longleftrightarrow> s = []"
  by (cases s) (auto split: list.splits)

section \<open>Integers as text\<close>

definition digit_val :: "char \<Rightarrow> nat" where
  "digit_val b = byte_val b - 48"

definition digit_char :: "nat \<Rightarrow> char" where
  "digit_char d = char_of (48 + d)"

fun digits_value :: "nat \<Rightarrow> str \<Rightarrow> nat option" where
  "digits_value acc [] = Some acc"
| "digits_value acc (b # s) =
     (if is_ascii_digit b then digits_value (10 * acc + digit_val b) s else None)"

text \<open>
  \<open>str::parse\<close> for an unsigned type with maximum \<open>hi\<close>: an optional plus sign and at
  least one digit. For a signed type the sign may be minus as well.
\<close>

definition parse_unsigned :: "nat \<Rightarrow> str \<Rightarrow> nat option" where
  "parse_unsigned hi s =
     (let body = (if starts_with s ''+'' then tl s else s)
      in if body = [] then None
         else (case digits_value 0 body of
                 None \<Rightarrow> None
               | Some n \<Rightarrow> if n \<le> hi then Some n else None))"

definition parse_signed :: "int \<Rightarrow> int \<Rightarrow> str \<Rightarrow> int option" where
  "parse_signed lo hi s =
     (let negative = starts_with s ''-'';
          body = (if negative \<or> starts_with s ''+'' then tl s else s)
      in if body = [] then None
         else (case digits_value 0 body of
                 None \<Rightarrow> None
               | Some n \<Rightarrow>
                   (let v = (if negative then - int n else int n)
                    in if lo \<le> v \<and> v \<le> hi then Some v else None)))"

definition parse_i32 :: "str \<Rightarrow> int option" where
  "parse_i32 = parse_signed (- 2147483648) 2147483647"

definition i64_max :: int where
  "i64_max = 9223372036854775807"

definition parse_i64 :: "str \<Rightarrow> int option" where
  "parse_i64 = parse_signed (- 9223372036854775808) i64_max"

definition parse_u128 :: "str \<Rightarrow> nat option" where
  "parse_u128 = parse_unsigned (2 ^ 128 - 1)"

text \<open>\<open>to_string\<close> of an integer.\<close>

fun nat_to_string :: "nat \<Rightarrow> str" where
  "nat_to_string n =
     (if n < 10 then [digit_char n] else nat_to_string (n div 10) @ [digit_char (n mod 10)])"

declare nat_to_string.simps [simp del]

definition int_to_string :: "int \<Rightarrow> str" where
  "int_to_string i =
     (if i < 0 then ''-'' @ nat_to_string (nat (- i)) else nat_to_string (nat i))"

lemma byte_val_digit_char: "d < 10 \<Longrightarrow> byte_val (digit_char d) = 48 + d"
  by (simp add: digit_char_def)

lemma digit_char_digit [simp]: "d < 10 \<Longrightarrow> is_ascii_digit (digit_char d)"
  by (simp add: is_ascii_digit_def in_byte_range_def byte_val_digit_char)

lemma digit_val_digit_char [simp]: "d < 10 \<Longrightarrow> digit_val (digit_char d) = d"
  by (simp add: digit_val_def byte_val_digit_char)

lemma digits_value_append:
  "digits_value acc (s @ t) =
     (case digits_value acc s of None \<Rightarrow> None | Some n \<Rightarrow> digits_value n t)"
  by (induction s arbitrary: acc) auto

lemma digits_value_nat_to_string: "digits_value 0 (nat_to_string n) = Some n"
proof (induction n rule: nat_to_string.induct)
  case (1 n)
  show ?case
  proof (cases "n < 10")
    case True
    then show ?thesis by (simp add: nat_to_string.simps [of n])
  next
    case False
    with 1 have "digits_value 0 (nat_to_string (n div 10)) = Some (n div 10)" by simp
    with False show ?thesis
      by (simp add: nat_to_string.simps [of n] digits_value_append)
  qed
qed

lemma nat_to_string_digits: "b \<in> set (nat_to_string n) \<Longrightarrow> is_ascii_digit b"
proof (induction n rule: nat_to_string.induct)
  case (1 n)
  then show ?case
    by (cases "n < 10") (auto simp: nat_to_string.simps [of n])
qed

lemma nat_to_string_nonempty [simp]: "nat_to_string n \<noteq> []"
  by (subst nat_to_string.simps) simp

lemma chars_ascii: "\<forall>b \<in> set s. byte_val b < 128 \<Longrightarrow> chars s = map (\<lambda>b. [b]) s"
  by (induction s) (simp_all add: utf8_len_def)

lemma concat_singletons [simp]: "concat (map (\<lambda>b. [b]) s) = s"
  by (induction s) simp_all

lemma dropWhile_none: "\<forall>x \<in> set xs. \<not> p x \<Longrightarrow> dropWhile p xs = xs"
  by (cases xs) simp_all

text \<open>Trimming does nothing to a text of visible ASCII characters.\<close>

lemma trim_visible:
  assumes "\<forall>b \<in> set s. 32 < byte_val b \<and> byte_val b < 128"
  shows "trim s = s"
proof -
  have cs: "chars s = map (\<lambda>b. [b]) s" using assms chars_ascii by auto
  have none: "\<forall>ch \<in> set (chars s). \<not> is_whitespace ch"
    unfolding cs using assms by (auto simp: is_whitespace_def)
  then show ?thesis by (simp add: trim_def dropWhile_none)
qed

lemma int_to_string_bytes:
  "b \<in> set (int_to_string i) \<Longrightarrow> is_ascii_digit b \<or> b = CHR ''-''"
  by (auto simp: int_to_string_def split: if_splits dest: nat_to_string_digits)

lemma trim_int_to_string [simp]: "trim (int_to_string i) = int_to_string i"
  by (rule trim_visible) (auto dest!: int_to_string_bytes simp: is_ascii_digit_def in_byte_range_def)

lemma nat_to_string_head: "starts_with (nat_to_string n) [b] \<Longrightarrow> is_ascii_digit b"
proof -
  assume "starts_with (nat_to_string n) [b]"
  then have "b \<in> set (nat_to_string n)" by (auto simp: starts_with_prefix)
  then show ?thesis by (rule nat_to_string_digits)
qed

lemma parse_signed_int_to_string:
  assumes "lo \<le> i" and "i \<le> hi"
  shows "parse_signed lo hi (int_to_string i) = Some i"
proof (cases "i < 0")
  case True
  with assms show ?thesis
    by (simp add: parse_signed_def int_to_string_def digits_value_nat_to_string starts_with_def)
next
  case False
  have "\<not> starts_with (nat_to_string (nat i)) ''-''" "\<not> starts_with (nat_to_string (nat i)) ''+''"
    using nat_to_string_head [of "nat i"] by (force simp: is_ascii_digit_def in_byte_range_def)+
  with False assms show ?thesis
    by (simp add: parse_signed_def int_to_string_def digits_value_nat_to_string)
qed

lemma int_to_string_nonempty [simp]: "int_to_string i \<noteq> []"
  by (simp add: int_to_string_def)

section \<open>Locating parts of a text\<close>

lemma slice_middle: "slice (p @ x @ q) (length p) (length p + length x) = x"
  by (simp add: slice_def)

lemma slice_within:
  assumes "slice s start (start + length t) = t" and "b \<le> length t"
  shows "slice s (start + a) (start + b) = slice t a b"
proof -
  from assms(1) have "t = take (length t) (drop start s)" by (simp add: slice_def)
  then have "slice t a b = take (b - a) (drop a (take (length t) (drop start s)))"
    by (simp add: slice_def)
  also have "\<dots> = take (b - a) (drop (start + a) s)"
    using assms(2) by (simp add: drop_take min_def add.commute)
  finally show ?thesis by (simp add: slice_def)
qed

lemma trim_start_matches_split:
  "\<exists>lead. s = lead @ trim_start_matches pat s \<and> (\<forall>b \<in> set lead. List.member pat b)"
  unfolding trim_start_matches_def
  by (metis set_takeWhileD takeWhile_dropWhile_id)

lemma trim_matches_split:
  "\<exists>lead trail. s = lead @ trim_matches pat s @ trail
     \<and> length lead = length s - length (trim_start_matches pat s)"
proof -
  obtain lead where l: "s = lead @ trim_start_matches pat s"
    using trim_start_matches_split by blast
  obtain trail where t: "trim_start_matches pat s = trim_matches pat s @ trail"
    using trim_end_matches_split unfolding trim_matches_def by metis
  have "length lead = length s - length (trim_start_matches pat s)"
    by (metis add_diff_cancel_right' l length_append)
  with l t show ?thesis by metis
qed

lemma find_char_split: "find_char c s = Some i \<Longrightarrow> s = take i s @ c # drop (Suc i) s"
  by (metis find_char_Some id_take_nth_drop)

lemma find_char_append: "c \<notin> set p \<Longrightarrow> find_char c (p @ c # q) = Some (length p)"
  by (simp add: find_char_Some nth_append)

section \<open>Evaluation\<close>

lemma char_of_numeral:
  "char_of (numeral k :: nat) =
     Char (odd (numeral k :: nat)) (odd (drop_bit 1 (numeral k :: nat)))
       (odd (drop_bit 2 (numeral k :: nat))) (odd (drop_bit 3 (numeral k :: nat)))
       (odd (drop_bit 4 (numeral k :: nat))) (odd (drop_bit 5 (numeral k :: nat)))
       (odd (drop_bit 6 (numeral k :: nat))) (odd (drop_bit 7 (numeral k :: nat)))"
  by (simp add: char_of_def bit_iff_odd_drop_bit)

text \<open>The equations that evaluate string operations on concrete texts with \<open>simp\<close>.\<close>

lemmas str_eval =
  utf8_len_def is_continuation_def slice_def starts_with_def ends_with_def
  strip_prefix_def strip_suffix_def char_indices_def u32_max_def usize_max_def
  char_boundary_def str_get_def find_char_def rfind_char_def split_once_char_def
  rsplit_once_char_def split_once_str_def trim_def trim_start_def trim_matches_def
  trim_start_matches_def trim_end_matches_def is_whitespace_def is_control_def
  in_byte_range_def is_ascii_digit_def is_ascii_upper_def is_ascii_lower_def
  is_ascii_alphabetic_def is_ascii_alphanumeric_def ascii_lower_def to_ascii_lowercase_def
  eq_ignore_ascii_case_def parse_unsigned_def parse_signed_def parse_i32_def parse_i64_def
  parse_u128_def i64_max_def digit_val_def digit_char_def nat_to_string.simps
  int_to_string_def valid_utf8_def valid_scalar_def char_of_numeral

end
