(* ===== verification/Source.thy ===== *)
theory Source
  imports Str Cancellation_Checks
begin

text \<open>
  \<open>source.rs\<close>: byte offsets and ranges, the line index and the lossless tokens of a
  source text, and the conversion between offsets and editor positions.
\<close>

section \<open>Offsets, ranges and positions\<close>

record TextRange =
  range_start :: nat
  range_end :: nat

datatype PositionEncoding = Utf8 | Utf16

record Position =
  line :: nat
  character :: nat

datatype PositionError =
    SourceTooLarge nat
  | ReversedRange nat nat
  | OffsetOutOfBounds nat nat
  | InvalidCharBoundary nat
  | InsideLineEnding nat
  | LineOutOfBounds nat nat
  | CharacterOutOfBounds Position nat PositionEncoding
  | InvalidCharacterBoundary Position PositionEncoding

definition TextSize_new :: "nat \<Rightarrow> PositionError + nat" where
  "TextSize_new value = (if value \<le> u32_max then Inr value else Inl (SourceTooLarge value))"

definition TextRange_new :: "nat \<Rightarrow> nat \<Rightarrow> PositionError + TextRange" where
  "TextRange_new start end =
     (if start \<le> end then Inr \<lparr>range_start = start, range_end = end\<rparr>
      else Inl (ReversedRange start end))"

definition range_is_empty :: "TextRange \<Rightarrow> bool" where
  "range_is_empty r \<longleftrightarrow> range_start r = range_end r"

definition range_len :: "TextRange \<Rightarrow> nat" where
  "range_len r = range_end r - range_start r"

definition text_range :: "nat \<Rightarrow> nat \<Rightarrow> PositionError + TextRange" where
  "text_range start end =
     and_then (TextSize_new start) (\<lambda>s. and_then (TextSize_new end) (\<lambda>e. TextRange_new s e))"

lemma text_range_ok:
  "a \<le> b \<Longrightarrow> b \<le> u32_max \<Longrightarrow> text_range a b = Inr \<lparr>range_start = a, range_end = b\<rparr>"
  by (simp add: text_range_def TextSize_new_def TextRange_new_def)

lemma text_range_Inr:
  "text_range a b = Inr r \<longleftrightarrow>
     a \<le> b \<and> b \<le> u32_max \<and> r = \<lparr>range_start = a, range_end = b\<rparr>"
  by (auto simp: text_range_def TextSize_new_def TextRange_new_def)

text \<open>The byte offset of a UTF-16 column within a line.\<close>

fun utf16_walk :: "Position \<Rightarrow> nat \<Rightarrow> (nat \<times> str) list \<Rightarrow> nat \<Rightarrow> PositionError failure + (nat option \<times> nat)" where
  "utf16_walk position requested [] utf16_offset = Inr (None, utf16_offset)"
| "utf16_walk position requested ((byte_offset, ch) # rest) utf16_offset =
     (if utf16_offset = requested then Inr (Some byte_offset, utf16_offset)
      else if requested < utf16_offset + len_utf16 ch
      then Inl (Err (InvalidCharacterBoundary position Utf16))
      else utf16_walk position requested rest (utf16_offset + len_utf16 ch))"

definition utf16_character_to_byte :: "str \<Rightarrow> Position \<Rightarrow> PositionError failure + nat" where
  "utf16_character_to_byte content position =
     and_then (utf16_walk position (character position) (char_indices content) 0)
       (\<lambda>(found, utf16_offset). case found of
          Some byte_offset \<Rightarrow> Inr byte_offset
        | None \<Rightarrow>
            if utf16_offset = character position then Inr (length content)
            else if utf16_offset \<le> u32_max
            then Inl (Err (CharacterOutOfBounds position utf16_offset Utf16))
            else Inl Panic)"

section \<open>Lines and tokens\<close>

datatype LineEnding = NoEnding | Lf | CrLf

record SourceLine =
  content_range :: TextRange
  ending_range :: TextRange
  full_range :: TextRange
  ending_kind :: LineEnding

datatype LosslessTokenKind =
  Text | Whitespace | Comment | Delimiter | Unsupported | LineEndingToken LineEnding

record LosslessToken =
  token_kind :: LosslessTokenKind
  token_range :: TextRange

record SourceDocument =
  sd_source :: str
  sd_base :: nat
  sd_lines :: "SourceLine list"
  sd_tokens :: "LosslessToken list"

datatype SourceDocumentBuildError =
    PositionFailure PositionError
  | LineLimitExceeded nat nat
  | BuildCancelled

definition enforce_line_limit :: "nat \<Rightarrow> nat \<Rightarrow> SourceDocumentBuildError + unit" where
  "enforce_line_limit limit actual =
     (if limit < actual then Inl (LineLimitExceeded limit actual) else Inr ())"

definition is_blank :: "char \<Rightarrow> bool" where
  "is_blank b \<longleftrightarrow> b = CHR '' '' \<or> b = tab"

text \<open>
  The run scanner: \<open>run_kind\<close> is the kind of the run that started at \<open>run_start\<close>; a
  scalar of the other kind closes it.
\<close>

fun scan_runs ::
    "nat \<Rightarrow> (nat \<times> str) list \<Rightarrow> nat \<Rightarrow> LosslessTokenKind option \<Rightarrow> LosslessToken list
     \<Rightarrow> PositionError + (nat \<times> LosslessTokenKind option \<times> LosslessToken list)" where
  "scan_runs origin [] run_start run_kind tokens = Inr (run_start, run_kind, tokens)"
| "scan_runs origin ((offset, ch) # rest) run_start run_kind tokens =
     (let kind = (if ch = '' '' \<or> ch = [tab] then Whitespace else Text) in
      case run_kind of
        None \<Rightarrow> scan_runs origin rest run_start (Some kind) tokens
      | Some current \<Rightarrow>
          if current \<noteq> kind then
            and_then (text_range (origin + run_start) (origin + offset)) (\<lambda>r.
              scan_runs origin rest offset (Some kind)
                (tokens @ [\<lparr>token_kind = current, token_range = r\<rparr>]))
          else scan_runs origin rest run_start (Some kind) tokens)"

definition push_content_tokens ::
    "str \<Rightarrow> LosslessToken list \<Rightarrow> nat \<Rightarrow> nat \<Rightarrow> nat \<Rightarrow> PositionError + LosslessToken list" where
  "push_content_tokens source tokens start end base =
     (let content = slice source start end;
          leading_whitespace = length (takeWhile is_blank content)
      in if starts_with (drop leading_whitespace content) ''//'' then
           and_then
             (if leading_whitespace \<noteq> 0 then
                and_then (text_range (base + start) (base + start + leading_whitespace)) (\<lambda>r.
                  Inr (tokens @ [\<lparr>token_kind = Whitespace, token_range = r\<rparr>]))
              else Inr tokens) (\<lambda>tokens.
           and_then (text_range (base + start + leading_whitespace) (base + end)) (\<lambda>r.
             Inr (tokens @ [\<lparr>token_kind = Comment, token_range = r\<rparr>])))
         else
           and_then (scan_runs (base + start) (char_indices content) 0 None tokens)
             (\<lambda>(run_start, run_kind, tokens). case run_kind of
                None \<Rightarrow> Inr tokens
              | Some kind \<Rightarrow>
                  and_then (text_range (base + start + run_start) (base + end)) (\<lambda>r.
                    Inr (tokens @ [\<lparr>token_kind = kind, token_range = r\<rparr>]))))"

definition push_line ::
    "str \<Rightarrow> SourceLine list \<Rightarrow> LosslessToken list \<Rightarrow> nat \<times> nat \<times> nat \<Rightarrow> LineEnding \<Rightarrow> nat
     \<Rightarrow> PositionError + (SourceLine list \<times> LosslessToken list)" where
  "push_line source lines tokens bounds ending base =
     (case bounds of (start, content_end, full_end) \<Rightarrow>
      and_then (text_range (base + start) (base + content_end)) (\<lambda>content.
      and_then (text_range (base + content_end) (base + full_end)) (\<lambda>ending_r.
      and_then (text_range (base + start) (base + full_end)) (\<lambda>full.
      and_then (push_content_tokens source tokens start content_end base) (\<lambda>tokens.
        Inr (lines @ [\<lparr>content_range = content, ending_range = ending_r,
                       full_range = full, ending_kind = ending\<rparr>],
             if ending \<noteq> NoEnding
             then tokens @ [\<lparr>token_kind = LineEndingToken ending, token_range = ending_r\<rparr>]
             else tokens))))))"

definition line_ending_at :: "str \<Rightarrow> nat \<Rightarrow> (nat \<times> LineEnding) option" where
  "line_ending_at bytes cursor =
     (if bytes ! cursor = carriage_return \<and> Suc cursor < length bytes
         \<and> bytes ! Suc cursor = line_feed
      then Some (cursor + 2, CrLf)
      else if bytes ! cursor = line_feed then Some (cursor + 1, Lf)
      else None)"

lemma line_ending_at_progress: "line_ending_at bytes cursor = Some (full_end, e) \<Longrightarrow> cursor < full_end"
  by (auto simp: line_ending_at_def split: if_splits)

function scan_lines ::
    "cancel_host \<Rightarrow> nat \<Rightarrow> str \<Rightarrow> nat \<Rightarrow> nat \<Rightarrow> nat \<Rightarrow> nat \<Rightarrow> SourceLine list \<Rightarrow> LosslessToken list
     \<Rightarrow> SourceDocumentBuildError + (nat \<times> SourceLine list \<times> LosslessToken list \<times> nat)" where
  "scan_lines host q source max_line_bytes base line_start cursor lines tokens =
     (if cursor < length source then
        if cursor mod 4096 = 0 \<and> host q then Inl BuildCancelled
        else
          let q' = (if cursor mod 4096 = 0 then Suc q else q) in
          (case line_ending_at source cursor of
             None \<Rightarrow>
               scan_lines host q' source max_line_bytes base line_start (cursor + 1) lines tokens
           | Some (full_end, ending) \<Rightarrow>
               and_then (enforce_line_limit max_line_bytes (cursor - line_start)) (\<lambda>_.
               and_then
                 (map_err PositionFailure
                   (push_line source lines tokens (line_start, cursor, full_end) ending base))
                 (\<lambda>(lines, tokens).
                   scan_lines host q' source max_line_bytes base full_end full_end lines tokens)))
      else Inr (line_start, lines, tokens, q))"
  by pat_completeness auto
termination
  by (relation "measure (\<lambda>(_, _, source, _, _, _, cursor, _, _). length source - cursor)")
     (auto dest!: line_ending_at_progress)

declare scan_lines.simps [simp del]

definition from_fragment_bounded ::
    "cancel_host \<Rightarrow> nat \<Rightarrow> str \<Rightarrow> nat \<Rightarrow> nat \<Rightarrow> SourceDocumentBuildError + SourceDocument" where
  "from_fragment_bounded host q source base max_line_bytes =
     and_then (map_err PositionFailure (TextSize_new (length source))) (\<lambda>_.
     and_then (map_err PositionFailure
       (if base + length source \<le> usize_max then TextSize_new (base + length source)
        else Inl (SourceTooLarge usize_max))) (\<lambda>_.
     and_then (scan_lines host q source max_line_bytes base 0 0 [] [])
       (\<lambda>(line_start, lines, tokens, q).
     and_then (enforce_line_limit max_line_bytes (length source - line_start)) (\<lambda>_.
     if host q then Inl BuildCancelled
     else and_then
       (map_err PositionFailure
         (push_line source lines tokens (line_start, length source, length source) NoEnding base))
       (\<lambda>(lines, tokens).
         Inr \<lparr>sd_source = source, sd_base = base, sd_lines = lines, sd_tokens = tokens\<rparr>)))))"

definition from_shared_bounded ::
    "cancel_host \<Rightarrow> nat \<Rightarrow> str \<Rightarrow> nat \<Rightarrow> SourceDocumentBuildError + SourceDocument" where
  "from_shared_bounded host q source max_line_bytes =
     from_fragment_bounded host q source 0 max_line_bytes"

definition SourceDocument_new :: "str \<Rightarrow> PositionError failure + SourceDocument" where
  "SourceDocument_new source =
     (case from_shared_bounded NeverCancel 0 source u32_max of
        Inr document \<Rightarrow> Inr document
      | Inl (PositionFailure e) \<Rightarrow> Inl (Err e)
      | Inl (LineLimitExceeded _ _) \<Rightarrow> Inl Panic
      | Inl BuildCancelled \<Rightarrow> Inl Panic)"

section \<open>Queries\<close>

definition sd_text :: "SourceDocument \<Rightarrow> TextRange \<Rightarrow> str option" where
  "sd_text d r =
     (if sd_base d \<le> range_start r \<and> sd_base d \<le> range_end r
      then str_get (sd_source d) (range_start r - sd_base d) (range_end r - sd_base d)
      else None)"

fun concat_options :: "'a list option list \<Rightarrow> 'a list option" where
  "concat_options [] = Some []"
| "concat_options (x # xs) =
     (case x of None \<Rightarrow> None
      | Some a \<Rightarrow> map_option (\<lambda>b. a @ b) (concat_options xs))"

text \<open>\<open>reconstruct\<close> panics where a token's range is not a text range of the source.\<close>

definition reconstruct :: "SourceDocument \<Rightarrow> PositionError failure + str" where
  "reconstruct d = expect (concat_options (map (\<lambda>t. sd_text d (token_range t)) (sd_tokens d)))"

definition encoded_length :: "PositionEncoding \<Rightarrow> str \<Rightarrow> nat" where
  "encoded_length enc s = (case enc of Utf8 \<Rightarrow> length s | Utf16 \<Rightarrow> utf16_len s)"

definition to_u32 :: "nat \<Rightarrow> PositionError failure + nat" where
  "to_u32 n = (if n \<le> u32_max then Inr n else Inl Panic)"

definition line_count :: "SourceDocument \<Rightarrow> PositionError failure + nat" where
  "line_count d = to_u32 (length (sd_lines d))"

definition line_length ::
    "SourceDocument \<Rightarrow> nat \<Rightarrow> PositionEncoding \<Rightarrow> PositionError failure + nat" where
  "line_length d l enc =
     (if l < length (sd_lines d) then
        and_then (expect (sd_text d (content_range (sd_lines d ! l)))) (\<lambda>content.
          to_u32 (encoded_length enc content))
      else and_then (line_count d) (\<lambda>n. Inl (Err (LineOutOfBounds l n))))"

definition line_before :: "nat \<Rightarrow> SourceLine \<Rightarrow> bool" where
  "line_before offset l \<longleftrightarrow>
     range_end (full_range l) \<le> offset
     \<and> range_end (full_range l) \<noteq> range_end (content_range l)"

definition offset_to_position ::
    "SourceDocument \<Rightarrow> nat \<Rightarrow> PositionEncoding \<Rightarrow> PositionError failure + Position" where
  "offset_to_position d offset enc =
     (if length (sd_source d) < offset then
        and_then (map_err Err (TextSize_new offset)) (\<lambda>o'.
        and_then (map_err Err (TextSize_new (length (sd_source d)))) (\<lambda>n.
          Inl (Err (OffsetOutOfBounds o' n))))
      else if \<not> char_boundary (sd_source d) offset then
        and_then (map_err Err (TextSize_new offset)) (\<lambda>o'. Inl (Err (InvalidCharBoundary o')))
      else
        let line_number = partition_point (line_before offset) (sd_lines d) in
        if line_number < length (sd_lines d) then
          let l = sd_lines d ! line_number in
          if range_end (content_range l) < offset then
            and_then (map_err Err (TextSize_new offset)) (\<lambda>o'. Inl (Err (InsideLineEnding o')))
          else
            and_then (expect (str_get (sd_source d) (range_start (content_range l)) offset))
              (\<lambda>prefix.
            and_then (to_u32 line_number) (\<lambda>ln.
            and_then (to_u32 (encoded_length enc prefix)) (\<lambda>ch.
              Inr \<lparr>line = ln, character = ch\<rparr>)))
        else Inl Panic)"

definition position_to_offset ::
    "SourceDocument \<Rightarrow> Position \<Rightarrow> PositionEncoding \<Rightarrow> PositionError failure + nat" where
  "position_to_offset d position enc =
     (if line position < length (sd_lines d) then
        let l = sd_lines d ! line position in
        and_then (expect (sd_text d (content_range l))) (\<lambda>content.
        and_then
          (case enc of
             Utf8 \<Rightarrow>
               let requested = character position in
               if length content < requested then
                 and_then (to_u32 (length content)) (\<lambda>n.
                   Inl (Err (CharacterOutOfBounds position n enc)))
               else if \<not> char_boundary content requested then
                 Inl (Err (InvalidCharacterBoundary position enc))
               else Inr requested
           | Utf16 \<Rightarrow> utf16_character_to_byte content position)
          (\<lambda>relative. map_err Err (TextSize_new (range_start (content_range l) + relative))))
      else and_then (line_count d) (\<lambda>n. Inl (Err (LineOutOfBounds (line position) n))))"

section \<open>Indexed views\<close>

definition clip_line :: "nat \<Rightarrow> nat \<Rightarrow> bool \<Rightarrow> SourceLine \<Rightarrow> PositionError + SourceLine option" where
  "clip_line start end range_empty l =
     (let line_start = max (range_start (full_range l)) start;
          line_end = min (range_end (full_range l)) end
      in if line_end \<le> line_start \<and> \<not> (range_empty \<and> line_start = start) then Inr None
         else
           let content_start = max (range_start (content_range l)) line_start;
               content_end = max (min (range_end (content_range l)) line_end) content_start;
               ending_start = max (range_start (ending_range l)) line_start;
               ending_end = max (min (range_end (ending_range l)) line_end) ending_start
           in and_then (text_range content_start content_end) (\<lambda>c.
              and_then (text_range ending_start ending_end) (\<lambda>e.
              and_then (text_range line_start line_end) (\<lambda>f.
                Inr (Some \<lparr>content_range = c, ending_range = e, full_range = f,
                           ending_kind = (if ending_start < ending_end then ending_kind l
                                          else NoEnding)\<rparr>)))))"

fun clip_lines :: "nat \<Rightarrow> nat \<Rightarrow> bool \<Rightarrow> SourceLine list \<Rightarrow> PositionError + SourceLine list" where
  "clip_lines start end range_empty [] = Inr []"
| "clip_lines start end range_empty (l # ls) =
     and_then (clip_line start end range_empty l) (\<lambda>c.
     and_then (clip_lines start end range_empty ls) (\<lambda>cs.
       Inr (case c of None \<Rightarrow> cs | Some x \<Rightarrow> x # cs)))"

definition clip_token :: "nat \<Rightarrow> nat \<Rightarrow> LosslessToken \<Rightarrow> LosslessToken option" where
  "clip_token start end t =
     (let token_start = max (range_start (token_range t)) start;
          token_end = min (range_end (token_range t)) end
      in if token_start < token_end
         then Some \<lparr>token_kind = token_kind t,
                    token_range = \<lparr>range_start = token_start, range_end = token_end\<rparr>\<rparr>
         else None)"

definition indexed_view :: "SourceDocument \<Rightarrow> TextRange \<Rightarrow> PositionError + SourceDocument" where
  "indexed_view parent r =
     and_then
       (case sd_text parent r of
          Some _ \<Rightarrow> Inr ()
        | None \<Rightarrow>
            and_then (TextSize_new (length (sd_source parent))) (\<lambda>n.
              Inl (OffsetOutOfBounds (range_end r) n))) (\<lambda>_.
     and_then (clip_lines (range_start r) (range_end r) (range_is_empty r) (sd_lines parent))
       (\<lambda>lines.
     and_then
       (if lines = [] then
          and_then (TextRange_new (range_end r) (range_end r)) (\<lambda>e.
            Inr [\<lparr>content_range = r, ending_range = e, full_range = r, ending_kind = NoEnding\<rparr>])
        else Inr lines) (\<lambda>lines.
       Inr \<lparr>sd_source = sd_source parent, sd_base = sd_base parent, sd_lines = lines,
            sd_tokens = List.map_filter (clip_token (range_start r) (range_end r))
                          (sd_tokens parent)\<rparr>)))"


section \<open>Tiling: every byte belongs to exactly one token\<close>

fun tiles :: "(nat \<Rightarrow> bool) \<Rightarrow> nat \<Rightarrow> LosslessToken list \<Rightarrow> nat \<Rightarrow> bool" where
  "tiles P a [] b \<longleftrightarrow> a = b"
| "tiles P a (t # ts) b \<longleftrightarrow>
     range_start (token_range t) = a \<and> P a \<and> a < range_end (token_range t)
     \<and> tiles P (range_end (token_range t)) ts b"

lemma tiles_append: "tiles P a (xs @ ys) b \<longleftrightarrow> (\<exists>m. tiles P a xs m \<and> tiles P m ys b)"
  by (induction xs arbitrary: a) auto

lemma tiles_appendI: "tiles P a xs m \<Longrightarrow> tiles P m ys b \<Longrightarrow> tiles P a (xs @ ys) b"
  by (auto simp: tiles_append)

lemma tiles_le: "tiles P a ts b \<Longrightarrow> a \<le> b"
  by (induction ts arbitrary: a) fastforce+

lemma tiles_single:
  "tiles P a [\<lparr>token_kind = k, token_range = \<lparr>range_start = a, range_end = b\<rparr>\<rparr>] b \<longleftrightarrow> P a \<and> a < b"
  by auto

text \<open>The offsets a scan over \<open>char_indices\<close> may cut at.\<close>

definition cuts :: "nat \<Rightarrow> str list \<Rightarrow> nat set" where
  "cuts n cs = fst ` set (char_indices_from n cs)"

lemma cuts_Cons: "cuts n (c # cs) = insert n (cuts (n + length c) cs)"
  by (simp add: cuts_def)

lemma cuts_ge: "x \<in> cuts n cs \<Longrightarrow> n \<le> x"
  by (induction cs arbitrary: n) (force simp: cuts_def)+

lemma scan_runs_tiles:
  assumes "\<forall>c \<in> set cs. c \<noteq> []"
    and "origin + n + length (concat cs) \<le> u32_max"
    and "if kind = None then rs = n else rs < n"
    and "P (origin + rs)" and "\<forall>x \<in> cuts n cs. P (origin + x)"
  shows "\<exists>rs' kind' T.
    scan_runs origin (char_indices_from n cs) rs kind ts = Inr (rs', kind', ts @ T)
    \<and> tiles P (origin + rs) T (origin + rs') \<and> P (origin + rs')
    \<and> (if kind' = None then kind = None \<and> cs = [] else rs' < n + length (concat cs))"
  using assms
proof (induction cs arbitrary: n rs kind ts)
  case Nil
  then show ?case by (cases kind) auto
next
  case (Cons c cs)
  let ?kind = "if c = '' '' \<or> c = [tab] then Whitespace else Text"
  have c: "0 < length c" and "\<forall>d \<in> set cs. d \<noteq> []" using Cons.prems(1) by auto
  have step: "\<exists>rs' kind' T'.
      scan_runs origin (char_indices_from (n + length c) cs) r (Some ?kind) us = Inr (rs', kind', us @ T')
      \<and> tiles P (origin + r) T' (origin + rs') \<and> P (origin + rs')
      \<and> kind' \<noteq> None \<and> rs' < n + length (concat (c # cs))"
    if "r \<le> n" "P (origin + r)" for r us
  proof -
    have r: "r < n + length c" using that(1) c by linarith
    have "\<exists>rs' kind' T'.
      scan_runs origin (char_indices_from (n + length c) cs) r (Some ?kind) us = Inr (rs', kind', us @ T')
      \<and> tiles P (origin + r) T' (origin + rs') \<and> P (origin + rs')
      \<and> (if kind' = None then Some ?kind = None \<and> cs = []
         else rs' < n + length c + length (concat cs))"
      by (rule Cons.IH) (use Cons.prems that r \<open>\<forall>d \<in> set cs. d \<noteq> []\<close> in \<open>auto simp: cuts_Cons\<close>)
    then show ?thesis
      by (metis (no_types, lifting) add.assoc concat.simps(2) length_append option.distinct(1))
  qed
  show ?case
  proof (cases kind)
    case None
    with Cons.prems step [of n ts] show ?thesis
      by (simp add: Let_def) fastforce
  next
    case (Some k)
    then have rs: "rs < n" using Cons.prems(3) by simp
    show ?thesis
    proof (cases "k = ?kind")
      case True
      with Some rs step [of rs ts] Cons.prems(4) show ?thesis
        by (simp add: Let_def del: concat.simps) fastforce
    next
      case False
      let ?t = "\<lparr>token_kind = k, token_range = \<lparr>range_start = origin + rs, range_end = origin + n\<rparr>\<rparr>"
      have tr: "text_range (origin + rs) (origin + n) = Inr (token_range ?t)"
        using rs Cons.prems(2) by (simp add: text_range_ok)
      have Pn: "P (origin + n)" using Cons.prems(5) by (simp add: cuts_Cons)
      then have "tiles P (origin + rs) [?t] (origin + n)" using rs Cons.prems(4) by simp
      moreover obtain rs' kind' T' where
        "scan_runs origin (char_indices_from (n + length c) cs) n (Some ?kind) (ts @ [?t]) =
           Inr (rs', kind', ts @ [?t] @ T')"
        "tiles P (origin + n) T' (origin + rs')" "P (origin + rs')" "kind' \<noteq> None"
        "rs' < n + length (concat (c # cs))"
        using step [of n "ts @ [?t]"] Pn by auto
      ultimately show ?thesis
        using Some False tr tiles_appendI by (simp add: Let_def del: concat.simps)
    qed
  qed
qed

definition cut_at :: "str \<Rightarrow> nat \<Rightarrow> nat \<Rightarrow> bool" where
  "cut_at s base x \<longleftrightarrow> base \<le> x \<and> char_boundary s (x - base)"

lemma char_boundary_slice:
  assumes "char_boundary s a" "char_boundary s b" "a \<le> b" "char_boundary (slice s a b) i"
  shows "char_boundary s (a + i)"
proof -
  have len: "length (slice s a b) = b - a"
    using char_boundary_le [OF assms(2)] by (simp add: length_slice)
  have "i < b - a \<Longrightarrow> slice s a b ! i = s ! (a + i)"
    using char_boundary_le [OF assms(2)] assms(3) by (simp add: slice_def)
  with assms len show ?thesis
    by (auto simp: char_boundary_def)
qed

lemma cuts_char_indices: "x \<in> cuts n (chars s) \<Longrightarrow> \<exists>k. x = n + char_offset s k"
proof -
  have "x \<in> cuts n cs \<Longrightarrow> \<exists>k. x = n + length (concat (take k cs))" for cs
    by (auto simp: cuts_def char_indices_from_def set_zip)
  then show "x \<in> cuts n (chars s) \<Longrightarrow> \<exists>k. x = n + char_offset s k"
    by (simp add: char_offset_def)
qed

lemma content_cuts:
  assumes "valid_utf8 s" "char_boundary s a" "char_boundary s c" "a \<le> c"
    and "x \<in> cuts 0 (chars (slice s a c))"
  shows "cut_at s base (base + a + x)"
proof -
  obtain k where x: "x = char_offset (slice s a c) k"
    using cuts_char_indices [OF assms(5)] by auto
  have "char_boundary (slice s a c) x"
    unfolding x by (rule char_offset_boundary) (rule valid_utf8_slice [OF assms(1-4)])
  then have "char_boundary s (a + x)"
    using char_boundary_slice assms(2-4) by blast
  then show ?thesis by (simp add: cut_at_def)
qed

lemma push_content_tokens_tiles:
  assumes "valid_utf8 s" "char_boundary s a" "char_boundary s c" "a \<le> c"
    and "base + length s \<le> u32_max"
  shows "\<exists>T. push_content_tokens s ts a c base = Inr (ts @ T) \<and> tiles (cut_at s base) (base + a) T (base + c)"
proof -
  let ?content = "slice s a c"
  define lw where "lw = length (takeWhile is_blank ?content)"
  have bound: "base + c \<le> u32_max"
    using assms(3,5) char_boundary_le by fastforce
  have len: "length ?content = c - a"
    using char_boundary_le [OF assms(3)] by (simp add: length_slice)
  have cut: "cut_at s base (base + a)"
    using assms(2) by (simp add: cut_at_def)
  show ?thesis
  proof (cases "starts_with (drop lw ?content) ''//''")
    case True
    then obtain r where r: "drop lw ?content = ''//'' @ r"
      by (auto simp: starts_with_prefix)
    have lw: "lw < c - a"
    proof (rule ccontr)
      assume "\<not> lw < c - a"
      then have "drop lw ?content = []" using len by simp
      with r show False by simp
    qed
    then have "?content ! lw = hd (drop lw ?content)"
      using len by (simp add: hd_drop_conv_nth)
    then have "?content ! lw = CHR ''/''"
      by (simp add: r)
    then have "char_boundary ?content lw"
      using lw len by (simp add: char_boundary_def is_continuation_def)
    then have "cut_at s base (base + a + lw)"
      using char_boundary_slice [OF assms(2-4)] by (simp add: cut_at_def)
    with True lw bound cut show ?thesis
      by (cases "lw = 0")
         (simp_all add: push_content_tokens_def Let_def text_range_ok add.assoc flip: lw_def)
  next
    case False
    have "\<exists>rs' kind' T.
      scan_runs (base + a) (char_indices_from 0 (chars ?content)) 0 None ts = Inr (rs', kind', ts @ T)
      \<and> tiles (cut_at s base) (base + a + 0) T (base + a + rs') \<and> cut_at s base (base + a + rs')
      \<and> (if kind' = None then None = (None :: LosslessTokenKind option) \<and> chars ?content = []
         else rs' < 0 + length (concat (chars ?content)))"
    proof (rule scan_runs_tiles)
      show "\<forall>ch \<in> set (chars ?content). ch \<noteq> []" using chars_nonempty by blast
      show "base + a + 0 + length (concat (chars ?content)) \<le> u32_max"
        using bound len assms(4) by simp
      show "\<forall>x \<in> cuts 0 (chars ?content). cut_at s base (base + a + x)"
        using content_cuts [OF assms(1-4)] by blast
    qed (use cut in simp_all)
    then obtain rs' kind' T where T:
      "scan_runs (base + a) (char_indices ?content) 0 None ts = Inr (rs', kind', ts @ T)"
      "tiles (cut_at s base) (base + a) T (base + a + rs')" "cut_at s base (base + a + rs')"
      "if kind' = None then chars ?content = [] else rs' < c - a"
      by (force simp: char_indices_def len split: if_splits)
    show ?thesis
    proof (cases kind')
      case None
      with T have empty: "chars ?content = []" by simp
      then have "?content = []" by (metis concat.simps(1) concat_chars)
      with len assms(4) have "a = c" by simp
      with empty False show ?thesis
        by (simp add: push_content_tokens_def Let_def char_indices_def flip: lw_def)
    next
      case (Some k)
      with T have "rs' < c - a" by simp
      then have "text_range (base + a + rs') (base + c) =
          Inr \<lparr>range_start = base + a + rs', range_end = base + c\<rparr>"
        using bound by (simp add: text_range_ok)
      moreover have "tiles (cut_at s base) (base + a)
          (T @ [\<lparr>token_kind = k, token_range = \<lparr>range_start = base + a + rs', range_end = base + c\<rparr>\<rparr>])
          (base + c)"
        using T(2,3) \<open>rs' < c - a\<close> by (intro tiles_appendI) auto
      ultimately show ?thesis
        using False Some T(1) by (simp add: push_content_tokens_def Let_def flip: lw_def)
    qed
  qed
qed

definition line_of :: "nat \<Rightarrow> nat \<Rightarrow> nat \<Rightarrow> nat \<Rightarrow> LineEnding \<Rightarrow> SourceLine" where
  "line_of base a c e kind =
     \<lparr>content_range = \<lparr>range_start = base + a, range_end = base + c\<rparr>,
      ending_range = \<lparr>range_start = base + c, range_end = base + e\<rparr>,
      full_range = \<lparr>range_start = base + a, range_end = base + e\<rparr>,
      ending_kind = kind\<rparr>"

lemma line_of_simps [simp]:
  "content_range (line_of base a c e k) = \<lparr>range_start = base + a, range_end = base + c\<rparr>"
  "ending_range (line_of base a c e k) = \<lparr>range_start = base + c, range_end = base + e\<rparr>"
  "full_range (line_of base a c e k) = \<lparr>range_start = base + a, range_end = base + e\<rparr>"
  "ending_kind (line_of base a c e k) = k"
  by (simp_all add: line_of_def)

lemma push_line_tiles:
  assumes "valid_utf8 s" "char_boundary s a" "char_boundary s c" "a \<le> c"
    and "base + length s \<le> u32_max"
    and "if ending = NoEnding then e = c else c < e" and "e \<le> length s"
  shows "\<exists>T. push_line s ls ts (a, c, e) ending base = Inr (ls @ [line_of base a c e ending], ts @ T)
             \<and> tiles (cut_at s base) (base + a) T (base + e)"
proof -
  obtain T where T: "push_content_tokens s ts a c base = Inr (ts @ T)"
    "tiles (cut_at s base) (base + a) T (base + c)"
    using push_content_tokens_tiles [OF assms(1-5)] by blast
  have ce: "c \<le> e" and "base + e \<le> u32_max"
    using assms(5-7) by (auto split: if_splits)
  then have ranges: "text_range (base + a) (base + c) = Inr \<lparr>range_start = base + a, range_end = base + c\<rparr>"
    "text_range (base + c) (base + e) = Inr \<lparr>range_start = base + c, range_end = base + e\<rparr>"
    "text_range (base + a) (base + e) = Inr \<lparr>range_start = base + a, range_end = base + e\<rparr>"
    using assms(4) by (simp_all add: text_range_ok)
  show ?thesis
  proof (cases "ending = NoEnding")
    case True
    with T ranges assms(6) show ?thesis by (auto simp: push_line_def line_of_def)
  next
    case False
    have "tiles (cut_at s base) (base + c)
      [\<lparr>token_kind = LineEndingToken ending, token_range = \<lparr>range_start = base + c, range_end = base + e\<rparr>\<rparr>]
      (base + e)"
      using False assms(3,6) by (simp add: cut_at_def)
    with T(2) have "tiles (cut_at s base) (base + a)
      (T @ [\<lparr>token_kind = LineEndingToken ending, token_range = \<lparr>range_start = base + c, range_end = base + e\<rparr>\<rparr>])
      (base + e)"
      by (rule tiles_appendI)
    with False T(1) ranges show ?thesis by (simp add: push_line_def line_of_def)
  qed
qed

section \<open>What the line scanner finds\<close>

definition no_ending :: "str \<Rightarrow> nat \<Rightarrow> nat \<Rightarrow> bool" where
  "no_ending s a b \<longleftrightarrow> (\<forall>i. a \<le> i \<and> i < b \<longrightarrow> line_ending_at s i = None)"

lemma no_ending_refl [simp]: "no_ending s a a"
  by (auto simp: no_ending_def)

lemma no_ending_Suc: "no_ending s a c \<Longrightarrow> line_ending_at s c = None \<Longrightarrow> no_ending s a (Suc c)"
  by (auto simp: no_ending_def less_Suc_eq)

fun terminated :: "str \<Rightarrow> nat \<Rightarrow> nat \<Rightarrow> SourceLine list \<Rightarrow> nat \<Rightarrow> bool" where
  "terminated s base a [] b \<longleftrightarrow> a = b"
| "terminated s base a (l # ls) b \<longleftrightarrow>
     (\<exists>c e k. a \<le> c \<and> c < length s \<and> line_ending_at s c = Some (e, k)
        \<and> l = line_of base a c e k \<and> no_ending s a c \<and> terminated s base e ls b)"

lemma line_ending_at_facts:
  assumes "line_ending_at s c = Some (e, k)" and "c < length s"
  shows "c < e" "e \<le> length s" "k \<noteq> NoEnding" "char_boundary s c"
    and "valid_utf8 s \<Longrightarrow> char_boundary s e"
proof -
  show "c < e" "e \<le> length s" "k \<noteq> NoEnding" "char_boundary s c"
    using assms by (auto simp: line_ending_at_def char_boundary_def is_continuation_def split: if_splits)
  assume v: "valid_utf8 s"
  have "e = Suc (e - 1)" "s ! (e - 1) = line_feed" "e - 1 < length s"
    using assms by (auto simp: line_ending_at_def split: if_splits)
  then show "char_boundary s e"
    using char_boundary_after_ascii [OF v, of "e - 1"] by auto
qed

definition scan_result ::
    "cancel_host \<Rightarrow> nat \<Rightarrow> str \<Rightarrow> nat \<Rightarrow> nat \<Rightarrow> SourceLine list \<Rightarrow> LosslessToken list
     \<Rightarrow> SourceDocumentBuildError + (nat \<times> SourceLine list \<times> LosslessToken list \<times> nat) \<Rightarrow> bool" where
  "scan_result host m s base a L T r =
     (case r of
        Inl e \<Rightarrow> (e = BuildCancelled \<and> (\<exists>n. host n))
               \<or> (\<exists>n. e = LineLimitExceeded m n \<and> m < n \<and> n \<le> length s)
      | Inr (b, L', T', _) \<Rightarrow>
          \<exists>Ln Tn. L' = L @ Ln \<and> T' = T @ Tn \<and> terminated s base a Ln b
            \<and> (\<forall>l \<in> set Ln. range_len (content_range l) \<le> m)
            \<and> tiles (cut_at s base) (base + a) Tn (base + b)
            \<and> char_boundary s b \<and> b \<le> length s \<and> no_ending s b (length s))"

lemma scan_lines_result:
  assumes "valid_utf8 s" and "base + length s \<le> u32_max"
    and "a \<le> cur" "cur \<le> length s" "char_boundary s a" "no_ending s a cur"
  shows "scan_result host m s base a L T (scan_lines host q s m base a cur L T)"
  using assms
proof (induction host q s m base a cur L T rule: scan_lines.induct)
  case (1 host q s m base a cur L T)
  show ?case
  proof (cases "cur < length s")
    case False
    then have "scan_lines host q s m base a cur L T = Inr (a, L, T, q)"
      by (simp add: scan_lines.simps [of host q s m base a cur])
    with False 1 show ?thesis
      by (simp add: scan_result_def)
  next
    case cur: True
    show ?thesis
    proof (cases "cur mod 4096 = 0 \<and> host q")
      case True
      with cur show ?thesis
        by (auto simp: scan_lines.simps [of host q s m base a cur] scan_result_def)
    next
      case go: False
      let ?q = "if cur mod 4096 = 0 then Suc q else q"
      show ?thesis
      proof (cases "line_ending_at s cur")
        case None
        with 1 cur go no_ending_Suc
        have "scan_result host m s base a L T (scan_lines host ?q s m base a (cur + 1) L T)"
          by auto
        moreover have "scan_lines host q s m base a cur L T =
            scan_lines host ?q s m base a (cur + 1) L T"
          using None cur go by (subst scan_lines.simps) (auto simp: Let_def)
        ultimately show ?thesis by simp
      next
        case (Some fe)
        obtain e k where fe: "fe = (e, k)" by fastforce
        note facts = line_ending_at_facts [OF Some [unfolded fe] cur]
        obtain Tn where Tn:
          "push_line s L T (a, cur, e) k base = Inr (L @ [line_of base a cur e k], T @ Tn)"
          "tiles (cut_at s base) (base + a) Tn (base + e)"
          using push_line_tiles [where ending = k and e = e and ls = L and ts = T,
              OF "1.prems"(1,5) facts(4) "1.prems"(3,2)] facts(1-3) by auto
        show ?thesis
        proof (cases "m < cur - a")
          case True
          with Some fe cur go
          have "scan_lines host q s m base a cur L T = Inl (LineLimitExceeded m (cur - a))"
            by (subst scan_lines.simps) (auto simp: Let_def enforce_line_limit_def)
          with True cur show ?thesis by (simp add: scan_result_def)
        next
          case False
          let ?L = "L @ [line_of base a cur e k]"
          have "scan_result host m s base e ?L (T @ Tn) (scan_lines host ?q s m base e e ?L (T @ Tn))"
            using "1.IH"(2) [OF cur go refl Some fe [symmetric], of "()" "(?L, T @ Tn)"] False Tn(1)
              facts "1.prems"(1,2) by (simp add: enforce_line_limit_def)
          moreover have "range_len (content_range (line_of base a cur e k)) \<le> m"
            using False by (simp add: range_len_def line_of_def)
          moreover have "terminated s base a (line_of base a cur e k # Ln) b"
            if "terminated s base e Ln b" for Ln b
            using that Some fe cur "1.prems"(3,6) by auto
          ultimately have "scan_result host m s base a L T (scan_lines host ?q s m base e e ?L (T @ Tn))"
            using tiles_appendI [OF Tn(2)] unfolding scan_result_def
            by (auto split: sum.splits simp del: terminated.simps)
          moreover have "scan_lines host q s m base a cur L T =
              scan_lines host ?q s m base e e ?L (T @ Tn)"
            using Some fe cur go False Tn(1)
            by (subst scan_lines.simps) (auto simp: Let_def enforce_line_limit_def)
          ultimately show ?thesis by simp
        qed
      qed
    qed
  qed
qed

text \<open>The index of a whole document.\<close>

definition well_indexed :: "str \<Rightarrow> nat \<Rightarrow> SourceDocument \<Rightarrow> bool" where
  "well_indexed s base d \<longleftrightarrow>
     sd_source d = s \<and> sd_base d = base
     \<and> (\<exists>init b. sd_lines d = init @ [line_of base b (length s) (length s) NoEnding]
          \<and> terminated s base 0 init b \<and> b \<le> length s \<and> char_boundary s b \<and> no_ending s b (length s))
     \<and> tiles (cut_at s base) base (sd_tokens d) (base + length s)"

lemma from_fragment_bounded_cases:
  assumes "valid_utf8 s"
  shows "case from_fragment_bounded host q s base m of
      Inl (PositionFailure e) \<Rightarrow> u32_max < base + length s
    | Inl (LineLimitExceeded l n) \<Rightarrow> l = m \<and> m < n \<and> n \<le> length s
    | Inl BuildCancelled \<Rightarrow> \<exists>n. host n
    | Inr d \<Rightarrow> base + length s \<le> u32_max \<and> well_indexed s base d
        \<and> (\<forall>l \<in> set (sd_lines d). range_len (content_range l) \<le> m)"
proof (cases "base + length s \<le> u32_max")
  case False
  then show ?thesis
    by (auto simp: from_fragment_bounded_def TextSize_new_def)
next
  case True
  let ?scan = "scan_lines host q s m base 0 0 [] []"
  have scan: "scan_result host m s base 0 [] [] ?scan"
    using scan_lines_result [OF assms True, of 0 0] by simp
  have start: "TextSize_new (length s) = Inr (length s)" "TextSize_new (base + length s) = Inr (base + length s)"
    "base + length s \<le> usize_max"
    using True by (simp_all add: TextSize_new_def u32_max_def usize_max_def)
  show ?thesis
  proof (cases ?scan)
    case (Inl e)
    with scan start show ?thesis
      by (auto simp: from_fragment_bounded_def scan_result_def)
  next
    case (Inr r)
    obtain b L T q' where r: "r = (b, L, T, q')" by (cases r) auto
    with scan Inr have res: "terminated s base 0 L b" "\<forall>l \<in> set L. range_len (content_range l) \<le> m"
      "tiles (cut_at s base) base T (base + b)" "char_boundary s b" "b \<le> length s"
      "no_ending s b (length s)"
      by (auto simp: scan_result_def)
    obtain Tn where Tn:
      "push_line s L T (b, length s, length s) NoEnding base =
         Inr (L @ [line_of base b (length s) (length s) NoEnding], T @ Tn)"
      "tiles (cut_at s base) (base + b) Tn (base + length s)"
      using push_line_tiles [where ending = NoEnding and e = "length s" and ls = L and ts = T,
          OF assms res(4) char_boundary_length res(5) True] by auto
    show ?thesis
    proof (cases "m < length s - b \<or> host q'")
      case True
      with Inr r start show ?thesis
        by (auto simp: from_fragment_bounded_def enforce_line_limit_def)
    next
      case False
      let ?d = "\<lparr>sd_source = s, sd_base = base,
                 sd_lines = L @ [line_of base b (length s) (length s) NoEnding], sd_tokens = T @ Tn\<rparr>"
      have "from_fragment_bounded host q s base m = Inr ?d"
        using False Inr r start Tn(1) by (simp add: from_fragment_bounded_def enforce_line_limit_def)
      moreover have "well_indexed s base ?d"
        using res Tn(2) tiles_appendI by (fastforce simp: well_indexed_def)
      moreover have "\<forall>l \<in> set (sd_lines ?d). range_len (content_range l) \<le> m"
        using res(2) False by (auto simp: range_len_def line_of_def)
      ultimately show ?thesis using True by simp
    qed
  qed
qed

lemma SourceDocument_new_ok:
  assumes "valid_utf8 s" and "length s \<le> u32_max"
  obtains d where "SourceDocument_new s = Inr d" and "well_indexed s 0 d"
proof -
  have "case from_fragment_bounded NeverCancel 0 s 0 u32_max of
      Inl (PositionFailure e) \<Rightarrow> u32_max < 0 + length s
    | Inl (LineLimitExceeded l n) \<Rightarrow> l = u32_max \<and> u32_max < n \<and> n \<le> length s
    | Inl BuildCancelled \<Rightarrow> \<exists>n. NeverCancel n
    | Inr d \<Rightarrow> 0 + length s \<le> u32_max \<and> well_indexed s 0 d
        \<and> (\<forall>l \<in> set (sd_lines d). range_len (content_range l) \<le> u32_max)"
    by (rule from_fragment_bounded_cases [OF assms(1)])
  with assms(2) that show ?thesis
    by (auto simp: SourceDocument_new_def from_shared_bounded_def NeverCancel_def
        split: sum.splits SourceDocumentBuildError.splits)
qed

section \<open>Reconstruction\<close>

lemma tiles_concat:
  assumes "sd_source d = s" "sd_base d = base"
  shows "tiles (cut_at s base) (base + a) T (base + b) \<Longrightarrow> char_boundary s b \<Longrightarrow>
    concat_options (map (\<lambda>t. sd_text d (token_range t)) T) = Some (slice s a b)"
proof (induction T arbitrary: a)
  case Nil
  then show ?case by simp
next
  case (Cons t T)
  define m where "m = range_end (token_range t) - base"
  from Cons.prems have t: "range_start (token_range t) = base + a" "range_end (token_range t) = base + m"
    "char_boundary s a" "a < m" and T: "tiles (cut_at s base) (base + m) T (base + b)"
    by (auto simp: m_def, simp add: cut_at_def)
  from T Cons.prems(2) have m: "char_boundary s m" "m \<le> b"
    by (cases T; auto simp: cut_at_def dest: tiles_le)+
  then have "m \<le> length s"
    using char_boundary_le by blast
  then have "sd_text d (token_range t) = Some (slice s a m)"
    using t m assms by (simp add: sd_text_def str_get_def)
  with Cons.IH [OF T Cons.prems(2)] t(4) m(2) show ?case
    by (simp add: slice_append_slice)
qed

lemma well_indexed_reconstruct:
  assumes "well_indexed s base d"
  shows "reconstruct d = Inr s"
  using assms tiles_concat [of d s base 0 _ "length s"]
  by (simp add: well_indexed_def reconstruct_def)

section \<open>Lines and positions\<close>

definition line_start :: "SourceDocument \<Rightarrow> nat \<Rightarrow> nat" where
  "line_start d i = range_start (full_range (sd_lines d ! i))"

lemma terminated_nth:
  assumes "valid_utf8 s" "terminated s base a L b" "char_boundary s a" "i < length L"
  shows "\<exists>a' c e k. L ! i = line_of base a' c e k \<and> a \<le> a' \<and> a' \<le> c \<and> c < e \<and> e \<le> length s
     \<and> char_boundary s a' \<and> char_boundary s c
     \<and> base + e = (if Suc i < length L then range_start (full_range (L ! Suc i)) else base + b)
     \<and> (i = 0 \<longrightarrow> a' = a)"
  using assms(2-)
proof (induction L arbitrary: a i)
  case Nil
  then show ?case by simp
next
  case (Cons l L)
  from Cons.prems obtain c e k where ce: "a \<le> c" "c < length s" "line_ending_at s c = Some (e, k)"
    "l = line_of base a c e k" "terminated s base e L b"
    by auto
  note facts = line_ending_at_facts [OF ce(3,2)]
  show ?case
  proof (cases i)
    case 0
    have "base + e = (if L \<noteq> [] then range_start (full_range (L ! 0)) else base + b)"
      using ce(5) by (cases L) auto
    with 0 ce facts Cons.prems(2) show ?thesis
      by (intro exI [of _ a] exI [of _ c] exI [of _ e] exI [of _ k]) simp
  next
    case (Suc j)
    with Cons.prems Cons.IH [OF ce(5) facts(5) [OF assms(1)], of j] ce(1) facts(1) show ?thesis
      by fastforce
  qed
qed

lemma well_indexed_line:
  assumes "valid_utf8 s" "well_indexed s base d" "i < length (sd_lines d)"
  obtains a c e k where "sd_lines d ! i = line_of base a c e k"
    "a \<le> c" "c \<le> e" "e \<le> length s" "char_boundary s a" "char_boundary s c"
    "line_start d i = base + a"
    "if Suc i < length (sd_lines d) then c < e \<and> line_start d (Suc i) = base + e
     else c = e \<and> e = length s"
    "i = 0 \<Longrightarrow> a = 0"
proof -
  obtain init b where L: "sd_lines d = init @ [line_of base b (length s) (length s) NoEnding]"
    "terminated s base 0 init b" "b \<le> length s" "char_boundary s b"
    using assms(2) by (auto simp: well_indexed_def)
  show ?thesis
  proof (cases "i < length init")
    case True
    from terminated_nth [OF assms(1) L(2) char_boundary_0 True] obtain a c e k where
      ace: "init ! i = line_of base a c e k" "a \<le> c" "c < e" "e \<le> length s"
      "char_boundary s a" "char_boundary s c"
      "base + e = (if Suc i < length init then range_start (full_range (init ! Suc i)) else base + b)"
      "i = 0 \<longrightarrow> a = 0"
      by auto
    have "line_start d i = base + a"
      using True L(1) ace(1) by (simp add: line_start_def nth_append)
    moreover have "line_start d (Suc i) = base + e"
      using True L(1) ace(7)
      by (cases "Suc i < length init") (auto simp: line_start_def nth_append not_less less_Suc_eq)
    ultimately show ?thesis
      using True L(1) ace by (intro that [of a c e k]) (simp_all add: nth_append)
  next
    case False
    with assms(3) L(1) have i: "i = length init" by simp
    have "i = 0 \<Longrightarrow> b = 0"
      using i L(2) by simp
    with i L show ?thesis
      by (intro that [of b "length s" "length s" NoEnding]) (auto simp: line_start_def)
  qed
qed

lemma line_before_iff:
  assumes "valid_utf8 s" "well_indexed s base d" "i < length (sd_lines d)"
  shows "line_before offset (sd_lines d ! i) \<longleftrightarrow>
    Suc i < length (sd_lines d) \<and> line_start d (Suc i) \<le> offset"
proof -
  obtain a c e k where "sd_lines d ! i = line_of base a c e k" "c \<le> e"
    "if Suc i < length (sd_lines d) then c < e \<and> line_start d (Suc i) = base + e
     else c = e \<and> e = length s"
    by (rule well_indexed_line [OF assms]) blast
  then show ?thesis
    by (auto simp: line_before_def split: if_splits)
qed

lemma line_start_Suc:
  assumes "valid_utf8 s" "well_indexed s base d" "Suc i < length (sd_lines d)"
  shows "line_start d i < line_start d (Suc i)"
proof -
  from assms(3) have i: "i < length (sd_lines d)" by simp
  obtain a c e where "a \<le> c" "c \<le> e" "line_start d i = base + a"
    "if Suc i < length (sd_lines d) then c < e \<and> line_start d (Suc i) = base + e
     else c = e \<and> e = length s"
    by (rule well_indexed_line [OF assms(1,2) i]) blast
  with assms(3) show ?thesis by simp
qed

lemma line_start_mono:
  assumes "valid_utf8 s" "well_indexed s base d"
  shows "i \<le> j \<Longrightarrow> j < length (sd_lines d) \<Longrightarrow> line_start d i \<le> line_start d j"
proof (induction j)
  case 0
  then show ?case by simp
next
  case (Suc j)
  with line_start_Suc [OF assms, of j] show ?case
    by (cases "i = Suc j") auto
qed

lemma index_le_line_start:
  assumes "valid_utf8 s" "well_indexed s base d"
  shows "i < length (sd_lines d) \<Longrightarrow> i \<le> line_start d i"
proof (induction i)
  case 0
  then show ?case by simp
next
  case (Suc i)
  with line_start_Suc [OF assms, of i] show ?case by simp
qed

lemma lines_partitioned:
  assumes "valid_utf8 s" "well_indexed s base d"
  shows "partitioned (line_before offset) (sd_lines d)"
  unfolding partitioned_def
proof (intro allI impI)
  fix i j
  assume ij: "i < j" "j < length (sd_lines d)" "line_before offset (sd_lines d ! j)"
  then have "Suc j < length (sd_lines d)" "line_start d (Suc j) \<le> offset"
    using line_before_iff [OF assms] by auto
  moreover have "line_start d (Suc i) \<le> line_start d (Suc j)"
    using ij \<open>Suc j < length (sd_lines d)\<close> by (intro line_start_mono [OF assms]) simp_all
  ultimately show "line_before offset (sd_lines d ! i)"
    using ij line_before_iff [OF assms, of i offset] by simp
qed

lemma line_number_unique:
  assumes "valid_utf8 s" "well_indexed s base d" "i < length (sd_lines d)"
    and "line_start d i \<le> offset" "Suc i < length (sd_lines d) \<Longrightarrow> offset < line_start d (Suc i)"
  shows "partition_point (line_before offset) (sd_lines d) = i"
proof -
  let ?n = "partition_point (line_before offset) (sd_lines d)"
  have part: "j < length (sd_lines d) \<Longrightarrow> line_before offset (sd_lines d ! j) \<longleftrightarrow> j < ?n" for j
    using partitioned_iff_lt lines_partitioned assms(1,2) by blast
  have "\<not> i < ?n"
    using part [OF assms(3)] assms(5) line_before_iff [OF assms(1-3)] by auto
  moreover have "\<not> ?n < i"
  proof
    assume "?n < i"
    then have "line_start d (Suc ?n) \<le> line_start d i" "?n < length (sd_lines d)" "Suc ?n < length (sd_lines d)"
      using line_start_mono [OF assms(1,2), of "Suc ?n" i] assms(3) by simp_all
    then have "line_before offset (sd_lines d ! ?n)"
      using line_before_iff [OF assms(1,2), of ?n] assms(4) by simp
    with part [of ?n] \<open>?n < length (sd_lines d)\<close> show False by simp
  qed
  ultimately show ?thesis by simp
qed

lemma line_number_bounds:
  assumes "valid_utf8 s" "well_indexed s base d" "base \<le> offset"
  defines "n \<equiv> partition_point (line_before offset) (sd_lines d)"
  shows "n < length (sd_lines d)" "line_start d n \<le> offset"
    "Suc n < length (sd_lines d) \<Longrightarrow> offset < line_start d (Suc n)"
proof -
  have part: "j < length (sd_lines d) \<Longrightarrow> line_before offset (sd_lines d ! j) \<longleftrightarrow> j < n" for j
    unfolding n_def using partitioned_iff_lt lines_partitioned assms(1,2) by blast
  have "sd_lines d \<noteq> []"
    using assms(2) by (auto simp: well_indexed_def)
  then have last: "length (sd_lines d) - 1 < length (sd_lines d)" by simp
  have "\<not> Suc (length (sd_lines d) - 1) < length (sd_lines d)" by arith
  with part [OF last] line_before_iff [OF assms(1,2) last, of offset] last
  show n: "n < length (sd_lines d)" by linarith
  show "line_start d n \<le> offset"
  proof (cases n)
    case 0
    have "line_start d 0 = base"
      using well_indexed_line [OF assms(1,2), of 0] n 0 by (metis add_0_right)
    with 0 assms(3) show ?thesis by simp
  next
    case (Suc m)
    with n part [of m] line_before_iff [OF assms(1,2), of m offset] show ?thesis by simp
  qed
  show "Suc n < length (sd_lines d) \<Longrightarrow> offset < line_start d (Suc n)"
    using part [OF n] line_before_iff [OF assms(1,2) n, of offset] by auto
qed

text \<open>What one line of a well-indexed document starting at offset zero looks like.\<close>

lemma line_content:
  assumes "valid_utf8 s" "well_indexed s 0 d" "n < length (sd_lines d)"
  obtains a c where "content_range (sd_lines d ! n) = \<lparr>range_start = a, range_end = c\<rparr>"
    "a \<le> c" "c \<le> length s" "char_boundary s a" "char_boundary s c" "line_start d n = a"
    "Suc n < length (sd_lines d) \<Longrightarrow> c < line_start d (Suc n)"
    "sd_text d (content_range (sd_lines d ! n)) = Some (slice s a c)"
proof -
  obtain a c e k where l: "sd_lines d ! n = line_of 0 a c e k" "a \<le> c" "c \<le> e" "e \<le> length s"
    "char_boundary s a" "char_boundary s c" "line_start d n = 0 + a"
    "if Suc n < length (sd_lines d) then c < e \<and> line_start d (Suc n) = 0 + e
     else c = e \<and> e = length s"
    by (rule well_indexed_line [OF assms]) blast
  moreover have "sd_source d = s" "sd_base d = 0"
    using assms(2) by (simp_all add: well_indexed_def)
  ultimately show ?thesis
    by (intro that [of a c]) (auto simp: sd_text_def str_get_def)
qed

lemma len_utf16_pos: "ch \<noteq> [] \<Longrightarrow> 0 < len_utf16 ch"
  by (cases ch) (simp_all add: len_utf16_def)

lemma utf16_walk_prefix:
  "\<forall>c \<in> set cs. c \<noteq> [] \<Longrightarrow> k \<le> length cs \<Longrightarrow>
   utf16_walk p (u + sum_list (map len_utf16 (take k cs))) (char_indices_from n cs) u =
     Inr (if k < length cs then Some (n + length (concat (take k cs))) else None,
          u + sum_list (map len_utf16 (take k cs)))"
proof (induction cs arbitrary: k u n)
  case Nil
  then show ?case by simp
next
  case (Cons c cs)
  show ?case
  proof (cases k)
    case 0
    then show ?thesis by simp
  next
    case (Suc j)
    have pos: "0 < len_utf16 c" using Cons.prems(1) len_utf16_pos by simp
    have "utf16_walk p (u + len_utf16 c + sum_list (map len_utf16 (take j cs)))
        (char_indices_from (n + length c) cs) (u + len_utf16 c) =
      Inr (if j < length cs then Some (n + length c + length (concat (take j cs))) else None,
           u + len_utf16 c + sum_list (map len_utf16 (take j cs)))"
      using Cons.prems Suc by (intro Cons.IH) simp_all
    with Suc pos show ?thesis
      by (simp add: add.assoc)
  qed
qed

lemma utf16_walk_result:
  "utf16_walk p r (char_indices_from n cs) u = Inr (found, v) \<Longrightarrow>
   \<exists>k \<le> length cs. v = u + sum_list (map len_utf16 (take k cs))
     \<and> (case found of Some b \<Rightarrow> r = v \<and> b = n + length (concat (take k cs)) | None \<Rightarrow> k = length cs)"
proof (induction cs arbitrary: u n)
  case Nil
  then show ?case by auto
next
  case (Cons c cs)
  show ?case
  proof (cases "u = r")
    case True
    with Cons.prems show ?thesis by (intro exI [of _ 0]) auto
  next
    case False
    with Cons.prems
    have "utf16_walk p r (char_indices_from (n + length c) cs) (u + len_utf16 c) = Inr (found, v)"
      by (auto split: if_splits)
    from Cons.IH [OF this] obtain k where "k \<le> length cs"
      "v = u + len_utf16 c + sum_list (map len_utf16 (take k cs))"
      "case found of Some b \<Rightarrow> r = v \<and> b = n + length c + length (concat (take k cs)) | None \<Rightarrow> k = length cs"
      by auto
    then show ?thesis
      by (intro exI [of _ "Suc k"]) (auto split: option.splits)
  qed
qed

lemma utf16_len_take: "utf16_len (take (char_offset s k) s) = sum_list (map len_utf16 (take k (chars s)))"
  by (simp add: utf16_len_def chars_take_offset)

lemma utf16_character_to_byte_prefix:
  assumes "valid_utf8 content" "char_boundary content i" "character p = utf16_len (take i content)"
  shows "utf16_character_to_byte content p = Inr i"
proof -
  obtain k where k: "k \<le> length (chars content)" "i = char_offset content k"
    using char_boundary_offset assms by blast
  have "utf16_walk p (0 + sum_list (map len_utf16 (take k (chars content)))) (char_indices_from 0 (chars content)) 0 =
    Inr (if k < length (chars content) then Some (0 + length (concat (take k (chars content)))) else None,
         0 + sum_list (map len_utf16 (take k (chars content))))"
    using k(1) chars_nonempty by (intro utf16_walk_prefix) blast+
  moreover have "character p = sum_list (map len_utf16 (take k (chars content)))"
    using k(2) assms(3) by (simp add: utf16_len_take)
  ultimately have "utf16_walk p (character p) (char_indices content) 0 =
      Inr (if k < length (chars content) then Some i else None, character p)"
    using k(2) by (simp add: char_indices_def char_offset_def)
  moreover have "\<not> k < length (chars content) \<Longrightarrow> i = length content"
    using k char_offset_all by simp
  ultimately show ?thesis
    by (auto simp: utf16_character_to_byte_def)
qed

lemma utf16_character_to_byte_result:
  assumes "valid_utf8 content" "utf16_character_to_byte content p = Inr i"
  shows "char_boundary content i" "character p = utf16_len (take i content)"
proof -
  obtain found v where w: "utf16_walk p (character p) (char_indices_from 0 (chars content)) 0 = Inr (found, v)"
    and r: "case found of Some b \<Rightarrow> i = b | None \<Rightarrow> v = character p \<and> i = length content"
    using assms(2)
    by (auto simp: utf16_character_to_byte_def char_indices_def and_then_eq_Inr
        split: option.splits if_splits)
  obtain k where k: "v = sum_list (map len_utf16 (take k (chars content)))"
    "case found of Some b \<Rightarrow> character p = v \<and> b = length (concat (take k (chars content)))
     | None \<Rightarrow> k = length (chars content)"
    using utf16_walk_result [OF w] by (cases found) auto
  have "i = char_offset content k" "character p = v"
    using r k char_offset_all [of content k]
    by (auto simp: char_offset_def split: option.splits)
  then show "char_boundary content i" "character p = utf16_len (take i content)"
    using char_offset_boundary [OF assms(1)] k(1) by (simp_all add: utf16_len_take)
qed

lemma utf16_len_le:
  assumes "valid_utf8 s"
  shows "utf16_len s \<le> length s"
proof -
  have "len_utf16 ch \<le> length ch" if "ch \<in> set (chars s)" for ch
  proof -
    have "valid_scalar ch" using assms that by (simp add: valid_utf8_def list_all_iff)
    then show ?thesis
      by (cases ch) (auto simp: len_utf16_def dest: valid_scalar_shape(1))
  qed
  then have "utf16_len s \<le> sum_list (map length (chars s))"
    unfolding utf16_len_def by (rule sum_list_mono)
  also have "\<dots> = length (concat (chars s))"
    by (simp only: length_concat)
  finally show ?thesis by simp
qed

lemma encoded_length_le: "valid_utf8 s \<Longrightarrow> encoded_length enc s \<le> length s"
  by (cases enc) (simp_all add: encoded_length_def utf16_len_le)

text \<open>
  The conversion inside one line: the column of a boundary, and the boundary of a
  column, for both encodings.
\<close>

lemma slice_take: "a + i \<le> c \<Longrightarrow> take i (slice s a c) = slice s a (a + i)"
  by (simp add: slice_def min_absorb1)

lemma char_boundary_in_slice:
  assumes "char_boundary s a" "char_boundary s c" "a \<le> x" "x \<le> c" "char_boundary s x"
  shows "char_boundary (slice s a c) (x - a)"
  using assms char_boundary_le [OF assms(2)]
  by (auto simp: char_boundary_def slice_def)

lemma offset_to_position_Inr:
  assumes "valid_utf8 s" "well_indexed s 0 d" "length s \<le> u32_max"
  shows "offset_to_position d offset enc = Inr p \<longleftrightarrow>
    line p < length (sd_lines d) \<and> offset \<le> length s \<and> char_boundary s offset
    \<and> line_start d (line p) \<le> offset
    \<and> offset \<le> range_end (content_range (sd_lines d ! line p))
    \<and> character p = encoded_length enc (slice s (line_start d (line p)) offset)"
    (is "?L \<longleftrightarrow> ?R")
proof -
  let ?n = "partition_point (line_before offset) (sd_lines d)"
  have src: "sd_source d = s" using assms(2) by (simp add: well_indexed_def)
  have n: "?n < length (sd_lines d)" "line_start d ?n \<le> offset"
    using line_number_bounds [OF assms(1,2)] by simp_all
  obtain a c where l: "content_range (sd_lines d ! ?n) = \<lparr>range_start = a, range_end = c\<rparr>"
    "a \<le> c" "c \<le> length s" "char_boundary s a" "line_start d ?n = a"
    by (rule line_content [OF assms(1,2) n(1)]) blast
  have n32: "?n \<le> u32_max"
    using index_le_line_start [OF assms(1,2) n(1)] l assms(3) by simp
  have ok: "offset_to_position d offset enc = Inr q \<longleftrightarrow>
      offset \<le> length s \<and> char_boundary s offset \<and> offset \<le> c
      \<and> q = \<lparr>line = ?n, character = encoded_length enc (slice s a offset)\<rparr>" for q
  proof (cases "offset \<le> length s \<and> char_boundary s offset \<and> offset \<le> c")
    case True
    then have "str_get s a offset = Some (slice s a offset)"
      using l n(2) by (simp add: str_get_def)
    moreover have "valid_utf8 (slice s a offset)"
      using True l n(2) valid_utf8_slice assms(1) by blast
    then have "encoded_length enc (slice s a offset) \<le> u32_max"
      using encoded_length_le [of "slice s a offset" enc] True assms(3)
      by (auto simp: length_slice)
    ultimately show ?thesis
      using True n l(1) n32 src by (auto simp: offset_to_position_def Let_def to_u32_def)
  next
    case False
    with n l(1) src show ?thesis
      by (auto simp: offset_to_position_def Let_def and_then_eq_Inr)
  qed
  show ?thesis
  proof
    assume ?L
    with ok [of p] n l show ?R by auto
  next
    assume R: ?R
    then have ln: "line p < length (sd_lines d)" by simp
    obtain a' c' where l': "content_range (sd_lines d ! line p) = \<lparr>range_start = a', range_end = c'\<rparr>"
      "Suc (line p) < length (sd_lines d) \<Longrightarrow> c' < line_start d (Suc (line p))"
      by (rule line_content [OF assms(1,2) ln]) blast
    have "?n = line p"
      using R l' by (intro line_number_unique [OF assms(1,2) ln]) auto
    with R ok [of p] l show ?L by (cases p) simp
  qed
qed

lemma position_to_offset_Inr:
  assumes "valid_utf8 s" "well_indexed s 0 d" "length s \<le> u32_max"
  shows "position_to_offset d p enc = Inr offset \<longleftrightarrow>
    line p < length (sd_lines d) \<and> offset \<le> length s \<and> char_boundary s offset
    \<and> line_start d (line p) \<le> offset
    \<and> offset \<le> range_end (content_range (sd_lines d ! line p))
    \<and> character p = encoded_length enc (slice s (line_start d (line p)) offset)"
proof (cases "line p < length (sd_lines d)")
  case False
  then show ?thesis
    by (simp add: position_to_offset_def and_then_eq_Inr)
next
  case True
  obtain a c where l: "content_range (sd_lines d ! line p) = \<lparr>range_start = a, range_end = c\<rparr>"
    "a \<le> c" "c \<le> length s" "char_boundary s a" "char_boundary s c" "line_start d (line p) = a"
    "sd_text d (content_range (sd_lines d ! line p)) = Some (slice s a c)"
    by (rule line_content [OF assms(1,2) True]) blast
  let ?content = "slice s a c"
  have v: "valid_utf8 ?content" using valid_utf8_slice assms(1) l by blast
  have len: "length ?content = c - a" using l by (simp add: length_slice)
  have boundary: "char_boundary ?content i \<longleftrightarrow> a + i \<le> c \<and> char_boundary s (a + i)" for i
    using char_boundary_slice [OF l(4,5,2), of i] char_boundary_in_slice [OF l(4,5), of "a + i"]
      char_boundary_le [of ?content i] len l(2) by auto
  have rel: "(case enc of
      Utf8 \<Rightarrow>
        let requested = character p in
        if length ?content < requested then
          and_then (to_u32 (length ?content)) (\<lambda>n. Inl (Err (CharacterOutOfBounds p n enc)))
        else if \<not> char_boundary ?content requested then Inl (Err (InvalidCharacterBoundary p enc))
        else Inr requested
    | Utf16 \<Rightarrow> utf16_character_to_byte ?content p) = Inr i \<longleftrightarrow>
    char_boundary ?content i \<and> character p = encoded_length enc (take i ?content)" for i
  proof (cases enc)
    case Utf8
    then show ?thesis
      using char_boundary_le [of ?content i]
      by (auto simp: Let_def and_then_eq_Inr encoded_length_def min_def dest: order.antisym)
  next
    case Utf16
    then show ?thesis
      using utf16_character_to_byte_result [OF v, of p i] utf16_character_to_byte_prefix [OF v, of i p]
      by (auto simp: encoded_length_def)
  qed
  have "position_to_offset d p enc = Inr offset \<longleftrightarrow>
      (\<exists>i. char_boundary ?content i \<and> character p = encoded_length enc (take i ?content) \<and> offset = a + i)"
    using True l(1,7) assms(3) l(3) boundary
    by (auto simp: position_to_offset_def Let_def and_then_eq_Inr rel map_err_eq_Inr TextSize_new_def)
  also have "\<dots> \<longleftrightarrow> a \<le> offset \<and> offset \<le> c \<and> char_boundary s offset
      \<and> character p = encoded_length enc (slice s a offset)"
  proof (intro iffI; elim exE conjE)
    fix i
    assume "char_boundary ?content i" "character p = encoded_length enc (take i ?content)" "offset = a + i"
    then show "a \<le> offset \<and> offset \<le> c \<and> char_boundary s offset
      \<and> character p = encoded_length enc (slice s a offset)"
      using boundary slice_take [of a i c s] by simp
  next
    assume "a \<le> offset" "offset \<le> c" "char_boundary s offset"
      "character p = encoded_length enc (slice s a offset)"
    then show "\<exists>i. char_boundary ?content i \<and> character p = encoded_length enc (take i ?content)
      \<and> offset = a + i"
      using boundary [of "offset - a"] slice_take [of a "offset - a" c s]
      by (intro exI [of _ "offset - a"]) simp
  qed
  finally show ?thesis
    using True l by auto
qed

section \<open>Views\<close>

lemma tiles_clip_past:
  "tiles P a T b \<Longrightarrow> en \<le> a \<Longrightarrow> List.map_filter (clip_token st en) T = []"
  by (induction T arbitrary: a) (auto simp: map_filter_simps clip_token_def Let_def)

lemma tiles_clip:
  assumes "P st" "tiles P a T b" "st < b" "a < en" "st < en"
  shows "tiles P (max a st) (List.map_filter (clip_token st en) T) (min b en)"
  using assms(2-)
proof (induction T arbitrary: a)
  case Nil
  then show ?case by (simp add: map_filter_simps max_def min_def)
next
  case (Cons t T)
  define m where "m = range_end (token_range t)"
  have t: "range_start (token_range t) = a" "P a" "a < m" "tiles P m T b"
    using Cons.prems(1) by (simp_all add: m_def)
  have mb: "m \<le> b" using t(4) tiles_le by blast
  let ?c = "\<lparr>token_kind = token_kind t,
             token_range = \<lparr>range_start = max a st, range_end = min m en\<rparr>\<rparr>"
  show ?case
  proof (cases "m \<le> st")
    case True
    then have "clip_token st en t = None"
      using t by (auto simp: clip_token_def Let_def m_def [symmetric])
    moreover have "tiles P (max m st) (List.map_filter (clip_token st en) T) (min b en)"
      using Cons.IH [OF t(4)] Cons.prems True by simp
    ultimately show ?thesis
      using True t(3) by (simp add: map_filter_simps max_def)
  next
    case st: False
    then have c: "clip_token st en t = Some ?c"
      using t Cons.prems(3,4) by (auto simp: clip_token_def Let_def m_def [symmetric])
    show ?thesis
    proof (cases "en \<le> m")
      case True
      with c t mb st Cons.prems assms(1) tiles_clip_past [OF t(4) True] show ?thesis
        by (auto simp: map_filter_simps max_def min_def)
    next
      case False
      with st Cons.IH [OF t(4)] Cons.prems
      have "tiles P (max m st) (List.map_filter (clip_token st en) T) (min b en)" by simp
      with c t st False assms(1) show ?thesis
        by (auto simp: map_filter_simps max_def min_def)
    qed
  qed
qed

lemma tiles_clip_empty:
  "tiles P a T b \<Longrightarrow> List.map_filter (clip_token x x) T = []"
  by (induction T arbitrary: a) (auto simp: map_filter_simps clip_token_def Let_def)

lemma indexed_view_reconstruct:
  assumes "well_indexed s 0 d" "indexed_view d r = Inr v" "sd_text d r = Some t"
  shows "reconstruct v = Inr t"
proof -
  let ?st = "range_start r"
  let ?en = "range_end r"
  have d: "sd_source d = s" "sd_base d = 0" "tiles (cut_at s 0) 0 (sd_tokens d) (length s)"
    using assms(1) by (simp_all add: well_indexed_def)
  have v: "sd_source v = s" "sd_base v = 0"
    "sd_tokens v = List.map_filter (clip_token ?st ?en) (sd_tokens d)"
    using assms(2) d by (auto simp: indexed_view_def and_then_eq_Inr)
  have t: "?st \<le> ?en" "?en \<le> length s" "char_boundary s ?st" "char_boundary s ?en" "t = slice s ?st ?en"
    using assms(3) d by (auto simp: sd_text_def str_get_def split: if_splits)
  show ?thesis
  proof (cases "?st = ?en")
    case True
    with t v tiles_clip_empty [OF d(3)] show ?thesis
      by (simp add: reconstruct_def)
  next
    case False
    then have "tiles (cut_at s 0) (max 0 ?st) (sd_tokens v) (min (length s) ?en)"
      unfolding v(3) using t d(3) by (intro tiles_clip) (auto simp: cut_at_def)
    then have "tiles (cut_at s 0) (0 + ?st) (sd_tokens v) (0 + ?en)"
      using t(2) by (simp add: min_absorb2)
    from tiles_concat [OF v(1,2) this t(4)] t(5) show ?thesis
      by (simp add: reconstruct_def)
  qed
qed

lemma SourceDocument_new_Inr:
  assumes "valid_utf8 s" "SourceDocument_new s = Inr d"
  shows "well_indexed s 0 d" "length s \<le> u32_max"
proof -
  show len: "length s \<le> u32_max"
    using assms(2)
    by (auto simp: SourceDocument_new_def from_shared_bounded_def from_fragment_bounded_def
        TextSize_new_def split: sum.splits if_splits)
  obtain d' where "SourceDocument_new s = Inr d'" "well_indexed s 0 d'"
    using SourceDocument_new_ok [OF assms(1) len] by blast
  with assms(2) show "well_indexed s 0 d" by simp
qed

lemmas source_eval =
  SourceDocument_new_def from_shared_bounded_def from_fragment_bounded_def TextSize_new_def
  scan_lines.simps NeverCancel_def line_ending_at_def enforce_line_limit_def push_line_def
  push_content_tokens_def text_range_def TextRange_new_def offset_to_position_def
  position_to_offset_def partition_point_def line_before_def encoded_length_def utf16_len_def
  len_utf16_def to_u32_def is_blank_def sd_text_def indexed_view_def clip_line_def clip_token_def
  range_is_empty_def range_len_def utf16_character_to_byte_def reconstruct_def map_filter_simps

section \<open>Properties\<close>

text \<open>C8. Lossless tokens: every well-formed text that fits the source model is indexed
  without a panic, and its tokens, read back in order, are the text itself.\<close>

theorem source_reconstructs:
  assumes "valid_utf8 s" and "length s \<le> u32_max"
  shows "\<exists>d. SourceDocument_new s = Inr d \<and> reconstruct d = Inr s"
  using SourceDocument_new_ok [OF assms] well_indexed_reconstruct by metis

theorem source_reconstructs_witness:
  "\<exists>d. SourceDocument_new (''a // b'' @ [carriage_return, line_feed] @ ''c'') = Inr d
     \<and> reconstruct d = Inr (''a // b'' @ [carriage_return, line_feed] @ ''c'')"
  by (rule source_reconstructs) (simp_all add: str_eval)

text \<open>C10. Positions and offsets are inverse to each other, for both encodings: an offset
  has the position \<open>p\<close> exactly when \<open>p\<close> resolves to that offset.\<close>

theorem offset_position_inverse:
  assumes "valid_utf8 s" and "SourceDocument_new s = Inr d"
  shows "offset_to_position d offset enc = Inr p \<longleftrightarrow> position_to_offset d p enc = Inr offset"
  using offset_to_position_Inr [OF assms(1) SourceDocument_new_Inr [OF assms]]
    position_to_offset_Inr [OF assms(1) SourceDocument_new_Inr [OF assms]]
  by simp

theorem offset_position_inverse_witness:
  "\<exists>d. SourceDocument_new (''a'' @ [CHR 0xF0, CHR 0x9F, CHR 0x98, CHR 0x80] @ ''b'') = Inr d
     \<and> offset_to_position d 5 Utf16 = Inr \<lparr>line = 0, character = 3\<rparr>
     \<and> position_to_offset d \<lparr>line = 0, character = 3\<rparr> Utf16 = Inr 5"
proof -
  let ?s = "''a'' @ [CHR 0xF0, CHR 0x9F, CHR 0x98, CHR 0x80] @ ''b''"
  have v: "valid_utf8 ?s" by (simp add: str_eval)
  obtain d where d: "SourceDocument_new ?s = Inr d"
    "offset_to_position d 5 Utf16 = Inr \<lparr>line = 0, character = 3\<rparr>"
    by (simp add: source_eval str_eval)
  with offset_position_inverse [OF v d(1), of 5 Utf16 "\<lparr>line = 0, character = 3\<rparr>"]
  show ?thesis by simp
qed

text \<open>A view of a range of a document reconstructs exactly the text of that range,
  wherever the range cuts lines and tokens.\<close>

theorem indexed_view_lossless:
  assumes "valid_utf8 s" and "SourceDocument_new s = Inr d"
    and "sd_text d r = Some t" and "indexed_view d r = Inr v"
  shows "reconstruct v = Inr t"
  using indexed_view_reconstruct [OF SourceDocument_new_Inr(1) [OF assms(1,2)]] assms(3,4) by blast

theorem indexed_view_lossless_witness:
  "\<exists>d v. SourceDocument_new (''ab cd'' @ [line_feed] @ ''// e'') = Inr d
     \<and> indexed_view d \<lparr>range_start = 1, range_end = 8\<rparr> = Inr v
     \<and> reconstruct v = Inr (''b cd'' @ [line_feed] @ ''//'')"
proof -
  let ?s = "''ab cd'' @ [line_feed] @ ''// e''"
  let ?r = "\<lparr>range_start = 1, range_end = 8\<rparr>"
  have v: "valid_utf8 ?s" by (simp add: str_eval)
  obtain d w where d: "SourceDocument_new ?s = Inr d" "sd_text d ?r = Some (''b cd'' @ [line_feed] @ ''//'')"
    "indexed_view d ?r = Inr w"
    by (simp add: source_eval str_eval)
  from indexed_view_lossless [OF v d] d show ?thesis by blast
qed



end
