(* ===== verification/Source_Lines.thy ===== *)
theory Source_Lines
  imports Source
begin

text \<open>
  The lines of an indexed document are the pieces of \<open>split_inclusive('\n')\<close>, followed by an
  empty last line when the text ends with a line feed. Code that walks both at one index
  relies on it.
\<close>

lemma split_inclusive_no_lf: "line_feed \<notin> set w \<Longrightarrow> w \<noteq> [] \<Longrightarrow> split_inclusive_lf w = [w]"
proof (induction w)
  case (Cons b w)
  then show ?case by (cases "w = []") auto
qed simp

lemma split_inclusive_at_lf:
  "line_feed \<notin> set w \<Longrightarrow> split_inclusive_lf (w @ line_feed # t) = (w @ [line_feed]) # split_inclusive_lf t"
  by (induction w) auto

lemma slice_snoc: "a \<le> b \<Longrightarrow> b < length s \<Longrightarrow> slice s a (Suc b) = slice s a b @ [s ! b]"
  by (simp add: slice_def Suc_diff_le take_Suc_conv_app_nth)

lemma no_ending_no_lf:
  assumes "no_ending s a c" and "c \<le> length s"
  shows "line_feed \<notin> set (slice s a c)"
proof
  assume "line_feed \<in> set (slice s a c)"
  then obtain i where i: "i < length (slice s a c)" "slice s a c ! i = line_feed" by (metis in_set_conv_nth)
  then have "a + i < c" "s ! (a + i) = line_feed"
    using assms(2) by (auto simp: slice_def)
  moreover from this have "line_ending_at s (a + i) \<noteq> None" by (auto simp: line_ending_at_def)
  ultimately show False using assms(1) by (auto simp: no_ending_def)
qed

definition line_piece :: "str \<Rightarrow> nat \<Rightarrow> SourceLine \<Rightarrow> str" where
  "line_piece s base l = slice s (range_start (full_range l) - base) (range_end (full_range l) - base)"

lemma terminated_line_split:
  assumes "a \<le> c" "c < length s" "line_ending_at s c = Some (e, k)" "no_ending s a c"
  shows "split_inclusive_lf (drop a s) = slice s a e # split_inclusive_lf (drop e s)"
proof -
  have lf: "s ! (e - 1) = line_feed" "e - 1 < length s" "c \<le> e - 1" "0 < e" "s ! c \<noteq> line_feed \<or> c = e - 1"
    "e - 1 \<le> Suc c"
    using assms(2,3) by (auto simp: line_ending_at_def split: if_splits)
  have "line_feed \<notin> set (slice s a (e - 1))"
  proof (cases "c = e - 1")
    case True
    with no_ending_no_lf [OF assms(4)] assms(2) show ?thesis by simp
  next
    case False
    with lf have e: "e - 1 = Suc c" by simp
    have "slice s a (Suc c) = slice s a c @ [s ! c]"
      using assms(1,2) by (rule slice_snoc)
    with no_ending_no_lf [OF assms(4)] assms(2) lf(5) False e show ?thesis by auto
  qed
  moreover have "drop a s = slice s a (e - 1) @ line_feed # drop e s"
  proof -
    have "drop a s = slice s a (e - 1) @ drop (e - 1) s"
    proof -
      have "e - 1 = (e - 1 - a) + a" using assms(1) lf(3) by linarith
      then have "drop (e - 1) s = drop (e - 1 - a) (drop a s)" by (metis drop_drop)
      then show ?thesis unfolding slice_def by (simp only: append_take_drop_id)
    qed
    moreover have "drop (e - 1) s = line_feed # drop e s"
      using lf by (metis Cons_nth_drop_Suc Suc_diff_1)
    ultimately show ?thesis by simp
  qed
  moreover have "slice s a e = slice s a (e - 1) @ [line_feed]"
  proof -
    have "slice s a (Suc (e - 1)) = slice s a (e - 1) @ [s ! (e - 1)]"
      using assms(1) lf by (intro slice_snoc) simp_all
    moreover have "Suc (e - 1) = e" using lf(4) by simp
    ultimately show ?thesis using lf(1) by (simp only:)
  qed
  ultimately show ?thesis using split_inclusive_at_lf by metis
qed

lemma terminated_split:
  "terminated s base a L b \<Longrightarrow>
   split_inclusive_lf (drop a s) = map (line_piece s base) L @ split_inclusive_lf (drop b s)"
proof (induction L arbitrary: a)
  case (Cons l L)
  then obtain c e k where l: "a \<le> c" "c < length s" "line_ending_at s c = Some (e, k)"
    "l = line_of base a c e k" "no_ending s a c" "terminated s base e L b" by auto
  have "line_piece s base l = slice s a e" by (simp add: line_piece_def l(4))
  with terminated_line_split [OF l(1-3,5)] Cons.IH [OF l(6)] show ?case by simp
qed simp

lemma well_indexed_pieces:
  assumes "well_indexed s base d"
  shows "split_inclusive_lf s = filter (\<lambda>w. w \<noteq> []) (map (line_piece s base) (sd_lines d))"
    "length (split_inclusive_lf s) \<le> length (sd_lines d)"
    "i < length (split_inclusive_lf s) \<Longrightarrow> line_piece s base (sd_lines d ! i) = split_inclusive_lf s ! i"
proof -
  obtain init b where L: "sd_lines d = init @ [line_of base b (length s) (length s) NoEnding]"
    "terminated s base 0 init b" "b \<le> length s" "no_ending s b (length s)"
    using assms by (auto simp: well_indexed_def)
  have init: "split_inclusive_lf s = map (line_piece s base) init @ split_inclusive_lf (drop b s)"
    using terminated_split [OF L(2)] by simp
  have lastp: "line_piece s base (line_of base b (length s) (length s) NoEnding) = drop b s"
    by (simp add: line_piece_def slice_def)
  have "slice s b (length s) = drop b s" by (simp add: slice_def)
  with no_ending_no_lf [OF L(4)] have "line_feed \<notin> set (drop b s)" by simp
  then have tail: "split_inclusive_lf (drop b s) = filter (\<lambda>w. w \<noteq> []) [drop b s]"
    using split_inclusive_no_lf by simp
  have "\<forall>w \<in> set (map (line_piece s base) init). w \<noteq> []"
    using split_inclusive_lf_nonempty [of _ s] init by auto
  then have "filter (\<lambda>w. w \<noteq> []) (map (line_piece s base) init) = map (line_piece s base) init"
    by (simp add: filter_id_conv)
  with init tail lastp L(1) show "split_inclusive_lf s = filter (\<lambda>w. w \<noteq> []) (map (line_piece s base) (sd_lines d))"
    by simp
  show "length (split_inclusive_lf s) \<le> length (sd_lines d)"
    unfolding init tail L(1) by simp
  show "i < length (split_inclusive_lf s) \<Longrightarrow> line_piece s base (sd_lines d ! i) = split_inclusive_lf s ! i"
    unfolding init tail L(1) using lastp by (auto simp: nth_append split: if_splits)
qed

section \<open>Properties\<close>

text \<open>C9. The index and the physical lines agree: a document's lines, read in order, are the
  pieces between line feeds, each with its ending, and a text that ends with a line feed has
  one more, empty line.\<close>

theorem document_lines_are_pieces:
  assumes "valid_utf8 s" and "length s \<le> u32_max"
  shows "\<exists>d. SourceDocument_new s = Inr d
    \<and> split_inclusive_lf s = filter (\<lambda>w. w \<noteq> []) (map (line_piece s 0) (sd_lines d))
    \<and> (\<forall>i < length (split_inclusive_lf s). line_piece s 0 (sd_lines d ! i) = split_inclusive_lf s ! i)"
proof -
  obtain d where "SourceDocument_new s = Inr d" "well_indexed s 0 d"
    using SourceDocument_new_ok [OF assms] .
  with well_indexed_pieces show ?thesis by blast
qed

theorem document_lines_are_pieces_witness:
  "\<exists>d. SourceDocument_new (''ab'' @ [line_feed] @ ''c'') = Inr d
     \<and> filter (\<lambda>w. w \<noteq> []) (map (line_piece (''ab'' @ [line_feed] @ ''c'') 0) (sd_lines d))
       = [''ab'' @ [line_feed], ''c'']"
proof -
  have "valid_utf8 (''ab'' @ [line_feed] @ ''c'')" and "length (''ab'' @ [line_feed] @ ''c'') \<le> u32_max"
    by (simp_all add: str_eval)
  from document_lines_are_pieces [OF this] show ?thesis by auto
qed

end
