(* ===== verification/Budget.thy ===== *)
theory Budget
  imports Prelude
begin

text \<open>
  \<open>limits.rs\<close> and \<open>budget.rs\<close>: the configured limits, and the construction-time
  accounting that every parser stage charges. Counters and limits are \<open>u32\<close> and the
  running total is a saturating \<open>u64\<close>, as in the source.
\<close>

record AnalysisLimits =
  max_input_bytes :: u32
  max_line_bytes :: u32
  max_list_depth :: u32
  max_list_continuations :: u32
  max_block_depth :: u32
  max_inline_depth :: u32
  max_formula_bytes :: u32
  max_table_bytes :: u32
  max_table_cells :: u32
  max_table_columns :: u32
  max_table_depth :: u32
  max_catalog_entries :: u32
  max_catalog_bytes :: u32
  max_blocks :: u32
  max_nodes :: u32
  max_references :: u32
  max_attributes :: u32
  max_attribute_expansion_depth :: u32
  max_attribute_expansion_bytes :: u32

definition AnalysisLimits_default :: AnalysisLimits where
  "AnalysisLimits_default =
     \<lparr>max_input_bytes = 10 * 1024 * 1024,
      max_line_bytes = 1024 * 1024,
      max_list_depth = 8,
      max_list_continuations = 10000,
      max_block_depth = 32,
      max_inline_depth = 32,
      max_formula_bytes = 1024 * 1024,
      max_table_bytes = 5 * 1024 * 1024,
      max_table_cells = 100000,
      max_table_columns = 1000,
      max_table_depth = 8,
      max_catalog_entries = 100000,
      max_catalog_bytes = 5 * 1024 * 1024,
      max_blocks = 100000,
      max_nodes = 1000000,
      max_references = 100000,
      max_attributes = 1000,
      max_attribute_expansion_depth = 32,
      max_attribute_expansion_bytes = 1024 * 1024\<rparr>"

record BudgetExceeded =
  resource :: string
  exceeded_limit :: u32
  actual :: u64

record ParseBudget =
  limits :: AnalysisLimits
  blocks :: u32
  nodes :: u32
  references :: u32
  attributes :: u32
  list_continuations :: u32

record ParseBudgetCharge =
  charge_blocks :: nat
  charge_nodes :: nat
  charge_attributes :: nat

definition consume_many :: "u32 \<Rightarrow> u32 \<Rightarrow> u64 \<Rightarrow> string \<Rightarrow> BudgetExceeded + u32" where
  "consume_many current limit count name =
     (let total = saturating_add (ucast current) count in
      if (ucast limit :: u64) < total
      then Inl \<lparr>resource = name, exceeded_limit = limit, actual = total\<rparr>
      else Inr (ucast total))"

definition consume :: "u32 \<Rightarrow> u32 \<Rightarrow> string \<Rightarrow> BudgetExceeded + u32" where
  "consume current limit name = consume_many current limit 1 name"

definition consume_block :: "ParseBudget \<Rightarrow> BudgetExceeded + ParseBudget" where
  "consume_block b =
     and_then (consume (blocks b) (max_blocks (limits b)) ''blocks'') (\<lambda>n. Inr (b\<lparr>blocks := n\<rparr>))"

definition consume_node :: "ParseBudget \<Rightarrow> BudgetExceeded + ParseBudget" where
  "consume_node b =
     and_then (consume (nodes b) (max_nodes (limits b)) ''nodes'') (\<lambda>n. Inr (b\<lparr>nodes := n\<rparr>))"

definition consume_nodes :: "u64 \<Rightarrow> ParseBudget \<Rightarrow> BudgetExceeded + ParseBudget" where
  "consume_nodes count b =
     and_then (consume_many (nodes b) (max_nodes (limits b)) count ''nodes'')
       (\<lambda>n. Inr (b\<lparr>nodes := n\<rparr>))"

definition consume_reference :: "ParseBudget \<Rightarrow> BudgetExceeded + ParseBudget" where
  "consume_reference b =
     and_then (consume (references b) (max_references (limits b)) ''references'')
       (\<lambda>n. Inr (b\<lparr>references := n\<rparr>))"

definition consume_attribute :: "ParseBudget \<Rightarrow> BudgetExceeded + ParseBudget" where
  "consume_attribute b =
     and_then (consume (attributes b) (max_attributes (limits b)) ''document attributes'')
       (\<lambda>n. Inr (b\<lparr>attributes := n\<rparr>))"

definition consume_list_continuation :: "ParseBudget \<Rightarrow> BudgetExceeded + ParseBudget" where
  "consume_list_continuation b =
     and_then
       (consume (list_continuations b) (max_list_continuations (limits b)) ''list continuations'')
       (\<lambda>n. Inr (b\<lparr>list_continuations := n\<rparr>))"

definition ParseBudget_new :: "AnalysisLimits \<Rightarrow> BudgetExceeded + ParseBudget" where
  "ParseBudget_new l =
     consume_node \<lparr>limits = l, blocks = 0, nodes = 0, references = 0, attributes = 0,
                   list_continuations = 0\<rparr>"

text \<open>The \<open>for _ in 0..n\<close> loops of \<open>charged\<close>.\<close>

fun repeat_result :: "nat \<Rightarrow> ('s \<Rightarrow> 'e + 's) \<Rightarrow> 's \<Rightarrow> 'e + 's" where
  "repeat_result 0 f s = Inr s"
| "repeat_result (Suc n) f s = and_then (f s) (repeat_result n f)"

definition charged :: "ParseBudgetCharge \<Rightarrow> ParseBudget \<Rightarrow> BudgetExceeded + ParseBudget" where
  "charged c b =
     and_then (repeat_result (charge_blocks c) consume_block b) (\<lambda>b.
     and_then (repeat_result (charge_nodes c) consume_node b) (\<lambda>b.
       repeat_result (charge_attributes c) consume_attribute b))"

text \<open>
  \<open>charge\<close> assigns \<open>*self\<close> only after every part was accepted; the new state is
  returned beside the result so that the failing case is visible.
\<close>

definition charge :: "ParseBudgetCharge \<Rightarrow> ParseBudget \<Rightarrow> (BudgetExceeded + unit) \<times> ParseBudget" where
  "charge c b = (case charged c b of Inl e \<Rightarrow> (Inl e, b) | Inr b' \<Rightarrow> (Inr (), b'))"

definition check :: "ParseBudgetCharge \<Rightarrow> ParseBudget \<Rightarrow> BudgetExceeded + unit" where
  "check c b = and_then (charged c b) (\<lambda>_. Inr ())"

section \<open>The counter contract\<close>

text \<open>
  What every client of a budget relies on: a tick is accepted exactly while the count is
  below the limit, advances the count by one and never changes the limit.
\<close>

locale bounded_counter =
  fixes tick :: "'s \<Rightarrow> 'e + 's"
    and count :: "'s \<Rightarrow> nat"
    and cap :: "'s \<Rightarrow> nat"
  assumes tick_ok: "count s < cap s \<Longrightarrow> \<exists>s'. tick s = Inr s' \<and> count s' = Suc (count s) \<and> cap s' = cap s"
    and tick_full: "cap s \<le> count s \<Longrightarrow> \<exists>e. tick s = Inl e"
begin

lemma tick_Inr: "tick s = Inr s' \<Longrightarrow> count s < cap s \<and> count s' = Suc (count s) \<and> cap s' = cap s"
  using tick_ok tick_full by (metis Inl_Inr_False linorder_not_less sum.inject(2))

lemma ticks_accepted_iff:
  "(\<exists>s'. repeat_result n tick s = Inr s') \<longleftrightarrow> n = 0 \<or> count s + n \<le> cap s"
proof (induction n arbitrary: s)
  case 0
  then show ?case by simp
next
  case (Suc n)
  show ?case
  proof (cases "count s < cap s")
    case True
    then obtain s' where "tick s = Inr s'" "count s' = Suc (count s)" "cap s' = cap s"
      using tick_ok by blast
    with Suc.IH [of s'] True show ?thesis by auto
  next
    case False
    then obtain e where "tick s = Inl e" using tick_full by fastforce
    with False show ?thesis by simp
  qed
qed

lemma ticks_count: "repeat_result n tick s = Inr s' \<Longrightarrow> count s' = count s + n \<and> cap s' = cap s"
  by (induction n arbitrary: s) (auto simp: and_then_eq_Inr dest!: tick_Inr)

lemma ticks_within: "count s \<le> cap s \<Longrightarrow> repeat_result n tick s = Inr s' \<Longrightarrow> count s' \<le> cap s'"
  using ticks_accepted_iff [of n s] ticks_count [of n s s'] by auto

end

lemma unat_ucast_u32_u64: "unat (ucast (w :: u32) :: u64) = unat w"
  using unsigned_less [of w, where ?'a = nat] by (simp add: unsigned_ucast_eq take_bit_nat_eq_self)

lemma consume_many_cases:
  "consume_many current limit n name =
     (if unat current + unat n \<le> unat limit then Inr (word_of_nat (unat current + unat n))
      else Inl \<lparr>resource = name, exceeded_limit = limit,
                actual = saturating_add (ucast current) n\<rparr>)"
proof -
  let ?t = "saturating_add (ucast current) n :: u64"
  have t: "unat ?t = min (unat current + unat n) (2 ^ 64 - 1)"
    by (simp add: unat_saturating_add unat_ucast_u32_u64)
  have l: "unat limit < 2 ^ 32" using unsigned_less [of limit, where ?'a = nat] by simp
  have le: "\<not> (ucast limit :: u64) < ?t \<longleftrightarrow> unat current + unat n \<le> unat limit"
    using l by (auto simp: word_less_nat_alt unat_ucast_u32_u64 t min_def)
  have "ucast ?t = (word_of_nat (unat ?t) :: u32)"
    by (rule of_nat_unat [symmetric])
  moreover have "unat current + unat n \<le> unat limit \<Longrightarrow> unat ?t = unat current + unat n"
    using l t by simp
  ultimately have "unat current + unat n \<le> unat limit \<Longrightarrow> ucast ?t = (word_of_nat (unat current + unat n) :: u32)"
    by simp
  with le show ?thesis
    by (cases "unat current + unat n \<le> unat limit") (simp_all add: consume_many_def Let_def)
qed

lemma consume_cases:
  "consume current limit name =
     (if unat current < unat limit then Inr (current + 1)
      else Inl \<lparr>resource = name, exceeded_limit = limit,
                actual = saturating_add (ucast current) 1\<rparr>)"
  by (simp add: consume_def consume_many_cases Suc_le_eq)

lemma unat_succ_below: "unat (c :: u32) < unat (l :: u32) \<Longrightarrow> unat (c + 1) = Suc (unat c)"
  using unsigned_less [of l, where ?'a = nat] by (simp add: unat_word_ariths)

interpretation node: bounded_counter consume_node "\<lambda>b. unat (nodes b)" "\<lambda>b. unat (max_nodes (limits b))"
  by unfold_locales (auto simp: consume_node_def consume_cases unat_succ_below)

interpretation block: bounded_counter consume_block "\<lambda>b. unat (blocks b)" "\<lambda>b. unat (max_blocks (limits b))"
  by unfold_locales (auto simp: consume_block_def consume_cases unat_succ_below)

interpretation reference: bounded_counter consume_reference
    "\<lambda>b. unat (references b)" "\<lambda>b. unat (max_references (limits b))"
  by unfold_locales (auto simp: consume_reference_def consume_cases unat_succ_below)

interpretation attribute: bounded_counter consume_attribute
    "\<lambda>b. unat (attributes b)" "\<lambda>b. unat (max_attributes (limits b))"
  by unfold_locales (auto simp: consume_attribute_def consume_cases unat_succ_below)

interpretation continuation: bounded_counter consume_list_continuation
    "\<lambda>b. unat (list_continuations b)" "\<lambda>b. unat (max_list_continuations (limits b))"
  by unfold_locales (auto simp: consume_list_continuation_def consume_cases unat_succ_below)

section \<open>Charging\<close>

text \<open>Each loop changes only its own counter.\<close>

lemma repeat_result_related:
  assumes "\<And>s. R s s" "\<And>a b c. R a b \<Longrightarrow> R b c \<Longrightarrow> R a c" "\<And>a b. f a = Inr b \<Longrightarrow> R a b"
  shows "repeat_result n f s = Inr s' \<Longrightarrow> R s s'"
  by (induction n arbitrary: s) (auto simp: and_then_eq_Inr intro: assms)

lemma blocks_loop_frame:
  "repeat_result n consume_block b = Inr b' \<Longrightarrow> \<exists>k. b' = b\<lparr>blocks := k\<rparr>"
proof (rule repeat_result_related [where R = "\<lambda>b b'. \<exists>k. b' = b\<lparr>blocks := k\<rparr>" and f = consume_block])
  show "\<exists>k. b = b\<lparr>blocks := k\<rparr>" for b :: ParseBudget
    by (rule exI [of _ "blocks b"]) simp
qed (auto simp: consume_block_def and_then_eq_Inr)

lemma nodes_loop_frame:
  "repeat_result n consume_node b = Inr b' \<Longrightarrow> \<exists>k. b' = b\<lparr>nodes := k\<rparr>"
proof (rule repeat_result_related [where R = "\<lambda>b b'. \<exists>k. b' = b\<lparr>nodes := k\<rparr>" and f = consume_node])
  show "\<exists>k. b = b\<lparr>nodes := k\<rparr>" for b :: ParseBudget
    by (rule exI [of _ "nodes b"]) simp
qed (auto simp: consume_node_def and_then_eq_Inr)

lemma attributes_loop_frame:
  "repeat_result n consume_attribute b = Inr b' \<Longrightarrow> \<exists>k. b' = b\<lparr>attributes := k\<rparr>"
proof (rule repeat_result_related [where R = "\<lambda>b b'. \<exists>k. b' = b\<lparr>attributes := k\<rparr>" and f = consume_attribute])
  show "\<exists>k. b = b\<lparr>attributes := k\<rparr>" for b :: ParseBudget
    by (rule exI [of _ "attributes b"]) simp
qed (auto simp: consume_attribute_def and_then_eq_Inr)

definition within_limits :: "ParseBudget \<Rightarrow> bool" where
  "within_limits b \<longleftrightarrow>
     blocks b \<le> max_blocks (limits b) \<and> nodes b \<le> max_nodes (limits b)
     \<and> references b \<le> max_references (limits b) \<and> attributes b \<le> max_attributes (limits b)
     \<and> list_continuations b \<le> max_list_continuations (limits b)"

definition fits :: "ParseBudgetCharge \<Rightarrow> ParseBudget \<Rightarrow> bool" where
  "fits c b \<longleftrightarrow>
     unat (blocks b) + charge_blocks c \<le> unat (max_blocks (limits b))
     \<and> unat (nodes b) + charge_nodes c \<le> unat (max_nodes (limits b))
     \<and> unat (attributes b) + charge_attributes c \<le> unat (max_attributes (limits b))"

lemma charged_Inr:
  assumes "charged c b = Inr b'"
  shows "unat (blocks b') = unat (blocks b) + charge_blocks c"
    "unat (nodes b') = unat (nodes b) + charge_nodes c"
    "unat (attributes b') = unat (attributes b) + charge_attributes c"
    "references b' = references b" "list_continuations b' = list_continuations b"
    "limits b' = limits b"
proof -
  obtain b1 b2 where b: "repeat_result (charge_blocks c) consume_block b = Inr b1"
    "repeat_result (charge_nodes c) consume_node b1 = Inr b2"
    "repeat_result (charge_attributes c) consume_attribute b2 = Inr b'"
    using assms by (auto simp: charged_def and_then_eq_Inr)
  obtain k1 k2 k3 where "b1 = b\<lparr>blocks := k1\<rparr>" "b2 = b1\<lparr>nodes := k2\<rparr>" "b' = b2\<lparr>attributes := k3\<rparr>"
    using blocks_loop_frame [OF b(1)] nodes_loop_frame [OF b(2)] attributes_loop_frame [OF b(3)] by auto
  with block.ticks_count [OF b(1)] node.ticks_count [OF b(2)] attribute.ticks_count [OF b(3)]
  show "unat (blocks b') = unat (blocks b) + charge_blocks c"
    "unat (nodes b') = unat (nodes b) + charge_nodes c"
    "unat (attributes b') = unat (attributes b) + charge_attributes c"
    "references b' = references b" "list_continuations b' = list_continuations b"
    "limits b' = limits b"
    by auto
qed

lemma charged_accepts:
  assumes "within_limits b"
  shows "(\<exists>b'. charged c b = Inr b') \<longleftrightarrow> fits c b"
proof
  assume "\<exists>b'. charged c b = Inr b'"
  then obtain b1 b2 b' where b: "repeat_result (charge_blocks c) consume_block b = Inr b1"
    "repeat_result (charge_nodes c) consume_node b1 = Inr b2"
    "repeat_result (charge_attributes c) consume_attribute b2 = Inr b'"
    by (auto simp: charged_def and_then_eq_Inr)
  obtain k1 k2 where k: "b1 = b\<lparr>blocks := k1\<rparr>" "b2 = b1\<lparr>nodes := k2\<rparr>"
    using blocks_loop_frame [OF b(1)] nodes_loop_frame [OF b(2)] by auto
  with b assms show "fits c b"
    using block.ticks_accepted_iff [of "charge_blocks c" b] node.ticks_accepted_iff [of "charge_nodes c" b1]
      attribute.ticks_accepted_iff [of "charge_attributes c" b2]
    by (auto simp: fits_def within_limits_def word_le_nat_alt)
next
  assume f: "fits c b"
  then obtain b1 where b1: "repeat_result (charge_blocks c) consume_block b = Inr b1"
    using block.ticks_accepted_iff [of "charge_blocks c" b] by (auto simp: fits_def)
  then obtain k1 where k1: "b1 = b\<lparr>blocks := k1\<rparr>"
    using blocks_loop_frame by blast
  with f obtain b2 where b2: "repeat_result (charge_nodes c) consume_node b1 = Inr b2"
    using node.ticks_accepted_iff [of "charge_nodes c" b1] by (auto simp: fits_def)
  then obtain k2 where "b2 = b1\<lparr>nodes := k2\<rparr>"
    using nodes_loop_frame by blast
  with f k1 obtain b' where "repeat_result (charge_attributes c) consume_attribute b2 = Inr b'"
    using attribute.ticks_accepted_iff [of "charge_attributes c" b2] by (auto simp: fits_def)
  with b1 b2 show "\<exists>b'. charged c b = Inr b'" by (simp add: charged_def)
qed

section \<open>Properties\<close>

text \<open>C20. A charge is atomic and exact: within the limits it is accepted exactly when all
  three counters have room, an accepted charge advances each of them by what was
  charged and stays within the limits, a rejected one leaves the budget unchanged, and
  \<open>check\<close> foretells the outcome.\<close>

theorem charge_atomic:
  assumes "within_limits b"
  shows "fst (charge c b) = check c b
    \<and> (if fits c b
       then fst (charge c b) = Inr () \<and> within_limits (snd (charge c b))
         \<and> unat (blocks (snd (charge c b))) = unat (blocks b) + charge_blocks c
         \<and> unat (nodes (snd (charge c b))) = unat (nodes b) + charge_nodes c
         \<and> unat (attributes (snd (charge c b))) = unat (attributes b) + charge_attributes c
       else fst (charge c b) \<noteq> Inr () \<and> snd (charge c b) = b)"
proof (cases "charged c b")
  case (Inl e)
  with charged_accepts [OF assms, of c] show ?thesis
    by (simp add: charge_def check_def)
next
  case (Inr b')
  with charged_accepts [OF assms, of c] have "fits c b" by auto
  with Inr charged_Inr [OF Inr] assms show ?thesis
    by (auto simp: charge_def check_def fits_def within_limits_def word_le_nat_alt)
qed

theorem charge_atomic_witness:
  "fst (charge \<lparr>charge_blocks = 1, charge_nodes = 2, charge_attributes = 0\<rparr>
       \<lparr>limits = AnalysisLimits_default, blocks = 0, nodes = 1, references = 0, attributes = 0,
        list_continuations = 0\<rparr>) = Inr ()"
proof -
  let ?b = "\<lparr>limits = AnalysisLimits_default, blocks = 0, nodes = 1, references = 0, attributes = 0,
             list_continuations = 0\<rparr>"
  let ?c = "\<lparr>charge_blocks = 1, charge_nodes = 2, charge_attributes = 0\<rparr>"
  have w: "within_limits ?b" and f: "fits ?c ?b"
    by (simp_all add: within_limits_def fits_def AnalysisLimits_default_def)
  from conjunct2 [OF charge_atomic [OF w, of ?c], unfolded if_P [OF f]] show ?thesis
    by (rule conjunct1)
qed

end
