(* ===== verification/Substitution.thy ===== *)
theory Substitution
  imports Str
begin

text \<open>
  \<open>substitution.rs\<close>: which substitutions a context applies, the expansion of attribute
  references in a text, and the typographic replacements.
\<close>

section \<open>Contexts\<close>

datatype SubstitutionStep =
  SpecialCharacters | Quotes | Attributes | Replacements | Macros | PostReplacements

datatype SubstitutionContext = Normal | Header | Verbatim | Pass | NoContext

fun steps :: "SubstitutionContext \<Rightarrow> SubstitutionStep list" where
  "steps Normal = [SpecialCharacters, Quotes, Attributes, Replacements, Macros, PostReplacements]"
| "steps Header = [SpecialCharacters, Attributes]"
| "steps Verbatim = [SpecialCharacters]"
| "steps Pass = []"
| "steps NoContext = []"

fun applies_from :: "SubstitutionStep list \<Rightarrow> SubstitutionStep \<Rightarrow> bool" where
  "applies_from [] step = False"
| "applies_from (s # rest) step = (if s = step then True else applies_from rest step)"

definition applies :: "SubstitutionContext \<Rightarrow> SubstitutionStep \<Rightarrow> bool" where
  "applies c step = applies_from (steps c) step"

section \<open>Attribute references\<close>

record AttributeExpansionLimits =
  max_depth :: u32
  max_bytes :: u32

datatype AttributeExpansionError = Undefined | Cycle | DepthLimitExceeded | SizeLimitExceeded

text \<open>
  A resolver maps a name to its value and the depth of the references in it. The loop
  keeps the remainder of the text (\<open>value[cursor..]\<close>), the output and the depth.
\<close>

type_synonym resolver = "str \<Rightarrow> AttributeExpansionError failure + (str \<times> u32)"

definition check_size ::
    "AttributeExpansionLimits \<Rightarrow> str \<Rightarrow> AttributeExpansionError failure + unit" where
  "check_size lim output =
     (if unat (max_bytes lim) < length output then Inl (Err SizeLimitExceeded) else Inr ())"

text \<open>
  How the source reads the front of a non-empty remainder: literal text with the number
  of bytes consumed, a reference with its name, or an opening brace without its partner.
\<close>

datatype Piece = Literal str nat | Reference str nat | Unterminated

definition next_piece :: "str \<Rightarrow> Piece" where
  "next_piece rest =
     (if starts_with rest [backslash, CHR ''{''] then Literal ''{'' 2
      else if starts_with rest ''{'' then
        (case find_char (CHR ''}'') rest of
           None \<Rightarrow> Unterminated
         | Some close \<Rightarrow>
             let name = slice rest 1 close in
             if name = [] then Literal ''{}'' (close + 1) else Reference name (close + 1))
      else Literal (take (utf8_len (hd rest)) rest) (utf8_len (hd rest)))"

lemma next_piece_consumes:
  "next_piece rest = Literal t n \<Longrightarrow> 0 < n" "next_piece rest = Reference name n \<Longrightarrow> 0 < n"
  by (auto simp: next_piece_def Let_def split: if_splits option.splits)

function expand_loop ::
    "AttributeExpansionLimits \<Rightarrow> resolver \<Rightarrow> str \<Rightarrow> str \<Rightarrow> u32
     \<Rightarrow> AttributeExpansionError failure + (str \<times> u32)" where
  "expand_loop lim resolve rest output depth =
     (if rest = [] then Inr (output, depth)
      else (case next_piece rest of
          Unterminated \<Rightarrow> Inr (output @ rest, depth)
        | Literal t n \<Rightarrow>
            and_then (check_size lim (output @ t)) (\<lambda>_.
              expand_loop lim resolve (drop n rest) (output @ t) depth)
        | Reference name n \<Rightarrow>
            and_then (resolve name) (\<lambda>(resolved, resolved_depth).
              let depth' = max depth (saturating_add resolved_depth 1) in
              if max_depth lim < depth' then Inl (Err DepthLimitExceeded)
              else and_then (check_size lim (output @ resolved)) (\<lambda>_.
                expand_loop lim resolve (drop n rest) (output @ resolved) depth'))))"
  by pat_completeness auto
termination
  by (relation "measure (\<lambda>(_, _, s, _, _). length s)") (auto dest!: next_piece_consumes)

declare expand_loop.simps [simp del]

definition expand_attribute_text ::
    "str \<Rightarrow> AttributeExpansionLimits \<Rightarrow> resolver \<Rightarrow> AttributeExpansionError failure + (str \<times> u32)" where
  "expand_attribute_text value lim resolve = expand_loop lim resolve value [] 0"

section \<open>Replacements\<close>

text \<open>
  \<open>char::is_alphanumeric\<close> is ASCII's own class on ASCII; beyond it the answer comes from
  the Unicode tables, which are the parameter \<open>unicode_alnum\<close>.
\<close>

definition is_alphanumeric :: "(str \<Rightarrow> bool) \<Rightarrow> str \<Rightarrow> bool" where
  "is_alphanumeric unicode_alnum ch =
     (case ch of [b] \<Rightarrow> is_ascii_alphanumeric b | _ \<Rightarrow> unicode_alnum ch)"

definition replacement_table :: "(str \<times> str) list" where
  "replacement_table =
    [(''(TM)'', [CHR 0xE2, CHR 0x84, CHR 0xA2]),
     (''(C)'', [CHR 0xC2, CHR 0xA9]),
     (''(R)'', [CHR 0xC2, CHR 0xAE]),
     (''...'', [CHR 0xE2, CHR 0x80, CHR 0xA6]),
     (''->'', [CHR 0xE2, CHR 0x86, CHR 0x92]),
     (''<-'', [CHR 0xE2, CHR 0x86, CHR 0x90]),
     (''=>'', [CHR 0xE2, CHR 0x87, CHR 0x92]),
     (''<='', [CHR 0xE2, CHR 0x87, CHR 0x90])]"

definition right_single_quote :: str where
  "right_single_quote = [CHR 0xE2, CHR 0x80, CHR 0x99]"

lemma find_replacement_nonempty:
  "List.find (\<lambda>(src, _). starts_with c src) replacement_table = Some (src, r) \<Longrightarrow> 0 < length src"
  by (auto simp: find_Some_iff replacement_table_def nth_Cons' split: if_splits)

function replacements_loop :: "(str \<Rightarrow> bool) \<Rightarrow> str \<Rightarrow> str \<Rightarrow> str" where
  "replacements_loop alnum [] output = output"
| "replacements_loop alnum (b # s) output =
     (let rest = b # s in
      if starts_with rest [backslash, quote_char] then
        replacements_loop alnum (drop 2 rest) (output @ [quote_char])
      else
        let escaped = (b = backslash);
            candidate = (if escaped then s else rest)
        in case List.find (\<lambda>(src, _). starts_with candidate src) replacement_table of
             Some (src, rendered) \<Rightarrow>
               replacements_loop alnum (drop (length src + (if escaped then 1 else 0)) rest)
                 (output @ (if escaped then src else rendered))
           | None \<Rightarrow>
               if b = quote_char then
                 let previous_is_word =
                       (chars output \<noteq> [] \<and> is_alphanumeric alnum (last (chars output)));
                     next_is_word = (chars s \<noteq> [] \<and> is_alphanumeric alnum (hd (chars s)))
                 in replacements_loop alnum s
                      (output @ (if previous_is_word \<and> next_is_word then right_single_quote
                                 else [quote_char]))
               else
                 let n = utf8_len b in
                 replacements_loop alnum (drop n rest) (output @ take n rest))"
  by pat_completeness auto
termination
  by (relation "measure (\<lambda>(_, s, _). length s)")
     (auto simp: utf8_len_def dest!: find_replacement_nonempty split: if_splits)

declare replacements_loop.simps(2) [simp del]

definition apply_replacements :: "(str \<Rightarrow> bool) \<Rightarrow> str \<Rightarrow> str" where
  "apply_replacements alnum value = replacements_loop alnum value []"

section \<open>The resolver contract\<close>

text \<open>
  Every client passes a resolver that does not panic: attribute definitions, the
  environment's references and directive text (interpreted in their own theories).
\<close>

lemma check_size_cases:
  "check_size lim out = Inr () \<longleftrightarrow> length out \<le> unat (max_bytes lim)"
  "check_size lim out \<noteq> Inl Panic"
  by (auto simp: check_size_def)

lemma expand_loop_Nil [simp]: "expand_loop lim resolve [] acc depth = Inr (acc, depth)"
  by (simp add: expand_loop.simps)

lemma expand_loop_Literal:
  "rest \<noteq> [] \<Longrightarrow> next_piece rest = Literal t n \<Longrightarrow>
   expand_loop lim resolve rest acc depth =
     (if unat (max_bytes lim) < length (acc @ t) then Inl (Err SizeLimitExceeded)
      else expand_loop lim resolve (drop n rest) (acc @ t) depth)"
  by (simp add: expand_loop.simps [of lim resolve rest] check_size_def)

lemma expand_loop_Unterminated:
  "rest \<noteq> [] \<Longrightarrow> next_piece rest = Unterminated \<Longrightarrow>
   expand_loop lim resolve rest acc depth = Inr (acc @ rest, depth)"
  by (simp add: expand_loop.simps [of lim resolve rest])

lemma expand_loop_Reference:
  "rest \<noteq> [] \<Longrightarrow> next_piece rest = Reference name n \<Longrightarrow>
   expand_loop lim resolve rest acc depth =
     and_then (resolve name) (\<lambda>(resolved, resolved_depth).
       if max_depth lim < max depth (saturating_add resolved_depth 1) then Inl (Err DepthLimitExceeded)
       else if unat (max_bytes lim) < length (acc @ resolved) then Inl (Err SizeLimitExceeded)
       else expand_loop lim resolve (drop n rest) (acc @ resolved)
              (max depth (saturating_add resolved_depth 1)))"
  by (cases "resolve name")
     (auto simp: expand_loop.simps [of lim resolve rest] check_size_def Let_def)

lemmas expand_loop_steps = expand_loop_Literal expand_loop_Unterminated expand_loop_Reference

locale attribute_resolver =
  fixes resolve :: resolver
  assumes no_panic: "resolve name \<noteq> Inl Panic"
begin

lemma expand_no_panic: "expand_attribute_text value lim resolve \<noteq> Inl Panic"
proof -
  have "expand_loop lim r rest acc depth \<noteq> Inl Panic" if "r = resolve" for r rest acc depth
    using that
  proof (induction lim r rest acc depth rule: expand_loop.induct)
    case (1 lim r rest acc depth)
    show ?case
    proof (cases "rest = []")
      case False
      show ?thesis
      proof (cases "next_piece rest")
        case (Literal t n)
        with 1 False show ?thesis by (simp add: expand_loop_Literal check_size_def)
      next
        case (Reference name n)
        show ?thesis
        proof (cases "resolve name")
          case (Inl e)
          with Reference False 1 no_panic [of name] show ?thesis
            by (auto simp: expand_loop_Reference)
        next
          case (Inr v)
          obtain t d where v: "v = (t, d)" by fastforce
          let ?d = "max depth (saturating_add d 1)"
          have "\<not> max_depth lim < ?d \<Longrightarrow> length (acc @ t) \<le> unat (max_bytes lim)
              \<Longrightarrow> expand_loop lim resolve (drop n rest) (acc @ t) ?d \<noteq> Inl Panic"
            using "1.IH"(2) [OF False Reference, of "(t, d)" t d ?d "()"] Inr v "1.prems"
            by (simp add: check_size_def)
          with Inr v Reference False "1.prems" show ?thesis
            by (simp add: expand_loop_Reference)
        qed
      next
        case Unterminated
        with False show ?thesis by (simp add: expand_loop_Unterminated)
      qed
    qed simp
  qed
  then show ?thesis by (simp add: expand_attribute_text_def)
qed

end

section \<open>What an expansion guarantees\<close>

definition unterminated_tail :: "str \<Rightarrow> bool" where
  "unterminated_tail s \<longleftrightarrow> (\<exists>p t. s = p @ ''{'' @ t \<and> CHR ''}'' \<notin> set t)"

lemma next_piece_Unterminated: "next_piece rest = Unterminated \<Longrightarrow> unterminated_tail rest"
proof -
  assume u: "next_piece rest = Unterminated"
  then have "starts_with rest ''{''" "CHR ''}'' \<notin> set rest"
    by (auto simp: next_piece_def Let_def split: if_splits option.splits)
  then obtain t where "rest = [] @ ''{'' @ t" "CHR ''}'' \<notin> set t"
    by (auto simp: starts_with_prefix)
  then show ?thesis unfolding unterminated_tail_def by blast
qed

lemma unterminated_tail_drop: "unterminated_tail (drop n s) \<Longrightarrow> unterminated_tail s"
  unfolding unterminated_tail_def by (metis append.assoc append_take_drop_id)

lemma expand_loop_bounds:
  "expand_loop lim resolve rest acc depth = Inr (out, d) \<Longrightarrow>
   depth \<le> max_depth lim \<Longrightarrow> length acc \<le> unat (max_bytes lim) \<Longrightarrow>
   d \<le> max_depth lim \<and> (length out \<le> unat (max_bytes lim) \<or> unterminated_tail rest)"
proof (induction lim resolve rest acc depth rule: expand_loop.induct)
  case (1 lim resolve rest acc depth)
  show ?case
  proof (cases "rest = []")
    case True
    with 1 show ?thesis by simp
  next
    case False
    show ?thesis
    proof (cases "next_piece rest")
      case (Literal t n)
      have "expand_loop lim resolve (drop n rest) (acc @ t) depth = Inr (out, d)"
        and len: "length (acc @ t) \<le> unat (max_bytes lim)"
        using "1.prems"(1) False Literal by (auto simp: expand_loop_Literal split: if_splits)
      with "1.IH"(1) [OF False Literal, of "()"] "1.prems"(2)
      have "d \<le> max_depth lim \<and> (length out \<le> unat (max_bytes lim) \<or> unterminated_tail (drop n rest))"
        by (simp add: check_size_cases)
      with unterminated_tail_drop show ?thesis by blast
    next
      case (Reference name n)
      obtain t rd where r: "resolve name = Inr (t, rd)"
        and *: "\<not> max_depth lim < max depth (saturating_add rd 1)"
        "length (acc @ t) \<le> unat (max_bytes lim)"
        "expand_loop lim resolve (drop n rest) (acc @ t) (max depth (saturating_add rd 1)) = Inr (out, d)"
        using "1.prems"(1) False Reference
        by (auto simp: expand_loop_Reference and_then_eq_Inr split: if_splits)
      have "max depth (saturating_add rd 1) \<le> max_depth lim" using *(1) by (rule leI)
      with *(2,3) "1.IH"(2) [OF False Reference r refl refl *(1), of "()"]
      have "d \<le> max_depth lim \<and> (length out \<le> unat (max_bytes lim) \<or> unterminated_tail (drop n rest))"
        unfolding check_size_cases by blast
      with unterminated_tail_drop show ?thesis by blast
    next
      case Unterminated
      with False 1 next_piece_Unterminated show ?thesis
        by (auto simp: expand_loop_Unterminated)
    qed
  qed
qed

section \<open>Escaping\<close>

text \<open>The escape a document author writes: a backslash before every opening brace.\<close>

definition escape_braces :: "str \<Rightarrow> str" where
  "escape_braces t = concat (map (\<lambda>b. if b = CHR ''{'' then [backslash, b] else [b]) t)"

lemma escape_braces_simps [simp]:
  "escape_braces [] = []"
  "escape_braces (b # t) = (if b = CHR ''{'' then [backslash, b] else [b]) @ escape_braces t"
  "escape_braces (s @ t) = escape_braces s @ escape_braces t"
  by (simp_all add: escape_braces_def)

lemma escape_braces_head: "escape_braces t \<noteq> CHR ''{'' # u"
  by (cases t) auto

lemma escape_braces_id: "CHR ''{'' \<notin> set t \<Longrightarrow> escape_braces t = t"
  by (induction t) auto

lemma continuation_not_brace: "is_continuation c \<Longrightarrow> c \<noteq> CHR ''{''"
  by (auto simp: is_continuation_def)

lemma expand_loop_escaped:
  "valid_utf8 t \<Longrightarrow> length (acc @ t) \<le> unat (max_bytes lim) \<Longrightarrow>
   expand_loop lim resolve (escape_braces t) acc depth = Inr (acc @ t, depth)"
proof (induction t arbitrary: acc rule: chars.induct)
  case 1
  then show ?case by simp
next
  case (2 b s)
  let ?n = "utf8_len b - 1"
  let ?r = "drop ?n s"
  have shape: "length (take ?n s) = ?n" "\<forall>c \<in> set (take ?n s). is_continuation c" and v: "valid_utf8 ?r"
    using "2.prems"(1) valid_scalar_shape [of b "take ?n s"] by (simp_all add: valid_utf8_def)
  have cont: "CHR ''{'' \<notin> set (take ?n s)"
    using shape(2) continuation_not_brace by blast
  have s: "s = take ?n s @ ?r" by simp
  show ?case
  proof (cases "b = CHR ''{''")
    case True
    then have n: "?n = 0" by (simp add: utf8_len_def)
    have "next_piece (escape_braces (b # s)) = Literal ''{'' 2"
      using True by (simp add: next_piece_def starts_with_def)
    moreover have "drop 2 (escape_braces (b # s)) = escape_braces s"
      using True by simp
    ultimately have "expand_loop lim resolve (escape_braces (b # s)) acc depth =
        expand_loop lim resolve (escape_braces s) (acc @ ''{'') depth"
      using True "2.prems"(2) by (simp add: expand_loop_Literal)
    with "2.IH" [of "acc @ ''{''"] "2.prems" True n v show ?thesis by simp
  next
    case False
    have esc: "escape_braces (b # s) = b # take ?n s @ escape_braces ?r"
      using False cont escape_braces_id [of "take ?n s"]
      by (subst s) (simp del: append_take_drop_id)
    have "\<not> starts_with (escape_braces (b # s)) [backslash, CHR ''{'']"
    proof
      assume "starts_with (escape_braces (b # s)) [backslash, CHR ''{'']"
      then obtain u where u: "b # escape_braces s = backslash # CHR ''{'' # u"
        using False by (auto simp: starts_with_prefix)
      then show False using escape_braces_head by simp
    qed
    moreover have "\<not> starts_with (escape_braces (b # s)) ''{''"
      using False by (simp add: starts_with_def)
    ultimately have np: "next_piece (escape_braces (b # s)) = Literal (b # take ?n s) (utf8_len b)"
      using shape(1) unfolding esc next_piece_def
      by (cases "utf8_len b") (simp_all add: take_append_full)
    have "drop (utf8_len b) (escape_braces (b # s)) = escape_braces ?r"
      unfolding esc using shape(1) by (cases "utf8_len b") (simp_all add: take_append_full)
    moreover have len: "length (acc @ b # take ?n s) \<le> unat (max_bytes lim)"
      using "2.prems"(2) by simp
    ultimately have "expand_loop lim resolve (escape_braces (b # s)) acc depth =
        expand_loop lim resolve (escape_braces ?r) (acc @ b # take ?n s) depth"
      using np by (simp add: expand_loop_Literal esc)
    moreover have "length ((acc @ b # take ?n s) @ ?r) \<le> unat (max_bytes lim)"
      using "2.prems"(2) by simp
    ultimately show ?thesis
      using "2.IH" [OF v] by (simp del: append_take_drop_id add: ) (metis append_take_drop_id)
  qed
qed

section \<open>Replacements\<close>

definition replacement_trigger :: "char \<Rightarrow> bool" where
  "replacement_trigger b \<longleftrightarrow> b \<in> {backslash, quote_char, CHR ''('', CHR ''.'', CHR ''-'', CHR ''<'', CHR ''=''}"

lemma find_replacement_trigger:
  "\<not> replacement_trigger b \<Longrightarrow>
   List.find (\<lambda>(src, _). starts_with (b # s) src) replacement_table = None"
  by (simp add: replacement_table_def starts_with_def replacement_trigger_def)

lemma replacements_loop_plain:
  "\<forall>b \<in> set s. \<not> replacement_trigger b \<Longrightarrow> replacements_loop alnum s acc = acc @ s"
proof (induction "length s" arbitrary: s acc rule: less_induct)
  case less
  show ?case
  proof (cases s)
    case (Cons b t)
    then have b: "\<not> replacement_trigger b" using less.prems by simp
    then have nb: "b \<noteq> backslash" "b \<noteq> quote_char" by (simp_all add: replacement_trigger_def)
    let ?n = "utf8_len b"
    have "length (drop ?n s) < length s" using Cons by simp
    moreover have "\<forall>c \<in> set (drop ?n s). \<not> replacement_trigger c"
      using less.prems by (meson in_set_dropD)
    ultimately have "replacements_loop alnum (drop ?n s) (acc @ take ?n s) = (acc @ take ?n s) @ drop ?n s"
      by (rule less.hyps)
    moreover have "replacements_loop alnum s acc = replacements_loop alnum (drop ?n s) (acc @ take ?n s)"
      using nb find_replacement_trigger [OF b]
      by (simp add: Cons replacements_loop.simps Let_def starts_with_def)
    ultimately show ?thesis by simp
  qed simp
qed

section \<open>Properties\<close>

text \<open>C22. What an accepted expansion guarantees, whatever the resolver answers: the
  reference depth respects its limit, and so does the size of the text, except where the
  value has an opening brace with no closing brace after it.\<close>

theorem attribute_expansion_bounded:
  assumes "expand_attribute_text value lim resolve = Inr (out, d)"
  shows "d \<le> max_depth lim \<and> (length out \<le> unat (max_bytes lim) \<or> unterminated_tail value)"
  using assms expand_loop_bounds [of lim resolve "value" "[]" 0 out d]
  by (simp add: expand_attribute_text_def)

theorem attribute_expansion_bounded_witness:
  "let lim = \<lparr>max_depth = 2, max_bytes = 8\<rparr>; resolve = (\<lambda>_. Inr (''xyz'', 1)) in
   expand_attribute_text ''a{n}'' lim resolve = Inr (''axyz'', 2)
   \<and> (2 :: u32) \<le> max_depth lim \<and> (length ''axyz'' \<le> unat (max_bytes lim) \<or> unterminated_tail ''a{n}'')"
proof -
  have e: "expand_attribute_text ''a{n}'' \<lparr>max_depth = 2, max_bytes = 8\<rparr> (\<lambda>_. Inr (''xyz'', 1)) =
      Inr (''axyz'', 2)"
    by (simp add: expand_attribute_text_def expand_loop.simps next_piece_def check_size_def
        saturating_add_def str_eval)
  from attribute_expansion_bounded [OF e] e show ?thesis by (simp only: Let_def)
qed

text \<open>Escaping is exact: a well-formed text in which every opening brace is preceded by
  a backslash, and which fits the size limit, expands to itself without asking the
  resolver, at depth zero.\<close>

theorem escaped_text_roundtrip:
  assumes "valid_utf8 t" and "length t \<le> unat (max_bytes lim)"
  shows "expand_attribute_text (escape_braces t) lim resolve = Inr (t, 0)"
  using assms by (simp add: expand_attribute_text_def expand_loop_escaped)

theorem escaped_text_roundtrip_witness:
  "expand_attribute_text [CHR ''a'', backslash, CHR ''{'', CHR ''b'', CHR ''}'']
     \<lparr>max_depth = 0, max_bytes = 8\<rparr> (\<lambda>_. Inl Panic) = Inr (''a{b}'', 0)"
  using escaped_text_roundtrip [of "''a{b}''" "\<lparr>max_depth = 0, max_bytes = 8\<rparr>" "\<lambda>_. Inl Panic"]
  by (simp add: str_eval)

text \<open>The size limit is not applied to an unterminated reference: a value that begins
  with an opening brace and has no closing brace is returned whole, whatever the limit.\<close>

theorem unterminated_reference_unchecked:
  assumes "CHR ''}'' \<notin> set t"
  shows "expand_attribute_text (CHR ''{'' # t) lim resolve = Inr (CHR ''{'' # t, 0)"
proof -
  have "find_char (CHR ''}'') (CHR ''{'' # t) = None" using assms by simp
  then have "next_piece (CHR ''{'' # t) = Unterminated"
    by (simp add: next_piece_def starts_with_def del: find_char_None)
  then show ?thesis by (simp add: expand_attribute_text_def expand_loop_Unterminated)
qed

theorem unterminated_reference_unchecked_witness:
  "expand_attribute_text ''{abc'' \<lparr>max_depth = 0, max_bytes = 1\<rparr> (\<lambda>_. Inl Panic) = Inr (''{abc'', 0)"
  by (rule unterminated_reference_unchecked) simp

text \<open>The typographic replacements touch nothing but their own triggers: a text without
  a backslash, an apostrophe, or one of the first bytes of a replaced sequence is
  returned unchanged.\<close>

theorem replacements_plain_identity:
  assumes "\<forall>b \<in> set s. \<not> replacement_trigger b"
  shows "apply_replacements alnum s = s"
  using assms by (simp add: apply_replacements_def replacements_loop_plain)

theorem replacements_plain_identity_witness:
  "apply_replacements (\<lambda>_. True) ''ab {c}'' = ''ab {c}''"
  by (rule replacements_plain_identity) (simp add: replacement_trigger_def)

end
