(* ===== verification/Attributes.thy ===== *)
theory Attributes
  imports Source Substitution Budget "HOL-Library.AList"
begin

text \<open>
  \<open>attributes.rs\<close>: document attributes. An attribute line is parsed into an occurrence,
  occurrences and counter references are applied in reading order to a sequential
  state, and the environment keeps the history of every name for position-dependent
  lookups. The source's ordered maps are partial functions; where the source iterates
  over the externally supplied attributes, they are the list of its entries in order.
\<close>

section \<open>Data\<close>

type_synonym ExternalAttributes = "(str \<times> str option) list"

datatype DocumentAttributeOperation = SetOp | UnsetOp | CounterOp

record CounterReference =
  counter_name :: str
  display :: bool
  seed :: "str option"

datatype AttributeValueContinuation = Soft | Hard

record DocumentAttributeContinuation =
  continuation_kind :: AttributeValueContinuation
  continuation_range :: TextRange

record DocumentAttributeValueLine =
  value_line_range :: TextRange
  value_line_indent :: TextRange
  value_line_content :: TextRange
  value_line_ending :: TextRange
  continuation :: "DocumentAttributeContinuation option"

record DocumentAttributeValue =
  value_source_range :: TextRange
  source_text :: str
  folded_text :: str
  value_lines :: "DocumentAttributeValueLine list"

record DocumentAttributeOccurrence =
  occ_range :: TextRange
  occ_name_range :: TextRange
  occ_name :: str
  occ_value :: DocumentAttributeValue
  occ_operation :: DocumentAttributeOperation
  occ_valid :: bool

datatype AttributePosition = AttributePosition (position_offset: nat) (position_event: nat)

record AttributeBinding =
  binding_id :: nat
  event_id :: nat
  visible_at :: nat
  evaluation_at :: nat
  binding_operation :: DocumentAttributeOperation
  folded_value :: str
  expansion_depth :: u32
  binding_value :: "AttributeExpansionError + str option"
  occurrence :: DocumentAttributeOccurrence

record ResolvedAttribute =
  resolved_value :: "AttributeExpansionError + str option"
  resolved_binding :: "AttributeBinding option"

record AttributeReference =
  reference_range :: TextRange
  reference_name_range :: TextRange
  reference_name :: str
  reference_binding_id :: "nat option"
  reference_value :: "AttributeExpansionError + str option"

record AttributeEnvironment =
  bindings :: "AttributeBinding list"
  histories :: "str \<rightharpoonup> nat list"
  final_values :: "str \<rightharpoonup> str"
  external_values :: "str \<rightharpoonup> str option"
  environment_limits :: AttributeExpansionLimits

record SequentialAttributeState =
  attribute_values :: "str \<rightharpoonup> str"
  depths :: "str \<rightharpoonup> u32"
  failures :: "str \<rightharpoonup> AttributeExpansionError"
  locked :: "str set"
  attribute_limits :: AttributeExpansionLimits

text \<open>Positions are ordered by offset and then by event, as the derived \<open>Ord\<close> does.\<close>

instantiation AttributePosition :: linorder
begin

definition less_eq_AttributePosition :: "AttributePosition \<Rightarrow> AttributePosition \<Rightarrow> bool" where
  "less_eq_AttributePosition a b \<longleftrightarrow>
     position_offset a < position_offset b
     \<or> position_offset a = position_offset b \<and> position_event a \<le> position_event b"

definition less_AttributePosition :: "AttributePosition \<Rightarrow> AttributePosition \<Rightarrow> bool" where
  "less_AttributePosition a b \<longleftrightarrow>
     position_offset a < position_offset b
     \<or> position_offset a = position_offset b \<and> position_event a < position_event b"

instance
  by standard
     (auto simp: less_eq_AttributePosition_def less_AttributePosition_def
           intro: AttributePosition.expand)

end

definition canonical_name :: "str \<Rightarrow> str" where
  "canonical_name name = to_ascii_lowercase name"

lemma canonical_name_idem [simp]: "canonical_name (canonical_name n) = canonical_name n"
  by (simp add: canonical_name_def)

section \<open>Counters\<close>

definition counter_name_byte :: "char \<Rightarrow> bool" where
  "counter_name_byte b \<longleftrightarrow> is_ascii_alphanumeric b \<or> List.member ''_-.'' b"

definition counter_reference :: "str \<Rightarrow> CounterReference option" where
  "counter_reference reference =
     (case (case strip_prefix reference ''counter2:'' of
              Some rest \<Rightarrow> Some (False, rest)
            | None \<Rightarrow> map_option (\<lambda>rest. (True, rest)) (strip_prefix reference ''counter:'')) of
        None \<Rightarrow> None
      | Some (disp, rest) \<Rightarrow>
          let (name, sd) = (case split_once_char (CHR '':'') rest of
                              Some (name, sd) \<Rightarrow> (name, Some sd)
                            | None \<Rightarrow> (rest, None))
          in if name \<noteq> [] \<and> list_all counter_name_byte name
             then Some \<lparr>counter_name = name, display = disp, seed = (if sd = Some [] then None else sd)\<rparr>
             else None)"

definition next_counter_value :: "str option \<Rightarrow> str option \<Rightarrow> str" where
  "next_counter_value previous sd =
     (case (case map_option trim previous of
              Some value \<Rightarrow> if value = [] then None else Some value
            | None \<Rightarrow> None) of
        None \<Rightarrow> (case sd of None \<Rightarrow> ''1'' | Some s \<Rightarrow> s)
      | Some value \<Rightarrow>
          (case parse_i64 value of
             Some number \<Rightarrow> int_to_string (min (number + 1) i64_max)
           | None \<Rightarrow>
               (case chars value of
                  [[letter]] \<Rightarrow>
                    if is_ascii_alphabetic letter then
                      (if letter = CHR ''z'' then ''aa''
                       else if letter = CHR ''Z'' then ''AA''
                       else [char_of (byte_val letter + 1)])
                    else ''1''
                | _ \<Rightarrow> ''1'')))"

section \<open>The sequential state\<close>

text \<open>Inserting into an ordered map, entry by entry: the last entry of a key remains.\<close>

fun insert_all :: "('k \<rightharpoonup> 'v) \<Rightarrow> ('k \<times> 'v) list \<Rightarrow> ('k \<rightharpoonup> 'v)" where
  "insert_all m [] = m"
| "insert_all m ((k, v) # rest) = insert_all (m(k \<mapsto> v)) rest"

definition with_locked_values ::
    "ExternalAttributes \<Rightarrow> AttributeExpansionLimits \<Rightarrow> SequentialAttributeState" where
  "with_locked_values external lim =
     (let values = insert_all Map.empty
            (List.map_filter (\<lambda>(name, v). map_option (\<lambda>v. (canonical_name name, v)) v) external)
      in \<lparr>attribute_values = values,
          depths = map_option (\<lambda>_. 0) \<circ> values,
          failures = Map.empty,
          locked = canonical_name ` fst ` set external,
          attribute_limits = lim\<rparr>)"

text \<open>
  \<open>with_locked_values_cancellable\<close> asks its checkpoint before each entry. The whole
  state is threaded; \<open>Err ()\<close> is the only error.
\<close>

fun lock_entries ::
    "cancel_host \<Rightarrow> ExternalAttributes \<Rightarrow> SequentialAttributeState \<Rightarrow> CancellationCheckpoint
     \<Rightarrow> unit failure + (SequentialAttributeState \<times> CancellationCheckpoint)" where
  "lock_entries host [] st cp = Inr (st, cp)"
| "lock_entries host ((name, v) # rest) st cp =
     (let (cancelled, cp) = checkpoint_is_cancelled host cp in
      if cancelled then Inl (Err ())
      else
        let name = canonical_name name;
            st = st\<lparr>locked := insert name (locked st)\<rparr>;
            st = (case v of
                    None \<Rightarrow> st
                  | Some v \<Rightarrow> st\<lparr>depths := (depths st)(name \<mapsto> 0),
                                attribute_values := (attribute_values st)(name \<mapsto> v)\<rparr>)
        in lock_entries host rest st cp)"

definition with_locked_values_cancellable ::
    "cancel_host \<Rightarrow> ExternalAttributes \<Rightarrow> AttributeExpansionLimits \<Rightarrow> CancellationCheckpoint
     \<Rightarrow> unit failure + (SequentialAttributeState \<times> CancellationCheckpoint)" where
  "with_locked_values_cancellable host external lim cp =
     lock_entries host external
       \<lparr>attribute_values = Map.empty, depths = Map.empty, failures = Map.empty, locked = {},
        attribute_limits = lim\<rparr> cp"

text \<open>The resolver of \<open>evaluate_definition\<close>; \<open>expect("value depth exists")\<close> may panic.\<close>

definition definition_resolver ::
    "str \<Rightarrow> (str \<rightharpoonup> str) \<Rightarrow> (str \<rightharpoonup> u32) \<Rightarrow> (str \<rightharpoonup> AttributeExpansionError) \<Rightarrow> resolver" where
  "definition_resolver binding_name values ds fs name =
     (let name = canonical_name name in
      case values name of
        None \<Rightarrow>
          Inl (Err (case fs name of
                      Some error \<Rightarrow> error
                    | None \<Rightarrow> if name = binding_name then Cycle else Undefined))
      | Some v \<Rightarrow> and_then (expect (ds name)) (\<lambda>d. Inr (v, d)))"

definition evaluate_definition ::
    "str \<Rightarrow> str \<Rightarrow> (str \<rightharpoonup> str) \<Rightarrow> (str \<rightharpoonup> u32) \<Rightarrow> (str \<rightharpoonup> AttributeExpansionError)
     \<Rightarrow> AttributeExpansionLimits \<Rightarrow> AttributeExpansionError failure + (str \<times> u32)" where
  "evaluate_definition binding_name raw_value values ds fs lim =
     expand_attribute_text raw_value lim (definition_resolver binding_name values ds fs)"

definition evaluate_occurrence ::
    "SequentialAttributeState \<Rightarrow> str \<Rightarrow> DocumentAttributeOccurrence
     \<Rightarrow> AttributeExpansionError failure + (str option \<times> u32)" where
  "evaluate_occurrence st name occ =
     (case occ_operation occ of
        SetOp \<Rightarrow>
          and_then
            (evaluate_definition name (folded_text (occ_value occ)) (attribute_values st)
               (depths st) (failures st) (attribute_limits st))
            (\<lambda>(v, d). Inr (Some v, d))
      | UnsetOp \<Rightarrow> Inr (None, 0)
      | CounterOp \<Rightarrow>
          let text = folded_text (occ_value occ);
              sd = (if text = [] then None else Some text)
          in Inr (Some (next_counter_value (attribute_values st name) sd), 0))"

definition apply_occurrence ::
    "DocumentAttributeOccurrence \<Rightarrow> SequentialAttributeState
     \<Rightarrow> (AttributeExpansionError failure + str option) \<times> SequentialAttributeState" where
  "apply_occurrence occ st =
     (if \<not> occ_valid occ then (Inr None, st)
      else
        let name = canonical_name (occ_name occ) in
        if name \<in> locked st then (Inr (attribute_values st name), st)
        else (case evaluate_occurrence st name occ of
            Inr (Some v, d) \<Rightarrow>
              (Inr (Some v),
               st\<lparr>attribute_values := (attribute_values st)(name \<mapsto> v),
                  depths := (depths st)(name \<mapsto> d),
                  failures := (failures st)(name := None)\<rparr>)
          | Inr (None, _) \<Rightarrow>
              (Inr None,
               st\<lparr>attribute_values := (attribute_values st)(name := None),
                  depths := (depths st)(name := None),
                  failures := (failures st)(name := None)\<rparr>)
          | Inl (Err error) \<Rightarrow>
              (Inl (Err error),
               st\<lparr>attribute_values := (attribute_values st)(name := None),
                  depths := (depths st)(name := None),
                  failures := (failures st)(name \<mapsto> error)\<rparr>)
          | Inl Panic \<Rightarrow> (Inl Panic, st)))"

definition is_locked :: "SequentialAttributeState \<Rightarrow> str \<Rightarrow> bool" where
  "is_locked st name \<longleftrightarrow> canonical_name name \<in> locked st"

section \<open>The environment\<close>

definition visible_position :: "AttributeBinding \<Rightarrow> AttributePosition" where
  "visible_position b = AttributePosition (visible_at b) (event_id b)"

definition push_history :: "(str \<rightharpoonup> nat list) \<Rightarrow> str \<Rightarrow> nat \<Rightarrow> (str \<rightharpoonup> nat list)" where
  "push_history hs name index =
     hs(name \<mapsto> (case hs name of None \<Rightarrow> [] | Some h \<Rightarrow> h) @ [index])"

definition default_environment :: AttributeEnvironment where
  "default_environment =
     \<lparr>bindings = [], histories = Map.empty, final_values = Map.empty,
      external_values = Map.empty, environment_limits = \<lparr>max_depth = - 1, max_bytes = - 1\<rparr>\<rparr>"

fun normalize_external ::
    "cancel_host \<Rightarrow> ExternalAttributes \<Rightarrow> ExternalAttributes \<Rightarrow> CancellationCheckpoint
     \<Rightarrow> unit failure + (ExternalAttributes \<times> CancellationCheckpoint)" where
  "normalize_external host [] acc cp = Inr (acc, cp)"
| "normalize_external host ((name, v) # rest) acc cp =
     (let (cancelled, cp) = checkpoint_is_cancelled host cp in
      if cancelled then Inl (Err ())
      else normalize_external host rest (AList.update (canonical_name name) v acc) cp)"

definition build_step ::
    "DocumentAttributeOccurrence \<Rightarrow> nat \<Rightarrow> AttributeEnvironment \<Rightarrow> SequentialAttributeState
     \<Rightarrow> unit failure + (AttributeEnvironment \<times> SequentialAttributeState)" where
  "build_step occ ordinal env st =
     (if \<not> occ_valid occ \<or> is_locked st (occ_name occ) then Inr (env, st)
      else
        let name = canonical_name (occ_name occ);
            id = length (bindings env)
        in if u32_max < id \<or> u32_max < ordinal then Inl Panic
           else
             let (r, st') = apply_occurrence occ st in
             and_then (case r of
                 Inl Panic \<Rightarrow> Inl Panic
               | Inl (Err e) \<Rightarrow> Inr (Inl e)
               | Inr v \<Rightarrow> Inr (Inr v)) (\<lambda>v.
             let binding =
               \<lparr>binding_id = id, event_id = ordinal, visible_at = range_end (occ_range occ),
                evaluation_at = range_start (value_source_range (occ_value occ)),
                binding_operation = occ_operation occ,
                folded_value = folded_text (occ_value occ),
                expansion_depth = (case depths st' name of None \<Rightarrow> 0 | Some d \<Rightarrow> d),
                binding_value = v, occurrence = occ\<rparr>
             in Inr (env\<lparr>histories := push_history (histories env) name id,
                        bindings := bindings env @ [binding]\<rparr>, st')))"

fun build_loop ::
    "cancel_host \<Rightarrow> DocumentAttributeOccurrence list \<Rightarrow> nat \<Rightarrow> AttributeEnvironment
     \<Rightarrow> SequentialAttributeState \<Rightarrow> CancellationCheckpoint
     \<Rightarrow> unit failure + (AttributeEnvironment \<times> SequentialAttributeState \<times> CancellationCheckpoint)" where
  "build_loop host [] ordinal env st cp = Inr (env, st, cp)"
| "build_loop host (occ # rest) ordinal env st cp =
     (let (cancelled, cp) = checkpoint_is_cancelled host cp in
      if cancelled then Inl (Err ())
      else and_then (build_step occ ordinal env st) (\<lambda>(env, st).
        build_loop host rest (Suc ordinal) env st cp))"

text \<open>
  The normalized map is built by insertion, so its entries are in key order in the
  source; here they are in order of first insertion, which no later step observes: the
  keys are distinct and already canonical.
\<close>

definition environment_build ::
    "cancel_host \<Rightarrow> DocumentAttributeOccurrence list \<Rightarrow> DocumentAttributeOccurrence list
     \<Rightarrow> ExternalAttributes \<Rightarrow> AttributeExpansionLimits \<Rightarrow> CancellationCheckpoint
     \<Rightarrow> unit failure + (AttributeEnvironment \<times> CancellationCheckpoint)" where
  "environment_build host occurrences counters external lim cp =
     (let merged = sort_key (\<lambda>occ. range_start (occ_range occ)) (occurrences @ counters) in
      and_then (normalize_external host external [] cp) (\<lambda>(normalized, cp).
      let env = default_environment\<lparr>environment_limits := lim, external_values := map_of normalized\<rparr> in
      and_then (with_locked_values_cancellable host normalized lim cp) (\<lambda>(st, cp).
      and_then (build_loop host merged 0 env st cp) (\<lambda>(env, st, cp).
        Inr (env\<lparr>final_values := attribute_values st\<rparr>, cp)))))"

definition environment_binding :: "AttributeEnvironment \<Rightarrow> nat \<Rightarrow> AttributeBinding option" where
  "environment_binding env i = (if i < length (bindings env) then Some (bindings env ! i) else None)"

text \<open>\<open>history\<close> indexes the bindings; an index out of range would panic.\<close>

definition history :: "AttributeEnvironment \<Rightarrow> str \<Rightarrow> AttributeBinding option list" where
  "history env name =
     (case histories env (canonical_name name) of
        None \<Rightarrow> []
      | Some h \<Rightarrow> map (environment_binding env) h)"

definition binding_at :: "AttributeEnvironment \<Rightarrow> nat \<Rightarrow> AttributeBinding" where
  "binding_at env i = bindings env ! i"

definition resolve_at_event ::
    "AttributeEnvironment \<Rightarrow> str \<Rightarrow> AttributePosition \<Rightarrow> ResolvedAttribute option" where
  "resolve_at_event env name position =
     (let name = canonical_name name in
      case external_values env name of
        Some v \<Rightarrow> Some \<lparr>resolved_value = Inr v, resolved_binding = None\<rparr>
      | None \<Rightarrow>
          (case histories env name of
             None \<Rightarrow> None
           | Some h \<Rightarrow>
               let visible = partition_point (\<lambda>i. visible_position (binding_at env i) < position) h
               in if visible = 0 then None
                  else
                    let b = binding_at env (h ! (visible - 1)) in
                    Some \<lparr>resolved_value = binding_value b, resolved_binding = Some b\<rparr>))"

definition resolve_at :: "AttributeEnvironment \<Rightarrow> str \<Rightarrow> nat \<Rightarrow> ResolvedAttribute option" where
  "resolve_at env name offset = resolve_at_event env name (AttributePosition offset u32_max)"

definition environment_resolver ::
    "(str \<Rightarrow> ResolvedAttribute option) \<Rightarrow> resolver" where
  "environment_resolver resolve name =
     (case resolve name of
        None \<Rightarrow> Inl (Err Undefined)
      | Some resolved \<Rightarrow>
          (case resolved_value resolved of
             Inl e \<Rightarrow> Inl (Err e)
           | Inr None \<Rightarrow> Inl (Err Undefined)
           | Inr (Some v) \<Rightarrow> Inr (v, 0)))"

definition expand_with ::
    "AttributeEnvironment \<Rightarrow> str \<Rightarrow> (str \<Rightarrow> ResolvedAttribute option)
     \<Rightarrow> AttributeExpansionError failure + str" where
  "expand_with env text resolve =
     and_then (expand_attribute_text text (environment_limits env) (environment_resolver resolve))
       (\<lambda>(v, _). Inr v)"

definition expand_at :: "AttributeEnvironment \<Rightarrow> str \<Rightarrow> nat \<Rightarrow> AttributeExpansionError failure + str" where
  "expand_at env text offset = expand_with env text (\<lambda>name. resolve_at env name offset)"

definition values_at :: "AttributeEnvironment \<Rightarrow> nat \<Rightarrow> (str \<rightharpoonup> str)" where
  "values_at env offset name =
     (case external_values env name of
        Some (Some v) \<Rightarrow> Some v
      | _ \<Rightarrow>
          if histories env name = None then None
          else (case resolve_at env name offset of
                  Some resolved \<Rightarrow>
                    (case resolved_value resolved of Inr v \<Rightarrow> v | Inl _ \<Rightarrow> None)
                | None \<Rightarrow> None))"

definition reference_at ::
    "str \<Rightarrow> TextRange \<Rightarrow> TextRange \<Rightarrow> AttributePosition \<Rightarrow> AttributeEnvironment \<Rightarrow> AttributeReference" where
  "reference_at name r name_r position env =
     (let resolved = resolve_at_event env name position in
      \<lparr>reference_range = r, reference_name_range = name_r, reference_name = name,
       reference_binding_id =
         (case resolved of None \<Rightarrow> None | Some x \<Rightarrow> map_option binding_id (resolved_binding x)),
       reference_value =
         (case resolved of None \<Rightarrow> Inl Undefined | Some x \<Rightarrow> resolved_value x)\<rparr>)"

section \<open>References in a text\<close>

text \<open>Each reference is its name, and the offsets of the brace, the name and the end.\<close>

function scan_references_loop ::
    "str \<Rightarrow> nat \<Rightarrow> (str \<times> nat \<times> nat \<times> nat \<times> nat) list" where
  "scan_references_loop rest cursor =
     (if rest = [] then []
      else if starts_with rest [backslash, CHR ''{''] then scan_references_loop (drop 2 rest) (cursor + 2)
      else if starts_with rest ''{'' then
        (case find_char (CHR ''}'') rest of
           None \<Rightarrow> []
         | Some close \<Rightarrow>
             let name = slice rest 1 close;
                 tail = scan_references_loop (drop (close + 1) rest) (cursor + close + 1)
             in if name \<noteq> []
                then (name, cursor, cursor + 1, cursor + close, cursor + close + 1) # tail
                else tail)
      else scan_references_loop (drop (utf8_len (hd rest)) rest) (cursor + utf8_len (hd rest)))"
  by pat_completeness auto
termination
  by (relation "measure (\<lambda>(s, _). length s)") auto

declare scan_references_loop.simps [simp del]

definition scan_references :: "str \<Rightarrow> (str \<times> nat \<times> nat \<times> nat \<times> nat) list" where
  "scan_references v = scan_references_loop v 0"

text \<open>\<open>range\<close> panics on offsets that do not fit or are reversed.\<close>

definition attribute_range :: "nat \<Rightarrow> nat \<Rightarrow> 'e failure + TextRange" where
  "attribute_range start end = map_err (\<lambda>_. Panic) (text_range start end)"

fun value_references_from ::
    "nat \<Rightarrow> AttributePosition \<Rightarrow> AttributeEnvironment \<Rightarrow> (str \<times> nat \<times> nat \<times> nat \<times> nat) list
     \<Rightarrow> unit failure + AttributeReference list" where
  "value_references_from base position env [] = Inr []"
| "value_references_from base position env ((name, open, name_start, name_end, close) # rest) =
     and_then (attribute_range (base + open) (base + close)) (\<lambda>r.
     and_then (attribute_range (base + name_start) (base + name_end)) (\<lambda>name_r.
     and_then (value_references_from base position env rest) (\<lambda>refs.
       Inr (reference_at name r name_r position env # refs))))"

definition value_references ::
    "AttributeBinding \<Rightarrow> AttributeEnvironment \<Rightarrow> unit failure + AttributeReference list" where
  "value_references b env =
     (let v = occ_value (occurrence b) in
      value_references_from (range_start (value_source_range v))
        (AttributePosition (evaluation_at b) (event_id b)) env (scan_references (source_text v)))"

section \<open>Parsing attribute lines\<close>

datatype ParseFailure =
  ParsePosition PositionError | ParseBudgetExceeded BudgetExceeded | ParseCancelled | InternalInvariant

datatype AttributeProblemKind = InvalidName | InvalidValue

record AttributeProblem =
  problem_kind :: AttributeProblemKind
  problem_range :: TextRange
  problem_name :: str

definition space_or_tab :: "char list" where
  "space_or_tab = [CHR '' '', tab]"

definition attribute_name_start :: "char \<Rightarrow> bool" where
  "attribute_name_start b \<longleftrightarrow> is_ascii_alphanumeric b \<or> b = CHR ''_''"

definition attribute_name_byte :: "char \<Rightarrow> bool" where
  "attribute_name_byte b \<longleftrightarrow> is_ascii_alphanumeric b \<or> List.member ''_-'' b"

definition valid_attribute_name :: "str \<Rightarrow> bool" where
  "valid_attribute_name name \<longleftrightarrow>
     (case name of [] \<Rightarrow> False | b # _ \<Rightarrow> attribute_name_start b) \<and> list_all attribute_name_byte name"

text \<open>An exclamation mark before or after the name unsets the attribute.\<close>

definition split_unset :: "str \<Rightarrow> str \<times> bool" where
  "split_unset raw_name =
     (case strip_prefix raw_name ''!'' of
        Some name \<Rightarrow> (name, True)
      | None \<Rightarrow> (case strip_suffix raw_name ''!'' of
                   Some name \<Rightarrow> (name, True)
                 | None \<Rightarrow> (raw_name, False)))"

definition classify_line ::
    "str \<Rightarrow> bool \<Rightarrow> str \<Rightarrow> str \<Rightarrow> TextRange \<Rightarrow> TextRange
     \<Rightarrow> DocumentAttributeOperation \<times> AttributeProblem option" where
  "classify_line name unset after raw_value name_range value_range =
     (if \<not> valid_attribute_name name then
        (SetOp, Some \<lparr>problem_kind = InvalidName, problem_range = name_range, problem_name = name\<rparr>)
      else if unset then
        (UnsetOp,
         if raw_value \<noteq> [] then
           Some \<lparr>problem_kind = InvalidValue, problem_range = value_range, problem_name = name\<rparr>
         else None)
      else if \<not> (after = [] \<or> List.member space_or_tab (hd after)) then
        (SetOp, Some \<lparr>problem_kind = InvalidValue, problem_range = value_range, problem_name = name\<rparr>)
      else (SetOp, None))"

definition parse_line ::
    "str \<Rightarrow> nat \<Rightarrow> TextRange
     \<Rightarrow> ParseFailure failure + (DocumentAttributeOccurrence \<times> AttributeProblem option) option" where
  "parse_line content absolute_start full =
     (case strip_prefix content '':'' of
        None \<Rightarrow> Inr None
      | Some inner \<Rightarrow>
          (case find_char (CHR '':'') inner of
             None \<Rightarrow> Inr None
           | Some delimiter \<Rightarrow>
               let raw_name = take delimiter inner;
                   after = drop (delimiter + 1) inner;
                   (name, unset) = split_unset raw_name;
                   name_offset = 1 + (if starts_with raw_name ''!'' then 1 else 0);
                   leading = length after - length (trim_start_matches space_or_tab after);
                   raw_value = trim_matches space_or_tab after;
                   value_start = absolute_start + 1 + delimiter + 1 + leading;
                   content_end = absolute_start + length content
               in and_then (attribute_range (absolute_start + name_offset)
                              (absolute_start + name_offset + length name)) (\<lambda>name_range.
                  and_then (attribute_range value_start (value_start + length raw_value))
                    (\<lambda>value_range.
                  let (operation, problem) = classify_line name unset after raw_value name_range value_range
                  in and_then (attribute_range value_start (range_end full)) (\<lambda>line_range.
                     and_then (attribute_range value_start value_start) (\<lambda>indent_range.
                     and_then (attribute_range content_end (range_end full)) (\<lambda>ending.
                       Inr (Some
                         (\<lparr>occ_range = full, occ_name_range = name_range, occ_name = name,
                           occ_value =
                             \<lparr>value_source_range = value_range, source_text = raw_value,
                              folded_text = raw_value,
                              value_lines =
                                [\<lparr>value_line_range = line_range, value_line_indent = indent_range,
                                  value_line_content = value_range, value_line_ending = ending,
                                  continuation = None\<rparr>]\<rparr>,
                           occ_operation = operation, occ_valid = (problem = None)\<rparr>,
                          problem)))))))))"

definition continuation_start :: "str \<Rightarrow> nat option" where
  "continuation_start content =
     (if ends_with content [CHR '' '', backslash] then Some (length content - 2) else None)"

text \<open>
  One pass of the loop over the physical lines of a continued value: the line's record,
  the text it adds to the folded value, where its segment ends, and whether the value
  goes on. The slice of the source panics when it is out of range or splits a scalar.
\<close>

definition value_line_step ::
    "SourceDocument \<Rightarrow> bool \<Rightarrow> nat \<Rightarrow> nat \<Rightarrow> bool \<Rightarrow> SourceLine
     \<Rightarrow> ParseFailure failure + (DocumentAttributeValueLine \<times> str \<times> nat \<times> bool)" where
  "value_line_step d first parsed_value_start value_start has_next l =
     and_then (expect (sd_text d (content_range l))) (\<lambda>content.
     let content_start = range_start (content_range l);
         indent_end =
           (if first then parsed_value_start
            else content_start + length content - length (trim_start_matches space_or_tab content));
         cont = (if has_next then continuation_start content else None);
         marker_start = map_option (\<lambda>s. content_start + s) cont;
         segment_start = (case marker_start of None \<Rightarrow> indent_end | Some s \<Rightarrow> min indent_end s);
         untrimmed_end = (case marker_start of None \<Rightarrow> content_start + length content | Some s \<Rightarrow> s);
         line_from = (if first then value_start else content_start)
     in and_then (expect (str_get (sd_source d) segment_start untrimmed_end)) (\<lambda>segment_source.
     let segment_text =
           (if cont \<noteq> None then segment_source else trim_end_matches space_or_tab segment_source);
         segment_end = segment_start + length segment_text;
         kind = (if ends_with segment_text '' +'' then Hard else Soft);
         glue = (if cont = None then [] else if kind = Soft then '' '' else [line_feed])
     in and_then
          (case cont of
             None \<Rightarrow> Inr None
           | Some s \<Rightarrow>
               and_then (attribute_range (content_start + s) (content_start + length content))
                 (\<lambda>r. Inr (Some \<lparr>continuation_kind = kind, continuation_range = r\<rparr>)))
          (\<lambda>continuation_record.
        and_then (attribute_range line_from (range_end (full_range l))) (\<lambda>line_range.
        and_then (attribute_range line_from segment_start) (\<lambda>indent.
        and_then (attribute_range segment_start segment_end) (\<lambda>content_r.
          Inr (\<lparr>value_line_range = line_range, value_line_indent = indent,
                value_line_content = content_r, value_line_ending = ending_range l,
                continuation = continuation_record\<rparr>,
               segment_text @ glue, segment_end, cont \<noteq> None)))))))"

text \<open>
  \<open>rest\<close> are the lines from \<open>index\<close> on; the host has been asked \<open>q\<close> times, and the result
  carries the number of queries made so far.
\<close>

fun value_loop ::
    "cancel_host \<Rightarrow> nat \<Rightarrow> SourceDocument \<Rightarrow> nat \<Rightarrow> nat \<Rightarrow> nat \<Rightarrow> nat \<Rightarrow> SourceLine list
     \<Rightarrow> DocumentAttributeValueLine list \<Rightarrow> str \<Rightarrow> nat \<Rightarrow> nat
     \<Rightarrow> ParseFailure failure + (DocumentAttributeValueLine list \<times> str \<times> nat \<times> nat \<times> nat)" where
  "value_loop host q d line_index parsed_value_start value_start index [] acc folded last_line value_end =
     Inr (acc, folded, last_line, value_end, q)"
| "value_loop host q d line_index parsed_value_start value_start index (l # rest) acc folded last_line value_end =
     (if host q then Inl (Err ParseCancelled)
      else
        and_then
          (value_line_step d (index = line_index) parsed_value_start value_start (rest \<noteq> []) l)
          (\<lambda>(value_line, piece, segment_end, continues).
             if continues then
               value_loop host (Suc q) d line_index parsed_value_start value_start (Suc index) rest
                 (acc @ [value_line]) (folded @ piece) index segment_end
             else Inr (acc @ [value_line], folded @ piece, index, segment_end, Suc q)))"

definition continue_occurrence ::
    "cancel_host \<Rightarrow> nat \<Rightarrow> SourceDocument \<Rightarrow> nat \<Rightarrow> nat \<Rightarrow> DocumentAttributeOccurrence
     \<Rightarrow> AttributeProblem option
     \<Rightarrow> ParseFailure failure
        + ((DocumentAttributeOccurrence \<times> AttributeProblem option \<times> nat) \<times> nat)" where
  "continue_occurrence host q d line_index first_continuation occ problem =
     (let lines = sd_lines d;
          first_line = lines ! line_index;
          parsed_value_start = range_start (value_source_range (occ_value occ));
          value_start = min parsed_value_start
            (range_start (content_range first_line) + first_continuation)
      in and_then
           (value_loop host q d line_index parsed_value_start value_start line_index
              (drop line_index lines) [] [] line_index value_start)
           (\<lambda>(acc, folded, last_line, value_end, q).
         and_then (attribute_range (range_start (full_range first_line))
                     (range_end (full_range (lines ! last_line)))) (\<lambda>full.
         and_then (attribute_range value_start value_end) (\<lambda>value_range.
         and_then (expect (str_get (sd_source d) value_start value_end)) (\<lambda>value_text.
           Inr
             ((occ\<lparr>occ_range := full,
                  occ_value := \<lparr>value_source_range = value_range, source_text = value_text,
                                folded_text = folded, value_lines = acc\<rparr>\<rparr>,
              map_option
                (\<lambda>p. if problem_kind p = InvalidValue then p\<lparr>problem_range := value_range\<rparr> else p)
                problem,
              last_line), q))))))"

definition parse_lines ::
    "cancel_host \<Rightarrow> nat \<Rightarrow> SourceDocument \<Rightarrow> nat
     \<Rightarrow> ParseFailure failure
        + ((DocumentAttributeOccurrence \<times> AttributeProblem option \<times> nat) option \<times> nat)" where
  "parse_lines host q d line_index =
     (let lines = sd_lines d;
          first_line = lines ! line_index
      in if length lines \<le> line_index then Inr (None, q)
      else (case sd_text d (content_range first_line) of
          None \<Rightarrow> Inr (None, q)
        | Some first_content \<Rightarrow>
            and_then (parse_line first_content (range_start (content_range first_line))
                        (full_range first_line)) (\<lambda>parsed. case parsed of
              None \<Rightarrow> Inl (Err InternalInvariant)
            | Some (occ, problem) \<Rightarrow>
                if occ_operation occ = UnsetOp \<or> continuation_start first_content = None
                   \<or> line_index + 1 = length lines
                then Inr (Some (occ, problem, line_index), q)
                else and_then (expect (continuation_start first_content)) (\<lambda>first_continuation.
                     and_then (continue_occurrence host q d line_index first_continuation occ problem)
                       (\<lambda>(result, q). Inr (Some result, q))))))"

section \<open>The sequential state is total\<close>

definition state_ok :: "SequentialAttributeState \<Rightarrow> bool" where
  "state_ok st \<longleftrightarrow>
     (\<forall>n. attribute_values st n = None \<longleftrightarrow> depths st n = None)
     \<and> (\<forall>n d. depths st n = Some d \<longrightarrow> d \<le> max_depth (attribute_limits st))"

lemma definition_resolver_contract:
  "\<forall>n. values n = None \<longleftrightarrow> ds n = None \<Longrightarrow> attribute_resolver (definition_resolver binding_name values ds fs)"
proof unfold_locales
  fix name
  assume "\<forall>n. values n = None \<longleftrightarrow> ds n = None"
  then have "values (canonical_name name) = None \<longleftrightarrow> ds (canonical_name name) = None" ..
  then show "definition_resolver binding_name values ds fs name \<noteq> Inl Panic"
    by (auto simp: definition_resolver_def Let_def split: option.splits)
qed

lemma evaluate_definition_no_panic:
  "\<forall>n. values n = None \<longleftrightarrow> ds n = None \<Longrightarrow> evaluate_definition n raw values ds fs lim \<noteq> Inl Panic"
  unfolding evaluate_definition_def
  by (rule attribute_resolver.expand_no_panic [OF definition_resolver_contract])

lemma evaluate_definition_depth:
  "evaluate_definition n raw values ds fs lim = Inr (v, d) \<Longrightarrow> d \<le> max_depth lim"
  unfolding evaluate_definition_def expand_attribute_text_def
  using expand_loop_bounds by fastforce

interpretation environment_resolver: attribute_resolver "environment_resolver resolve" for resolve
  by unfold_locales (auto simp: environment_resolver_def split: option.splits sum.splits)

lemma evaluate_occurrence_cases:
  assumes "state_ok st"
  shows "evaluate_occurrence st name occ \<noteq> Inl Panic"
    and "evaluate_occurrence st name occ = Inr (v, d) \<Longrightarrow> d \<le> max_depth (attribute_limits st)"
  using assms evaluate_definition_no_panic [of "attribute_values st" "depths st"]
  by (auto simp: evaluate_occurrence_def state_ok_def and_then_eq_Inl and_then_eq_Inr Let_def
      split: DocumentAttributeOperation.splits intro: evaluate_definition_depth)

lemma apply_occurrence_frame:
  assumes "apply_occurrence occ st = (r, st')"
  shows "locked st' = locked st" "attribute_limits st' = attribute_limits st"
    "n \<in> locked st \<Longrightarrow> attribute_values st' n = attribute_values st n"
    "n \<noteq> canonical_name (occ_name occ) \<Longrightarrow> attribute_values st' n = attribute_values st n"
  using assms
  by (auto simp: apply_occurrence_def Let_def split: if_splits sum.splits option.splits failure.splits
      prod.splits)

lemma apply_occurrence_ok:
  assumes "state_ok st" and "apply_occurrence occ st = (r, st')"
  shows "r \<noteq> Inl Panic" "state_ok st'"
proof -
  let ?e = "evaluate_occurrence st (canonical_name (occ_name occ)) occ"
  have "r \<noteq> Inl Panic \<and> state_ok st'"
  proof (cases "\<not> occ_valid occ \<or> canonical_name (occ_name occ) \<in> locked st")
    case True
    with assms show ?thesis by (auto simp: apply_occurrence_def Let_def split: if_splits)
  next
    case False
    note ev = evaluate_occurrence_cases [OF assms(1), of "canonical_name (occ_name occ)" occ]
    show ?thesis
    proof (cases ?e)
      case (Inl e)
      with ev(1) obtain error where "?e = Inl (Err error)" by (cases e) auto
      with False assms show ?thesis
        by (auto simp: apply_occurrence_def Let_def state_ok_def split: if_splits)
    next
      case (Inr vd)
      then obtain v d where "?e = Inr (v, d)" by (cases vd) auto
      with False assms ev(2) show ?thesis
        by (cases v) (auto simp: apply_occurrence_def Let_def state_ok_def split: if_splits)
    qed
  qed
  then show "r \<noteq> Inl Panic" "state_ok st'" by auto
qed

lemma with_locked_values_ok [simp]: "state_ok (with_locked_values external lim)"
  by (auto simp: state_ok_def with_locked_values_def Let_def)

lemma lock_entries_ok:
  "lock_entries host external st cp = Inr (st', cp') \<Longrightarrow> state_ok st \<Longrightarrow> state_ok st'"
  by (induction host external st cp arbitrary: st' cp' rule: lock_entries.induct)
     (fastforce simp: Let_def state_ok_def split: prod.splits if_splits option.splits)+

text \<open>Occurrences applied one after the other.\<close>

primrec apply_all ::
    "DocumentAttributeOccurrence list \<Rightarrow> SequentialAttributeState \<Rightarrow> SequentialAttributeState" where
  "apply_all [] st = st"
| "apply_all (occ # rest) st = apply_all rest (snd (apply_occurrence occ st))"

lemma apply_all_ok: "state_ok st \<Longrightarrow> state_ok (apply_all occs st)"
  by (induction occs arbitrary: st) (auto intro: apply_occurrence_ok [OF _ prod.collapse [symmetric]])

lemma apply_all_frame:
  "locked (apply_all occs st) = locked st"
  "attribute_limits (apply_all occs st) = attribute_limits st"
  "n \<in> locked st \<Longrightarrow> attribute_values (apply_all occs st) n = attribute_values st n"
proof -
  have "locked (apply_all occs st) = locked st
    \<and> attribute_limits (apply_all occs st) = attribute_limits st
    \<and> (n \<in> locked st \<longrightarrow> attribute_values (apply_all occs st) n = attribute_values st n)"
  proof (induction occs arbitrary: st)
    case (Cons occ rest)
    from apply_occurrence_frame [where occ = occ and st = st, OF prod.collapse [symmetric]]
      Cons.IH [of "snd (apply_occurrence occ st)"]
    show ?case by simp
  qed simp
  then show "locked (apply_all occs st) = locked st"
    "attribute_limits (apply_all occs st) = attribute_limits st"
    "n \<in> locked st \<Longrightarrow> attribute_values (apply_all occs st) n = attribute_values st n"
    by auto
qed

section \<open>The environment keeps its history\<close>

definition binding_name :: "AttributeBinding \<Rightarrow> str" where
  "binding_name b = canonical_name (occ_name (occurrence b))"

definition named_indices :: "AttributeBinding list \<Rightarrow> str \<Rightarrow> nat list" where
  "named_indices bs n = filter (\<lambda>i. binding_name (bs ! i) = n) [0..<length bs]"

definition named_bindings :: "AttributeBinding list \<Rightarrow> str \<Rightarrow> AttributeBinding list" where
  "named_bindings bs n = filter (\<lambda>b. binding_name b = n) bs"

definition value_of_last :: "AttributeBinding list \<Rightarrow> str option" where
  "value_of_last bs =
     (if bs = [] then None
      else (case binding_value (last bs) of Inr v \<Rightarrow> v | Inl _ \<Rightarrow> None))"

definition history_of :: "nat list \<Rightarrow> nat list option" where
  "history_of h = (if h = [] then None else Some h)"

lemma named_indices_snoc:
  "named_indices (bs @ [b]) n =
     named_indices bs n @ (if binding_name b = n then [length bs] else [])"
proof -
  have "filter (\<lambda>i. binding_name ((bs @ [b]) ! i) = n) [0..<length bs] =
      filter (\<lambda>i. binding_name (bs ! i) = n) [0..<length bs]"
    by (rule filter_cong) (auto simp: nth_append)
  then show ?thesis by (simp add: named_indices_def)
qed

lemma named_indices_map: "map ((!) bs) (named_indices bs n) = named_bindings bs n"
proof -
  have "named_bindings bs n = filter (\<lambda>b. binding_name b = n) (map ((!) bs) [0..<length bs])"
    by (simp add: named_bindings_def map_nth)
  then show ?thesis by (simp add: named_indices_def filter_map comp_def)
qed

lemma named_indices_less: "i \<in> set (named_indices bs n) \<Longrightarrow> i < length bs"
  by (simp add: named_indices_def)

lemma named_indices_sorted: "sorted_wrt (<) (named_indices bs n)"
  unfolding named_indices_def by (rule sorted_wrt_filter) simp

text \<open>
  The invariant of the build loop: histories index the bindings of each name in order,
  event numbers grow, and the sequential state holds the last binding's value.
\<close>

definition history_ok :: "nat \<Rightarrow> AttributeEnvironment \<Rightarrow> bool" where
  "history_ok ordinal env \<longleftrightarrow>
     (\<forall>n. histories env n = history_of (named_indices (bindings env) n))
     \<and> sorted_wrt (<) (map event_id (bindings env))
     \<and> (\<forall>b \<in> set (bindings env). event_id b < ordinal)"

definition state_agrees :: "AttributeEnvironment \<Rightarrow> SequentialAttributeState \<Rightarrow> bool" where
  "state_agrees env st \<longleftrightarrow>
     (\<forall>n. n \<notin> locked st \<longrightarrow> attribute_values st n = value_of_last (named_bindings (bindings env) n))
     \<and> (\<forall>b \<in> set (bindings env). binding_name b \<notin> locked st)"

lemma history_ok_extend:
  assumes "history_ok ordinal env" and "event_id b = ordinal"
  shows "history_ok (Suc ordinal)
    (env\<lparr>histories := push_history (histories env) (binding_name b) (length (bindings env)),
         bindings := bindings env @ [b]\<rparr>)"
  using assms
  by (fastforce simp: history_ok_def push_history_def history_of_def named_indices_snoc
      sorted_wrt_append less_Suc_eq)

lemma state_agrees_extend:
  assumes "state_agrees env st" and "\<forall>n. n \<noteq> binding_name b \<longrightarrow> attribute_values st' n = attribute_values st n"
    and "binding_name b \<notin> locked st" and "locked st' = locked st"
    and "attribute_values st' (binding_name b) = (case binding_value b of Inr v \<Rightarrow> v | Inl _ \<Rightarrow> None)"
  shows "state_agrees (env\<lparr>histories := hs, bindings := bindings env @ [b]\<rparr>) st'"
  using assms by (auto simp: state_agrees_def named_bindings_def value_of_last_def)

lemma apply_occurrence_value:
  assumes "apply_occurrence occ st = (r, st')" and "occ_valid occ"
    and "canonical_name (occ_name occ) \<notin> locked st" and "r \<noteq> Inl Panic"
  shows "attribute_values st' (canonical_name (occ_name occ)) = (case r of Inr v \<Rightarrow> v | Inl _ \<Rightarrow> None)"
  using assms
  by (auto simp: apply_occurrence_def Let_def split: if_splits sum.splits option.splits failure.splits
      prod.splits)

lemma build_step_cases:
  assumes "build_step occ ordinal env st = Inr (env', st')"
    and "history_ok ordinal env" and "state_agrees env st"
  shows "history_ok (Suc ordinal) env'" "state_agrees env' st'"
    "locked st' = locked st" "external_values env' = external_values env"
    "bindings env' = bindings env
     \<or> (\<exists>b. bindings env' = bindings env @ [b] \<and> visible_at b = range_end (occ_range occ))"
proof -
  have "history_ok (Suc ordinal) env' \<and> state_agrees env' st' \<and> locked st' = locked st
    \<and> external_values env' = external_values env
    \<and> (bindings env' = bindings env
       \<or> (\<exists>b. bindings env' = bindings env @ [b] \<and> visible_at b = range_end (occ_range occ)))"
  proof (cases "\<not> occ_valid occ \<or> is_locked st (occ_name occ)")
    case True
    with assms show ?thesis
      by (auto simp: build_step_def history_ok_def less_Suc_eq)
  next
    case False
    let ?name = "canonical_name (occ_name occ)"
    obtain r st1 where r: "apply_occurrence occ st = (r, st1)" by fastforce
    from assms(1) False r obtain v where np: "r \<noteq> Inl Panic"
      and v: "v = (case r of Inl (Err e) \<Rightarrow> Inl e | Inr w \<Rightarrow> Inr w)" and st': "st' = st1"
      and env': "env' = env\<lparr>histories := push_history (histories env) ?name (length (bindings env)),
        bindings := bindings env @ [\<lparr>binding_id = length (bindings env), event_id = ordinal,
          visible_at = range_end (occ_range occ),
          evaluation_at = range_start (value_source_range (occ_value occ)),
          binding_operation = occ_operation occ, folded_value = folded_text (occ_value occ),
          expansion_depth = (case depths st1 ?name of None \<Rightarrow> 0 | Some d \<Rightarrow> d),
          binding_value = v, occurrence = occ\<rparr>]\<rparr>"
      by (auto simp: build_step_def Let_def and_then_eq_Inr split: if_splits sum.splits failure.splits)
    let ?b = "last (bindings env')"
    have b: "binding_name ?b = ?name" "event_id ?b = ordinal" "binding_value ?b = v"
      "visible_at ?b = range_end (occ_range occ)" "bindings env' = bindings env @ [?b]"
      by (simp_all add: env' binding_name_def)
    have envb: "env' = env\<lparr>histories := push_history (histories env) (binding_name ?b) (length (bindings env)),
        bindings := bindings env @ [?b]\<rparr>"
      by (simp add: env' binding_name_def)
    have nl: "?name \<notin> locked st" and val: "occ_valid occ"
      using False by (auto simp: is_locked_def)
    have "attribute_values st1 ?name = (case v of Inr w \<Rightarrow> w | Inl _ \<Rightarrow> None)"
      using apply_occurrence_value [OF r val nl np] np v by (auto split: sum.splits failure.splits)
    with state_agrees_extend [OF assms(3), of ?b st1] apply_occurrence_frame [OF r] b nl
    have "state_agrees env' st1" by (subst envb) auto
    moreover have "history_ok (Suc ordinal) env'"
      by (subst envb) (rule history_ok_extend [OF assms(2) b(2)])
    ultimately show ?thesis
      using apply_occurrence_frame(1) [OF r] b(4,5) by (auto simp: st' env')
  qed
  then show "history_ok (Suc ordinal) env'" "state_agrees env' st'"
    "locked st' = locked st" "external_values env' = external_values env"
    "bindings env' = bindings env
     \<or> (\<exists>b. bindings env' = bindings env @ [b] \<and> visible_at b = range_end (occ_range occ))"
    by auto
qed

definition occ_end :: "DocumentAttributeOccurrence \<Rightarrow> nat" where
  "occ_end occ = range_end (occ_range occ)"

lemma build_loop_ok:
  "build_loop host occs ordinal env st cp = Inr (env', st', cp') \<Longrightarrow>
   history_ok ordinal env \<Longrightarrow> state_agrees env st \<Longrightarrow>
   (\<exists>k. history_ok k env') \<and> state_agrees env' st' \<and> locked st' = locked st
   \<and> external_values env' = external_values env
   \<and> (sorted (map visible_at (bindings env) @ map occ_end occs) \<longrightarrow> sorted (map visible_at (bindings env')))"
proof (induction occs arbitrary: ordinal env st cp)
  case Nil
  then show ?case by auto
next
  case (Cons occ rest)
  from Cons.prems(1) obtain env1 st1 cp1 where
    step: "build_step occ ordinal env st = Inr (env1, st1)"
    and rest: "build_loop host rest (Suc ordinal) env1 st1 cp1 = Inr (env', st', cp')"
    by (auto simp: Let_def and_then_eq_Inr split: prod.splits if_splits)
  note c = build_step_cases [OF step Cons.prems(2,3)]
  have "sorted (map visible_at (bindings env) @ map occ_end (occ # rest)) \<Longrightarrow>
      sorted (map visible_at (bindings env1) @ map occ_end rest)"
    using c(5) by (auto simp: sorted_append occ_end_def)
  with Cons.IH [OF rest c(1,2)] c(3,4) show ?case by auto
qed

lemma normalize_external_keys:
  "normalize_external host ext acc cp = Inr (normalized, cp') \<Longrightarrow> distinct (map fst acc) \<Longrightarrow>
   \<forall>k \<in> fst ` set acc. canonical_name k = k \<Longrightarrow>
   distinct (map fst normalized) \<and> (\<forall>k \<in> fst ` set normalized. canonical_name k = k)"
proof (induction ext arbitrary: acc cp)
  case (Cons e rest)
  obtain name v where e: "e = (name, v)" by fastforce
  let ?acc = "AList.update (canonical_name name) v acc"
  obtain cp1 where rest: "normalize_external host rest ?acc cp1 = Inr (normalized, cp')"
    using Cons.prems(1) e by (auto simp: Let_def split: prod.splits if_splits)
  have "distinct (map fst ?acc)"
    using Cons.prems(2) by (simp add: distinct_update)
  moreover have "\<forall>k \<in> fst ` set ?acc. canonical_name k = k"
    using Cons.prems(3) by (simp add: dom_update)
  ultimately show ?case by (rule Cons.IH [OF rest])
qed simp

lemma lock_entries_values:
  "lock_entries host ext st cp = Inr (st', cp') \<Longrightarrow> distinct (map fst ext) \<Longrightarrow>
   \<forall>k \<in> fst ` set ext. canonical_name k = k \<Longrightarrow>
   locked st' = locked st \<union> fst ` set ext
   \<and> attribute_values st' = (\<lambda>n. case map_of ext n of Some (Some v) \<Rightarrow> Some v | _ \<Rightarrow> attribute_values st n)"
proof (induction ext arbitrary: st cp)
  case (Cons e rest)
  obtain k v where e: "e = (k, v)" by fastforce
  let ?st = "st\<lparr>locked := insert k (locked st)\<rparr>"
  let ?st1 = "case v of None \<Rightarrow> ?st | Some v \<Rightarrow> ?st\<lparr>depths := (depths ?st)(k \<mapsto> 0),
                 attribute_values := (attribute_values ?st)(k \<mapsto> v)\<rparr>"
  have k: "canonical_name k = k" "map_of rest k = None"
    using Cons.prems(2,3) e by (auto simp: map_of_eq_None_iff)
  obtain cp1 where "lock_entries host rest ?st1 cp1 = Inr (st', cp')"
    using Cons.prems(1) e k(1) by (auto simp: Let_def split: prod.splits if_splits)
  with Cons.IH [of ?st1 cp1] Cons.prems(2,3) e k
  show ?case by (auto simp: fun_eq_iff split: option.splits)
qed simp

lemma environment_build_ok:
  assumes "environment_build host occs counters ext lim cp = Inr (env, cp')"
  shows "\<exists>k. history_ok k env"
    and "final_values env n =
      (case external_values env n of Some v \<Rightarrow> v | None \<Rightarrow> value_of_last (named_bindings (bindings env) n))"
    and "sorted (map occ_end (sort_key (\<lambda>occ. range_start (occ_range occ)) (occs @ counters)))
      \<Longrightarrow> sorted (map visible_at (bindings env))"
proof -
  let ?merged = "sort_key (\<lambda>occ. range_start (occ_range occ)) (occs @ counters)"
  from assms obtain normalized cp1 st cp2 env1 st1 cp3 where
    n: "normalize_external host ext [] cp = Inr (normalized, cp1)"
    and l: "with_locked_values_cancellable host normalized lim cp1 = Inr (st, cp2)"
    and b: "build_loop host ?merged 0
      (default_environment\<lparr>environment_limits := lim, external_values := map_of normalized\<rparr>) st cp2
      = Inr (env1, st1, cp3)"
    and env: "env = env1\<lparr>final_values := attribute_values st1\<rparr>"
    by (auto simp: environment_build_def Let_def and_then_eq_Inr)
  let ?env0 = "default_environment\<lparr>environment_limits := lim, external_values := map_of normalized\<rparr>"
  have keys: "distinct (map fst normalized)" "\<forall>k \<in> fst ` set normalized. canonical_name k = k"
    using normalize_external_keys [OF n] by auto
  have st: "locked st = fst ` set normalized"
    "attribute_values st = (\<lambda>n. case map_of normalized n of Some (Some v) \<Rightarrow> Some v | _ \<Rightarrow> None)"
    using lock_entries_values [OF l [unfolded with_locked_values_cancellable_def] keys]
    by (auto simp: fun_eq_iff split: option.splits)
  have "map_of normalized n = None" if "n \<notin> locked st" for n
    using that st(1) by (simp add: map_of_eq_None_iff)
  then have "state_agrees ?env0 st"
    using st(2) by (simp add: state_agrees_def default_environment_def named_bindings_def value_of_last_def)
  moreover have "history_ok 0 ?env0"
    by (simp add: history_ok_def default_environment_def named_indices_def history_of_def)
  ultimately have loop: "\<exists>k. history_ok k env1" "state_agrees env1 st1" "locked st1 = locked st"
    "external_values env1 = map_of normalized"
    "sorted (map occ_end ?merged) \<longrightarrow> sorted (map visible_at (bindings env1))"
    using build_loop_ok [OF b] by (auto simp: default_environment_def)
  show "\<exists>k. history_ok k env" using loop(1) by (simp add: env history_ok_def)
  show "sorted (map occ_end ?merged) \<Longrightarrow> sorted (map visible_at (bindings env))"
    using loop(5) by (simp add: env)
  have locked: "attribute_values st1 n = attribute_values st n" if "n \<in> locked st"
  proof -
    have "attribute_values st' m = attribute_values st m"
      if "build_loop host occs i e st cp = Inr (e', st', cp')" "m \<in> locked st"
      for occs i e st cp e' st' cp' m
      using that
    proof (induction occs arbitrary: i e st cp)
      case (Cons occ rest)
      from Cons.prems(1) obtain e1 st1 cp1 where
        step: "build_step occ i e st = Inr (e1, st1)"
        and rest: "build_loop host rest (Suc i) e1 st1 cp1 = Inr (e', st', cp')"
        by (auto simp: Let_def and_then_eq_Inr split: prod.splits if_splits)
      obtain r st2 where a: "apply_occurrence occ st = (r, st2)" by fastforce
      from step a have "st1 = st \<or> st1 = st2"
        by (auto simp: build_step_def Let_def and_then_eq_Inr split: if_splits)
      with apply_occurrence_frame [OF a] Cons.prems(2)
      have "locked st1 = locked st" "attribute_values st1 m = attribute_values st m" by auto
      with Cons.IH [OF rest] Cons.prems(2) show ?case by simp
    qed simp
    from this [OF b that] show ?thesis .
  qed
  show "final_values env n =
      (case external_values env n of Some v \<Rightarrow> v | None \<Rightarrow> value_of_last (named_bindings (bindings env) n))"
  proof (cases "map_of normalized n")
    case None
    then have "n \<notin> locked st" using st(1) by (simp add: map_of_eq_None_iff)
    with None loop show ?thesis by (simp add: env state_agrees_def)
  next
    case (Some v)
    then have "n \<in> locked st" using st(1) by (metis map_of_eq_None_iff option.distinct(1))
    with locked Some loop(4) st(2) show ?thesis by (simp add: env split: option.splits)
  qed
qed

section \<open>Lookups\<close>

definition visible_bindings :: "AttributeEnvironment \<Rightarrow> str \<Rightarrow> AttributePosition \<Rightarrow> AttributeBinding list" where
  "visible_bindings env name position =
     filter (\<lambda>b. binding_name b = canonical_name name \<and> visible_position b < position) (bindings env)"

lemma filter_partitioned:
  assumes "partitioned p xs"
  shows "filter p xs = take (partition_point p xs) xs"
proof -
  have "filter p xs = filter p (take (partition_point p xs) xs) @ filter p (drop (partition_point p xs) xs)"
    by (metis append_take_drop_id filter_append)
  moreover have "filter p (take (partition_point p xs) xs) = take (partition_point p xs) xs"
    by (rule filter_True) (metis partition_point_split(1) set_takeWhileD)
  moreover have "filter p (drop (partition_point p xs) xs) = []"
  proof (rule filter_False, rule ballI)
    fix x
    assume "x \<in> set (drop (partition_point p xs) xs)"
    then obtain i where "i < length xs - partition_point p xs" "x = xs ! (partition_point p xs + i)"
      by (auto simp: in_set_conv_nth)
    with partitioned_after [OF assms, of "partition_point p xs + i"] show "\<not> p x" by simp
  qed
  ultimately show ?thesis by simp
qed

lemma sorted_bindings_positions:
  assumes "sorted (map visible_at bs)" and "sorted_wrt (<) (map event_id bs)" and "i < j" and "j < length bs"
  shows "visible_position (bs ! i) < visible_position (bs ! j)"
proof -
  have "visible_at (bs ! i) \<le> visible_at (bs ! j)"
    using sorted_nth_mono [OF assms(1), of i j] assms(3,4) by simp
  moreover have "event_id (bs ! i) < event_id (bs ! j)"
    using sorted_wrt_nth_less [OF assms(2), of i j] assms(3,4) by simp
  ultimately show ?thesis
    by (auto simp: visible_position_def less_AttributePosition_def)
qed

lemma resolve_at_event_latest:
  assumes "history_ok k env" and "sorted (map visible_at (bindings env))"
  shows "resolve_at_event env name position =
    (case external_values env (canonical_name name) of
       Some v \<Rightarrow> Some \<lparr>resolved_value = Inr v, resolved_binding = None\<rparr>
     | None \<Rightarrow>
         let bs = visible_bindings env name position in
         if bs = [] then None
         else Some \<lparr>resolved_value = binding_value (last bs), resolved_binding = Some (last bs)\<rparr>)"
proof -
  let ?n = "canonical_name name"
  let ?bs = "bindings env"
  let ?h = "named_indices ?bs ?n"
  let ?p = "\<lambda>i. visible_position (?bs ! i) < position"
  have part: "partitioned ?p ?h"
    unfolding partitioned_def
  proof (intro allI impI)
    fix i j
    assume *: "i < j" "j < length ?h" "?p (?h ! j)"
    have "?h ! i < ?h ! j" by (rule sorted_wrt_nth_less [OF named_indices_sorted *(1,2)])
    moreover have "?h ! j < length ?bs" using *(2) named_indices_less by (metis nth_mem)
    ultimately have "visible_position (?bs ! (?h ! i)) < visible_position (?bs ! (?h ! j))"
      using sorted_bindings_positions assms by (auto simp: history_ok_def)
    with *(3) show "?p (?h ! i)" by simp
  qed
  have "visible_bindings env name position = filter (\<lambda>b. visible_position b < position) (named_bindings ?bs ?n)"
    by (simp add: visible_bindings_def named_bindings_def conj_commute)
  also have "\<dots> = map ((!) ?bs) (filter ?p ?h)"
    by (simp add: named_indices_map [symmetric] filter_map comp_def)
  also have "\<dots> = map ((!) ?bs) (take (partition_point ?p ?h) ?h)"
    by (simp add: filter_partitioned [OF part])
  finally have vis: "visible_bindings env name position = map ((!) ?bs) (take (partition_point ?p ?h) ?h)" .
  have empty: "visible_bindings env name position = [] \<longleftrightarrow> ?h = [] \<or> partition_point ?p ?h = 0"
    unfolding vis by auto
  have "last (visible_bindings env name position) = ?bs ! (?h ! (partition_point ?p ?h - 1))"
    if "?h \<noteq> []" "partition_point ?p ?h \<noteq> 0"
  proof -
    have "take (partition_point ?p ?h) ?h \<noteq> []" using that by simp
    then have "last (visible_bindings env name position) = ?bs ! last (take (partition_point ?p ?h) ?h)"
      unfolding vis by (rule last_map)
    also have "last (take (partition_point ?p ?h) ?h) = ?h ! (partition_point ?p ?h - 1)"
      using that partition_point_le [of ?p ?h] by (simp add: last_conv_nth)
    finally show ?thesis .
  qed
  with assms(1) empty show ?thesis
    by (auto simp: resolve_at_event_def Let_def history_ok_def history_of_def binding_at_def
        partition_point_def split: option.splits)
qed

section \<open>What a parsed line says\<close>

lemma split_unset_part:
  assumes "split_unset raw = (name, unset)"
  shows "\<exists>p q. raw = p @ name @ q \<and> length p = (if starts_with raw ''!'' then 1 else 0)"
proof (cases "strip_prefix raw ''!''")
  case None
  then have "\<not> starts_with raw ''!''" by (auto simp: strip_prefix_def split: if_splits)
  moreover have "\<exists>q. raw = [] @ name @ q"
    using assms None by (auto simp: split_unset_def strip_suffix_Some split: option.splits)
  ultimately show ?thesis by fastforce
next
  case (Some n)
  have "n = name" using assms Some by (simp add: split_unset_def)
  then have "raw = ''!'' @ name @ []" "starts_with raw ''!''"
    using Some by (simp_all add: strip_prefix_Some starts_with_def)
  then show ?thesis by (metis length_Cons list.size(3) One_nat_def)
qed

lemma parse_line_parts:
  assumes "parse_line content start full = Inr (Some (occ, problem))"
  obtains raw after unset lead trail p q where
    "content = '':'' @ raw @ '':'' @ after" "split_unset raw = (occ_name occ, unset)"
    "raw = p @ occ_name occ @ q" "after = lead @ source_text (occ_value occ) @ trail"
    "occ_name_range occ = \<lparr>range_start = start + 1 + length p,
       range_end = start + 1 + length p + length (occ_name occ)\<rparr>"
    "value_source_range (occ_value occ) = \<lparr>range_start = start + 2 + length raw + length lead,
       range_end = start + 2 + length raw + length lead + length (source_text (occ_value occ))\<rparr>"
    "occ_valid occ \<longleftrightarrow> problem = None"
    "(occ_operation occ, problem) = classify_line (occ_name occ) unset after (source_text (occ_value occ))
       (occ_name_range occ) (value_source_range (occ_value occ))"
proof -
  obtain inner delim where c: "content = '':'' @ inner" and d: "find_char (CHR '':'') inner = Some delim"
    using assms by (auto simp: parse_line_def strip_prefix_Some split: option.splits)
  let ?raw = "take delim inner" and ?after = "drop (delim + 1) inner"
  have len: "length ?raw = delim" and dl: "min (length inner) delim = delim"
    using find_char_length [OF d] by simp_all
  have inner: "inner = ?raw @ '':'' @ ?after" using find_char_split [OF d] by simp
  obtain name unset where su: "split_unset ?raw = (name, unset)" by fastforce
  obtain p q where pq: "?raw = p @ name @ q" "length p = (if starts_with ?raw ''!'' then 1 else 0)"
    using split_unset_part [OF su] by blast
  obtain lead trail where lt: "?after = lead @ trim_matches space_or_tab ?after @ trail"
    "length lead = length ?after - length (trim_start_matches space_or_tab ?after)"
    using trim_matches_split by blast
  have sp: "strip_prefix content '':'' = Some inner" using c by (simp add: strip_prefix_Some)
  have "occ_name occ = name \<and> source_text (occ_value occ) = trim_matches space_or_tab ?after
    \<and> occ_name_range occ = \<lparr>range_start = start + 1 + length p,
         range_end = start + 1 + length p + length name\<rparr>
    \<and> value_source_range (occ_value occ) = \<lparr>range_start = start + 2 + length ?raw + length lead,
         range_end = start + 2 + length ?raw + length lead + length (trim_matches space_or_tab ?after)\<rparr>
    \<and> (occ_valid occ \<longleftrightarrow> problem = None)
    \<and> (occ_operation occ, problem) = classify_line name unset ?after (trim_matches space_or_tab ?after)
       (occ_name_range occ) (value_source_range (occ_value occ))"
    using assms unfolding parse_line_def sp
    by (auto simp: d su pq(2) lt(2) len dl attribute_range_def text_range_Inr and_then_eq_Inr
        map_err_eq_Inr Let_def split: prod.splits if_splits)
  with c inner su pq(1) lt(1) that show thesis by metis
qed

lemma parse_line_ranges:
  assumes "parse_line content start full = Inr (Some (occ, problem))"
    and "slice src start (start + length content) = content"
  shows "slice src (range_start (occ_name_range occ)) (range_end (occ_name_range occ)) = occ_name occ"
    "slice src (range_start (value_source_range (occ_value occ)))
       (range_end (value_source_range (occ_value occ))) = source_text (occ_value occ)"
proof -
  from parse_line_parts [OF assms(1)] obtain raw after lead trail p q unset where
    c: "content = '':'' @ raw @ '':'' @ after" and raw: "raw = p @ occ_name occ @ q"
    and after: "after = lead @ source_text (occ_value occ) @ trail"
    and n: "occ_name_range occ = \<lparr>range_start = start + 1 + length p,
       range_end = start + 1 + length p + length (occ_name occ)\<rparr>"
    and v: "value_source_range (occ_value occ) = \<lparr>range_start = start + 2 + length raw + length lead,
       range_end = start + 2 + length raw + length lead + length (source_text (occ_value occ))\<rparr>" .
  let ?name = "occ_name occ" and ?text = "source_text (occ_value occ)"
  have "slice src (start + (1 + length p)) (start + (1 + length p + length ?name)) =
      slice content (1 + length p) (1 + length p + length ?name)"
    by (rule slice_within [OF assms(2)]) (simp add: c raw)
  also have "\<dots> = slice (('':'' @ p) @ ?name @ (q @ '':'' @ after)) (length ('':'' @ p))
      (length ('':'' @ p) + length ?name)"
    by (simp add: c raw)
  also have "\<dots> = ?name" by (rule slice_middle)
  finally show "slice src (range_start (occ_name_range occ)) (range_end (occ_name_range occ)) = ?name"
    by (simp add: n add.assoc)
  let ?p = "'':'' @ raw @ '':'' @ lead"
  have lp: "length ?p = 2 + length raw + length lead" by simp
  have "slice src (start + length ?p) (start + (length ?p + length ?text)) =
      slice content (length ?p) (length ?p + length ?text)"
    by (rule slice_within [OF assms(2)]) (simp add: c after)
  also have "\<dots> = slice (?p @ ?text @ trail) (length ?p) (length ?p + length ?text)"
    by (simp add: c after)
  also have "\<dots> = ?text" by (rule slice_middle)
  finally show "slice src (range_start (value_source_range (occ_value occ)))
       (range_end (value_source_range (occ_value occ))) = ?text"
    by (simp add: v lp add.assoc)
qed

lemma trim_matches_id:
  assumes "trim_matches pat v = v"
  shows "trim_start_matches pat v = v" "trim_end_matches pat v = v"
proof -
  have "length v \<le> length (trim_start_matches pat v)"
    using assms length_trim_end_matches [of pat "trim_start_matches pat v"] by (simp add: trim_matches_def)
  moreover obtain lead where "v = lead @ trim_start_matches pat v"
    using trim_start_matches_split by blast
  ultimately show *: "trim_start_matches pat v = v"
    by (metis add_le_same_cancel2 append_Nil le_zero_eq length_0_conv length_append)
  with assms show "trim_end_matches pat v = v" by (simp add: trim_matches_def)
qed

lemma valid_attribute_name_bytes:
  "valid_attribute_name name \<Longrightarrow> b \<in> set name \<Longrightarrow> b \<noteq> CHR '':'' \<and> b \<noteq> CHR ''!''"
  by (auto simp: valid_attribute_name_def list_all_iff attribute_name_byte_def is_ascii_alphanumeric_def
      is_ascii_alphabetic_def is_ascii_upper_def is_ascii_lower_def is_ascii_digit_def in_byte_range_def)

lemma split_unset_plain:
  assumes "valid_attribute_name name"
  shows "split_unset name = (name, False)" "split_unset (''!'' @ name) = (name, True)"
    "split_unset (name @ ''!'') = (name, True)"
proof -
  have n: "CHR ''!'' \<notin> set name" using valid_attribute_name_bytes [OF assms] by blast
  have ne: "name \<noteq> []" using assms by (auto simp: valid_attribute_name_def)
  have p: "strip_prefix name ''!'' = None" and q: "strip_suffix name ''!'' = None"
    and pn: "strip_prefix (name @ ''!'') ''!'' = None"
    using n ne by (auto simp: strip_prefix_def starts_with_prefix strip_suffix_def ends_with_def
        append_eq_Cons_conv) (metis in_set_dropD list.set_intros(1))
  show "split_unset name = (name, False)" "split_unset (''!'' @ name) = (name, True)"
    "split_unset (name @ ''!'') = (name, True)"
    by (simp_all add: split_unset_def p q pn strip_suffix_Some [THEN iffD2])
      (simp add: strip_prefix_def starts_with_def)
qed

section \<open>References found in a text\<close>

definition reference_ok :: "str \<Rightarrow> str \<times> nat \<times> nat \<times> nat \<times> nat \<Rightarrow> bool" where
  "reference_ok text r \<longleftrightarrow>
     (case r of (name, open, name_start, name_end, close) \<Rightarrow>
        name_start = open + 1 \<and> close = name_end + 1 \<and> name_start < name_end \<and> close \<le> length text
        \<and> text ! open = CHR ''{'' \<and> text ! name_end = CHR ''}''
        \<and> slice text name_start name_end = name \<and> CHR ''}'' \<notin> set name)"

definition reference_open :: "str \<times> nat \<times> nat \<times> nat \<times> nat \<Rightarrow> nat" where
  "reference_open r = fst (snd r)"

definition reference_close :: "str \<times> nat \<times> nat \<times> nat \<times> nat \<Rightarrow> nat" where
  "reference_close r = snd (snd (snd (snd r)))"

lemma scan_references_loop_ok:
  "rest = drop cursor text \<Longrightarrow> cursor \<le> length text \<Longrightarrow>
   list_all (reference_ok text) (scan_references_loop rest cursor)
   \<and> sorted_wrt (\<lambda>a b. reference_close a \<le> reference_open b) (scan_references_loop rest cursor)
   \<and> (\<forall>r \<in> set (scan_references_loop rest cursor). cursor \<le> reference_open r)"
proof (induction rest cursor rule: scan_references_loop.induct)
  case (1 rest cursor)
  have fits: "cursor + n \<le> length text" if "n \<le> length rest" for n
    using that "1.prems" by simp
  have next_rest: "drop n rest = drop (cursor + n) text" for n
    using "1.prems"(1) by (simp add: add.commute)
  show ?case
  proof (cases "rest = []")
    case True
    then show ?thesis by (simp add: scan_references_loop.simps)
  next
    case ne: False
    show ?thesis
    proof (cases "starts_with rest [backslash, CHR ''{'']")
      case True
      then have "2 \<le> length rest" using starts_with_length by fastforce
      from "1.IH"(1) [OF ne True next_rest fits [OF this]] show ?thesis
        using ne True by (auto simp: scan_references_loop.simps [of rest])
    next
      case esc: False
      show ?thesis
      proof (cases "starts_with rest ''{''")
        case brace: True
        show ?thesis
        proof (cases "find_char (CHR ''}'') rest")
          case None
          with ne esc brace show ?thesis
            by (simp add: scan_references_loop.simps [of rest] del: find_char_None)
        next
          case (Some close)
          let ?name = "slice rest 1 close"
          let ?tail = "scan_references_loop (drop (close + 1) rest) (cursor + (close + 1))"
          have c: "close < length rest" "rest ! close = CHR ''}''" "CHR ''}'' \<notin> set (take close rest)"
            using Some by (simp_all add: find_char_Some)
          have o0: "rest ! 0 = CHR ''{''" using brace by (auto simp: starts_with_prefix)
          with c(2) have "close \<noteq> 0" by (cases "close = 0") simp_all
          have "?tail = scan_references_loop (drop (close + 1) rest) (cursor + close + 1)"
            by (simp add: add.assoc)
          with "1.IH"(2) [OF ne esc brace Some refl] next_rest fits [of "close + 1"] c(1)
          have ih: "list_all (reference_ok text) ?tail"
            "sorted_wrt (\<lambda>a b. reference_close a \<le> reference_open b) ?tail"
            "\<forall>r \<in> set ?tail. cursor + close + 1 \<le> reference_open r"
            by (simp_all add: add.assoc)
          have at: "rest ! i = text ! (cursor + i)" for i
            using "1.prems" by simp
          have "slice text (cursor + 1) (cursor + close) = ?name"
            using "1.prems"(1) by (simp add: slice_def add.commute)
          moreover have "CHR ''}'' \<notin> set ?name"
            using c(3) by (auto simp: slice_def take_Suc_conv_app_nth dest: in_set_takeD)
              (metis drop_take in_set_dropD One_nat_def)
          ultimately have "?name \<noteq> [] \<Longrightarrow>
              reference_ok text (?name, cursor, cursor + 1, cursor + close, cursor + close + 1)"
            using c o0 at [of 0] at [of close] fits [of "close + 1"] \<open>close \<noteq> 0\<close>
            by (cases "close = 1") (simp_all add: reference_ok_def)
          moreover have "scan_references_loop rest cursor =
              (if ?name \<noteq> [] then (?name, cursor, cursor + 1, cursor + close, cursor + close + 1) # ?tail
               else ?tail)"
            using ne esc brace Some by (simp add: scan_references_loop.simps [of rest] Let_def add.assoc)
          ultimately show ?thesis
            using ih by (auto simp: reference_open_def reference_close_def)
        qed
      next
        case False
        have len: "n \<le> length rest \<or> drop n rest = []" for n by auto
        let ?n = "utf8_len (hd rest)"
        show ?thesis
        proof (cases "?n \<le> length rest")
          case True
          from "1.IH"(3) [OF ne esc False next_rest fits [OF this]] show ?thesis
            using ne esc False by (auto simp: scan_references_loop.simps [of rest])
        next
          case past: False
          then have "drop ?n rest = []" by simp
          with ne esc False show ?thesis
            by (simp add: scan_references_loop.simps [of rest] scan_references_loop.simps [of "[]"])
        qed
      qed
    qed
  qed
qed

lemmas attribute_eval =
  environment_build_def with_locked_values_cancellable_def default_environment_def build_step_def
  apply_occurrence_def evaluate_occurrence_def evaluate_definition_def definition_resolver_def
  expand_attribute_text_def expand_loop.simps next_piece_def check_size_def saturating_add_def
  canonical_name_def is_locked_def push_history_def checkpoint_is_cancelled_def
  CHECKPOINT_INTERVAL_def NeverCancel_def checkpoint_new_def

section \<open>Properties\<close>

text \<open>C12. Externally supplied attributes are hard-locked: whatever sequence of attribute
  lines and counters a document applies, each supplied name stays locked and keeps the
  value it was given at the start, also when the supplied operation is an unset.\<close>

theorem locked_attributes_immutable:
  assumes "(name, v) \<in> set external"
  shows "is_locked (apply_all occs (with_locked_values external lim)) name
    \<and> attribute_values (apply_all occs (with_locked_values external lim)) (canonical_name name) =
        attribute_values (with_locked_values external lim) (canonical_name name)"
proof -
  have "canonical_name name \<in> locked (with_locked_values external lim)"
    using assms by (force simp: with_locked_values_def Let_def)
  then show ?thesis by (simp add: is_locked_def apply_all_frame)
qed

theorem locked_attributes_immutable_witness:
  "attribute_values
     (apply_all
       [\<lparr>occ_range = \<lparr>range_start = 0, range_end = 7\<rparr>, occ_name_range = \<lparr>range_start = 1, range_end = 2\<rparr>,
         occ_name = ''a'',
         occ_value = \<lparr>value_source_range = \<lparr>range_start = 4, range_end = 7\<rparr>, source_text = ''new'',
                      folded_text = ''new'', value_lines = []\<rparr>,
         occ_operation = SetOp, occ_valid = True\<rparr>]
       (with_locked_values [(''A'', Some ''old'')] \<lparr>max_depth = 1, max_bytes = 100\<rparr>)) ''a'' = Some ''old''"
proof -
  have "canonical_name ''A'' = ''a''"
    by (simp add: canonical_name_def str_eval)
  then show ?thesis
    using locked_attributes_immutable [of "''A''" "Some ''old''" "[(''A'', Some ''old'')]"]
    by (simp add: with_locked_values_def map_filter_simps del: apply_all.simps)
qed

text \<open>Applying occurrences is total: from the locked values, after any sequence of
  occurrences, applying another one never reaches the \<open>expect\<close> on a missing depth, and
  every recorded expansion depth is within the configured limit.\<close>

theorem sequential_state_never_panics:
  "fst (apply_occurrence occ (apply_all occs (with_locked_values external lim))) \<noteq> Inl Panic
   \<and> (\<forall>n. case depths (apply_all occs (with_locked_values external lim)) n of
           None \<Rightarrow> True | Some d \<Rightarrow> d \<le> max_depth lim)"
proof -
  have ok: "state_ok (apply_all occs (with_locked_values external lim))"
    by (simp add: apply_all_ok)
  moreover have "attribute_limits (apply_all occs (with_locked_values external lim)) = lim"
    by (simp add: apply_all_frame with_locked_values_def Let_def)
  ultimately show ?thesis
    using apply_occurrence_ok(1) [OF ok prod.collapse [symmetric]]
    by (auto simp: state_ok_def split: option.split)
qed

text \<open>C11. A lookup in the environment yields the latest binding: for attribute operations
  whose ends follow their starts' order, resolving a name at a position gives the external value when
  the name is locked, and otherwise the last binding of the name that became visible
  before the position.\<close>

theorem environment_resolves_latest:
  assumes "environment_build host occs counters ext lim cp = Inr (env, cp')"
    and "sorted (map occ_end (sort_key (\<lambda>occ. range_start (occ_range occ)) (occs @ counters)))"
  shows "resolve_at_event env name position =
    (case external_values env (canonical_name name) of
       Some v \<Rightarrow> Some \<lparr>resolved_value = Inr v, resolved_binding = None\<rparr>
     | None \<Rightarrow>
         let bs = visible_bindings env name position in
         if bs = [] then None
         else Some \<lparr>resolved_value = binding_value (last bs), resolved_binding = Some (last bs)\<rparr>)"
proof -
  from environment_build_ok(1) [OF assms(1)] obtain k where "history_ok k env" ..
  then show ?thesis
    using environment_build_ok(3) [OF assms] by (rule resolve_at_event_latest)
qed

theorem environment_resolves_latest_witness:
  "case environment_build NeverCancel
      [\<lparr>occ_range = \<lparr>range_start = 0, range_end = 5\<rparr>, occ_name_range = \<lparr>range_start = 1, range_end = 2\<rparr>,
         occ_name = ''a'',
         occ_value = \<lparr>value_source_range = \<lparr>range_start = 4, range_end = 5\<rparr>, source_text = ''x'',
                      folded_text = ''x'', value_lines = []\<rparr>,
         occ_operation = SetOp, occ_valid = True\<rparr>,
       \<lparr>occ_range = \<lparr>range_start = 6, range_end = 11\<rparr>, occ_name_range = \<lparr>range_start = 1, range_end = 2\<rparr>,
         occ_name = ''a'',
         occ_value = \<lparr>value_source_range = \<lparr>range_start = 4, range_end = 5\<rparr>, source_text = ''y'',
                      folded_text = ''y'', value_lines = []\<rparr>,
         occ_operation = SetOp, occ_valid = True\<rparr>] [] [] \<lparr>max_depth = 1, max_bytes = 9\<rparr> (checkpoint_new 0) of
     Inr (env, _) \<Rightarrow> map_option resolved_value (resolve_at_event env ''A'' (AttributePosition 8 0))
       = Some (Inr (Some ''x''))
   | Inl _ \<Rightarrow> False"
proof -
  let ?occs = "[\<lparr>occ_range = \<lparr>range_start = 0, range_end = 5\<rparr>, occ_name_range = \<lparr>range_start = 1, range_end = 2\<rparr>,
         occ_name = ''a'',
         occ_value = \<lparr>value_source_range = \<lparr>range_start = 4, range_end = 5\<rparr>, source_text = ''x'',
                      folded_text = ''x'', value_lines = []\<rparr>,
         occ_operation = SetOp, occ_valid = True\<rparr>,
       \<lparr>occ_range = \<lparr>range_start = 6, range_end = 11\<rparr>, occ_name_range = \<lparr>range_start = 1, range_end = 2\<rparr>,
         occ_name = ''a'',
         occ_value = \<lparr>value_source_range = \<lparr>range_start = 4, range_end = 5\<rparr>, source_text = ''y'',
                      folded_text = ''y'', value_lines = []\<rparr>,
         occ_operation = SetOp, occ_valid = True\<rparr>]"
  let ?lim = "\<lparr>max_depth = 1, max_bytes = 9\<rparr> :: AttributeExpansionLimits"
  have s: "sorted (map occ_end (sort_key (\<lambda>occ. range_start (occ_range occ)) (?occs @ [])))"
    by (simp add: sort_key_def occ_end_def)
  obtain env cp' where b: "environment_build NeverCancel ?occs [] [] ?lim (checkpoint_new 0) = Inr (env, cp')"
    and e: "external_values env = Map.empty" "map visible_position (bindings env) = [AttributePosition 5 0, AttributePosition 11 1]"
      "map binding_name (bindings env) = [''a'', ''a'']"
      "map binding_value (bindings env) = [Inr (Some ''x''), Inr (Some ''y'')]"
    by (simp add: sort_key_def attribute_eval str_eval visible_position_def binding_name_def Let_def)
  obtain b1 b2 where "bindings env = [b1, b2]"
    using e(2) by (auto simp: map_eq_Cons_conv)
  with environment_resolves_latest [OF b s, of "''A''" "AttributePosition 8 0"] e b show ?thesis
    by (simp add: visible_bindings_def less_AttributePosition_def canonical_name_def str_eval)
qed

text \<open>The environment's final values agree with its history: each name ends with the
  external value when it is locked, and otherwise with the value of its last binding,
  where an unset or failed operation leaves none.\<close>

theorem final_values_agree_with_history:
  assumes "environment_build host occs counters ext lim cp = Inr (env, cp')"
  shows "final_values env n =
    (case external_values env n of
       Some v \<Rightarrow> v | None \<Rightarrow> value_of_last (named_bindings (bindings env) n))"
  by (rule environment_build_ok(2) [OF assms])

theorem final_values_agree_with_history_witness:
  "case environment_build NeverCancel
      [\<lparr>occ_range = \<lparr>range_start = 0, range_end = 5\<rparr>, occ_name_range = \<lparr>range_start = 1, range_end = 2\<rparr>,
         occ_name = ''a'',
         occ_value = \<lparr>value_source_range = \<lparr>range_start = 4, range_end = 5\<rparr>, source_text = ''x'',
                      folded_text = ''x'', value_lines = []\<rparr>,
         occ_operation = SetOp, occ_valid = True\<rparr>] [] [] \<lparr>max_depth = 1, max_bytes = 9\<rparr> (checkpoint_new 0) of
     Inr (env, _) \<Rightarrow> final_values env ''a'' = Some ''x''
   | Inl _ \<Rightarrow> False"
proof -
  let ?occs = "[\<lparr>occ_range = \<lparr>range_start = 0, range_end = 5\<rparr>, occ_name_range = \<lparr>range_start = 1, range_end = 2\<rparr>,
         occ_name = ''a'',
         occ_value = \<lparr>value_source_range = \<lparr>range_start = 4, range_end = 5\<rparr>, source_text = ''x'',
                      folded_text = ''x'', value_lines = []\<rparr>,
         occ_operation = SetOp, occ_valid = True\<rparr>]"
  let ?lim = "\<lparr>max_depth = 1, max_bytes = 9\<rparr> :: AttributeExpansionLimits"
  obtain env cp' where b: "environment_build NeverCancel ?occs [] [] ?lim (checkpoint_new 0) = Inr (env, cp')"
    and e: "external_values env = Map.empty" "map binding_name (bindings env) = [''a'']"
      "map binding_value (bindings env) = [Inr (Some ''x'')]"
    by (simp add: sort_key_def attribute_eval str_eval binding_name_def Let_def)
  obtain b1 where "bindings env = [b1]"
    using e(2) by (auto simp: map_eq_Cons_conv)
  with final_values_agree_with_history [OF b, of "''a''"] e b show ?thesis
    by (simp add: named_bindings_def value_of_last_def)
qed

text \<open>Two spellings of one supplied name, one set and one unset, are read differently
  by the two constructors: the preprocessor's state keeps the value, the analysis
  environment drops it.\<close>

theorem external_case_variants_diverge:
  "attribute_values (with_locked_values [(''A'', Some ''x''), (''a'', None)] lim) ''a'' = Some ''x''
   \<and> (case environment_build NeverCancel [] [] [(''A'', Some ''x''), (''a'', None)] lim (checkpoint_new 0) of
        Inr (env, _) \<Rightarrow> final_values env ''a'' = None
      | Inl _ \<Rightarrow> False)"
  by (simp add: with_locked_values_def map_filter_simps attribute_eval str_eval)

text \<open>The ranges of a parsed attribute line denote its text: where the line's content
  lies in a source, the name range is the name's bytes and the value range is the value's
  bytes, and a line accepted as valid has a valid name.\<close>

theorem parse_line_ranges_denote_text:
  assumes "parse_line content start full = Inr (Some (occ, problem))"
    and "slice src start (start + length content) = content"
  shows "slice src (range_start (occ_name_range occ)) (range_end (occ_name_range occ)) = occ_name occ
    \<and> slice src (range_start (value_source_range (occ_value occ)))
        (range_end (value_source_range (occ_value occ))) = source_text (occ_value occ)
    \<and> (\<not> occ_valid occ \<or> valid_attribute_name (occ_name occ))"
proof -
  from parse_line_parts [OF assms(1)] obtain raw after unset where
    "occ_valid occ \<longleftrightarrow> problem = None"
    "(occ_operation occ, problem) = classify_line (occ_name occ) unset after (source_text (occ_value occ))
       (occ_name_range occ) (value_source_range (occ_value occ))" .
  then have "\<not> occ_valid occ \<or> valid_attribute_name (occ_name occ)"
    by (auto simp: classify_line_def split: if_splits)
  with parse_line_ranges [OF assms] show ?thesis by simp
qed

theorem parse_line_ranges_denote_text_witness:
  "case parse_line '':ab:  c'' 1 \<lparr>range_start = 1, range_end = 8\<rparr> of
     Inr (Some (occ, problem)) \<Rightarrow>
       slice ''x:ab:  c'' (range_start (occ_name_range occ)) (range_end (occ_name_range occ)) = ''ab''
   | _ \<Rightarrow> False"
proof -
  obtain occ problem where p: "parse_line '':ab:  c'' 1 \<lparr>range_start = 1, range_end = 8\<rparr> = Inr (Some (occ, problem))"
    and n: "occ_name occ = ''ab''"
    by (simp add: parse_line_def str_eval space_or_tab_def attribute_range_def text_range_def TextSize_new_def
        TextRange_new_def split_unset_def classify_line_def valid_attribute_name_def attribute_name_start_def
        attribute_name_byte_def Let_def)
  have s: "slice ''x:ab:  c'' 1 (1 + length '':ab:  c'') = '':ab:  c''"
    by (simp add: slice_def)
  from parse_line_ranges_denote_text [OF p s] p n show ?thesis by simp
qed

text \<open>A printed attribute line parses back: for a valid name and a value without blanks
  at its ends, the set line gives the name and value and is valid, and both unset
  spellings give a valid unset of the name.\<close>

theorem attribute_line_roundtrip:
  assumes "valid_attribute_name name" and "trim_matches space_or_tab v = v"
    and "start + length name + length v + 4 \<le> range_end full" and "range_end full \<le> u32_max"
  shows "(\<exists>occ. parse_line ('':'' @ name @ '': '' @ v) start full = Inr (Some (occ, None))
            \<and> occ_name occ = name \<and> source_text (occ_value occ) = v \<and> folded_text (occ_value occ) = v
            \<and> occ_operation occ = SetOp \<and> occ_valid occ)
    \<and> (\<forall>raw \<in> {''!'' @ name, name @ ''!''}.
         \<exists>occ. parse_line ('':'' @ raw @ '':'') start full = Inr (Some (occ, None))
            \<and> occ_name occ = name \<and> occ_operation occ = UnsetOp \<and> occ_valid occ)"
proof -
  let ?lx = "\<lambda>v. '':'' @ name @ '': '' @ v"
  have colon: "CHR '':'' \<notin> set name"
    using assms(1) valid_attribute_name_bytes by auto
  have excl: "\<not> starts_with name ''!''"
    using assms(1) valid_attribute_name_bytes by (fastforce simp: starts_with_prefix)
  have blank: "trim_start_matches space_or_tab ('' '' @ v) = v" "trim_matches space_or_tab ('' '' @ v) = v"
    using trim_matches_id [OF assms(2)] by (simp_all add: trim_matches_def trim_start_matches_def space_or_tab_def)
  have "find_char (CHR '':'') (name @ '': '' @ v) = Some (length name)"
    using find_char_append [OF colon] by simp
  then have "\<exists>occ. parse_line (?lx v) start full = Inr (Some (occ, None))
            \<and> occ_name occ = name \<and> source_text (occ_value occ) = v \<and> folded_text (occ_value occ) = v
            \<and> occ_operation occ = SetOp \<and> occ_valid occ"
    using assms blank excl split_unset_plain(1) [OF assms(1)]
    by (simp add: parse_line_def strip_prefix_Some [THEN iffD2] attribute_range_def text_range_ok
        classify_line_def space_or_tab_def Suc_diff_le)
  moreover have "\<exists>occ. parse_line ('':'' @ raw @ '':'') start full = Inr (Some (occ, None))
            \<and> occ_name occ = name \<and> occ_operation occ = UnsetOp \<and> occ_valid occ"
    if raw: "raw = ''!'' @ name \<or> raw = name @ ''!''" for raw
  proof -
    have "CHR '':'' \<notin> set raw" using colon raw by auto
    then have f: "find_char (CHR '':'') (raw @ '':'') = Some (length raw)"
      using find_char_append by simp
    have u: "split_unset raw = (name, True)" using raw split_unset_plain(2,3) [OF assms(1)] by auto
    have "length raw = Suc (length name)" using raw by auto
    with f u assms show ?thesis
      by (simp add: parse_line_def strip_prefix_Some [THEN iffD2] attribute_range_def text_range_ok
          classify_line_def trim_matches_def trim_start_matches_def trim_end_matches_def)
  qed
  ultimately show ?thesis by blast
qed

theorem attribute_line_roundtrip_witness:
  "\<exists>occ. parse_line '':!ab:'' 3 \<lparr>range_start = 3, range_end = 20\<rparr> = Inr (Some (occ, None))
     \<and> occ_name occ = ''ab'' \<and> occ_operation occ = UnsetOp \<and> occ_valid occ"
proof -
  have n: "valid_attribute_name ''ab''"
    by (simp add: valid_attribute_name_def attribute_name_start_def attribute_name_byte_def str_eval)
  have t: "trim_matches space_or_tab ''c d'' = ''c d''"
    by (simp add: space_or_tab_def str_eval)
  have "3 + length ''ab'' + length ''c d'' + 4 \<le> range_end \<lparr>range_start = 3, range_end = 20\<rparr>"
    and "range_end \<lparr>range_start = 3, range_end = 20\<rparr> \<le> u32_max"
    by (simp_all add: u32_max_def)
  from attribute_line_roundtrip [OF n t this] show ?thesis by simp
qed

text \<open>The references scanned from a text are exactly delimited: each reported name is the
  non-empty text between an opening brace and the next closing brace at the reported
  offsets, and the references are disjoint and in order.\<close>

theorem scan_references_exact:
  "list_all (reference_ok s) (scan_references s)
   \<and> sorted_wrt (\<lambda>a b. reference_close a \<le> reference_open b) (scan_references s)"
  using scan_references_loop_ok [of s 0 s] by (simp add: scan_references_def)

text \<open>A counter counts: the value after the text of a signed 64-bit number is the text of
  its successor, saturating at the largest one, whatever the seed.\<close>

theorem counter_counts_up:
  assumes "- 9223372036854775808 \<le> i" and "i \<le> i64_max"
  shows "next_counter_value (Some (int_to_string i)) sd = int_to_string (min (i + 1) i64_max)"
  using assms
  by (simp add: next_counter_value_def parse_i64_def parse_signed_int_to_string)

theorem counter_counts_up_witness: "next_counter_value (Some ''9'') None = ''10''"
  using counter_counts_up [of 9 None] by (simp add: str_eval)

end
