(* ===== verification/Preprocessor_Types.thy ===== *)
theory Preprocessor_Types
  imports Attributes
begin

text \<open>
  The data of \<open>preprocessor.rs\<close> that its modules share: options, resources, directives,
  notices, the source map and the errors. A \<open>SourceId\<close> is a string.
\<close>

datatype SafeMode = Unsafe | Server | Safe | Secure

record ResourceDocument =
  resource_id :: str
  resource_source :: str

text \<open>
  \<open>ResourceLookup\<close> is the host's trait. Its documentation requires a view that is stable
  for one run, so a lookup is a function of the target.
\<close>

datatype ResourceLookupResult = Ready ResourceDocument | Missing | Deferred | LookupFailed str

type_synonym resource_lookup = "str \<Rightarrow> ResourceLookupResult"

type_synonym ResourceSnapshot = "str \<rightharpoonup> ResourceDocument"

definition snapshot_insert :: "str \<Rightarrow> ResourceDocument \<Rightarrow> ResourceSnapshot \<Rightarrow> ResourceSnapshot" where
  "snapshot_insert target document snapshot = snapshot(target \<mapsto> document)"

definition snapshot_get :: "ResourceSnapshot \<Rightarrow> str \<Rightarrow> ResourceDocument option" where
  "snapshot_get snapshot target = snapshot target"

definition snapshot_from_list :: "(str \<times> ResourceDocument) list \<Rightarrow> ResourceSnapshot" where
  "snapshot_from_list resources = insert_all Map.empty resources"

definition snapshot_lookup :: "ResourceSnapshot \<Rightarrow> resource_lookup" where
  "snapshot_lookup snapshot target =
     (case snapshot_get snapshot target of None \<Rightarrow> Missing | Some document \<Rightarrow> Ready document)"

record PreprocessOptions =
  option_source_id :: "str option"
  option_base_uri :: "str option"
  safe_mode :: SafeMode
  allowed_schemes :: "str list"
  option_attributes :: ExternalAttributes
  enable_includes :: bool
  max_include_depth :: u32
  max_includes :: u32
  max_total_bytes :: u32
  max_expanded_nodes :: u32
  max_source_map_segments :: u32
  option_max_attribute_expansion_depth :: u32
  option_max_attribute_expansion_bytes :: u32

definition PreprocessOptions_default :: PreprocessOptions where
  "PreprocessOptions_default =
     \<lparr>option_source_id = None, option_base_uri = None, safe_mode = Secure, allowed_schemes = [],
      option_attributes = [], enable_includes = True, max_include_depth = 16,
      max_includes = 10000, max_total_bytes = 50 * 1024 * 1024, max_expanded_nodes = 1000000,
      max_source_map_segments = 1000000, option_max_attribute_expansion_depth = 32,
      option_max_attribute_expansion_bytes = 1024 * 1024\<rparr>"

datatype DirectiveKind = IncludeKind | Ifdef | Ifndef | Ifeval | Endif

record Directive =
  directive_kind :: DirectiveKind
  directive_source_id :: "str option"
  directive_range :: TextRange
  authored_target :: "str option"
  directive_optional :: bool
  directive_target :: str
  directive_target_range :: TextRange
  resource_source_id :: "str option"

datatype PreprocessNoticeKind = OptionalResourceMissing

record PreprocessNotice =
  notice_kind :: PreprocessNoticeKind
  notice_source_id :: "str option"
  notice_range :: TextRange
  notice_target :: str

text \<open>\<open>ExpandedRange\<close>, \<open>OriginRange\<close> wrap a range and are read as one.\<close>

record SourceOrigin =
  origin_source_id :: "str option"
  origin_range :: TextRange

datatype SourceMapping = Identity | WholeOrigin

record SourceMapSegment =
  output_range :: TextRange
  segment_origin :: SourceOrigin
  mapping :: SourceMapping

record PreprocessedDocument =
  document_source :: str
  source_map :: "SourceMapSegment list"
  document_directives :: "Directive list"
  document_notices :: "PreprocessNotice list"

datatype PreprocessErrorKind =
    MissingResource | IncludeCycle | DepthLimit | IncludeLimit | ByteLimit | NodeLimit
  | SourceMapLimit | UnsafeTarget | InvalidDirective | UnsupportedEncoding
  | UnclosedConditional | InternalInvariantError

record PreprocessError =
  error_kind :: PreprocessErrorKind
  error_source_id :: "str option"
  error_range :: TextRange
  requested_target :: "str option"
  error_target :: "str option"
  message :: str

definition preprocess_error ::
    "PreprocessErrorKind \<Rightarrow> str option \<Rightarrow> TextRange \<Rightarrow> str \<Rightarrow> PreprocessError" where
  "preprocess_error kind sid r text =
     \<lparr>error_kind = kind, error_source_id = sid, error_range = r, requested_target = None,
      error_target = None, message = text\<rparr>"

text \<open>\<open>range\<close>, \<open>zero_range\<close> and \<open>relative_range\<close>; the first and last may panic.\<close>

definition checked_range :: "nat \<Rightarrow> nat \<Rightarrow> 'e failure + TextRange" where
  "checked_range start end = map_err (\<lambda>_. Panic) (text_range start end)"

definition zero_range :: TextRange where
  "zero_range = \<lparr>range_start = 0, range_end = 0\<rparr>"

definition relative_range :: "TextRange \<Rightarrow> nat \<Rightarrow> nat \<Rightarrow> 'e failure + TextRange" where
  "relative_range l start end = checked_range (range_start l + start) (range_start l + end)"

lemma checked_range_ok:
  "a \<le> b \<Longrightarrow> b \<le> u32_max \<Longrightarrow> checked_range a b = Inr \<lparr>range_start = a, range_end = b\<rparr>"
  by (simp add: checked_range_def text_range_ok)

lemma checked_range_Inr:
  "checked_range a b = Inr r \<longleftrightarrow> a \<le> b \<and> b \<le> u32_max \<and> r = \<lparr>range_start = a, range_end = b\<rparr>"
  by (auto simp: checked_range_def map_err_eq_Inr text_range_Inr)

end
