(* ===== verification/Directives.thy ===== *)
theory Directives
  imports Preprocessor_Types
begin

text \<open>
  \<open>preprocessor/directive.rs\<close>: recognition of preprocessor lines and evaluation of
  conditionals, with the part of \<open>f64\<close> that \<open>ifeval\<close> compares.
\<close>

section \<open>Recognition\<close>

record ParsedDirective =
  parsed_kind :: DirectiveKind
  target :: str
  parsed_attributes :: str
  target_start :: nat
  target_end :: nat

datatype RecognizedDirective =
    ConditionalDirective ParsedDirective
  | IncludeDirective ParsedDirective
  | EscapedDirective str
  | TextLine

datatype ConditionalTransition = Inline bool | Open bool | Close

datatype DirectiveLine = ConditionalLine | IncludeLine

definition parse_directive :: "str \<Rightarrow> str \<Rightarrow> DirectiveKind \<Rightarrow> ParsedDirective option" where
  "parse_directive v pre kind =
     (case strip_prefix v pre of
        None \<Rightarrow> None
      | Some rest \<Rightarrow>
          (case find_char (CHR ''['') rest of
             None \<Rightarrow> None
           | Some bracket \<Rightarrow>
               (case rfind_char (CHR '']'') rest of
                  None \<Rightarrow> None
                | Some close \<Rightarrow>
                    if close = length rest - 1 \<and> bracket \<le> close then
                      Some \<lparr>parsed_kind = kind, target = take bracket rest,
                            parsed_attributes = slice rest (bracket + 1) close,
                            target_start = length pre,
                            target_end = length pre + bracket\<rparr>
                    else None)))"

definition parse_include :: "str \<Rightarrow> ParsedDirective option" where
  "parse_include v = parse_directive v ''include::'' IncludeKind"

fun find_map :: "('a \<Rightarrow> 'b option) \<Rightarrow> 'a list \<Rightarrow> 'b option" where
  "find_map f [] = None"
| "find_map f (x # xs) = (case f x of Some y \<Rightarrow> Some y | None \<Rightarrow> find_map f xs)"

definition conditional_prefixes :: "(str \<times> DirectiveKind) list" where
  "conditional_prefixes =
     [(''ifdef::'', Ifdef), (''ifndef::'', Ifndef), (''ifeval::'', Ifeval), (''endif::'', Endif)]"

definition parse_conditional :: "str \<Rightarrow> ParsedDirective option" where
  "parse_conditional v = find_map (\<lambda>(pre, kind). parse_directive v pre kind) conditional_prefixes"

definition classify_directive_line :: "str \<Rightarrow> DirectiveLine option" where
  "classify_directive_line v =
     (if parse_conditional v \<noteq> None then Some ConditionalLine
      else map_option (\<lambda>_. IncludeLine) (parse_include v))"

definition recognize :: "str \<Rightarrow> RecognizedDirective" where
  "recognize v =
     (case parse_conditional v of
        Some directive \<Rightarrow> ConditionalDirective directive
      | None \<Rightarrow>
          (case parse_include v of
             Some directive \<Rightarrow> IncludeDirective directive
           | None \<Rightarrow>
               (case strip_prefix v [backslash] of
                  Some literal \<Rightarrow>
                    if parse_include literal \<noteq> None \<or> parse_conditional literal \<noteq> None
                    then EscapedDirective literal else TextLine
                | None \<Rightarrow> TextLine)))"

section \<open>Attribute references in a directive\<close>

definition directive_resolver :: "(str \<rightharpoonup> str) \<Rightarrow> resolver" where
  "directive_resolver attrs name =
     Inr (case attrs (canonical_name name) of Some v \<Rightarrow> v | None \<Rightarrow> ''{'' @ name @ ''}'', 0)"

definition expand_attributes :: "str \<Rightarrow> (str \<rightharpoonup> str) \<Rightarrow> AttributeExpansionLimits \<Rightarrow> str" where
  "expand_attributes v attrs lim =
     (case expand_attribute_text v (lim\<lparr>max_bytes := - 1\<rparr>) (directive_resolver attrs) of
        Inr (expanded, _) \<Rightarrow> expanded
      | Inl _ \<Rightarrow> v)"

interpretation directive_resolver: attribute_resolver "directive_resolver attrs" for attrs
  by unfold_locales (simp add: directive_resolver_def)

section \<open>Floating-point operands\<close>

text \<open>
  A finite \<open>f64\<close> is an integral multiple of 2 to the power of minus 1074, and is
  represented by that integer; the two zeros compare equal, so they are one. Parsing rounds
  the decimal to the nearest such value, ties to an even significand.
\<close>

datatype f64 = NaN | Infinite bool | Finite int

fun bit_length :: "nat \<Rightarrow> nat" where
  "bit_length n = (if n = 0 then 0 else Suc (bit_length (n div 2)))"

declare bit_length.simps [simp del]

definition round_half_even :: "nat \<Rightarrow> nat \<Rightarrow> nat" where
  "round_half_even n d =
     (let q = n div d; r = n mod d in
      if 2 * r < d \<or> (2 * r = d \<and> even q) then q else q + 1)"

definition f64_scale :: nat where
  "f64_scale = 2 ^ 1074"

definition f64_overflow :: nat where
  "f64_overflow = 2 ^ 2098"

text \<open>The value of \<open>n / d\<close> in units of the least subnormal, with 53 significant bits.\<close>

definition round_to_f64 :: "nat \<Rightarrow> nat \<Rightarrow> f64" where
  "round_to_f64 n d =
     (let scaled = n * f64_scale;
          shift = bit_length (scaled div d) - 53;
          k = round_half_even scaled (d * 2 ^ shift) * 2 ^ shift
      in if f64_overflow \<le> k then Infinite False else Finite (int k))"

definition negate_f64 :: "f64 \<Rightarrow> f64" where
  "negate_f64 x = (case x of NaN \<Rightarrow> NaN | Infinite s \<Rightarrow> Infinite (\<not> s) | Finite i \<Rightarrow> Finite (- i))"

definition decimal_value :: "nat \<Rightarrow> int \<Rightarrow> f64" where
  "decimal_value mantissa exponent =
     (if 0 \<le> exponent then round_to_f64 (mantissa * 10 ^ nat exponent) 1
      else round_to_f64 mantissa (10 ^ nat (- exponent)))"

text \<open>\<open>Digits [. Digits] [e [sign] Digits]\<close>, with a digit on one side of the point.\<close>

definition parse_exponent :: "str \<Rightarrow> int option" where
  "parse_exponent s =
     (case s of
        [] \<Rightarrow> Some 0
      | e # rest \<Rightarrow>
          if ascii_lower e = CHR ''e'' then
            (let negative = starts_with rest ''-'';
                 digits = (if negative \<or> starts_with rest ''+'' then tl rest else rest)
             in if digits = [] then None
                else map_option (\<lambda>n. if negative then - int n else int n) (digits_value 0 digits))
          else None)"

definition parse_decimal :: "str \<Rightarrow> f64 option" where
  "parse_decimal s =
     (let whole = takeWhile is_ascii_digit s;
          after = dropWhile is_ascii_digit s;
          fraction = (if starts_with after ''.'' then takeWhile is_ascii_digit (tl after) else []);
          rest = (if starts_with after ''.'' then dropWhile is_ascii_digit (tl after) else after)
      in if whole = [] \<and> fraction = [] then None
         else (case (parse_exponent rest, digits_value 0 (whole @ fraction)) of
                 (Some e, Some m) \<Rightarrow> Some (decimal_value m (e - int (length fraction)))
               | _ \<Rightarrow> None))"

definition parse_f64 :: "str \<Rightarrow> f64 option" where
  "parse_f64 s =
     (let negative = starts_with s ''-'';
          body = (if negative \<or> starts_with s ''+'' then tl s else s);
          magnitude =
            (if eq_ignore_ascii_case body ''nan'' then Some NaN
             else if eq_ignore_ascii_case body ''inf'' \<or> eq_ignore_ascii_case body ''infinity''
             then Some (Infinite False)
             else parse_decimal body)
      in if negative then map_option negate_f64 magnitude else magnitude)"

definition f64_less :: "f64 \<Rightarrow> f64 \<Rightarrow> bool" where
  "f64_less x y =
     (case (x, y) of
        (NaN, _) \<Rightarrow> False
      | (_, NaN) \<Rightarrow> False
      | (Infinite s, Infinite t) \<Rightarrow> s \<and> \<not> t
      | (Infinite s, Finite _) \<Rightarrow> s
      | (Finite _, Infinite t) \<Rightarrow> \<not> t
      | (Finite i, Finite j) \<Rightarrow> i < j)"

definition f64_less_eq :: "f64 \<Rightarrow> f64 \<Rightarrow> bool" where
  "f64_less_eq x y = (f64_less x y \<or> (x = y \<and> x \<noteq> NaN))"

section \<open>Conditions\<close>

definition attribute_condition :: "str \<Rightarrow> (str \<rightharpoonup> str) \<Rightarrow> bool \<Rightarrow> bool" where
  "attribute_condition tgt attrs present =
     (let defined = (\<lambda>name. attrs (canonical_name (trim name)) \<noteq> None);
          found = (if List.member tgt (CHR ''+'')
                   then list_all defined (split_chars ''+'' tgt)
                   else list_ex defined (split_chars '','' tgt))
      in if present then found else \<not> found)"

definition operand :: "str \<Rightarrow> str" where
  "operand s = trim_matches [quote_char, double_quote] (trim s)"

definition compare_operands :: "str \<Rightarrow> str \<Rightarrow> str \<Rightarrow> bool" where
  "compare_operands operator left right =
     (if operator = ''=='' then left = right
      else if operator = ''!='' then left \<noteq> right
      else (case (parse_f64 left, parse_f64 right) of
              (Some x, Some y) \<Rightarrow>
                if operator = ''>='' then f64_less_eq y x
                else if operator = ''<='' then f64_less_eq x y
                else if operator = ''>'' then f64_less y x
                else if operator = ''<'' then f64_less x y
                else False
            | _ \<Rightarrow> False))"

fun evaluate_operators :: "str list \<Rightarrow> str \<Rightarrow> bool" where
  "evaluate_operators [] v = False"
| "evaluate_operators (operator # rest) v =
     (case split_once_str operator v of
        Some (left, right) \<Rightarrow> compare_operands operator (operand left) (operand right)
      | None \<Rightarrow> evaluate_operators rest v)"

definition evaluate_expression :: "str \<Rightarrow> bool" where
  "evaluate_expression v = evaluate_operators [''=='', ''!='', ''>='', ''<='', ''>'', ''<''] v"

text \<open>An include is not a conditional: \<open>unreachable!\<close> panics.\<close>

definition transition ::
    "ParsedDirective \<Rightarrow> bool \<Rightarrow> (str \<rightharpoonup> str) \<Rightarrow> AttributeExpansionLimits
     \<Rightarrow> 'e failure + ConditionalTransition" where
  "transition directive parent_enabled attrs lim =
     (let condition = attribute_condition (target directive) attrs;
          inline = (parsed_attributes directive \<noteq> [])
      in case parsed_kind directive of
           Ifdef \<Rightarrow> Inr ((if inline then Inline else Open) (parent_enabled \<and> condition True))
         | Ifndef \<Rightarrow> Inr ((if inline then Inline else Open) (parent_enabled \<and> condition False))
         | Ifeval \<Rightarrow>
             Inr (Open (parent_enabled
               \<and> evaluate_expression (expand_attributes (parsed_attributes directive) attrs lim)))
         | Endif \<Rightarrow> Inr Close
         | IncludeKind \<Rightarrow> Inl Panic)"

section \<open>What recognition guarantees\<close>

lemma rfind_char_last:
  assumes "rfind_char c s = Some i" and "i = length s - 1"
  shows "s \<noteq> [] \<and> s ! i = c"
proof -
  obtain j where j: "find_char c (rev s) = Some j" "i = length s - 1 - j"
    using assms(1) by (auto simp: rfind_char_def)
  then have "j < length s" "rev s ! j = c" by (simp_all add: find_char_Some)
  with j(2) assms(2) have "j = 0" "s \<noteq> []" by auto
  with \<open>rev s ! j = c\<close> show ?thesis using assms(2) by (simp add: rev_nth)
qed

lemma rfind_char_snoc: "rfind_char c (s @ [c]) = Some (length s)"
  by (simp add: rfind_char_def find_char_def)

lemma parse_directive_iff:
  "parse_directive v pre kind = Some d \<longleftrightarrow>
     (\<exists>t a. v = pre @ t @ ''['' @ a @ '']'' \<and> CHR ''['' \<notin> set t
        \<and> d = \<lparr>parsed_kind = kind, target = t, parsed_attributes = a,
               target_start = length pre, target_end = length pre + length t\<rparr>)"
proof
  assume l: "parse_directive v pre kind = Some d"
  then obtain rest bracket close where r: "v = pre @ rest" "find_char (CHR ''['') rest = Some bracket"
    "rfind_char (CHR '']'') rest = Some close" "close = length rest - 1" "bracket \<le> close"
    and d: "d = \<lparr>parsed_kind = kind, target = take bracket rest,
      parsed_attributes = slice rest (bracket + 1) close, target_start = length pre,
      target_end = length pre + bracket\<rparr>"
    by (auto simp: parse_directive_def strip_prefix_Some split: option.splits if_splits)
  have b: "bracket < length rest" "rest ! bracket = CHR ''[''" "CHR ''['' \<notin> set (take bracket rest)"
    using r(2) by (simp_all add: find_char_Some)
  have last: "rest \<noteq> []" "rest ! close = CHR '']''"
    using rfind_char_last [OF r(3,4)] by auto
  with b(2) have "bracket \<noteq> close" by auto
  with r(5) have lt: "bracket + 1 \<le> close" by simp
  have "rest = take bracket rest @ rest ! bracket # drop (bracket + 1) rest"
    using id_take_nth_drop [OF b(1)] by simp
  moreover have "drop (bracket + 1) rest = slice rest (bracket + 1) close @ drop close rest"
    using lt unfolding slice_def
    by (metis append_take_drop_id drop_drop le_add_diff_inverse2 add.commute)
  moreover have "drop close rest = [rest ! close]"
    using r(4) last(1) by (metis Cons_nth_drop_Suc Suc_pred' diff_less drop_all le_refl length_greater_0_conv less_one)
  ultimately have "rest = take bracket rest @ ''['' @ slice rest (bracket + 1) close @ '']''"
    using b(2) last(2) by (metis append_Cons append_Nil)
  then have "v = pre @ take bracket rest @ ''['' @ slice rest (bracket + 1) close @ '']''"
    using r(1) by simp
  moreover have "length (take bracket rest) = bracket" using b(1) by simp
  ultimately show "\<exists>t a. v = pre @ t @ ''['' @ a @ '']'' \<and> CHR ''['' \<notin> set t
        \<and> d = \<lparr>parsed_kind = kind, target = t, parsed_attributes = a,
               target_start = length pre, target_end = length pre + length t\<rparr>"
    using b(3) d by metis
next
  assume "\<exists>t a. v = pre @ t @ ''['' @ a @ '']'' \<and> CHR ''['' \<notin> set t
        \<and> d = \<lparr>parsed_kind = kind, target = t, parsed_attributes = a,
               target_start = length pre, target_end = length pre + length t\<rparr>"
  then obtain t a where v: "v = pre @ t @ ''['' @ a @ '']''" "CHR ''['' \<notin> set t"
    "d = \<lparr>parsed_kind = kind, target = t, parsed_attributes = a,
          target_start = length pre, target_end = length pre + length t\<rparr>" by blast
  have "strip_prefix v pre = Some (t @ ''['' @ a @ '']'')" using v(1) by (simp add: strip_prefix_Some)
  moreover have "find_char (CHR ''['') (t @ ''['' @ a @ '']'') = Some (length t)"
    using find_char_append [OF v(2)] by simp
  moreover have "rfind_char (CHR '']'') (t @ ''['' @ a @ '']'') = Some (length t + 1 + length a)"
    using rfind_char_snoc [of "CHR '']''" "t @ ''['' @ a"] by simp
  ultimately show "parse_directive v pre kind = Some d"
    using v(3) by (simp add: parse_directive_def slice_def)
qed

lemma parse_directive_shape:
  assumes "parse_directive v pre kind = Some d"
  shows "parsed_kind d = kind" "target_start d \<le> target_end d" "target_end d \<le> length v"
    "slice v (target_start d) (target_end d) = target d"
  using assms by (auto simp: parse_directive_iff slice_def)

lemma parse_conditional_shape:
  assumes "parse_conditional v = Some d"
  shows "parsed_kind d \<noteq> IncludeKind" "target_start d \<le> target_end d" "target_end d \<le> length v"
    "slice v (target_start d) (target_end d) = target d"
proof -
  obtain pre kind where "(pre, kind) \<in> set conditional_prefixes" and d: "parse_directive v pre kind = Some d"
    using assms by (auto simp: parse_conditional_def conditional_prefixes_def split: option.splits)
  then have "kind \<noteq> IncludeKind" by (auto simp: conditional_prefixes_def)
  with parse_directive_shape [OF d]
  show "parsed_kind d \<noteq> IncludeKind" "target_start d \<le> target_end d" "target_end d \<le> length v"
    "slice v (target_start d) (target_end d) = target d"
    by auto
qed

lemma recognize_shape:
  "recognize v = ConditionalDirective d \<Longrightarrow> parsed_kind d \<noteq> IncludeKind
     \<and> target_start d \<le> target_end d \<and> target_end d \<le> length v"
  "recognize v = IncludeDirective d \<Longrightarrow> parsed_kind d = IncludeKind
     \<and> target_start d \<le> target_end d \<and> target_end d \<le> length v"
  "recognize v = EscapedDirective l \<Longrightarrow> v = backslash # l"
  using parse_conditional_shape [of v d] parse_directive_shape [of v "''include::''" IncludeKind d]
  by (auto simp: recognize_def parse_include_def strip_prefix_Some split: option.splits if_splits)

lemma transition_no_panic: "parsed_kind d \<noteq> IncludeKind \<Longrightarrow> transition d e attrs lim \<noteq> Inl x"
  by (auto simp: transition_def Let_def split: DirectiveKind.splits)

section \<open>Integer operands\<close>

lemma bit_length_le: "n < 2 ^ k \<Longrightarrow> bit_length n \<le> k"
proof (induction k arbitrary: n)
  case 0
  then show ?case by (simp add: bit_length.simps)
next
  case (Suc k)
  then have "n div 2 < 2 ^ k" by (simp add: less_mult_imp_div_less mult.commute)
  with Suc.IH show ?case by (subst bit_length.simps) auto
qed

lemma round_half_even_exact: "0 < d \<Longrightarrow> round_half_even (d * n) d = n"
  by (simp add: round_half_even_def)

lemma round_to_f64_int:
  assumes "m < 2 ^ 53"
  shows "round_to_f64 m 1 = Finite (int m * int f64_scale)"
proof -
  let ?scaled = "m * f64_scale"
  let ?shift = "bit_length ?scaled - 53"
  have "?scaled < 2 ^ 53 * f64_scale"
    using assms unfolding f64_scale_def by (intro mult_strict_right_mono) simp_all
  also have "(2 ^ 53 * f64_scale :: nat) = 2 ^ (53 + 1074)"
    unfolding f64_scale_def by (rule power_add [symmetric])
  finally have lt: "?scaled < 2 ^ (53 + 1074)" .
  then have "bit_length ?scaled \<le> 53 + 1074"
    by (rule bit_length_le)
  then have s: "?shift \<le> 1074" by linarith
  then have "f64_scale = 2 ^ ?shift * 2 ^ (1074 - ?shift)"
    unfolding f64_scale_def by (metis le_add_diff_inverse power_add)
  then have split: "?scaled = 2 ^ ?shift * (m * 2 ^ (1074 - ?shift))"
    by (metis mult.left_commute)
  then have "round_half_even ?scaled (2 ^ ?shift) = m * 2 ^ (1074 - ?shift)"
    by (metis round_half_even_exact zero_less_numeral zero_less_power)
  then have k: "round_half_even ?scaled (1 * 2 ^ ?shift) * 2 ^ ?shift = ?scaled"
    using split by (metis mult.commute mult_1)
  have "(2 :: nat) ^ (53 + 1074) \<le> f64_overflow"
    unfolding f64_overflow_def by (rule power_increasing) simp_all
  with lt have "\<not> f64_overflow \<le> ?scaled" by linarith
  with k show ?thesis
    unfolding round_to_f64_def Let_def div_by_1 by simp
qed

lemma parse_decimal_nat:
  assumes "n < 2 ^ 53"
  shows "parse_decimal (nat_to_string n) = Some (Finite (int n * int f64_scale))"
proof -
  have d: "\<forall>b \<in> set (nat_to_string n). is_ascii_digit b" using nat_to_string_digits by blast
  then have tw: "takeWhile is_ascii_digit (nat_to_string n) = nat_to_string n"
    and dw: "dropWhile is_ascii_digit (nat_to_string n) = []" by simp_all
  have "decimal_value n 0 = round_to_f64 n 1"
    by (simp add: decimal_value_def)
  then show ?thesis
    using round_to_f64_int [OF assms]
    by (simp add: parse_decimal_def parse_exponent_def digits_value_nat_to_string starts_with_def tw dw Let_def)
qed

lemma nat_to_string_not_word:
  assumes "w \<noteq> []" and "\<not> is_ascii_digit (hd w)" and "\<forall>b \<in> set w. ascii_lower b = b"
  shows "\<not> eq_ignore_ascii_case (nat_to_string n) w"
proof
  assume "eq_ignore_ascii_case (nat_to_string n) w"
  then have e: "map ascii_lower (nat_to_string n) = w"
    using assms(3) by (simp add: eq_ignore_ascii_case_def to_ascii_lowercase_def map_idI)
  obtain b t where bt: "nat_to_string n = b # t" by (meson neq_Nil_conv nat_to_string_nonempty)
  then have "is_ascii_digit b" using nat_to_string_digits by (metis list.set_intros(1))
  then have "ascii_lower b = b"
    by (auto simp: ascii_lower_def is_ascii_upper_def is_ascii_digit_def in_byte_range_def)
  with e bt \<open>is_ascii_digit b\<close> assms(2) show False by auto
qed

lemma parse_f64_int:
  assumes "\<bar>i\<bar> < 2 ^ 53"
  shows "parse_f64 (int_to_string i) = Some (Finite (i * int f64_scale))"
proof -
  have words: "\<not> eq_ignore_ascii_case (nat_to_string n) ''nan''"
    "\<not> eq_ignore_ascii_case (nat_to_string n) ''inf''"
    "\<not> eq_ignore_ascii_case (nat_to_string n) ''infinity''" for n
    by (rule nat_to_string_not_word; simp add: is_ascii_digit_def in_byte_range_def ascii_lower_def
        is_ascii_upper_def)+
  show ?thesis
  proof (cases "i < 0")
    case True
    then have "nat (- i) < 2 ^ 53" using assms by (simp add: nat_less_iff)
    from parse_decimal_nat [OF this] True words show ?thesis
      by (simp add: parse_f64_def int_to_string_def starts_with_def negate_f64_def)
  next
    case False
    have sign: "\<not> starts_with (nat_to_string (nat i)) ''-''" "\<not> starts_with (nat_to_string (nat i)) ''+''"
      using nat_to_string_head [of "nat i"] by (force simp: is_ascii_digit_def in_byte_range_def)+
    have "nat i < 2 ^ 53" using assms False by (simp add: nat_less_iff)
    from parse_decimal_nat [OF this] False words sign show ?thesis
      by (simp add: parse_f64_def int_to_string_def)
  qed
qed

lemma operand_int [simp]: "operand (int_to_string i) = int_to_string i"
proof -
  have q: "\<not> List.member [quote_char, double_quote] b" if "b \<in> set (int_to_string i)" for b
    using int_to_string_bytes [OF that] by (auto simp: is_ascii_digit_def in_byte_range_def)
  then show ?thesis
    by (simp add: operand_def trim_matches_def trim_start_matches_def trim_end_matches_def dropWhile_none)
qed

lemma find_str_None: "p \<noteq> [] \<Longrightarrow> hd p \<notin> set s \<Longrightarrow> find_str p s = None"
  by (induction s) (auto simp: starts_with_prefix neq_Nil_conv)

lemma find_str_None_second: "p = [a, b] \<Longrightarrow> b \<notin> set s \<Longrightarrow> find_str p s = None"
  by (induction s) (auto simp: starts_with_prefix)

lemma find_str_first:
  "p \<noteq> [] \<Longrightarrow> hd p \<notin> set l \<Longrightarrow> find_str p (l @ p @ r) = Some (length l)"
  by (induction l) (auto simp: starts_with_prefix neq_Nil_conv)

lemma split_once_str_first:
  "p \<noteq> [] \<Longrightarrow> hd p \<notin> set l \<Longrightarrow> split_once_str p (l @ p @ r) = Some (l, r)"
  by (simp add: split_once_str_def find_str_first)

lemma int_to_string_no_operator:
  "CHR ''='' \<notin> set (int_to_string i)" "CHR ''<'' \<notin> set (int_to_string i)"
  "CHR ''>'' \<notin> set (int_to_string i)" "CHR ''!'' \<notin> set (int_to_string i)"
  by (auto dest!: int_to_string_bytes simp: is_ascii_digit_def in_byte_range_def)

lemma f64_scale_pos: "0 < f64_scale"
  by (simp add: f64_scale_def)

lemma compare_ints:
  assumes "\<bar>i\<bar> < 2 ^ 53" and "\<bar>j\<bar> < 2 ^ 53"
  shows "compare_operands ''<'' (int_to_string i) (int_to_string j) \<longleftrightarrow> i < j"
    "compare_operands ''<='' (int_to_string i) (int_to_string j) \<longleftrightarrow> i \<le> j"
    "compare_operands ''>'' (int_to_string i) (int_to_string j) \<longleftrightarrow> j < i"
    "compare_operands ''>='' (int_to_string i) (int_to_string j) \<longleftrightarrow> j \<le> i"
  unfolding compare_operands_def parse_f64_int [OF assms(1)] parse_f64_int [OF assms(2)]
  using f64_scale_pos by (auto simp: f64_less_eq_def f64_less_def mult_less_cancel_right)

lemma second_equals_absent:
  assumes "CHR ''='' \<notin> set l" "CHR ''='' \<notin> set r" "c \<noteq> CHR ''=''"
  shows "find_str ''=='' (l @ c # CHR ''='' # r) = None"
  using assms
proof (induction l)
  case Nil
  then show ?case by (cases r) (auto simp: starts_with_def find_str_None)
next
  case (Cons a l)
  then show ?case by (cases l) (auto simp: starts_with_def)
qed

section \<open>Properties\<close>

definition directive_prefix :: "DirectiveKind \<Rightarrow> str" where
  "directive_prefix kind =
     (case kind of IncludeKind \<Rightarrow> ''include::'' | Ifdef \<Rightarrow> ''ifdef::'' | Ifndef \<Rightarrow> ''ifndef::''
        | Ifeval \<Rightarrow> ''ifeval::'' | Endif \<Rightarrow> ''endif::'')"

lemma parse_directive_other:
  "pre \<noteq> [] \<Longrightarrow> q \<noteq> [] \<Longrightarrow> \<not> starts_with (q @ r) pre \<Longrightarrow> parse_directive (q @ r) pre kind = None"
  by (simp add: parse_directive_def strip_prefix_def)

text \<open>C23. A printed directive is recognized: for every kind, a target without an opening
  bracket and any attribute text, the line reads back as exactly that directive, and the
  same line behind a backslash is the escaped line.\<close>

theorem directive_roundtrip:
  assumes "CHR ''['' \<notin> set t"
  shows "recognize (directive_prefix kind @ t @ ''['' @ a @ '']'') =
      (let d = \<lparr>parsed_kind = kind, target = t, parsed_attributes = a,
                target_start = length (directive_prefix kind),
                target_end = length (directive_prefix kind) + length t\<rparr>
       in if kind = IncludeKind then IncludeDirective d else ConditionalDirective d)
    \<and> recognize (backslash # directive_prefix kind @ t @ ''['' @ a @ '']'') =
        EscapedDirective (directive_prefix kind @ t @ ''['' @ a @ '']'')"
proof -
  let ?l = "directive_prefix kind @ t @ ''['' @ a @ '']''"
  let ?d = "\<lparr>parsed_kind = kind, target = t, parsed_attributes = a,
                target_start = length (directive_prefix kind),
                target_end = length (directive_prefix kind) + length t\<rparr>"
  have own: "parse_directive ?l (directive_prefix kind) kind = Some ?d"
    using assms parse_directive_iff by blast
  have other: "parse_directive ?l pre k = None"
    if "(pre, k) \<in> set (conditional_prefixes @ [(''include::'', IncludeKind)])" "k \<noteq> kind" for pre k
    using that by (cases kind)
      (auto simp: conditional_prefixes_def directive_prefix_def parse_directive_def strip_prefix_def
        starts_with_def)
  have cond: "parse_conditional ?l = (if kind = IncludeKind then None else Some ?d)"
    using own other
    by (cases kind) (simp_all add: parse_conditional_def conditional_prefixes_def directive_prefix_def)
  have incl: "parse_include ?l = (if kind = IncludeKind then Some ?d else None)"
    using own other [of "''include::''" IncludeKind]
    by (cases kind) (simp_all add: parse_include_def directive_prefix_def)
  have "parse_conditional (backslash # ?l) = None" "parse_include (backslash # ?l) = None"
    by (simp_all add: parse_conditional_def conditional_prefixes_def parse_include_def
        parse_directive_def strip_prefix_def starts_with_def)
  moreover have "strip_prefix (backslash # ?l) [backslash] = Some ?l"
    by (simp add: strip_prefix_Some)
  ultimately show ?thesis
    using cond incl by (cases "kind = IncludeKind") (simp_all add: recognize_def Let_def)
qed

theorem directive_roundtrip_witness:
  "recognize [backslash, CHR ''e'', CHR ''n'', CHR ''d'', CHR ''i'', CHR ''f'', CHR '':'', CHR '':'', CHR ''['', CHR '']''] =
     EscapedDirective ''endif::[]''"
  using directive_roundtrip [of "[]" Endif "[]"] by (simp add: directive_prefix_def)

text \<open>The parser's classification of a line agrees with the preprocessor's recognition:
  a line is classified as a conditional or an include exactly when it is recognized as
  one, and escaped and plain lines are not classified.\<close>

theorem classification_matches_recognition:
  "classify_directive_line v =
     (case recognize v of
        ConditionalDirective _ \<Rightarrow> Some ConditionalLine
      | IncludeDirective _ \<Rightarrow> Some IncludeLine
      | _ \<Rightarrow> None)"
  by (auto simp: classify_directive_line_def recognize_def split: option.splits)

text \<open>\<open>ifeval\<close> compares integers exactly: for two integers below 2 to the power of 53 in
  magnitude, each ordering operator between their texts gives their ordering.\<close>

theorem ifeval_compares_integers:
  assumes "\<bar>i\<bar> < 2 ^ 53" and "\<bar>j\<bar> < 2 ^ 53"
  shows "(evaluate_expression (int_to_string i @ ''<'' @ int_to_string j) \<longleftrightarrow> i < j)
    \<and> (evaluate_expression (int_to_string i @ ''<='' @ int_to_string j) \<longleftrightarrow> i \<le> j)
    \<and> (evaluate_expression (int_to_string i @ ''>'' @ int_to_string j) \<longleftrightarrow> j < i)
    \<and> (evaluate_expression (int_to_string i @ ''>='' @ int_to_string j) \<longleftrightarrow> j \<le> i)"
proof -
  note no = int_to_string_no_operator
  have none: "split_once_str p s = None" if "find_str p s = None" for p s
    using that by (simp add: split_once_str_def)
  let ?lt = "int_to_string i @ ''<'' @ int_to_string j" and ?le = "int_to_string i @ ''<='' @ int_to_string j"
  let ?gt = "int_to_string i @ ''>'' @ int_to_string j" and ?ge = "int_to_string i @ ''>='' @ int_to_string j"
  have "split_once_str ''=='' ?lt = None" "split_once_str ''!='' ?lt = None"
    "split_once_str ''>='' ?lt = None" "split_once_str ''<='' ?lt = None"
    by (rule none, rule find_str_None_second, rule refl; simp add: no)+
  moreover have "split_once_str ''>'' ?lt = None"
    by (rule none, rule find_str_None; simp add: no)
  moreover have "split_once_str ''<'' ?lt = Some (int_to_string i, int_to_string j)"
    by (rule split_once_str_first) (simp_all add: no)
  moreover have "split_once_str ''=='' ?gt = None" "split_once_str ''!='' ?gt = None"
    "split_once_str ''>='' ?gt = None" "split_once_str ''<='' ?gt = None"
    by (rule none, rule find_str_None_second, rule refl; simp add: no)+
  moreover have "split_once_str ''>'' ?gt = Some (int_to_string i, int_to_string j)"
    by (rule split_once_str_first) (simp_all add: no)
  moreover have "split_once_str ''=='' ?le = None" "split_once_str ''=='' ?ge = None"
    using second_equals_absent no by (auto intro!: none)
  moreover have "split_once_str ''!='' ?le = None" "split_once_str ''!='' ?ge = None"
    "split_once_str ''>='' ?le = None"
    by (rule none, rule find_str_None; simp add: no)+
  moreover have "split_once_str ''<='' ?le = Some (int_to_string i, int_to_string j)"
    "split_once_str ''>='' ?ge = Some (int_to_string i, int_to_string j)"
    by (rule split_once_str_first; simp add: no)+
  ultimately show ?thesis
    using compare_ints [OF assms] by (simp add: evaluate_expression_def)
qed

theorem ifeval_compares_integers_witness: "evaluate_expression ''-3<10''"
  using ifeval_compares_integers [of "-3" 10]
  by (simp add: int_to_string_def nat_to_string.simps digit_char_def char_of_numeral)

end
