(* ===== verification/Delimiters.thy ===== *)
theory Delimiters
  imports Source
begin

text \<open>
  \<open>delimiter.rs\<close>: the registry of block delimiters and the search for the end of a
  delimited body, with the delimiter test of \<open>table/scan.rs\<close>.
\<close>

datatype DelimitedBlockKind =
  CommentBlock | Example | Listing | LiteralBlock | OpenBlock | Sidebar | PassBlock | Quote | Table

datatype DelimitedContentModel = Compound | VerbatimContent | Raw | TableContent

record DelimiterSpec =
  spec_kind :: DelimitedBlockKind
  spec_model :: DelimitedContentModel

datatype BlockProblemKind =
  UnclosedBlock | MissingSourceLanguage | InvalidSourceOption | InvalidSourceStart

record BlockProblem =
  block_problem_kind :: BlockProblemKind
  block_problem_range :: TextRange

record DelimitedBody =
  body_end :: nat
  body_content_range :: TextRange
  closing_delimiter_range :: "TextRange option"
  next_line :: nat
  content_end_line :: nat
  problems :: "BlockProblem list"

definition repeated :: "str \<Rightarrow> char \<Rightarrow> bool" where
  "repeated v marker \<longleftrightarrow> 4 \<le> length v \<and> list_all (\<lambda>ch. ch = [marker]) (chars v)"

definition raw_delimiter_separator :: "str \<Rightarrow> str option" where
  "raw_delimiter_separator v =
     (case strip_suffix v ''==='' of
        None \<Rightarrow> None
      | Some pre \<Rightarrow>
          (case chars pre of
             [separator] \<Rightarrow> if separator \<noteq> ''='' then Some separator else None
           | _ \<Rightarrow> None))"

definition is_table_delimiter :: "str \<Rightarrow> bool" where
  "is_table_delimiter v \<longleftrightarrow> raw_delimiter_separator v \<noteq> None"

definition delimiter_spec :: "str \<Rightarrow> DelimiterSpec option" where
  "delimiter_spec delimiter =
     map_option (\<lambda>(kind, model). \<lparr>spec_kind = kind, spec_model = model\<rparr>)
       (if delimiter = ''--'' then Some (OpenBlock, Compound)
        else if delimiter = ''|==='' then Some (Table, TableContent)
        else if is_table_delimiter delimiter then Some (Table, TableContent)
        else if repeated delimiter (CHR ''/'') then Some (CommentBlock, VerbatimContent)
        else if repeated delimiter (CHR ''='') then Some (Example, Compound)
        else if repeated delimiter (CHR ''-'') then Some (Listing, VerbatimContent)
        else if repeated delimiter (CHR ''.'') then Some (LiteralBlock, VerbatimContent)
        else if repeated delimiter (CHR ''*'') then Some (Sidebar, Compound)
        else if repeated delimiter (CHR ''+'') then Some (PassBlock, Raw)
        else if repeated delimiter (CHR ''_'') then Some (Quote, Compound)
        else None)"

text \<open>The search: the closing line and the first possible heading before it.\<close>

fun scan_body ::
    "SourceDocument \<Rightarrow> str \<Rightarrow> nat \<Rightarrow> SourceLine list \<Rightarrow> nat option
     \<Rightarrow> PositionError failure + (nat option \<times> nat option)" where
  "scan_body d delimiter index [] recovery = Inr (None, recovery)"
| "scan_body d delimiter index (l # ls) recovery =
     and_then (expect (sd_text d (content_range l))) (\<lambda>content.
       if content = delimiter then Inr (Some index, recovery)
       else scan_body d delimiter (Suc index) ls
              (if recovery = None \<and> starts_with content ''='' then Some index else recovery))"

definition delimited_body ::
    "SourceDocument \<Rightarrow> nat \<Rightarrow> str \<Rightarrow> str \<Rightarrow> nat \<Rightarrow> PositionError failure + DelimitedBody" where
  "delimited_body d opener_index delimiter source end_line =
     (if length (sd_lines d) \<le> opener_index then Inl Panic
      else
        let opener = sd_lines d ! opener_index;
            content_start = range_end (full_range opener)
        in and_then
             (scan_body d delimiter (opener_index + 1)
                (take (end_line - (opener_index + 1)) (drop (opener_index + 1) (sd_lines d))) None)
             (\<lambda>(closer_index, recovery_index).
           and_then
             (case closer_index of
                Some index \<Rightarrow>
                  let closer = sd_lines d ! index
                  in Inr (range_end (full_range closer), range_start (full_range closer),
                          Some (content_range closer), index + 1, [])
              | None \<Rightarrow>
                  and_then
                    (if end_line < length (sd_lines d)
                     then Inr (range_start (full_range (sd_lines d ! end_line)))
                     else map_err (\<lambda>_. Panic) (TextSize_new (length source))) (\<lambda>boundary.
                  let end = (case recovery_index of
                               Some index \<Rightarrow> range_start (full_range (sd_lines d ! index))
                             | None \<Rightarrow> boundary)
                  in Inr (end, end, None,
                          (case recovery_index of Some index \<Rightarrow> index | None \<Rightarrow> end_line),
                          [\<lparr>block_problem_kind = UnclosedBlock,
                            block_problem_range = content_range opener\<rparr>])))
             (\<lambda>(r_end, content_end, closing, following, probs).
           and_then (map_err Err (TextRange_new content_start content_end)) (\<lambda>content.
             Inr \<lparr>body_end = r_end, body_content_range = content,
                  closing_delimiter_range = closing, next_line = following,
                  content_end_line =
                    (case closer_index of
                       Some index \<Rightarrow> index
                     | None \<Rightarrow> (case recovery_index of Some index \<Rightarrow> index | None \<Rightarrow> end_line)),
                  problems = probs\<rparr>))))"

section \<open>What the search finds\<close>

definition line_text :: "SourceDocument \<Rightarrow> nat \<Rightarrow> str option" where
  "line_text d i = sd_text d (content_range (sd_lines d ! i))"

lemma scan_body_finds:
  assumes "\<forall>i < length (sd_lines d). line_text d i \<noteq> None"
  shows "index + length ls \<le> length (sd_lines d) \<Longrightarrow> ls = take (length ls) (drop index (sd_lines d)) \<Longrightarrow>
    \<exists>c r. scan_body d delimiter index ls recovery = Inr (c, r)
      \<and> (case c of
           Some k \<Rightarrow> index \<le> k \<and> k < index + length ls \<and> line_text d k = Some delimiter
             \<and> (\<forall>i. index \<le> i \<and> i < k \<longrightarrow> line_text d i \<noteq> Some delimiter)
         | None \<Rightarrow> \<forall>i. index \<le> i \<and> i < index + length ls \<longrightarrow> line_text d i \<noteq> Some delimiter)
      \<and> (r = recovery \<or> (\<exists>k. r = Some k \<and> index \<le> k \<and> k < index + length ls))"
proof (induction ls arbitrary: index recovery)
  case Nil
  then show ?case by auto
next
  case (Cons l ls)
  have i: "index < length (sd_lines d)" using Cons.prems(1) by simp
  have l: "l = sd_lines d ! index" and ls: "ls = take (length ls) (drop (Suc index) (sd_lines d))"
    using Cons.prems(2) i by (auto simp: Cons_nth_drop_Suc [symmetric])
  obtain content where c: "line_text d index = Some content"
    using assms i by blast
  then have t: "sd_text d (content_range l) = Some content" by (simp add: line_text_def l)
  show ?case
  proof (cases "content = delimiter")
    case True
    with t c show ?thesis
      by (intro exI [of _ "Some index"] exI [of _ recovery]) auto
  next
    case False
    let ?rec = "if recovery = None \<and> starts_with content ''='' then Some index else recovery"
    from Cons.IH [OF _ ls, of ?rec] Cons.prems(1) obtain k r where
      s: "scan_body d delimiter (Suc index) ls ?rec = Inr (k, r)"
      and k: "case k of
           Some k \<Rightarrow> Suc index \<le> k \<and> k < Suc index + length ls \<and> line_text d k = Some delimiter
             \<and> (\<forall>i. Suc index \<le> i \<and> i < k \<longrightarrow> line_text d i \<noteq> Some delimiter)
         | None \<Rightarrow> \<forall>i. Suc index \<le> i \<and> i < Suc index + length ls \<longrightarrow> line_text d i \<noteq> Some delimiter"
      and r: "r = ?rec \<or> (\<exists>k. r = Some k \<and> Suc index \<le> k \<and> k < Suc index + length ls)"
      by auto
    have scan: "scan_body d delimiter index (l # ls) recovery = Inr (k, r)"
      using t False s by simp
    have first: "line_text d index \<noteq> Some delimiter" using c False by simp
    have "case k of
           Some k \<Rightarrow> index \<le> k \<and> k < index + length (l # ls) \<and> line_text d k = Some delimiter
             \<and> (\<forall>i. index \<le> i \<and> i < k \<longrightarrow> line_text d i \<noteq> Some delimiter)
         | None \<Rightarrow> \<forall>i. index \<le> i \<and> i < index + length (l # ls) \<longrightarrow> line_text d i \<noteq> Some delimiter"
    proof (cases k)
      case None
      have "line_text d i \<noteq> Some delimiter" if "index \<le> i" "i < index + length (l # ls)" for i
        using that k None first by (cases "i = index") auto
      with None show ?thesis by auto
    next
      case (Some m)
      have "line_text d i \<noteq> Some delimiter" if "index \<le> i" "i < m" for i
        using that k Some first by (cases "i = index") auto
      with k Some show ?thesis by auto
    qed
    moreover have "r = recovery \<or> (\<exists>k. r = Some k \<and> index \<le> k \<and> k < index + length (l # ls))"
      using r by (auto split: if_splits)
    ultimately show ?thesis using scan by blast
  qed
qed

lemma line_facts:
  assumes "valid_utf8 s" and "well_indexed s 0 d" and "i < length (sd_lines d)"
  shows "line_text d i \<noteq> None" "line_start d i \<le> range_end (full_range (sd_lines d ! i))"
    "range_end (full_range (sd_lines d ! i)) \<le> length s"
    "Suc i < length (sd_lines d) \<Longrightarrow> range_end (full_range (sd_lines d ! i)) = line_start d (Suc i)"
proof -
  obtain a c e k where l: "sd_lines d ! i = line_of 0 a c e k"
    "a \<le> c" "c \<le> e" "e \<le> length s" "char_boundary s a" "char_boundary s c" "line_start d i = 0 + a"
    "if Suc i < length (sd_lines d) then c < e \<and> line_start d (Suc i) = 0 + e else c = e \<and> e = length s"
    by (rule well_indexed_line [OF assms]) blast
  have "sd_source d = s" "sd_base d = 0" using assms(2) by (simp_all add: well_indexed_def)
  with l show "line_text d i \<noteq> None"
    by (simp add: line_text_def sd_text_def str_get_def)
  from l show "line_start d i \<le> range_end (full_range (sd_lines d ! i))"
    "range_end (full_range (sd_lines d ! i)) \<le> length s"
    "Suc i < length (sd_lines d) \<Longrightarrow> range_end (full_range (sd_lines d ! i)) = line_start d (Suc i)"
    by (auto simp: line_start_def)
qed

lemma line_end_before:
  assumes "valid_utf8 s" and "well_indexed s 0 d" and "i < j" and "j < length (sd_lines d)"
  shows "range_end (full_range (sd_lines d ! i)) \<le> line_start d j"
proof -
  have "range_end (full_range (sd_lines d ! i)) = line_start d (Suc i)"
    using line_facts(4) [OF assms(1,2), of i] assms(3,4) by simp
  also have "\<dots> \<le> line_start d j"
    using assms(3,4) by (intro line_start_mono [OF assms(1,2)]) simp_all
  finally show ?thesis .
qed

section \<open>Properties\<close>

text \<open>A delimited body is always found inside its block: on an indexed source the search
  succeeds, moves past the opening line and not past the end line, the content starts
  right after the opening line and ends within the block, a closing range is reported
  exactly when there is no problem, it is the first line that equals the delimiter, and
  without one no line before the end equals it.\<close>

theorem delimited_body_bounds:
  assumes "valid_utf8 s" and "SourceDocument_new s = Inr d"
    and "opener < end_line" and "end_line \<le> length (sd_lines d)"
  shows "\<exists>b. delimited_body d opener delimiter s end_line = Inr b
    \<and> opener < next_line b \<and> next_line b \<le> end_line
    \<and> range_start (body_content_range b) = range_end (full_range (sd_lines d ! opener))
    \<and> range_start (body_content_range b) \<le> range_end (body_content_range b)
    \<and> range_end (body_content_range b) \<le> body_end b \<and> body_end b \<le> length s
    \<and> (case closing_delimiter_range b of
         Some r \<Rightarrow> problems b = [] \<and> r = content_range (sd_lines d ! (next_line b - 1))
           \<and> line_text d (next_line b - 1) = Some delimiter
           \<and> (\<forall>i. opener < i \<and> i < next_line b - 1 \<longrightarrow> line_text d i \<noteq> Some delimiter)
       | None \<Rightarrow> problems b \<noteq> []
           \<and> (\<forall>i. opener < i \<and> i < end_line \<longrightarrow> line_text d i \<noteq> Some delimiter))"
proof -
  have wi: "well_indexed s 0 d" and len: "length s \<le> u32_max"
    using SourceDocument_new_Inr [OF assms(1,2)] by auto
  let ?ls = "take (end_line - (opener + 1)) (drop (opener + 1) (sd_lines d))"
  have ll: "length ?ls = end_line - (opener + 1)" using assms(3,4) by simp
  have "\<forall>i < length (sd_lines d). line_text d i \<noteq> None"
    using line_facts(1) [OF assms(1) wi] by blast
  from scan_body_finds [OF this, of "opener + 1" ?ls delimiter None] obtain c r where
    scan: "scan_body d delimiter (opener + 1) ?ls None = Inr (c, r)"
    and c: "case c of
         Some k \<Rightarrow> opener + 1 \<le> k \<and> k < end_line \<and> line_text d k = Some delimiter
           \<and> (\<forall>i. opener + 1 \<le> i \<and> i < k \<longrightarrow> line_text d i \<noteq> Some delimiter)
       | None \<Rightarrow> \<forall>i. opener + 1 \<le> i \<and> i < end_line \<longrightarrow> line_text d i \<noteq> Some delimiter"
    and r: "r = None \<or> (\<exists>k. r = Some k \<and> opener + 1 \<le> k \<and> k < end_line)"
    unfolding ll using assms(3,4) by (auto split: option.splits)
  have op: "opener < length (sd_lines d)" "\<not> length (sd_lines d) \<le> opener" using assms(3,4) by auto
  show ?thesis
  proof (cases c)
    case (Some k)
    with c have k: "opener < k" "k < end_line" "line_text d k = Some delimiter"
      "\<forall>i. opener + 1 \<le> i \<and> i < k \<longrightarrow> line_text d i \<noteq> Some delimiter" by auto
    have kl: "k < length (sd_lines d)" using k(2) assms(4) by simp
    have "range_end (full_range (sd_lines d ! opener)) \<le> range_start (full_range (sd_lines d ! k))"
      using line_end_before [OF assms(1) wi k(1) kl] by (simp add: line_start_def)
    moreover have "range_start (full_range (sd_lines d ! k)) \<le> range_end (full_range (sd_lines d ! k))"
      "range_end (full_range (sd_lines d ! k)) \<le> length s"
      using line_facts(2,3) [OF assms(1) wi kl] by (simp_all add: line_start_def)
    ultimately show ?thesis
      using op scan Some k by (simp add: delimited_body_def TextRange_new_def Let_def)
  next
    case None
    define stop where "stop = (case r of
        Some index \<Rightarrow> line_start d index
      | None \<Rightarrow> if end_line < length (sd_lines d) then line_start d end_line else length s)"
    have stop: "range_end (full_range (sd_lines d ! opener)) \<le> stop" "stop \<le> length s"
    proof -
      have b: "range_end (full_range (sd_lines d ! opener)) \<le> line_start d i \<and> line_start d i \<le> length s"
        if "opener < i" "i < length (sd_lines d)" for i
        using line_end_before [OF assms(1) wi that] line_facts(2,3) [OF assms(1) wi that(2)] by simp
      with r line_facts(3) [OF assms(1) wi op(1)] assms(3,4)
      show "range_end (full_range (sd_lines d ! opener)) \<le> stop" "stop \<le> length s"
        by (auto simp: stop_def)
    qed
    have "delimited_body d opener delimiter s end_line = Inr
        \<lparr>body_end = stop, body_content_range = \<lparr>range_start = range_end (full_range (sd_lines d ! opener)),
           range_end = stop\<rparr>, closing_delimiter_range = None,
         next_line = (case r of Some index \<Rightarrow> index | None \<Rightarrow> end_line),
         content_end_line = (case r of Some index \<Rightarrow> index | None \<Rightarrow> end_line),
         problems = [\<lparr>block_problem_kind = UnclosedBlock,
                      block_problem_range = content_range (sd_lines d ! opener)\<rparr>]\<rparr>"
      using op scan None stop len
      by (cases r) (auto simp: delimited_body_def TextRange_new_def TextSize_new_def stop_def line_start_def Let_def)
    with stop c None r assms(3) show ?thesis by auto
  qed
qed

theorem delimited_body_bounds_witness:
  "\<exists>d b. SourceDocument_new [CHR ''-'', CHR ''-'', line_feed, CHR ''x'', line_feed, CHR ''-'', CHR ''-''] = Inr d
     \<and> delimited_body d 0 ''--'' [CHR ''-'', CHR ''-'', line_feed, CHR ''x'', line_feed, CHR ''-'', CHR ''-''] 3 = Inr b
     \<and> 0 < next_line b \<and> next_line b \<le> 3"
proof -
  let ?s = "[CHR ''-'', CHR ''-'', line_feed, CHR ''x'', line_feed, CHR ''-'', CHR ''-'']"
  have v: "valid_utf8 ?s" by (simp add: str_eval)
  obtain d where d: "SourceDocument_new ?s = Inr d" and l: "length (sd_lines d) = 3"
    by (simp add: source_eval str_eval Let_def)
  have "(0 :: nat) < 3" "3 \<le> length (sd_lines d)" using l by simp_all
  from delimited_body_bounds [OF v d this] d show ?thesis by blast
qed

end
