(* ===== verification/Source_Maps.thy ===== *)
theory Source_Maps
  imports Preprocessor_Types
begin

text \<open>
  \<open>preprocessor/source_map.rs\<close>: the builder that appends expanded text with its origin,
  the check that publishes it, and the projection of expanded ranges to their origins. A
  caller's \<open>is_cancelled\<close> closure is a poll function over its own state.
\<close>

section \<open>Building\<close>

record SourceMapBuilder =
  builder_source :: str
  segments :: "SourceMapSegment list"
  builder_max_bytes :: nat
  builder_max_segments :: nat

datatype SourceMapBuildError = BuilderByteLimit | BuilderSegmentLimit

datatype SourceMapFinishError = FinishInvariant | FinishCancelled

definition SourceMapBuilder_new :: "u32 \<Rightarrow> u32 \<Rightarrow> SourceMapBuilder" where
  "SourceMapBuilder_new bytes segs =
     \<lparr>builder_source = [], segments = [], builder_max_bytes = unat bytes,
      builder_max_segments = unat segs\<rparr>"

definition remaining_bytes :: "SourceMapBuilder \<Rightarrow> nat" where
  "remaining_bytes b = builder_max_bytes b - length (builder_source b)"

definition builder_append ::
    "str \<Rightarrow> str option \<Rightarrow> TextRange \<Rightarrow> SourceMapping \<Rightarrow> SourceMapBuilder
     \<Rightarrow> SourceMapBuildError failure + SourceMapBuilder" where
  "builder_append v sid origin m b =
     (let start = length (builder_source b);
          end = min (start + length v) usize_max
      in if builder_max_bytes b < end then Inl (Err BuilderByteLimit)
         else if start < end \<and> builder_max_segments b \<le> length (segments b)
         then Inl (Err BuilderSegmentLimit)
         else
           let b = b\<lparr>builder_source := builder_source b @ v\<rparr> in
           if start < end then
             and_then (checked_range start end) (\<lambda>r.
               Inr (b\<lparr>segments := segments b @
                 [\<lparr>output_range = r,
                   segment_origin = \<lparr>origin_source_id = sid, origin_range = origin\<rparr>,
                   mapping = m\<rparr>]\<rparr>))
           else Inr b)"

text \<open>One segment's check; \<open>previous_end\<close> is where the segment before it ends.\<close>

definition segment_violates :: "nat \<Rightarrow> nat \<Rightarrow> SourceMapSegment \<Rightarrow> bool" where
  "segment_violates source_end previous_end seg \<longleftrightarrow>
     range_is_empty (output_range seg)
     \<or> range_start (output_range seg) < previous_end
     \<or> source_end < range_end (output_range seg)
     \<or> (mapping seg = Identity
        \<and> range_len (output_range seg) \<noteq> range_len (origin_range (segment_origin seg)))"

fun check_segments ::
    "('c \<Rightarrow> bool \<times> 'c) \<Rightarrow> nat \<Rightarrow> nat \<Rightarrow> SourceMapSegment list \<Rightarrow> 'c
     \<Rightarrow> SourceMapFinishError + 'c" where
  "check_segments poll source_end previous_end [] c = Inr c"
| "check_segments poll source_end previous_end (seg # rest) c =
     (let (cancelled, c) = poll c in
      if cancelled then Inl FinishCancelled
      else if segment_violates source_end previous_end seg then Inl FinishInvariant
      else check_segments poll source_end (range_end (output_range seg)) rest c)"

definition from_parts_checked ::
    "('c \<Rightarrow> bool \<times> 'c) \<Rightarrow> str \<Rightarrow> SourceMapSegment list \<Rightarrow> Directive list \<Rightarrow> PreprocessNotice list
     \<Rightarrow> 'c \<Rightarrow> SourceMapFinishError + (PreprocessedDocument \<times> 'c)" where
  "from_parts_checked poll source smap dirs notices c =
     and_then (map_err (\<lambda>_. FinishInvariant) (TextSize_new (length source))) (\<lambda>source_end.
     and_then (check_segments poll source_end 0 smap c) (\<lambda>c.
       Inr (\<lparr>document_source = source, source_map = smap, document_directives = dirs,
             document_notices = notices\<rparr>, c)))"

definition finish_cancellable ::
    "cancel_host \<Rightarrow> SourceMapBuilder \<Rightarrow> Directive list \<Rightarrow> PreprocessNotice list
     \<Rightarrow> CancellationCheckpoint
     \<Rightarrow> SourceMapFinishError + (PreprocessedDocument \<times> CancellationCheckpoint)" where
  "finish_cancellable host b dirs notices cp =
     from_parts_checked (checkpoint_is_cancelled host) (builder_source b) (segments b) dirs notices cp"

section \<open>Projection\<close>

definition project_range :: "SourceMapSegment \<Rightarrow> nat \<Rightarrow> nat \<Rightarrow> 'e failure + TextRange" where
  "project_range seg start end =
     (if mapping seg = WholeOrigin then Inr (origin_range (segment_origin seg))
      else
        let relative_start = start - range_start (output_range seg);
            relative_end = end - range_start (output_range seg);
            base = range_start (origin_range (segment_origin seg))
        in checked_range (base + relative_start) (base + relative_end))"

definition push_origin :: "SourceOrigin list \<Rightarrow> SourceOrigin \<Rightarrow> 'e failure + SourceOrigin list" where
  "push_origin origins origin =
     (if origins \<noteq> [] \<and> origin_source_id (last origins) = origin_source_id origin
         \<and> range_end (origin_range (last origins)) = range_start (origin_range origin)
      then and_then
             (map_err (\<lambda>_. Panic)
               (TextRange_new (range_start (origin_range (last origins))) (range_end (origin_range origin))))
             (\<lambda>r. Inr (butlast origins @ [(last origins)\<lparr>origin_range := r\<rparr>]))
      else Inr (origins @ [origin]))"

fun origins_loop ::
    "('c \<Rightarrow> bool \<times> 'c) \<Rightarrow> TextRange \<Rightarrow> SourceMapSegment list \<Rightarrow> SourceOrigin list \<Rightarrow> 'c
     \<Rightarrow> unit failure + (SourceOrigin list \<times> 'c)" where
  "origins_loop poll r [] origins c = Inr (origins, c)"
| "origins_loop poll r (seg # rest) origins c =
     (let (cancelled, c) = poll c in
      if cancelled then Inl (Err ())
      else if range_end r \<le> range_start (output_range seg) then Inr (origins, c)
      else
        let start = max (range_start (output_range seg)) (range_start r);
            end = min (range_end (output_range seg)) (range_end r)
        in if end \<le> start then origins_loop poll r rest origins c
           else
             and_then (project_range seg start end) (\<lambda>projected.
             and_then (push_origin origins
                 \<lparr>origin_source_id = origin_source_id (segment_origin seg), origin_range = projected\<rparr>)
               (\<lambda>origins. origins_loop poll r rest origins c)))"

text \<open>The first segment that contains an offset, polling before each one.\<close>

fun find_segment ::
    "('c \<Rightarrow> bool \<times> 'c) \<Rightarrow> (SourceMapSegment \<Rightarrow> bool) \<Rightarrow> SourceMapSegment list \<Rightarrow> 'c
     \<Rightarrow> unit failure + (SourceMapSegment option \<times> 'c)" where
  "find_segment poll p [] c = Inr (None, c)"
| "find_segment poll p (seg # rest) c =
     (let (cancelled, c) = poll c in
      if cancelled then Inl (Err ())
      else if p seg then Inr (Some seg, c)
      else find_segment poll p rest c)"

definition single_origin ::
    "SourceMapSegment \<Rightarrow> TextRange \<Rightarrow> unit failure + SourceOrigin list" where
  "single_origin seg r =
     and_then (project_range seg (range_start r) (range_end r)) (\<lambda>projected.
       Inr [\<lparr>origin_source_id = origin_source_id (segment_origin seg), origin_range = projected\<rparr>])"

definition last_segment_ending_at :: "SourceMapSegment list \<Rightarrow> nat \<Rightarrow> SourceMapSegment option" where
  "last_segment_ending_at smap offset =
     (if smap \<noteq> [] \<and> range_end (output_range (last smap)) = offset then Some (last smap) else None)"

definition origins_for_range_checked ::
    "('c \<Rightarrow> bool \<times> 'c) \<Rightarrow> PreprocessedDocument \<Rightarrow> TextRange \<Rightarrow> 'c
     \<Rightarrow> unit failure + (SourceOrigin list \<times> 'c)" where
  "origins_for_range_checked poll doc r c =
     (if range_is_empty r then
        and_then (find_segment poll
            (\<lambda>seg. range_start (output_range seg) \<le> range_start r
                   \<and> range_start r < range_end (output_range seg)) (source_map doc) c)
          (\<lambda>(found, c).
             case (case found of Some seg \<Rightarrow> Some seg
                   | None \<Rightarrow> last_segment_ending_at (source_map doc) (range_start r)) of
               None \<Rightarrow> Inr ([], c)
             | Some seg \<Rightarrow> and_then (single_origin seg r) (\<lambda>os. Inr (os, c)))
      else
        let first = partition_point
              (\<lambda>seg. range_end (output_range seg) \<le> range_start r) (source_map doc)
        in origins_loop poll r (drop first (source_map doc)) [] c)"

definition never_poll :: "unit \<Rightarrow> bool \<times> unit" where
  "never_poll c = (False, c)"

text \<open>\<open>expect\<close>: the query that is never cancelled has no other error.\<close>

definition origins_for_range ::
    "PreprocessedDocument \<Rightarrow> TextRange \<Rightarrow> unit failure + SourceOrigin list" where
  "origins_for_range doc r =
     (case origins_for_range_checked never_poll doc r () of
        Inr (os, _) \<Rightarrow> Inr os | Inl _ \<Rightarrow> Inl Panic)"

definition origins_for_range_cancellable ::
    "cancel_host \<Rightarrow> PreprocessedDocument \<Rightarrow> TextRange \<Rightarrow> CancellationCheckpoint
     \<Rightarrow> unit failure + (SourceOrigin list \<times> CancellationCheckpoint)" where
  "origins_for_range_cancellable host doc r cp =
     origins_for_range_checked (checkpoint_is_cancelled host) doc r cp"

definition origins_for_empty_range_within_cancellable ::
    "cancel_host \<Rightarrow> PreprocessedDocument \<Rightarrow> TextRange \<Rightarrow> TextRange \<Rightarrow> CancellationCheckpoint
     \<Rightarrow> unit failure + (SourceOrigin list \<times> CancellationCheckpoint)" where
  "origins_for_empty_range_within_cancellable host doc r containing cp =
     and_then (find_segment (checkpoint_is_cancelled host)
         (\<lambda>seg. range_start (output_range seg) \<le> range_start r
                \<and> range_start r \<le> range_end (output_range seg)
                \<and> range_start (output_range seg) < range_end containing
                \<and> range_start containing < range_end (output_range seg)) (source_map doc) cp)
       (\<lambda>(found, cp). case found of
          None \<Rightarrow> origins_for_range_cancellable host doc r cp
        | Some seg \<Rightarrow> and_then (single_origin seg r) (\<lambda>os. Inr (os, cp)))"

definition mapping_is_identity :: "PreprocessedDocument \<Rightarrow> TextRange \<Rightarrow> bool" where
  "mapping_is_identity doc r =
     (if range_is_empty r then False
      else
        let index = partition_point
              (\<lambda>seg. range_end (output_range seg) \<le> range_start r) (source_map doc)
        in if index < length (source_map doc) then
             (let seg = source_map doc ! index in
              mapping seg = Identity \<and> range_start (output_range seg) \<le> range_start r
              \<and> range_end r \<le> range_end (output_range seg))
           else False)"

section \<open>The builder's invariant\<close>

definition segment_ok :: "SourceMapSegment \<Rightarrow> bool" where
  "segment_ok seg \<longleftrightarrow>
     range_start (output_range seg) < range_end (output_range seg)
     \<and> (mapping seg = Identity \<longrightarrow>
          range_len (output_range seg) = range_len (origin_range (segment_origin seg)))"

fun segments_tile :: "nat \<Rightarrow> SourceMapSegment list \<Rightarrow> nat \<Rightarrow> bool" where
  "segments_tile a [] b \<longleftrightarrow> a = b"
| "segments_tile a (seg # rest) b \<longleftrightarrow>
     range_start (output_range seg) = a \<and> segment_ok seg
     \<and> segments_tile (range_end (output_range seg)) rest b"

lemma segments_tile_append:
  "segments_tile a (xs @ ys) b \<longleftrightarrow> (\<exists>m. segments_tile a xs m \<and> segments_tile m ys b)"
  by (induction xs arbitrary: a) auto

lemma segments_tile_le: "segments_tile a xs b \<Longrightarrow> a \<le> b"
  by (induction xs arbitrary: a) (fastforce simp: segment_ok_def)+

definition builder_ok :: "SourceMapBuilder \<Rightarrow> bool" where
  "builder_ok b \<longleftrightarrow>
     segments_tile 0 (segments b) (length (builder_source b))
     \<and> length (builder_source b) \<le> builder_max_bytes b
     \<and> length (segments b) \<le> builder_max_segments b
     \<and> builder_max_bytes b \<le> u32_max"

lemma builder_new_ok: "builder_ok (SourceMapBuilder_new bytes segs)"
proof -
  have "unat bytes < 2 ^ 32" using unsigned_less [of bytes] by simp
  then show ?thesis by (simp add: builder_ok_def SourceMapBuilder_new_def u32_max_def)
qed

lemma builder_append_cases:
  assumes "builder_ok b" and "m = Identity \<Longrightarrow> length v = range_len origin"
  shows "case builder_append v sid origin m b of
      Inr b' \<Rightarrow> builder_ok b' \<and> builder_source b' = builder_source b @ v
        \<and> builder_max_bytes b' = builder_max_bytes b \<and> builder_max_segments b' = builder_max_segments b
    | Inl (Err BuilderByteLimit) \<Rightarrow> builder_max_bytes b < length (builder_source b @ v)
    | Inl (Err BuilderSegmentLimit) \<Rightarrow> v \<noteq> [] \<and> length (segments b) = builder_max_segments b
    | Inl Panic \<Rightarrow> False"
proof -
  let ?start = "length (builder_source b)"
  have lim: "builder_max_bytes b \<le> u32_max" "u32_max < usize_max"
    using assms(1) by (simp_all add: builder_ok_def u32_max_def usize_max_def)
  show ?thesis
  proof (cases "builder_max_bytes b < ?start + length v")
    case True
    with lim show ?thesis by (simp add: builder_append_def)
  next
    case False
    with lim have e: "min (?start + length v) usize_max = ?start + length v" by simp
    show ?thesis
    proof (cases "v = []")
      case True
      with assms(1) False e show ?thesis by (simp add: builder_append_def builder_ok_def)
    next
      case ne: False
      have cr: "(checked_range ?start (?start + length v) :: SourceMapBuildError failure + TextRange) =
          Inr \<lparr>range_start = ?start, range_end = ?start + length v\<rparr>"
        using False lim by (intro checked_range_ok) simp_all
      show ?thesis
        using assms False ne e cr
        by (auto simp: builder_append_def builder_ok_def Let_def segments_tile_append segment_ok_def
            range_len_def)
    qed
  qed
qed

lemma check_segments_ok:
  "segments_tile a segs b \<Longrightarrow> b \<le> n \<Longrightarrow> check_segments poll n a segs c \<noteq> Inl FinishInvariant"
proof (induction segs arbitrary: a c)
  case (Cons seg segs)
  then have "\<not> segment_violates n a seg"
    using segments_tile_le by (fastforce simp: segment_violates_def segment_ok_def range_is_empty_def)
  with Cons show ?case by (auto split: prod.split)
qed simp

lemma check_segments_uncancelled:
  "segments_tile a segs b \<Longrightarrow> b \<le> n \<Longrightarrow> (\<And>c. \<not> fst (poll c)) \<Longrightarrow> \<exists>c'. check_segments poll n a segs c = Inr c'"
proof (induction segs arbitrary: a c)
  case (Cons seg segs)
  then have "\<not> segment_violates n a seg"
    using segments_tile_le by (fastforce simp: segment_violates_def segment_ok_def range_is_empty_def)
  with Cons show ?case by (auto split: prod.split) (metis fst_conv)
qed simp

lemma finish_cases:
  assumes "builder_ok b"
  shows "case finish_cancellable host b dirs notices cp of
      Inr (doc, _) \<Rightarrow> doc = \<lparr>document_source = builder_source b, source_map = segments b,
                              document_directives = dirs, document_notices = notices\<rparr>
    | Inl e \<Rightarrow> e = FinishCancelled \<and> (\<exists>q. host q)"
proof -
  have t: "segments_tile 0 (segments b) (length (builder_source b))"
    and len: "length (builder_source b) \<le> u32_max"
    using assms by (auto simp: builder_ok_def)
  let ?r = "check_segments (checkpoint_is_cancelled host) (length (builder_source b)) 0 (segments b) cp"
  show ?thesis
  proof (cases ?r)
    case (Inl e)
    have "e = FinishCancelled"
      using check_segments_ok [OF t le_refl, of "checkpoint_is_cancelled host" cp] Inl by (cases e) auto
    moreover have "\<exists>q. host q"
    proof (rule ccontr)
      assume "\<not> (\<exists>q. host q)"
      then have "\<not> fst (checkpoint_is_cancelled host c)" for c
        using checkpoint.never_spurious by blast
      from check_segments_uncancelled [where poll = "checkpoint_is_cancelled host" and c = cp, OF t le_refl this] Inl
      show False by auto
    qed
    ultimately show ?thesis
      using Inl len by (simp add: finish_cancellable_def from_parts_checked_def TextSize_new_def)
  next
    case (Inr c)
    with len show ?thesis
      by (simp add: finish_cancellable_def from_parts_checked_def TextSize_new_def)
  qed
qed

text \<open>Appending pieces one after the other.\<close>

record Piece =
  piece_text :: str
  piece_source_id :: "str option"
  piece_range :: TextRange
  piece_mapping :: SourceMapping

fun append_all :: "Piece list \<Rightarrow> SourceMapBuilder \<Rightarrow> SourceMapBuildError failure + SourceMapBuilder" where
  "append_all [] b = Inr b"
| "append_all (p # ps) b =
     and_then (builder_append (piece_text p) (piece_source_id p) (piece_range p) (piece_mapping p) b)
       (append_all ps)"

definition piece_ok :: "Piece \<Rightarrow> bool" where
  "piece_ok p \<longleftrightarrow> (piece_mapping p = Identity \<longrightarrow> length (piece_text p) = range_len (piece_range p))"

lemma append_all_ok:
  "append_all ps b = Inr b' \<Longrightarrow> builder_ok b \<Longrightarrow> \<forall>p \<in> set ps. piece_ok p \<Longrightarrow>
   builder_ok b' \<and> builder_source b' = builder_source b @ concat (map piece_text ps)
   \<and> builder_max_bytes b' = builder_max_bytes b \<and> builder_max_segments b' = builder_max_segments b"
proof (induction ps arbitrary: b)
  case (Cons p ps)
  then obtain b1 where b1: "builder_append (piece_text p) (piece_source_id p) (piece_range p) (piece_mapping p) b = Inr b1"
    and rest: "append_all ps b1 = Inr b'" by (auto simp: and_then_eq_Inr)
  have "piece_mapping p = Identity \<Longrightarrow> length (piece_text p) = range_len (piece_range p)"
    using Cons.prems(3) by (simp add: piece_ok_def)
  from builder_append_cases [where sid = "piece_source_id p" and m = "piece_mapping p", OF Cons.prems(2) this] b1
  have "builder_ok b1 \<and> builder_source b1 = builder_source b @ piece_text p
      \<and> builder_max_bytes b1 = builder_max_bytes b \<and> builder_max_segments b1 = builder_max_segments b"
    by simp
  with Cons.IH [OF rest] Cons.prems(3) show ?case by auto
qed simp

section \<open>Projections stay inside their origins\<close>

definition segment_bounded :: "SourceMapSegment \<Rightarrow> bool" where
  "segment_bounded seg \<longleftrightarrow>
     segment_ok seg
     \<and> range_start (origin_range (segment_origin seg)) \<le> range_end (origin_range (segment_origin seg))
     \<and> range_end (origin_range (segment_origin seg)) \<le> u32_max"

definition map_ok :: "PreprocessedDocument \<Rightarrow> bool" where
  "map_ok doc \<longleftrightarrow>
     list_all segment_bounded (source_map doc)
     \<and> sorted_wrt (\<lambda>a b. range_end (output_range a) \<le> range_start (output_range b)) (source_map doc)"

definition origin_within :: "SourceMapSegment list \<Rightarrow> SourceOrigin \<Rightarrow> bool" where
  "origin_within segs o' \<longleftrightarrow>
     range_start (origin_range o') \<le> range_end (origin_range o')
     \<and> (\<forall>x. range_start (origin_range o') \<le> x \<and> x < range_end (origin_range o') \<longrightarrow>
          (\<exists>seg \<in> set segs. origin_source_id (segment_origin seg) = origin_source_id o'
             \<and> range_start (origin_range (segment_origin seg)) \<le> x
             \<and> x < range_end (origin_range (segment_origin seg))))"

lemma project_range_within:
  assumes "segment_bounded seg" "range_start (output_range seg) \<le> a" "a \<le> b" "b \<le> range_end (output_range seg)"
  shows "\<exists>p. project_range seg a b = Inr p
    \<and> range_start (origin_range (segment_origin seg)) \<le> range_start p \<and> range_start p \<le> range_end p
    \<and> range_end p \<le> range_end (origin_range (segment_origin seg))"
proof (cases "mapping seg")
  case WholeOrigin
  with assms(1) show ?thesis by (simp add: project_range_def segment_bounded_def)
next
  case Identity
  let ?o = "range_start (origin_range (segment_origin seg))"
  let ?a = "?o + (a - range_start (output_range seg))" and ?b = "?o + (b - range_start (output_range seg))"
  have le: "?b \<le> range_end (origin_range (segment_origin seg))" "?a \<le> ?b"
    using assms Identity by (auto simp: segment_bounded_def segment_ok_def range_len_def)
  moreover have "?b \<le> u32_max" using le(1) assms(1) by (simp add: segment_bounded_def)
  ultimately show ?thesis
    using Identity by (simp add: project_range_def Let_def checked_range_ok)
qed

lemma push_origin_within:
  assumes "\<forall>x \<in> set os. origin_within segs x" and "origin_within segs o'"
  shows "\<exists>os'. push_origin os o' = (Inr os' :: 'e failure + SourceOrigin list)
    \<and> (\<forall>x \<in> set os'. origin_within segs x)"
proof (cases "os \<noteq> [] \<and> origin_source_id (last os) = origin_source_id o'
    \<and> range_end (origin_range (last os)) = range_start (origin_range o')")
  case True
  then have l: "origin_within segs (last os)" using assms(1) by simp
  let ?r = "\<lparr>range_start = range_start (origin_range (last os)), range_end = range_end (origin_range o')\<rparr>"
  have "range_start (origin_range (last os)) \<le> range_end (origin_range o')"
    using True l assms(2) by (auto simp: origin_within_def)
  then have "push_origin os o' = (Inr (butlast os @ [(last os)\<lparr>origin_range := ?r\<rparr>]) :: 'e failure + SourceOrigin list)"
    using True by (simp add: push_origin_def TextRange_new_def)
  moreover have "origin_within segs ((last os)\<lparr>origin_range := ?r\<rparr>)"
    using True l assms(2) unfolding origin_within_def
    by (auto, metis linorder_not_less)
  ultimately show ?thesis using assms(1) by (auto dest: in_set_butlastD)
next
  case False
  then show ?thesis using assms by (auto simp: push_origin_def)
qed

lemma origins_loop_within:
  assumes "\<And>c. \<not> fst (poll c)"
  shows "list_all segment_bounded segs \<Longrightarrow> set segs \<subseteq> set all \<Longrightarrow> \<forall>x \<in> set os. origin_within all x \<Longrightarrow>
    \<exists>os' c'. origins_loop poll r segs os c = Inr (os', c') \<and> (\<forall>x \<in> set os'. origin_within all x)"
proof (induction segs arbitrary: os c)
  case (Cons seg segs)
  obtain c1 where c1: "poll c = (False, c1)" using assms by (metis prod.collapse)
  let ?a = "max (range_start (output_range seg)) (range_start r)"
  let ?b = "min (range_end (output_range seg)) (range_end r)"
  show ?case
  proof (cases "range_end r \<le> range_start (output_range seg) \<or> ?b \<le> ?a")
    case True
    with c1 Cons show ?thesis by (auto simp: Let_def)
  next
    case False
    then have lt: "?a \<le> ?b" by (meson nat_le_linear)
    have "segment_bounded seg" using Cons.prems(1) by simp
    from project_range_within [OF this _ lt] obtain p where
      p: "project_range seg ?a ?b = (Inr p :: unit failure + TextRange)"
      "range_start (origin_range (segment_origin seg)) \<le> range_start p" "range_start p \<le> range_end p"
      "range_end p \<le> range_end (origin_range (segment_origin seg))" by auto
    let ?o = "\<lparr>origin_source_id = origin_source_id (segment_origin seg), origin_range = p\<rparr>"
    have "origin_within all ?o"
      using p Cons.prems(2) by (force simp: origin_within_def)
    from push_origin_within [OF Cons.prems(3) this] obtain os1 where
      os1: "push_origin os ?o = (Inr os1 :: unit failure + SourceOrigin list)" "\<forall>x \<in> set os1. origin_within all x"
      by blast
    with Cons.IH [OF _ _ os1(2), of c1] Cons.prems(1,2) c1 p(1) False show ?thesis
      by (simp add: Let_def)
  qed
qed simp

lemma find_segment_result:
  assumes "\<And>c. \<not> fst (poll c)"
  shows "\<exists>f c'. find_segment poll p segs c = Inr (f, c') \<and> (case f of None \<Rightarrow> True | Some seg \<Rightarrow> seg \<in> set segs \<and> p seg)"
proof (induction segs arbitrary: c)
  case (Cons seg segs)
  obtain c1 where "poll c = (False, c1)" using assms by (metis prod.collapse)
  with Cons.IH [of c1] show ?case by (fastforce split: option.splits)
qed simp

lemma origins_for_range_within:
  assumes "map_ok doc" and "range_start r \<le> range_end r"
  shows "\<exists>os. origins_for_range doc r = Inr os \<and> (\<forall>x \<in> set os. origin_within (source_map doc) x)"
proof -
  have np: "\<And>c. \<not> fst (never_poll c)" by (simp add: never_poll_def)
  have bounded: "list_all segment_bounded (source_map doc)" using assms(1) by (simp add: map_ok_def)
  show ?thesis
  proof (cases "range_is_empty r")
    case True
    let ?p = "\<lambda>seg. range_start (output_range seg) \<le> range_start r \<and> range_start r < range_end (output_range seg)"
    obtain f c' where f: "find_segment never_poll ?p (source_map doc) () = Inr (f, c')"
      "case f of None \<Rightarrow> True | Some seg \<Rightarrow> seg \<in> set (source_map doc) \<and> ?p seg"
      using find_segment_result [where poll = never_poll and p = ?p and segs = "source_map doc" and c = "()", OF np]
      by blast
    let ?found = "case f of Some seg \<Rightarrow> Some seg | None \<Rightarrow> last_segment_ending_at (source_map doc) (range_start r)"
    show ?thesis
    proof (cases ?found)
      case None
      with f True show ?thesis by (simp add: origins_for_range_def origins_for_range_checked_def)
    next
      case (Some seg)
      then have s: "seg \<in> set (source_map doc)" "range_start (output_range seg) \<le> range_start r"
        "range_start r \<le> range_end (output_range seg)"
        using f(2) bounded
        by (auto simp: last_segment_ending_at_def list_all_iff segment_bounded_def segment_ok_def
            split: option.splits if_splits) (metis last_in_set less_imp_le_nat)
      have "segment_bounded seg" using s(1) bounded by (simp add: list_all_iff)
      from project_range_within [OF this s(2) le_refl s(3)] True obtain p where
        p: "project_range seg (range_start r) (range_end r) = (Inr p :: unit failure + TextRange)"
        "range_start (origin_range (segment_origin seg)) \<le> range_start p" "range_start p \<le> range_end p"
        "range_end p \<le> range_end (origin_range (segment_origin seg))"
        by (auto simp: range_is_empty_def)
      then have "origin_within (source_map doc)
          \<lparr>origin_source_id = origin_source_id (segment_origin seg), origin_range = p\<rparr>"
        using s(1) by (force simp: origin_within_def)
      with f(1) Some True p(1) show ?thesis
        by (simp add: origins_for_range_def origins_for_range_checked_def single_origin_def)
    qed
  next
    case False
    let ?n = "partition_point (\<lambda>seg. range_end (output_range seg) \<le> range_start r) (source_map doc)"
    have "list_all segment_bounded (drop ?n (source_map doc))" "set (drop ?n (source_map doc)) \<subseteq> set (source_map doc)"
      using bounded by (auto simp: list_all_iff dest: in_set_dropD)
    from origins_loop_within [where poll = never_poll and os = "[]" and r = r and c = "()", OF np this] False show ?thesis
      by (auto simp: origins_for_range_def origins_for_range_checked_def)
  qed
qed

lemma identity_projection:
  assumes "map_ok doc" and "mapping_is_identity doc r" and "range_start r \<le> range_end r"
  shows "\<exists>seg \<in> set (source_map doc). mapping seg = Identity
    \<and> range_start (output_range seg) \<le> range_start r \<and> range_end r \<le> range_end (output_range seg)
    \<and> origins_for_range doc r = Inr [\<lparr>origin_source_id = origin_source_id (segment_origin seg),
        origin_range =
          \<lparr>range_start = range_start (origin_range (segment_origin seg)) + (range_start r - range_start (output_range seg)),
           range_end = range_start (origin_range (segment_origin seg)) + (range_end r - range_start (output_range seg))\<rparr>\<rparr>]"
proof -
  let ?n = "partition_point (\<lambda>seg. range_end (output_range seg) \<le> range_start r) (source_map doc)"
  define seg where "seg = source_map doc ! ?n"
  have ne: "\<not> range_is_empty r" and n: "?n < length (source_map doc)"
    and seg: "mapping seg = Identity" "range_start (output_range seg) \<le> range_start r"
      "range_end r \<le> range_end (output_range seg)"
    using assms(2) by (auto simp: mapping_is_identity_def Let_def seg_def split: if_splits)
  have lt: "range_start r < range_end r" using ne assms(3) by (simp add: range_is_empty_def)
  have mem: "seg \<in> set (source_map doc)" using n by (simp add: seg_def)
  then have b: "segment_bounded seg" using assms(1) by (simp add: map_ok_def list_all_iff)
  let ?o = "range_start (origin_range (segment_origin seg))"
  let ?p = "\<lparr>range_start = ?o + (range_start r - range_start (output_range seg)),
             range_end = ?o + (range_end r - range_start (output_range seg))\<rparr>"
  have "?o + (range_end r - range_start (output_range seg)) \<le> u32_max"
    using b seg lt by (auto simp: segment_bounded_def segment_ok_def range_len_def)
  then have p: "project_range seg (range_start r) (range_end r) = (Inr ?p :: unit failure + TextRange)"
    using seg lt by (simp add: project_range_def Let_def checked_range_ok)
  have drop: "drop ?n (source_map doc) = seg # drop (Suc ?n) (source_map doc)"
    using n by (simp add: Cons_nth_drop_Suc seg_def)
  have stop: "origins_loop never_poll r (drop (Suc ?n) (source_map doc)) os () = Inr (os, ())" for os
  proof (cases "drop (Suc ?n) (source_map doc)")
    case (Cons next_seg rest)
    then have "Suc ?n < length (source_map doc)" by (metis drop_all linorder_not_less list.distinct(1))
    moreover from this Cons have "next_seg = source_map doc ! Suc ?n"
      by (metis Cons_nth_drop_Suc list.inject)
    moreover have "sorted_wrt (\<lambda>a b. range_end (output_range a) \<le> range_start (output_range b)) (source_map doc)"
      using assms(1) by (simp add: map_ok_def)
    ultimately have "range_end (output_range seg) \<le> range_start (output_range next_seg)"
      unfolding seg_def using sorted_wrt_nth_less [of _ "source_map doc" ?n "Suc ?n"] by blast
    with seg(3) Cons show ?thesis by (simp add: never_poll_def)
  qed simp
  have "max (range_start (output_range seg)) (range_start r) = range_start r"
    "min (range_end (output_range seg)) (range_end r) = range_end r" using seg by simp_all
  then have "origins_for_range doc r =
      Inr [\<lparr>origin_source_id = origin_source_id (segment_origin seg), origin_range = ?p\<rparr>]"
    using ne drop p stop lt seg(2) unfolding origins_for_range_def origins_for_range_checked_def
    by (simp add: Let_def never_poll_def push_origin_def)
  with mem seg show ?thesis by blast
qed

section \<open>Properties\<close>

text \<open>C15. A built map is publishable: whatever pieces were accepted by a new builder, unchanged
  pieces having the length of their origin, the result stays within the byte and segment
  limits, and finishing without cancellation succeeds with the concatenated text and a
  map whose segments follow one another from its start to its end.\<close>

theorem built_map_publishable:
  assumes "append_all ps (SourceMapBuilder_new bytes segs) = Inr b" and "\<forall>p \<in> set ps. piece_ok p"
  shows "length (builder_source b) \<le> unat bytes \<and> length (segments b) \<le> unat segs
    \<and> (\<exists>doc cp'. finish_cancellable NeverCancel b dirs notices cp = Inr (doc, cp')
         \<and> document_source doc = concat (map piece_text ps)
         \<and> segments_tile 0 (source_map doc) (length (document_source doc)))"
proof -
  have b: "builder_ok b" "builder_source b = concat (map piece_text ps)"
    "builder_max_bytes b = unat bytes" "builder_max_segments b = unat segs"
    using append_all_ok [OF assms(1) builder_new_ok assms(2)] by (simp_all add: SourceMapBuilder_new_def)
  have "\<exists>doc cp'. finish_cancellable NeverCancel b dirs notices cp = Inr (doc, cp')
      \<and> doc = \<lparr>document_source = builder_source b, source_map = segments b,
               document_directives = dirs, document_notices = notices\<rparr>"
    using finish_cases [OF b(1), of NeverCancel dirs notices cp]
    by (auto simp: NeverCancel_def split: sum.splits prod.splits)
  with b show ?thesis by (auto simp: builder_ok_def)
qed

theorem built_map_publishable_witness:
  "\<exists>b doc cp'. append_all [\<lparr>piece_text = ''ab'', piece_source_id = None,
       piece_range = \<lparr>range_start = 3, range_end = 5\<rparr>, piece_mapping = Identity\<rparr>] (SourceMapBuilder_new 9 1) = Inr b
     \<and> finish_cancellable NeverCancel b [] [] (checkpoint_new 0) = Inr (doc, cp') \<and> document_source doc = ''ab''"
proof -
  let ?ps = "[\<lparr>piece_text = ''ab'', piece_source_id = None,
       piece_range = \<lparr>range_start = 3, range_end = 5\<rparr>, piece_mapping = Identity\<rparr>]"
  obtain b where b: "append_all ?ps (SourceMapBuilder_new 9 1) = Inr b"
    by (simp add: builder_append_def SourceMapBuilder_new_def checked_range_def text_range_def
        TextSize_new_def TextRange_new_def usize_max_def u32_max_def Let_def)
  have "\<forall>p \<in> set ?ps. piece_ok p" by (simp add: piece_ok_def range_len_def)
  from built_map_publishable [OF b this, of "[]" "[]" "checkpoint_new 0"] b show ?thesis by auto
qed

text \<open>C16. Projection is safe: on a map of bounded, ordered segments every ordered range projects
  without a panic, and each byte of each projected range lies in the origin of some
  segment with the same source.\<close>

theorem projection_within_origins:
  assumes "map_ok doc" and "range_start r \<le> range_end r"
  shows "\<exists>os. origins_for_range doc r = Inr os \<and> (\<forall>x \<in> set os. origin_within (source_map doc) x)"
  by (rule origins_for_range_within [OF assms])

theorem projection_within_origins_witness:
  "\<exists>os. origins_for_range
      \<lparr>document_source = ''abc'',
       source_map = [\<lparr>output_range = \<lparr>range_start = 0, range_end = 3\<rparr>,
                      segment_origin = \<lparr>origin_source_id = None, origin_range = \<lparr>range_start = 7, range_end = 10\<rparr>\<rparr>,
                      mapping = Identity\<rparr>],
       document_directives = [], document_notices = []\<rparr> \<lparr>range_start = 3, range_end = 3\<rparr> = Inr os"
proof -
  let ?doc = "\<lparr>document_source = ''abc'',
       source_map = [\<lparr>output_range = \<lparr>range_start = 0, range_end = 3\<rparr>,
                      segment_origin = \<lparr>origin_source_id = None, origin_range = \<lparr>range_start = 7, range_end = 10\<rparr>\<rparr>,
                      mapping = Identity\<rparr>],
       document_directives = [], document_notices = []\<rparr>"
  have "map_ok ?doc"
    by (simp add: map_ok_def segment_bounded_def segment_ok_def range_len_def u32_max_def)
  from projection_within_origins [OF this, of "\<lparr>range_start = 3, range_end = 3\<rparr>"] show ?thesis by auto
qed

text \<open>An unchanged range projects exactly: where the mapping of a range is reported as the
  identity, its only origin is the range of the same length at the same distance from the
  start of the unchanged segment that contains it.\<close>

theorem identity_projection_exact:
  assumes "map_ok doc" and "mapping_is_identity doc r" and "range_start r \<le> range_end r"
  shows "\<exists>seg \<in> set (source_map doc). mapping seg = Identity
    \<and> range_start (output_range seg) \<le> range_start r \<and> range_end r \<le> range_end (output_range seg)
    \<and> origins_for_range doc r = Inr [\<lparr>origin_source_id = origin_source_id (segment_origin seg),
        origin_range =
          \<lparr>range_start = range_start (origin_range (segment_origin seg)) + (range_start r - range_start (output_range seg)),
           range_end = range_start (origin_range (segment_origin seg)) + (range_end r - range_start (output_range seg))\<rparr>\<rparr>]"
  by (rule identity_projection [OF assms])

theorem identity_projection_exact_witness:
  "origins_for_range
      \<lparr>document_source = ''abc'',
       source_map = [\<lparr>output_range = \<lparr>range_start = 0, range_end = 3\<rparr>,
                      segment_origin = \<lparr>origin_source_id = None, origin_range = \<lparr>range_start = 7, range_end = 10\<rparr>\<rparr>,
                      mapping = Identity\<rparr>],
       document_directives = [], document_notices = []\<rparr> \<lparr>range_start = 1, range_end = 3\<rparr>
   = Inr [\<lparr>origin_source_id = None, origin_range = \<lparr>range_start = 8, range_end = 10\<rparr>\<rparr>]"
proof -
  let ?doc = "\<lparr>document_source = ''abc'',
       source_map = [\<lparr>output_range = \<lparr>range_start = 0, range_end = 3\<rparr>,
                      segment_origin = \<lparr>origin_source_id = None, origin_range = \<lparr>range_start = 7, range_end = 10\<rparr>\<rparr>,
                      mapping = Identity\<rparr>],
       document_directives = [], document_notices = []\<rparr>"
  have "map_ok ?doc"
    by (simp add: map_ok_def segment_bounded_def segment_ok_def range_len_def u32_max_def)
  moreover have "mapping_is_identity ?doc \<lparr>range_start = 1, range_end = 3\<rparr>"
    by (simp add: mapping_is_identity_def partition_point_def range_is_empty_def)
  ultimately show ?thesis
    using identity_projection_exact [of ?doc "\<lparr>range_start = 1, range_end = 3\<rparr>"] by simp
qed

end
