(* ===== verification/Expansion.thy ===== *)
theory Expansion
  imports Attributes Delimiters
begin

text \<open>
  \<open>preprocessor/expansion.rs\<close>: the counters, the attribute state and the open delimiters
  of one expansion, and the frame of an include.
\<close>

datatype ExpansionLimit = IncludesLimit | NodesLimit

record ExpansionState =
  include_count :: u64
  node_count :: u64
  sequential :: SequentialAttributeState
  attribute_delimiters :: "str list"
  attribute_position :: bool

definition ExpansionState_new ::
    "ExternalAttributes \<Rightarrow> AttributeExpansionLimits \<Rightarrow> ExpansionState" where
  "ExpansionState_new external lim =
     \<lparr>include_count = 0, node_count = 0, sequential = with_locked_values external lim,
      attribute_delimiters = [], attribute_position = True\<rparr>"

text \<open>The counters are \<open>u64\<close>; an increment past the largest value is an overflow panic.\<close>

definition checked_increment :: "u64 \<Rightarrow> 'e failure + u64" where
  "checked_increment n = (if n = - 1 then Inl Panic else Inr (n + 1))"

definition register_include :: "u32 \<Rightarrow> ExpansionState \<Rightarrow> ExpansionLimit failure + ExpansionState" where
  "register_include maximum st =
     and_then (checked_increment (include_count st)) (\<lambda>n.
       if ucast maximum < n then Inl (Err IncludesLimit) else Inr (st\<lparr>include_count := n\<rparr>))"

definition register_node :: "u32 \<Rightarrow> ExpansionState \<Rightarrow> ExpansionLimit failure + ExpansionState" where
  "register_node maximum st =
     and_then (checked_increment (node_count st)) (\<lambda>n.
       if ucast maximum < n then Inl (Err NodesLimit) else Inr (st\<lparr>node_count := n\<rparr>))"

definition expansion_attributes :: "ExpansionState \<Rightarrow> (str \<rightharpoonup> str)" where
  "expansion_attributes st = attribute_values (sequential st)"

definition expansion_attribute_limits :: "ExpansionState \<Rightarrow> AttributeExpansionLimits" where
  "expansion_attribute_limits st = attribute_limits (sequential st)"

definition observe_delimiter :: "str \<Rightarrow> ExpansionState \<Rightarrow> bool \<times> ExpansionState" where
  "observe_delimiter content st =
     (if delimiter_spec content = None then (False, st)
      else
        let open = attribute_delimiters st in
        (True,
         if open \<noteq> [] \<and> last open = content
         then st\<lparr>attribute_delimiters := butlast open\<rparr>
         else st\<lparr>attribute_delimiters := open @ [content]\<rparr>))"

definition accepts_attribute :: "bool \<Rightarrow> ExpansionState \<Rightarrow> bool" where
  "accepts_attribute delimiter st \<longleftrightarrow>
     \<not> delimiter \<and> attribute_delimiters st = [] \<and> attribute_position st"

text \<open>The result of the application is dropped; only a panic would stop the run.\<close>

definition apply_attribute ::
    "DocumentAttributeOccurrence \<Rightarrow> ExpansionState \<Rightarrow> 'e failure + ExpansionState" where
  "apply_attribute occ st =
     (let (r, attrs) = apply_occurrence occ (sequential st) in
      if r = Inl Panic then Inl Panic else Inr (st\<lparr>sequential := attrs\<rparr>))"

definition finish_line :: "bool \<Rightarrow> str \<Rightarrow> ExpansionState \<Rightarrow> ExpansionState" where
  "finish_line document_attribute content st =
     st\<lparr>attribute_position :=
          document_attribute \<or> trim_matches space_or_tab content = [] \<or> starts_with content ''//''\<rparr>"

definition finish_directive_output :: "ExpansionState \<Rightarrow> ExpansionState" where
  "finish_directive_output st = st\<lparr>attribute_position := False\<rparr>"

section \<open>Include frames\<close>

record IncludeFrame =
  frame_source_id :: "str option"
  frame_depth :: u32
  frame_base_uri :: "str option"
  active_targets :: "str list"

definition frame_root :: "str option \<Rightarrow> str option \<Rightarrow> IncludeFrame" where
  "frame_root sid base =
     \<lparr>frame_source_id = sid, frame_depth = 0, frame_base_uri = base, active_targets = []\<rparr>"

definition frame_child :: "str \<Rightarrow> str \<Rightarrow> str option \<Rightarrow> IncludeFrame \<Rightarrow> IncludeFrame" where
  "frame_child tgt sid base f =
     \<lparr>frame_source_id = Some sid, frame_depth = saturating_add (frame_depth f) 1,
      frame_base_uri = base, active_targets = active_targets f @ [tgt]\<rparr>"

definition contains_target :: "str \<Rightarrow> IncludeFrame \<Rightarrow> bool" where
  "contains_target tgt f \<longleftrightarrow> list_ex (\<lambda>active. active = tgt) (active_targets f)"

section \<open>The counters keep the contract of a bounded counter\<close>

lemma checked_increment_cases:
  assumes "unat n < unat maximum"
  shows "\<exists>m. checked_increment n = Inr m \<and> unat m = Suc (unat n) \<and> \<not> ucast (maximum :: u32) < m"
proof -
  have "unat maximum < 2 ^ 32" using unsigned_less [of maximum] by simp
  with assms have lt: "unat n + 1 < 2 ^ 64" by simp
  then have ne: "n \<noteq> - 1" by (auto simp: unsigned_minus_1_eq_mask mask_eq_exp_minus_1)
  have "unat (n + 1) = unat n + 1" using lt by (simp add: unat_word_ariths)
  moreover have "unat (ucast maximum :: u64) = unat maximum"
    by (simp add: unsigned_ucast_eq take_bit_nat_eq_self less_trans [OF unsigned_less])
  ultimately show ?thesis
    using ne assms by (simp add: checked_increment_def word_less_nat_alt)
qed

lemma checked_increment_full:
  assumes "unat (maximum :: u32) \<le> unat n" and "checked_increment n = Inr m"
  shows "ucast maximum < m"
proof -
  have "m = n + 1" "n \<noteq> - 1" using assms(2) by (auto simp: checked_increment_def split: if_splits)
  then have "unat m = unat n + 1"
    by (metis Suc_eq_plus1 add.commute unatSuc add_eq_0_iff add.inverse_inverse)
  moreover have "unat (ucast maximum :: u64) = unat maximum"
    by (simp add: unsigned_ucast_eq take_bit_nat_eq_self less_trans [OF unsigned_less])
  ultimately show ?thesis using assms(1) by (simp add: word_less_nat_alt)
qed

interpretation include_counter:
  bounded_counter "register_include maximum" "\<lambda>st. unat (include_count st)" "\<lambda>_. unat maximum" for maximum
proof unfold_locales
  fix s :: ExpansionState
  assume "unat (include_count s) < unat maximum"
  from checked_increment_cases [OF this] obtain m where
    "checked_increment (include_count s) = (Inr m :: ExpansionLimit failure + u64)"
    "unat m = Suc (unat (include_count s))" "\<not> ucast maximum < m" by blast
  then show "\<exists>s'. register_include maximum s = Inr s' \<and> unat (include_count s') = Suc (unat (include_count s))
      \<and> unat maximum = unat maximum"
    by (simp add: register_include_def)
next
  fix s :: ExpansionState
  assume full: "unat maximum \<le> unat (include_count s)"
  show "\<exists>e. register_include maximum s = Inl e"
  proof (cases "checked_increment (include_count s) :: ExpansionLimit failure + u64")
    case (Inr m)
    with checked_increment_full [OF full Inr] show ?thesis by (simp add: register_include_def)
  qed (simp add: register_include_def)
qed

interpretation node_counter:
  bounded_counter "register_node maximum" "\<lambda>st. unat (node_count st)" "\<lambda>_. unat maximum" for maximum
proof unfold_locales
  fix s :: ExpansionState
  assume "unat (node_count s) < unat maximum"
  from checked_increment_cases [OF this] obtain m where
    "checked_increment (node_count s) = (Inr m :: ExpansionLimit failure + u64)"
    "unat m = Suc (unat (node_count s))" "\<not> ucast maximum < m" by blast
  then show "\<exists>s'. register_node maximum s = Inr s' \<and> unat (node_count s') = Suc (unat (node_count s))
      \<and> unat maximum = unat maximum"
    by (simp add: register_node_def)
next
  fix s :: ExpansionState
  assume full: "unat maximum \<le> unat (node_count s)"
  show "\<exists>e. register_node maximum s = Inl e"
  proof (cases "checked_increment (node_count s) :: ExpansionLimit failure + u64")
    case (Inr m)
    with checked_increment_full [OF full Inr] show ?thesis by (simp add: register_node_def)
  qed (simp add: register_node_def)
qed

section \<open>Delimited blocks protect their lines\<close>

lemma observe_delimiter_frame:
  "include_count (snd (observe_delimiter c st)) = include_count st"
  "node_count (snd (observe_delimiter c st)) = node_count st"
  "sequential (snd (observe_delimiter c st)) = sequential st"
  "attribute_position (snd (observe_delimiter c st)) = attribute_position st"
  by (simp_all add: observe_delimiter_def Let_def)

text \<open>Lines observed one after the other.\<close>

primrec observe_all :: "str list \<Rightarrow> ExpansionState \<Rightarrow> ExpansionState" where
  "observe_all [] st = st"
| "observe_all (c # cs) st = observe_all cs (snd (observe_delimiter c st))"

lemma observe_keeps_outer:
  "attribute_delimiters st = outer # inner \<Longrightarrow> outer \<notin> set cs \<Longrightarrow>
   \<exists>rest. attribute_delimiters (observe_all cs st) = outer # rest"
proof (induction cs arbitrary: st inner)
  case (Cons c cs)
  have "\<exists>rest. attribute_delimiters (snd (observe_delimiter c st)) = outer # rest"
    using Cons.prems by (cases inner) (auto simp: observe_delimiter_def Let_def)
  with Cons.IH Cons.prems(2) show ?case by fastforce
qed simp

section \<open>Properties\<close>

text \<open>A delimited block protects its lines: after an opening delimiter at the top level,
  no line up to the same delimiter is read as an attribute line, whatever other
  delimiters occur between.\<close>

theorem attributes_ignored_in_blocks:
  assumes "delimiter_spec opener \<noteq> None" and "attribute_delimiters st = []" and "opener \<notin> set cs"
  shows "\<not> accepts_attribute d (observe_all cs (snd (observe_delimiter opener st)))"
proof -
  have "attribute_delimiters (snd (observe_delimiter opener st)) = opener # []"
    using assms(1,2) by (simp add: observe_delimiter_def)
  from observe_keeps_outer [OF this assms(3)] show ?thesis by (auto simp: accepts_attribute_def)
qed

theorem attributes_ignored_in_blocks_witness:
  "\<not> accepts_attribute False
     (observe_all ['':a: b'', ''===='', ''x'']
       (snd (observe_delimiter ''----'' (ExpansionState_new [] \<lparr>max_depth = 1, max_bytes = 1\<rparr>))))"
  by (rule attributes_ignored_in_blocks)
     (simp_all add: delimiter_spec_def is_table_delimiter_def raw_delimiter_separator_def repeated_def
       ExpansionState_new_def str_eval)

text \<open>The include counter is exact: from a count within the limit, registering an include
  succeeds while the count is below the limit, advances it by one and never passes it.\<close>

theorem include_count_bounded:
  "(case register_include maximum st of
      Inr st' \<Rightarrow> unat (include_count st) < unat maximum \<and> unat (include_count st') = Suc (unat (include_count st))
    | Inl _ \<Rightarrow> unat maximum \<le> unat (include_count st))"
  using include_counter.tick_Inr [of maximum st] include_counter.tick_ok [of st maximum]
  by (cases "register_include maximum st") (auto simp: not_le [symmetric])

end
