(* ===== verification/Includes.thy ===== *)
theory Includes
  imports Directives
begin

text \<open>
  \<open>preprocessor/include.rs\<close>: discovery of include directives, their attribute list, the
  selection and transformation of lines, and the resolution and validation of targets.
  The \<open>BTreeMap\<close> of line ranges is its list of entries in key order; the map of include
  attributes is only looked up and is a partial function.
\<close>

section \<open>Discovery\<close>

record IncludeRequest =
  request_range :: TextRange
  request_target_range :: TextRange
  include_target :: str
  include_attributes :: str

definition line_end_chars :: "char list" where
  "line_end_chars = [carriage_return, line_feed]"

definition line_content_text :: "str \<Rightarrow> str" where
  "line_content_text l = trim_end_matches line_end_chars l"

fun discover_loop ::
    "str list \<Rightarrow> nat \<Rightarrow> IncludeRequest list \<Rightarrow> PositionError + IncludeRequest list" where
  "discover_loop [] offset requests = Inr requests"
| "discover_loop (l # ls) offset requests =
     (let end = offset + length l in
      case recognize (line_content_text l) of
        IncludeDirective i \<Rightarrow>
          and_then (text_range offset end) (\<lambda>r.
          and_then (text_range (offset + target_start i) (offset + target_end i)) (\<lambda>t.
            discover_loop ls end
              (requests @ [\<lparr>request_range = r, request_target_range = t, include_target = target i,
                            include_attributes = parsed_attributes i\<rparr>])))
      | _ \<Rightarrow> discover_loop ls end requests)"

definition discover_includes :: "str \<Rightarrow> PositionError + IncludeRequest list" where
  "discover_includes source =
     and_then (TextSize_new (length source)) (\<lambda>_. discover_loop (split_inclusive_lf source) 0 [])"

section \<open>The attribute list\<close>

text \<open>The fields between commas outside quotes; \<open>None\<close> when a quote stays open.\<close>

fun split_fields :: "str \<Rightarrow> char option \<Rightarrow> str \<Rightarrow> str list option" where
  "split_fields [] quote field = (if quote \<noteq> None then None else Some [field])"
| "split_fields (b # s) quote field =
     (case quote of
        Some active \<Rightarrow> split_fields s (if b = active then None else quote) (field @ [b])
      | None \<Rightarrow>
          if b = quote_char \<or> b = double_quote then split_fields s (Some b) (field @ [b])
          else if b = CHR '','' then map_option (\<lambda>fs. field # fs) (split_fields s None [])
          else split_fields s None (field @ [b]))"

definition strip_quotes :: "char \<Rightarrow> str \<Rightarrow> str option" where
  "strip_quotes q v =
     (case strip_prefix v [q] of None \<Rightarrow> None | Some rest \<Rightarrow> strip_suffix rest [q])"

definition parse_field :: "str \<Rightarrow> str + (str \<times> str) option" where
  "parse_field raw =
     (let field = trim raw in
      if field = [] then Inr None
      else (case split_once_char (CHR ''='') field of
          None \<Rightarrow> Inr (Some (field, []))
        | Some (name, v) \<Rightarrow>
            let name = trim name; v = trim v;
                quoted = (case strip_quotes quote_char v of
                            Some q \<Rightarrow> Some q | None \<Rightarrow> strip_quotes double_quote v)
            in if name = [] then Inl ''include attribute name is empty''
               else if (starts_with v [quote_char] \<or> starts_with v [double_quote]
                        \<or> ends_with v [quote_char] \<or> ends_with v [double_quote]) \<and> quoted = None
               then Inl ''include attribute quote is malformed''
               else Inr (Some (name, case quoted of Some q \<Rightarrow> q | None \<Rightarrow> v))))"

fun parse_fields :: "str list \<Rightarrow> (str \<rightharpoonup> str) \<Rightarrow> str + (str \<rightharpoonup> str)" where
  "parse_fields [] attrs = Inr attrs"
| "parse_fields (f # fs) attrs =
     and_then (parse_field f) (\<lambda>entry.
       parse_fields fs (case entry of None \<Rightarrow> attrs | Some (name, v) \<Rightarrow> attrs(name \<mapsto> v)))"

definition parse_attributes :: "str \<Rightarrow> str + (str \<rightharpoonup> str)" where
  "parse_attributes v =
     (case split_fields v None [] of
        None \<Rightarrow> Inl ''include attribute list has an unclosed quote''
      | Some parts \<Rightarrow> parse_fields parts Map.empty)"

definition request_is_optional :: "IncludeRequest \<Rightarrow> bool" where
  "request_is_optional r =
     (case parse_attributes (include_attributes r) of
        Inr attrs \<Rightarrow> attrs ''optional'' \<noteq> None | Inl _ \<Rightarrow> False)"

section \<open>Line selections\<close>

record LineSelection =
  ranges :: "(nat \<times> nat) list"

definition selection_contains :: "LineSelection \<Rightarrow> nat \<Rightarrow> bool" where
  "selection_contains sel number =
     (let index = partition_point (\<lambda>(_, range_end). range_end < number) (ranges sel) in
      if index < length (ranges sel)
      then (case ranges sel ! index of (a, b) \<Rightarrow> a \<le> number \<and> number \<le> b)
      else False)"

text \<open>\<open>entry(k).and_modify(f).or_insert(v)\<close> on the ordered entries.\<close>

fun entry_or_insert :: "(nat \<Rightarrow> nat) \<Rightarrow> nat \<Rightarrow> nat \<Rightarrow> (nat \<times> nat) list \<Rightarrow> (nat \<times> nat) list" where
  "entry_or_insert f k v [] = [(k, v)]"
| "entry_or_insert f k v ((a, b) # rest) =
     (if k < a then (k, v) # (a, b) # rest
      else if k = a then (a, f b) # rest
      else (a, b) # entry_or_insert f k v rest)"

definition selection_item :: "str \<Rightarrow> (nat \<times> nat) list \<Rightarrow> (nat \<times> nat) list" where
  "selection_item item rs =
     (let item = trim item in
      case split_once_str ''..'' item of
        Some (start, end) \<Rightarrow>
          (case (parse_u128 start, parse_u128 end) of
             (Some a, Some b) \<Rightarrow>
               if a \<le> b \<and> a \<le> usize_max
               then (let e = min b usize_max in entry_or_insert (\<lambda>previous. max previous e) a e rs)
               else rs
           | _ \<Rightarrow> rs)
      | None \<Rightarrow>
          (case parse_u128 item of
             Some n \<Rightarrow> if n \<le> usize_max then entry_or_insert (\<lambda>previous. previous) n n rs else rs
           | None \<Rightarrow> rs))"

fun selection_items ::
    "cancel_host \<Rightarrow> str list \<Rightarrow> (nat \<times> nat) list \<Rightarrow> CancellationCheckpoint
     \<Rightarrow> TextRange + ((nat \<times> nat) list \<times> CancellationCheckpoint)" where
  "selection_items host [] rs cp = Inr (rs, cp)"
| "selection_items host (item # items) rs cp =
     (let (cancelled, cp) = checkpoint_is_cancelled host cp in
      if cancelled then Inl zero_range
      else selection_items host items (selection_item item rs) cp)"

definition push_normalized :: "nat \<times> nat \<Rightarrow> (nat \<times> nat) list \<Rightarrow> (nat \<times> nat) list" where
  "push_normalized r acc =
     (case r of (start, end) \<Rightarrow>
        if acc \<noteq> [] \<and> start \<le> min (snd (last acc) + 1) usize_max
        then butlast acc @ [(fst (last acc), max (snd (last acc)) end)]
        else acc @ [(start, end)])"

fun normalize_ranges ::
    "cancel_host \<Rightarrow> (nat \<times> nat) list \<Rightarrow> (nat \<times> nat) list \<Rightarrow> CancellationCheckpoint
     \<Rightarrow> TextRange + ((nat \<times> nat) list \<times> CancellationCheckpoint)" where
  "normalize_ranges host [] acc cp = Inr (acc, cp)"
| "normalize_ranges host (r # rs) acc cp =
     (let (cancelled, cp) = checkpoint_is_cancelled host cp in
      if cancelled then Inl zero_range
      else normalize_ranges host rs (push_normalized r acc) cp)"

text \<open>The number of host queries made is returned with the result.\<close>

definition parse_line_selection ::
    "cancel_host \<Rightarrow> str \<Rightarrow> nat \<Rightarrow> TextRange + (LineSelection \<times> nat)" where
  "parse_line_selection host v q =
     and_then (selection_items host (split_chars '';,'' v) [] (checkpoint_new q)) (\<lambda>(rs, cp).
     and_then (normalize_ranges host rs [] cp) (\<lambda>(normalized, cp).
       Inr (\<lparr>ranges = normalized\<rparr>, queries cp)))"

section \<open>Selecting lines\<close>

record SelectedLine =
  line_text_of :: str
  selected_range :: TextRange
  selected_mapping :: SourceMapping

definition tag_marker :: "str \<Rightarrow> str \<Rightarrow> str option" where
  "tag_marker v marker =
     (case find_str marker v of
        None \<Rightarrow> None
      | Some offset \<Rightarrow> strip_suffix (drop (offset + length marker) v) ''[]'')"

text \<open>\<open>rposition\<close> and \<open>remove\<close>: the last occurrence goes.\<close>

definition remove_last :: "str \<Rightarrow> str list \<Rightarrow> str list" where
  "remove_last tag tags = rev (remove1 tag (rev tags))"

definition requested_tags :: "(str \<rightharpoonup> str) \<Rightarrow> str list" where
  "requested_tags attrs =
     filter (\<lambda>t. t \<noteq> [])
       (map trim (concat (map (split_chars '';,'')
         ((case attrs ''tag'' of None \<Rightarrow> [] | Some v \<Rightarrow> [v])
          @ (case attrs ''tags'' of None \<Rightarrow> [] | Some v \<Rightarrow> [v])))))"

fun select_loop ::
    "cancel_host \<Rightarrow> str list \<Rightarrow> LineSelection option \<Rightarrow> nat \<Rightarrow> nat \<Rightarrow> str list \<Rightarrow> str list
     \<Rightarrow> SelectedLine list \<Rightarrow> CancellationCheckpoint
     \<Rightarrow> TextRange failure + (SelectedLine list \<times> nat)" where
  "select_loop host tags lines index offset active [] selected cp = Inr (selected, queries cp)"
| "select_loop host tags lines index offset active (l # ls) selected cp =
     and_then (checked_range offset (offset + length l)) (\<lambda>line_range.
     let (cancelled, cp) = checkpoint_is_cancelled host cp in
     if cancelled then Inl (Err line_range)
     else
       let content = line_content_text l;
           next_offset = offset + length l
       in case tag_marker content ''tag::'' of
            Some tag \<Rightarrow>
              select_loop host tags lines (Suc index) next_offset (active @ [tag]) ls selected cp
          | None \<Rightarrow>
              (case tag_marker content ''end::'' of
                 Some tag \<Rightarrow>
                   select_loop host tags lines (Suc index) next_offset (remove_last tag active) ls
                     selected cp
               | None \<Rightarrow>
                   let tag_selected = (tags = [] \<or> list_ex (\<lambda>t. List.member tags t) active);
                       line_selected = (case lines of None \<Rightarrow> True
                                        | Some sel \<Rightarrow> selection_contains sel (index + 1))
                   in select_loop host tags lines (Suc index) next_offset active ls
                        (if tag_selected \<and> line_selected
                         then selected @ [\<lparr>line_text_of = l, selected_range = line_range,
                                           selected_mapping = Identity\<rparr>]
                         else selected) cp))"

definition select_lines ::
    "cancel_host \<Rightarrow> str \<Rightarrow> (str \<rightharpoonup> str) \<Rightarrow> nat
     \<Rightarrow> TextRange failure + (SelectedLine list \<times> nat)" where
  "select_lines host source attrs q =
     and_then
       (case attrs ''lines'' of
          None \<Rightarrow> Inr (None, q)
        | Some v \<Rightarrow>
            and_then (map_err Err (parse_line_selection host v q)) (\<lambda>(sel, q). Inr (Some sel, q)))
       (\<lambda>(lines, q).
         select_loop host (requested_tags attrs) lines 0 0 [] (split_inclusive_lf source) []
           (checkpoint_new q))"

section \<open>Transforming lines\<close>

datatype TransformFailure = TransformCancelled | TransformByteLimit

definition apply_leveloffset :: "str \<Rightarrow> int \<Rightarrow> str" where
  "apply_leveloffset l offset =
     (let marker_count = length (takeWhile (\<lambda>b. b = CHR ''='') l) in
      if marker_count = 0 \<or> \<not> (marker_count < length l \<and> l ! marker_count = CHR '' '') then l
      else
        let capped = min (int marker_count) 2147483647;
            shifted = max (- 2147483648) (min 2147483647 (capped + offset));
            adjusted = nat (max 1 (min 6 shifted))
        in replicate adjusted (CHR ''='') @ drop marker_count l)"

definition integer_attribute :: "(str \<rightharpoonup> str) \<Rightarrow> str \<Rightarrow> int" where
  "integer_attribute attrs name =
     (case attrs name of
        None \<Rightarrow> 0
      | Some v \<Rightarrow> (case parse_i32 v of None \<Rightarrow> 0 | Some i \<Rightarrow> i))"

definition remove_indent :: "nat \<Rightarrow> str \<Rightarrow> str" where
  "remove_indent remove l = drop (min (length (takeWhile (\<lambda>b. b = CHR '' '') l)) remove) l"

definition transform_line ::
    "int \<Rightarrow> int \<Rightarrow> nat \<Rightarrow> nat \<Rightarrow> SelectedLine \<Rightarrow> TransformFailure + (SelectedLine \<times> nat)" where
  "transform_line indent leveloffset remaining padded l =
     (let original = line_text_of l;
          text = (if leveloffset \<noteq> 0 then apply_leveloffset original leveloffset else original);
          finish = (\<lambda>t. l\<lparr>line_text_of := t,
                          selected_mapping := if t \<noteq> original then WholeOrigin else selected_mapping l\<rparr>)
      in if 0 < indent then
           let padding = nat indent;
               padded = min (padded + padding) usize_max
           in if remaining < padded then Inl TransformByteLimit
              else Inr (finish (replicate padding (CHR '' '') @ text), padded)
         else if indent < 0 then Inr (finish (remove_indent (nat (- indent)) text), padded)
         else Inr (finish text, padded))"

fun transform_loop ::
    "cancel_host \<Rightarrow> int \<Rightarrow> int \<Rightarrow> nat \<Rightarrow> nat \<Rightarrow> SelectedLine list \<Rightarrow> SelectedLine list
     \<Rightarrow> CancellationCheckpoint \<Rightarrow> TransformFailure + (SelectedLine list \<times> nat)" where
  "transform_loop host indent leveloffset remaining padded [] transformed cp =
     Inr (transformed, queries cp)"
| "transform_loop host indent leveloffset remaining padded (l # ls) transformed cp =
     (let (cancelled, cp) = checkpoint_is_cancelled host cp in
      if cancelled then Inl TransformCancelled
      else and_then (transform_line indent leveloffset remaining padded l) (\<lambda>(l, padded).
        transform_loop host indent leveloffset remaining padded ls (transformed @ [l]) cp))"

definition transform_lines ::
    "cancel_host \<Rightarrow> SelectedLine list \<Rightarrow> (str \<rightharpoonup> str) \<Rightarrow> nat \<Rightarrow> nat
     \<Rightarrow> TransformFailure + (SelectedLine list \<times> nat)" where
  "transform_lines host lines attrs remaining q =
     transform_loop host (integer_attribute attrs ''indent'') (integer_attribute attrs ''leveloffset'')
       remaining 0 lines [] (checkpoint_new q)"

section \<open>Targets\<close>

definition validate_target :: "str \<Rightarrow> PreprocessOptions \<Rightarrow> str + unit" where
  "validate_target tgt opts =
     (if tgt = [] \<or> list_ex is_control (chars tgt) \<or> starts_with tgt ''/''
         \<or> starts_with tgt [backslash] \<or> List.member tgt backslash
         \<or> list_ex (\<lambda>seg. seg = ''..'') (split_chars ''/'' tgt)
      then Inl ''unsafe include target''
      else (case split_once_char (CHR '':'') tgt of
          Some (scheme, _) \<Rightarrow>
            if safe_mode opts = Secure \<or> \<not> List.member (allowed_schemes opts) (to_ascii_lowercase scheme)
            then Inl ''include target scheme is not allowed'' else Inr ()
        | None \<Rightarrow> Inr ()))"

fun normalize_segments :: "str list \<Rightarrow> str list \<Rightarrow> str list" where
  "normalize_segments [] stack = stack"
| "normalize_segments (seg # segs) stack =
     (if seg = [] \<or> seg = ''.'' then normalize_segments segs stack
      else if seg = ''..'' \<and> stack \<noteq> [] \<and> last stack \<noteq> ''..''
      then normalize_segments segs (butlast stack)
      else normalize_segments segs (stack @ [seg]))"

fun join_segments :: "str list \<Rightarrow> str" where
  "join_segments [] = []"
| "join_segments [seg] = seg"
| "join_segments (seg # segs) = seg @ ''/'' @ join_segments segs"

definition resolve_include_target :: "str \<Rightarrow> str option \<Rightarrow> str" where
  "resolve_include_target tgt base =
     (if List.member tgt (CHR '':'') \<or> starts_with tgt ''/'' \<or> starts_with tgt [backslash] then tgt
      else (case base of
          Some b \<Rightarrow>
            if List.member b (CHR '':'') then trim_end_matches ''/'' b @ ''/'' @ tgt
            else
              let combined = (if b \<noteq> [] then b @ ''/'' @ tgt else tgt)
              in join_segments (normalize_segments (split_chars ''/'' combined) [])
        | None \<Rightarrow> join_segments (normalize_segments (split_chars ''/'' tgt) [])))"

definition target_base :: "str \<Rightarrow> str option" where
  "target_base tgt =
     (case rsplit_once_char (CHR ''/'') tgt of
        Some (base, _) \<Rightarrow> if base = [] then None else Some base
      | None \<Rightarrow> None)"

section \<open>Line selections are sets of lines\<close>

definition covers :: "(nat \<times> nat) list \<Rightarrow> nat \<Rightarrow> bool" where
  "covers rs n \<longleftrightarrow> (\<exists>(a, b) \<in> set rs. a \<le> n \<and> n \<le> b)"

lemma covers_simps [simp]:
  "\<not> covers [] n"
  "covers ((a, b) # rs) n \<longleftrightarrow> a \<le> n \<and> n \<le> b \<or> covers rs n"
  "covers (rs @ ss) n \<longleftrightarrow> covers rs n \<or> covers ss n"
  by (auto simp: covers_def)

text \<open>The interval an item of the attribute names, when it names one.\<close>

definition item_interval :: "str \<Rightarrow> (nat \<times> nat) option" where
  "item_interval item =
     (case split_once_str ''..'' (trim item) of
        Some (start, end) \<Rightarrow>
          (case (parse_u128 start, parse_u128 end) of
             (Some a, Some b) \<Rightarrow> if a \<le> b \<and> a \<le> usize_max then Some (a, min b usize_max) else None
           | _ \<Rightarrow> None)
      | None \<Rightarrow>
          (case parse_u128 (trim item) of
             Some n \<Rightarrow> if n \<le> usize_max then Some (n, n) else None
           | None \<Rightarrow> None))"

definition item_covers :: "str \<Rightarrow> nat \<Rightarrow> bool" where
  "item_covers item n = (case item_interval item of None \<Rightarrow> False | Some (a, b) \<Rightarrow> a \<le> n \<and> n \<le> b)"

definition entries_ok :: "(nat \<times> nat) list \<Rightarrow> bool" where
  "entries_ok rs \<longleftrightarrow>
     sorted_wrt (<) (map fst rs) \<and> (\<forall>(a, b) \<in> set rs. a \<le> b \<and> b \<le> usize_max)"

lemma entry_keys:
  "fst ` set (entry_or_insert f k v rs) = insert k (fst ` set rs)"
  by (induction f k v rs rule: entry_or_insert.induct) (simp_all add: insert_commute)

lemma entry_or_insert_ok:
  assumes "k \<le> v" "v \<le> usize_max" "\<And>b. b \<le> usize_max \<Longrightarrow> b \<le> f b \<and> f b \<le> usize_max"
  shows "entries_ok rs \<Longrightarrow> entries_ok (entry_or_insert f k v rs)"
proof (induction rs)
  case Nil
  with assms show ?case by (simp add: entries_ok_def)
next
  case (Cons r rs)
  obtain a b where r: "r = (a, b)" by fastforce
  have ok: "entries_ok rs" "a \<le> b" "b \<le> usize_max" "\<forall>x \<in> fst ` set rs. a < x"
    using Cons.prems r by (auto simp: entries_ok_def)
  consider "k < a" | "k = a" | "a < k" by linarith
  then show ?case
  proof cases
    case 3
    have "\<forall>x \<in> fst ` set (entry_or_insert f k v rs). a < x"
      using entry_keys [of f k v rs] ok(4) 3 by auto
    with Cons.IH [OF ok(1)] ok 3 r show ?thesis by (auto simp: entries_ok_def)
  qed (use Cons.prems assms r ok in \<open>auto simp: entries_ok_def intro: order_trans less_trans\<close>)
qed

lemma entry_or_insert_covers:
  assumes "\<And>a b n. (a, b) \<in> set rs \<Longrightarrow> k = a \<Longrightarrow> (a \<le> n \<and> n \<le> f b) \<longleftrightarrow> (a \<le> n \<and> n \<le> b \<or> k \<le> n \<and> n \<le> v)"
  shows "covers (entry_or_insert f k v rs) n \<longleftrightarrow> covers rs n \<or> k \<le> n \<and> n \<le> v"
  using assms
proof (induction rs)
  case (Cons r rs)
  obtain a b where r: "r = (a, b)" by fastforce
  have "covers (entry_or_insert f k v rs) n \<longleftrightarrow> covers rs n \<or> k \<le> n \<and> n \<le> v"
    by (rule Cons.IH, rule Cons.prems) simp_all
  with r Cons.prems [of a b n] show ?case by auto
qed simp

lemma selection_item_step:
  assumes "entries_ok rs"
  shows "entries_ok (selection_item item rs)"
    "covers (selection_item item rs) n \<longleftrightarrow> covers rs n \<or> item_covers item n"
proof -
  have max_ok: "entries_ok (entry_or_insert (\<lambda>p. max p e) a e rs)" if "a \<le> e" "e \<le> usize_max" for a e
    using that by (intro entry_or_insert_ok assms) auto
  have keep_ok: "entries_ok (entry_or_insert (\<lambda>p. p) m m rs)" if "m \<le> usize_max" for m
    using that by (intro entry_or_insert_ok assms) auto
  have max_covers: "covers (entry_or_insert (\<lambda>p. max p e) a e rs) n \<longleftrightarrow> covers rs n \<or> a \<le> n \<and> n \<le> e" for a e
    by (rule entry_or_insert_covers) auto
  have keep_covers: "covers (entry_or_insert (\<lambda>p. p) m m rs) n \<longleftrightarrow> covers rs n \<or> m \<le> n \<and> n \<le> m" for m
  proof (rule entry_or_insert_covers)
    fix a b i
    assume "(a, b) \<in> set rs" "m = a"
    with assms have "m \<le> b" by (auto simp: entries_ok_def)
    with \<open>m = a\<close> show "(a \<le> i \<and> i \<le> b) \<longleftrightarrow> (a \<le> i \<and> i \<le> b \<or> m \<le> i \<and> i \<le> m)" by auto
  qed
  show "entries_ok (selection_item item rs)"
    using assms max_ok keep_ok
    by (auto simp: selection_item_def Let_def split: option.splits prod.splits)
  show "covers (selection_item item rs) n \<longleftrightarrow> covers rs n \<or> item_covers item n"
    using max_covers keep_covers
    by (auto simp: selection_item_def item_covers_def item_interval_def Let_def
        split: option.splits prod.splits)
qed

lemma selection_items_result:
  "selection_items host items rs cp = Inr (rs', cp') \<Longrightarrow> entries_ok rs \<Longrightarrow>
   entries_ok rs' \<and> (\<forall>n. covers rs' n \<longleftrightarrow> covers rs n \<or> (\<exists>item \<in> set items. item_covers item n))"
proof (induction items arbitrary: rs cp)
  case (Cons item items)
  obtain cp1 where "selection_items host items (selection_item item rs) cp1 = Inr (rs', cp')"
    using Cons.prems(1) by (auto split: prod.splits if_splits)
  from Cons.IH [OF this] selection_item_step [OF Cons.prems(2), of item] show ?case by auto
qed simp

text \<open>A normalized selection has gaps between its intervals.\<close>

definition separated :: "(nat \<times> nat) list \<Rightarrow> bool" where
  "separated rs \<longleftrightarrow>
     sorted_wrt (\<lambda>r s. snd r + 1 < fst s) rs \<and> (\<forall>(a, b) \<in> set rs. a \<le> b \<and> b \<le> usize_max)"

lemma push_normalized_step:
  assumes "separated acc" "a \<le> b" "b \<le> usize_max" "\<forall>r \<in> set acc. fst r \<le> a"
  shows "separated (push_normalized (a, b) acc)"
    "covers (push_normalized (a, b) acc) n \<longleftrightarrow> covers acc n \<or> a \<le> n \<and> n \<le> b"
    "\<forall>r \<in> set (push_normalized (a, b) acc). fst r \<le> a"
proof -
  have "separated (push_normalized (a, b) acc)
    \<and> (covers (push_normalized (a, b) acc) n \<longleftrightarrow> covers acc n \<or> a \<le> n \<and> n \<le> b)
    \<and> (\<forall>r \<in> set (push_normalized (a, b) acc). fst r \<le> a)"
  proof (cases acc rule: rev_cases)
    case Nil
    with assms show ?thesis by (simp add: push_normalized_def separated_def)
  next
    case (snoc init l)
    obtain c d where l: "l = (c, d)" by fastforce
    have cd: "c \<le> d" "d \<le> usize_max" "c \<le> a" using assms snoc l by (auto simp: separated_def)
    show ?thesis
    proof (cases "a \<le> min (d + 1) usize_max")
      case True
      with cd have "a \<le> d + 1" by simp
      with True cd assms snoc l show ?thesis
        by (auto simp: push_normalized_def separated_def sorted_wrt_append)
    next
      case False
      with assms(2,3) have gap: "d + 1 < a" by simp
      have "\<forall>r \<in> set init. snd r + 1 < a"
        using assms(1) snoc l cd by (fastforce simp: separated_def sorted_wrt_append)
      with False gap assms snoc l show ?thesis
        by (auto simp: push_normalized_def separated_def sorted_wrt_append)
    qed
  qed
  then show "separated (push_normalized (a, b) acc)"
    "covers (push_normalized (a, b) acc) n \<longleftrightarrow> covers acc n \<or> a \<le> n \<and> n \<le> b"
    "\<forall>r \<in> set (push_normalized (a, b) acc). fst r \<le> a"
    by auto
qed

lemma normalize_ranges_result:
  "normalize_ranges host rs acc cp = Inr (rs', cp') \<Longrightarrow> entries_ok rs \<Longrightarrow> separated acc \<Longrightarrow>
   \<forall>r \<in> set acc. \<forall>s \<in> set rs. fst r \<le> fst s \<Longrightarrow>
   separated rs' \<and> (\<forall>n. covers rs' n \<longleftrightarrow> covers acc n \<or> covers rs n)"
proof (induction rs arbitrary: acc cp)
  case (Cons r rs)
  obtain a b where r: "r = (a, b)" by fastforce
  have ab: "a \<le> b" "b \<le> usize_max" "\<forall>s \<in> set rs. a < fst s" "entries_ok rs"
    using Cons.prems(2) r by (auto simp: entries_ok_def)
  have "\<forall>x \<in> set acc. fst x \<le> a" using Cons.prems(4) r by auto
  note step = push_normalized_step [OF Cons.prems(3) ab(1,2) this]
  obtain cp1 where "normalize_ranges host rs (push_normalized r acc) cp1 = Inr (rs', cp')"
    using Cons.prems(1) by (auto split: prod.splits if_splits)
  from Cons.IH [OF this ab(4)] step ab(3) r show ?case by fastforce
qed simp

lemma separated_contains:
  assumes "separated rs"
  shows "selection_contains \<lparr>ranges = rs\<rparr> n \<longleftrightarrow> covers rs n"
proof -
  let ?p = "\<lambda>(_ :: nat, e). e < n"
  have part: "partitioned ?p rs"
    unfolding partitioned_def
  proof (intro allI impI)
    fix i j
    assume *: "i < j" "j < length rs" "?p (rs ! j)"
    from assms have "sorted_wrt (\<lambda>r s. snd r + 1 < fst s) rs" "\<forall>r \<in> set rs. fst r \<le> snd r"
      by (auto simp: separated_def)
    with * have "snd (rs ! i) + 1 < fst (rs ! j)" "fst (rs ! j) \<le> snd (rs ! j)"
      using sorted_wrt_nth_less [of _ rs i j] by auto
    with *(3) show "?p (rs ! i)" by (auto split: prod.splits)
  qed
  let ?i = "partition_point ?p rs"
  show ?thesis
  proof
    assume c: "selection_contains \<lparr>ranges = rs\<rparr> n"
    then have i: "?i < length rs" by (auto simp: selection_contains_def Let_def split: if_splits)
    obtain a b where ab: "rs ! ?i = (a, b)" by fastforce
    with c i have "a \<le> n" "n \<le> b" by (simp_all add: selection_contains_def)
    moreover have "(a, b) \<in> set rs" using i ab by (metis nth_mem)
    ultimately show "covers rs n" by (auto simp: covers_def)
  next
    assume "covers rs n"
    then obtain a b where "(a, b) \<in> set rs" and ab: "a \<le> n" "n \<le> b" by (auto simp: covers_def)
    then obtain j where rj: "j < length rs" "rs ! j = (a, b)" by (metis in_set_conv_nth)
    with ab have j: "j < length rs" "fst (rs ! j) \<le> n" "n \<le> snd (rs ! j)" by simp_all
    then have "\<not> ?p (rs ! j)" by (auto split: prod.splits)
    then have le: "?i \<le> j" using partition_point_before [of j ?p rs] by (meson not_le_imp_less)
    have i: "?i < length rs" using le j(1) by simp
    have "?i = j"
    proof (rule ccontr)
      assume "?i \<noteq> j"
      with le have "?i < j" by simp
      with assms j(1) have "snd (rs ! ?i) + 1 < fst (rs ! j)"
        using sorted_wrt_nth_less [of "\<lambda>r s. snd r + 1 < fst s" rs ?i j] by (simp add: separated_def)
      moreover have "\<not> ?p (rs ! ?i)" by (rule partition_point_at [OF i])
      ultimately show False using j(2) by (auto split: prod.splits)
    qed
    with i rj ab show "selection_contains \<lparr>ranges = rs\<rparr> n"
      by (simp add: selection_contains_def)
  qed
qed

lemma parse_line_selection_contains:
  assumes "parse_line_selection host v q = Inr (sel, q')"
  shows "selection_contains sel n \<longleftrightarrow> (\<exists>item \<in> set (split_chars '';,'' v). item_covers item n)"
proof -
  obtain rs cp norm cp' where
    i: "selection_items host (split_chars '';,'' v) [] (checkpoint_new q) = Inr (rs, cp)"
    and norm: "normalize_ranges host rs [] cp = Inr (norm, cp')" and sel: "sel = \<lparr>ranges = norm\<rparr>"
    using assms by (auto simp: parse_line_selection_def and_then_eq_Inr)
  have "entries_ok []" "separated []" by (simp_all add: entries_ok_def separated_def)
  with selection_items_result [OF i] normalize_ranges_result [OF norm] separated_contains [of norm n] sel
  show ?thesis by auto
qed

section \<open>Selected lines denote their source\<close>

definition denotes :: "str \<Rightarrow> SelectedLine \<Rightarrow> bool" where
  "denotes source l \<longleftrightarrow>
     slice source (range_start (selected_range l)) (range_end (selected_range l)) = line_text_of l
     \<and> range_len (selected_range l) = length (line_text_of l)
     \<and> selected_mapping l = Identity"

definition line_order :: "SelectedLine \<Rightarrow> SelectedLine \<Rightarrow> bool" where
  "line_order a b \<longleftrightarrow> range_end (selected_range a) \<le> range_start (selected_range b)"

lemma select_loop_denotes:
  "select_loop host tags lines index offset active ls acc cp = Inr (result, q') \<Longrightarrow>
   drop offset source = concat ls \<Longrightarrow> offset \<le> length source \<Longrightarrow>
   list_all (denotes source) acc \<Longrightarrow> sorted_wrt line_order acc \<Longrightarrow>
   \<forall>l \<in> set acc. range_end (selected_range l) \<le> offset \<Longrightarrow>
   list_all (denotes source) result \<and> sorted_wrt line_order result"
proof (induction ls arbitrary: index offset active acc cp)
  case Nil
  then show ?case by simp
next
  case (Cons l ls)
  let ?r = "\<lparr>range_start = offset, range_end = offset + length l\<rparr>"
  let ?new = "\<lparr>line_text_of = l, selected_range = ?r, selected_mapping = Identity\<rparr>"
  have next_drop: "drop (offset + length l) source = concat ls"
    using Cons.prems(2) by (metis append_eq_conv_conj concat.simps(2) drop_drop add.commute)
  have next_le: "offset + length l \<le> length source"
    using Cons.prems(2,3) by (metis add_le_cancel_left concat.simps(2) le_add1 le_add_diff_inverse length_append length_drop)
  have sl: "slice source offset (offset + length l) = l"
    using Cons.prems(2) by (simp add: slice_def)
  obtain active' acc' cp' where
    rest: "select_loop host tags lines (Suc index) (offset + length l) active' ls acc' cp' = Inr (result, q')"
    and acc': "acc' = acc \<or> acc' = acc @ [?new]"
  proof -
    have "checked_range offset (offset + length l) = (Inr ?r :: TextRange failure + TextRange)"
      using Cons.prems(1) by (auto simp: and_then_eq_Inr checked_range_Inr)
    with Cons.prems(1) that show thesis
      by (auto simp: Let_def split: prod.splits if_splits option.splits)
  qed
  have "list_all (denotes source) acc' \<and> sorted_wrt line_order acc'
      \<and> (\<forall>x \<in> set acc'. range_end (selected_range x) \<le> offset + length l)"
  proof -
    have "denotes source ?new" using sl by (simp add: denotes_def range_len_def)
    moreover have "\<forall>x \<in> set acc. line_order x ?new"
      using Cons.prems(6) by (simp add: line_order_def)
    moreover have "\<forall>x \<in> set acc. range_end (selected_range x) \<le> offset + length l"
      using Cons.prems(6) by fastforce
    ultimately show ?thesis using acc' Cons.prems(4,5) by (auto simp: sorted_wrt_append)
  qed
  with Cons.IH [OF rest next_drop next_le] show ?case by blast
qed

lemma select_lines_denote:
  assumes "select_lines host source attrs q = Inr (result, q')"
  shows "list_all (denotes source) result \<and> sorted_wrt line_order result"
proof -
  obtain lines q1 where "select_loop host (requested_tags attrs) lines 0 0 []
      (split_inclusive_lf source) [] (checkpoint_new q1) = Inr (result, q')"
    using assms by (auto simp: select_lines_def and_then_eq_Inr)
  from select_loop_denotes [OF this, of source] show ?thesis by simp
qed

section \<open>Transformation keeps the origin\<close>

definition line_ok :: "SelectedLine \<Rightarrow> bool" where
  "line_ok l \<longleftrightarrow> (selected_mapping l = Identity \<longrightarrow> length (line_text_of l) = range_len (selected_range l))"

lemma denotes_line_ok: "denotes source l \<Longrightarrow> line_ok l"
  by (simp add: denotes_def line_ok_def)

definition keeps_origin :: "SelectedLine \<Rightarrow> SelectedLine \<Rightarrow> bool" where
  "keeps_origin l l' \<longleftrightarrow>
     selected_range l' = selected_range l
     \<and> (if line_text_of l' = line_text_of l then selected_mapping l' = selected_mapping l
        else selected_mapping l' = WholeOrigin)"

lemma transform_line_keeps:
  "transform_line indent leveloffset remaining used l = Inr (l', used') \<Longrightarrow>
   keeps_origin l l' \<and> used' = (if 0 < indent then min (used + nat indent) usize_max else used)
   \<and> (0 < indent \<longrightarrow> used' \<le> remaining)"
  by (auto simp: transform_line_def keeps_origin_def Let_def split: if_splits)

lemma transform_loop_keeps:
  "transform_loop host indent leveloffset remaining used ls acc cp = Inr (result, q') \<Longrightarrow>
   \<exists>new. result = acc @ new \<and> list_all2 keeps_origin ls new
     \<and> (0 < indent \<and> remaining < usize_max \<and> used \<le> remaining \<longrightarrow> used + length ls * nat indent \<le> remaining)"
proof (induction ls arbitrary: used acc cp)
  case (Cons l ls)
  obtain l' used' cp1 where t: "transform_line indent leveloffset remaining used l = Inr (l', used')"
    and rest: "transform_loop host indent leveloffset remaining used' ls (acc @ [l']) cp1 = Inr (result, q')"
    using Cons.prems by (auto simp: and_then_eq_Inr split: prod.splits if_splits)
  from Cons.IH [OF rest] obtain new where new: "result = acc @ l' # new" "list_all2 keeps_origin ls new"
    "0 < indent \<and> remaining < usize_max \<and> used' \<le> remaining \<longrightarrow> used' + length ls * nat indent \<le> remaining"
    by auto
  note k = transform_line_keeps [OF t]
  have "used + length (l # ls) * nat indent \<le> remaining"
    if "0 < indent" "remaining < usize_max" "used \<le> remaining"
  proof -
    have "used' = min (used + nat indent) usize_max" "used' \<le> remaining" using k that(1) by auto
    with that(2) have "used' = used + nat indent" by (auto simp: min_def split: if_splits)
    with new(3) that(1,2) \<open>used' \<le> remaining\<close> show ?thesis by simp
  qed
  with new k show ?case by (intro exI [of _ "l' # new"]) auto
qed auto

lemma keeps_origin_line_ok: "keeps_origin l l' \<Longrightarrow> line_ok l \<Longrightarrow> line_ok l'"
  by (auto simp: keeps_origin_def line_ok_def split: if_splits)

lemma transform_lines_ok:
  assumes "transform_lines host ls attrs remaining q = Inr (result, q')" and "list_all line_ok ls"
  shows "list_all line_ok result" "length result = length ls"
proof -
  from assms(1) have k: "list_all2 keeps_origin ls result"
    unfolding transform_lines_def by (auto dest!: transform_loop_keeps)
  then show "length result = length ls" by (simp add: list_all2_lengthD)
  from k assms(2) show "list_all line_ok result"
    by (induction rule: list_all2_induct) (auto intro: keeps_origin_line_ok)
qed

section \<open>Resolved targets\<close>

lemma split_chars_single: "c \<notin> set s \<Longrightarrow> split_chars [c] s = [s]"
  by (induction s) auto

lemma split_chars_append_sep: "c \<notin> set s \<Longrightarrow> split_chars [c] (s @ c # t) = s # split_chars [c] t"
  by (induction s) auto

lemma split_join_segments:
  "segs \<noteq> [] \<Longrightarrow> \<forall>seg \<in> set segs. CHR ''/'' \<notin> set seg \<Longrightarrow> split_chars ''/'' (join_segments segs) = segs"
proof (induction segs rule: join_segments.induct)
  case 1
  then show ?case by simp
next
  case (2 seg)
  then have "CHR ''/'' \<notin> set seg" by simp
  then show ?case unfolding join_segments.simps by (rule split_chars_single)
next
  case (3 seg s segs)
  have j: "join_segments (seg # s # segs) = seg @ CHR ''/'' # join_segments (s # segs)"
    unfolding join_segments.simps by (simp only: append_Cons append_Nil)
  have i: "split_chars ''/'' (join_segments (s # segs)) = s # segs"
    by (rule "3.IH") (use "3.prems" in auto)
  from "3.prems" have "CHR ''/'' \<notin> set seg" by simp
  from split_chars_append_sep [OF this, of "join_segments (s # segs)"] show ?case
    unfolding j i .
qed

definition plain_segment :: "str \<Rightarrow> bool" where
  "plain_segment seg \<longleftrightarrow> seg \<noteq> [] \<and> seg \<noteq> ''.'' \<and> CHR ''/'' \<notin> set seg"

lemma normalize_segments_cases:
  obtains (skip) "seg = [] \<or> seg = ''.''" "normalize_segments (seg # segs) stack = normalize_segments segs stack"
  | (pop) "seg = ''..''" "stack \<noteq> []" "last stack \<noteq> ''..''"
      "normalize_segments (seg # segs) stack = normalize_segments segs (butlast stack)"
  | (push) "seg \<noteq> []" "seg \<noteq> ''.''" "seg \<noteq> ''..'' \<or> stack = [] \<or> last stack = ''..''"
      "normalize_segments (seg # segs) stack = normalize_segments segs (stack @ [seg])"
proof -
  consider "seg = [] \<or> seg = ''.''" | "\<not> (seg = [] \<or> seg = ''.'')" "seg = ''..'' \<and> stack \<noteq> [] \<and> last stack \<noteq> ''..''"
    | "\<not> (seg = [] \<or> seg = ''.'')" "\<not> (seg = ''..'' \<and> stack \<noteq> [] \<and> last stack \<noteq> ''..'')" by blast
  then show thesis
  proof cases
    case 1
    with skip show ?thesis by (simp only: normalize_segments.simps if_True)
  next
    case 2
    then have "normalize_segments (seg # segs) stack = normalize_segments segs (butlast stack)"
      unfolding normalize_segments.simps by (simp only: if_False) simp
    with 2 pop show ?thesis by blast
  next
    case 3
    then have "normalize_segments (seg # segs) stack = normalize_segments segs (stack @ [seg])"
      by (simp only: normalize_segments.simps if_False)
    with 3 push show ?thesis by blast
  qed
qed

declare normalize_segments.simps(2) [simp del]

lemma normalize_segments_plain:
  "\<forall>seg \<in> set segs. CHR ''/'' \<notin> set seg \<Longrightarrow> \<forall>seg \<in> set stack. plain_segment seg \<Longrightarrow>
   \<forall>seg \<in> set (normalize_segments segs stack). plain_segment seg"
proof (induction segs arbitrary: stack)
  case Nil
  then show ?case by simp
next
  case (Cons seg segs)
  have tl: "\<forall>seg \<in> set segs. CHR ''/'' \<notin> set seg" using Cons.prems(1) by simp
  show ?case
  proof (cases seg segs stack rule: normalize_segments_cases)
    case skip
    with Cons.IH [OF tl Cons.prems(2)] show ?thesis by simp
  next
    case pop
    have "\<forall>seg \<in> set (butlast stack). plain_segment seg"
      using Cons.prems(2) in_set_butlastD by fast
    with pop(4) Cons.IH [OF tl] show ?thesis by simp
  next
    case push
    then have "plain_segment seg" using Cons.prems(1) by (simp add: plain_segment_def)
    then have "\<forall>seg \<in> set (stack @ [seg]). plain_segment seg" using Cons.prems(2) by simp
    then show ?thesis unfolding push(4) by (rule Cons.IH [OF tl])
  qed
qed

text \<open>Parent segments stay at the front of the stack.\<close>

definition is_parent :: "str \<Rightarrow> bool" where
  "is_parent seg \<longleftrightarrow> seg = ''..''"

definition parents_first :: "str list \<Rightarrow> bool" where
  "parents_first segs \<longleftrightarrow> sorted_wrt (\<lambda>a b. is_parent b \<longrightarrow> is_parent a) segs"

lemma parents_first_snoc:
  "parents_first (stack @ [seg]) \<longleftrightarrow> parents_first stack \<and> (is_parent seg \<longrightarrow> (\<forall>x \<in> set stack. is_parent x))"
  by (auto simp: parents_first_def sorted_wrt_append)

lemma parents_first_push:
  assumes "parents_first stack" and "\<not> is_parent seg \<or> stack = [] \<or> is_parent (last stack)"
  shows "parents_first (stack @ [seg])"
proof (cases stack rule: rev_cases)
  case (snoc init l)
  have "\<forall>x \<in> set (init @ [l]). is_parent x" if "is_parent seg"
    using assms that unfolding snoc parents_first_snoc by simp
  with assms(1) snoc have "is_parent seg \<longrightarrow> (\<forall>x \<in> set stack. is_parent x)" by simp
  with assms(1) show ?thesis unfolding parents_first_snoc by simp
qed (simp add: parents_first_def)

lemma parents_first_pop: "parents_first stack \<Longrightarrow> parents_first (butlast stack)"
  by (cases stack rule: rev_cases) (simp_all add: parents_first_snoc)

lemma normalize_segments_parents: "parents_first stack \<Longrightarrow> parents_first (normalize_segments segs stack)"
proof (induction segs arbitrary: stack)
  case Nil
  then show ?case by simp
next
  case (Cons seg segs)
  show ?case
  proof (cases seg segs stack rule: normalize_segments_cases)
    case skip
    with Cons.IH [OF Cons.prems] show ?thesis by simp
  next
    case pop
    with Cons.IH [OF parents_first_pop [OF Cons.prems]] show ?thesis by simp
  next
    case push
    then have "parents_first (stack @ [seg])"
      by (intro parents_first_push Cons.prems) (simp only: is_parent_def)
    with push(4) Cons.IH show ?thesis by simp
  qed
qed

lemma normalize_segments_id:
  "\<forall>seg \<in> set segs. plain_segment seg \<Longrightarrow> parents_first (stack @ segs) \<Longrightarrow>
   normalize_segments segs stack = stack @ segs"
proof (induction segs arbitrary: stack)
  case Nil
  then show ?case by simp
next
  case (Cons seg segs)
  show ?case
  proof (cases seg segs stack rule: normalize_segments_cases)
    case skip
    with Cons.prems(1) show ?thesis by (simp add: plain_segment_def)
  next
    case pop
    have "is_parent seg" "\<not> is_parent (last stack)" using pop by (simp_all only: is_parent_def not_False_eq_True)
    moreover have "is_parent seg \<longrightarrow> is_parent (last stack)"
      using Cons.prems(2) last_in_set [OF pop(2)] by (simp add: parents_first_def sorted_wrt_append)
    ultimately show ?thesis by simp
  next
    case push
    with Cons.IH [of "stack @ [seg]"] Cons.prems show ?thesis by simp
  qed
qed

lemma resolve_relative:
  assumes "CHR '':'' \<notin> set tgt" and "\<not> starts_with tgt ''/''" and "\<not> starts_with tgt [backslash]"
    and "case base of None \<Rightarrow> True | Some b \<Rightarrow> CHR '':'' \<notin> set b"
  obtains segs where "resolve_include_target tgt base = join_segments segs"
    "\<forall>seg \<in> set segs. plain_segment seg" "parents_first segs"
proof -
  obtain combined where r: "resolve_include_target tgt base =
      join_segments (normalize_segments (split_chars ''/'' combined) [])"
  proof (cases base)
    case None
    with assms(1-3) that show thesis by (simp add: resolve_include_target_def)
  next
    case (Some b)
    show thesis
      by (rule that [of "if b \<noteq> [] then b @ ''/'' @ tgt else tgt"])
         (use Some assms in \<open>simp only: resolve_include_target_def List.member_iff option.case Let_def if_False simp_thms\<close>)
  qed
  have "\<forall>seg \<in> set (split_chars ''/'' combined). CHR ''/'' \<notin> set seg"
    using split_chars_no_sep by fastforce
  then have "\<forall>seg \<in> set (normalize_segments (split_chars ''/'' combined) []). plain_segment seg"
    by (rule normalize_segments_plain) simp
  moreover have "parents_first (normalize_segments (split_chars ''/'' combined) [])"
    by (rule normalize_segments_parents) (simp add: parents_first_def)
  ultimately show thesis using r that by blast
qed

text \<open>A segment list without \<open>..\<close> survives another resolution against the same absent base.\<close>

lemma resolve_join_segments:
  assumes "\<forall>seg \<in> set segs. plain_segment seg" and "parents_first segs"
    and "CHR '':'' \<notin> set (join_segments segs)" "\<not> starts_with (join_segments segs) ''/''"
    "\<not> starts_with (join_segments segs) [backslash]"
  shows "resolve_include_target (join_segments segs) None = join_segments segs"
proof (cases "segs = []")
  case True
  then show ?thesis by (simp add: resolve_include_target_def normalize_segments.simps(2))
next
  case False
  have "\<forall>seg \<in> set segs. CHR ''/'' \<notin> set seg" using assms(1) by (simp add: plain_segment_def)
  note sj = split_join_segments [OF False this]
  have ni: "normalize_segments segs [] = segs" using normalize_segments_id [of segs "[]"] assms by simp
  show ?thesis using assms(3-5) by (simp only: resolve_include_target_def List.member_iff option.case sj ni if_False simp_thms)
qed

lemma normalize_segments_subset:
  "set (normalize_segments segs stack) \<subseteq> set segs \<union> set stack"
proof (induction segs arbitrary: stack)
  case (Cons seg segs)
  show ?case
  proof (cases seg segs stack rule: normalize_segments_cases)
    case pop
    with Cons.IH [of "butlast stack"] show ?thesis by (auto dest: in_set_butlastD)
  next
    case push
    with Cons.IH [of "stack @ [seg]"] show ?thesis by auto
  qed (use Cons.IH [of stack] in auto)
qed simp

lemma join_segments_chars: "set (join_segments segs) \<subseteq> insert (CHR ''/'') (\<Union> (set ` set segs))"
proof (induction segs rule: join_segments.induct)
  case (3 seg s segs)
  then show ?case by auto
qed auto

lemma split_chars_chars: "w \<in> set (split_chars seps s) \<Longrightarrow> set w \<subseteq> set s"
proof (induction s arbitrary: w)
  case (Cons b s)
  obtain u us where u: "split_chars seps s = u # us" by (meson neq_Nil_conv split_chars_nonempty)
  then have "u \<in> set (split_chars seps s)" "\<And>x. x \<in> set us \<Longrightarrow> x \<in> set (split_chars seps s)" by simp_all
  with Cons.IH have "set u \<subseteq> set s" "\<And>x. x \<in> set us \<Longrightarrow> set x \<subseteq> set s" by blast+
  with Cons.prems u show ?case by (auto split: if_splits)
qed simp

lemma never_cancelled: "\<exists>cp'. checkpoint_is_cancelled NeverCancel cp = (False, cp')"
  by (simp add: checkpoint_is_cancelled_def NeverCancel_def)

lemma selection_items_total: "\<exists>rs' cp'. selection_items NeverCancel items rs cp = Inr (rs', cp')"
proof (induction items arbitrary: rs cp)
  case (Cons item items)
  obtain cp' where "checkpoint_is_cancelled NeverCancel cp = (False, cp')" using never_cancelled by blast
  with Cons.IH show ?case by simp
qed simp

lemma normalize_ranges_total: "\<exists>rs' cp'. normalize_ranges NeverCancel rs acc cp = Inr (rs', cp')"
proof (induction rs arbitrary: acc cp)
  case (Cons r rs)
  obtain cp' where "checkpoint_is_cancelled NeverCancel cp = (False, cp')" using never_cancelled by blast
  with Cons.IH show ?case by simp
qed simp

lemma parse_line_selection_total: "\<exists>sel q'. parse_line_selection NeverCancel v q = Inr (sel, q')"
proof -
  obtain rs cp where i: "selection_items NeverCancel (split_chars '';,'' v) [] (checkpoint_new q) = Inr (rs, cp)"
    using selection_items_total by blast
  obtain n cp' where "normalize_ranges NeverCancel rs [] cp = Inr (n, cp')"
    using normalize_ranges_total by blast
  with i show ?thesis by (simp add: parse_line_selection_def)
qed

text \<open>Without cancellation a selection succeeds on every source within the position range.\<close>

lemma select_loop_total:
  "offset + length (concat ls) \<le> u32_max \<Longrightarrow>
   \<exists>result q. select_loop NeverCancel tags lines index offset active ls acc cp = Inr (result, q)"
proof (induction ls arbitrary: index offset active acc cp)
  case (Cons l ls)
  obtain cp' where c: "checkpoint_is_cancelled NeverCancel cp = (False, cp')" using never_cancelled by blast
  have r: "checked_range offset (offset + length l) =
      (Inr \<lparr>range_start = offset, range_end = offset + length l\<rparr> :: TextRange failure + TextRange)"
    using Cons.prems by (simp add: checked_range_Inr)
  have "offset + length l + length (concat ls) \<le> u32_max" using Cons.prems by simp
  from Cons.IH [OF this] c r show ?case
    by (auto simp: Let_def split: option.splits)
qed simp

lemma select_lines_total:
  assumes "length source \<le> u32_max"
  shows "\<exists>result q'. select_lines NeverCancel source attrs q = Inr (result, q')"
proof -
  obtain lines q1 where "(case attrs ''lines'' of None \<Rightarrow> Inr (None, q)
        | Some v \<Rightarrow> and_then (map_err Err (parse_line_selection NeverCancel v q)) (\<lambda>(sel, q). Inr (Some sel, q)))
      = (Inr (lines, q1) :: TextRange failure + LineSelection option \<times> nat)"
  proof (cases "attrs ''lines''")
    case (Some v)
    obtain sel q' where "parse_line_selection NeverCancel v q = Inr (sel, q')"
      using parse_line_selection_total by blast
    with Some that show thesis by simp
  qed (use that in simp)
  with select_loop_total [of 0 "split_inclusive_lf source"] assms show ?thesis
    by (simp add: select_lines_def)
qed

lemma transform_loop_total:
  "indent \<le> 0 \<Longrightarrow> \<exists>result q. transform_loop NeverCancel indent leveloffset remaining used ls acc cp = Inr (result, q)"
proof (induction ls arbitrary: used acc cp)
  case (Cons l ls)
  obtain cp' where c: "checkpoint_is_cancelled NeverCancel cp = (False, cp')" using never_cancelled by blast
  obtain l' where "transform_line indent leveloffset remaining used l = Inr (l', used)"
    using Cons.prems by (cases "indent < 0") (simp_all add: transform_line_def Let_def)
  with c Cons show ?case by simp
qed simp

lemma resolve_chars:
  assumes "CHR '':'' \<notin> set tgt" and "case base of None \<Rightarrow> True | Some b \<Rightarrow> CHR '':'' \<notin> set b"
  shows "CHR '':'' \<notin> set (resolve_include_target tgt base)"
proof -
  have joined: "CHR '':'' \<notin> set (join_segments (normalize_segments (split_chars ''/'' c) []))"
    if "CHR '':'' \<notin> set c" for c
  proof
    assume "CHR '':'' \<in> set (join_segments (normalize_segments (split_chars ''/'' c) []))"
    with join_segments_chars obtain seg where
      "seg \<in> set (normalize_segments (split_chars ''/'' c) [])" "CHR '':'' \<in> set seg" by fastforce
    with normalize_segments_subset have "seg \<in> set (split_chars ''/'' c)" by fastforce
    with split_chars_chars \<open>CHR '':'' \<in> set seg\<close> that show False by blast
  qed
  show ?thesis
  proof (cases base)
    case None
    with assms joined show ?thesis by (simp add: resolve_include_target_def)
  next
    case (Some b)
    then have "CHR '':'' \<notin> set (if b \<noteq> [] then b @ ''/'' @ tgt else tgt)" using assms by simp
    note joined [OF this]
    with Some assms show ?thesis
      by (simp only: resolve_include_target_def List.member_iff option.case Let_def if_False simp_thms split: if_splits)
  qed
qed

lemma validate_target_ok:
  "validate_target tgt opts = Inr () \<Longrightarrow>
   tgt \<noteq> [] \<and> \<not> starts_with tgt ''/'' \<and> \<not> starts_with tgt [backslash] \<and> ''..'' \<notin> set (split_chars ''/'' tgt)"
  by (auto simp: validate_target_def list_ex_iff split: if_splits)

section \<open>Properties\<close>



text \<open>A parsed line selection is the union of its items: it contains a line number exactly
  when some item of the attribute names it or an interval around it, although the
  intervals are merged and searched by bisection.\<close>

theorem line_selection_membership:
  assumes "parse_line_selection host v q = Inr (sel, q')"
  shows "selection_contains sel n \<longleftrightarrow> (\<exists>item \<in> set (split_chars '';,'' v). item_covers item n)"
  by (rule parse_line_selection_contains [OF assms])

theorem line_selection_membership_witness:
  "\<exists>sel q'. parse_line_selection NeverCancel ''3;1..2'' 0 = Inr (sel, q') \<and> selection_contains sel 2"
proof -
  obtain sel q' where p: "parse_line_selection NeverCancel ''3;1..2'' 0 = Inr (sel, q')"
    using parse_line_selection_total by blast
  have "item_covers ''1..2'' 2"
    by (simp add: item_covers_def item_interval_def str_eval)
  moreover have "split_chars '';,'' ''3;1..2'' = [''3'', ''1..2'']" by simp
  ultimately show ?thesis using p line_selection_membership [OF p, of 2] by simp
qed

text \<open>C18. Included lines denote their source: every selected line is the text of its range in
  the resource, mapped exactly, the ranges are disjoint and in the order of the resource,
  and the later transformation keeps each line's range and marks it as exact only
  where the text is unchanged.\<close>

theorem included_lines_denote_source:
  assumes "select_lines host source attrs q = Inr (selected, q1)"
    and "transform_lines host selected attrs remaining q1 = Inr (result, q2)"
  shows "list_all2 (\<lambda>l l'. slice source (range_start (selected_range l)) (range_end (selected_range l)) = line_text_of l
        \<and> selected_range l' = selected_range l
        \<and> (selected_mapping l' = Identity \<longleftrightarrow> line_text_of l' = line_text_of l)) selected result
    \<and> sorted_wrt line_order selected"
proof -
  note d = select_lines_denote [OF assms(1)]
  have "list_all2 keeps_origin selected result"
    using assms(2) unfolding transform_lines_def by (auto dest!: transform_loop_keeps)
  then have "list_all2 (\<lambda>l l'. denotes source l \<and> keeps_origin l l') selected result"
    using d by (auto simp: list_all2_conv_all_nth list_all_length)
  then show ?thesis
    using d by (auto elim!: list_all2_mono simp: denotes_def keeps_origin_def split: if_splits)
qed

theorem included_lines_denote_source_witness:
  "\<exists>selected q1 result q2. select_lines NeverCancel ''== a'' [''leveloffset'' \<mapsto> ''1''] 0 = Inr (selected, q1)
     \<and> transform_lines NeverCancel selected [''leveloffset'' \<mapsto> ''1''] 9 q1 = Inr (result, q2)
     \<and> length result = length selected"
proof -
  let ?attrs = "[''leveloffset'' \<mapsto> ''1''] :: str \<rightharpoonup> str"
  have "length ''== a'' \<le> u32_max" by (simp add: u32_max_def)
  from select_lines_total [OF this] obtain selected q1 where
    s: "select_lines NeverCancel ''== a'' ?attrs 0 = Inr (selected, q1)" by blast
  have "?attrs ''indent'' = None" by simp
  then have "integer_attribute ?attrs ''indent'' \<le> 0" by (simp only: integer_attribute_def option.case order_refl)
  from transform_loop_total [OF this] obtain result q2 where
    t: "transform_lines NeverCancel selected ?attrs 9 q1 = Inr (result, q2)"
    unfolding transform_lines_def by blast
  have "length result = length selected"
    by (rule list_all2_lengthD [OF conjunct1 [OF included_lines_denote_source [OF s t]], symmetric])
  with s t show ?thesis by blast
qed

end
