(* ===== verification/Machine.thy ===== *)
theory Machine
  imports Directives Source_Maps Expansion Includes
begin

text \<open>
  \<open>preprocessor/machine.rs\<close>: the resumable expansion. A machine owns a stack of cursors over
  the lines of the open resources; one iteration of \<open>drive\<close> takes the next line of the top
  cursor. The host's cancellation answers are numbered by \<open>host_queries\<close>, and an \<open>Arc\<close> of
  a request is the number of its allocation. \<open>Inl Panic\<close> marks a panic; every other
  early return is a \<open>MachineFailure\<close>.
\<close>

section \<open>State\<close>

record ExpansionCursor =
  cursor_lines :: "SelectedLine list"
  cursor_document :: SourceDocument
  cursor_frame :: IncludeFrame
  next_line :: nat
  conditions :: "bool list"
  attribute_value_through :: "nat option"

record PendingInclude =
  pending_frame :: IncludeFrame
  pending_source_id :: "str option"
  pending_range :: TextRange
  pending_target_range :: TextRange
  pending_expanded_target :: str
  pending_target :: str
  pending_attributes :: "str \<rightharpoonup> str"
  pending_optional :: bool

record ResourceRequest =
  request_target :: str
  request_authored_target :: str
  request_optional :: bool
  request_source_id :: "str option"
  request_line_range :: TextRange
  request_correlation :: nat

datatype HostResourceErrorKind = LoadFailed | ResponseMismatch

record HostResourceError =
  host_error_kind :: HostResourceErrorKind
  host_error_target :: str
  host_error_message :: str

record PreprocessMachine =
  machine_options :: PreprocessOptions
  machine_source_map :: SourceMapBuilder
  machine_directives :: "Directive list"
  machine_notices :: "PreprocessNotice list"
  machine_state :: ExpansionState
  stack :: "ExpansionCursor list"
  resolved :: "str \<rightharpoonup> ResourceDocument option"
  until_cancel_check :: nat
  host_queries :: nat
  allocations :: nat

record SuspendedPreprocess =
  suspended_machine :: PreprocessMachine
  suspended_pending :: PendingInclude
  suspended_request :: ResourceRequest

datatype MachineFailure = MachineError PreprocessError | MachineCancelled

datatype MachineLookup =
    Resolved "ResourceDocument option"
  | LookupDeferred ResourceRequest
  | LookupHostError HostResourceError

datatype PreprocessStep =
    Complete PreprocessedDocument
  | NeedResource SuspendedPreprocess
  | Failed PreprocessError
  | HostError HostResourceError
  | Cancelled

type_synonym 'a run = "MachineFailure failure + 'a"

definition into_step :: "MachineFailure \<Rightarrow> PreprocessStep" where
  "into_step f = (case f of MachineError e \<Rightarrow> Failed e | MachineCancelled \<Rightarrow> Cancelled)"

text \<open>\<open>Err(error(..).into())\<close>.\<close>

definition machine_error ::
    "PreprocessErrorKind \<Rightarrow> str option \<Rightarrow> TextRange \<Rightarrow> str \<Rightarrow> 'a run" where
  "machine_error kind sid r text = Inl (Err (MachineError (preprocess_error kind sid r text)))"

section \<open>Cursors\<close>

definition selected_text :: "SelectedLine list \<Rightarrow> str" where
  "selected_text lines = concat (map line_text_of lines)"

definition ExpansionCursor_new ::
    "SelectedLine list \<Rightarrow> IncludeFrame \<Rightarrow> PreprocessError failure + ExpansionCursor" where
  "ExpansionCursor_new lines frame =
     (case SourceDocument_new (selected_text lines) of
        Inl Panic \<Rightarrow> Inl Panic
      | Inl (Err _) \<Rightarrow>
          Inl (Err (preprocess_error InternalInvariantError (frame_source_id frame) zero_range
            ''selected source exceeds the supported position range''))
      | Inr document \<Rightarrow>
          if length (sd_lines document) < length lines
          then Inl (Err (preprocess_error InternalInvariantError (frame_source_id frame) zero_range
            ''selected source lines do not preserve physical boundaries''))
          else Inr \<lparr>cursor_lines = lines, cursor_document = document, cursor_frame = frame,
                    next_line = 0, conditions = [], attribute_value_through = None\<rparr>)"

definition lift_error :: "PreprocessError failure \<Rightarrow> MachineFailure failure" where
  "lift_error f = (case f of Err e \<Rightarrow> Err (MachineError e) | Panic \<Rightarrow> Panic)"

definition push_cursor :: "ExpansionCursor \<Rightarrow> PreprocessMachine \<Rightarrow> PreprocessMachine" where
  "push_cursor c m = m\<lparr>stack := stack m @ [c]\<rparr>"

section \<open>Shared steps\<close>

definition check_cancelled :: "cancel_host \<Rightarrow> PreprocessMachine \<Rightarrow> PreprocessMachine run" where
  "check_cancelled host m =
     (if until_cancel_check m = 0 then
        if host (host_queries m) then Inl (Err MachineCancelled)
        else Inr (m\<lparr>until_cancel_check := CHECKPOINT_INTERVAL - 1,
                    host_queries := Suc (host_queries m)\<rparr>)
      else Inr (m\<lparr>until_cancel_check := until_cancel_check m - 1\<rparr>))"

definition bump_node ::
    "str option \<Rightarrow> TextRange \<Rightarrow> PreprocessMachine \<Rightarrow> PreprocessMachine run" where
  "bump_node sid r m =
     (case register_node (max_expanded_nodes (machine_options m)) (machine_state m) of
        Inl Panic \<Rightarrow> Inl Panic
      | Inl (Err _) \<Rightarrow> machine_error NodeLimit sid r ''preprocessor node limit exceeded''
      | Inr st \<Rightarrow> Inr (m\<lparr>machine_state := st\<rparr>))"

definition append_text ::
    "str \<Rightarrow> str option \<Rightarrow> TextRange \<Rightarrow> SourceMapping \<Rightarrow> PreprocessMachine
     \<Rightarrow> PreprocessMachine run" where
  "append_text v sid origin m_kind m =
     (case builder_append v sid origin m_kind (machine_source_map m) of
        Inl Panic \<Rightarrow> Inl Panic
      | Inl (Err BuilderByteLimit) \<Rightarrow>
          machine_error ByteLimit sid origin ''preprocessor byte limit exceeded''
      | Inl (Err BuilderSegmentLimit) \<Rightarrow>
          machine_error SourceMapLimit sid origin ''source map segment limit exceeded''
      | Inr b \<Rightarrow> Inr (m\<lparr>machine_source_map := b\<rparr>))"

definition push_directive :: "Directive \<Rightarrow> PreprocessMachine \<Rightarrow> PreprocessMachine" where
  "push_directive d m = m\<lparr>machine_directives := machine_directives m @ [d]\<rparr>"

definition finish_output :: "PreprocessMachine \<Rightarrow> PreprocessMachine" where
  "finish_output m = m\<lparr>machine_state := finish_directive_output (machine_state m)\<rparr>"

fun lines_loop ::
    "cancel_host \<Rightarrow> str list \<Rightarrow> nat \<Rightarrow> SelectedLine list \<Rightarrow> PreprocessMachine
     \<Rightarrow> (SelectedLine list \<times> PreprocessMachine) run" where
  "lines_loop host [] offset lines m = Inr (lines, m)"
| "lines_loop host (l # rest) offset lines m =
     and_then (checked_range offset (offset + length l)) (\<lambda>r.
     and_then (check_cancelled host m) (\<lambda>m.
       lines_loop host rest (offset + length l)
         (lines @ [\<lparr>line_text_of = l, selected_range = r, selected_mapping = Identity\<rparr>]) m))"

definition machine_lines ::
    "cancel_host \<Rightarrow> str \<Rightarrow> PreprocessMachine \<Rightarrow> (SelectedLine list \<times> PreprocessMachine) run" where
  "machine_lines host source m = lines_loop host (split_inclusive_lf source) 0 [] m"

section \<open>Includes\<close>

definition supported_encoding :: "(str \<rightharpoonup> str) \<Rightarrow> bool" where
  "supported_encoding attrs =
     (case attrs ''encoding'' of
        None \<Rightarrow> True
      | Some encoding \<Rightarrow>
          eq_ignore_ascii_case encoding ''utf-8'' \<or> eq_ignore_ascii_case encoding ''utf8'')"

definition register_machine_include ::
    "str option \<Rightarrow> TextRange \<Rightarrow> PreprocessMachine \<Rightarrow> PreprocessMachine run" where
  "register_machine_include sid r m =
     (case register_include (max_includes (machine_options m)) (machine_state m) of
        Inl Panic \<Rightarrow> Inl Panic
      | Inl (Err _) \<Rightarrow> machine_error IncludeLimit sid r ''include count limit exceeded''
      | Inr st \<Rightarrow> Inr (m\<lparr>machine_state := st\<rparr>))"

definition expand_in_machine :: "str \<Rightarrow> PreprocessMachine \<Rightarrow> str" where
  "expand_in_machine v m =
     expand_attributes v (expansion_attributes (machine_state m))
       (expansion_attribute_limits (machine_state m))"

definition prepare_include ::
    "ParsedDirective \<Rightarrow> IncludeFrame \<Rightarrow> TextRange \<Rightarrow> PreprocessMachine
     \<Rightarrow> (PendingInclude \<times> PreprocessMachine) run" where
  "prepare_include inc frame r m =
     (let sid = frame_source_id frame in
      if max_include_depth (machine_options m) \<le> frame_depth frame
      then machine_error DepthLimit sid r ''include depth limit exceeded''
      else and_then (register_machine_include sid r m) (\<lambda>m.
           and_then (bump_node sid r m) (\<lambda>m.
           let expanded = expand_in_machine (target inc) m;
               tgt = resolve_include_target expanded (frame_base_uri frame)
           in case validate_target tgt (machine_options m) of
                Inl text \<Rightarrow> machine_error UnsafeTarget sid r text
              | Inr _ \<Rightarrow>
                  if contains_target tgt frame
                  then machine_error IncludeCycle sid r ''include cycle detected''
                  else (case parse_attributes (parsed_attributes inc) of
                      Inl text \<Rightarrow> machine_error InvalidDirective sid r text
                    | Inr attrs \<Rightarrow>
                        if \<not> supported_encoding attrs
                        then machine_error UnsupportedEncoding sid r
                               ''resource snapshots contain UTF-8 text only''
                        else and_then (relative_range r (target_start inc) (target_end inc))
                               (\<lambda>target_r.
                             Inr (\<lparr>pending_frame = frame, pending_source_id = sid,
                                   pending_range = r, pending_target_range = target_r,
                                   pending_expanded_target = expanded, pending_target = tgt,
                                   pending_attributes = attrs,
                                   pending_optional = (attrs ''optional'' \<noteq> None)\<rparr>, m))))))"

definition missing_resource :: "PendingInclude \<Rightarrow> PreprocessError" where
  "missing_resource p =
     \<lparr>error_kind = MissingResource, error_source_id = pending_source_id p,
      error_range = pending_range p, requested_target = Some (pending_expanded_target p),
      error_target = Some (pending_target p),
      message = ''resource snapshot does not contain '' @ pending_target p\<rparr>"

definition include_directive :: "PendingInclude \<Rightarrow> ResourceDocument option \<Rightarrow> Directive" where
  "include_directive p document =
     \<lparr>directive_kind = IncludeKind, directive_source_id = pending_source_id p,
      directive_range = pending_range p, authored_target = Some (pending_expanded_target p),
      directive_optional = pending_optional p, directive_target = pending_target p,
      directive_target_range = pending_target_range p,
      resource_source_id = map_option resource_id document\<rparr>"

text \<open>Selection and transformation of a resource's lines, and the cursor over them.\<close>

definition open_resource ::
    "cancel_host \<Rightarrow> PendingInclude \<Rightarrow> ResourceDocument \<Rightarrow> PreprocessMachine
     \<Rightarrow> (ExpansionCursor \<times> PreprocessMachine) run" where
  "open_resource host p document m =
     and_then
       (map_err (\<lambda>e. if e = Panic then Panic else Err MachineCancelled)
         (select_lines host (resource_source document) (pending_attributes p) (host_queries m)))
       (\<lambda>(selected, q).
     and_then
       (map_err (\<lambda>e. Err (case e of
           TransformCancelled \<Rightarrow> MachineCancelled
         | TransformByteLimit \<Rightarrow>
             MachineError (preprocess_error ByteLimit (pending_source_id p) (pending_range p)
               ''preprocessor byte limit exceeded'')))
         (transform_lines host selected (pending_attributes p)
           (remaining_bytes (machine_source_map m)) q))
       (\<lambda>(transformed, q).
     and_then
       (map_err lift_error
         (ExpansionCursor_new transformed
           (frame_child (pending_target p) (resource_id document) (target_base (pending_target p))
             (pending_frame p))))
       (\<lambda>cursor. Inr (cursor, m\<lparr>host_queries := q\<rparr>))))"

definition resolve_pending ::
    "cancel_host \<Rightarrow> PendingInclude \<Rightarrow> ResourceDocument option \<Rightarrow> PreprocessMachine
     \<Rightarrow> (ExpansionCursor option \<times> PreprocessMachine) run" where
  "resolve_pending host p document m =
     (let m = push_directive (include_directive p document) m in
      case document of
        None \<Rightarrow>
          if pending_optional p then
            Inr (None, m\<lparr>machine_notices := machine_notices m @
              [\<lparr>notice_kind = OptionalResourceMissing, notice_source_id = pending_source_id p,
                notice_range = pending_range p, notice_target = pending_target p\<rparr>]\<rparr>)
          else Inl (Err (MachineError (missing_resource p)))
      | Some document \<Rightarrow>
          and_then (open_resource host p document m) (\<lambda>(cursor, m). Inr (Some cursor, m)))"

definition resource_request :: "PendingInclude \<Rightarrow> nat \<Rightarrow> ResourceRequest" where
  "resource_request p correlation =
     \<lparr>request_target = pending_target p, request_authored_target = pending_expanded_target p,
      request_optional = pending_optional p, request_source_id = pending_source_id p,
      request_line_range = pending_range p, request_correlation = correlation\<rparr>"

definition lookup_resource ::
    "resource_lookup \<Rightarrow> PendingInclude \<Rightarrow> PreprocessMachine \<Rightarrow> MachineLookup \<times> PreprocessMachine" where
  "lookup_resource resources p m =
     (case resolved m (pending_target p) of
        Some cached \<Rightarrow> (Resolved cached, m)
      | None \<Rightarrow>
          (case resources (pending_target p) of
             Ready document \<Rightarrow>
               (Resolved (Some document),
                m\<lparr>resolved := (resolved m)(pending_target p \<mapsto> Some document)\<rparr>)
           | Missing \<Rightarrow>
               (Resolved None, m\<lparr>resolved := (resolved m)(pending_target p \<mapsto> None)\<rparr>)
           | Deferred \<Rightarrow>
               (LookupDeferred (resource_request p (allocations m)),
                m\<lparr>allocations := Suc (allocations m)\<rparr>)
           | LookupFailed text \<Rightarrow>
               (LookupHostError \<lparr>host_error_kind = LoadFailed,
                  host_error_target = pending_target p, host_error_message = text\<rparr>, m)))"

section \<open>One line\<close>

text \<open>The \<open>match\<close> on the transition of a conditional.\<close>

definition apply_transition ::
    "ExpansionCursor \<Rightarrow> ParsedDirective \<Rightarrow> SelectedLine \<Rightarrow> nat \<Rightarrow> ConditionalTransition
     \<Rightarrow> PreprocessMachine \<Rightarrow> (ExpansionCursor \<times> PreprocessMachine) run" where
  "apply_transition cursor directive l content_len t m =
     (let sid = frame_source_id (cursor_frame cursor); r = selected_range l in
      case t of
        Inline selected \<Rightarrow>
          if selected then
            and_then (append_text (parsed_attributes directive @ drop content_len (line_text_of l))
                       sid r WholeOrigin m) (\<lambda>m. Inr (cursor, finish_output m))
          else Inr (cursor, m)
      | Open enabled \<Rightarrow> Inr (cursor\<lparr>conditions := conditions cursor @ [enabled]\<rparr>, m)
      | Close \<Rightarrow>
          if conditions cursor = []
          then machine_error InvalidDirective sid r ''endif has no matching conditional''
          else Inr (cursor\<lparr>conditions := butlast (conditions cursor)\<rparr>, m))"

definition process_conditional ::
    "ExpansionCursor \<Rightarrow> ParsedDirective \<Rightarrow> SelectedLine \<Rightarrow> nat \<Rightarrow> bool \<Rightarrow> PreprocessMachine
     \<Rightarrow> (ExpansionCursor \<times> PreprocessMachine) run" where
  "process_conditional cursor directive l content_len enabled m =
     (let sid = frame_source_id (cursor_frame cursor); r = selected_range l in
      and_then (bump_node sid r m) (\<lambda>m.
      and_then (relative_range r (target_start directive) (target_end directive)) (\<lambda>target_r.
      let m = push_directive
            \<lparr>directive_kind = parsed_kind directive, directive_source_id = sid, directive_range = r,
             authored_target = None, directive_optional = False,
             directive_target = target directive, directive_target_range = target_r,
             resource_source_id = None\<rparr> m
      in and_then (transition directive enabled (expansion_attributes (machine_state m))
                    (expansion_attribute_limits (machine_state m)))
           (\<lambda>t. apply_transition cursor directive l content_len t m))))"

definition process_unexpanded_include ::
    "ParsedDirective \<Rightarrow> SelectedLine \<Rightarrow> str option \<Rightarrow> PreprocessMachine \<Rightarrow> PreprocessMachine run" where
  "process_unexpanded_include inc l sid m =
     (let r = selected_range l in
      and_then (bump_node sid r m) (\<lambda>m.
      and_then (relative_range r (target_start inc) (target_end inc)) (\<lambda>target_r.
      let optional = (case parse_attributes (parsed_attributes inc) of
                        Inr attrs \<Rightarrow> attrs ''optional'' \<noteq> None | Inl _ \<Rightarrow> False);
          m = push_directive
            \<lparr>directive_kind = IncludeKind, directive_source_id = sid, directive_range = r,
             authored_target = Some (expand_in_machine (target inc) m),
             directive_optional = optional, directive_target = target inc,
             directive_target_range = target_r, resource_source_id = None\<rparr> m
      in and_then (append_text (line_text_of l) sid r (selected_mapping l) m)
           (\<lambda>m. Inr (finish_output m)))))"

definition process_escaped ::
    "str \<Rightarrow> SelectedLine \<Rightarrow> nat \<Rightarrow> str option \<Rightarrow> PreprocessMachine \<Rightarrow> PreprocessMachine run" where
  "process_escaped literal l content_len sid m =
     and_then (append_text (literal @ drop content_len (line_text_of l)) sid (selected_range l)
                WholeOrigin m) (\<lambda>m. Inr (finish_output m))"

text \<open>
  The attribute part of a text line: nothing, or the entry that starts at the line, with its
  last line. A missing document line is an index out of range.
\<close>

definition attribute_entry ::
    "cancel_host \<Rightarrow> bool \<Rightarrow> ExpansionCursor \<Rightarrow> nat \<Rightarrow> SelectedLine \<Rightarrow> str \<Rightarrow> PreprocessMachine
     \<Rightarrow> ((DocumentAttributeOccurrence \<times> AttributeProblem option \<times> nat) option
         \<times> PreprocessMachine) run" where
  "attribute_entry host delimiter cursor line_index l content m =
     (if accepts_attribute delimiter (machine_state m) then
        if length (sd_lines (cursor_document cursor)) \<le> line_index then Inl Panic
        else
          let document_line = sd_lines (cursor_document cursor) ! line_index in
          and_then
            (map_err (\<lambda>_. Panic)
              (parse_line content (range_start (content_range document_line))
                (full_range document_line)))
            (\<lambda>parsed.
              if parsed = None then Inr (None, m)
              else
                and_then
                  (map_err (\<lambda>e. case e of
                      Panic \<Rightarrow> Panic
                    | Err ParseCancelled \<Rightarrow> Err MachineCancelled
                    | Err _ \<Rightarrow> Err (MachineError (preprocess_error InternalInvariantError
                        (frame_source_id (cursor_frame cursor)) (selected_range l)
                        ''attribute preprocessing failed'')))
                    (parse_lines host (host_queries m) (cursor_document cursor) line_index))
                  (\<lambda>(entry, q). Inr (entry, m\<lparr>host_queries := q\<rparr>)))
      else Inr (None, m))"

definition process_text ::
    "cancel_host \<Rightarrow> ExpansionCursor \<Rightarrow> nat \<Rightarrow> SelectedLine \<Rightarrow> str \<Rightarrow> PreprocessMachine
     \<Rightarrow> (ExpansionCursor \<times> PreprocessMachine) run" where
  "process_text host cursor line_index l content m =
     (let sid = frame_source_id (cursor_frame cursor); r = selected_range l;
          (delimiter, st) = observe_delimiter content (machine_state m)
      in and_then (bump_node sid r (m\<lparr>machine_state := st\<rparr>)) (\<lambda>m.
         and_then (attribute_entry host delimiter cursor line_index l content m) (\<lambda>(entry, m).
         and_then
           (case entry of
              None \<Rightarrow> Inr (cursor, False, m)
            | Some (occ, _, last_line) \<Rightarrow>
                and_then (apply_attribute occ (machine_state m)) (\<lambda>st.
                  Inr (if line_index < last_line
                       then cursor\<lparr>attribute_value_through := Some last_line\<rparr> else cursor,
                       True, m\<lparr>machine_state := st\<rparr>)))
           (\<lambda>(cursor, document_attribute, m).
         and_then (append_text (line_text_of l) sid r (selected_mapping l) m) (\<lambda>m.
           Inr (cursor, m\<lparr>machine_state :=
                          finish_line document_attribute content (machine_state m)\<rparr>))))))"

section \<open>Driving\<close>

definition finish :: "cancel_host \<Rightarrow> PreprocessMachine \<Rightarrow> PreprocessStep" where
  "finish host m =
     (if host (host_queries m) then Cancelled
      else case finish_cancellable host (machine_source_map m) (machine_directives m)
                  (machine_notices m) (checkpoint_new (Suc (host_queries m))) of
          Inr (document, cp) \<Rightarrow> if host (queries cp) then Cancelled else Complete document
        | Inl FinishCancelled \<Rightarrow> Cancelled
        | Inl FinishInvariant \<Rightarrow>
            Failed (preprocess_error InternalInvariantError (option_source_id (machine_options m))
              zero_range ''source map segments are unsorted, overlapping, or outside expanded source''))"

text \<open>The outcome of one iteration of the loop.\<close>

datatype iteration = Continue PreprocessMachine | Return PreprocessStep | Panicked

definition attempt :: "'a run \<Rightarrow> ('a \<Rightarrow> iteration) \<Rightarrow> iteration" where
  "attempt r k =
     (case r of Inr a \<Rightarrow> k a | Inl (Err f) \<Rightarrow> Return (into_step f) | Inl Panic \<Rightarrow> Panicked)"

definition continue_attribute_value ::
    "ExpansionCursor \<Rightarrow> nat \<Rightarrow> SelectedLine \<Rightarrow> PreprocessMachine \<Rightarrow> iteration" where
  "continue_attribute_value cursor line_index l m =
     (let sid = frame_source_id (cursor_frame cursor); r = selected_range l in
      attempt (bump_node sid r m) (\<lambda>m.
      attempt (append_text (line_text_of l) sid r (selected_mapping l) m) (\<lambda>m.
        Continue (push_cursor
          (if attribute_value_through cursor = Some line_index
           then cursor\<lparr>attribute_value_through := None\<rparr> else cursor) m))))"

definition expand_include ::
    "cancel_host \<Rightarrow> resource_lookup \<Rightarrow> ParsedDirective \<Rightarrow> ExpansionCursor \<Rightarrow> SelectedLine
     \<Rightarrow> PreprocessMachine \<Rightarrow> iteration" where
  "expand_include host resources inc cursor l m =
     attempt (prepare_include inc (cursor_frame cursor) (selected_range l) m) (\<lambda>(p, m).
       let (found, m) = lookup_resource resources p (push_cursor cursor m) in
       case found of
         Resolved document \<Rightarrow>
           attempt (resolve_pending host p document m) (\<lambda>(child, m).
             Continue (case child of None \<Rightarrow> m | Some c \<Rightarrow> push_cursor c m))
       | LookupDeferred req \<Rightarrow>
           Return (NeedResource \<lparr>suspended_machine = m, suspended_pending = p,
                                 suspended_request = req\<rparr>)
       | LookupHostError e \<Rightarrow> Return (HostError e))"

definition process_line ::
    "cancel_host \<Rightarrow> resource_lookup \<Rightarrow> ExpansionCursor \<Rightarrow> nat \<Rightarrow> PreprocessMachine \<Rightarrow> iteration" where
  "process_line host resources cursor line_index m =
     (let l = cursor_lines cursor ! line_index;
          sid = frame_source_id (cursor_frame cursor);
          content = line_content_text (line_text_of l);
          enabled = list_all (\<lambda>c. c) (conditions cursor)
      in if (case attribute_value_through cursor of None \<Rightarrow> False | Some last_line \<Rightarrow> line_index \<le> last_line)
         then continue_attribute_value cursor line_index l m
         else case recognize content of
             ConditionalDirective directive \<Rightarrow>
               attempt (process_conditional cursor directive l (length content) enabled m)
                 (\<lambda>(cursor, m). Continue (push_cursor cursor m))
           | IncludeDirective inc \<Rightarrow>
               if \<not> enabled then Continue (push_cursor cursor m)
               else if enable_includes (machine_options m)
               then expand_include host resources inc cursor l m
               else attempt (process_unexpanded_include inc l sid m)
                      (\<lambda>m. Continue (push_cursor cursor m))
           | EscapedDirective literal \<Rightarrow>
               if \<not> enabled then Continue (push_cursor cursor m)
               else attempt (process_escaped literal l (length content) sid m)
                      (\<lambda>m. Continue (push_cursor cursor m))
           | TextLine \<Rightarrow>
               if \<not> enabled then Continue (push_cursor cursor m)
               else attempt (process_text host cursor line_index l content m)
                      (\<lambda>(cursor, m). Continue (push_cursor cursor m)))"

definition drive_step ::
    "cancel_host \<Rightarrow> resource_lookup \<Rightarrow> PreprocessMachine \<Rightarrow> iteration" where
  "drive_step host resources m =
     (if stack m = [] then Return (finish host m)
      else
        let cursor = last (stack m); m = m\<lparr>stack := butlast (stack m)\<rparr> in
        if length (cursor_lines cursor) \<le> next_line cursor then
          if conditions cursor \<noteq> [] then
            Return (Failed (preprocess_error UnclosedConditional
              (frame_source_id (cursor_frame cursor)) zero_range
              ''conditional directive is not closed''))
          else Continue m
        else
          attempt (check_cancelled host m) (\<lambda>m.
            process_line host resources (cursor\<lparr>next_line := Suc (next_line cursor)\<rparr>)
              (next_line cursor) m))"

end
