(* ===== verification/Machine_Control.thy ===== *)
theory Machine_Control
  imports Machine
begin

text \<open>
  The control flow of the machine: what each operation leaves alone, why the loop of
  \<open>drive\<close> ends, and the loop itself.
\<close>

section \<open>What processing a line leaves alone\<close>

text \<open>The control part of the machine that processing a line leaves alone.\<close>

definition same_control :: "PreprocessMachine \<Rightarrow> PreprocessMachine \<Rightarrow> bool" where
  "same_control m m' \<longleftrightarrow>
     machine_options m' = machine_options m \<and> stack m' = stack m \<and> resolved m' = resolved m
     \<and> include_count (machine_state m') = include_count (machine_state m)
     \<and> allocations m' = allocations m"

lemma same_control_refl [simp]: "same_control m m"
  by (simp add: same_control_def)

lemma same_control_trans: "same_control m m' \<Longrightarrow> same_control m' m'' \<Longrightarrow> same_control m m''"
  by (simp add: same_control_def)

lemma bump_node_Inr:
  assumes "bump_node sid r m = Inr m'"
  obtains st where "m' = m\<lparr>machine_state := st\<rparr>"
    "register_node (max_expanded_nodes (machine_options m)) (machine_state m) = Inr st"
  using assms by (auto simp: bump_node_def machine_error_def split: sum.splits failure.splits)

lemma register_node_frame:
  "register_node maximum st = Inr st' \<Longrightarrow> \<exists>k. st' = st\<lparr>node_count := k\<rparr>"
  by (auto simp: register_node_def and_then_eq_Inr split: if_splits)

lemma register_include_frame:
  "register_include maximum st = Inr st' \<Longrightarrow> \<exists>k. st' = st\<lparr>include_count := k\<rparr>"
  by (auto simp: register_include_def and_then_eq_Inr split: if_splits)

text \<open>Each operation keeps the control part.\<close>

lemma check_cancelled_control: "check_cancelled host m = Inr m' \<Longrightarrow> same_control m m'"
  by (auto simp: check_cancelled_def same_control_def split: if_splits)

lemma bump_node_control: "bump_node sid r m = Inr m' \<Longrightarrow> same_control m m'"
  by (erule bump_node_Inr) (auto simp: same_control_def dest!: register_node_frame)

lemma append_text_control: "append_text v sid r k m = Inr m' \<Longrightarrow> same_control m m'"
  by (auto simp: append_text_def machine_error_def same_control_def
      split: sum.splits failure.splits SourceMapBuildError.splits)

lemma push_directive_control [simp]: "same_control m (push_directive x m)"
  by (simp add: push_directive_def same_control_def)

lemma finish_output_control [simp]: "same_control m (finish_output m)"
  by (simp add: finish_output_def finish_directive_output_def same_control_def)

lemma attribute_entry_control:
  "attribute_entry host delimiter c i l content m = Inr (entry, m') \<Longrightarrow> same_control m m'"
  by (auto simp: attribute_entry_def Let_def and_then_eq_Inr map_err_eq_Inr same_control_def split: if_splits)

lemma apply_attribute_control:
  "apply_attribute occ st = Inr st' \<Longrightarrow> include_count st' = include_count st"
  by (auto simp: apply_attribute_def split: prod.splits if_splits)

text \<open>What a line's processing keeps of its cursor.\<close>

definition same_place :: "ExpansionCursor \<Rightarrow> ExpansionCursor \<Rightarrow> bool" where
  "same_place c c' \<longleftrightarrow>
     cursor_lines c' = cursor_lines c \<and> next_line c' = next_line c \<and> cursor_frame c' = cursor_frame c
     \<and> cursor_document c' = cursor_document c"

lemma same_place_simps [simp]:
  "same_place c c" "same_place c (c\<lparr>conditions := x\<rparr>)" "same_place c (c\<lparr>attribute_value_through := v\<rparr>)"
  by (simp_all add: same_place_def)

lemmas control_dests = check_cancelled_control bump_node_control append_text_control
  attribute_entry_control apply_attribute_control

lemma process_conditional_cases:
  assumes "process_conditional c directive l k enabled m = Inr (c', m')"
  obtains m1 x where "bump_node (frame_source_id (cursor_frame c)) (selected_range l) m = Inr m1"
      "c' = c" "m' = push_directive x m1"
  | m1 x m2 where "bump_node (frame_source_id (cursor_frame c)) (selected_range l) m = Inr m1"
      "append_text (parsed_attributes directive @ drop k (line_text_of l)) (frame_source_id (cursor_frame c))
         (selected_range l) WholeOrigin (push_directive x m1) = Inr m2" "c' = c" "m' = finish_output m2"
  | m1 x conds where "bump_node (frame_source_id (cursor_frame c)) (selected_range l) m = Inr m1"
      "c' = c\<lparr>conditions := conds\<rparr>" "m' = push_directive x m1"
proof -
  obtain m1 x t where b: "bump_node (frame_source_id (cursor_frame c)) (selected_range l) m = Inr m1"
    and t: "apply_transition c directive l k t (push_directive x m1) = Inr (c', m')"
    using assms unfolding process_conditional_def Let_def and_then_eq_Inr by blast
  show thesis
  proof (cases t)
    case (Inline selected)
    show thesis
    proof (cases selected)
      case True
      with t Inline show thesis
        by (auto simp: apply_transition_def and_then_eq_Inr intro: that(2) [OF b])
    qed (use t Inline in \<open>auto simp: apply_transition_def intro: that(1) [OF b]\<close>)
  next
    case (Open e)
    with t show thesis by (auto simp: apply_transition_def intro: that(3) [OF b])
  next
    case Close
    with t show thesis
      by (auto simp: apply_transition_def machine_error_def split: if_splits intro: that(3) [OF b])
  qed
qed

lemma process_conditional_control:
  assumes "process_conditional c directive l k enabled m = Inr (c', m')"
  shows "same_control m m' \<and> same_place c c'"
  using assms
  by (cases rule: process_conditional_cases)
     (auto dest!: bump_node_control append_text_control
       simp: same_control_def push_directive_def finish_output_def finish_directive_output_def)

lemma process_unexpanded_include_control:
  "process_unexpanded_include inc l sid m = Inr m' \<Longrightarrow> same_control m m'"
  by (auto simp: process_unexpanded_include_def Let_def and_then_eq_Inr same_control_def
        push_directive_def finish_output_def finish_directive_output_def
      dest!: bump_node_control append_text_control)

lemma process_escaped_control: "process_escaped literal l k sid m = Inr m' \<Longrightarrow> same_control m m'"
  by (auto simp: process_escaped_def and_then_eq_Inr same_control_def finish_output_def
        finish_directive_output_def dest!: append_text_control)

lemma process_text_control:
  "process_text host c i l content m = Inr (c', m') \<Longrightarrow> same_control m m' \<and> same_place c c'"
  using observe_delimiter_frame [of content "machine_state m"]
  by (auto simp: process_text_def Let_def and_then_eq_Inr same_control_def finish_line_def
      dest!: control_dests split: option.splits prod.splits)

section \<open>Includes\<close>

lemma register_machine_include_frame:
  assumes "register_machine_include sid r m = Inr m'"
  obtains k where "m' = m\<lparr>machine_state := (machine_state m)\<lparr>include_count := k\<rparr>\<rparr>"
    "unat (include_count (machine_state m)) < unat (max_includes (machine_options m))"
    "unat k = Suc (unat (include_count (machine_state m)))"
proof -
  obtain st where m': "m' = m\<lparr>machine_state := st\<rparr>"
    and r: "register_include (max_includes (machine_options m)) (machine_state m) = Inr st"
    using assms by (auto simp: register_machine_include_def machine_error_def split: sum.splits failure.splits)
  obtain k where k: "st = (machine_state m)\<lparr>include_count := k\<rparr>"
    using register_include_frame [OF r] by blast
  show thesis
    using that [of k] include_counter.tick_Inr [OF r] m' k by simp
qed

lemma prepare_include_cases:
  assumes "prepare_include inc frame r m = Inr (p, m')"
  obtains m1 expanded attrs target_r where
    "register_machine_include (frame_source_id frame) r m = Inr m1"
    "bump_node (frame_source_id frame) r m1 = Inr m'"
    "\<not> max_include_depth (machine_options m) \<le> frame_depth frame"
    "validate_target (resolve_include_target expanded (frame_base_uri frame)) (machine_options m') = Inr ()"
    "\<not> contains_target (resolve_include_target expanded (frame_base_uri frame)) frame"
    "p = \<lparr>pending_frame = frame, pending_source_id = frame_source_id frame,
         pending_range = r, pending_target_range = target_r,
         pending_expanded_target = expanded,
         pending_target = resolve_include_target expanded (frame_base_uri frame),
         pending_attributes = attrs, pending_optional = (attrs ''optional'' \<noteq> None)\<rparr>"
  using assms
  by (auto simp: prepare_include_def Let_def and_then_eq_Inr machine_error_def split: if_splits sum.splits)

lemma prepare_include_control:
  assumes "prepare_include inc frame r m = Inr (p, m')"
  shows "machine_options m' = machine_options m" "stack m' = stack m" "resolved m' = resolved m"
    "allocations m' = allocations m"
    "unat (include_count (machine_state m)) < unat (max_includes (machine_options m))"
    "unat (include_count (machine_state m')) = Suc (unat (include_count (machine_state m)))"
  using assms
  by (cases rule: prepare_include_cases;
      auto simp: same_control_def elim!: register_machine_include_frame dest!: bump_node_control)+

lemma lookup_resource_control:
  assumes "lookup_resource resources p m = (found, m')"
  shows "machine_options m' = machine_options m" "stack m' = stack m" "machine_state m' = machine_state m"
    "allocations m \<le> allocations m'"
  using assms by (auto simp: lookup_resource_def split: option.splits ResourceLookupResult.splits)

lemma ExpansionCursor_new_Inr:
  "ExpansionCursor_new lines frame = Inr c \<Longrightarrow>
   cursor_lines c = lines \<and> cursor_frame c = frame \<and> next_line c = 0 \<and> conditions c = []
   \<and> attribute_value_through c = None \<and> SourceDocument_new (selected_text lines) = Inr (cursor_document c)
   \<and> length lines \<le> length (sd_lines (cursor_document c))"
  by (auto simp: ExpansionCursor_new_def split: sum.splits failure.splits if_splits)

lemma open_resource_cases:
  assumes "open_resource host p document m = Inr (c, m')"
  obtains selected q1 transformed q2 where
    "select_lines host (resource_source document) (pending_attributes p) (host_queries m) = Inr (selected, q1)"
    "transform_lines host selected (pending_attributes p) (remaining_bytes (machine_source_map m)) q1
      = Inr (transformed, q2)"
    "ExpansionCursor_new transformed
       (frame_child (pending_target p) (resource_id document) (target_base (pending_target p)) (pending_frame p)) = Inr c"
    "m' = m\<lparr>host_queries := q2\<rparr>"
  using assms by (auto simp: open_resource_def and_then_eq_Inr map_err_eq_Inr)

lemma resolve_pending_cases:
  assumes "resolve_pending host p document m = Inr (child, m')"
  obtains (missing) "document = None" "child = None" "pending_optional p"
      "m' = push_directive (include_directive p None) m
        \<lparr>machine_notices := machine_notices m @
              [\<lparr>notice_kind = OptionalResourceMissing, notice_source_id = pending_source_id p,
                notice_range = pending_range p, notice_target = pending_target p\<rparr>]\<rparr>"
  | (opened) d c where "document = Some d" "child = Some c"
      "open_resource host p d (push_directive (include_directive p (Some d)) m) = Inr (c, m')"
proof (cases document)
  case None
  with assms show ?thesis
    by (intro missing) (auto simp: resolve_pending_def Let_def push_directive_def split: if_splits)
next
  case (Some d)
  with assms obtain c where "child = Some c"
    "open_resource host p d (push_directive (include_directive p (Some d)) m) = Inr (c, m')"
    by (auto simp: resolve_pending_def Let_def and_then_eq_Inr)
  with Some show ?thesis by (rule opened)
qed

lemma resolve_pending_control:
  assumes "resolve_pending host p document m = Inr (child, m')"
  shows "same_control m m'"
  using assms
proof (cases rule: resolve_pending_cases)
  case (opened d c)
  from opened(3) show ?thesis
    by (cases rule: open_resource_cases) (simp add: same_control_def push_directive_def)
qed (simp add: same_control_def push_directive_def)

section \<open>The loop ends\<close>

text \<open>
  Every iteration that goes on either spends one of the includes that are left, or takes a
  line or a whole cursor off the stack.
\<close>

definition cursor_work :: "ExpansionCursor \<Rightarrow> nat" where
  "cursor_work c = Suc (length (cursor_lines c) - next_line c)"

definition stack_work :: "ExpansionCursor list \<Rightarrow> nat" where
  "stack_work s = sum_list (map cursor_work s)"

definition includes_left :: "PreprocessMachine \<Rightarrow> nat" where
  "includes_left m =
     unat (max_includes (machine_options m)) - unat (include_count (machine_state m))"

definition less_work :: "(PreprocessMachine \<times> PreprocessMachine) set" where
  "less_work = inv_image (less_than <*lex*> less_than) (\<lambda>m. (includes_left m, stack_work (stack m)))"

lemma wf_less_work: "wf less_work"
  unfolding less_work_def by (intro wf_inv_image wf_lex_prod wf_less_than)

lemma attempt_Continue:
  "attempt r k = Continue m \<longleftrightarrow> (\<exists>a. r = Inr a \<and> k a = Continue m)"
  by (cases r) (auto simp: attempt_def split: failure.splits)

lemma attempt_Return:
  "attempt r k = Return s \<longleftrightarrow> (\<exists>a. r = Inr a \<and> k a = Return s) \<or> (\<exists>f. r = Inl (Err f) \<and> s = into_step f)"
  by (cases r) (auto simp: attempt_def split: failure.splits)

lemma expand_include_Continue:
  assumes "expand_include host resources inc c l m = Continue m'"
  obtains p m1 m2 answer child m3 where
    "prepare_include inc (cursor_frame c) (selected_range l) m = Inr (p, m1)"
    "lookup_resource resources p (push_cursor c m1) = (Resolved answer, m2)"
    "resolve_pending host p answer m2 = Inr (child, m3)"
    "m' = (case child of None \<Rightarrow> m3 | Some c \<Rightarrow> push_cursor c m3)"
proof -
  obtain p m1 where p: "prepare_include inc (cursor_frame c) (selected_range l) m = Inr (p, m1)"
    using assms by (auto simp: expand_include_def attempt_Continue)
  obtain found m2 where f: "lookup_resource resources p (push_cursor c m1) = (found, m2)" by fastforce
  from assms p f that show thesis
    by (cases found) (auto simp: expand_include_def attempt_Continue)
qed

lemma expand_include_Return:
  assumes "expand_include host resources inc c l m = Return s"
  obtains (failure) f where "s = into_step f"
  | (deferred) p m1 m2 req where
      "prepare_include inc (cursor_frame c) (selected_range l) m = Inr (p, m1)"
      "lookup_resource resources p (push_cursor c m1) = (LookupDeferred req, m2)"
      "s = NeedResource \<lparr>suspended_machine = m2, suspended_pending = p, suspended_request = req\<rparr>"
  | (host_error) e where "s = HostError e"
proof (cases "prepare_include inc (cursor_frame c) (selected_range l) m")
  case (Inl f)
  with assms failure show ?thesis by (auto simp: expand_include_def attempt_Return)
next
  case (Inr a)
  then obtain p m1 where p: "prepare_include inc (cursor_frame c) (selected_range l) m = Inr (p, m1)"
    by (cases a) auto
  obtain found m2 where f: "lookup_resource resources p (push_cursor c m1) = (found, m2)" by fastforce
  from assms p f that show thesis
    by (cases found) (auto simp: expand_include_def attempt_Return)
qed

lemma expand_include_control:
  assumes "expand_include host resources inc c l m = Continue m'"
  shows "includes_left m' < includes_left m" "machine_options m' = machine_options m"
    "allocations m \<le> allocations m'"
proof -
  obtain p m1 m2 answer child m3 where
    p: "prepare_include inc (cursor_frame c) (selected_range l) m = Inr (p, m1)"
    and f: "lookup_resource resources p (push_cursor c m1) = (Resolved answer, m2)"
    and r: "resolve_pending host p answer m2 = Inr (child, m3)"
    and m': "m' = (case child of None \<Rightarrow> m3 | Some c \<Rightarrow> push_cursor c m3)"
    using expand_include_Continue [OF assms] .
  note pc = prepare_include_control [OF p]
  note lc = lookup_resource_control [OF f]
  from resolve_pending_control [OF r]
  have "includes_left m' = includes_left m2" "machine_options m' = machine_options m2"
    "allocations m' = allocations m2"
    by (auto simp: m' includes_left_def same_control_def push_cursor_def split: option.splits)
  moreover have "includes_left m2 = includes_left m1" "machine_options m2 = machine_options m1"
    "allocations m1 \<le> allocations m2"
    using lc by (simp_all add: includes_left_def push_cursor_def)
  moreover have "includes_left m1 < includes_left m" "machine_options m1 = machine_options m"
    "allocations m1 = allocations m"
    using pc by (simp_all add: includes_left_def)
  ultimately show "includes_left m' < includes_left m" "machine_options m' = machine_options m"
    "allocations m \<le> allocations m'" by simp_all
qed

lemmas expand_include_work = expand_include_control(1)

lemma push_work:
  assumes "same_control m m'" and "same_place c c'"
  shows "includes_left (push_cursor c' m') = includes_left m"
    "stack_work (stack (push_cursor c' m')) = stack_work (stack m) + cursor_work c"
  using assms
  by (simp_all add: includes_left_def same_control_def push_cursor_def stack_work_def cursor_work_def same_place_def)

lemma pushed_work:
  assumes "same_control m m1 \<and> same_place c c'" and "m' = push_cursor c' m1"
  shows "includes_left m' = includes_left m \<and> stack_work (stack m') = stack_work (stack m) + cursor_work c"
  using push_work [of m m1 c c'] assms by simp

lemma process_line_Continue:
  assumes "process_line host resources c i m = Continue m'"
  obtains (attribute_value) m1 m2 v where
      "bump_node (frame_source_id (cursor_frame c)) (selected_range (cursor_lines c ! i)) m = Inr m1"
      "append_text (line_text_of (cursor_lines c ! i)) (frame_source_id (cursor_frame c))
         (selected_range (cursor_lines c ! i)) (selected_mapping (cursor_lines c ! i)) m1 = Inr m2"
      "m' = push_cursor (c\<lparr>attribute_value_through := v\<rparr>) m2"
  | (skip) "m' = push_cursor c m"
  | (conditional) d k enabled a where
      "process_conditional c d (cursor_lines c ! i) k enabled m = Inr a" "m' = push_cursor (fst a) (snd a)"
  | (expand) inc where "expand_include host resources inc c (cursor_lines c ! i) m = Continue m'"
  | (unexpanded) inc m1 where
      "process_unexpanded_include inc (cursor_lines c ! i) (frame_source_id (cursor_frame c)) m = Inr m1"
      "m' = push_cursor c m1"
  | (escaped) literal k m1 where
      "process_escaped literal (cursor_lines c ! i) k (frame_source_id (cursor_frame c)) m = Inr m1"
      "m' = push_cursor c m1"
  | (text_line) content a where
      "process_text host c i (cursor_lines c ! i) content m = Inr a" "m' = push_cursor (fst a) (snd a)"
proof -
  let ?l = "cursor_lines c ! i" and ?sid = "frame_source_id (cursor_frame c)"
  let ?content = "line_content_text (line_text_of ?l)" and ?enabled = "list_all (\<lambda>c. c) (conditions c)"
  show thesis
  proof (cases "case attribute_value_through c of None \<Rightarrow> False | Some last_line \<Rightarrow> i \<le> last_line")
    case True
    with assms obtain m1 m2 where b: "bump_node ?sid (selected_range ?l) m = Inr m1"
      "append_text (line_text_of ?l) ?sid (selected_range ?l) (selected_mapping ?l) m1 = Inr m2"
      and m': "m' = push_cursor (if attribute_value_through c = Some i
           then c\<lparr>attribute_value_through := None\<rparr> else c) m2"
      by (auto simp: process_line_def Let_def continue_attribute_value_def attempt_Continue)
    have "m' = push_cursor (c\<lparr>attribute_value_through :=
        if attribute_value_through c = Some i then None else attribute_value_through c\<rparr>) m2"
      using m' by simp
    from attribute_value [OF b this] show thesis .
  next
    case False
    note go = assms [unfolded process_line_def Let_def if_not_P [OF False]]
    show thesis
    proof (cases "recognize ?content")
      case (ConditionalDirective d)
      from go [unfolded ConditionalDirective RecognizedDirective.case attempt_Continue]
      obtain a where "process_conditional c d ?l (length ?content) ?enabled m = Inr a"
        "m' = push_cursor (fst a) (snd a)"
        by (elim exE conjE) (simp only: case_prod_beta iteration.inject)
      then show thesis by (rule conditional)
    next
      case (IncludeDirective inc)
      note g = go [unfolded IncludeDirective RecognizedDirective.case attempt_Continue]
      show thesis
      proof (cases "?enabled \<and> enable_includes (machine_options m)")
        case True
        with g show thesis by (intro expand) simp
      next
        case no: False
        show thesis
        proof (cases ?enabled)
          case True
          with no g obtain m1 where "process_unexpanded_include inc ?l ?sid m = Inr m1" "m' = push_cursor c m1"
            by (auto simp: attempt_Continue)
          then show thesis by (rule unexpanded)
        qed (use g skip in simp)
      qed
    next
      case (EscapedDirective literal)
      note g = go [unfolded EscapedDirective RecognizedDirective.case attempt_Continue]
      show thesis
      proof (cases ?enabled)
        case True
        with g obtain m1 where "process_escaped literal ?l (length ?content) ?sid m = Inr m1" "m' = push_cursor c m1"
          by (auto simp: attempt_Continue)
        then show thesis by (rule escaped)
      qed (use g skip in simp)
    next
      case TextLine
      note g = go [unfolded TextLine RecognizedDirective.case attempt_Continue]
      show thesis
      proof (cases ?enabled)
        case True
        with g obtain a where "process_text host c i ?l ?content m = Inr a" "m' = push_cursor (fst a) (snd a)"
          by (auto simp: attempt_Continue case_prod_beta)
        then show thesis by (rule text_line)
      qed (use g skip in simp)
    qed
  qed
qed

lemma process_line_options:
  assumes "process_line host resources c i m = Continue m'"
  shows "machine_options m' = machine_options m \<and> allocations m \<le> allocations m'"
  using assms
proof (cases rule: process_line_Continue)
  case (attribute_value m1 m2 v)
  then show ?thesis
    by (auto simp: same_control_def push_cursor_def dest!: bump_node_control append_text_control)
next
  case (conditional d k enabled a)
  with process_conditional_control [of c d _ k enabled m "fst a" "snd a"] show ?thesis
    by (simp add: same_control_def push_cursor_def)
next
  case (expand inc)
  from expand_include_control(2,3) [OF this] show ?thesis by simp
next
  case (unexpanded inc m1)
  with process_unexpanded_include_control [OF unexpanded(1)] show ?thesis
    by (simp add: same_control_def push_cursor_def)
next
  case (escaped literal k m1)
  with process_escaped_control [OF escaped(1)] show ?thesis
    by (simp add: same_control_def push_cursor_def)
next
  case (text_line content a)
  with process_text_control [of host c i _ content m "fst a" "snd a"] show ?thesis
    by (simp add: same_control_def push_cursor_def)
qed (simp add: push_cursor_def)

lemma process_line_work:
  assumes "process_line host resources c i m = Continue m'"
  shows "includes_left m' < includes_left m
    \<or> includes_left m' = includes_left m \<and> stack_work (stack m') = stack_work (stack m) + cursor_work c"
  using assms
proof (cases rule: process_line_Continue)
  case (attribute_value m1 m2 v)
  then have "same_control m m2"
    by (blast intro: same_control_trans dest: bump_node_control append_text_control)
  with pushed_work [of m m2 c, OF _ attribute_value(3)] show ?thesis by simp
next
  case skip
  with pushed_work [of m m c, OF _ skip] show ?thesis by simp
next
  case (conditional d k enabled a)
  with process_conditional_control [of c d _ k enabled m "fst a" "snd a"]
    pushed_work [of m "snd a" c, OF _ conditional(2)] show ?thesis by simp
next
  case (expand inc)
  from expand_include_work [OF this] show ?thesis by simp
next
  case (unexpanded inc m1)
  with process_unexpanded_include_control pushed_work [of m m1 c, OF _ unexpanded(2)] show ?thesis by simp
next
  case (escaped literal k m1)
  with process_escaped_control pushed_work [of m m1 c, OF _ escaped(2)] show ?thesis by simp
next
  case (text_line content a)
  with process_text_control [of host c i _ content m "fst a" "snd a"]
    pushed_work [of m "snd a" c, OF _ text_line(2)] show ?thesis by simp
qed

lemma drive_step_work:
  assumes "drive_step host resources m = Continue m'"
  shows "(m', m) \<in> less_work"
proof -
  obtain s c where m: "stack m = s @ [c]"
    using assms by (cases "stack m" rule: rev_cases) (auto simp: drive_step_def)
  let ?m = "m\<lparr>stack := s\<rparr>"
  have total: "stack_work (stack m) = stack_work (stack ?m) + cursor_work c"
    using m by (simp add: stack_work_def)
  show ?thesis
  proof (cases "length (cursor_lines c) \<le> next_line c")
    case True
    with assms m have "m' = ?m" by (auto simp: drive_step_def split: if_splits)
    with total show ?thesis by (simp add: less_work_def includes_left_def cursor_work_def)
  next
    case False
    with assms m obtain m1 where c: "check_cancelled host ?m = Inr m1"
      and p: "process_line host resources (c\<lparr>next_line := Suc (next_line c)\<rparr>) (next_line c) m1 = Continue m'"
      by (auto simp: drive_step_def attempt_Continue)
    have w: "cursor_work (c\<lparr>next_line := Suc (next_line c)\<rparr>) < cursor_work c"
      using False by (simp add: cursor_work_def)
    have "includes_left m1 = includes_left ?m" "stack m1 = s" "includes_left ?m = includes_left m"
      using check_cancelled_control [OF c] by (simp_all add: includes_left_def same_control_def)
    with process_line_work [OF p] total w show ?thesis
      by (auto simp: less_work_def)
  qed
qed

function drive ::
    "cancel_host \<Rightarrow> resource_lookup \<Rightarrow> PreprocessMachine \<Rightarrow> unit failure + PreprocessStep" where
  "drive host resources m =
     (case drive_step host resources m of
        Continue m' \<Rightarrow> drive host resources m'
      | Return s \<Rightarrow> Inr s
      | Panicked \<Rightarrow> Inl Panic)"
  by pat_completeness auto
termination
proof (relation "inv_image less_work (\<lambda>(_, _, m). m)")
  show "wf (inv_image less_work (\<lambda>(_, _, m). m))" by (intro wf_inv_image wf_less_work)
qed (simp add: drive_step_work)

declare drive.simps [simp del]

end
