(* ===== verification/Machine_Invariants.thy ===== *)
theory Machine_Invariants
  imports Machine_Control
begin

text \<open>
  What one iteration of the machine keeps: the limits of the run, the shape of the include
  stack, and that every text mapped exactly is the text of its origin.
\<close>

section \<open>Faithful text\<close>

text \<open>The texts that a source id stands for: the root's and those of the resources with that id.\<close>

type_synonym texts = "str option \<Rightarrow> str set"

definition faithful :: "texts \<Rightarrow> str option \<Rightarrow> TextRange \<Rightarrow> SourceMapping \<Rightarrow> str \<Rightarrow> bool" where
  "faithful tx sid r k v \<longleftrightarrow>
     (k = Identity \<longrightarrow>
        range_len r = length v \<and> (\<exists>t \<in> tx sid. slice t (range_start r) (range_end r) = v))"

lemma faithful_whole [simp]: "faithful tx sid r WholeOrigin v"
  by (simp add: faithful_def)

definition segments_faithful :: "texts \<Rightarrow> str \<Rightarrow> SourceMapSegment list \<Rightarrow> bool" where
  "segments_faithful tx source segs \<longleftrightarrow>
     (\<forall>seg \<in> set segs. faithful tx (origin_source_id (segment_origin seg))
        (origin_range (segment_origin seg)) (mapping seg)
        (slice source (range_start (output_range seg)) (range_end (output_range seg))))"

lemma segments_tile_within:
  "segments_tile a segs b \<Longrightarrow> seg \<in> set segs \<Longrightarrow> a \<le> range_start (output_range seg) \<and> range_end (output_range seg) \<le> b"
proof (induction segs arbitrary: a)
  case (Cons s segs)
  then have t: "segments_tile (range_end (output_range s)) segs b" "range_start (output_range s) = a"
    "range_start (output_range s) < range_end (output_range s)" by (auto simp: segment_ok_def)
  from segments_tile_le [OF t(1)] Cons.IH [OF t(1)] Cons.prems(2) t(2,3) show ?case by force
qed simp

lemma slice_append_left: "b \<le> length xs \<Longrightarrow> slice (xs @ ys) a b = slice xs a b"
  by (cases "a \<le> b") (simp_all add: slice_def)

lemma builder_append_shape:
  assumes "builder_append v sid origin k b = Inr b'" and "length (builder_source b) + length v \<le> usize_max"
  shows "builder_source b' = builder_source b @ v
    \<and> (segments b' = segments b
       \<or> segments b' = segments b @ [\<lparr>output_range = \<lparr>range_start = length (builder_source b),
            range_end = length (builder_source b) + length v\<rparr>,
          segment_origin = \<lparr>origin_source_id = sid, origin_range = origin\<rparr>, mapping = k\<rparr>])"
  using assms by (auto simp: builder_append_def Let_def and_then_eq_Inr checked_range_Inr split: if_splits)

lemma builder_append_faithful:
  assumes "builder_append v sid origin k b = Inr b'" and "builder_ok b" and "faithful tx sid origin k v"
    and "segments_faithful tx (builder_source b) (segments b)"
  shows "builder_ok b' \<and> builder_max_bytes b' = builder_max_bytes b
    \<and> builder_max_segments b' = builder_max_segments b \<and> builder_source b' = builder_source b @ v
    \<and> segments_faithful tx (builder_source b') (segments b')"
proof -
  have "k = Identity \<Longrightarrow> length v = range_len origin" using assms(3) by (simp add: faithful_def)
  from builder_append_cases [where v = v and sid = sid and m = k, OF assms(2) this] assms(1)
  have c: "builder_ok b'" "builder_source b' = builder_source b @ v"
    "builder_max_bytes b' = builder_max_bytes b" "builder_max_segments b' = builder_max_segments b" by auto
  then have "length (builder_source b) + length v \<le> usize_max"
    by (simp add: builder_ok_def u32_max_def usize_max_def)
  note sh = conjunct2 [OF builder_append_shape [OF assms(1) this]]
  have old: "segments_faithful tx (builder_source b @ v) (segments b)"
    unfolding segments_faithful_def
  proof
    fix seg assume seg: "seg \<in> set (segments b)"
    have "range_end (output_range seg) \<le> length (builder_source b)"
      using segments_tile_within [OF _ seg] assms(2) by (auto simp: builder_ok_def)
    with assms(4) seg show "faithful tx (origin_source_id (segment_origin seg))
        (origin_range (segment_origin seg)) (mapping seg)
        (slice (builder_source b @ v) (range_start (output_range seg)) (range_end (output_range seg)))"
      by (simp add: segments_faithful_def slice_append_left)
  qed
  have "slice (builder_source b @ v) (length (builder_source b)) (length (builder_source b) + length v) = v"
    by (simp add: slice_def)
  with sh old assms(3) c(2) have "segments_faithful tx (builder_source b') (segments b')"
    by (auto simp: segments_faithful_def)
  with c show ?thesis by simp
qed

section \<open>The limits of a run\<close>

text \<open>
  Each recorded directive is paid for by a node and each notice by an include; \<open>d\<close> and
  \<open>n\<close> are the payments whose record is still to come.
\<close>

definition core_ok :: "texts \<Rightarrow> nat \<Rightarrow> nat \<Rightarrow> PreprocessMachine \<Rightarrow> bool" where
  "core_ok tx d n m \<longleftrightarrow>
     builder_ok (machine_source_map m)
     \<and> builder_max_bytes (machine_source_map m) = unat (max_total_bytes (machine_options m))
     \<and> builder_max_segments (machine_source_map m) = unat (max_source_map_segments (machine_options m))
     \<and> segments_faithful tx (builder_source (machine_source_map m)) (segments (machine_source_map m))
     \<and> unat (include_count (machine_state m)) \<le> unat (max_includes (machine_options m))
     \<and> unat (node_count (machine_state m)) \<le> unat (max_expanded_nodes (machine_options m))
     \<and> length (machine_directives m) + d \<le> unat (node_count (machine_state m))
     \<and> length (machine_notices m) + n \<le> unat (include_count (machine_state m))
     \<and> state_ok (sequential (machine_state m))"

lemma core_ok_mono: "core_ok tx d n m \<Longrightarrow> d' \<le> d \<Longrightarrow> n' \<le> n \<Longrightarrow> core_ok tx d' n' m"
  by (auto simp: core_ok_def)

lemma core_ok_control [simp]:
  "core_ok tx d n (m\<lparr>stack := s\<rparr>) = core_ok tx d n m"
  "core_ok tx d n (m\<lparr>resolved := r\<rparr>) = core_ok tx d n m"
  "core_ok tx d n (m\<lparr>until_cancel_check := u\<rparr>) = core_ok tx d n m"
  "core_ok tx d n (m\<lparr>host_queries := q\<rparr>) = core_ok tx d n m"
  "core_ok tx d n (m\<lparr>allocations := a\<rparr>) = core_ok tx d n m"
  "core_ok tx d n (push_cursor c m) = core_ok tx d n m"
  by (simp_all add: core_ok_def push_cursor_def)

lemma check_cancelled_keeps:
  assumes "check_cancelled host m = Inr m'" and "core_ok tx d n m"
  shows "core_ok tx d n m' \<and> same_control m m'"
  using assms by (auto simp: check_cancelled_def same_control_def split: if_splits)

lemma bump_node_keeps:
  assumes "bump_node sid r m = Inr m'" and "core_ok tx d n m"
  shows "core_ok tx (Suc d) n m' \<and> same_control m m' \<and> sequential (machine_state m') = sequential (machine_state m)"
proof -
  obtain st where m': "m' = m\<lparr>machine_state := st\<rparr>"
    and r: "register_node (max_expanded_nodes (machine_options m)) (machine_state m) = Inr st"
    using bump_node_Inr [OF assms(1)] .
  from node_counter.tick_Inr [OF r] register_node_frame [OF r] assms(2) show ?thesis
    by (auto simp: m' core_ok_def same_control_def)
qed

lemma append_text_keeps:
  assumes "append_text v sid r k m = Inr m'" and "core_ok tx d n m" and "faithful tx sid r k v"
  shows "core_ok tx d n m' \<and> same_control m m' \<and> machine_state m' = machine_state m"
proof -
  obtain b where b: "builder_append v sid r k (machine_source_map m) = Inr b"
    and m': "m' = m\<lparr>machine_source_map := b\<rparr>"
    using assms(1)
    by (auto simp: append_text_def machine_error_def split: sum.splits failure.splits SourceMapBuildError.splits)
  have "builder_ok (machine_source_map m)"
    "segments_faithful tx (builder_source (machine_source_map m)) (segments (machine_source_map m))"
    using assms(2) by (simp_all add: core_ok_def)
  from builder_append_faithful [OF b this(1) assms(3) this(2)] assms(2) show ?thesis
    by (auto simp: m' core_ok_def same_control_def)
qed

lemma push_directive_keeps:
  "core_ok tx (Suc d) n m \<Longrightarrow> core_ok tx d n (push_directive x m) \<and> same_control m (push_directive x m)"
  by (auto simp: core_ok_def push_directive_def same_control_def)

lemma finish_output_keeps:
  "core_ok tx d n m \<Longrightarrow> core_ok tx d n (finish_output m) \<and> same_control m (finish_output m)"
  by (auto simp: core_ok_def finish_output_def finish_directive_output_def same_control_def)

lemma set_state_keeps:
  assumes "core_ok tx d n m" and "include_count st = include_count (machine_state m)"
    and "node_count st = node_count (machine_state m)" and "state_ok (sequential st)"
  shows "core_ok tx d n (m\<lparr>machine_state := st\<rparr>) \<and> same_control m (m\<lparr>machine_state := st\<rparr>)"
  using assms by (auto simp: core_ok_def same_control_def)

lemma apply_attribute_keeps:
  assumes "apply_attribute occ st = Inr st'" and "state_ok (sequential st)"
  shows "state_ok (sequential st') \<and> include_count st' = include_count st \<and> node_count st' = node_count st"
proof -
  obtain r attrs where a: "apply_occurrence occ (sequential st) = (r, attrs)" by fastforce
  with assms(1) have "st' = st\<lparr>sequential := attrs\<rparr>"
    by (auto simp: apply_attribute_def split: if_splits)
  with apply_occurrence_ok(2) [OF assms(2) a] show ?thesis by simp
qed

section \<open>Lines\<close>

definition line_faithful :: "texts \<Rightarrow> str option \<Rightarrow> SelectedLine \<Rightarrow> bool" where
  "line_faithful tx sid l \<longleftrightarrow> faithful tx sid (selected_range l) (selected_mapping l) (line_text_of l)"

definition cursor_ok :: "texts \<Rightarrow> ExpansionCursor \<Rightarrow> bool" where
  "cursor_ok tx c \<longleftrightarrow>
     next_line c \<le> length (cursor_lines c)
     \<and> list_all (line_faithful tx (frame_source_id (cursor_frame c))) (cursor_lines c)"

lemma ExpansionCursor_new_ok:
  assumes "ExpansionCursor_new lines frame = Inr c" and "list_all (line_faithful tx (frame_source_id frame)) lines"
  shows "cursor_ok tx c \<and> cursor_frame c = frame \<and> cursor_lines c = lines \<and> conditions c = []"
  using assms by (auto simp: ExpansionCursor_new_def cursor_ok_def split: sum.splits failure.splits if_splits)

lemma lines_loop_result:
  "lines_loop host ls offset acc m = Inr (result, m') \<Longrightarrow> core_ok tx d n m \<Longrightarrow>
   drop offset source = concat ls \<Longrightarrow> offset \<le> length source \<Longrightarrow> source \<in> tx sid \<Longrightarrow>
   list_all (line_faithful tx sid) acc \<Longrightarrow>
   list_all (line_faithful tx sid) result \<and> core_ok tx d n m' \<and> same_control m m'
   \<and> map line_text_of result = map line_text_of acc @ ls"
proof (induction ls arbitrary: offset acc m)
  case Nil
  then show ?case by simp
next
  case (Cons l ls)
  let ?r = "\<lparr>range_start = offset, range_end = offset + length l\<rparr>"
  let ?l = "\<lparr>line_text_of = l, selected_range = ?r, selected_mapping = Identity\<rparr>"
  obtain m1 where c: "check_cancelled host m = Inr m1"
    and rest: "lines_loop host ls (offset + length l) (acc @ [?l]) m1 = Inr (result, m')"
    using Cons.prems(1) by (auto simp: and_then_eq_Inr checked_range_Inr)
  note k = check_cancelled_keeps [OF c Cons.prems(2)]
  have next_drop: "drop (offset + length l) source = concat ls"
    using Cons.prems(3) by (metis append_eq_conv_conj concat.simps(2) drop_drop add.commute)
  have next_le: "offset + length l \<le> length source"
    using Cons.prems(3,4) by (metis add_le_cancel_left concat.simps(2) le_add1 le_add_diff_inverse length_append length_drop)
  have "slice source offset (offset + length l) = l" using Cons.prems(3) by (simp add: slice_def)
  then have "line_faithful tx sid ?l"
    using Cons.prems(5) by (auto simp: line_faithful_def faithful_def range_len_def)
  then have "list_all (line_faithful tx sid) (acc @ [?l])" using Cons.prems(6) by simp
  from Cons.IH [OF rest conjunct1 [OF k] next_drop next_le Cons.prems(5) this] k
  show ?case by (auto intro: same_control_trans)
qed

lemma machine_lines_result:
  assumes "machine_lines host source m = Inr (result, m')" and "core_ok tx d n m" and "source \<in> tx sid"
  shows "list_all (line_faithful tx sid) result \<and> core_ok tx d n m' \<and> same_control m m'
    \<and> map line_text_of result = split_inclusive_lf source"
  using lines_loop_result [where source = source and sid = sid, OF assms(1) [unfolded machine_lines_def] assms(2)] assms(3)
  by simp

lemma resource_lines_faithful:
  assumes "select_lines host source attrs q = Inr (selected, q1)"
    and "transform_lines host selected attrs remaining q1 = Inr (result, q2)" and "source \<in> tx sid"
  shows "list_all (line_faithful tx sid) result"
proof -
  have d: "list_all (denotes source) selected" using select_lines_denote [OF assms(1)] by simp
  have "list_all2 keeps_origin selected result"
    using assms(2) unfolding transform_lines_def by (auto dest!: transform_loop_keeps)
  then show ?thesis using d
    by (induction rule: list_all2_induct)
       (use assms(3) in \<open>auto simp: keeps_origin_def denotes_def line_faithful_def faithful_def split: if_splits\<close>)
qed

section \<open>Processing a line\<close>

lemma attribute_entry_keeps:
  assumes "attribute_entry host delimiter c i l content m = Inr (entry, m')" and "core_ok tx d n m"
  shows "core_ok tx d n m' \<and> same_control m m' \<and> machine_state m' = machine_state m"
  using assms
  by (auto simp: attribute_entry_def Let_def and_then_eq_Inr map_err_eq_Inr same_control_def split: if_splits)

lemma process_conditional_keeps:
  assumes "process_conditional c directive l k enabled m = Inr (c', m')" and "core_ok tx d n m"
  shows "core_ok tx d n m'"
  using assms(1)
proof (cases rule: process_conditional_cases)
  case (1 m1 x)
  with push_directive_keeps bump_node_keeps [OF 1(1) assms(2)] show ?thesis by blast
next
  case (2 m1 x m2)
  from push_directive_keeps bump_node_keeps [OF 2(1) assms(2)] have "core_ok tx d n (push_directive x m1)" by blast
  from append_text_keeps [OF 2(2) this faithful_whole] finish_output_keeps 2(4) show ?thesis by blast
next
  case (3 m1 x conds)
  with push_directive_keeps bump_node_keeps [OF 3(1) assms(2)] show ?thesis by blast
qed

lemma process_unexpanded_include_keeps:
  assumes "process_unexpanded_include inc l sid m = Inr m'" and "core_ok tx d n m" and "line_faithful tx sid l"
  shows "core_ok tx d n m' \<and> same_control m m'"
proof -
  obtain m1 x m2 where b: "bump_node sid (selected_range l) m = Inr m1"
    and a: "append_text (line_text_of l) sid (selected_range l) (selected_mapping l) (push_directive x m1) = Inr m2"
    and m': "m' = finish_output m2"
    using assms(1) unfolding process_unexpanded_include_def Let_def and_then_eq_Inr by (elim exE conjE) blast
  from bump_node_keeps [OF b assms(2)] have b1: "core_ok tx (Suc d) n m1" "same_control m m1" by auto
  from push_directive_keeps [OF b1(1), of x] b1(2)
  have p: "core_ok tx d n (push_directive x m1)" "same_control m (push_directive x m1)"
    by (auto intro: same_control_trans)
  from append_text_keeps [OF a p(1)] assms(3) have a2: "core_ok tx d n m2" "same_control (push_directive x m1) m2"
    by (auto simp: line_faithful_def)
  from finish_output_keeps [OF a2(1)] a2(2) p(2) m' show ?thesis by (metis same_control_trans)
qed

lemma process_escaped_keeps:
  assumes "process_escaped literal l k sid m = Inr m'" and "core_ok tx d n m"
  shows "core_ok tx d n m' \<and> same_control m m'"
proof -
  obtain m2 where a: "append_text (literal @ drop k (line_text_of l)) sid (selected_range l) WholeOrigin m = Inr m2"
    and m': "m' = finish_output m2"
    using assms(1) by (auto simp: process_escaped_def and_then_eq_Inr)
  from append_text_keeps [OF a assms(2) faithful_whole] have a2: "core_ok tx d n m2" "same_control m m2" by auto
  from finish_output_keeps [OF a2(1)] a2(2) m' show ?thesis by (metis same_control_trans)
qed

text \<open>The application of an attribute entry to the state and the cursor.\<close>

lemma entry_step_keeps:
  assumes "(case entry of
        None \<Rightarrow> Inr (c, False, m)
      | Some (occ, _, last_line) \<Rightarrow>
          and_then (apply_attribute occ (machine_state m)) (\<lambda>st.
            Inr (if i < last_line then c\<lparr>attribute_value_through := Some last_line\<rparr> else c,
                 True, m\<lparr>machine_state := st\<rparr>))) = (Inr (c', found, m') :: (ExpansionCursor \<times> bool \<times> PreprocessMachine) run)"
    and "core_ok tx d n m"
  shows "core_ok tx d n m' \<and> same_control m m' \<and> (\<exists>v. c' = c\<lparr>attribute_value_through := v\<rparr>)"
proof -
  have self: "\<exists>v. c = c\<lparr>attribute_value_through := v\<rparr>" by (intro exI [of _ "attribute_value_through c"]) simp
  show ?thesis
  proof (cases entry)
    case None
    with assms self show ?thesis by simp
  next
    case (Some e)
    obtain occ problem last_line where e: "e = (occ, problem, last_line)" by (cases e)
    with assms(1) Some obtain st where st: "apply_attribute occ (machine_state m) = (Inr st :: ExpansionState run)"
      and c': "c' = (if i < last_line then c\<lparr>attribute_value_through := Some last_line\<rparr> else c)"
        "m' = m\<lparr>machine_state := st\<rparr>"
      by (auto simp: and_then_eq_Inr)
    have "state_ok (sequential (machine_state m))" using assms(2) by (simp add: core_ok_def)
    from apply_attribute_keeps [OF st this] set_state_keeps [OF assms(2), of st] c' self
    show ?thesis by auto
  qed
qed

lemma process_text_keeps:
  assumes "process_text host c i l content m = Inr (c', m')" and "core_ok tx d n m"
    and "line_faithful tx (frame_source_id (cursor_frame c)) l"
  shows "core_ok tx d n m' \<and> same_control m m' \<and> (\<exists>v. c' = c\<lparr>attribute_value_through := v\<rparr>)"
proof -
  let ?sid = "frame_source_id (cursor_frame c)" and ?r = "selected_range l"
  obtain delimiter st where o: "observe_delimiter content (machine_state m) = (delimiter, st)" by fastforce
  obtain m1 entry m2 found m3 m4 where b: "bump_node ?sid ?r (m\<lparr>machine_state := st\<rparr>) = Inr m1"
    and e: "attribute_entry host delimiter c i l content m1 = Inr (entry, m2)"
    and s: "(case entry of
        None \<Rightarrow> Inr (c, False, m2)
      | Some (occ, _, last_line) \<Rightarrow>
          and_then (apply_attribute occ (machine_state m2)) (\<lambda>st.
            Inr (if i < last_line then c\<lparr>attribute_value_through := Some last_line\<rparr> else c,
                 True, m2\<lparr>machine_state := st\<rparr>))) = (Inr (c', found, m3) :: (ExpansionCursor \<times> bool \<times> PreprocessMachine) run)"
    and a: "append_text (line_text_of l) ?sid ?r (selected_mapping l) m3 = Inr m4"
    and m': "m' = m4\<lparr>machine_state := finish_line found content (machine_state m4)\<rparr>"
    using assms(1) o by (auto simp: process_text_def Let_def and_then_eq_Inr)
  have "state_ok (sequential (machine_state m))" using assms(2) by (simp add: core_ok_def)
  with observe_delimiter_frame [of content "machine_state m"] o
  have m0: "core_ok tx d n (m\<lparr>machine_state := st\<rparr>)" "same_control m (m\<lparr>machine_state := st\<rparr>)"
    using set_state_keeps [OF assms(2), of st] by auto
  from bump_node_keeps [OF b m0(1)] have m1: "core_ok tx d n m1" "same_control m m1"
    using m0(2) by (auto intro: core_ok_mono same_control_trans)
  from attribute_entry_keeps [OF e m1(1)] have m2: "core_ok tx d n m2" "same_control m m2"
    using m1(2) by (auto intro: same_control_trans)
  from entry_step_keeps [OF s m2(1)] have m3: "core_ok tx d n m3" "same_control m m3"
    and c': "\<exists>v. c' = c\<lparr>attribute_value_through := v\<rparr>"
    using m2(2) by (auto intro: same_control_trans)
  from append_text_keeps [OF a m3(1)] assms(3) have m4: "core_ok tx d n m4" "same_control m m4"
    using m3(2) by (auto simp: line_faithful_def intro: same_control_trans)
  have "state_ok (sequential (machine_state m4))" using m4(1) by (simp add: core_ok_def)
  with set_state_keeps [OF m4(1), of "finish_line found content (machine_state m4)"] m4(2) m' c'
  show ?thesis by (auto simp: finish_line_def intro: same_control_trans)
qed

section \<open>The include stack\<close>

text \<open>
  The frame at height \<open>i\<close> of the stack has depth \<open>i\<close>, and its chain of active targets has
  that length, no repetition and only validated targets.
\<close>

definition frame_ok :: "PreprocessOptions \<Rightarrow> nat \<Rightarrow> IncludeFrame \<Rightarrow> bool" where
  "frame_ok opts i f \<longleftrightarrow>
     length (active_targets f) = i \<and> unat (frame_depth f) = i \<and> i \<le> unat (max_include_depth opts)
     \<and> distinct (active_targets f) \<and> (\<forall>t \<in> set (active_targets f). validate_target t opts = Inr ())"

definition stack_ok :: "texts \<Rightarrow> PreprocessOptions \<Rightarrow> ExpansionCursor list \<Rightarrow> bool" where
  "stack_ok tx opts s \<longleftrightarrow>
     (\<forall>i < length s. frame_ok opts i (cursor_frame (s ! i)) \<and> cursor_ok tx (s ! i))"

lemma stack_ok_snoc:
  "stack_ok tx opts (s @ [c]) \<longleftrightarrow>
     stack_ok tx opts s \<and> frame_ok opts (length s) (cursor_frame c) \<and> cursor_ok tx c"
  by (auto simp: stack_ok_def nth_append less_Suc_eq)

lemma stack_ok_Nil [simp]: "stack_ok tx opts []"
  by (simp add: stack_ok_def)

lemma frame_child_ok:
  assumes "frame_ok opts i f" and "unat (frame_depth f) < unat (max_include_depth opts)"
    and "validate_target t opts = Inr ()" and "\<not> contains_target t f"
  shows "frame_ok opts (Suc i) (frame_child t sid base f)"
proof -
  have "unat (frame_depth f) + 1 < 2 ^ 32"
    using assms(2) unsigned_less [of "max_include_depth opts", where ?'a = nat] by simp
  then have "unat (saturating_add (frame_depth f) 1) = Suc (unat (frame_depth f))"
    by (simp add: unat_saturating_add)
  with assms show ?thesis
    by (auto simp: frame_ok_def frame_child_def contains_target_def list_ex_iff)
qed

text \<open>The host's view of the resources agrees with the texts of the run.\<close>

definition resources_ok :: "texts \<Rightarrow> resource_lookup \<Rightarrow> bool" where
  "resources_ok tx resources \<longleftrightarrow>
     (\<forall>t d. resources t = Ready d \<longrightarrow> resource_source d \<in> tx (Some (resource_id d)))"

definition answer_ok :: "texts \<Rightarrow> ResourceDocument option \<Rightarrow> bool" where
  "answer_ok tx answer \<longleftrightarrow>
     (case answer of None \<Rightarrow> True | Some d \<Rightarrow> resource_source d \<in> tx (Some (resource_id d)))"

definition resolved_ok :: "texts \<Rightarrow> PreprocessOptions \<Rightarrow> (str \<rightharpoonup> ResourceDocument option) \<Rightarrow> bool" where
  "resolved_ok tx opts found \<longleftrightarrow>
     (\<forall>t answer. found t = Some answer \<longrightarrow> validate_target t opts = Inr () \<and> answer_ok tx answer)"

definition machine_ok :: "texts \<Rightarrow> PreprocessMachine \<Rightarrow> bool" where
  "machine_ok tx m \<longleftrightarrow>
     core_ok tx 0 0 m \<and> stack_ok tx (machine_options m) (stack m)
     \<and> resolved_ok tx (machine_options m) (resolved m)"

text \<open>A pending include belongs to the top of the stack and may be opened there.\<close>

definition pending_ok :: "PreprocessMachine \<Rightarrow> PendingInclude \<Rightarrow> bool" where
  "pending_ok m p \<longleftrightarrow>
     stack m \<noteq> [] \<and> frame_ok (machine_options m) (length (stack m) - 1) (pending_frame p)
     \<and> unat (frame_depth (pending_frame p)) < unat (max_include_depth (machine_options m))
     \<and> validate_target (pending_target p) (machine_options m) = Inr ()
     \<and> \<not> contains_target (pending_target p) (pending_frame p)"

definition waiting_ok :: "texts \<Rightarrow> PendingInclude \<Rightarrow> PreprocessMachine \<Rightarrow> bool" where
  "waiting_ok tx p m \<longleftrightarrow>
     core_ok tx 1 1 m \<and> stack_ok tx (machine_options m) (stack m)
     \<and> resolved_ok tx (machine_options m) (resolved m) \<and> pending_ok m p"

lemma prepare_include_waiting:
  assumes "prepare_include inc (cursor_frame c) r m = Inr (p, m')" and "core_ok tx 0 0 m"
    and "stack_ok tx (machine_options m) (stack m @ [c])" and "resolved_ok tx (machine_options m) (resolved m)"
  shows "waiting_ok tx p (push_cursor c m') \<and> machine_options m' = machine_options m"
  using assms(1)
proof (cases rule: prepare_include_cases)
  case (1 m1 expanded attrs target_r)
  obtain k where m1: "m1 = m\<lparr>machine_state := (machine_state m)\<lparr>include_count := k\<rparr>\<rparr>"
    and k: "unat (include_count (machine_state m)) < unat (max_includes (machine_options m))"
      "unat k = Suc (unat (include_count (machine_state m)))"
    using register_machine_include_frame [OF 1(1)] .
  have "core_ok tx 0 1 m1" using assms(2) k by (auto simp: m1 core_ok_def)
  from bump_node_keeps [OF 1(2) this] have m': "core_ok tx 1 1 m'" "same_control m1 m'" by auto
  have f: "frame_ok (machine_options m) (length (stack m)) (cursor_frame c)"
    using assms(3) by (simp add: stack_ok_snoc)
  have "unat (frame_depth (cursor_frame c)) < unat (max_include_depth (machine_options m))"
    using 1(3) by (simp add: word_le_nat_alt)
  with m' f 1(4-6) assms(3,4) m1 show ?thesis
    by (simp add: waiting_ok_def pending_ok_def same_control_def) (simp add: push_cursor_def)
qed

lemma resolved_ok_insert:
  "resolved_ok tx opts found \<Longrightarrow> validate_target t opts = Inr () \<Longrightarrow> answer_ok tx answer \<Longrightarrow>
   resolved_ok tx opts (found(t \<mapsto> answer))"
  by (simp add: resolved_ok_def)

lemma waiting_ok_resolved:
  "waiting_ok tx p m \<Longrightarrow> answer_ok tx answer \<Longrightarrow>
   waiting_ok tx p (m\<lparr>resolved := (resolved m)(pending_target p \<mapsto> answer)\<rparr>)"
  unfolding waiting_ok_def by (auto intro: resolved_ok_insert simp: pending_ok_def)

lemma lookup_resource_waiting:
  assumes "lookup_resource resources p m = (found, m')" and "waiting_ok tx p m" and "resources_ok tx resources"
  shows "waiting_ok tx p m' \<and> machine_options m' = machine_options m
    \<and> (\<forall>answer. found = Resolved answer \<longrightarrow> answer_ok tx answer)"
proof (cases "resolved m (pending_target p)")
  case (Some answer)
  with assms(1) have "m' = m" "found = Resolved answer" by (auto simp: lookup_resource_def)
  with Some assms(2) show ?thesis by (auto simp: waiting_ok_def resolved_ok_def)
next
  case None
  show ?thesis
  proof (cases "resources (pending_target p)")
    case (Ready d)
    then have "answer_ok tx (Some d)" using assms(3) by (simp add: resources_ok_def answer_ok_def)
    with None Ready assms(1) waiting_ok_resolved [OF assms(2) this] show ?thesis
      by (auto simp: lookup_resource_def)
  next
    case Missing
    have "answer_ok tx None" by (simp add: answer_ok_def)
    with None Missing assms(1) waiting_ok_resolved [OF assms(2) this] show ?thesis
      by (auto simp: lookup_resource_def)
  next
    case Deferred
    with None assms(1,2) show ?thesis by (auto simp: lookup_resource_def waiting_ok_def pending_ok_def)
  next
    case (LookupFailed x4)
    with None assms(1,2) show ?thesis by (auto simp: lookup_resource_def)
  qed
qed

lemma resolve_pending_machine_ok:
  assumes "resolve_pending host p answer m = Inr (child, m')" and "waiting_ok tx p m" and "answer_ok tx answer"
  shows "machine_ok tx (case child of None \<Rightarrow> m' | Some c \<Rightarrow> push_cursor c m') \<and> machine_options m' = machine_options m"
  using assms(1)
proof (cases rule: resolve_pending_cases)
  case missing
  have "core_ok tx 0 0 m'"
    using assms(2) by (auto simp: missing(4) waiting_ok_def core_ok_def push_directive_def)
  with assms(2) missing show ?thesis
    by (simp add: machine_ok_def waiting_ok_def push_directive_def)
next
  case (opened d c)
  let ?m = "push_directive (include_directive p (Some d)) m"
  let ?frame = "frame_child (pending_target p) (resource_id d) (target_base (pending_target p)) (pending_frame p)"
  have "core_ok tx 0 1 ?m" using assms(2) push_directive_keeps by (simp add: waiting_ok_def)
  then have core: "core_ok tx 0 0 ?m" by (rule core_ok_mono) simp_all
  from opened(3) show ?thesis
  proof (cases rule: open_resource_cases)
    case (1 selected q1 transformed q2)
    have "resource_source d \<in> tx (Some (resource_id d))"
      using assms(3) opened(1) by (simp add: answer_ok_def)
    from resource_lines_faithful [where tx = tx and sid = "Some (resource_id d)", OF 1(1,2) this]
    have "list_all (line_faithful tx (frame_source_id ?frame)) transformed" by (simp add: frame_child_def)
    from ExpansionCursor_new_ok [OF 1(3) this] have c: "cursor_ok tx c" "cursor_frame c = ?frame" by auto
    have "frame_ok (machine_options m) (Suc (length (stack m) - 1)) ?frame"
      using assms(2) by (intro frame_child_ok) (auto simp: waiting_ok_def pending_ok_def)
    moreover have "Suc (length (stack m) - 1) = length (stack m)"
      using assms(2) by (auto simp: waiting_ok_def pending_ok_def)
    ultimately have "stack_ok tx (machine_options m) (stack m @ [c])"
      using assms(2) c by (simp add: stack_ok_snoc waiting_ok_def)
    moreover have "stack m' = stack m" "machine_options m' = machine_options m" "resolved m' = resolved m"
      by (simp_all add: 1(4) push_directive_def)
    moreover have "core_ok tx 0 0 m'" using core by (simp add: 1(4))
    ultimately show ?thesis
      using assms(2) opened(2) by (simp add: machine_ok_def waiting_ok_def) (simp add: push_cursor_def)
  qed
qed

section \<open>One iteration\<close>

lemma push_machine_ok:
  assumes "core_ok tx 0 0 m'" and "same_control m m'" and "same_place c c'"
    and "stack_ok tx (machine_options m) (stack m @ [c])" and "resolved_ok tx (machine_options m) (resolved m)"
  shows "machine_ok tx (push_cursor c' m') \<and> machine_options (push_cursor c' m') = machine_options m"
proof -
  have "stack_ok tx (machine_options m) (stack m @ [c'])"
    using assms(3,4) by (simp add: stack_ok_snoc same_place_def cursor_ok_def)
  with assms show ?thesis
    by (simp add: machine_ok_def) (simp add: push_cursor_def same_control_def)
qed

lemma expand_include_machine_ok:
  assumes "core_ok tx 0 0 m" and "stack_ok tx (machine_options m) (stack m @ [c])"
    and "resolved_ok tx (machine_options m) (resolved m)" and "resources_ok tx resources"
  shows "expand_include host resources inc c l m = Continue m' \<Longrightarrow>
      machine_ok tx m' \<and> machine_options m' = machine_options m"
    and "expand_include host resources inc c l m = Return s \<Longrightarrow>
      (case s of NeedResource sus \<Rightarrow>
           waiting_ok tx (suspended_pending sus) (suspended_machine sus)
           \<and> machine_options (suspended_machine sus) = machine_options m
           \<and> (\<exists>k. suspended_request sus = resource_request (suspended_pending sus) k)
           \<and> resources (pending_target (suspended_pending sus)) = Deferred
         | Complete d \<Rightarrow> False | _ \<Rightarrow> True)"
proof -
  assume "expand_include host resources inc c l m = Continue m'"
  then obtain p m1 m2 answer child m3 where
    p: "prepare_include inc (cursor_frame c) (selected_range l) m = Inr (p, m1)"
    and f: "lookup_resource resources p (push_cursor c m1) = (Resolved answer, m2)"
    and r: "resolve_pending host p answer m2 = Inr (child, m3)"
    and m': "m' = (case child of None \<Rightarrow> m3 | Some c \<Rightarrow> push_cursor c m3)"
    by (rule expand_include_Continue)
  from prepare_include_waiting [OF p assms(1-3)]
  have w1: "waiting_ok tx p (push_cursor c m1)" "machine_options m1 = machine_options m" by auto
  from lookup_resource_waiting [OF f w1(1) assms(4)]
  have w2: "waiting_ok tx p m2" "machine_options m2 = machine_options (push_cursor c m1)" "answer_ok tx answer" by auto
  from resolve_pending_machine_ok [OF r w2(1,3)] w1(2) w2(2) m'
  show "machine_ok tx m' \<and> machine_options m' = machine_options m"
    by (auto simp: push_cursor_def split: option.splits)
next
  assume e: "expand_include host resources inc c l m = Return s"
  then show "case s of NeedResource sus \<Rightarrow>
           waiting_ok tx (suspended_pending sus) (suspended_machine sus)
           \<and> machine_options (suspended_machine sus) = machine_options m
           \<and> (\<exists>k. suspended_request sus = resource_request (suspended_pending sus) k)
           \<and> resources (pending_target (suspended_pending sus)) = Deferred
         | Complete d \<Rightarrow> False | _ \<Rightarrow> True"
  proof (cases rule: expand_include_Return)
    case (failure f)
    then show ?thesis by (cases f) (simp_all add: into_step_def)
  next
    case (deferred p m1 m2 req)
    from prepare_include_waiting [OF deferred(1) assms(1-3)]
    have w1: "waiting_ok tx p (push_cursor c m1)" "machine_options m1 = machine_options m" by auto
    from lookup_resource_waiting [OF deferred(2) w1(1) assms(4)]
    have w2: "waiting_ok tx p m2" "machine_options m2 = machine_options (push_cursor c m1)" by auto
    have "\<exists>k. req = resource_request p k" "resources (pending_target p) = Deferred"
      using deferred(2) by (auto simp: lookup_resource_def split: option.splits ResourceLookupResult.splits)
    with w1(2) w2 deferred(3) show ?thesis by (simp add: push_cursor_def)
  qed simp
qed

lemma process_line_Return:
  assumes "process_line host resources c i m = Return s"
  shows "(\<exists>f. s = into_step f) \<or> (\<exists>inc. expand_include host resources inc c (cursor_lines c ! i) m = Return s)"
proof (cases "case attribute_value_through c of None \<Rightarrow> False | Some last_line \<Rightarrow> i \<le> last_line")
  case True
  with assms show ?thesis
    by (auto simp: process_line_def Let_def continue_attribute_value_def attempt_Return)
next
  case False
  note go = assms [unfolded process_line_def Let_def if_not_P [OF False]]
  show ?thesis
  proof (cases "recognize (line_content_text (line_text_of (cursor_lines c ! i)))")
    case (ConditionalDirective d)
    from go [unfolded ConditionalDirective RecognizedDirective.case] show ?thesis
      by (simp add: attempt_Return case_prod_beta) blast
  next
    case (IncludeDirective inc)
    from go [unfolded IncludeDirective RecognizedDirective.case] show ?thesis
      by (auto simp: attempt_Return split: if_splits)
  next
    case (EscapedDirective literal)
    from go [unfolded EscapedDirective RecognizedDirective.case] show ?thesis
      by (auto simp: attempt_Return split: if_splits)
  next
    case TextLine
    from go [unfolded TextLine RecognizedDirective.case] show ?thesis
      by (auto simp: attempt_Return case_prod_beta split: if_splits)
  qed
qed

lemma cursor_line_faithful:
  "cursor_ok tx c \<Longrightarrow> i < length (cursor_lines c) \<Longrightarrow>
   line_faithful tx (frame_source_id (cursor_frame c)) (cursor_lines c ! i)"
  by (simp add: cursor_ok_def list_all_length)

lemma process_line_machine_ok:
  assumes "process_line host resources c i m = Continue m'" and "i < length (cursor_lines c)"
    and core: "core_ok tx 0 0 m" and st: "stack_ok tx (machine_options m) (stack m @ [c])"
    and res: "resolved_ok tx (machine_options m) (resolved m)" and "resources_ok tx resources"
  shows "machine_ok tx m' \<and> machine_options m' = machine_options m"
proof -
  have l: "line_faithful tx (frame_source_id (cursor_frame c)) (cursor_lines c ! i)"
    using st assms(2) by (simp add: stack_ok_snoc cursor_line_faithful)
  note push = push_machine_ok [OF _ _ _ st res]
  from assms(1) show ?thesis
  proof (cases rule: process_line_Continue)
    case (attribute_value m1 m2 v)
    from bump_node_keeps [OF attribute_value(1) core] have m1: "core_ok tx 0 0 m1" "same_control m m1"
      by (auto intro: core_ok_mono)
    from append_text_keeps [OF attribute_value(2) m1(1)] l m1(2)
    have m2: "core_ok tx 0 0 m2" "same_control m m2"
      by (auto simp: line_faithful_def intro: same_control_trans)
    from push [OF m2] attribute_value(3) show ?thesis by simp
  next
    case skip
    from push [OF core] skip show ?thesis by simp
  next
    case (conditional d k enabled a)
    then have p: "process_conditional c d (cursor_lines c ! i) k enabled m = Inr (fst a, snd a)" by simp
    from push [OF process_conditional_keeps [OF p core]] process_conditional_control [OF p] conditional(2)
    show ?thesis by simp
  next
    case (expand inc)
    from expand_include_machine_ok(1) [OF core st res assms(6) expand] show ?thesis .
  next
    case (unexpanded inc m1)
    from process_unexpanded_include_keeps [OF unexpanded(1) core l] push unexpanded(2) show ?thesis by simp
  next
    case (escaped literal k m1)
    from process_escaped_keeps [OF escaped(1) core] push escaped(2) show ?thesis by simp
  next
    case (text_line content a)
    then have p: "process_text host c i (cursor_lines c ! i) content m = Inr (fst a, snd a)" by simp
    from process_text_keeps [OF p core l] process_text_control [OF p] push text_line(2)
    show ?thesis by simp
  qed
qed

text \<open>What a finished document and a suspension promise.\<close>

definition document_ok :: "texts \<Rightarrow> PreprocessOptions \<Rightarrow> PreprocessedDocument \<Rightarrow> bool" where
  "document_ok tx opts d \<longleftrightarrow>
     length (document_source d) \<le> unat (max_total_bytes opts)
     \<and> length (source_map d) \<le> unat (max_source_map_segments opts)
     \<and> length (document_directives d) \<le> unat (max_expanded_nodes opts)
     \<and> length (document_notices d) \<le> unat (max_includes opts)
     \<and> segments_tile 0 (source_map d) (length (document_source d))
     \<and> segments_faithful tx (document_source d) (source_map d)"

definition suspended_ok :: "texts \<Rightarrow> PreprocessOptions \<Rightarrow> SuspendedPreprocess \<Rightarrow> bool" where
  "suspended_ok tx opts sus \<longleftrightarrow>
     waiting_ok tx (suspended_pending sus) (suspended_machine sus)
     \<and> machine_options (suspended_machine sus) = opts
     \<and> (\<exists>k. suspended_request sus = resource_request (suspended_pending sus) k)"

definition step_ok :: "texts \<Rightarrow> PreprocessOptions \<Rightarrow> PreprocessStep \<Rightarrow> bool" where
  "step_ok tx opts s \<longleftrightarrow>
     (case s of Complete d \<Rightarrow> document_ok tx opts d | NeedResource sus \<Rightarrow> suspended_ok tx opts sus
      | _ \<Rightarrow> True)"

lemma step_ok_simps [simp]:
  "step_ok tx opts (into_step f)" "step_ok tx opts (Failed e)" "step_ok tx opts (HostError h)"
  "step_ok tx opts Cancelled"
  by (cases f) (simp_all add: step_ok_def into_step_def)

lemma finish_ok:
  assumes "core_ok tx 0 0 m"
  shows "step_ok tx (machine_options m) (finish host m)"
proof -
  have b: "builder_ok (machine_source_map m)" using assms by (simp add: core_ok_def)
  show ?thesis
  proof (cases "finish host m")
    case (Complete d)
    then obtain cp where "finish_cancellable host (machine_source_map m) (machine_directives m)
        (machine_notices m) (checkpoint_new (Suc (host_queries m))) = Inr (d, cp)"
      by (auto simp: finish_def split: if_splits sum.splits SourceMapFinishError.splits)
    with finish_cases [OF b, of host "machine_directives m" "machine_notices m" "checkpoint_new (Suc (host_queries m))"]
    have "d = \<lparr>document_source = builder_source (machine_source_map m), source_map = segments (machine_source_map m),
        document_directives = machine_directives m, document_notices = machine_notices m\<rparr>" by simp
    with Complete assms show ?thesis by (auto simp: step_ok_def document_ok_def core_ok_def builder_ok_def)
  qed (auto simp: finish_def split: if_splits sum.splits SourceMapFinishError.splits)
qed

lemma drive_step_ok:
  assumes "machine_ok tx m" and "resources_ok tx resources"
  shows "drive_step host resources m = Continue m' \<Longrightarrow>
      machine_ok tx m' \<and> machine_options m' = machine_options m"
    and "drive_step host resources m = Return s \<Longrightarrow> step_ok tx (machine_options m) s"
proof -
  have "(drive_step host resources m = Continue m' \<longrightarrow>
      machine_ok tx m' \<and> machine_options m' = machine_options m)
    \<and> (drive_step host resources m = Return s \<longrightarrow> step_ok tx (machine_options m) s)"
  proof (cases "stack m" rule: rev_cases)
    case Nil
    with finish_ok [of tx m host] assms(1) show ?thesis by (auto simp: drive_step_def machine_ok_def)
  next
    case (snoc rest c)
    have st: "stack_ok tx (machine_options m) (rest @ [c])" and core: "core_ok tx 0 0 m"
      and res: "resolved_ok tx (machine_options m) (resolved m)"
      using assms(1) snoc by (simp_all add: machine_ok_def)
    show ?thesis
    proof (cases "length (cursor_lines c) \<le> next_line c")
      case True
      have "machine_ok tx (m\<lparr>stack := rest\<rparr>)"
        using st core res by (simp add: machine_ok_def stack_ok_snoc)
      with True snoc show ?thesis by (auto simp: drive_step_def)
    next
      case False
      let ?c = "c\<lparr>next_line := Suc (next_line c)\<rparr>"
      have step: "drive_step host resources m =
          attempt (check_cancelled host (m\<lparr>stack := rest\<rparr>)) (process_line host resources ?c (next_line c))"
        using False snoc by (simp add: drive_step_def)
      have cl: "core_ok tx 0 0 (m\<lparr>stack := rest\<rparr>)" using core by simp
      have st': "stack_ok tx (machine_options m) (rest @ [?c])"
        using st False by (simp add: stack_ok_snoc cursor_ok_def)
      have inv: "core_ok tx 0 0 m1 \<and> stack_ok tx (machine_options m1) (stack m1 @ [?c])
          \<and> resolved_ok tx (machine_options m1) (resolved m1) \<and> machine_options m1 = machine_options m"
        if "check_cancelled host (m\<lparr>stack := rest\<rparr>) = Inr m1" for m1
        using check_cancelled_keeps [OF that cl] st' res by (simp add: same_control_def)
      have i: "next_line c < length (cursor_lines ?c)" using False by simp
      show ?thesis
      proof (intro conjI impI)
        assume "drive_step host resources m = Continue m'"
        then obtain m1 where c: "check_cancelled host (m\<lparr>stack := rest\<rparr>) = Inr m1"
          and p: "process_line host resources ?c (next_line c) m1 = Continue m'"
          unfolding step attempt_Continue by blast
        from process_line_machine_ok [OF p i] inv [OF c] assms(2)
        show "machine_ok tx m'" "machine_options m' = machine_options m" by auto
      next
        assume "drive_step host resources m = Return s"
        then consider f where "s = into_step f"
          | m1 where "check_cancelled host (m\<lparr>stack := rest\<rparr>) = Inr m1"
              "process_line host resources ?c (next_line c) m1 = Return s"
          unfolding step attempt_Return by blast
        then show "step_ok tx (machine_options m) s"
        proof cases
          case 2
          from process_line_Return [OF 2(2)] show ?thesis
          proof
            assume "\<exists>inc. expand_include host resources inc ?c (cursor_lines ?c ! next_line c) m1 = Return s"
            then obtain inc where e: "expand_include host resources inc ?c (cursor_lines ?c ! next_line c) m1 = Return s" by blast
            note iv = inv [OF 2(1)]
            from expand_include_machine_ok(2) [OF _ _ _ assms(2) e] iv
            show ?thesis by (auto simp: step_ok_def suspended_ok_def split: PreprocessStep.splits)
          qed auto
        qed simp
      qed
    qed
  qed
  then show "drive_step host resources m = Continue m' \<Longrightarrow> machine_ok tx m' \<and> machine_options m' = machine_options m"
    and "drive_step host resources m = Return s \<Longrightarrow> step_ok tx (machine_options m) s" by blast+
qed

lemma drive_ok:
  "drive host resources m = Inr s \<Longrightarrow> machine_ok tx m \<Longrightarrow> resources_ok tx resources \<Longrightarrow>
   step_ok tx (machine_options m) s"
proof (induction host resources m rule: drive.induct)
  case (1 host resources m)
  show ?case
  proof (cases "drive_step host resources m")
    case (Continue m')
    with "1.prems"(1) have "drive host resources m' = Inr s" by (subst (asm) drive.simps) simp
    with "1.IH" [OF Continue] drive_step_ok(1) [OF "1.prems"(2,3) Continue] "1.prems"(3) show ?thesis by simp
  next
    case (Return s')
    with "1.prems"(1) have "s' = s" by (subst (asm) drive.simps) simp
    with drive_step_ok(2) [OF "1.prems"(2,3)] Return show ?thesis by simp
  next
    case Panicked
    with "1.prems"(1) show ?thesis by (subst (asm) drive.simps) simp
  qed
qed

end
