(* ===== verification/Preprocessor.thy ===== *)
theory Preprocessor
  imports Machine_Control
begin

text \<open>
  The resumable interface of \<open>preprocessor.rs\<close> over the machine: starting a run, suspending
  at a deferred resource, resuming with the host's response, and the effective processing
  contract that binds a prepared document to the options that produced it.
\<close>

section \<open>Requests and responses\<close>

datatype ResourceResponseOutcome = Found ResourceDocument | NotFound | ResponseLoadFailed str

record ResourceResponse =
  response_correlation :: nat
  response_outcome :: ResourceResponseOutcome

definition found :: "ResourceRequest \<Rightarrow> ResourceDocument \<Rightarrow> ResourceResponse" where
  "found req document =
     \<lparr>response_correlation = request_correlation req, response_outcome = Found document\<rparr>"

definition not_found :: "ResourceRequest \<Rightarrow> ResourceResponse" where
  "not_found req = \<lparr>response_correlation = request_correlation req, response_outcome = NotFound\<rparr>"

definition load_failed :: "ResourceRequest \<Rightarrow> str \<Rightarrow> ResourceResponse" where
  "load_failed req text =
     \<lparr>response_correlation = request_correlation req, response_outcome = ResponseLoadFailed text\<rparr>"

section \<open>Running and resuming\<close>

text \<open>
  \<open>resume\<close> continues the numbering of the cancellation queries where the suspended machine
  left it; the host that answers them may be another one.
\<close>

definition resume_with ::
    "cancel_host \<Rightarrow> SuspendedPreprocess \<Rightarrow> ResourceDocument option \<Rightarrow> resource_lookup
     \<Rightarrow> PreprocessMachine \<Rightarrow> unit failure + PreprocessStep" where
  "resume_with host sus document resources m =
     (let tgt = request_target (suspended_request sus);
          m = m\<lparr>resolved := (resolved m)(tgt \<mapsto> document)\<rparr>
      in case resolve_pending host (suspended_pending sus) document m of
           Inl (Err f) \<Rightarrow> Inr (into_step f)
         | Inl Panic \<Rightarrow> Inl Panic
         | Inr (child, m) \<Rightarrow>
             drive host resources (case child of None \<Rightarrow> m | Some c \<Rightarrow> push_cursor c m))"

definition resume ::
    "cancel_host \<Rightarrow> SuspendedPreprocess \<Rightarrow> ResourceResponse \<Rightarrow> resource_lookup
     \<Rightarrow> unit failure + PreprocessStep" where
  "resume host sus response resources =
     (let m = suspended_machine sus; tgt = request_target (suspended_request sus) in
      if host (host_queries m) then Inr Cancelled
      else
        let m = m\<lparr>host_queries := Suc (host_queries m)\<rparr> in
        if request_correlation (suspended_request sus) \<noteq> response_correlation response then
          Inr (HostError \<lparr>host_error_kind = ResponseMismatch, host_error_target = tgt,
            host_error_message = ''resource response does not match the suspended request''\<rparr>)
        else (case response_outcome response of
            Found document \<Rightarrow> resume_with host sus (Some document) resources m
          | NotFound \<Rightarrow> resume_with host sus None resources m
          | ResponseLoadFailed text \<Rightarrow>
              Inr (HostError \<lparr>host_error_kind = LoadFailed, host_error_target = tgt,
                              host_error_message = text\<rparr>)))"

text \<open>A machine at the start of a run; \<open>first\<close> numbers the next allocation.\<close>

definition initial_machine :: "PreprocessOptions \<Rightarrow> nat \<Rightarrow> PreprocessMachine" where
  "initial_machine opts first =
     \<lparr>machine_options = opts,
      machine_source_map = SourceMapBuilder_new (max_total_bytes opts) (max_source_map_segments opts),
      machine_directives = [], machine_notices = [],
      machine_state = ExpansionState_new (option_attributes opts)
        \<lparr>max_depth = option_max_attribute_expansion_depth opts,
         max_bytes = option_max_attribute_expansion_bytes opts\<rparr>,
      stack = [], resolved = Map.empty, until_cancel_check = 0, host_queries = 1,
      allocations = first\<rparr>"

definition root_machine ::
    "cancel_host \<Rightarrow> str \<Rightarrow> PreprocessOptions \<Rightarrow> nat \<Rightarrow> PreprocessMachine run" where
  "root_machine host source opts first =
     and_then (machine_lines host source (initial_machine opts first)) (\<lambda>(lines, m).
     and_then
       (map_err lift_error
         (ExpansionCursor_new lines (frame_root (option_source_id opts) (option_base_uri opts))))
       (\<lambda>cursor. Inr (push_cursor cursor m)))"

definition preprocess_resumable ::
    "cancel_host \<Rightarrow> str \<Rightarrow> PreprocessOptions \<Rightarrow> resource_lookup \<Rightarrow> nat
     \<Rightarrow> unit failure + PreprocessStep" where
  "preprocess_resumable host source opts resources first =
     (if host 0 then Inr Cancelled
      else case root_machine host source opts first of
          Inl (Err f) \<Rightarrow> Inr (into_step f)
        | Inl Panic \<Rightarrow> Inl Panic
        | Inr m \<Rightarrow> drive host resources m)"

datatype PreprocessFailure = PreprocessFailed PreprocessError | PreprocessCancelled

text \<open>An absent cancellation is the one that never cancels; \<open>unreachable!\<close> panics.\<close>

definition inputs_cancellation :: "cancel_host option \<Rightarrow> cancel_host" where
  "inputs_cancellation c = (case c of None \<Rightarrow> NeverCancel | Some host \<Rightarrow> host)"

definition preprocess_with ::
    "str \<Rightarrow> ResourceSnapshot \<Rightarrow> PreprocessOptions \<Rightarrow> cancel_host option \<Rightarrow> nat
     \<Rightarrow> PreprocessFailure failure + PreprocessedDocument" where
  "preprocess_with source snapshot opts inputs first =
     (case preprocess_resumable (inputs_cancellation inputs) source opts (snapshot_lookup snapshot) first of
        Inl _ \<Rightarrow> Inl Panic
      | Inr (Complete document) \<Rightarrow> Inr document
      | Inr (Failed e) \<Rightarrow> Inl (Err (PreprocessFailed e))
      | Inr (HostError _) \<Rightarrow> Inl Panic
      | Inr Cancelled \<Rightarrow> Inl (Err PreprocessCancelled)
      | Inr (NeedResource _) \<Rightarrow> Inl Panic)"

definition preprocess ::
    "str \<Rightarrow> ResourceSnapshot \<Rightarrow> PreprocessOptions \<Rightarrow> nat
     \<Rightarrow> PreprocessError failure + PreprocessedDocument" where
  "preprocess source snapshot opts first =
     (case preprocess_with source snapshot opts None first of
        Inr document \<Rightarrow> Inr document
      | Inl (Err (PreprocessFailed e)) \<Rightarrow> Inl (Err e)
      | Inl (Err PreprocessCancelled) \<Rightarrow> Inl Panic
      | Inl Panic \<Rightarrow> Inl Panic)"

definition PreprocessErrorKind_as_str :: "PreprocessErrorKind \<Rightarrow> str" where
  "PreprocessErrorKind_as_str kind =
     (case kind of
        MissingResource \<Rightarrow> ''missing-resource''
      | IncludeCycle \<Rightarrow> ''include-cycle''
      | DepthLimit \<Rightarrow> ''depth-limit''
      | IncludeLimit \<Rightarrow> ''include-limit''
      | ByteLimit \<Rightarrow> ''byte-limit''
      | NodeLimit \<Rightarrow> ''node-limit''
      | SourceMapLimit \<Rightarrow> ''source-map-limit''
      | UnsafeTarget \<Rightarrow> ''unsafe-target''
      | InvalidDirective \<Rightarrow> ''invalid-directive''
      | UnsupportedEncoding \<Rightarrow> ''unsupported-encoding''
      | UnclosedConditional \<Rightarrow> ''unclosed-conditional''
      | InternalInvariantError \<Rightarrow> ''internal-invariant'')"

section \<open>The effective processing contract\<close>

text \<open>
  Of the analysis options the contract reads three values; the rest of the record is left
  open. A contract's identity is the number of its allocation.
\<close>

record AnalysisOptions =
  analysis_attributes :: ExternalAttributes
  analysis_max_expansion_depth :: u32
  analysis_max_expansion_bytes :: u32

record 'a EffectiveProcessingOptions =
  effective_analysis :: "'a AnalysisOptions_scheme"
  effective_preprocess :: PreprocessOptions
  contract :: nat

datatype ProcessingOptionsError =
    ExternalAttributesMismatch | AttributeExpansionDepthMismatch | AttributeExpansionBytesMismatch

definition effective_options_new ::
    "'a AnalysisOptions_scheme \<Rightarrow> PreprocessOptions \<Rightarrow> nat
     \<Rightarrow> ProcessingOptionsError + 'a EffectiveProcessingOptions" where
  "effective_options_new analysis opts first =
     (if analysis_attributes analysis \<noteq> option_attributes opts
      then Inl ExternalAttributesMismatch
      else if analysis_max_expansion_depth analysis \<noteq> option_max_attribute_expansion_depth opts
      then Inl AttributeExpansionDepthMismatch
      else if analysis_max_expansion_bytes analysis \<noteq> option_max_attribute_expansion_bytes opts
      then Inl AttributeExpansionBytesMismatch
      else Inr \<lparr>effective_analysis = analysis, effective_preprocess = opts, contract = first\<rparr>)"

definition ProcessingOptionsError_as_str :: "ProcessingOptionsError \<Rightarrow> str" where
  "ProcessingOptionsError_as_str e =
     (case e of
        ExternalAttributesMismatch \<Rightarrow> ''external-attributes-mismatch''
      | AttributeExpansionDepthMismatch \<Rightarrow> ''attribute-expansion-depth-mismatch''
      | AttributeExpansionBytesMismatch \<Rightarrow> ''attribute-expansion-bytes-mismatch'')"

record PreparedPreprocessedDocument =
  prepared_document :: PreprocessedDocument
  prepared_contract :: nat

record EffectiveSuspendedPreprocess =
  effective_inner :: SuspendedPreprocess
  effective_contract :: nat

datatype EffectivePreprocessStep =
    EffectiveComplete PreparedPreprocessedDocument
  | EffectiveNeedResource EffectiveSuspendedPreprocess
  | EffectiveFailed PreprocessError
  | EffectiveHostError HostResourceError
  | EffectiveCancelled

definition bind_effective_step :: "PreprocessStep \<Rightarrow> nat \<Rightarrow> EffectivePreprocessStep" where
  "bind_effective_step s c =
     (case s of
        Complete document \<Rightarrow>
          EffectiveComplete \<lparr>prepared_document = document, prepared_contract = c\<rparr>
      | NeedResource sus \<Rightarrow>
          EffectiveNeedResource \<lparr>effective_inner = sus, effective_contract = c\<rparr>
      | Failed e \<Rightarrow> EffectiveFailed e
      | HostError e \<Rightarrow> EffectiveHostError e
      | Cancelled \<Rightarrow> EffectiveCancelled)"

definition effective_resume ::
    "cancel_host \<Rightarrow> EffectiveSuspendedPreprocess \<Rightarrow> ResourceResponse \<Rightarrow> resource_lookup
     \<Rightarrow> unit failure + EffectivePreprocessStep" where
  "effective_resume host sus response resources =
     and_then (resume host (effective_inner sus) response resources) (\<lambda>s.
       Inr (bind_effective_step s (effective_contract sus)))"

definition effective_preprocess_resumable ::
    "cancel_host \<Rightarrow> 'a EffectiveProcessingOptions \<Rightarrow> str \<Rightarrow> resource_lookup \<Rightarrow> nat
     \<Rightarrow> unit failure + EffectivePreprocessStep" where
  "effective_preprocess_resumable host opts source resources first =
     and_then (preprocess_resumable host source (effective_preprocess opts) resources first) (\<lambda>s.
       Inr (bind_effective_step s (contract opts)))"

text \<open>
  Analysis itself is the block parser's and a parameter here: it takes the analysis
  options, the expanded source and the source id, and returns the analysis, a parse error,
  or cancellation.
\<close>

datatype 'p analysis_failure = AnalysisParse 'p | AnalysisCancelled

datatype 'p PreparedAnalysisError = ContractMismatch | PreparedParse 'p | PreparedCancelled

datatype 'p PreprocessedAnalysisError =
    AnalysisPreprocess PreprocessError | PreprocessedParse 'p | PreprocessedCancelled

type_synonym ('a, 'p, 'r) engine =
  "'a AnalysisOptions_scheme \<Rightarrow> str \<Rightarrow> str option \<Rightarrow> 'p analysis_failure + 'r"

definition analyze_preprocessed ::
    "('a, 'p, 'r) engine \<Rightarrow> 'a EffectiveProcessingOptions \<Rightarrow> PreparedPreprocessedDocument
     \<Rightarrow> 'p PreparedAnalysisError + (PreprocessedDocument \<times> 'r)" where
  "analyze_preprocessed engine opts prepared =
     (if contract opts \<noteq> prepared_contract prepared then Inl ContractMismatch
      else
        and_then
          (map_err (\<lambda>e. case e of AnalysisCancelled \<Rightarrow> PreparedCancelled
                          | AnalysisParse p \<Rightarrow> PreparedParse p)
            (engine (effective_analysis opts) (document_source (prepared_document prepared))
              (option_source_id (effective_preprocess opts))))
          (\<lambda>analysis. Inr (prepared_document prepared, analysis)))"

definition preprocess_and_analyze_effective ::
    "('a, 'p, 'r) engine \<Rightarrow> cancel_host \<Rightarrow> str \<Rightarrow> ResourceSnapshot \<Rightarrow> 'a EffectiveProcessingOptions \<Rightarrow> nat
     \<Rightarrow> 'p PreprocessedAnalysisError failure + (PreprocessedDocument \<times> 'r)" where
  "preprocess_and_analyze_effective engine host source snapshot opts first =
     (case effective_preprocess_resumable host opts source (snapshot_lookup snapshot) first of
        Inl _ \<Rightarrow> Inl Panic
      | Inr (EffectiveNeedResource _) \<Rightarrow> Inl Panic
      | Inr (EffectiveFailed e) \<Rightarrow> Inl (Err (AnalysisPreprocess e))
      | Inr (EffectiveHostError e) \<Rightarrow>
          Inl (Err (AnalysisPreprocess (preprocess_error InternalInvariantError
            (option_source_id (effective_preprocess opts)) zero_range (host_error_message e))))
      | Inr EffectiveCancelled \<Rightarrow> Inl (Err PreprocessedCancelled)
      | Inr (EffectiveComplete prepared) \<Rightarrow>
          map_err (\<lambda>e. case e of
              ContractMismatch \<Rightarrow> Panic
            | PreparedParse p \<Rightarrow> Err (PreprocessedParse p)
            | PreparedCancelled \<Rightarrow> Err PreprocessedCancelled)
            (analyze_preprocessed engine opts prepared))"

end
