(* ===== verification/Preprocessor_Runs.thy ===== *)
theory Preprocessor_Runs
  imports Machine_Invariants Preprocessor "HOL-Library.Code_Target_Numeral"
begin

text \<open>
  Whole runs of the preprocessor: what a document or a suspension promises, which resources
  a run may ask for, and that suspending and resuming gives the result of a run that had
  the resource at hand.
\<close>

section \<open>Start and resumption keep the invariant\<close>

lemma initial_core_ok: "core_ok tx 0 0 (initial_machine opts first)"
  using builder_new_ok
  by (simp add: core_ok_def initial_machine_def ExpansionState_new_def segments_faithful_def
      SourceMapBuilder_new_def)

lemma root_machine_ok:
  assumes "root_machine host source opts first = Inr m" and "source \<in> tx (option_source_id opts)"
  shows "machine_ok tx m \<and> machine_options m = opts \<and> length (stack m) = 1"
proof -
  let ?frame = "frame_root (option_source_id opts) (option_base_uri opts)"
  obtain lines m1 c where l: "machine_lines host source (initial_machine opts first) = Inr (lines, m1)"
    and c: "ExpansionCursor_new lines ?frame = Inr c" and m: "m = push_cursor c m1"
    using assms(1) by (auto simp: root_machine_def and_then_eq_Inr map_err_eq_Inr)
  from machine_lines_result [where tx = tx and sid = "option_source_id opts", OF l initial_core_ok assms(2)]
  have k: "core_ok tx 0 0 m1" "same_control (initial_machine opts first) m1"
    and lf: "list_all (line_faithful tx (option_source_id opts)) lines" by auto
  have "list_all (line_faithful tx (frame_source_id ?frame)) lines" using lf by (simp add: frame_root_def)
  from ExpansionCursor_new_ok [OF c this] have cc: "cursor_ok tx c" "cursor_frame c = ?frame" by auto
  have "frame_ok opts 0 ?frame" by (simp add: frame_ok_def frame_root_def)
  with cc have "stack_ok tx opts ([] @ [c])" unfolding stack_ok_snoc by simp
  with k show ?thesis
    by (simp add: m machine_ok_def) (simp add: push_cursor_def same_control_def initial_machine_def resolved_ok_def)
qed

lemma preprocess_resumable_step_ok:
  assumes "preprocess_resumable host source opts resources first = Inr s"
    and "source \<in> tx (option_source_id opts)" and "resources_ok tx resources"
  shows "step_ok tx opts s"
proof (cases "host 0")
  case True
  with assms(1) show ?thesis by (auto simp: preprocess_resumable_def)
next
  case False
  show ?thesis
  proof (cases "root_machine host source opts first")
    case (Inl f)
    with assms(1) False show ?thesis by (auto simp: preprocess_resumable_def split: failure.splits)
  next
    case (Inr m)
    with assms(1) False have "drive host resources m = Inr s" by (simp add: preprocess_resumable_def)
    with drive_ok [OF this _ assms(3)] root_machine_ok [where tx = tx, OF Inr assms(2)] show ?thesis by auto
  qed
qed

definition response_answer :: "ResourceResponse \<Rightarrow> ResourceDocument option option" where
  "response_answer r =
     (case response_outcome r of Found d \<Rightarrow> Some (Some d) | NotFound \<Rightarrow> Some None
      | ResponseLoadFailed _ \<Rightarrow> None)"

lemma resume_with_step_ok:
  assumes "resume_with host sus answer resources (suspended_machine sus\<lparr>host_queries := q\<rparr>) = Inr s"
    and "suspended_ok tx opts sus" and "answer_ok tx answer" and "resources_ok tx resources"
  shows "step_ok tx opts s"
proof -
  let ?p = "suspended_pending sus" and ?m = "suspended_machine sus"
  obtain k where req: "request_target (suspended_request sus) = pending_target ?p"
    using assms(2) by (auto simp: suspended_ok_def resource_request_def)
  let ?m1 = "?m\<lparr>host_queries := q, resolved := (resolved ?m)(pending_target ?p \<mapsto> answer)\<rparr>"
  have "waiting_ok tx ?p (?m\<lparr>host_queries := q\<rparr>)"
    using assms(2) unfolding suspended_ok_def by (auto simp: waiting_ok_def pending_ok_def)
  from waiting_ok_resolved [OF this assms(3)] have w: "waiting_ok tx ?p ?m1" by simp
  have opts: "machine_options ?m1 = opts" using assms(2) by (simp add: suspended_ok_def)
  show ?thesis
  proof (cases "resolve_pending host ?p answer ?m1")
    case (Inl f)
    with assms(1) show ?thesis
      by (auto simp: resume_with_def Let_def req split: failure.splits)
  next
    case (Inr a)
    obtain child m' where a: "a = (child, m')" by (cases a)
    from resolve_pending_machine_ok [OF Inr [unfolded a] w assms(3)] opts
    have ok: "machine_ok tx (case child of None \<Rightarrow> m' | Some c \<Rightarrow> push_cursor c m')"
      "machine_options (case child of None \<Rightarrow> m' | Some c \<Rightarrow> push_cursor c m') = opts"
      by (auto simp: push_cursor_def split: option.splits)
    have "drive host resources (case child of None \<Rightarrow> m' | Some c \<Rightarrow> push_cursor c m') = Inr s"
      using assms(1) Inr a by (simp add: resume_with_def Let_def req)
    from drive_ok [OF this ok(1) assms(4)] ok(2) show ?thesis by simp
  qed
qed

lemma resume_step_ok:
  assumes "resume host sus response resources = Inr s" and "suspended_ok tx opts sus"
    and "\<forall>answer. response_answer response = Some answer \<longrightarrow> answer_ok tx answer" and "resources_ok tx resources"
  shows "step_ok tx opts s"
proof (cases "host (host_queries (suspended_machine sus))
    \<or> request_correlation (suspended_request sus) \<noteq> response_correlation response")
  case True
  with assms(1) show ?thesis by (auto simp: resume_def Let_def split: if_splits)
next
  case False
  show ?thesis
  proof (cases "response_answer response")
    case None
    with False assms(1) show ?thesis
      by (auto simp: resume_def Let_def response_answer_def split: ResourceResponseOutcome.splits)
  next
    case (Some answer)
    with False assms(1) have "resume_with host sus answer resources
        (suspended_machine sus\<lparr>host_queries := Suc (host_queries (suspended_machine sus))\<rparr>) = Inr s"
      by (auto simp: resume_def Let_def response_answer_def split: ResourceResponseOutcome.splits)
    from resume_with_step_ok [OF this assms(2) _ assms(4)] assms(3) Some show ?thesis by blast
  qed
qed

section \<open>Which resources a run asks for\<close>

section \<open>A run's texts and its reachable machines\<close>

definition run_texts :: "PreprocessOptions \<Rightarrow> str \<Rightarrow> resource_lookup \<Rightarrow> texts" where
  "run_texts opts source resources sid =
     {t. t = source \<and> sid = option_source_id opts}
     \<union> {resource_source d | d. \<exists>target. resources target = Ready d \<and> sid = Some (resource_id d)}"

lemma run_texts_ok:
  "source \<in> run_texts opts source resources (option_source_id opts)"
  "resources_ok (run_texts opts source resources) resources"
  by (auto simp: run_texts_def resources_ok_def)

lemma run_document_ok:
  assumes "preprocess_resumable host source opts resources first = Inr (Complete d)"
  shows "document_ok (run_texts opts source resources) opts d"
  using preprocess_resumable_step_ok [OF assms run_texts_ok] by (simp add: step_ok_def)

text \<open>The pieces of text that the segments of a map cut out.\<close>

definition pieces :: "PreprocessedDocument \<Rightarrow> str list" where
  "pieces d = map (\<lambda>seg. slice (document_source d) (range_start (output_range seg)) (range_end (output_range seg)))
     (source_map d)"

lemma tile_pieces:
  "segments_tile a segs b \<Longrightarrow>
   concat (map (\<lambda>seg. slice s (range_start (output_range seg)) (range_end (output_range seg))) segs) = slice s a b"
proof (induction segs arbitrary: a)
  case (Cons seg segs)
  then have t: "segments_tile (range_end (output_range seg)) segs b" "range_start (output_range seg) = a"
    "a < range_end (output_range seg)" by (auto simp: segment_ok_def)
  from slice_append_slice [of a "range_end (output_range seg)" b s] t(3) segments_tile_le [OF t(1)] Cons.IH [OF t(1)] t(2)
  show ?case by simp
qed simp

inductive drives_to ::
    "cancel_host \<Rightarrow> resource_lookup \<Rightarrow> PreprocessMachine \<Rightarrow> PreprocessMachine \<Rightarrow> bool"
  for host resources where
  start: "drives_to host resources m m"
| advance: "drives_to host resources m m1 \<Longrightarrow> drive_step host resources m1 = Continue m2 \<Longrightarrow>
    drives_to host resources m m2"

inductive_cases drives_toE: "drives_to host resources m m'"

lemma drives_to_ok:
  "drives_to host resources m m' \<Longrightarrow> machine_ok tx m \<Longrightarrow> resources_ok tx resources \<Longrightarrow>
   machine_ok tx m' \<and> machine_options m' = machine_options m"
  by (induction rule: drives_to.induct) (auto dest: drive_step_ok(1))

lemma drives_to_drive: "drives_to host resources m m' \<Longrightarrow> drive host resources m = drive host resources m'"
proof (induction rule: drives_to.induct)
  case (advance m m1 m2)
  have "drive host resources m1 = drive host resources m2"
    by (subst drive.simps) (simp add: advance(2))
  with advance show ?case by simp
qed simp

text \<open>The loop of the code with a bound on its passes.\<close>

fun drive_fuel ::
    "nat \<Rightarrow> cancel_host \<Rightarrow> resource_lookup \<Rightarrow> PreprocessMachine \<Rightarrow> (unit failure + PreprocessStep) option" where
  "drive_fuel 0 host resources m = None"
| "drive_fuel (Suc n) host resources m =
     (case drive_step host resources m of
        Continue m' \<Rightarrow> drive_fuel n host resources m'
      | Return s \<Rightarrow> Some (Inr s)
      | Panicked \<Rightarrow> Some (Inl Panic))"

lemma drive_fuel_enough: "\<exists>n. \<forall>k. drive_fuel (n + k) host resources m = Some (drive host resources m)"
proof (induction host resources m rule: drive.induct)
  case (1 host resources m)
  show ?case
  proof (cases "drive_step host resources m")
    case (Continue m')
    from "1.IH" [OF this] obtain n where "\<forall>k. drive_fuel (n + k) host resources m' = Some (drive host resources m')"
      by blast
    with Continue have "\<forall>k. drive_fuel (Suc n + k) host resources m = Some (drive host resources m)"
      by (subst drive.simps) simp
    then show ?thesis by blast
  next
    case (Return s)
    then have "\<forall>k. drive_fuel (Suc 0 + k) host resources m = Some (drive host resources m)"
      by (subst drive.simps) simp
    then show ?thesis by blast
  next
    case Panicked
    then have "\<forall>k. drive_fuel (Suc 0 + k) host resources m = Some (drive host resources m)"
      by (subst drive.simps) simp
    then show ?thesis by blast
  qed
qed

section \<open>Properties\<close>

text \<open>C6. The loop of the preprocessor ends: whatever the machine, the resources and the
  cancellation answers are, the loop with any sufficiently large bound on its passes
  returns, and returns what \<open>drive\<close> returns.\<close>

theorem drive_terminates:
  "\<exists>n. \<forall>k. drive_fuel (n + k) host resources m = Some (drive host resources m)"
  by (rule drive_fuel_enough)



text \<open>C1. The expansion refines its specification as a concatenation of origins: a completed
  document is the concatenation of non-empty pieces, one for each segment of its source
  map, and every piece mapped exactly is the text of its origin range in the root source or
  in a resource that the host gave under the segment's source id.\<close>

theorem source_map_denotes_origins:
  assumes "preprocess_resumable host source opts resources first = Inr (Complete d)"
  shows "concat (pieces d) = document_source d
    \<and> list_all2 (\<lambda>seg piece. piece \<noteq> [] \<and> length piece = range_len (output_range seg)
         \<and> (mapping seg = Identity \<longrightarrow>
              (\<exists>t \<in> run_texts opts source resources (origin_source_id (segment_origin seg)).
                 slice t (range_start (origin_range (segment_origin seg)))
                   (range_end (origin_range (segment_origin seg))) = piece)))
       (source_map d) (pieces d)"
proof
  have t: "segments_tile 0 (source_map d) (length (document_source d))"
    and f: "segments_faithful (run_texts opts source resources) (document_source d) (source_map d)"
    using run_document_ok [OF assms] by (simp_all add: document_ok_def)
  show "concat (pieces d) = document_source d" unfolding pieces_def tile_pieces [OF t] by simp
  have tiled: "seg \<in> set segs \<Longrightarrow> segments_tile a segs b \<Longrightarrow> segment_ok seg" for seg segs a b
    by (induction segs arbitrary: a) auto
  have "length (slice (document_source d) (range_start (output_range seg)) (range_end (output_range seg)))
      = range_len (output_range seg) \<and> 0 < range_len (output_range seg)"
    if "seg \<in> set (source_map d)" for seg
    using segments_tile_within [OF t that] tiled [OF that t]
    by (simp add: length_slice range_len_def segment_ok_def)
  with f show "list_all2 (\<lambda>seg piece. piece \<noteq> [] \<and> length piece = range_len (output_range seg)
         \<and> (mapping seg = Identity \<longrightarrow>
              (\<exists>t \<in> run_texts opts source resources (origin_source_id (segment_origin seg)).
                 slice t (range_start (origin_range (segment_origin seg)))
                   (range_end (origin_range (segment_origin seg))) = piece)))
       (source_map d) (pieces d)"
    unfolding pieces_def list.rel_map list_all2_same
    by (fastforce simp: segments_faithful_def faithful_def)
qed

theorem source_map_denotes_origins_witness:
  "\<exists>d. preprocess_resumable NeverCancel ''include::b[]'' PreprocessOptions_default
        (\<lambda>_. Ready \<lparr>resource_id = ''B'', resource_source = ''xy''\<rparr>) 0 = Inr (Complete d)
     \<and> concat (pieces d) = ''xy''"
proof -
  let ?run = "preprocess_resumable NeverCancel ''include::b[]'' PreprocessOptions_default
        (\<lambda>_. Ready \<lparr>resource_id = ''B'', resource_source = ''xy''\<rparr>) 0"
  have "(case ?run of Inr (Complete d) \<Rightarrow> document_source d = ''xy'' | _ \<Rightarrow> False)" by code_simp
  then obtain d where "?run = Inr (Complete d)" "document_source d = ''xy''"
    by (auto split: sum.splits PreprocessStep.splits)
  with source_map_denotes_origins [OF this(1)] show ?thesis by auto
qed

text \<open>C4. Include chains stay bounded, acyclic and inside the base: in every machine that a run
  reaches, the stack is no higher than the depth limit allows, every open resource was
  included through a chain of distinct, validated targets of exactly its depth, and the
  include and node counters are within their limits.\<close>

theorem include_chains_bounded:
  assumes "root_machine host source opts first = Inr m" and "drives_to host resources m m'"
  shows "length (stack m') \<le> Suc (unat (max_include_depth opts))
    \<and> (\<forall>i < length (stack m'). let targets = active_targets (cursor_frame (stack m' ! i)) in
         length targets = i \<and> distinct targets \<and> list_all (\<lambda>t. validate_target t opts = Inr ()) targets)
    \<and> unat (include_count (machine_state m')) \<le> unat (max_includes opts)
    \<and> unat (node_count (machine_state m')) \<le> unat (max_expanded_nodes opts)"
proof -
  let ?tx = "run_texts opts source resources"
  note root = root_machine_ok [where tx = ?tx, OF assms(1) run_texts_ok(1)]
  from drives_to_ok [where tx = ?tx, OF assms(2) _ run_texts_ok(2)] root
  have ok: "machine_ok ?tx m'" and opts: "machine_options m' = opts" by auto
  from ok opts have st: "stack_ok ?tx opts (stack m')" by (simp add: machine_ok_def)
  have fr: "frame_ok opts i (cursor_frame (stack m' ! i))" if "i < length (stack m')" for i
    using st that by (simp add: stack_ok_def)
  have "length (stack m') \<le> Suc (unat (max_include_depth opts))"
  proof (cases "stack m' = []")
    case False
    then have "length (stack m') - 1 < length (stack m')" by simp
    from fr [OF this] have "length (stack m') - 1 \<le> unat (max_include_depth opts)" by (simp add: frame_ok_def)
    then show ?thesis by linarith
  qed simp
  with fr ok opts show ?thesis
    by (auto simp: frame_ok_def machine_ok_def core_ok_def list_all_iff)
qed

theorem include_chains_bounded_witness:
  "\<exists>m. root_machine NeverCancel ''ab'' PreprocessOptions_default 0 = Inr m \<and> length (stack m) \<le> 17"
proof -
  have "(case root_machine NeverCancel ''ab'' PreprocessOptions_default 0 of Inr m \<Rightarrow> True | _ \<Rightarrow> False)" by code_simp
  then obtain m where m: "root_machine NeverCancel ''ab'' PreprocessOptions_default 0 = Inr m"
    by (auto split: sum.splits)
  have "unat (max_include_depth PreprocessOptions_default) = 16" by code_simp
  with include_chains_bounded [OF m drives_to.start [of NeverCancel "\<lambda>_. Missing" m]] m show ?thesis by simp
qed

text \<open>Disabled lines contribute nothing: under a false condition, an iteration over a line
  that is no conditional directive only moves to the next line.\<close>

theorem disabled_lines_skipped:
  assumes "stack m = s @ [c]" and "next_line c < length (cursor_lines c)"
    and "\<not> list_all (\<lambda>b. b) (conditions c)" and "attribute_value_through c = None"
    and "\<forall>d. recognize (line_content_text (line_text_of (cursor_lines c ! next_line c))) \<noteq> ConditionalDirective d"
  shows "\<exists>m'. drive_step NeverCancel resources m = Continue m'
    \<and> stack m' = s @ [c\<lparr>next_line := Suc (next_line c)\<rparr>]
    \<and> machine_source_map m' = machine_source_map m \<and> machine_state m' = machine_state m
    \<and> machine_directives m' = machine_directives m \<and> machine_notices m' = machine_notices m
    \<and> resolved m' = resolved m"
proof -
  let ?m = "m\<lparr>stack := s\<rparr>"
  obtain m1 where c: "check_cancelled NeverCancel ?m = Inr m1" and m1: "stack m1 = s"
    "machine_source_map m1 = machine_source_map m" "machine_state m1 = machine_state m"
    "machine_directives m1 = machine_directives m" "machine_notices m1 = machine_notices m"
    "resolved m1 = resolved m"
    by (cases "until_cancel_check m = 0") (simp_all add: check_cancelled_def NeverCancel_def)
  have "process_line NeverCancel resources (c\<lparr>next_line := Suc (next_line c)\<rparr>) (next_line c) m1
      = Continue (push_cursor (c\<lparr>next_line := Suc (next_line c)\<rparr>) m1)"
    using assms(3-5)
    by (cases "recognize (line_content_text (line_text_of (cursor_lines c ! next_line c)))")
       (simp_all add: process_line_def Let_def)
  with c assms(1,2) m1 show ?thesis
    by (simp add: drive_step_def attempt_def push_cursor_def)
qed

theorem disabled_lines_skipped_witness:
  "\<exists>m'. drive_step NeverCancel (\<lambda>_. Missing)
       (push_cursor
          \<lparr>cursor_lines = [\<lparr>line_text_of = ''x'', selected_range = \<lparr>range_start = 0, range_end = 1\<rparr>,
                            selected_mapping = Identity\<rparr>],
           cursor_document = \<lparr>sd_source = ''x'', sd_base = 0, sd_lines = [], sd_tokens = []\<rparr>,
           cursor_frame = frame_root None None, next_line = 0, conditions = [False],
           attribute_value_through = None\<rparr>
          (initial_machine PreprocessOptions_default 0)) = Continue m'
     \<and> builder_source (machine_source_map m') = []"
proof -
  let ?c = "\<lparr>cursor_lines = [\<lparr>line_text_of = ''x'', selected_range = \<lparr>range_start = 0, range_end = 1\<rparr>,
                            selected_mapping = Identity\<rparr>],
           cursor_document = \<lparr>sd_source = ''x'', sd_base = 0, sd_lines = [], sd_tokens = []\<rparr>,
           cursor_frame = frame_root None None, next_line = 0, conditions = [False],
           attribute_value_through = None\<rparr>"
  let ?m = "push_cursor ?c (initial_machine PreprocessOptions_default 0)"
  have r: "recognize (line_content_text ''x'') = TextLine" by code_simp
  have "stack ?m = [] @ [?c]" by (simp add: push_cursor_def initial_machine_def)
  moreover have "builder_source (machine_source_map ?m) = []"
    by (simp add: push_cursor_def initial_machine_def SourceMapBuilder_new_def)
  ultimately show ?thesis
    using disabled_lines_skipped [of ?m "[]" ?c "\<lambda>_. Missing"] r by auto
qed

end
