(* ===== verification/Resumption.thy ===== *)
theory Resumption
  imports Preprocessor_Runs
begin

text \<open>
  A run depends on the host only through the answers for validated targets it has not yet
  resolved, and without cancellation it does not depend on how often the host was asked.
  Hence suspending for a resource and resuming with it is the run that had it at hand.
\<close>

section \<open>The part of the lookup that matters\<close>

definition agree :: "PreprocessMachine \<Rightarrow> resource_lookup \<Rightarrow> resource_lookup \<Rightarrow> bool" where
  "agree m r1 r2 \<longleftrightarrow>
     (\<forall>t. validate_target t (machine_options m) = Inr () \<longrightarrow> resolved m t = None \<longrightarrow> r1 t = r2 t)"

lemma prepare_include_target:
  assumes "prepare_include inc f r m = Inr (p, m')"
  shows "validate_target (pending_target p) (machine_options m) = Inr ()"
  using assms
proof (cases rule: prepare_include_cases)
  case (1 m1 expanded attrs target_r)
  with prepare_include_control(1) [OF assms] show ?thesis by simp
qed

lemma attempt_cong: "(\<And>a. r = Inr a \<Longrightarrow> k a = k' a) \<Longrightarrow> attempt r k = attempt r k'"
  by (cases r) (auto simp: attempt_def split: failure.splits)

lemma expand_include_lookup:
  assumes "\<And>p m1. prepare_include inc (cursor_frame c) (selected_range l) m = Inr (p, m1) \<Longrightarrow>
    lookup_resource r1 p (push_cursor c m1) = lookup_resource r2 p (push_cursor c m1)"
  shows "expand_include host r1 inc c l m = expand_include host r2 inc c l m"
  unfolding expand_include_def by (rule attempt_cong) (auto simp: assms split: prod.splits)

lemma process_line_lookup:
  assumes "\<And>inc. expand_include host r1 inc c (cursor_lines c ! i) m = expand_include host r2 inc c (cursor_lines c ! i) m"
  shows "process_line host r1 c i m = process_line host r2 c i m"
  unfolding process_line_def Let_def assms ..

lemma expand_include_agree:
  assumes "agree m r1 r2"
  shows "expand_include host r1 inc c l m = expand_include host r2 inc c l m"
proof (rule expand_include_lookup)
  fix p m1
  assume p: "prepare_include inc (cursor_frame c) (selected_range l) m = Inr (p, m1)"
  from prepare_include_control(3) [OF p] prepare_include_target [OF p] assms
  have "resolved (push_cursor c m1) (pending_target p) = None \<Longrightarrow> r1 (pending_target p) = r2 (pending_target p)"
    by (simp add: agree_def push_cursor_def)
  then show "lookup_resource r1 p (push_cursor c m1) = lookup_resource r2 p (push_cursor c m1)"
    by (cases "resolved (push_cursor c m1) (pending_target p)") (simp_all add: lookup_resource_def)
qed

lemma drive_step_agree:
  assumes "agree m r1 r2"
  shows "drive_step host r1 m = drive_step host r2 m"
proof -
  have "attempt (check_cancelled host (m\<lparr>stack := s\<rparr>)) (process_line host r1 c i)
      = attempt (check_cancelled host (m\<lparr>stack := s\<rparr>)) (process_line host r2 c i)" for s c i
  proof (rule attempt_cong)
    fix m1 assume "check_cancelled host (m\<lparr>stack := s\<rparr>) = Inr m1"
    from check_cancelled_control [OF this] assms have "agree m1 r1 r2"
      by (simp add: agree_def same_control_def)
    then show "process_line host r1 c i m1 = process_line host r2 c i m1"
      by (intro process_line_lookup expand_include_agree)
  qed
  then show ?thesis by (simp add: drive_step_def Let_def)
qed

text \<open>Options stay, and a resolved target keeps its answer.\<close>

definition grows :: "PreprocessMachine \<Rightarrow> PreprocessMachine \<Rightarrow> bool" where
  "grows m m' \<longleftrightarrow> machine_options m' = machine_options m \<and> allocations m \<le> allocations m'
     \<and> (\<forall>t. resolved m t \<noteq> None \<longrightarrow> resolved m' t = resolved m t)"

lemma control_grows: "same_control m m' \<Longrightarrow> grows m (push_cursor c m')"
  by (simp add: grows_def same_control_def push_cursor_def)

lemma process_line_grows:
  assumes "process_line host resources c i m = Continue m'"
  shows "grows m m'"
  using assms
proof (cases rule: process_line_Continue)
  case (attribute_value m1 m2 v)
  then have "same_control m m2"
    by (blast intro: same_control_trans dest: bump_node_control append_text_control)
  with attribute_value(3) control_grows show ?thesis by simp
next
  case skip
  then show ?thesis by (simp add: control_grows)
next
  case (conditional d k enabled a)
  with process_conditional_control [of c d _ k enabled m "fst a" "snd a"] control_grows show ?thesis by simp
next
  case (expand inc)
  then obtain p m1 m2 answer child m3 where
    p: "prepare_include inc (cursor_frame c) (selected_range (cursor_lines c ! i)) m = Inr (p, m1)"
    and f: "lookup_resource resources p (push_cursor c m1) = (Resolved answer, m2)"
    and r: "resolve_pending host p answer m2 = Inr (child, m3)"
    and m': "m' = (case child of None \<Rightarrow> m3 | Some c \<Rightarrow> push_cursor c m3)"
    by (rule expand_include_Continue)
  have "\<forall>t. resolved m t \<noteq> None \<longrightarrow> resolved m2 t = resolved m t"
    using f prepare_include_control(3) [OF p]
    by (auto simp: lookup_resource_def push_cursor_def split: option.splits ResourceLookupResult.splits)
  moreover have "resolved m' = resolved m2"
    using resolve_pending_control [OF r] m' by (auto simp: same_control_def push_cursor_def split: option.splits)
  ultimately show ?thesis
    using expand_include_control(2,3) [OF expand] by (simp add: grows_def)
next
  case (unexpanded inc m1)
  with process_unexpanded_include_control control_grows show ?thesis by simp
next
  case (escaped literal k m1)
  with process_escaped_control control_grows show ?thesis by simp
next
  case (text_line content a)
  with process_text_control [of host c i _ content m "fst a" "snd a"] control_grows show ?thesis by simp
qed

lemma drive_step_grows:
  assumes "drive_step host resources m = Continue m'"
  shows "grows m m'"
proof -
  consider s where "m' = m\<lparr>stack := s\<rparr>"
    | s c i m1 where "check_cancelled host (m\<lparr>stack := s\<rparr>) = Inr m1" "process_line host resources c i m1 = Continue m'"
    using assms by (auto simp: drive_step_def Let_def attempt_Continue split: if_splits)
  then show ?thesis
  proof cases
    case 2
    with process_line_grows [OF 2(2)] check_cancelled_control [OF 2(1)] show ?thesis
      by (simp add: grows_def same_control_def)
  qed (simp add: grows_def)
qed

lemma agree_grows: "agree m r1 r2 \<Longrightarrow> grows m m' \<Longrightarrow> agree m' r1 r2"
  unfolding agree_def grows_def by (metis option.distinct(1))

lemma drive_agree: "agree m r1 r2 \<Longrightarrow> drive host r1 m = drive host r2 m"
proof (induction host r1 m rule: drive.induct)
  case (1 host r1 m)
  show ?case
  proof (cases "drive_step host r1 m")
    case (Continue m')
    from "1.IH" [OF this agree_grows [OF "1.prems" drive_step_grows [OF this]]] Continue
      drive_step_agree [OF "1.prems", of host]
    show ?thesis by (subst (1 2) drive.simps) simp
  qed (use drive_step_agree [OF "1.prems", of host] in \<open>subst (1 2) drive.simps; simp\<close>)+
qed

section \<open>More answers, same steps\<close>

definition extends :: "resource_lookup \<Rightarrow> resource_lookup \<Rightarrow> bool" where
  "extends r1 r2 \<longleftrightarrow> (\<forall>t. r1 t \<noteq> Deferred \<longrightarrow> r2 t = r1 t)"

definition needs_resource :: "iteration \<Rightarrow> bool" where
  "needs_resource i \<longleftrightarrow> (\<exists>sus. i = Return (NeedResource sus))"

lemma expand_include_extends:
  assumes "extends r1 r2" and "\<not> needs_resource (expand_include host r1 inc c l m)"
  shows "expand_include host r2 inc c l m = expand_include host r1 inc c l m"
proof (rule expand_include_lookup)
  fix p m1
  assume p: "prepare_include inc (cursor_frame c) (selected_range l) m = Inr (p, m1)"
  let ?m = "push_cursor c m1"
  have "\<not> (resolved ?m (pending_target p) = None \<and> r1 (pending_target p) = Deferred)"
  proof
    assume d: "resolved ?m (pending_target p) = None \<and> r1 (pending_target p) = Deferred"
    then have "lookup_resource r1 p ?m = (LookupDeferred (resource_request p (allocations ?m)),
        ?m\<lparr>allocations := Suc (allocations ?m)\<rparr>)" by (simp add: lookup_resource_def)
    with p assms(2) show False by (simp add: expand_include_def attempt_def needs_resource_def)
  qed
  with assms(1) show "lookup_resource r2 p ?m = lookup_resource r1 p ?m"
    by (cases "resolved ?m (pending_target p)") (auto simp: lookup_resource_def extends_def)
qed

lemma process_line_needs:
  assumes "\<not> needs_resource (process_line host r1 c i m)" and "extends r1 r2"
  shows "process_line host r2 c i m = process_line host r1 c i m"
proof (cases "case attribute_value_through c of None \<Rightarrow> False | Some last_line \<Rightarrow> i \<le> last_line")
  case True
  then show ?thesis by (simp add: process_line_def)
next
  case False
  note d = process_line_def Let_def if_not_P [OF False]
  show ?thesis
  proof (cases "recognize (line_content_text (line_text_of (cursor_lines c ! i)))")
    case (IncludeDirective inc)
    note g = d IncludeDirective RecognizedDirective.case
    show ?thesis
    proof (cases "list_all (\<lambda>c. c) (conditions c) \<and> enable_includes (machine_options m)")
      case True
      then have "\<not> needs_resource (expand_include host r1 inc c (cursor_lines c ! i) m)"
        using assms(1) unfolding g by simp
      from expand_include_extends [OF assms(2) this] show ?thesis unfolding g by simp
    qed (auto simp: g)
  qed (simp_all add: d)
qed

lemma drive_step_extends:
  assumes "\<not> needs_resource (drive_step host r1 m)" and "extends r1 r2"
  shows "drive_step host r2 m = drive_step host r1 m"
proof (cases "stack m = [] \<or> length (cursor_lines (last (stack m))) \<le> next_line (last (stack m))")
  case True
  then show ?thesis by (auto simp: drive_step_def)
next
  case False
  let ?m = "m\<lparr>stack := butlast (stack m)\<rparr>" and ?c = "last (stack m)"
  have step: "drive_step host r m = attempt (check_cancelled host ?m)
      (process_line host r (?c\<lparr>next_line := Suc (next_line ?c)\<rparr>) (next_line ?c))" for r
    using False by (simp add: drive_step_def Let_def)
  show ?thesis
  proof (cases "check_cancelled host ?m")
    case (Inr m1)
    with assms(1) have "\<not> needs_resource (process_line host r1 (?c\<lparr>next_line := Suc (next_line ?c)\<rparr>) (next_line ?c) m1)"
      unfolding step by (simp add: attempt_def)
    from process_line_needs [OF this assms(2)] Inr show ?thesis unfolding step by (simp add: attempt_def)
  qed (simp add: step attempt_def split: failure.splits)
qed

section \<open>Without cancellation the queries do not matter\<close>

text \<open>Results that agree up to the number of queries made.\<close>

definition same_result :: "('e + 'a \<times> nat) \<Rightarrow> ('e + 'a \<times> nat) \<Rightarrow> bool" where
  "same_result r1 r2 \<longleftrightarrow> map_sum id fst r1 = map_sum id fst r2"

lemma same_result_simps [simp]:
  "same_result (Inr (a, q)) (Inr (b, q')) \<longleftrightarrow> a = b"
  "same_result (Inl e) (Inl f) \<longleftrightarrow> e = f"
  "\<not> same_result (Inl e) (Inr x)" "\<not> same_result (Inr x) (Inl e)" "same_result r r"
  by (simp_all add: same_result_def)

lemma same_result_and_then:
  "same_result r1 r2 \<Longrightarrow> (\<And>a q q'. same_result (k (a, q)) (k (a, q'))) \<Longrightarrow> same_result (and_then r1 k) (and_then r2 k)"
  by (cases r1; cases r2) (auto simp: same_result_def)

lemma same_result_map_err:
  "same_result r1 r2 \<Longrightarrow> same_result (map_err f r1) (map_err f r2)"
  by (cases r1; cases r2) (auto simp: same_result_def)

lemma never_checkpoint:
  obtains cp' where "checkpoint_is_cancelled NeverCancel cp = (False, cp')"
  using never_cancelled by blast

lemma selection_items_free:
  "\<exists>rs'. \<forall>cp. \<exists>cp'. selection_items NeverCancel items rs cp = Inr (rs', cp')"
proof (induction items arbitrary: rs)
  case (Cons item items)
  then obtain rs' where rs': "\<forall>cp. \<exists>cp'. selection_items NeverCancel items (selection_item item rs) cp = Inr (rs', cp')"
    by blast
  have "\<exists>cp'. selection_items NeverCancel (item # items) rs cp = Inr (rs', cp')" for cp
    by (rule never_checkpoint [of cp]) (use rs' in simp)
  then show ?case by blast
qed simp

lemma normalize_ranges_free:
  "\<exists>rs'. \<forall>cp. \<exists>cp'. normalize_ranges NeverCancel rs acc cp = Inr (rs', cp')"
proof (induction rs arbitrary: acc)
  case (Cons r rs)
  then obtain rs' where rs': "\<forall>cp. \<exists>cp'. normalize_ranges NeverCancel rs (push_normalized r acc) cp = Inr (rs', cp')"
    by blast
  have "\<exists>cp'. normalize_ranges NeverCancel (r # rs) acc cp = Inr (rs', cp')" for cp
    by (rule never_checkpoint [of cp]) (use rs' in simp)
  then show ?case by blast
qed simp

lemma parse_line_selection_free:
  "same_result (parse_line_selection NeverCancel v q) (parse_line_selection NeverCancel v q')"
proof -
  obtain rs where rs: "\<forall>cp. \<exists>cp'. selection_items NeverCancel (split_chars '';,'' v) [] cp = Inr (rs, cp')"
    using selection_items_free by blast
  obtain ns where ns: "\<forall>cp. \<exists>cp'. normalize_ranges NeverCancel rs [] cp = Inr (ns, cp')"
    using normalize_ranges_free by blast
  have "\<exists>p. parse_line_selection NeverCancel v q = Inr (\<lparr>ranges = ns\<rparr>, p)" for q
  proof -
    obtain cp where "selection_items NeverCancel (split_chars '';,'' v) [] (checkpoint_new q) = Inr (rs, cp)"
      using rs by blast
    moreover obtain cp' where "normalize_ranges NeverCancel rs [] cp = Inr (ns, cp')" using ns by blast
    ultimately show ?thesis by (simp add: parse_line_selection_def)
  qed
  then show ?thesis by (metis same_result_simps(1))
qed

lemma select_loop_free:
  "same_result (select_loop NeverCancel tags lines index offset active ls acc cp)
     (select_loop NeverCancel tags lines index offset active ls acc cp')"
proof (induction ls arbitrary: index offset active acc cp cp')
  case (Cons l ls)
  obtain cp1 cp2 where "checkpoint_is_cancelled NeverCancel cp = (False, cp1)"
    "checkpoint_is_cancelled NeverCancel cp' = (False, cp2)" using never_checkpoint by metis
  with Cons.IH show ?case
    by (cases "checked_range offset (offset + length l) :: TextRange failure + TextRange")
       (simp_all add: Let_def split: option.split)
qed simp

lemma select_lines_free:
  "same_result (select_lines NeverCancel source attrs q) (select_lines NeverCancel source attrs q')"
  unfolding select_lines_def
proof (rule same_result_and_then)
  show "same_result
     (case attrs ''lines'' of None \<Rightarrow> Inr (None, q)
      | Some v \<Rightarrow> and_then (map_err Err (parse_line_selection NeverCancel v q)) (\<lambda>(sel, q). Inr (Some sel, q)))
     (case attrs ''lines'' of None \<Rightarrow> Inr (None, q')
      | Some v \<Rightarrow> and_then (map_err Err (parse_line_selection NeverCancel v q')) (\<lambda>(sel, q). Inr (Some sel, q)))"
    by (auto split: option.split
        intro!: same_result_and_then [OF same_result_map_err [OF parse_line_selection_free]])
qed (simp add: select_loop_free)

lemma transform_loop_free:
  "same_result (transform_loop NeverCancel indent leveloffset remaining used ls acc cp)
     (transform_loop NeverCancel indent leveloffset remaining used ls acc cp')"
proof (induction ls arbitrary: used acc cp cp')
  case (Cons l ls)
  obtain cp1 cp2 where "checkpoint_is_cancelled NeverCancel cp = (False, cp1)"
    "checkpoint_is_cancelled NeverCancel cp' = (False, cp2)" using never_checkpoint by metis
  with Cons.IH show ?case
    by (cases "transform_line indent leveloffset remaining used l") (auto split: prod.split)
qed simp

lemma transform_lines_free:
  "same_result (transform_lines NeverCancel ls attrs remaining q) (transform_lines NeverCancel ls attrs remaining q')"
  unfolding transform_lines_def by (rule transform_loop_free)

definition without_queries :: "'e + 'a \<times> 'b \<times> 'c \<times> 'd \<times> nat \<Rightarrow> 'e + 'a \<times> 'b \<times> 'c \<times> 'd" where
  "without_queries r = map_sum id (\<lambda>(a, b, c, d, q). (a, b, c, d)) r"

lemma value_loop_free:
  "without_queries (value_loop NeverCancel q d i pv vs index ls acc folded last_line value_end)
    = without_queries (value_loop NeverCancel q' d i pv vs index ls acc folded last_line value_end)"
proof (induction ls arbitrary: q q' index acc folded last_line value_end)
  case (Cons l ls)
  show ?case
    by (cases "value_line_step d (index = i) pv vs (ls \<noteq> []) l")
       (auto simp: NeverCancel_def without_queries_def split: prod.split
         intro: Cons.IH [unfolded NeverCancel_def without_queries_def])
qed (simp add: without_queries_def)

lemma continue_occurrence_free:
  "same_result (continue_occurrence NeverCancel q d i k occ problem) (continue_occurrence NeverCancel q' d i k occ problem)"
proof -
  let ?loop = "\<lambda>q. value_loop NeverCancel q d i (range_start (value_source_range (occ_value occ)))
     (min (range_start (value_source_range (occ_value occ))) (range_start (content_range (sd_lines d ! i)) + k)) i
     (drop i (sd_lines d)) [] [] i
     (min (range_start (value_source_range (occ_value occ))) (range_start (content_range (sd_lines d ! i)) + k))"
  have f: "without_queries (?loop q) = without_queries (?loop q')" by (rule value_loop_free)
  show ?thesis
  proof (cases "?loop q")
    case (Inl e)
    with f have "?loop q' = Inl e" by (cases "?loop q'") (auto simp: without_queries_def)
    with Inl show ?thesis by (simp add: continue_occurrence_def Let_def)
  next
    case (Inr x)
    obtain a b c v p where x: "x = (a, b, c, v, p)" by (cases x)
    with Inr f obtain p' where "?loop q' = Inr (a, b, c, v, p')"
      by (cases "?loop q'") (auto simp: without_queries_def)
    with Inr x show ?thesis
      by (auto simp: continue_occurrence_def Let_def same_result_def and_then_def split: sum.splits)
  qed
qed

lemma parse_lines_free:
  "same_result (parse_lines NeverCancel q d i) (parse_lines NeverCancel q' d i)"
proof (cases "length (sd_lines d) \<le> i")
  case True
  then show ?thesis by (simp add: parse_lines_def)
next
  case False
  show ?thesis
  proof (cases "sd_text d (content_range (sd_lines d ! i))")
    case None
    with False show ?thesis by (simp add: parse_lines_def)
  next
    case (Some first)
    let ?p = "parse_line first (range_start (content_range (sd_lines d ! i))) (full_range (sd_lines d ! i))"
    show ?thesis
    proof (cases ?p)
      case (Inl e)
      with Some False show ?thesis by (simp add: parse_lines_def)
    next
      case (Inr parsed)
      show ?thesis
      proof (cases parsed)
        case None
        with Inr Some False show ?thesis by (simp add: parse_lines_def)
      next
        case (Some e)
        obtain occ problem where e: "e = (occ, problem)" by (cases e)
        have "same_result
           (and_then (continue_occurrence NeverCancel q d i k occ problem) (\<lambda>(result, q). Inr (Some result, q)))
           (and_then (continue_occurrence NeverCancel q' d i k occ problem) (\<lambda>(result, q). Inr (Some result, q)))" for k
          by (rule same_result_and_then [OF continue_occurrence_free]) simp
        with e Some Inr \<open>sd_text d _ = Some first\<close> False show ?thesis
          by (cases "continuation_start first") (auto simp: parse_lines_def)
      qed
    qed
  qed
qed

section \<open>Machines that differ in their counters of queries and allocations\<close>

definition shift :: "nat \<Rightarrow> nat \<Rightarrow> PreprocessMachine \<Rightarrow> PreprocessMachine" where
  "shift q a m = m\<lparr>host_queries := q, allocations := a\<rparr>"

definition drifted :: "PreprocessMachine \<Rightarrow> PreprocessMachine \<Rightarrow> bool" where
  "drifted m m' \<longleftrightarrow> (\<exists>q a. m' = shift q a m)"

lemma shift_simps [simp]:
  "machine_options (shift q a m) = machine_options m"
  "machine_source_map (shift q a m) = machine_source_map m"
  "machine_directives (shift q a m) = machine_directives m"
  "machine_notices (shift q a m) = machine_notices m"
  "machine_state (shift q a m) = machine_state m"
  "stack (shift q a m) = stack m" "resolved (shift q a m) = resolved m"
  "until_cancel_check (shift q a m) = until_cancel_check m"
  "host_queries (shift q a m) = q" "allocations (shift q a m) = a"
  "shift q a (shift q' a' m) = shift q a m"
  by (simp_all add: shift_def)

lemma shift_updates:
  "(shift q a m)\<lparr>machine_state := st\<rparr> = shift q a (m\<lparr>machine_state := st\<rparr>)"
  "(shift q a m)\<lparr>machine_source_map := b\<rparr> = shift q a (m\<lparr>machine_source_map := b\<rparr>)"
  "(shift q a m)\<lparr>stack := st'\<rparr> = shift q a (m\<lparr>stack := st'\<rparr>)"
  "(shift q a m)\<lparr>resolved := r\<rparr> = shift q a (m\<lparr>resolved := r\<rparr>)"
  "(shift q a m)\<lparr>machine_directives := ds\<rparr> = shift q a (m\<lparr>machine_directives := ds\<rparr>)"
  "(shift q a m)\<lparr>machine_notices := ns\<rparr> = shift q a (m\<lparr>machine_notices := ns\<rparr>)"
  "(shift q a m)\<lparr>until_cancel_check := u\<rparr> = shift q a (m\<lparr>until_cancel_check := u\<rparr>)"
  "(shift q a m)\<lparr>host_queries := q'\<rparr> = shift q' a m"
  "(shift q a m)\<lparr>allocations := a'\<rparr> = shift q a' m"
  "push_cursor c (shift q a m) = shift q a (push_cursor c m)"
  "push_directive x (shift q a m) = shift q a (push_directive x m)"
  "finish_output (shift q a m) = shift q a (finish_output m)"
  "expand_in_machine v (shift q a m) = expand_in_machine v m"
  by (simp_all add: shift_def push_cursor_def push_directive_def finish_output_def expand_in_machine_def)

lemma driftedI: "m' = shift q a m \<Longrightarrow> drifted m m'"
  by (auto simp: drifted_def)

lemma drifted_refl [simp]: "drifted m m"
  by (rule driftedI [of _ "host_queries m" "allocations m"]) (simp add: shift_def)

lemma drifted_shift [simp]: "drifted m (shift q a m)"
  by (rule driftedI) (rule refl)

lemma driftedE:
  assumes "drifted m m'"
  obtains q a where "m' = shift q a m"
  using assms by (auto simp: drifted_def)

lemma drifted_queries [simp]: "drifted m (m\<lparr>host_queries := q\<rparr>)"
  by (rule driftedI [of _ q "allocations m"]) (simp add: shift_def)

lemma drifted_allocations [simp]: "drifted m (m\<lparr>allocations := a\<rparr>)"
  by (rule driftedI [of _ "host_queries m" a]) (simp add: shift_def)

lemma drifted_trans: "drifted m m' \<Longrightarrow> drifted m' m'' \<Longrightarrow> drifted m m''"
  by (elim driftedE) simp

lemma drifted_sym: "drifted m m' \<Longrightarrow> drifted m' m"
  by (elim driftedE) (rule driftedI [of _ "host_queries m" "allocations m"], simp add: shift_def)

lemma drifted_requeried: "drifted m m' \<Longrightarrow> drifted (m\<lparr>host_queries := q\<rparr>) (m'\<lparr>host_queries := q'\<rparr>)"
  by (rule drifted_trans [OF drifted_sym [OF drifted_queries] drifted_trans [OF _ drifted_queries]])

lemma drifted_update:
  assumes "drifted m m'"
  shows "drifted (m\<lparr>machine_state := st\<rparr>) (m'\<lparr>machine_state := st\<rparr>)"
    "drifted (m\<lparr>machine_source_map := b\<rparr>) (m'\<lparr>machine_source_map := b\<rparr>)"
    "drifted (m\<lparr>stack := st'\<rparr>) (m'\<lparr>stack := st'\<rparr>)"
    "drifted (m\<lparr>resolved := r\<rparr>) (m'\<lparr>resolved := r\<rparr>)"
    "drifted (m\<lparr>machine_notices := ns\<rparr>) (m'\<lparr>machine_notices := ns\<rparr>)"
    "drifted (push_cursor c m) (push_cursor c m')" "drifted (push_directive x m) (push_directive x m')"
    "drifted (finish_output m) (finish_output m')"
  using assms by (elim driftedE; simp add: shift_updates)+

lemma drifted_fields:
  assumes "drifted m m'"
  shows "machine_options m' = machine_options m" "machine_source_map m' = machine_source_map m"
    "machine_directives m' = machine_directives m" "machine_notices m' = machine_notices m"
    "machine_state m' = machine_state m" "stack m' = stack m" "resolved m' = resolved m"
    "until_cancel_check m' = until_cancel_check m"
  using assms by (elim driftedE; simp)+

abbreviation machine_sim :: "PreprocessMachine run \<Rightarrow> PreprocessMachine run \<Rightarrow> bool" where
  "machine_sim \<equiv> rel_sum (=) drifted"

abbreviation result_sim :: "('a \<times> PreprocessMachine) run \<Rightarrow> ('a \<times> PreprocessMachine) run \<Rightarrow> bool" where
  "result_sim \<equiv> rel_sum (=) (rel_prod (=) drifted)"

lemma and_then_sim:
  "rel_sum (=) R r1 r2 \<Longrightarrow> (\<And>a b. R a b \<Longrightarrow> rel_sum (=) S (k1 a) (k2 b)) \<Longrightarrow>
   rel_sum (=) S (and_then r1 k1) (and_then r2 k2)"
  by (auto elim!: rel_sum.cases)

lemma check_cancelled_sim:
  assumes "drifted m m'"
  shows "machine_sim (check_cancelled NeverCancel m) (check_cancelled NeverCancel m')"
  using assms
  by (elim driftedE) (simp add: check_cancelled_def NeverCancel_def shift_updates,
    metis drifted_queries drifted_shift drifted_sym drifted_trans)

lemma bump_node_sim:
  assumes "drifted m m'"
  shows "machine_sim (bump_node sid r m) (bump_node sid r m')"
  using drifted_fields [OF assms] drifted_update(1) [OF assms]
  by (simp add: bump_node_def machine_error_def split: sum.split failure.split)

lemma register_machine_include_sim:
  assumes "drifted m m'"
  shows "machine_sim (register_machine_include sid r m) (register_machine_include sid r m')"
  using drifted_fields [OF assms] drifted_update(1) [OF assms]
  by (simp add: register_machine_include_def machine_error_def split: sum.split failure.split)

lemma append_text_sim:
  assumes "drifted m m'"
  shows "machine_sim (append_text v sid r k m) (append_text v sid r k m')"
  using drifted_fields [OF assms] drifted_update(2) [OF assms]
  by (simp add: append_text_def machine_error_def split: sum.split failure.split SourceMapBuildError.split)

lemma rel_sum_refl: "(\<And>a. R a a) \<Longrightarrow> rel_sum (=) R r r"
  by (cases r) auto

text \<open>A pure computation gives the same value on both sides.\<close>

lemma pure_sim:
  "(\<And>a. r = Inr a \<Longrightarrow> rel_sum (=) S (k1 a) (k2 a)) \<Longrightarrow> rel_sum (=) S (and_then r k1) (and_then r k2)"
  by (cases r) auto

lemma apply_transition_sim:
  assumes "drifted m m'"
  shows "result_sim (apply_transition c d l k t m) (apply_transition c d l k t m')"
proof -
  have "result_sim (and_then (append_text v sid r w m) (\<lambda>m. Inr (c, finish_output m)))
     (and_then (append_text v sid r w m') (\<lambda>m. Inr (c, finish_output m)))" for v sid r w
    by (rule and_then_sim [OF append_text_sim [OF assms]]) (simp add: drifted_update)
  with assms show ?thesis
    unfolding apply_transition_def Let_def by (cases t) (simp_all add: machine_error_def)
qed

lemma process_conditional_sim:
  assumes "drifted m m'"
  shows "result_sim (process_conditional c d l k e m) (process_conditional c d l k e m')"
  unfolding process_conditional_def Let_def
  by (rule and_then_sim [OF bump_node_sim [OF assms]], rule pure_sim)
     (simp add: drifted_fields(5) [OF drifted_update(7)] pure_sim apply_transition_sim drifted_update(7))

lemma finish_append_sim:
  assumes "drifted m m'"
  shows "machine_sim (and_then (append_text v sid r k m) (\<lambda>m. Inr (finish_output m)))
    (and_then (append_text v sid r k m') (\<lambda>m. Inr (finish_output m)))"
  by (rule and_then_sim [OF append_text_sim [OF assms]]) (simp add: drifted_update)

lemma expand_in_machine_drifted: "drifted m m' \<Longrightarrow> expand_in_machine v m' = expand_in_machine v m"
  by (simp add: expand_in_machine_def drifted_fields)

lemma process_unexpanded_include_sim:
  assumes "drifted m m'"
  shows "machine_sim (process_unexpanded_include inc l sid m) (process_unexpanded_include inc l sid m')"
  unfolding process_unexpanded_include_def Let_def
  by (rule and_then_sim [OF bump_node_sim [OF assms]], rule pure_sim)
     (simp add: expand_in_machine_drifted finish_append_sim drifted_update(7))

lemma process_escaped_sim:
  assumes "drifted m m'"
  shows "machine_sim (process_escaped literal l k sid m) (process_escaped literal l k sid m')"
  unfolding process_escaped_def by (rule finish_append_sim [OF assms])

lemma attribute_entry_sim:
  assumes "drifted m m'"
  shows "result_sim (attribute_entry NeverCancel delimiter c i l content m)
    (attribute_entry NeverCancel delimiter c i l content m')"
proof -
  have sim: "result_sim (and_then (map_err f r1) (\<lambda>(entry, q). Inr (entry, m\<lparr>host_queries := q\<rparr>)))
      (and_then (map_err f r2) (\<lambda>(entry, q). Inr (entry, m'\<lparr>host_queries := q\<rparr>)))"
    if "same_result r1 r2" for f :: "ParseFailure failure \<Rightarrow> MachineFailure failure" and r1 r2
    using that assms
    by (cases r1; cases r2) (auto intro: drifted_requeried)
  show ?thesis
    using assms unfolding attribute_entry_def Let_def drifted_fields(5) [OF assms]
    by (auto intro!: pure_sim sim parse_lines_free)
qed

lemma process_text_sim:
  assumes "drifted m m'"
  shows "result_sim (process_text NeverCancel c i l content m) (process_text NeverCancel c i l content m')"
proof -
  obtain delimiter st where o: "observe_delimiter content (machine_state m) = (delimiter, st)" by fastforce
  have o': "observe_delimiter content (machine_state m') = (delimiter, st)"
    using o drifted_fields(5) [OF assms] by simp
  show ?thesis
    unfolding process_text_def Let_def o o' prod.case
  proof (rule and_then_sim [OF bump_node_sim [OF drifted_update(1) [OF assms]]],
      rule and_then_sim [OF attribute_entry_sim], assumption, clarsimp simp only: rel_prod_inject prod.case)
    fix entry m1 m1'
    assume d: "drifted m1 m1'"
    let ?apply = "\<lambda>m. (case entry of
              None \<Rightarrow> Inr (c, False, m)
            | Some (occ, _, last_line) \<Rightarrow>
                and_then (apply_attribute occ (machine_state m)) (\<lambda>st.
                  Inr (if i < last_line then c\<lparr>attribute_value_through := Some last_line\<rparr> else c,
                       True, m\<lparr>machine_state := st\<rparr>))) :: (ExpansionCursor \<times> bool \<times> PreprocessMachine) run"
    have a: "rel_sum (=) (rel_prod (=) (rel_prod (=) drifted)) (?apply m1) (?apply m1')"
      using d drifted_fields(5) [OF d]
      by (auto split: option.split intro!: pure_sim simp: drifted_update)
    show "result_sim
       (and_then (?apply m1) (\<lambda>(cursor, document_attribute, m).
          and_then (append_text (line_text_of l) (frame_source_id (cursor_frame c)) (selected_range l)
              (selected_mapping l) m) (\<lambda>m.
            Inr (cursor, m\<lparr>machine_state := finish_line document_attribute content (machine_state m)\<rparr>))))
       (and_then (?apply m1') (\<lambda>(cursor, document_attribute, m).
          and_then (append_text (line_text_of l) (frame_source_id (cursor_frame c)) (selected_range l)
              (selected_mapping l) m) (\<lambda>m.
            Inr (cursor, m\<lparr>machine_state := finish_line document_attribute content (machine_state m)\<rparr>))))"
      by (rule and_then_sim [OF a])
         (auto intro!: and_then_sim [OF append_text_sim] simp: drifted_fields(5) drifted_update(1))
  qed
qed

lemma prepare_include_sim:
  assumes "drifted m m'"
  shows "result_sim (prepare_include inc f r m) (prepare_include inc f r m')"
proof -
  have "result_sim
     (case validate_target t (machine_options m1) of
        Inl text \<Rightarrow> machine_error UnsafeTarget sid r text
      | Inr _ \<Rightarrow> if b then machine_error IncludeCycle sid r e1
          else (case attrs of Inl text \<Rightarrow> machine_error InvalidDirective sid r text
            | Inr at \<Rightarrow> if \<not> supported_encoding at then machine_error UnsupportedEncoding sid r e2
                else and_then tr (\<lambda>x. Inr (k at x, m1))))
     (case validate_target t (machine_options m1') of
        Inl text \<Rightarrow> machine_error UnsafeTarget sid r text
      | Inr _ \<Rightarrow> if b then machine_error IncludeCycle sid r e1
          else (case attrs of Inl text \<Rightarrow> machine_error InvalidDirective sid r text
            | Inr at \<Rightarrow> if \<not> supported_encoding at then machine_error UnsupportedEncoding sid r e2
                else and_then tr (\<lambda>x. Inr (k at x, m1'))))"
    if "drifted m1 m1'" for m1 m1' t sid b e1 attrs e2 and k :: "(str \<rightharpoonup> str) \<Rightarrow> TextRange \<Rightarrow> PendingInclude"
      and tr :: "MachineFailure failure + TextRange"
    using that drifted_fields(1) [OF that]
    by (auto simp: machine_error_def split: sum.split intro!: pure_sim)
  note tail = this
  show ?thesis
  proof (cases "max_include_depth (machine_options m) \<le> frame_depth f")
    case True
    with drifted_fields(1) [OF assms] show ?thesis by (simp add: prepare_include_def machine_error_def)
  next
    case False
    then have False': "\<not> max_include_depth (machine_options m') \<le> frame_depth f"
      using drifted_fields(1) [OF assms] by simp
    show ?thesis
      unfolding prepare_include_def Let_def if_not_P [OF False] if_not_P [OF False']
      by (rule and_then_sim [OF register_machine_include_sim [OF assms]],
          rule and_then_sim [OF bump_node_sim], assumption)
         (simp only: expand_in_machine_drifted, rule tail)
  qed
qed

lemma open_resource_sim:
  assumes "drifted m m'"
  shows "result_sim (open_resource NeverCancel p d m) (open_resource NeverCancel p d m')"
proof -
  let ?f = "\<lambda>e :: TextRange failure. if e = Panic then Panic else Err MachineCancelled"
  have s: "same_result (map_err ?f (select_lines NeverCancel (resource_source d) (pending_attributes p) (host_queries m)))
      (map_err ?f (select_lines NeverCancel (resource_source d) (pending_attributes p) (host_queries m')))"
    by (rule same_result_map_err [OF select_lines_free])
  let ?g = "\<lambda>e. Err (case e of TransformCancelled \<Rightarrow> MachineCancelled
         | TransformByteLimit \<Rightarrow>
             MachineError (preprocess_error ByteLimit (pending_source_id p) (pending_range p)
               ''preprocessor byte limit exceeded''))"
  let ?new = "\<lambda>transformed. map_err lift_error
         (ExpansionCursor_new transformed
           (frame_child (pending_target p) (resource_id d) (target_base (pending_target p)) (pending_frame p)))"
  have tail: "result_sim
     (and_then (map_err ?g (transform_lines NeverCancel sel (pending_attributes p)
         (remaining_bytes (machine_source_map m)) q)) (\<lambda>(transformed, q).
       and_then (?new transformed) (\<lambda>cursor. Inr (cursor, m\<lparr>host_queries := q\<rparr>))))
     (and_then (map_err ?g (transform_lines NeverCancel sel (pending_attributes p)
         (remaining_bytes (machine_source_map m')) q')) (\<lambda>(transformed, q).
       and_then (?new transformed) (\<lambda>cursor. Inr (cursor, m'\<lparr>host_queries := q\<rparr>))))" for sel q q'
    using same_result_map_err [where f = ?g, OF transform_lines_free [of sel "pending_attributes p"
        "remaining_bytes (machine_source_map m)" q q']] assms drifted_fields(2) [OF assms]
    by (cases "map_err ?g (transform_lines NeverCancel sel (pending_attributes p) (remaining_bytes (machine_source_map m)) q)";
        cases "map_err ?g (transform_lines NeverCancel sel (pending_attributes p) (remaining_bytes (machine_source_map m)) q')")
       (auto intro!: pure_sim drifted_requeried)
  show ?thesis
    using s tail unfolding open_resource_def
    by (cases "map_err ?f (select_lines NeverCancel (resource_source d) (pending_attributes p) (host_queries m))";
        cases "map_err ?f (select_lines NeverCancel (resource_source d) (pending_attributes p) (host_queries m'))")
       auto
qed

lemma resolve_pending_sim:
  assumes "drifted m m'"
  shows "result_sim (resolve_pending NeverCancel p answer m) (resolve_pending NeverCancel p answer m')"
proof (cases answer)
  case None
  have "drifted (push_directive (include_directive p None) m\<lparr>machine_notices := ns\<rparr>)
     (push_directive (include_directive p None) m'\<lparr>machine_notices := ns\<rparr>)" for ns
    using assms by (simp add: drifted_update)
  with None drifted_fields(4) [OF drifted_update(7) [OF assms]] show ?thesis
    by (simp add: resolve_pending_def Let_def)
next
  case (Some d)
  have "result_sim
     (and_then (open_resource NeverCancel p d (push_directive x m)) (\<lambda>(cursor, m). Inr (Some cursor, m)))
     (and_then (open_resource NeverCancel p d (push_directive x m')) (\<lambda>(cursor, m). Inr (Some cursor, m)))" for x
    by (rule and_then_sim [OF open_resource_sim [OF drifted_update(7) [OF assms]]]) auto
  with Some show ?thesis by (simp add: resolve_pending_def Let_def)
qed

text \<open>Steps and iterations that agree up to those counters.\<close>

definition step_sim :: "PreprocessStep \<Rightarrow> PreprocessStep \<Rightarrow> bool" where
  "step_sim s1 s2 \<longleftrightarrow>
     s1 = s2
     \<or> (\<exists>a b k. s1 = NeedResource a \<and> s2 = NeedResource b
          \<and> drifted (suspended_machine a) (suspended_machine b)
          \<and> suspended_pending b = suspended_pending a
          \<and> suspended_request b = suspended_request a\<lparr>request_correlation := k\<rparr>)"

lemma step_sim_refl [simp]: "step_sim s s"
  by (simp add: step_sim_def)

definition iteration_sim :: "iteration \<Rightarrow> iteration \<Rightarrow> bool" where
  "iteration_sim i1 i2 =
     (case (i1, i2) of
        (Continue m1, Continue m2) \<Rightarrow> drifted m1 m2
      | (Return s1, Return s2) \<Rightarrow> step_sim s1 s2
      | (Panicked, Panicked) \<Rightarrow> True
      | _ \<Rightarrow> False)"

lemma iteration_sim_simps [simp]:
  "iteration_sim (Continue m1) (Continue m2) \<longleftrightarrow> drifted m1 m2"
  "iteration_sim (Return s1) (Return s2) \<longleftrightarrow> step_sim s1 s2"
  "iteration_sim Panicked Panicked"
  by (simp_all add: iteration_sim_def)

lemma attempt_sim:
  "rel_sum (=) R r1 r2 \<Longrightarrow> (\<And>a b. R a b \<Longrightarrow> iteration_sim (k1 a) (k2 b)) \<Longrightarrow>
   iteration_sim (attempt r1 k1) (attempt r2 k2)"
  by (auto elim!: rel_sum.cases simp: attempt_def split: failure.split)

lemma finish_free: "drifted m m' \<Longrightarrow> finish NeverCancel m' = finish NeverCancel m"
proof -
  assume d: "drifted m m'"
  have chk: "map_sum id (\<lambda>_. ()) (check_segments (checkpoint_is_cancelled NeverCancel) n a segs cp)
      = map_sum id (\<lambda>_. ()) (check_segments (checkpoint_is_cancelled NeverCancel) n a segs cp')" for n a segs cp cp'
  proof (induction segs arbitrary: a cp cp')
    case (Cons seg segs)
    obtain cp1 cp2 where "checkpoint_is_cancelled NeverCancel cp = (False, cp1)"
      "checkpoint_is_cancelled NeverCancel cp' = (False, cp2)" using never_checkpoint by metis
    with Cons.IH show ?case by simp
  qed simp
  have "map_sum id fst (finish_cancellable NeverCancel b ds ns cp)
      = map_sum id fst (finish_cancellable NeverCancel b ds ns cp')" for b ds ns cp cp'
    using chk [of "length (builder_source b)" 0 "segments b" cp cp']
    by (cases "check_segments (checkpoint_is_cancelled NeverCancel) (length (builder_source b)) 0 (segments b) cp";
        cases "check_segments (checkpoint_is_cancelled NeverCancel) (length (builder_source b)) 0 (segments b) cp'")
       (auto simp: finish_cancellable_def from_parts_checked_def TextSize_new_def)
  then have "map_sum id fst (finish_cancellable NeverCancel (machine_source_map m) (machine_directives m)
        (machine_notices m) (checkpoint_new (Suc (host_queries m))))
    = map_sum id fst (finish_cancellable NeverCancel (machine_source_map m) (machine_directives m)
        (machine_notices m) (checkpoint_new (Suc (host_queries m'))))" by blast
  then show ?thesis
    using drifted_fields [OF d]
    by (cases "finish_cancellable NeverCancel (machine_source_map m) (machine_directives m)
          (machine_notices m) (checkpoint_new (Suc (host_queries m)))";
        cases "finish_cancellable NeverCancel (machine_source_map m) (machine_directives m)
          (machine_notices m) (checkpoint_new (Suc (host_queries m')))")
       (auto simp: finish_def NeverCancel_def split: SourceMapFinishError.split)
qed

text \<open>What follows a lookup.\<close>

definition after_lookup ::
    "cancel_host \<Rightarrow> PendingInclude \<Rightarrow> MachineLookup \<Rightarrow> PreprocessMachine \<Rightarrow> iteration" where
  "after_lookup host p hit m =
     (case hit of
         Resolved document \<Rightarrow>
           attempt (resolve_pending host p document m) (\<lambda>(child, m).
             Continue (case child of None \<Rightarrow> m | Some c \<Rightarrow> push_cursor c m))
       | LookupDeferred req \<Rightarrow>
           Return (NeedResource \<lparr>suspended_machine = m, suspended_pending = p, suspended_request = req\<rparr>)
       | LookupHostError e \<Rightarrow> Return (HostError e))"

lemma expand_include_after:
  "expand_include host resources inc c l m =
     attempt (prepare_include inc (cursor_frame c) (selected_range l) m) (\<lambda>(p, m).
       case lookup_resource resources p (push_cursor c m) of (hit, m) \<Rightarrow> after_lookup host p hit m)"
  unfolding expand_include_def after_lookup_def Let_def ..

lemma after_resolved_sim:
  "drifted m m' \<Longrightarrow>
   iteration_sim (after_lookup NeverCancel p (Resolved answer) m) (after_lookup NeverCancel p (Resolved answer) m')"
  unfolding after_lookup_def MachineLookup.case
  by (rule attempt_sim [OF resolve_pending_sim]) (auto split: option.split simp: drifted_update)

lemma after_lookup_sim:
  assumes "drifted m m'"
  shows "iteration_sim
    (case lookup_resource resources p m of (hit, m) \<Rightarrow> after_lookup NeverCancel p hit m)
    (case lookup_resource resources p m' of (hit, m) \<Rightarrow> after_lookup NeverCancel p hit m)"
proof (cases "resolved m (pending_target p)")
  case (Some answer)
  with drifted_fields(7) [OF assms] after_resolved_sim [OF assms] show ?thesis
    by (simp add: lookup_resource_def)
next
  case None
  note r = None drifted_fields(7) [OF assms]
  show ?thesis
  proof (cases "resources (pending_target p)")
    case Deferred
    have "drifted (m\<lparr>allocations := a\<rparr>) (m'\<lparr>allocations := b\<rparr>)" for a b
      by (rule drifted_trans [OF drifted_sym [OF drifted_allocations] drifted_trans [OF assms drifted_allocations]])
    with r Deferred show ?thesis
      by (auto simp: lookup_resource_def after_lookup_def step_sim_def resource_request_def)
  next
    case (Ready d)
    have "drifted (m\<lparr>resolved := f\<rparr>) (m'\<lparr>resolved := f\<rparr>)" for f by (rule drifted_update(4) [OF assms])
    from after_resolved_sim [OF this] r Ready show ?thesis by (simp add: lookup_resource_def)
  next
    case Missing
    have "drifted (m\<lparr>resolved := f\<rparr>) (m'\<lparr>resolved := f\<rparr>)" for f by (rule drifted_update(4) [OF assms])
    from after_resolved_sim [OF this] r Missing show ?thesis by (simp add: lookup_resource_def)
  next
    case (LookupFailed e)
    with r show ?thesis by (simp add: lookup_resource_def after_lookup_def)
  qed
qed

lemma expand_include_sim:
  assumes "drifted m m'"
  shows "iteration_sim (expand_include NeverCancel resources inc c l m) (expand_include NeverCancel resources inc c l m')"
  unfolding expand_include_after
  by (rule attempt_sim [OF prepare_include_sim [OF assms]]) (auto intro!: after_lookup_sim drifted_update)

lemma continue_attribute_value_sim:
  assumes "drifted m m'"
  shows "iteration_sim (continue_attribute_value c i l m) (continue_attribute_value c i l m')"
  unfolding continue_attribute_value_def Let_def
  by (rule attempt_sim [OF bump_node_sim [OF assms]], rule attempt_sim [OF append_text_sim], assumption)
     (simp add: drifted_update)

lemma process_line_sim:
  assumes "drifted m m'"
  shows "iteration_sim (process_line NeverCancel resources c i m) (process_line NeverCancel resources c i m')"
proof (cases "case attribute_value_through c of None \<Rightarrow> False | Some last_line \<Rightarrow> i \<le> last_line")
  case True
  with continue_attribute_value_sim [OF assms] show ?thesis by (simp add: process_line_def Let_def)
next
  case False
  have push: "iteration_sim (attempt r1 (\<lambda>(c, m). Continue (push_cursor c m))) (attempt r2 (\<lambda>(c, m). Continue (push_cursor c m)))"
    if "result_sim r1 r2" for r1 r2
    by (rule attempt_sim [OF that]) (auto simp: drifted_update)
  have push_one: "iteration_sim (attempt r1 (\<lambda>m. Continue (push_cursor c m))) (attempt r2 (\<lambda>m. Continue (push_cursor c m)))"
    if "machine_sim r1 r2" for r1 r2
    by (rule attempt_sim [OF that]) (simp add: drifted_update)
  have skip: "iteration_sim (Continue (push_cursor c m)) (Continue (push_cursor c m'))"
    using assms by (simp add: drifted_update)
  note d = process_line_def Let_def if_not_P [OF False] drifted_fields(1) [OF assms]
  show ?thesis
  proof (cases "recognize (line_content_text (line_text_of (cursor_lines c ! i)))")
    case (ConditionalDirective x)
    show ?thesis unfolding d ConditionalDirective RecognizedDirective.case
      by (rule push [OF process_conditional_sim [OF assms]])
  next
    case (IncludeDirective inc)
    show ?thesis unfolding d IncludeDirective RecognizedDirective.case
      using skip expand_include_sim [OF assms] push_one [OF process_unexpanded_include_sim [OF assms]] by simp
  next
    case (EscapedDirective literal)
    show ?thesis unfolding d EscapedDirective RecognizedDirective.case
      using skip push_one [OF process_escaped_sim [OF assms]] by simp
  next
    case TextLine
    show ?thesis unfolding d TextLine RecognizedDirective.case
      using skip push [OF process_text_sim [OF assms]] by simp
  qed
qed

lemma drive_step_sim:
  assumes "drifted m m'"
  shows "iteration_sim (drive_step NeverCancel resources m) (drive_step NeverCancel resources m')"
proof (cases "stack m = []")
  case True
  with drifted_fields(6) [OF assms] finish_free [OF assms] show ?thesis by (simp add: drive_step_def)
next
  case False
  have "iteration_sim
     (attempt (check_cancelled NeverCancel (m\<lparr>stack := s\<rparr>)) (process_line NeverCancel resources c i))
     (attempt (check_cancelled NeverCancel (m'\<lparr>stack := s\<rparr>)) (process_line NeverCancel resources c i))" for s c i
    by (rule attempt_sim [OF check_cancelled_sim [OF drifted_update(3) [OF assms]] process_line_sim])
  with False drifted_fields(6) [OF assms] drifted_update(3) [OF assms] show ?thesis
    by (simp add: drive_step_def Let_def)
qed

definition outcome_sim :: "unit failure + PreprocessStep \<Rightarrow> unit failure + PreprocessStep \<Rightarrow> bool" where
  "outcome_sim = rel_sum (=) step_sim"

lemma drive_sim:
  "drifted m m' \<Longrightarrow> host = NeverCancel \<Longrightarrow> outcome_sim (drive host resources m) (drive host resources m')"
proof (induction host resources m arbitrary: m' rule: drive.induct)
  case (1 host resources m)
  have i: "iteration_sim (drive_step host resources m) (drive_step host resources m')"
    using drive_step_sim [OF "1.prems"(1)] "1.prems"(2) by simp
  show ?case
  proof (cases "drive_step host resources m")
    case (Continue m1)
    with i obtain m1' where c: "drive_step host resources m' = Continue m1'" "drifted m1 m1'"
      by (cases "drive_step host resources m'") (auto simp: iteration_sim_def)
    from "1.IH" [OF Continue c(2) "1.prems"(2)] Continue c(1) show ?thesis
      by (subst (1 2) drive.simps) simp
  next
    case (Return s)
    with i obtain s' where "drive_step host resources m' = Return s'" "step_sim s s'"
      by (cases "drive_step host resources m'") (auto simp: iteration_sim_def)
    with Return show ?thesis by (subst (1 2) drive.simps) (simp add: outcome_sim_def)
  next
    case Panicked
    with i have "drive_step host resources m' = Panicked"
      by (cases "drive_step host resources m'") (auto simp: iteration_sim_def)
    with Panicked show ?thesis by (subst (1 2) drive.simps) (simp add: outcome_sim_def)
  qed
qed

section \<open>Resuming is continuing\<close>

definition run_iteration ::
    "cancel_host \<Rightarrow> resource_lookup \<Rightarrow> iteration \<Rightarrow> unit failure + PreprocessStep" where
  "run_iteration host resources i =
     (case i of Continue m \<Rightarrow> drive host resources m | Return s \<Rightarrow> Inr s | Panicked \<Rightarrow> Inl Panic)"

lemma drive_run: "drive host resources m = run_iteration host resources (drive_step host resources m)"
  by (subst drive.simps) (simp add: run_iteration_def)

lemma resume_with_run:
  "resume_with host sus answer resources m =
     run_iteration host resources (after_lookup host (suspended_pending sus) (Resolved answer)
       (m\<lparr>resolved := (resolved m)(request_target (suspended_request sus) \<mapsto> answer)\<rparr>))"
  by (auto simp: resume_with_def Let_def after_lookup_def run_iteration_def attempt_def
      split: sum.split failure.split option.split)

lemma into_step_never_needs [simp]: "into_step f \<noteq> NeedResource sus" "NeedResource sus \<noteq> into_step f"
  by (cases f; simp add: into_step_def)+

lemma process_line_needs_shape:
  assumes "process_line host r c i m = Return (NeedResource sus)"
  obtains inc where "\<And>r'. process_line host r' c i m = expand_include host r' inc c (cursor_lines c ! i) m"
proof -
  have no: "attempt x k \<noteq> Return (NeedResource sus)" if "\<And>a. k a \<noteq> Return (NeedResource sus)"
    for x :: "'b run" and k
    using that by (auto simp: attempt_Return )
  show thesis
  proof (cases "case attribute_value_through c of None \<Rightarrow> False | Some last_line \<Rightarrow> i \<le> last_line")
    case True
    have "continue_attribute_value c i l m \<noteq> Return (NeedResource sus)" for l
      unfolding continue_attribute_value_def Let_def
      by (auto simp: attempt_Return )
    with assms True show thesis by (simp add: process_line_def Let_def)
  next
    case False
    note d = process_line_def Let_def if_not_P [OF False]
    show thesis
    proof (cases "recognize (line_content_text (line_text_of (cursor_lines c ! i)))")
      case (IncludeDirective inc)
      note g = d IncludeDirective RecognizedDirective.case
      show thesis
      proof (cases "list_all (\<lambda>c. c) (conditions c) \<and> enable_includes (machine_options m)")
        case True
        then have "process_line host r' c i m = expand_include host r' inc c (cursor_lines c ! i) m" for r'
          unfolding g by simp
        then show thesis by (rule that)
      next
        case other: False
        from assms [unfolded g] other show thesis
          by (auto simp: attempt_Return split: if_splits)
      qed
    next
      case (ConditionalDirective x)
      from assms [unfolded d ConditionalDirective RecognizedDirective.case] show thesis
        by (simp add: attempt_Return case_prod_beta )
    next
      case (EscapedDirective x)
      from assms [unfolded d EscapedDirective RecognizedDirective.case] show thesis
        by (auto simp: attempt_Return split: if_splits)
    next
      case TextLine
      from assms [unfolded d TextLine RecognizedDirective.case] show thesis
        by (auto simp: attempt_Return case_prod_beta split: if_splits)
    qed
  qed
qed

text \<open>A suspension shows the machine before the lookup, and what any lookup would have done.\<close>

lemma drive_step_needs:
  assumes "drive_step host r m = Return (NeedResource sus)"
  obtains mm where "resolved mm (pending_target (suspended_pending sus)) = None"
    "r (pending_target (suspended_pending sus)) = Deferred"
    "suspended_request sus = resource_request (suspended_pending sus) (allocations mm)"
    "suspended_machine sus = mm\<lparr>allocations := Suc (allocations mm)\<rparr>"
    "allocations mm = allocations m"
    "\<And>r'. drive_step host r' m =
       (case lookup_resource r' (suspended_pending sus) mm of (hit, m) \<Rightarrow> after_lookup host (suspended_pending sus) hit m)"
proof -
  let ?m = "m\<lparr>stack := butlast (stack m)\<rparr>" and ?c = "last (stack m)"
  let ?c' = "?c\<lparr>next_line := Suc (next_line ?c)\<rparr>"
  have ne: "stack m \<noteq> []" "\<not> length (cursor_lines ?c) \<le> next_line ?c"
    using assms
    by (auto simp: drive_step_def Let_def finish_def
        split: if_splits sum.splits SourceMapFinishError.splits)
  have step: "drive_step host r' m = attempt (check_cancelled host ?m) (process_line host r' ?c' (next_line ?c))" for r'
    using ne by (simp add: drive_step_def Let_def)
  from assms step obtain m1 where c: "check_cancelled host ?m = Inr m1"
    and p: "process_line host r ?c' (next_line ?c) m1 = Return (NeedResource sus)"
    by (auto simp: attempt_Return )
  obtain inc where inc: "\<And>r'. process_line host r' ?c' (next_line ?c) m1
      = expand_include host r' inc ?c' (cursor_lines ?c' ! next_line ?c) m1"
    using process_line_needs_shape [OF p] by blast
  from p inc have "expand_include host r inc ?c' (cursor_lines ?c' ! next_line ?c) m1 = Return (NeedResource sus)" by simp
  then show thesis
  proof (cases rule: expand_include_Return)
    case (failure f)
    then show thesis by simp
  next
    case (deferred p m2 m3 req)
    let ?mm = "push_cursor ?c' m2"
    from deferred(2) have "resolved ?mm (pending_target p) = None" "r (pending_target p) = Deferred"
      "req = resource_request p (allocations ?mm)" "m3 = ?mm\<lparr>allocations := Suc (allocations ?mm)\<rparr>"
      by (auto simp: lookup_resource_def split: option.splits ResourceLookupResult.splits)
    moreover have "drive_step host r' m =
       (case lookup_resource r' p ?mm of (hit, m) \<Rightarrow> after_lookup host p hit m)" for r'
      unfolding step c attempt_def sum.case inc expand_include_after
      using deferred(1) by simp
    moreover have "allocations ?mm = allocations m"
      using prepare_include_control(4) [OF deferred(1)] check_cancelled_control [OF c]
      by (simp add: push_cursor_def same_control_def)
    ultimately show thesis using that [of ?mm] deferred(3) by simp
  qed simp
qed

lemma drive_needs:
  "drive host r m = Inr (NeedResource sus) \<Longrightarrow>
   r (pending_target (suspended_pending sus)) = Deferred
   \<and> request_target (suspended_request sus) = pending_target (suspended_pending sus)"
proof (induction host r m rule: drive.induct)
  case (1 host r m)
  show ?case
  proof (cases "drive_step host r m")
    case (Continue m')
    with "1.prems" have "drive host r m' = Inr (NeedResource sus)" by (subst (asm) drive.simps) simp
    from "1.IH" [OF Continue this] show ?thesis .
  next
    case (Return s)
    with "1.prems" have "drive_step host r m = Return (NeedResource sus)" by (subst (asm) drive.simps) simp
    then show ?thesis by (rule drive_step_needs) (simp add: resource_request_def)
  next
    case Panicked
    with "1.prems" show ?thesis by (subst (asm) drive.simps) simp
  qed
qed

definition answer_result :: "ResourceDocument option \<Rightarrow> ResourceLookupResult" where
  "answer_result answer = (case answer of None \<Rightarrow> Missing | Some d \<Rightarrow> Ready d)"

lemma after_lookup_answer:
  "resolved mm (pending_target p) = None \<Longrightarrow>
   (case lookup_resource (r(pending_target p := answer_result answer)) p mm of (hit, m) \<Rightarrow> after_lookup host p hit m)
   = after_lookup host p (Resolved answer) (mm\<lparr>resolved := (resolved mm)(pending_target p \<mapsto> answer)\<rparr>)"
  by (simp add: lookup_resource_def answer_result_def split: option.split)

lemma after_resolved_keeps:
  assumes "after_lookup host p (Resolved answer) m = Continue m'"
  shows "resolved m' = resolved m"
proof -
  obtain child m1 where "resolve_pending host p answer m = Inr (child, m1)"
    and m': "m' = (case child of None \<Rightarrow> m1 | Some c \<Rightarrow> push_cursor c m1)"
    using assms by (auto simp: after_lookup_def attempt_Continue)
  with resolve_pending_control show ?thesis
    by (fastforce simp: same_control_def push_cursor_def split: option.splits)
qed

lemma resume_continues:
  "drive host r m = Inr (NeedResource sus) \<Longrightarrow> host = NeverCancel \<Longrightarrow>
   t = pending_target (suspended_pending sus) \<Longrightarrow>
   outcome_sim (drive host (r(t := answer_result answer)) m)
     (resume_with host sus answer r (suspended_machine sus\<lparr>host_queries := q\<rparr>))"
proof (induction host r m rule: drive.induct)
  case (1 host r m)
  let ?r = "r(t := answer_result answer)"
  note needs = drive_needs [OF "1.prems"(1)]
  have ext: "extends r ?r" using needs "1.prems"(3) by (simp add: extends_def)
  show ?case
  proof (cases "drive_step host r m")
    case (Continue m')
    with "1.prems"(1) have rest: "drive host r m' = Inr (NeedResource sus)" by (subst (asm) drive.simps) simp
    have "drive_step host ?r m = Continue m'"
      using drive_step_extends [OF _ ext, of host m] Continue by (simp add: needs_resource_def)
    then have "drive host ?r m = drive host ?r m'" by (subst drive_run) (simp only: run_iteration_def iteration.case)
    with "1.IH" [OF Continue rest "1.prems"(2,3)] show ?thesis by (simp only:)
  next
    case (Return s)
    with "1.prems"(1) have "drive_step host r m = Return (NeedResource sus)" by (subst (asm) drive.simps) simp
    then obtain mm where mm: "resolved mm t = None"
      "suspended_machine sus = mm\<lparr>allocations := Suc (allocations mm)\<rparr>"
      "\<And>r'. drive_step host r' m =
         (case lookup_resource r' (suspended_pending sus) mm of (hit, m) \<Rightarrow> after_lookup host (suspended_pending sus) hit m)"
      using drive_step_needs "1.prems"(3) by metis
    let ?p = "suspended_pending sus" and ?f = "(resolved mm)(t \<mapsto> answer)"
    let ?a = "after_lookup host ?p (Resolved answer) (mm\<lparr>resolved := ?f\<rparr>)"
    let ?mb = "suspended_machine sus\<lparr>host_queries := q, resolved := ?f\<rparr>"
    let ?b = "after_lookup host ?p (Resolved answer) ?mb"
    have left: "drive host ?r m = run_iteration host ?r ?a"
      using mm(1,3) "1.prems"(3) after_lookup_answer [where mm = mm and p = ?p and r = r and answer = answer and host = host] by (simp add: drive_run)
    have right: "resume_with host sus answer r (suspended_machine sus\<lparr>host_queries := q\<rparr>) = run_iteration host r ?b"
      using needs mm(2) "1.prems"(3) by (simp add: resume_with_run)
    have "?mb = shift q (Suc (allocations mm)) (mm\<lparr>resolved := ?f\<rparr>)"
      using mm(2) by (simp add: shift_def)
    then have "drifted (mm\<lparr>resolved := ?f\<rparr>) ?mb" by (rule driftedI)
    from after_resolved_sim [OF this] "1.prems"(2) have sim: "iteration_sim ?a ?b" by simp
    show ?thesis
    proof (cases ?a)
      case a: (Continue ma)
      with sim obtain mb where b: "?b = Continue mb" "drifted ma mb"
        by (cases ?b) (auto simp: iteration_sim_def)
      have "resolved mb t = Some answer" using after_resolved_keeps [OF b(1)] by simp
      then have "agree mb r ?r" by (simp add: agree_def)
      note same = drive_agree [OF this, of host]
      have "outcome_sim (drive host ?r ma) (drive host ?r mb)" by (rule drive_sim [OF b(2) "1.prems"(2)])
      then show ?thesis unfolding left right a b(1) run_iteration_def iteration.case same .
    next
      case a: (Return sa)
      with sim obtain sb where b: "?b = Return sb" "step_sim sa sb" by (cases ?b) (auto simp: iteration_sim_def)
      then show ?thesis unfolding left right a b(1) run_iteration_def iteration.case by (simp add: outcome_sim_def)
    next
      case a: Panicked
      with sim have b: "?b = Panicked" by (cases ?b) (auto simp: iteration_sim_def)
      show ?thesis unfolding left right a b run_iteration_def iteration.case by (simp add: outcome_sim_def)
    qed
  next
    case Panicked
    with "1.prems"(1) show ?thesis by (subst (asm) drive.simps) simp
  qed
qed

section \<open>Correlations\<close>

lemma drive_allocations:
  "drive host resources m = Inr (NeedResource sus) \<Longrightarrow>
   allocations m \<le> request_correlation (suspended_request sus)
   \<and> allocations (suspended_machine sus) = Suc (request_correlation (suspended_request sus))"
proof (induction host resources m rule: drive.induct)
  case (1 host resources m)
  show ?case
  proof (cases "drive_step host resources m")
    case (Continue m')
    with "1.prems" have "drive host resources m' = Inr (NeedResource sus)" by (subst (asm) drive.simps) simp
    from "1.IH" [OF Continue this] drive_step_grows [OF Continue] show ?thesis by (simp add: grows_def)
  next
    case (Return s)
    with "1.prems" have "drive_step host resources m = Return (NeedResource sus)"
      by (subst (asm) drive.simps) simp
    then obtain mm where "suspended_request sus = resource_request (suspended_pending sus) (allocations mm)"
      "suspended_machine sus = mm\<lparr>allocations := Suc (allocations mm)\<rparr>" "allocations mm = allocations m"
      by (rule drive_step_needs)
    then show ?thesis by (simp add: resource_request_def)
  next
    case Panicked
    with "1.prems" show ?thesis by (subst (asm) drive.simps) simp
  qed
qed

lemma suspended_case:
  "(case r of Inr (NeedResource sus) \<Rightarrow> P sus | _ \<Rightarrow> False) \<Longrightarrow> \<exists>sus. r = Inr (NeedResource sus) \<and> P sus"
  by (cases r) (auto split: PreprocessStep.splits)

lemma resume_with_allocations:
  assumes "resume_with host sus answer resources m = Inr (NeedResource sus')"
  shows "allocations m \<le> request_correlation (suspended_request sus')"
proof -
  let ?m = "m\<lparr>resolved := (resolved m)(request_target (suspended_request sus) \<mapsto> answer)\<rparr>"
  obtain child m1 where r: "resolve_pending host (suspended_pending sus) answer ?m = Inr (child, m1)"
    and d: "drive host resources (case child of None \<Rightarrow> m1 | Some c \<Rightarrow> push_cursor c m1) = Inr (NeedResource sus')"
    using assms by (auto simp: resume_with_def Let_def split: sum.splits failure.splits prod.splits)
  from resolve_pending_control [OF r] have "allocations m1 = allocations m" by (simp add: same_control_def)
  with drive_allocations [OF d] show ?thesis by (auto simp: push_cursor_def split: option.splits)
qed

lemma preprocess_resumable_drive:
  assumes "preprocess_resumable host source opts resources first = Inr s" and "s \<noteq> Cancelled" and "\<forall>e. s \<noteq> Failed e"
  obtains m where "root_machine host source opts first = Inr m" "\<not> host 0" "drive host resources m = Inr s"
proof (cases "root_machine host source opts first")
  case (Inl f)
  with assms show ?thesis
    by (auto simp: preprocess_resumable_def into_step_def split: if_splits failure.splits MachineFailure.splits)
next
  case (Inr m)
  with assms that show ?thesis by (auto simp: preprocess_resumable_def split: if_splits)
qed

section \<open>Properties\<close>

text \<open>C5. Only validated targets are looked up: two hosts that answer alike for every target
  that passes validation cannot be told apart by a run, and a suspended run waits for a
  validated target that its host had deferred.\<close>

theorem lookups_only_validated:
  assumes "\<forall>t. validate_target t opts = Inr () \<longrightarrow> r1 t = r2 t"
  shows "preprocess_resumable host source opts r1 first = preprocess_resumable host source opts r2 first
    \<and> (\<forall>sus. preprocess_resumable host source opts r1 first = Inr (NeedResource sus) \<longrightarrow>
         validate_target (request_target (suspended_request sus)) opts = Inr ()
         \<and> r1 (request_target (suspended_request sus)) = Deferred)"
proof (intro conjI allI impI)
  show "preprocess_resumable host source opts r1 first = preprocess_resumable host source opts r2 first"
  proof (cases "root_machine host source opts first")
    case (Inr m)
    from root_machine_ok [where tx = "run_texts opts source r1", OF Inr run_texts_ok(1)] assms
    have "agree m r1 r2" by (simp add: agree_def)
    from drive_agree [OF this] Inr show ?thesis by (simp add: preprocess_resumable_def)
  qed (simp add: preprocess_resumable_def)
next
  fix sus
  assume run: "preprocess_resumable host source opts r1 first = Inr (NeedResource sus)"
  then obtain m where "drive host r1 m = Inr (NeedResource sus)" by (rule preprocess_resumable_drive) simp_all
  note needs = drive_needs [OF this]
  from preprocess_resumable_step_ok [OF run run_texts_ok]
  have "validate_target (pending_target (suspended_pending sus)) opts = Inr ()"
    by (auto simp: step_ok_def suspended_ok_def waiting_ok_def pending_ok_def)
  with needs show "validate_target (request_target (suspended_request sus)) opts = Inr ()"
    and "r1 (request_target (suspended_request sus)) = Deferred" by simp_all
qed

theorem lookups_only_validated_witness:
  "preprocess_resumable NeverCancel ''include::a[]'' PreprocessOptions_default (\<lambda>_. Missing) 0
   = preprocess_resumable NeverCancel ''include::a[]'' PreprocessOptions_default
       (\<lambda>t. if t = ''../x'' then Deferred else Missing) 0"
proof -
  have "validate_target ''../x'' PreprocessOptions_default \<noteq> Inr ()" by code_simp
  then have "\<forall>t. validate_target t PreprocessOptions_default = Inr () \<longrightarrow>
      Missing = (if t = ''../x'' then Deferred else Missing)" by metis
  from lookups_only_validated [OF this] show ?thesis by blast
qed

text \<open>C2. Suspension is transparent: a run that stops for a deferred resource and is resumed with
  the host's answer ends like the run of a host that had the answer at hand, with the same
  document, the same error, or a request for the same next resource in an equal machine (up
  to the counters of cancellation queries and allocations).\<close>

theorem suspension_transparent:
  assumes "preprocess_resumable NeverCancel source opts resources first = Inr (NeedResource sus)"
  shows "outcome_sim
      (preprocess_resumable NeverCancel source opts
        (resources(request_target (suspended_request sus) := Ready d)) first)
      (resume NeverCancel sus (found (suspended_request sus) d) resources)
    \<and> outcome_sim
      (preprocess_resumable NeverCancel source opts
        (resources(request_target (suspended_request sus) := Missing)) first)
      (resume NeverCancel sus (not_found (suspended_request sus)) resources)"
proof -
  obtain m where m: "root_machine NeverCancel source opts first = Inr m"
    "drive NeverCancel resources m = Inr (NeedResource sus)"
    using preprocess_resumable_drive [OF assms] by auto
  have t: "request_target (suspended_request sus) = pending_target (suspended_pending sus)"
    using drive_needs [OF m(2)] by simp
  have start: "preprocess_resumable NeverCancel source opts r first = drive NeverCancel r m" for r
    using m(1) by (simp add: preprocess_resumable_def NeverCancel_def)
  note go = resume_continues [OF m(2) refl t]
  have "resume NeverCancel sus (found (suspended_request sus) d) resources
      = resume_with NeverCancel sus (Some d) resources
          (suspended_machine sus\<lparr>host_queries := Suc (host_queries (suspended_machine sus))\<rparr>)"
    and "resume NeverCancel sus (not_found (suspended_request sus)) resources
      = resume_with NeverCancel sus None resources
          (suspended_machine sus\<lparr>host_queries := Suc (host_queries (suspended_machine sus))\<rparr>)"
    by (simp_all add: resume_def Let_def found_def not_found_def NeverCancel_def)
  with go [of "Some d" "Suc (host_queries (suspended_machine sus))"]
    go [of None "Suc (host_queries (suspended_machine sus))"]
  show ?thesis unfolding start by (simp only: answer_result_def option.case simp_thms)
qed

theorem suspension_transparent_witness:
  "\<exists>sus. preprocess_resumable NeverCancel ''include::a[]'' PreprocessOptions_default (\<lambda>_. Deferred) 0
        = Inr (NeedResource sus)
     \<and> outcome_sim
      (preprocess_resumable NeverCancel ''include::a[]'' PreprocessOptions_default
        ((\<lambda>_. Deferred)(request_target (suspended_request sus) := Ready \<lparr>resource_id = ''A'', resource_source = ''x''\<rparr>)) 0)
      (resume NeverCancel sus (found (suspended_request sus) \<lparr>resource_id = ''A'', resource_source = ''x''\<rparr>) (\<lambda>_. Deferred))"
proof -
  have "(case preprocess_resumable NeverCancel ''include::a[]'' PreprocessOptions_default (\<lambda>_. Deferred) 0 of
      Inr (NeedResource _) \<Rightarrow> True | _ \<Rightarrow> False)" by code_simp
  then obtain sus where s: "preprocess_resumable NeverCancel ''include::a[]'' PreprocessOptions_default (\<lambda>_. Deferred) 0
      = Inr (NeedResource sus)" by (auto split: sum.splits PreprocessStep.splits)
  with suspension_transparent [OF s] show ?thesis by blast
qed



end
