(* ===== verification/Urls.thy ===== *)
theory Urls
  imports Str
begin

text \<open>
  \<open>url.rs\<close> and \<open>local_target.rs\<close>: the policy that decides which authored URLs deserve a
  diagnostic, the policy that decides which URLs become active output, and the discovery of
  authored local-file candidates.
\<close>

section \<open>Percent escapes\<close>

definition hex :: "char \<Rightarrow> nat option" where
  "hex b =
     (if in_byte_range 48 57 b then Some (byte_val b - 48)
      else if in_byte_range 97 102 b then Some (byte_val b - 97 + 10)
      else if in_byte_range 65 70 b then Some (byte_val b - 65 + 10)
      else None)"

fun contains_invalid_percent_escape :: "str \<Rightarrow> bool" where
  "contains_invalid_percent_escape [] = False"
| "contains_invalid_percent_escape (b # s) =
     (if b \<noteq> CHR 0x25 then contains_invalid_percent_escape s
      else (case s of
          h # l # rest \<Rightarrow>
            if hex h = None \<or> hex l = None then True else contains_invalid_percent_escape rest
        | _ \<Rightarrow> True))"

text \<open>\<open>as_bytes().windows(3)\<close>, and the byte that a window of an escape stands for.\<close>

fun windows3 :: "str \<Rightarrow> str list" where
  "windows3 (a # b # c # s) = [a, b, c] # windows3 (b # c # s)"
| "windows3 _ = []"

definition decoded_byte :: "str \<Rightarrow> nat option" where
  "decoded_byte window = (case window of
      [p, h, l] \<Rightarrow>
        if p \<noteq> CHR 0x25 then None
        else (case (hex h, hex l) of
            (Some high, Some low) \<Rightarrow> Some (high * 16 + low)
          | _ \<Rightarrow> None)
    | _ \<Rightarrow> None)"

definition contains_encoded :: "(nat \<Rightarrow> bool) \<Rightarrow> str \<Rightarrow> bool" where
  "contains_encoded forbidden s =
     list_ex (\<lambda>window. case decoded_byte window of None \<Rightarrow> False | Some d \<Rightarrow> forbidden d) (windows3 s)"

definition contains_encoded_path_metacharacter :: "str \<Rightarrow> bool" where
  "contains_encoded_path_metacharacter = contains_encoded (\<lambda>d. d = 46 \<or> d = 47 \<or> d = 92)"

definition contains_encoded_control :: "str \<Rightarrow> bool" where
  "contains_encoded_control = contains_encoded (\<lambda>d. d \<le> 32 \<or> d = 127)"

section \<open>Classification\<close>

datatype UrlDecision = Allowed | Rejected

datatype UrlProvenance = Authored | ResolvedReference | ResolvedResource

definition is_resolved :: "UrlProvenance \<Rightarrow> bool" where
  "is_resolved p \<longleftrightarrow> p = ResolvedReference \<or> p = ResolvedResource"

text \<open>The characters that no URL may contain, whatever its use.\<close>

definition forbidden_char :: "str \<Rightarrow> bool" where
  "forbidden_char ch \<longleftrightarrow>
     is_control ch \<or> is_whitespace ch
     \<or> ch \<in> {''<'', ''>'', [double_quote], [quote_char], ''`'', ''{'', ''}''}"

definition invalid_url_text :: "str \<Rightarrow> bool" where
  "invalid_url_text s \<longleftrightarrow>
     s = [] \<or> list_ex forbidden_char (chars s) \<or> contains_invalid_percent_escape s
     \<or> contains_encoded_control s"

definition scheme_bytes :: "str \<Rightarrow> bool" where
  "scheme_bytes s =
     list_all (\<lambda>(index, b). is_ascii_alphanumeric b \<or> (0 < index \<and> b \<in> set ''+-.'')) (enumerate 0 s)"

definition contains_incomplete_scheme :: "str \<Rightarrow> str list \<Rightarrow> bool" where
  "contains_incomplete_scheme s allowed =
     (case find_str ''//'' s of
        None \<Rightarrow> False
      | Some separator \<Rightarrow>
          let p = take separator s in
          p \<noteq> [] \<and> is_ascii_alphabetic (hd p) \<and> scheme_bytes p
          \<and> list_ex (\<lambda>a. eq_ignore_ascii_case a p) allowed)"

definition NEVER_ACTIVE_SCHEMES :: "str list" where
  "NEVER_ACTIVE_SCHEMES = [''javascript'', ''vbscript'']"

definition classify_scheme :: "str \<Rightarrow> nat \<Rightarrow> str list \<Rightarrow> bool \<Rightarrow> UrlDecision" where
  "classify_scheme s colon allowed allow_data =
     (let scheme = take colon s in
      if scheme = [] \<or> \<not> scheme_bytes scheme \<or> \<not> is_ascii_alphabetic (hd scheme) then Rejected
      else
        let normalized = to_ascii_lowercase scheme in
        if List.member NEVER_ACTIVE_SCHEMES normalized then Rejected
        else if normalized = ''data'' \<and> \<not> allow_data then Rejected
        else if list_ex (\<lambda>a. eq_ignore_ascii_case a normalized) allowed then Allowed
        else Rejected)"

definition classify_authored_relative :: "str \<Rightarrow> bool \<Rightarrow> UrlDecision" where
  "classify_authored_relative s allow_relative =
     (if \<not> allow_relative \<or> starts_with s ''/'' \<or> List.member s backslash then Rejected else Allowed)"

definition classify_relative :: "str \<Rightarrow> bool \<Rightarrow> bool \<Rightarrow> UrlDecision" where
  "classify_relative s allow_relative allow_root =
     (if List.member s backslash \<or> list_ex (\<lambda>seg. seg = ''..'') (split_chars ''/'' s)
         \<or> contains_encoded_path_metacharacter s
      then Rejected
      else if starts_with s ''/'' then
        (if allow_root \<and> \<not> starts_with s ''//'' then Allowed else Rejected)
      else if allow_relative then Allowed else Rejected)"

definition classify_url :: "str \<Rightarrow> str list \<Rightarrow> bool \<Rightarrow> bool \<Rightarrow> bool \<Rightarrow> UrlDecision" where
  "classify_url s allowed allow_relative allow_root allow_data =
     (if invalid_url_text s \<or> contains_incomplete_scheme s allowed then Rejected
      else (case find_char (CHR '':'') s of
          None \<Rightarrow> classify_relative s allow_relative allow_root
        | Some colon \<Rightarrow> classify_scheme s colon allowed allow_data))"

section \<open>Policies\<close>

record AuthoredUrlPolicy =
  authored_schemes :: "str list"
  allow_relative :: bool

record ActiveUrlPolicy =
  active_schemes :: "str list"
  allow_authored_relative :: bool
  allow_resolved_relative :: bool
  allow_resolved_root_relative :: bool
  allow_data_uris :: bool

definition default_allowed_schemes :: "str list" where
  "default_allowed_schemes = [''http'', ''https'']"

definition AuthoredUrlPolicy_default :: AuthoredUrlPolicy where
  "AuthoredUrlPolicy_default = \<lparr>authored_schemes = default_allowed_schemes, allow_relative = True\<rparr>"

definition ActiveUrlPolicy_default :: ActiveUrlPolicy where
  "ActiveUrlPolicy_default =
     \<lparr>active_schemes = default_allowed_schemes, allow_authored_relative = False,
      allow_resolved_relative = False, allow_resolved_root_relative = False,
      allow_data_uris = False\<rparr>"

definition authored_classify :: "AuthoredUrlPolicy \<Rightarrow> str \<Rightarrow> UrlDecision" where
  "authored_classify policy s =
     (if invalid_url_text s \<or> contains_incomplete_scheme s (authored_schemes policy) then Rejected
      else (case find_char (CHR '':'') s of
          None \<Rightarrow> classify_authored_relative s (allow_relative policy)
        | Some colon \<Rightarrow> classify_scheme s colon (authored_schemes policy) False))"

definition authored_allows :: "AuthoredUrlPolicy \<Rightarrow> str \<Rightarrow> bool" where
  "authored_allows policy s \<longleftrightarrow> authored_classify policy s = Allowed"

definition active_classify :: "ActiveUrlPolicy \<Rightarrow> str \<Rightarrow> UrlProvenance \<Rightarrow> UrlDecision" where
  "active_classify policy s provenance =
     (let relative_ok = (case provenance of
            Authored \<Rightarrow> allow_authored_relative policy
          | ResolvedReference \<Rightarrow> allow_resolved_relative policy
          | ResolvedResource \<Rightarrow> allow_resolved_relative policy)
      in classify_url s (active_schemes policy) relative_ok
           (is_resolved provenance \<and> allow_resolved_root_relative policy) (allow_data_uris policy))"

definition active_allows :: "ActiveUrlPolicy \<Rightarrow> str \<Rightarrow> UrlProvenance \<Rightarrow> bool" where
  "active_allows policy s provenance \<longleftrightarrow> active_classify policy s provenance = Allowed"

section \<open>What a decoded URL can hold\<close>

text \<open>The text that a consumer sees after decoding the escapes once; a stray \<open>%\<close> stands for itself.\<close>

fun percent_decode :: "str \<Rightarrow> str" where
  "percent_decode [] = []"
| "percent_decode (b # s) =
     (case decoded_byte (take 3 (b # s)) of
        Some d \<Rightarrow> char_of d # percent_decode (drop 2 s)
      | None \<Rightarrow> b # percent_decode s)"

lemma hex_less: "hex b = Some n \<Longrightarrow> n < 16"
  by (auto simp: hex_def in_byte_range_def split: if_splits)

lemma decoded_byte_Some:
  "decoded_byte w = Some d \<longleftrightarrow>
     (\<exists>h l x y. w = [CHR 0x25, h, l] \<and> hex h = Some x \<and> hex l = Some y \<and> d = x * 16 + y)"
  by (auto simp: decoded_byte_def split: list.splits option.splits if_splits)

lemma decoded_byte_less: "decoded_byte w = Some d \<Longrightarrow> d < 256"
  by (fastforce simp: decoded_byte_Some dest: hex_less)

lemma windows3_sublist: "w \<in> set (windows3 s) \<longleftrightarrow> length w = 3 \<and> sublist w s"
proof (induction s rule: windows3.induct)
  case (1 a b c s)
  have "length w = 3 \<Longrightarrow> prefix w (a # b # c # s) \<longleftrightarrow> w = [a, b, c]"
    by (auto simp: length_Suc_conv eval_nat_numeral)
  with 1 show ?case
    by (auto simp: sublist_Cons_right)
qed (auto simp: sublist_Cons_right length_Suc_conv eval_nat_numeral)

lemma contains_encodedI:
  "decoded_byte w = Some d \<Longrightarrow> sublist w s \<Longrightarrow> P d \<Longrightarrow> contains_encoded P s"
proof -
  assume w: "decoded_byte w = Some d" and "sublist w s" and "P d"
  moreover from w have "length w = 3" by (auto simp: decoded_byte_Some)
  ultimately show ?thesis
    by (auto simp: contains_encoded_def list_ex_iff windows3_sublist intro!: bexI [of _ w])
qed

lemma contains_encoded_sublist: "sublist t s \<Longrightarrow> contains_encoded P t \<Longrightarrow> contains_encoded P s"
  by (fastforce simp: contains_encoded_def list_ex_iff windows3_sublist split: option.splits
      intro: sublist_order.order.trans)

lemma sublist_take_Cons: "sublist (take n (b # s)) (b # s)"
  by (rule prefix_imp_sublist) (rule take_is_prefix)

lemma sublist_tail: "sublist s (b # s)" and sublist_drop_tail: "sublist (drop n s) (b # s)"
  by (auto intro: suffix_imp_sublist suffix_ConsI suffix_drop sublist_order.order.trans)

text \<open>Every decoded byte is a byte of the text or stands behind one of its escapes.\<close>

lemma percent_decode_bytes:
  assumes "b \<in> set (percent_decode s)"
  shows "b \<in> set s \<or> contains_encoded (\<lambda>d. d = byte_val b) s"
  using assms
proof (induction s rule: percent_decode.induct)
  case (2 c s)
  show ?case
  proof (cases "decoded_byte (take 3 (c # s))")
    case None
    with 2 show ?thesis
      by (auto intro: contains_encoded_sublist [OF sublist_tail])
  next
    case (Some d)
    then have d: "d < 256" by (rule decoded_byte_less)
    from Some 2(3) consider "b = char_of d" | "b \<in> set (percent_decode (drop 2 s))" by auto
    then show ?thesis
    proof cases
      case 1
      with d have "d = byte_val b" by simp
      with Some show ?thesis
        by (blast intro: contains_encodedI sublist_take_Cons)
    next
      case 2
      from "2.IH"(2) [OF Some 2] show ?thesis
        by (auto dest: in_set_dropD intro: contains_encoded_sublist [OF sublist_drop_tail])
    qed
  qed
qed simp

text \<open>A run of a plain character at the start of the decoded text is one of the text itself.\<close>

lemma percent_decode_replicate:
  assumes "percent_decode s = replicate n c @ t" and "\<not> contains_encoded (\<lambda>d. d = byte_val c) s"
    and "c \<noteq> CHR 0x25"
  shows "\<exists>u. s = replicate n c @ u \<and> percent_decode u = t"
  using assms(1,2)
proof (induction s arbitrary: n rule: percent_decode.induct)
  case (2 b s)
  show ?case
  proof (cases n)
    case (Suc m)
    show ?thesis
    proof (cases "decoded_byte (take 3 (b # s))")
      case None
      with 2(3) Suc have c: "b = c" and m: "percent_decode s = replicate m c @ t" by auto
      have "\<not> contains_encoded (\<lambda>d. d = byte_val c) s"
        using 2(4) contains_encoded_sublist [OF sublist_tail] by blast
      from "2.IH"(1) [OF None m this] Suc c show ?thesis by auto
    next
      case (Some d)
      with 2(3) Suc have "char_of d = c" by auto
      with decoded_byte_less [OF Some] have "d = byte_val c" by auto
      with contains_encodedI [OF Some sublist_take_Cons, of "\<lambda>d. d = byte_val c"] 2(4)
      show ?thesis by simp
    qed
  qed (use 2 in simp)
qed (use assms in simp)

lemma percent_decode_eq_Nil [simp]: "percent_decode s = [] \<longleftrightarrow> s = []"
  by (cases s) (simp_all split: option.split)

lemma percent_decode_dots:
  "percent_decode s = ''..'' \<Longrightarrow> \<not> contains_encoded (\<lambda>d. d = 46) s \<Longrightarrow> s = ''..''"
  using percent_decode_replicate [of s "Suc (Suc 0)" "CHR ''.''" "[]"] by auto

lemma percent_decode_slashes:
  "starts_with (percent_decode s) ''//'' \<Longrightarrow> \<not> contains_encoded (\<lambda>d. d = 47) s
   \<Longrightarrow> starts_with s ''//''"
  using percent_decode_replicate [of s "Suc (Suc 0)" "CHR ''/''"] by (auto simp: starts_with_prefix)

text \<open>Decoding commutes with splitting at slashes, since no escape spans one.\<close>

lemma hex_not_slash [simp]: "hex (CHR ''/'') = None"
  by (simp add: hex_def in_byte_range_def)

lemma split_chars_append_first:
  "\<forall>b \<in> set u. \<not> List.member pat b \<Longrightarrow>
   split_chars pat (u @ s) = (u @ hd (split_chars pat s)) # tl (split_chars pat s)"
  by (induction u) (auto split: list.splits)

lemma split_chars_hd_prefix: "prefix (hd (split_chars pat s)) s"
proof (induction s)
  case (Cons b s)
  then show ?case by (cases "split_chars pat s") auto
qed simp

lemma split_chars_sublist: "w \<in> set (split_chars pat s) \<Longrightarrow> sublist w s"
proof (induction s arbitrary: w)
  case (Cons b s)
  show ?case
  proof (cases "List.member pat b \<or> w \<noteq> hd (split_chars pat (b # s))")
    case True
    with Cons.prems have "w = [] \<or> w \<in> set (split_chars pat s)"
      by (auto split: list.splits if_splits)
    with Cons.IH show ?thesis by (auto intro: sublist_order.order.trans [OF _ sublist_tail])
  next
    case False
    with split_chars_hd_prefix [of pat "b # s"] show ?thesis by (auto intro: prefix_imp_sublist)
  qed
qed simp

lemma split_chars_percent_decode:
  assumes "\<not> contains_encoded (\<lambda>d. d = 47) s"
  shows "split_chars ''/'' (percent_decode s) = map percent_decode (split_chars ''/'' s)"
  using assms
proof (induction s rule: percent_decode.induct)
  case (2 b s)
  show ?case
  proof (cases "decoded_byte (take 3 (b # s))")
    case (Some d)
    then obtain h l where s: "b # s = [CHR 0x25, h, l] @ drop 2 s"
      and hl: "hex h \<noteq> None" "hex l \<noteq> None"
      by (cases s rule: windows3.cases) (auto simp: decoded_byte_Some)
    let ?t = "drop 2 s"
    have IH: "split_chars ''/'' (percent_decode ?t) = map percent_decode (split_chars ''/'' ?t)"
      using "2.IH"(2) [OF Some] "2.prems" contains_encoded_sublist [OF sublist_drop_tail] by blast
    have "d \<noteq> 47"
      using "2.prems" contains_encodedI [OF Some sublist_take_Cons, of "\<lambda>d. d = 47"] by auto
    have c: "char_of d \<noteq> CHR ''/''"
    proof
      assume "char_of d = CHR ''/''"
      then have "byte_val (char_of d :: char) = byte_val (CHR ''/'')" by simp
      with decoded_byte_less [OF Some] \<open>d \<noteq> 47\<close> show False by simp
    qed
    have "split_chars ''/'' (b # s) =
        ([CHR 0x25, h, l] @ hd (split_chars ''/'' ?t)) # tl (split_chars ''/'' ?t)"
      unfolding s using hl by (intro split_chars_append_first) (auto simp: List.member_iff)
    moreover have "percent_decode ([CHR 0x25, h, l] @ w) = char_of d # percent_decode w" for w
      using Some s by (auto simp: numeral_3_eq_3)
    ultimately show ?thesis
      using Some c IH by (cases "split_chars ''/'' ?t") (auto simp: List.member_iff)
  next
    case None
    have IH: "split_chars ''/'' (percent_decode s) = map percent_decode (split_chars ''/'' s)"
      using "2.IH"(1) [OF None] "2.prems" contains_encoded_sublist [OF sublist_tail] by blast
    show ?thesis
    proof (cases "b = CHR ''/''")
      case True
      with None IH show ?thesis by (simp add: decoded_byte_def List.member_iff)
    next
      case False
      obtain w ws where w: "split_chars ''/'' s = w # ws"
        by (cases "split_chars ''/'' s") auto
      have "decoded_byte (take 3 (b # w)) = None"
      proof (rule ccontr)
        assume "decoded_byte (take 3 (b # w)) \<noteq> None"
        then obtain d where d: "decoded_byte (take 3 (b # w)) = Some d" by auto
        then obtain h l where "take 3 (b # w) = [CHR 0x25, h, l]"
          unfolding decoded_byte_Some by blast
        then have "length (take 3 (b # w)) = length [CHR 0x25, h, l]" by (rule arg_cong)
        moreover have "prefix w s" using split_chars_hd_prefix [of "''/''" s] w by simp
        ultimately have "take 3 (b # w) = take 3 (b # s)"
          by (auto simp: prefix_def)
        with d None show False by simp
      qed
      with w False None IH show ?thesis by (simp add: List.member_iff)
    qed
  qed
qed simp

section \<open>Active output\<close>

lemma valid_scalar_ascii:
  assumes "valid_scalar ch" and "b \<in> set ch" and "byte_val b < 128"
  shows "ch = [b]"
  using assms
  by (auto simp: valid_scalar_def is_continuation_def in_byte_range_def split: list.splits if_splits)

lemma ascii_byte_char:
  assumes "valid_utf8 s" and "b \<in> set s" and "byte_val b < 128"
  shows "[b] \<in> set (chars s)"
proof -
  from assms(2) have "b \<in> set (concat (chars s))" by simp
  then obtain ch where "ch \<in> set (chars s)" and "b \<in> set ch"
    unfolding set_concat by blast
  with assms(1,3) show ?thesis
    by (auto simp: valid_utf8_def list_all_iff dest: valid_scalar_ascii)
qed

lemma visible_text:
  assumes "\<not> invalid_url_text s" and "valid_utf8 s" and "b \<in> set (percent_decode s)"
  shows "32 < byte_val b \<and> byte_val b \<noteq> 127"
proof (rule ccontr)
  assume bad: "\<not> (32 < byte_val b \<and> byte_val b \<noteq> 127)"
  from percent_decode_bytes [OF assms(3)] show False
  proof
    assume "b \<in> set s"
    with bad have "[b] \<in> set (chars s)" by (intro ascii_byte_char [OF assms(2)]) auto
    moreover from bad have "is_control [b] \<or> is_whitespace [b]"
      by (auto simp: is_control_def is_whitespace_def le_less)
    ultimately show False
      using assms(1) by (auto simp: invalid_url_text_def forbidden_char_def list_ex_iff)
  next
    assume "contains_encoded (\<lambda>d. d = byte_val b) s"
    with bad have "contains_encoded_control s"
      unfolding contains_encoded_control_def contains_encoded_def
      by (auto simp: list_ex_iff split: option.splits intro!: bexI)
    with assms(1) show False by (simp add: invalid_url_text_def)
  qed
qed
text \<open>What a browser may be handed: nothing it would run, nothing outside its relative base.\<close>

definition scheme_ok :: "ActiveUrlPolicy \<Rightarrow> str \<Rightarrow> bool" where
  "scheme_ok policy scheme \<longleftrightarrow>
     scheme \<notin> {''javascript'', ''vbscript''}
     \<and> (scheme = ''data'' \<longrightarrow> allow_data_uris policy)
     \<and> (\<exists>a \<in> set (active_schemes policy). eq_ignore_ascii_case a scheme)"

definition confined_path :: "str \<Rightarrow> bool" where
  "confined_path path \<longleftrightarrow>
     ''..'' \<notin> set (split_chars ''/'' path) \<and> backslash \<notin> set path \<and> \<not> starts_with path ''//''"

lemma classify_scheme_Allowed:
  "classify_scheme s colon (active_schemes policy) (allow_data_uris policy) = Allowed
   \<Longrightarrow> scheme_ok policy (to_ascii_lowercase (take colon s))"
  by (auto simp: classify_scheme_def scheme_ok_def Let_def NEVER_ACTIVE_SCHEMES_def list_ex_iff
      List.member_iff split: if_splits)

lemma contains_encoded_mono: "contains_encoded P s \<Longrightarrow> (\<And>d. P d \<Longrightarrow> Q d) \<Longrightarrow> contains_encoded Q s"
  by (auto simp: contains_encoded_def list_ex_iff split: option.splits)

lemma classify_relative_Allowed:
  assumes "classify_relative s relative_ok root_ok = Allowed"
  shows "confined_path (percent_decode s) \<and> (if starts_with s ''/'' then root_ok else relative_ok)"
proof -
  from assms have meta: "\<not> contains_encoded (\<lambda>d. d = 46 \<or> d = 47 \<or> d = 92) s"
    and dots: "''..'' \<notin> set (split_chars ''/'' s)" and bs: "backslash \<notin> set s"
    and root: "starts_with s ''/'' \<Longrightarrow> root_ok \<and> \<not> starts_with s ''//''"
    and rel: "\<not> starts_with s ''/'' \<Longrightarrow> relative_ok"
    by (auto simp: classify_relative_def contains_encoded_path_metacharacter_def list_ex_iff
        List.member_iff split: if_splits)
  have no: "\<not> contains_encoded (\<lambda>d. d = 46) s" "\<not> contains_encoded (\<lambda>d. d = 47) s"
    "\<not> contains_encoded (\<lambda>d. d = byte_val backslash) s"
    using meta contains_encoded_mono [where s = s and Q = "\<lambda>d. d = 46 \<or> d = 47 \<or> d = 92"] by auto
  have "''..'' \<notin> set (split_chars ''/'' (percent_decode s))"
  proof
    assume "''..'' \<in> set (split_chars ''/'' (percent_decode s))"
    then obtain w where w: "w \<in> set (split_chars ''/'' s)" and "percent_decode w = ''..''"
      by (auto simp: split_chars_percent_decode [OF no(2)])
    with no(1) have "w = ''..''"
      by (auto intro: percent_decode_dots contains_encoded_sublist [OF split_chars_sublist [OF w]])
    with w dots show False by simp
  qed
  moreover have "backslash \<notin> set (percent_decode s)"
    using percent_decode_bytes [of backslash s] bs no(3) by blast
  moreover have "\<not> starts_with (percent_decode s) ''//''"
  proof
    assume "starts_with (percent_decode s) ''//''"
    then have "starts_with s ''//''" by (rule percent_decode_slashes) (rule no(2))
    then have "starts_with s ''/''" by (auto simp: starts_with_prefix)
    with root \<open>starts_with s ''//''\<close> show False by blast
  qed
  ultimately show ?thesis using root rel by (simp add: confined_path_def)
qed

text \<open>C25. A URL that the active policy allows is not empty and holds, also after decoding its
  escapes once, no control character and no white space. With a scheme, the scheme is one the
  policy lists, in any case, and never \<open>javascript\<close> or \<open>vbscript\<close>, nor \<open>data\<close> without its own
  switch. Without one it is a path that stays below its base after decoding (no \<open>..\<close>
  segment, no backslash, no host after two slashes), and the switch for relative or
  root-relative paths of its provenance is on.\<close>

theorem active_url_confined:
  assumes "active_classify policy s provenance = Allowed" and "valid_utf8 s"
  shows "s \<noteq> [] \<and> (\<forall>ch \<in> set (chars s). \<not> forbidden_char ch)
    \<and> (\<forall>b \<in> set (percent_decode s). 32 < byte_val b \<and> byte_val b \<noteq> 127)
    \<and> (case find_char (CHR '':'') s of
        Some colon \<Rightarrow> scheme_ok policy (to_ascii_lowercase (take colon s))
      | None \<Rightarrow>
          confined_path (percent_decode s)
          \<and> (if starts_with s ''/''
             then provenance \<noteq> Authored \<and> allow_resolved_root_relative policy
             else if provenance = Authored then allow_authored_relative policy
             else allow_resolved_relative policy))"
proof -
  let ?relative = "case provenance of Authored \<Rightarrow> allow_authored_relative policy
    | ResolvedReference \<Rightarrow> allow_resolved_relative policy
    | ResolvedResource \<Rightarrow> allow_resolved_relative policy"
  let ?root = "is_resolved provenance \<and> allow_resolved_root_relative policy"
  from assms(1) have allowed: "classify_url s (active_schemes policy) ?relative ?root
      (allow_data_uris policy) = Allowed"
    by (simp add: active_classify_def)
  then have visible: "\<not> invalid_url_text s" by (auto simp: classify_url_def split: if_splits)
  then have "s \<noteq> [] \<and> (\<forall>ch \<in> set (chars s). \<not> forbidden_char ch)
    \<and> (\<forall>b \<in> set (percent_decode s). 32 < byte_val b \<and> byte_val b \<noteq> 127)"
    using visible_text [OF visible assms(2)] by (auto simp: invalid_url_text_def list_ex_iff)
  moreover have "case find_char (CHR '':'') s of
        Some colon \<Rightarrow> scheme_ok policy (to_ascii_lowercase (take colon s))
      | None \<Rightarrow>
          confined_path (percent_decode s)
          \<and> (if starts_with s ''/''
             then provenance \<noteq> Authored \<and> allow_resolved_root_relative policy
             else if provenance = Authored then allow_authored_relative policy
             else allow_resolved_relative policy)"
  proof (cases "find_char (CHR '':'') s")
    case None
    with allowed have "classify_relative s ?relative ?root = Allowed"
      unfolding classify_url_def by (simp only: option.case split: if_splits) simp
    from classify_relative_Allowed [OF this] show ?thesis
      unfolding None option.case by (cases provenance) (simp_all add: is_resolved_def split: if_splits)
  next
    case (Some colon)
    with allowed have "classify_scheme s colon (active_schemes policy) (allow_data_uris policy) = Allowed"
      unfolding classify_url_def by (simp only: option.case split: if_splits) simp
    from classify_scheme_Allowed [OF this] show ?thesis
      unfolding Some option.case .
  qed
  ultimately show ?thesis by blast
qed

theorem active_url_confined_witness:
  "confined_path (percent_decode ''/notes/a%41b'')"
  using active_url_confined
    [of "ActiveUrlPolicy_default\<lparr>allow_resolved_root_relative := True\<rparr>" "''/notes/a%41b''" ResolvedReference]
  by code_simp

end
