(* ===== verification/Targets.thy ===== *)
theory Targets
  imports Urls Source
begin

text \<open>
  \<open>reference.rs\<close>, \<open>local_target.rs\<close> and the media types of \<open>resource.rs\<close>: the keys of
  cross-document references, the discovery of authored local-file candidates, and the media
  type a host reports for a resource.
\<close>

section \<open>Reference keys\<close>

datatype ReferenceKey =
    LocalKey str
  | DocumentKey str "str option"
  | SchemeKey str str "str option"

text \<open>\<open>split_once('#').map_or((value, None), ...)\<close>.\<close>

definition split_anchor :: "str \<Rightarrow> str \<times> str option" where
  "split_anchor s =
     (case split_once_char (CHR ''#'') s of
        None \<Rightarrow> (s, None)
      | Some (before, anchor) \<Rightarrow> (before, Some anchor))"

definition ReferenceKey_parse :: "str \<Rightarrow> ReferenceKey option" where
  "ReferenceKey_parse tgt =
     (case strip_prefix tgt ''#'' of
        Some anchor \<Rightarrow> if anchor \<noteq> [] then Some (LocalKey anchor) else None
      | None \<Rightarrow>
          (case find_char (CHR '':'') tgt of
             Some colon \<Rightarrow>
               if scheme_bytes (take colon tgt)
               then
                 (let (locator, anchor) = split_anchor (drop (colon + 1) tgt)
                  in Some (SchemeKey (to_ascii_lowercase (take colon tgt)) locator anchor))
               else
                 (let (document, anchor) = split_anchor tgt
                  in if document \<noteq> [] then Some (DocumentKey document anchor) else None)
           | None \<Rightarrow>
               (let (document, anchor) = split_anchor tgt
                in if document \<noteq> [] then Some (DocumentKey document anchor) else None)))"

text \<open>The text that names a key.\<close>

definition anchor_text :: "str option \<Rightarrow> str" where
  "anchor_text a = (case a of None \<Rightarrow> [] | Some x \<Rightarrow> CHR ''#'' # x)"

fun key_text :: "ReferenceKey \<Rightarrow> str" where
  "key_text (LocalKey a) = CHR ''#'' # a"
| "key_text (DocumentKey d a) = d @ anchor_text a"
| "key_text (SchemeKey s l a) = s @ CHR '':'' # l @ anchor_text a"

text \<open>The keys whose parts do not swallow one another.\<close>

fun key_ok :: "ReferenceKey \<Rightarrow> bool" where
  "key_ok (LocalKey a) \<longleftrightarrow> a \<noteq> []"
| "key_ok (DocumentKey d a) \<longleftrightarrow>
     d \<noteq> [] \<and> CHR ''#'' \<notin> set d \<and> CHR '':'' \<notin> set d \<and> CHR '':'' \<notin> set (anchor_text a)"
| "key_ok (SchemeKey s l a) \<longleftrightarrow>
     scheme_bytes s \<and> to_ascii_lowercase s = s \<and> CHR ''#'' \<notin> set l"

lemma find_char_absent: "c \<notin> set s \<Longrightarrow> find_char c s = None"
  by simp

lemma split_anchor_text: "split_anchor s = (d, a) \<longleftrightarrow> s = d @ anchor_text a \<and> CHR ''#'' \<notin> set d"
proof
  assume "split_anchor s = (d, a)"
  then show "s = d @ anchor_text a \<and> CHR ''#'' \<notin> set d"
    by (auto simp: split_anchor_def split_once_char_def anchor_text_def find_char_Some
        split: option.splits dest: id_take_nth_drop)
next
  assume s: "s = d @ anchor_text a \<and> CHR ''#'' \<notin> set d"
  show "split_anchor s = (d, a)"
  proof (cases a)
    case None
    with s show ?thesis
      by (simp add: split_anchor_def split_once_char_def anchor_text_def find_char_absent)
  next
    case (Some x)
    with s have "find_char (CHR ''#'') s = Some (length d)"
      by (simp add: find_char_Some anchor_text_def)
    with s Some show ?thesis by (simp add: split_anchor_def split_once_char_def anchor_text_def)
  qed
qed

lemma scheme_bytes_member: "scheme_bytes s \<Longrightarrow> b \<in> set s \<Longrightarrow> is_ascii_alphanumeric b \<or> b \<in> set ''+-.''"
  by (fastforce simp: scheme_bytes_def list_all_iff enumerate_eq_zip in_set_zip in_set_conv_nth)

lemma scheme_bytes_plain: "scheme_bytes s \<Longrightarrow> CHR ''#'' \<notin> set s \<and> CHR '':'' \<notin> set s"
  using scheme_bytes_member [of s "CHR ''#''"] scheme_bytes_member [of s "CHR '':''"]
  by (auto simp: is_ascii_alphanumeric_def is_ascii_alphabetic_def is_ascii_upper_def is_ascii_lower_def
        is_ascii_digit_def in_byte_range_def)

text \<open>A key is read back from its text.\<close>

lemma reference_key_roundtrip:
  assumes "key_ok k"
  shows "ReferenceKey_parse (key_text k) = Some k"
proof (cases k)
  case (LocalKey a)
  with assms show ?thesis by (auto simp: ReferenceKey_parse_def strip_prefix_def starts_with_def)
next
  case (DocumentKey d a)
  with assms have d: "d \<noteq> []" "CHR ''#'' \<notin> set d" "CHR '':'' \<notin> set (d @ anchor_text a)" by auto
  then have "strip_prefix (key_text k) ''#'' = None"
    using DocumentKey by (cases d) (auto simp: strip_prefix_def starts_with_def)
  moreover have "split_anchor (key_text k) = (d, a)"
    using DocumentKey d by (simp add: split_anchor_text)
  ultimately show ?thesis
    unfolding ReferenceKey_parse_def DocumentKey key_text.simps find_char_absent [OF d(3)]
    using d(1) by simp
next
  case (SchemeKey s l a)
  with assms have s: "scheme_bytes s" "to_ascii_lowercase s = s" "CHR ''#'' \<notin> set l" by auto
  from scheme_bytes_plain [OF s(1)] have plain: "CHR ''#'' \<notin> set s" "CHR '':'' \<notin> set s" by auto
  then have "strip_prefix (key_text k) ''#'' = None"
    using SchemeKey by (cases s) (auto simp: strip_prefix_def starts_with_def)
  moreover have "find_char (CHR '':'') (key_text k) = Some (length s)"
    using SchemeKey find_char_append [OF plain(2)] by simp
  moreover have "split_anchor (l @ anchor_text a) = (l, a)"
    using s(3) by (simp add: split_anchor_text)
  ultimately show ?thesis using SchemeKey s by (simp add: ReferenceKey_parse_def)
qed

text \<open>The parts of a parsed key make up the target again, up to the case of the scheme.\<close>

lemma parsed_key_text:
  assumes "ReferenceKey_parse tgt = Some k"
  shows "case k of
      SchemeKey s l a \<Rightarrow> \<exists>s'. tgt = key_text (SchemeKey s' l a) \<and> s = to_ascii_lowercase s'
    | _ \<Rightarrow> tgt = key_text k"
proof -
  have parts: "tgt = take colon tgt @ CHR '':'' # drop (colon + 1) tgt"
    if "find_char (CHR '':'') tgt = Some colon" for colon
    using that id_take_nth_drop [of colon tgt] by (simp add: find_char_Some)
  from assms show ?thesis
    unfolding ReferenceKey_parse_def
    by (auto simp: split_anchor_text strip_prefix_Some
        split: option.splits if_splits prod.splits)
      (metis Suc_eq_plus1 parts)
qed

text \<open>Unlike the URL policies, the parser of keys takes an empty scheme.\<close>

lemma reference_empty_scheme: "ReferenceKey_parse '':x'' = Some (SchemeKey [] ''x'' None)"
  by code_simp

section \<open>Media types\<close>

datatype MediaFamily = ImageFamily | AudioFamily | VideoFamily | OtherFamily

record MediaType =
  essence :: str
  family :: MediaFamily

definition is_media_type_token :: "char \<Rightarrow> bool" where
  "is_media_type_token b \<longleftrightarrow>
     is_ascii_alphanumeric b \<or> List.member ''!#$%&*+-.^_`|~'' b \<or> b = quote_char"

text \<open>The loop over the bytes of a quoted value, with its \<open>escaped\<close> flag.\<close>

fun quoted_bytes_ok :: "bool \<Rightarrow> str \<Rightarrow> bool" where
  "quoted_bytes_ok escaped [] = (\<not> escaped)"
| "quoted_bytes_ok escaped (b # s) =
     (if escaped then quoted_bytes_ok False s
      else if b = backslash then quoted_bytes_ok True s
      else if b = double_quote then False
      else quoted_bytes_ok escaped s)"

definition valid_quoted_parameter :: "str \<Rightarrow> bool" where
  "valid_quoted_parameter s =
     (case strip_prefix s [double_quote] of
        None \<Rightarrow> False
      | Some t \<Rightarrow>
          (case strip_suffix t [double_quote] of
             None \<Rightarrow> False
           | Some inner \<Rightarrow> quoted_bytes_ok False inner))"

definition valid_media_type_parameter :: "str \<Rightarrow> bool" where
  "valid_media_type_parameter parameter =
     (case split_once_char (CHR ''='') (trim parameter) of
        None \<Rightarrow> False
      | Some (name, v) \<Rightarrow>
          let name = trim name; v = trim v in
          name \<noteq> [] \<and> list_all is_media_type_token name
          \<and> (list_all is_media_type_token v \<or> valid_quoted_parameter v))"

text \<open>The only error is \<open>InvalidMediaType\<close>, so the result is an option.\<close>

definition MediaType_parse :: "str \<Rightarrow> MediaType option" where
  "MediaType_parse s =
     (if \<not> list_all (\<lambda>b. byte_val b < 128) s
         \<or> list_ex (\<lambda>b. byte_val b < 32 \<or> byte_val b = 127) s
      then None
      else
        let parts = split_chars '';'' s; ess = trim (hd parts) in
        (case split_once_char (CHR ''/'') ess of
           None \<Rightarrow> None
         | Some (top_level, subtype) \<Rightarrow>
             if top_level = [] \<or> subtype = [] \<or> top_level = ''*'' \<or> subtype = ''*''
               \<or> List.member subtype (CHR ''/'')
               \<or> \<not> list_all is_media_type_token top_level \<or> \<not> list_all is_media_type_token subtype
             then None
             else if \<not> list_all valid_media_type_parameter (tl parts) then None
             else
               let fam = (if eq_ignore_ascii_case top_level ''image'' then ImageFamily
                 else if eq_ignore_ascii_case top_level ''audio'' then AudioFamily
                 else if eq_ignore_ascii_case top_level ''video'' then VideoFamily
                 else OtherFamily)
               in Some \<lparr>essence = to_ascii_lowercase ess, family = fam\<rparr>))"

text \<open>An accepted essence is a type and a subtype of plain token characters in lower case.\<close>

lemma ascii_lower_token: "is_media_type_token b \<Longrightarrow> is_media_type_token (ascii_lower b)"
proof (cases "is_ascii_upper b")
  case True
  then have "is_ascii_lower (ascii_lower b)"
    by (auto simp: ascii_lower_def is_ascii_upper_def is_ascii_lower_def in_byte_range_def)
  then show ?thesis
    by (simp add: is_media_type_token_def is_ascii_alphanumeric_def is_ascii_alphabetic_def)
next
  case False
  assume "is_media_type_token b"
  with False show ?thesis by (simp add: ascii_lower_def)
qed

lemma media_type_essence:
  assumes "MediaType_parse s = Some m"
  shows "\<exists>t u. essence m = t @ ''/'' @ u \<and> t \<noteq> [] \<and> u \<noteq> []
    \<and> list_all is_media_type_token (t @ u) \<and> to_ascii_lowercase (essence m) = essence m"
proof -
  let ?e = "trim (hd (split_chars '';'' s))"
  from assms obtain t u where split: "split_once_char (CHR ''/'') ?e = Some (t, u)"
    and tu: "t \<noteq> []" "u \<noteq> []" "list_all is_media_type_token t" "list_all is_media_type_token u"
    and m: "essence m = to_ascii_lowercase ?e"
    unfolding MediaType_parse_def Let_def by (auto split: if_splits option.splits)
  from split have "?e = t @ CHR ''/'' # u"
    by (auto simp: split_once_char_def find_char_Some dest: id_take_nth_drop)
  then have "essence m = to_ascii_lowercase t @ ''/'' @ to_ascii_lowercase u"
    using m by (simp add: to_ascii_lowercase_def ascii_lower_def is_ascii_upper_def in_byte_range_def)
  moreover have "list_all is_media_type_token (to_ascii_lowercase t @ to_ascii_lowercase u)"
    using tu(3,4) by (auto simp: to_ascii_lowercase_def list_all_iff ascii_lower_token)
  moreover have "to_ascii_lowercase (essence m) = essence m" using m by simp
  ultimately show ?thesis using tu(1,2)
    by (intro exI [of _ "to_ascii_lowercase t"] exI [of _ "to_ascii_lowercase u"])
      (simp add: to_ascii_lowercase_def)
qed

text \<open>A parameter is cut at a semicolon even inside its quotes, and the type is then refused.\<close>

lemma quoted_semicolon_refused:
  "valid_media_type_parameter (''x='' @ [double_quote] @ ''a;b'' @ [double_quote])
   \<and> MediaType_parse (''text/plain;x='' @ [double_quote] @ ''a;b'' @ [double_quote]) = None"
  by code_simp

section \<open>Local targets\<close>

datatype ResourcePurpose =
    ImagePurpose | IconPurpose | AudioPurpose | VideoPurpose | VideoPosterPurpose

datatype LocalTargetKind =
    LinkTarget | CrossReferenceTarget | ResourceTarget ResourcePurpose | IncludeTarget

datatype LocalTargetSyntax = Candidate | Unverifiable

record LocalTargetReference =
  local_kind :: LocalTargetKind
  local_range :: TextRange
  local_target_range :: TextRange
  local_target :: str
  local_path :: str
  local_syntax :: LocalTargetSyntax

definition invalid_percent_escape :: "str \<Rightarrow> bool" where
  "invalid_percent_escape = contains_invalid_percent_escape"

definition encoded_forbidden_byte :: "str \<Rightarrow> bool" where
  "encoded_forbidden_byte = contains_encoded (\<lambda>d. d \<le> 31 \<or> d = 58 \<or> d = 92 \<or> d = 127)"

text \<open>\<open>split_once(['?', '#']).map_or(target, |(path, _)| path)\<close>.\<close>

definition strip_suffix_parts :: "str \<Rightarrow> str" where
  "strip_suffix_parts s =
     (case find_if (\<lambda>b. b = CHR ''?'' \<or> b = CHR ''#'') s of None \<Rightarrow> s | Some i \<Rightarrow> take i s)"

definition from_target ::
    "LocalTargetKind \<Rightarrow> TextRange \<Rightarrow> TextRange \<Rightarrow> str \<Rightarrow> bool \<Rightarrow> bool \<Rightarrow> LocalTargetReference option" where
  "from_target kind r target_r tgt expansion_failed strip_url_suffix =
     (let path = if strip_url_suffix then strip_suffix_parts tgt else tgt;
          reference = (\<lambda>syntax.
            \<lparr>local_kind = kind, local_range = r, local_target_range = target_r, local_target = tgt,
             local_path = path, local_syntax = syntax\<rparr>)
      in if expansion_failed then Some (reference Unverifiable)
         else if path = [] then None
         else if starts_with path ''/'' \<or> starts_with path [backslash] \<or> List.member path (CHR '':'')
         then None
         else
           let rejected_relative = (authored_classify AuthoredUrlPolicy_default tgt = Rejected);
               syntax = (if rejected_relative \<or> List.member path backslash
                   \<or> list_ex forbidden_char (chars path)
                   \<or> invalid_percent_escape path \<or> encoded_forbidden_byte path
                 then Unverifiable else Candidate)
           in Some (reference syntax))"

text \<open>
  The constructors read these fields of a link, a cross reference or a resource: its range,
  the range and the text of its target, and whether expanding the target's attributes failed.
\<close>

definition from_link :: "TextRange \<Rightarrow> TextRange \<Rightarrow> str \<Rightarrow> bool \<Rightarrow> LocalTargetReference option" where
  "from_link r target_r tgt expansion_failed =
     from_target LinkTarget r target_r tgt expansion_failed True"

definition from_reference ::
    "TextRange \<Rightarrow> TextRange \<Rightarrow> TextRange option \<Rightarrow> ReferenceKey option \<Rightarrow> bool
     \<Rightarrow> LocalTargetReference option" where
  "from_reference r target_r document_range key expansion_failed =
     (case key of
        Some (DocumentKey document _) \<Rightarrow>
          from_target CrossReferenceTarget r
            (case document_range of Some d \<Rightarrow> d | None \<Rightarrow> target_r) document expansion_failed True
      | _ \<Rightarrow> None)"

definition from_resource ::
    "ResourcePurpose \<Rightarrow> TextRange \<Rightarrow> TextRange \<Rightarrow> str \<Rightarrow> bool \<Rightarrow> LocalTargetReference option" where
  "from_resource purpose r target_r tgt expansion_failed =
     from_target (ResourceTarget purpose) r target_r tgt expansion_failed True"

definition from_include :: "TextRange \<Rightarrow> TextRange \<Rightarrow> str \<Rightarrow> LocalTargetReference option" where
  "from_include r target_r tgt =
     from_target IncludeTarget r target_r tgt
       (list_ex (\<lambda>b. b = CHR ''{'' \<or> b = CHR ''}'') tgt) False"

lemma find_if_before:
  "b \<in> set (case find_if p s of None \<Rightarrow> s | Some i \<Rightarrow> take i s) \<Longrightarrow> \<not> p b"
  by (induction s) (auto split: option.splits if_splits)

lemma strip_suffix_parts_plain:
  "CHR ''?'' \<notin> set (strip_suffix_parts s)" "CHR ''#'' \<notin> set (strip_suffix_parts s)"
  unfolding strip_suffix_parts_def by (rule notI, drule find_if_before, simp)+

lemma contains_encoded_byte:
  "contains_encoded (\<lambda>d. d = byte_val b) s \<Longrightarrow> P (byte_val b) \<Longrightarrow> contains_encoded P s"
  by (erule contains_encoded_mono) simp

lemma from_target_Candidate:
  assumes "from_target kind r target_r tgt failed strip = Some t" and "local_syntax t = Candidate"
  defines "path \<equiv> if strip then strip_suffix_parts tgt else tgt"
  shows "local_path t = path" "\<not> failed" "path \<noteq> []" "\<not> starts_with path ''/''"
    "CHR '':'' \<notin> set path" "backslash \<notin> set path"
    "\<forall>ch \<in> set (chars path). \<not> forbidden_char ch" "\<not> encoded_forbidden_byte path"
proof -
  note t = assms(1) [unfolded from_target_def Let_def, folded path_def]
  from t assms(2) show f: "\<not> failed" by (auto split: if_splits)
  from t f have ne: "path \<noteq> []" and sep: "\<not> (starts_with path ''/'' \<or> starts_with path [backslash]
      \<or> List.member path (CHR '':''))"
    by (simp_all split: if_splits)
  from ne show "path \<noteq> []" .
  from sep show "\<not> starts_with path ''/''" "CHR '':'' \<notin> set path" by (simp_all add: List.member_iff)
  from t f ne sep have t: "t = \<lparr>local_kind = kind, local_range = r, local_target_range = target_r,
      local_target = tgt, local_path = path, local_syntax = local_syntax t\<rparr>"
    and syn: "local_syntax t = (if authored_classify AuthoredUrlPolicy_default tgt = Rejected
        \<or> List.member path backslash \<or> list_ex forbidden_char (chars path)
        \<or> invalid_percent_escape path \<or> encoded_forbidden_byte path then Unverifiable else Candidate)"
    by (simp_all only: if_False option.inject) auto
  from t show "local_path t = path" by (metis LocalTargetReference.select_convs(5))
  from syn assms(2) show "backslash \<notin> set path" "\<forall>ch \<in> set (chars path). \<not> forbidden_char ch"
    "\<not> encoded_forbidden_byte path"
    by (simp_all add: List.member_iff list_ex_iff split: if_splits)
qed

text \<open>C26. An authored target is a local-file candidate exactly when its path is a plain relative
  one: not empty, without scheme, drive or leading separator, and free of characters that
  could change its meaning, also after decoding its escapes once. For a link, a reference or
  a resource the path ends before the query and the anchor.\<close>

theorem local_candidate_plain:
  assumes "from_target kind r target_r tgt failed strip = Some t" and "local_syntax t = Candidate"
    and "valid_utf8 (local_path t)"
  shows "local_path t \<noteq> [] \<and> \<not> starts_with (local_path t) ''/'' \<and> \<not> failed
    \<and> (\<forall>ch \<in> set (chars (local_path t)). \<not> forbidden_char ch)
    \<and> (\<forall>b \<in> set (percent_decode (local_path t)).
        31 < byte_val b \<and> byte_val b \<noteq> 127 \<and> b \<noteq> backslash \<and> b \<noteq> CHR '':'')
    \<and> (strip \<longrightarrow> CHR ''?'' \<notin> set (local_path t) \<and> CHR ''#'' \<notin> set (local_path t))
    \<and> (\<not> strip \<longrightarrow> local_path t = tgt)"
proof -
  let ?path = "if strip then strip_suffix_parts tgt else tgt"
  note candidate = from_target_Candidate [OF assms(1,2)]
  note path = candidate(1) and plain = candidate(5,6) and ok = candidate(7,8)
  have bytes: "31 < byte_val b \<and> byte_val b \<noteq> 127 \<and> b \<noteq> backslash \<and> b \<noteq> CHR '':''"
    if b: "b \<in> set (percent_decode ?path)" for b
  proof (rule ccontr)
    assume bad: "\<not> ?thesis"
    from percent_decode_bytes [OF b] show False
    proof
      assume raw: "b \<in> set ?path"
      with bad plain have low: "byte_val b \<le> 31 \<or> byte_val b = 127" by auto
      with raw have "[b] \<in> set (chars ?path)"
        using assms(3) path by (intro ascii_byte_char) auto
      moreover from low have "is_control [b]" by (auto simp: is_control_def)
      ultimately show False using ok(1) by (auto simp: forbidden_char_def)
    next
      assume enc: "contains_encoded (\<lambda>d. d = byte_val b) ?path"
      from bad have "byte_val b \<le> 31 \<or> byte_val b = 58 \<or> byte_val b = 92 \<or> byte_val b = 127" by auto
      with enc have "encoded_forbidden_byte ?path"
        unfolding encoded_forbidden_byte_def by (rule contains_encoded_byte)
      with ok(2) show False by simp
    qed
  qed
  have "strip \<Longrightarrow> CHR ''?'' \<notin> set ?path \<and> CHR ''#'' \<notin> set ?path" "\<not> strip \<Longrightarrow> ?path = tgt"
    using strip_suffix_parts_plain [of tgt] by simp_all
  then show ?thesis
    using candidate(2-4) ok(1) bytes unfolding path by blast
qed

theorem local_candidate_plain_witness:
  "\<exists>c. from_target LinkTarget \<lparr>range_start = 0, range_end = 9\<rparr>
      \<lparr>range_start = 0, range_end = 9\<rparr> ''a%41b.adoc?x#y'' False True = Some c
    \<and> CHR ''#'' \<notin> set (local_path c)"
proof -
  have "case from_target LinkTarget \<lparr>range_start = 0, range_end = 9\<rparr>
        \<lparr>range_start = 0, range_end = 9\<rparr> ''a%41b.adoc?x#y'' False True of
      Some c \<Rightarrow> local_syntax c = Candidate \<and> valid_utf8 (local_path c) | None \<Rightarrow> False"
    by code_simp
  with local_candidate_plain [of LinkTarget "\<lparr>range_start = 0, range_end = 9\<rparr>"
      "\<lparr>range_start = 0, range_end = 9\<rparr>" "''a%41b.adoc?x#y''" False True]
  show ?thesis by (auto split: option.splits)
qed

end
