(* ===== verification/Diagnostics.thy ===== *)
theory Diagnostics
  imports Source "HOL-Library.Product_Lexorder" "HOL-Library.List_Lexorder" "HOL-Library.Char_ord"
    "HOL-Library.Multiset"
begin

text \<open>
  \<open>diagnostic.rs\<close>: diagnostics in their canonical order and fixes made of source edits, with
  the loop that applies the edits of a fix (\<open>adocweave-project/src/process.rs\<close>).
\<close>

section \<open>Diagnostics\<close>

datatype Severity = Error | Warning | Information | Hint

text \<open>The derived order of an enum is the order of its variants.\<close>

definition severity_rank :: "Severity \<Rightarrow> nat" where
  "severity_rank s = (case s of Error \<Rightarrow> 0 | Warning \<Rightarrow> 1 | Information \<Rightarrow> 2 | Hint \<Rightarrow> 3)"

instantiation Severity :: linorder
begin

definition less_eq_Severity :: "Severity \<Rightarrow> Severity \<Rightarrow> bool" where
  "less_eq_Severity a b \<longleftrightarrow> severity_rank a \<le> severity_rank b"

definition less_Severity :: "Severity \<Rightarrow> Severity \<Rightarrow> bool" where
  "less_Severity a b \<longleftrightarrow> severity_rank a < severity_rank b"

instance
  by standard
    (auto simp: less_eq_Severity_def less_Severity_def severity_rank_def split: Severity.splits)

end

definition severity_as_str :: "Severity \<Rightarrow> str" where
  "severity_as_str s = (case s of
      Error \<Rightarrow> ''error'' | Warning \<Rightarrow> ''warning'' | Information \<Rightarrow> ''information'' | Hint \<Rightarrow> ''hint'')"

datatype Applicability = Always | Maybe

definition applicability_as_str :: "Applicability \<Rightarrow> str" where
  "applicability_as_str a = (case a of Always \<Rightarrow> ''always'' | Maybe \<Rightarrow> ''maybe'')"

record RelatedInformation =
  related_range :: TextRange
  related_message :: str

record TextEdit =
  edit_range :: TextRange
  replacement :: str

record Fix =
  fix_title :: str
  fix_applicability :: Applicability
  fix_edits :: "TextEdit list"

record Diagnostic =
  diagnostic_id :: str
  diagnostic_code :: str
  severity :: Severity
  diagnostic_range :: TextRange
  diagnostic_message :: str
  diagnostic_related :: "RelatedInformation list"
  diagnostic_fixes :: "Fix list"

definition diagnostic_key :: "Diagnostic \<Rightarrow> nat \<times> nat \<times> str \<times> str \<times> Severity \<times> str" where
  "diagnostic_key d =
     (range_start (diagnostic_range d), range_end (diagnostic_range d), diagnostic_code d,
      diagnostic_id d, severity d, diagnostic_message d)"

text \<open>\<open>sort_by\<close> is a stable sort, as is \<open>sort_key\<close>.\<close>

definition sort_diagnostics :: "Diagnostic list \<Rightarrow> Diagnostic list" where
  "sort_diagnostics ds = sort_key diagnostic_key ds"

datatype CoreErrorCode = InvalidInput | ParseFailed | LimitExceeded | CoreCancelled | InternalInvariant

definition core_error_as_str :: "CoreErrorCode \<Rightarrow> str" where
  "core_error_as_str c = (case c of
      InvalidInput \<Rightarrow> ''invalid-input'' | ParseFailed \<Rightarrow> ''parse-failed''
    | LimitExceeded \<Rightarrow> ''limit-exceeded'' | CoreCancelled \<Rightarrow> ''cancelled''
    | InternalInvariant \<Rightarrow> ''internal-invariant'')"

section \<open>Fixes\<close>

datatype EditConflictKind = Duplicate | Overlap

record EditConflict =
  conflict_first :: TextRange
  conflict_second :: TextRange
  conflict_kind :: EditConflictKind

text \<open>The loop over \<open>windows(2)\<close>.\<close>

fun validate_edits :: "TextEdit list \<Rightarrow> EditConflict + unit" where
  "validate_edits (a # b # es) =
     (let first = edit_range a; second = edit_range b in
      if first = second then
        Inl \<lparr>conflict_first = first, conflict_second = second, conflict_kind = Duplicate\<rparr>
      else if range_start second < range_end first then
        Inl \<lparr>conflict_first = first, conflict_second = second, conflict_kind = Overlap\<rparr>
      else validate_edits (b # es))"
| "validate_edits _ = Inr ()"

definition edit_key :: "TextEdit \<Rightarrow> nat \<times> nat" where
  "edit_key e = (range_start (edit_range e), range_end (edit_range e))"

definition Fix_new :: "str \<Rightarrow> Applicability \<Rightarrow> TextEdit list \<Rightarrow> EditConflict + Fix" where
  "Fix_new title app es =
     (let es = sort_key edit_key es in
      and_then (validate_edits es) (\<lambda>_.
        Inr \<lparr>fix_title = title, fix_applicability = app, fix_edits = es\<rparr>))"

text \<open>\<open>String::replace_range\<close> panics out of range or inside a scalar value.\<close>

definition replace_range :: "str \<Rightarrow> TextRange \<Rightarrow> str \<Rightarrow> str option" where
  "replace_range s r w =
     (if range_start r \<le> range_end r \<and> range_end r \<le> length s
         \<and> char_boundary s (range_start r) \<and> char_boundary s (range_end r)
      then Some (take (range_start r) s @ w @ drop (range_end r) s) else None)"

text \<open>The loop over \<open>fix.edits().iter().rev()\<close>; it is called with the edits in reverse.\<close>

fun replace_edits :: "str \<Rightarrow> TextEdit list \<Rightarrow> str option" where
  "replace_edits s [] = Some s"
| "replace_edits s (e # es) =
     (case replace_range s (edit_range e) (replacement e) of
        None \<Rightarrow> None
      | Some s \<Rightarrow> replace_edits s es)"

definition apply_fix :: "str \<Rightarrow> Fix \<Rightarrow> str option" where
  "apply_fix s f = replace_edits s (rev (fix_edits f))"

section \<open>What an accepted fix does\<close>

text \<open>The reference: every edit takes the place of its range, all at once.\<close>

fun splice :: "str \<Rightarrow> nat \<Rightarrow> TextEdit list \<Rightarrow> str" where
  "splice s at [] = drop at s"
| "splice s at (e # es) =
     slice s at (range_start (edit_range e)) @ replacement e @ splice s (range_end (edit_range e)) es"

text \<open>Edits that follow one another from an offset on, and lie inside a text.\<close>

fun ordered_edits :: "nat \<Rightarrow> TextEdit list \<Rightarrow> bool" where
  "ordered_edits at [] = True"
| "ordered_edits at (e # es) \<longleftrightarrow>
     at \<le> range_start (edit_range e) \<and> range_start (edit_range e) \<le> range_end (edit_range e)
     \<and> ordered_edits (range_end (edit_range e)) es"

definition edit_inside :: "str \<Rightarrow> TextEdit \<Rightarrow> bool" where
  "edit_inside s e \<longleftrightarrow>
     range_start (edit_range e) \<le> range_end (edit_range e) \<and> range_end (edit_range e) \<le> length s
     \<and> char_boundary s (range_start (edit_range e)) \<and> char_boundary s (range_end (edit_range e))
     \<and> valid_utf8 (replacement e)"

lemma validate_edits_ordered:
  assumes "validate_edits es = Inr ()" and "\<forall>e \<in> set es. range_start (edit_range e) \<le> range_end (edit_range e)"
    and "es \<noteq> [] \<longrightarrow> at \<le> range_start (edit_range (hd es))"
  shows "ordered_edits at es"
  using assms
  by (induction es arbitrary: at rule: validate_edits.induct) (auto simp: Let_def split: if_splits)

lemma validate_edits_distinct:
  assumes "validate_edits es = Inr ()" and "\<forall>e \<in> set es. range_start (edit_range e) \<le> range_end (edit_range e)"
  shows "successively (\<lambda>a b. edit_range a \<noteq> edit_range b) es"
  using assms by (induction es rule: validate_edits.induct) (auto simp: Let_def split: if_splits)

lemma validate_edits_conflict:
  assumes "validate_edits es = Inl c"
  shows "\<exists>pre a b post. es = pre @ a # b # post
    \<and> conflict_first c = edit_range a \<and> conflict_second c = edit_range b
    \<and> (if conflict_kind c = Duplicate then edit_range a = edit_range b
       else range_start (edit_range b) < range_end (edit_range a))"
  using assms
proof (induction es rule: validate_edits.induct)
  case (1 a b es)
  show ?case
  proof (cases "edit_range a = edit_range b \<or> range_start (edit_range b) < range_end (edit_range a)")
    case True
    with 1(2) show ?thesis
      by (intro exI [of _ "[]"] exI [of _ a] exI [of _ b] exI [of _ es])
        (auto simp: Let_def split: if_splits)
  next
    case False
    with 1(2) have "validate_edits (b # es) = Inl c" by (simp add: Let_def)
    from "1.IH" [OF refl refl _ _ this] False obtain pre x y post where "b # es = pre @ x # y # post"
      "conflict_first c = edit_range x \<and> conflict_second c = edit_range y
       \<and> (if conflict_kind c = Duplicate then edit_range x = edit_range y
          else range_start (edit_range y) < range_end (edit_range x))"
      by blast
    then show ?thesis by (intro exI [of _ "a # pre"] exI [of _ x] exI [of _ y] exI [of _ post]) simp
  qed
qed auto

text \<open>A boundary of a text stays one when the text behind it is replaced.\<close>

lemma char_boundary_prefix:
  assumes "char_boundary s i" and "i \<le> k" and "k \<le> length s"
    and "t = [] \<or> \<not> is_continuation (hd t)" 
  shows "char_boundary (take k s @ t) i"
  using assms by (auto simp: char_boundary_def nth_append hd_conv_nth)

lemma boundary_head:
  assumes "valid_utf8 s" and "char_boundary s i"
  shows "drop i s = [] \<or> \<not> is_continuation (hd (drop i s))"
proof (cases "i = 0")
  case True
  with assms(1) show ?thesis by (cases s) (auto dest: valid_utf8_head)
next
  case False
  with assms(2) show ?thesis by (auto simp: char_boundary_def hd_drop_conv_nth)
qed

lemma splice_head:
  assumes "valid_utf8 s" and "char_boundary s at" and "ordered_edits at es"
    and "\<forall>e \<in> set es. edit_inside s e"
  shows "splice s at es = [] \<or> \<not> is_continuation (hd (splice s at es))"
  using assms(2-4)
proof (induction es arbitrary: at)
  case Nil
  with boundary_head [OF assms(1)] show ?case by simp
next
  case (Cons e es)
  let ?gap = "slice s at (range_start (edit_range e))"
  from Cons have e: "edit_inside s e" by simp
  have gap: "?gap = [] \<or> \<not> is_continuation (hd ?gap)"
    using boundary_head [OF assms(1) Cons.prems(1)] by (auto simp: slice_def hd_take)
  have new: "replacement e = [] \<or> \<not> is_continuation (hd (replacement e))"
    using e by (cases "replacement e") (auto simp: edit_inside_def dest: valid_utf8_head)
  have "splice s (range_end (edit_range e)) es = []
      \<or> \<not> is_continuation (hd (splice s (range_end (edit_range e)) es))"
    using e Cons.prems by (intro Cons.IH) (auto simp: edit_inside_def)
  with gap new show ?case by (auto simp: hd_append)
qed

lemma replace_edits_append:
  "replace_edits s (xs @ ys) = (case replace_edits s xs of None \<Rightarrow> None | Some t \<Rightarrow> replace_edits t ys)"
  by (induction xs arbitrary: s) (auto split: option.split)

lemma replace_edits_splice:
  assumes "valid_utf8 s" and "ordered_edits at es" and "\<forall>e \<in> set es. edit_inside s e"
    and "at \<le> length s"
  shows "replace_edits s (rev es) = Some (take at s @ splice s at es)"
  using assms(2-4)
proof (induction es arbitrary: at)
  case Nil
  then show ?case by simp
next
  case (Cons e es)
  let ?a = "range_start (edit_range e)" and ?b = "range_end (edit_range e)"
  let ?t = "splice s ?b es"
  from Cons.prems have e: "edit_inside s e" and ab: "at \<le> ?a" "?a \<le> ?b" "?b \<le> length s"
    and bounds: "char_boundary s ?a" "char_boundary s ?b"
    by (auto simp: edit_inside_def)
  have IH: "replace_edits s (rev es) = Some (take ?b s @ ?t)"
    using Cons.prems ab by (intro Cons.IH) auto
  have "?t = [] \<or> \<not> is_continuation (hd ?t)"
    using Cons.prems bounds by (intro splice_head [OF assms(1)]) auto
  then have "char_boundary (take ?b s @ ?t) ?a" "char_boundary (take ?b s @ ?t) ?b"
    using ab bounds by (auto intro: char_boundary_prefix)
  then have "replace_range (take ?b s @ ?t) (edit_range e) (replacement e)
      = Some (take ?a s @ replacement e @ ?t)"
    using ab by (simp add: replace_range_def min_def)
  moreover have "take ?a s = take at s @ slice s at ?a"
    using ab by (simp add: slice_def take_add [symmetric])
  ultimately show ?case using IH by (simp add: replace_edits_append)
qed

lemma sorted_edits_start:
  assumes "sorted (map edit_key es)" shows "sorted (map (\<lambda>e. range_start (edit_range e)) es)"
  using assms by (induction es) (auto simp: edit_key_def less_eq_prod_def)

lemma Fix_new_ordered:
  assumes "Fix_new title app es = Inr f"
    and "\<forall>e \<in> set es. range_start (edit_range e) \<le> range_end (edit_range e)"
  shows "mset (fix_edits f) = mset es" "set (fix_edits f) = set es" "ordered_edits 0 (fix_edits f)"
    "successively (\<lambda>a b. edit_range a \<noteq> edit_range b) (fix_edits f)"
  using assms
  by (auto simp: Fix_new_def Let_def result_simps intro!: validate_edits_ordered validate_edits_distinct)

section \<open>Properties\<close>

text \<open>C27. An accepted fix holds exactly the given edits, in order and disjoint; applying it to a
  text whose boundaries its edits respect never panics, though the loop edits the text in
  place from its end, and gives the text in which every edit has replaced its range of the
  original.\<close>

theorem fix_applies_at_once:
  assumes "Fix_new title app es = Inr f" and "valid_utf8 s" and "\<forall>e \<in> set es. edit_inside s e"
  shows "mset (fix_edits f) = mset es \<and> ordered_edits 0 (fix_edits f)
    \<and> apply_fix s f = Some (splice s 0 (fix_edits f))"
proof -
  from assms(3) have "\<forall>e \<in> set es. range_start (edit_range e) \<le> range_end (edit_range e)"
    by (simp add: edit_inside_def)
  note f = Fix_new_ordered [OF assms(1) this]
  with replace_edits_splice [OF assms(2) f(3)] assms(3) show ?thesis
    by (simp add: apply_fix_def)
qed

theorem fix_applies_at_once_witness:
  "apply_fix ''one two'' \<lparr>fix_title = ''t'', fix_applicability = Always, fix_edits =
      [\<lparr>edit_range = \<lparr>range_start = 0, range_end = 3\<rparr>, replacement = ''1''\<rparr>,
       \<lparr>edit_range = \<lparr>range_start = 4, range_end = 7\<rparr>, replacement = ''2''\<rparr>]\<rparr> = Some ''1 2''"
  using fix_applies_at_once [of "''t''" Always
      "[\<lparr>edit_range = \<lparr>range_start = 4, range_end = 7\<rparr>, replacement = ''2''\<rparr>,
        \<lparr>edit_range = \<lparr>range_start = 0, range_end = 3\<rparr>, replacement = ''1''\<rparr>]"
      "\<lparr>fix_title = ''t'', fix_applicability = Always, fix_edits =
      [\<lparr>edit_range = \<lparr>range_start = 0, range_end = 3\<rparr>, replacement = ''1''\<rparr>,
       \<lparr>edit_range = \<lparr>range_start = 4, range_end = 7\<rparr>, replacement = ''2''\<rparr>]\<rparr>" "''one two''", THEN conjunct2, THEN conjunct2]
  by code_simp

text \<open>A refused fix names two edits that are neighbours in the order and really conflict.\<close>

lemma fix_conflict_real:
  assumes "Fix_new title app es = Inl c"
  shows "\<exists>pre a b post. mset es = mset (pre @ a # b # post) \<and> conflict_first c = edit_range a
    \<and> conflict_second c = edit_range b
    \<and> (if conflict_kind c = Duplicate then edit_range a = edit_range b
       else range_start (edit_range b) < range_end (edit_range a))"
proof -
  from assms have "validate_edits (sort_key edit_key es) = Inl c"
    by (auto simp: Fix_new_def Let_def result_simps)
  from validate_edits_conflict [OF this] show ?thesis by (metis mset_sort)
qed

text \<open>The canonical order is a permutation, sorted by position first, and keeps the order of
  diagnostics that agree in every compared field.\<close>

lemma sort_diagnostics_canonical:
  "mset (sort_diagnostics ds) = mset ds"
  "sorted (map diagnostic_key (sort_diagnostics ds))"
  "filter (\<lambda>d. diagnostic_key d = k) (sort_diagnostics ds) = filter (\<lambda>d. diagnostic_key d = k) ds"
  by (simp_all add: sort_diagnostics_def sort_key_stable)

lemma sort_diagnostics_idem: "sort_diagnostics (sort_diagnostics ds) = sort_diagnostics ds"
  unfolding sort_diagnostics_def by (rule sort_key_id_if_sorted) simp

end
