(* ===== verification/Syntax_Tree.thy ===== *)
theory Syntax_Tree
  imports Source "HOL-Library.Product_Lexorder" "HOL-Library.Multiset"
    "HOL-Library.Code_Target_Numeral"
begin

text \<open>
  \<open>syntax.rs\<close>: the lossless concrete syntax tree. The parser hands over the blocks with their
  annotations; building the tree checks their layout, fills every gap with the tokens of the
  source and checks that the token leaves partition it.
\<close>

section \<open>Kinds and nodes\<close>

datatype SyntaxKind =
    Document | DocumentTitle | AuthorLine | RevisionLine | Heading | MalformedHeading | Paragraph
  | ThematicBreak | PageBreak | LiteralBlock | DelimitedBlock | CommentLine | BlankLine
  | UnsupportedNode | DocumentAttribute | BlockAnchor | ListNode | MathBlock
  | TokenNode LosslessTokenKind
  | HeadingMarker | BlockAttribute | BlockTitle | BlockDelimiter | ListItem | ListMarker
  | InlineSpan | HardBreak | InlineDelimiter | MacroNode | TargetNode | LabelNode | ErrorNode
  | UnknownNode

definition is_block :: "SyntaxKind \<Rightarrow> bool" where
  "is_block k \<longleftrightarrow>
     k \<in> {DocumentTitle, AuthorLine, RevisionLine, Heading, MalformedHeading, Paragraph,
       ThematicBreak, PageBreak, LiteralBlock, DelimitedBlock, CommentLine, BlankLine,
       UnsupportedNode, DocumentAttribute, BlockAnchor, BlockAttribute, BlockTitle, ListNode,
       MathBlock}"

definition protects_formatting :: "SyntaxKind \<Rightarrow> bool" where
  "protects_formatting k \<longleftrightarrow>
     k \<in> {DocumentTitle, Heading, MalformedHeading, LiteralBlock, DelimitedBlock, UnsupportedNode,
       DocumentAttribute, BlockAnchor, BlockAttribute, BlockTitle, ListNode, MathBlock, InlineSpan,
       MacroNode, ErrorNode, UnknownNode}"

datatype SyntaxIssueClass =
    HeadingMarkerSpace | InvalidHeadingLevel | UnclosedInline | NestingLimitExceeded
  | UnclosedBlock | MissingSourceLanguage | InvalidAttribute | InvalidUrl | InvalidCrossReference
  | InconsistentList | InvalidStem | MacroBoundaryIssue | UnprocessedDirective | MonospaceBoundary

record SyntaxFix =
  syntax_fix_label :: str
  syntax_fix_range :: TextRange
  syntax_fix_replacement :: str

datatype SyntaxIssueDetail = NoDetail | MacroBoundary str

record SyntaxIssue =
  issue_class :: SyntaxIssueClass
  issue_range :: TextRange
  issue_message :: str
  issue_detail :: SyntaxIssueDetail
  issue_fix :: "SyntaxFix option"

datatype SyntaxNode =
  SyntaxNode (node_kind: SyntaxKind) (node_range: TextRange) (node_children: "SyntaxNode list")

definition leaf :: "SyntaxKind \<Rightarrow> TextRange \<Rightarrow> SyntaxNode" where
  "leaf k r = SyntaxNode k r []"

definition is_token :: "SyntaxNode \<Rightarrow> bool" where
  "is_token n = (case node_kind n of TokenNode _ \<Rightarrow> True | _ \<Rightarrow> False)"

definition prepend_annotations ::
    "nat \<Rightarrow> SyntaxNode list \<Rightarrow> SyntaxNode \<Rightarrow> unit failure + SyntaxNode" where
  "prepend_annotations start annotations n =
     (case TextRange_new start (range_end (node_range n)) of
        Inl _ \<Rightarrow> Inl Panic
      | Inr r \<Rightarrow> Inr (SyntaxNode (node_kind n) r (annotations @ node_children n)))"

text \<open>The iterator over descendants pops its stack and pushes the children of what it popped.\<close>

function descend :: "SyntaxNode list \<Rightarrow> SyntaxNode list" where
  "descend [] = []"
| "descend (n # stack) = n # descend (node_children n @ stack)"
  by pat_completeness auto
termination
proof (relation "measure (size_list size)", goal_cases)
  case (2 n stack)
  then show ?case by (cases n) (auto simp: size_list_append)
qed simp

definition descendants :: "SyntaxNode \<Rightarrow> SyntaxNode list" where
  "descendants n = descend (node_children n)"

section \<open>Building the tree\<close>

record SyntaxTree =
  tree_source :: SourceDocument
  tree_root :: SyntaxNode
  tree_issues :: "SyntaxIssue list"

datatype SyntaxTreeBuildFailure = InvariantFailure | TreeCancelled

type_synonym 'a build = "SyntaxTreeBuildFailure failure + 'a"

text \<open>\<open>TextRange::new(...).expect(...)\<close>.\<close>

definition expect_range :: "nat \<Rightarrow> nat \<Rightarrow> 'e failure + TextRange" where
  "expect_range a b = (case TextRange_new a b of Inl _ \<Rightarrow> Inl Panic | Inr r \<Rightarrow> Inr r)"

fun append_token_loop ::
    "cancel_host \<Rightarrow> TextRange \<Rightarrow> LosslessToken list \<Rightarrow> SyntaxNode list \<Rightarrow> CancellationCheckpoint
     \<Rightarrow> (SyntaxNode list \<times> CancellationCheckpoint) build" where
  "append_token_loop host r [] out c = Inr (out, c)"
| "append_token_loop host r (t # ts) out c =
     (let (cancelled, c) = checkpoint_is_cancelled host c in
      if cancelled then Inl (Err TreeCancelled)
      else
        let start = max (range_start (token_range t)) (range_start r);
            end = min (range_end (token_range t)) (range_end r)
        in if start < end
           then and_then (expect_range start end) (\<lambda>tr.
                  append_token_loop host r ts (out @ [leaf (TokenNode (token_kind t)) tr]) c)
           else append_token_loop host r ts out c)"

definition append_tokens ::
    "cancel_host \<Rightarrow> SourceDocument \<Rightarrow> TextRange \<Rightarrow> SyntaxNode list \<Rightarrow> CancellationCheckpoint
     \<Rightarrow> (SyntaxNode list \<times> CancellationCheckpoint) build" where
  "append_tokens host source r out c =
     (if range_is_empty r then Inr (out, c)
      else
        let tokens = sd_tokens source;
            first = partition_point (\<lambda>t. range_end (token_range t) \<le> range_start r) tokens
        in append_token_loop host r
             (takeWhile (\<lambda>t. range_start (token_range t) < range_end r) (drop first tokens)) out c)"

definition annotation_key :: "SyntaxNode \<Rightarrow> nat \<times> nat" where
  "annotation_key n = (range_start (node_range n), range_end (node_range n))"

lemma size_list_mset:
  "size_list size xs = sum_mset (image_mset size (mset xs)) + size (mset xs)" for xs :: "'a::size list"
  by (induction xs) simp_all

lemma size_list_sort_key [simp]: "size_list size (sort_key k xs) = size_list size xs"
  for xs :: "'a::size list"
  by (simp add: size_list_mset)

lemma sort_by_cancellable_Inr:
  "sort_by_cancellable host key xs c = (Inr ys, c') \<Longrightarrow> ys = sort_key key xs"
  by (auto simp: sort_by_cancellable_def Let_def split: prod.splits if_splits)

function (sequential) materialize ::
    "cancel_host \<Rightarrow> SourceDocument \<Rightarrow> SyntaxNode \<Rightarrow> CancellationCheckpoint
     \<Rightarrow> (SyntaxNode \<times> CancellationCheckpoint) build" and
  materialize_annotations ::
    "cancel_host \<Rightarrow> SourceDocument \<Rightarrow> TextRange \<Rightarrow> SyntaxNode list \<Rightarrow> nat \<Rightarrow> SyntaxNode list
     \<Rightarrow> CancellationCheckpoint \<Rightarrow> (nat \<times> SyntaxNode list \<times> CancellationCheckpoint) build" where
  "materialize host source n c =
     (let (cancelled, c) = checkpoint_is_cancelled host c in
      if cancelled then Inl (Err TreeCancelled)
      else if sd_text source (node_range n) = None then Inl (Err InvariantFailure)
      else (case sort_by_cancellable host annotation_key (node_children n) c of
          (Inl _, c) \<Rightarrow> Inl (Err TreeCancelled)
        | (Inr annotations, c) \<Rightarrow>
            and_then (materialize_annotations host source (node_range n) annotations
                (range_start (node_range n)) [] c) (\<lambda>(cursor, children, c).
            and_then (expect_range cursor (range_end (node_range n))) (\<lambda>gap.
            and_then (append_tokens host source gap children c) (\<lambda>(children, c).
              Inr (SyntaxNode (node_kind n) (node_range n) children, c))))))"
| "materialize_annotations host source outer [] cursor children c = Inr (cursor, children, c)"
| "materialize_annotations host source outer (a # as) cursor children c =
     (let (cancelled, c) = checkpoint_is_cancelled host c in
      if cancelled then Inl (Err TreeCancelled)
      else if range_start (node_range a) < range_start outer
          \<or> range_end outer < range_end (node_range a) \<or> range_start (node_range a) < cursor
      then Inl (Err InvariantFailure)
      else
        and_then (expect_range cursor (range_start (node_range a))) (\<lambda>gap.
        and_then (append_tokens host source gap children c) (\<lambda>(children, c).
        and_then (materialize host source a c) (\<lambda>(a', c).
          materialize_annotations host source outer as (range_end (node_range a'))
            (children @ [a']) c))))"
  by pat_completeness auto
termination
proof (relation "measure (\<lambda>x. case x of Inl (_, _, n, _) \<Rightarrow> size n
    | Inr (_, _, _, as, _, _, _) \<Rightarrow> size_list size as)", goal_cases)
  case (2 host source n c x cancelled c' b ca annotations)
  then have "annotations = sort_key annotation_key (node_children n)"
    by (auto dest!: sort_by_cancellable_Inr [OF sym])
  then show ?case by (cases n) simp
qed auto

declare materialize.simps [simp del] materialize_annotations.simps(2) [simp del]

lemmas annotations_step = materialize_annotations.simps(2)

text \<open>The loop of \<open>from_blocks_cancellable\<close> over the blocks; it returns the end of the last.\<close>

fun place_blocks ::
    "cancel_host \<Rightarrow> SourceDocument \<Rightarrow> nat \<Rightarrow> SyntaxNode list \<Rightarrow> nat \<Rightarrow> CancellationCheckpoint
     \<Rightarrow> (nat \<times> SyntaxNode list \<times> CancellationCheckpoint) build" where
  "place_blocks host source end [] cursor c = Inr (cursor, [], c)"
| "place_blocks host source end (b # bs) cursor c =
     (let (cancelled, c) = checkpoint_is_cancelled host c in
      if cancelled then Inl (Err TreeCancelled)
      else if \<not> is_block (node_kind b) \<or> range_start (node_range b) \<noteq> cursor
          \<or> end < range_end (node_range b) \<or> sd_text source (node_range b) = None
      then Inl (Err InvariantFailure)
      else
        and_then (materialize host source b c) (\<lambda>(b', c).
        and_then (place_blocks host source end bs (range_end (node_range b)) c)
          (\<lambda>(cursor, bs', c). Inr (cursor, b' # bs', c))))"

fun partition_loop ::
    "cancel_host \<Rightarrow> SyntaxNode list \<Rightarrow> nat \<Rightarrow> CancellationCheckpoint
     \<Rightarrow> (nat option \<times> CancellationCheckpoint) build" where
  "partition_loop host [] cursor c = Inr (Some cursor, c)"
| "partition_loop host (n # ns) cursor c =
     (let (cancelled, c) = checkpoint_is_cancelled host c in
      if cancelled then Inl (Err TreeCancelled)
      else if \<not> is_token n then partition_loop host ns cursor c
      else if range_start (node_range n) \<noteq> cursor
          \<or> range_end (node_range n) \<le> range_start (node_range n)
      then Inr (None, c)
      else partition_loop host ns (range_end (node_range n)) c)"

definition token_leaves_partition_source ::
    "cancel_host \<Rightarrow> SyntaxNode \<Rightarrow> nat \<Rightarrow> CancellationCheckpoint \<Rightarrow> (bool \<times> CancellationCheckpoint) build" where
  "token_leaves_partition_source host root end c =
     and_then (partition_loop host (descendants root) 0 c) (\<lambda>(cursor, c). Inr (cursor = Some end, c))"

definition from_blocks_cancellable ::
    "cancel_host \<Rightarrow> SourceDocument \<Rightarrow> SyntaxNode list \<Rightarrow> SyntaxIssue list \<Rightarrow> CancellationCheckpoint
     \<Rightarrow> (SyntaxTree \<times> CancellationCheckpoint) build" where
  "from_blocks_cancellable host source blocks issues c =
     (case TextSize_new (length (sd_source source)) of
        Inl _ \<Rightarrow> Inl Panic
      | Inr end \<Rightarrow>
          and_then (place_blocks host source end blocks 0 c) (\<lambda>(cursor, blocks, c).
          if cursor \<noteq> end then Inl (Err InvariantFailure)
          else
            and_then (expect_range 0 end) (\<lambda>r.
            let tree = \<lparr>tree_source = source, tree_root = SyntaxNode Document r blocks,
                        tree_issues = issues\<rparr> in
            and_then (token_leaves_partition_source host (tree_root tree) end c) (\<lambda>(ok, c).
            if ok then Inr (tree, c) else Inl (Err InvariantFailure)))))"

section \<open>Queries\<close>

definition tree_nodes :: "SyntaxKind \<Rightarrow> SyntaxTree \<Rightarrow> SyntaxNode list" where
  "tree_nodes k t = filter (\<lambda>n. node_kind n = k) (descendants (tree_root t))"

fun collect_protected_ranges :: "SyntaxNode \<Rightarrow> bool \<Rightarrow> TextRange list" where
  "collect_protected_ranges (SyntaxNode k r cs) parent_protected =
     (let protected = protects_formatting k in
      if protected \<and> \<not> parent_protected then [r]
      else concat (map (\<lambda>child. collect_protected_ranges child (parent_protected \<or> protected)) cs))"

definition formatting_protected_ranges :: "SyntaxTree \<Rightarrow> TextRange list" where
  "formatting_protected_ranges t = collect_protected_ranges (tree_root t) False"

definition tree_reconstruct :: "SyntaxTree \<Rightarrow> unit failure + str" where
  "tree_reconstruct t =
     expect (concat_options
       (map (\<lambda>n. sd_text (tree_source t) (node_range n)) (filter is_token (descendants (tree_root t)))))"

section \<open>Shape of a built tree\<close>

lemma descend_append: "descend (xs @ ys) = descend xs @ descend ys"
  by (induction xs rule: descend.induct) simp_all

lemma descend_node: "descend (n # ns) = n # descendants n @ descend ns"
  by (simp add: descendants_def descend_append)

text \<open>The token leaves below some nodes, as tokens.\<close>

definition to_token :: "SyntaxNode \<Rightarrow> LosslessToken" where
  "to_token n =
     \<lparr>token_kind = (case node_kind n of TokenNode k \<Rightarrow> k | _ \<Rightarrow> Text), token_range = node_range n\<rparr>"

definition leaf_tokens :: "SyntaxNode list \<Rightarrow> LosslessToken list" where
  "leaf_tokens ns = map to_token (filter is_token (descend ns))"

lemma leaf_tokens_Nil [simp]: "leaf_tokens [] = []"
  by (simp add: leaf_tokens_def)

lemma leaf_tokens_append [simp]: "leaf_tokens (xs @ ys) = leaf_tokens xs @ leaf_tokens ys"
  by (simp add: leaf_tokens_def descend_append)

lemma leaf_tokens_Cons:
  "leaf_tokens (n # ns) =
     (if is_token n then [to_token n] else []) @ leaf_tokens (node_children n) @ leaf_tokens ns"
  by (simp add: leaf_tokens_def descend_append)

text \<open>Nodes that follow one another without a gap.\<close>

fun covers :: "nat \<Rightarrow> SyntaxNode list \<Rightarrow> nat \<Rightarrow> bool" where
  "covers a [] b \<longleftrightarrow> a = b"
| "covers a (n # ns) b \<longleftrightarrow> range_start (node_range n) = a \<and> covers (range_end (node_range n)) ns b"

lemma covers_append: "covers a (xs @ ys) b \<longleftrightarrow> (\<exists>m. covers a xs m \<and> covers m ys b)"
  by (induction xs arbitrary: a) auto

text \<open>
  A finished node of a text: a token leaf, or a node whose children cover its range exactly.
\<close>

fun finished :: "str \<Rightarrow> SyntaxNode \<Rightarrow> bool" where
  "finished s (SyntaxNode k r cs) \<longleftrightarrow>
     cut_at s 0 (range_start r) \<and> cut_at s 0 (range_end r) \<and> range_start r \<le> range_end r
     \<and> (cs = [] \<and> (\<exists>t. k = TokenNode t)
        \<or> covers (range_start r) cs (range_end r) \<and> (\<forall>n \<in> set cs. finished s n))"

lemma finished_start: "finished s n \<Longrightarrow> cut_at s 0 (range_start (node_range n))"
  by (cases n) simp

lemma finished_descend:
  "m \<in> set (descend ns) \<Longrightarrow> \<forall>n \<in> set ns. finished s n \<Longrightarrow> finished s m"
proof (induction ns rule: descend.induct)
  case (2 n stack)
  have "\<forall>k \<in> set (node_children n). finished s k"
    using 2(3) by (cases n) (auto split: if_splits)
  with 2 show ?case by auto
qed simp

section \<open>Tokens of a gap\<close>

definition token_leaf :: "LosslessToken \<Rightarrow> SyntaxNode" where
  "token_leaf t = leaf (TokenNode (token_kind t)) (token_range t)"

lemma token_leaf_simps [simp]:
  "node_kind (token_leaf t) = TokenNode (token_kind t)" "node_range (token_leaf t) = token_range t"
  "node_children (token_leaf t) = []" "is_token (token_leaf t)" "to_token (token_leaf t) = t"
  by (simp_all add: token_leaf_def leaf_def is_token_def to_token_def)

lemma leaf_tokens_leaves [simp]: "leaf_tokens (map token_leaf ts) = ts"
  by (induction ts) (simp_all add: leaf_tokens_Cons)

lemma is_cancelled_host: "checkpoint_is_cancelled host c = (True, c') \<Longrightarrow> \<exists>q. host q"
  using checkpoint.never_spurious [of host c] by (metis fst_conv)

lemma append_token_loop_result:
  "case append_token_loop host r ts out c of
      Inl e \<Rightarrow> e = Err TreeCancelled \<and> (\<exists>q. host q)
    | Inr (out', c') \<Rightarrow>
        out' = out @ map token_leaf (List.map_filter (clip_token (range_start r) (range_end r)) ts)"
proof (induction host r ts out c rule: append_token_loop.induct)
  case (2 host r t ts out c)
  obtain cancelled c1 where c: "checkpoint_is_cancelled host c = (cancelled, c1)" by force
  show ?case
  proof (cases cancelled)
    case True
    with c show ?thesis by (auto dest: is_cancelled_host)
  next
    case False
    let ?start = "max (range_start (token_range t)) (range_start r)"
    let ?stop = "min (range_end (token_range t)) (range_end r)"
    let ?tr = "\<lparr>range_start = ?start, range_end = ?stop\<rparr>"
    show ?thesis
    proof (cases "?start < ?stop")
      case True
      have "expect_range ?start ?stop = (Inr ?tr :: SyntaxTreeBuildFailure failure + TextRange)"
        using True by (simp add: expect_range_def TextRange_new_def)
      moreover have "clip_token (range_start r) (range_end r) t
          = Some \<lparr>token_kind = token_kind t, token_range = ?tr\<rparr>"
        using True by (simp add: clip_token_def Let_def)
      moreover have "leaf (TokenNode (token_kind t)) ?tr
          = token_leaf \<lparr>token_kind = token_kind t, token_range = ?tr\<rparr>"
        by (simp add: token_leaf_def)
      ultimately show ?thesis
        using True False c "2.IH"(1) [OF c [symmetric] refl False refl refl True, of ?tr]
        by (auto simp: map_filter_simps split: sum.splits)
    next
      case past: False
      then have "clip_token (range_start r) (range_end r) t = None"
        by (simp add: clip_token_def Let_def)
      with past False c "2.IH"(2) [OF c [symmetric] refl False refl refl past] show ?thesis
        by (auto simp: map_filter_simps split: sum.splits)
    qed
  qed
qed (simp add: map_filter_simps)

text \<open>The tokens in the window are those that meet the range: the index is partitioned.\<close>

lemma clip_takeWhile:
  "tiles P a T b \<Longrightarrow>
   List.map_filter (clip_token st en) (takeWhile (\<lambda>t. range_start (token_range t) < en) T)
   = List.map_filter (clip_token st en) T"
proof (induction T arbitrary: a)
  case (Cons t T)
  show ?case
  proof (cases "range_start (token_range t) < en")
    case True
    with Cons show ?thesis by (auto simp: map_filter_simps split: option.split)
  next
    case False
    with Cons.prems tiles_clip_past [OF Cons.prems] show ?thesis by (simp add: map_filter_simps)
  qed
qed simp

lemma clip_window:
  "tiles P a T b \<Longrightarrow>
   List.map_filter (clip_token st en)
     (takeWhile (\<lambda>t. range_start (token_range t) < en)
       (drop (partition_point (\<lambda>t. range_end (token_range t) \<le> st) T) T))
   = List.map_filter (clip_token st en) T"
  unfolding partition_point_split(2) [symmetric]
proof (induction T arbitrary: a)
  case (Cons t T)
  show ?case
  proof (cases "range_end (token_range t) \<le> st")
    case True
    then have "clip_token st en t = None" by (auto simp: clip_token_def Let_def)
    with True Cons show ?thesis by (auto simp: map_filter_simps)
  next
    case False
    with clip_takeWhile [OF Cons.prems] show ?thesis by simp
  qed
qed simp

lemma tokens_partitioned:
  "tiles P a T b \<Longrightarrow> partitioned (\<lambda>t. range_end (token_range t) \<le> x) T"
proof (induction T arbitrary: a)
  case (Cons t T)
  have later: "t' \<in> set T \<Longrightarrow> range_end (token_range t) \<le> range_end (token_range t')" for t'
    using Cons.prems
  proof -
    assume "t' \<in> set T"
    then obtain xs ys where "T = xs @ t' # ys" by (meson split_list)
    with Cons.prems show ?thesis by (auto simp: tiles_append dest!: tiles_le)
  qed
  show ?case
    unfolding partitioned_def
  proof (intro allI impI)
    fix i j assume ij: "i < j" "j < length (t # T)" "range_end (token_range ((t # T) ! j)) \<le> x"
    show "range_end (token_range ((t # T) ! i)) \<le> x"
    proof (cases i)
      case 0
      with ij later [of "(t # T) ! j"] show ?thesis by (cases j) auto
    next
      case (Suc k)
      with ij Cons show ?thesis unfolding partitioned_def by (cases j) auto
    qed
  qed
qed (simp add: partitioned_def)

lemma covers_leaves: "tiles P a ts b \<Longrightarrow> covers a (map token_leaf ts) b"
  by (induction ts arbitrary: a) auto

lemma tiles_finished:
  "tiles (cut_at s 0) a ts b \<Longrightarrow> cut_at s 0 b \<Longrightarrow> n \<in> set (map token_leaf ts) \<Longrightarrow> finished s n"
proof (induction ts arbitrary: a)
  case (Cons t ts)
  then have "cut_at s 0 (range_end (token_range t))" by (cases ts) auto
  with Cons show ?case by (auto simp: token_leaf_def leaf_def)
qed simp

lemma append_tokens_result:
  assumes "well_indexed s 0 d" and "a \<le> b" and "cut_at s 0 a" and "cut_at s 0 b"
  shows "case append_tokens host d \<lparr>range_start = a, range_end = b\<rparr> out c of
      Inl e \<Rightarrow> e = Err TreeCancelled \<and> (\<exists>q. host q)
    | Inr (out', c') \<Rightarrow> \<exists>new. out' = out @ new \<and> covers a new b
        \<and> (\<forall>n \<in> set new. finished s n) \<and> tiles (cut_at s 0) a (leaf_tokens new) b"
proof (cases "a = b")
  case True
  then show ?thesis by (simp add: append_tokens_def range_is_empty_def)
next
  case False
  let ?r = "\<lparr>range_start = a, range_end = b\<rparr>"
  let ?T = "List.map_filter (clip_token a b) (sd_tokens d)"
  have d: "tiles (cut_at s 0) 0 (sd_tokens d) (length s)" and b: "b \<le> length s"
    using assms char_boundary_le by (auto simp: well_indexed_def cut_at_def)
  have "tiles (cut_at s 0) (max 0 a) ?T (min (length s) b)"
    using assms False b d by (intro tiles_clip) auto
  with b have T: "tiles (cut_at s 0) a ?T b" by (simp add: min_absorb2)
  let ?window = "takeWhile (\<lambda>t. range_start (token_range t) < b)
      (drop (partition_point (\<lambda>t. range_end (token_range t) \<le> a) (sd_tokens d)) (sd_tokens d))"
  have "append_tokens host d ?r out c = append_token_loop host ?r ?window out c"
    using False by (simp add: append_tokens_def range_is_empty_def Let_def)
  moreover have "List.map_filter (clip_token a b) ?window = ?T"
    by (rule clip_window [OF d])
  ultimately show ?thesis
    using append_token_loop_result [where host = host and r = ?r and ts = ?window and out = out and c = c] covers_leaves [OF T]
      tiles_finished [OF T assms(4)] T
    by (auto split: sum.splits)
qed

section \<open>Materialization\<close>

text \<open>
  The layout that the builder accepts: annotations in the order of their ranges lie inside
  their node without overlap, and every range is a range of the text.
\<close>

fun spaced :: "nat \<Rightarrow> SyntaxNode list \<Rightarrow> nat \<Rightarrow> bool" where
  "spaced a [] b = True"
| "spaced a (n # ns) b \<longleftrightarrow>
     a \<le> range_start (node_range n) \<and> range_end (node_range n) \<le> b
     \<and> spaced (range_end (node_range n)) ns b"

fun nested :: "SourceDocument \<Rightarrow> SyntaxNode \<Rightarrow> bool" where
  "nested d (SyntaxNode k r cs) \<longleftrightarrow>
     sd_text d r \<noteq> None \<and> spaced (range_start r) (sort_key annotation_key cs) (range_end r)
     \<and> (\<forall>n \<in> set cs. nested d n)"

text \<open>Annotations as the parser makes them: it never hands over tokens.\<close>

fun tokenless :: "SyntaxNode \<Rightarrow> bool" where
  "tokenless (SyntaxNode k r cs) \<longleftrightarrow> (\<forall>t. k \<noteq> TokenNode t) \<and> (\<forall>n \<in> set cs. tokenless n)"

definition build_error :: "cancel_host \<Rightarrow> bool \<Rightarrow> SyntaxTreeBuildFailure failure \<Rightarrow> bool" where
  "build_error host ok e \<longleftrightarrow>
     e = Err TreeCancelled \<and> (\<exists>q. host q) \<or> e = Err InvariantFailure \<and> \<not> ok"

definition node_result ::
    "cancel_host \<Rightarrow> SourceDocument \<Rightarrow> str \<Rightarrow> SyntaxNode
     \<Rightarrow> (SyntaxNode \<times> CancellationCheckpoint) build \<Rightarrow> bool" where
  "node_result host d s n res \<longleftrightarrow> (case res of
      Inl e \<Rightarrow> build_error host (nested d n) e
    | Inr (n', c') \<Rightarrow>
        nested d n \<and> node_kind n' = node_kind n \<and> node_range n' = node_range n \<and> finished s n'
        \<and> (tokenless n \<longrightarrow>
            tiles (cut_at s 0) (range_start (node_range n)) (leaf_tokens [n'])
              (range_end (node_range n))))"

lemma sd_text_cut:
  assumes "well_indexed s 0 d" and "sd_text d r \<noteq> None"
  shows "range_start r \<le> range_end r" "range_end r \<le> length s" "cut_at s 0 (range_start r)"
    "cut_at s 0 (range_end r)"
  using assms by (auto simp: well_indexed_def sd_text_def str_get_def cut_at_def split: if_splits)

lemma nested_text: "nested d n \<Longrightarrow> sd_text d (node_range n) \<noteq> None"
  by (cases n) auto

lemma append_tokens_error:
  "append_tokens host d r out c = Inl e \<Longrightarrow> e = Err TreeCancelled \<and> (\<exists>q. host q)"
  unfolding append_tokens_def Let_def
  using append_token_loop_result [where host = host and r = r and out = out and c = c]
  by (fastforce split: if_splits sum.splits)

lemma materialize_annotations_result:
  assumes "well_indexed s 0 d" and "\<forall>a \<in> set as. \<forall>c. node_result host d s a (materialize host d a c)"
    and "range_start outer \<le> cursor" and "cursor \<le> range_end outer" and "cut_at s 0 cursor"
  shows "case materialize_annotations host d outer as cursor children c of
      Inl e \<Rightarrow> build_error host (spaced cursor as (range_end outer) \<and> (\<forall>a \<in> set as. nested d a)) e
    | Inr (cursor', children', c') \<Rightarrow>
        spaced cursor as (range_end outer) \<and> (\<forall>a \<in> set as. nested d a)
        \<and> cursor' \<le> range_end outer \<and> cut_at s 0 cursor'
        \<and> (\<exists>new. children' = children @ new \<and> covers cursor new cursor'
            \<and> (\<forall>n \<in> set new. finished s n)
            \<and> ((\<forall>a \<in> set as. tokenless a) \<longrightarrow> tiles (cut_at s 0) cursor (leaf_tokens new) cursor'))"
  using assms(2-)
proof (induction as arbitrary: cursor children c)
  case Nil
  then show ?case by simp
next
  case (Cons a as)
  obtain cancelled c1 where c: "checkpoint_is_cancelled host c = (cancelled, c1)" by force
  let ?bad = "range_start (node_range a) < range_start outer
      \<or> range_end outer < range_end (node_range a) \<or> range_start (node_range a) < cursor"
  let ?gap = "\<lparr>range_start = cursor, range_end = range_start (node_range a)\<rparr>"
  consider "cancelled" | "\<not> cancelled" "?bad" | "\<not> cancelled" "\<not> ?bad" by blast
  then show ?case
  proof cases
    case 1
    with c show ?thesis by (auto simp: annotations_step build_error_def dest: is_cancelled_host)
  next
    case 2
    with c Cons.prems(2) show ?thesis by (auto simp: annotations_step build_error_def)
  next
    case 3
    then have gap: "expect_range cursor (range_start (node_range a)) = (Inr ?gap :: SyntaxTreeBuildFailure failure + _)"
      by (simp add: expect_range_def TextRange_new_def)
    show ?thesis
    proof (cases "append_tokens host d ?gap children c1")
      case (Inl e)
      with append_tokens_error [OF this] 3 c gap show ?thesis
        by (auto simp: annotations_step build_error_def)
    next
      case (Inr out)
      obtain ch c2 where out: "out = (ch, c2)" by force
      have node: "node_result host d s a (materialize host d a c2)" using Cons.prems(1) by simp
      show ?thesis
      proof (cases "materialize host d a c2")
        case (Inl e)
        with node 3 c gap Inr out show ?thesis
          by (auto simp: annotations_step node_result_def build_error_def)
      next
        case built: (Inr built)
        obtain a' c3 where b: "built = (a', c3)" by force
        from node built b have a': "nested d a" "node_kind a' = node_kind a"
          "node_range a' = node_range a" "finished s a'"
          "tokenless a \<longrightarrow> tiles (cut_at s 0) (range_start (node_range a)) (leaf_tokens [a'])
             (range_end (node_range a))"
          by (auto simp: node_result_def)
        note cut = sd_text_cut [OF assms(1) nested_text [OF a'(1)]]
        from append_tokens_result [OF assms(1) _ Cons.prems(4) cut(3), of host children c1] 3 Inr out
        obtain new where new: "ch = children @ new" "covers cursor new (range_start (node_range a))"
          "\<forall>n \<in> set new. finished s n"
          "tiles (cut_at s 0) cursor (leaf_tokens new) (range_start (node_range a))"
          by auto
        have run: "materialize_annotations host d outer (a # as) cursor children c
            = materialize_annotations host d outer as (range_end (node_range a)) (ch @ [a']) c3"
          using c 3 gap Inr out built b a'(3) by (simp add: annotations_step)
        have IH: "case materialize_annotations host d outer as (range_end (node_range a)) (ch @ [a']) c3 of
            Inl e \<Rightarrow> build_error host
              (spaced (range_end (node_range a)) as (range_end outer) \<and> (\<forall>a \<in> set as. nested d a)) e
          | Inr (cursor', children', c') \<Rightarrow>
              spaced (range_end (node_range a)) as (range_end outer) \<and> (\<forall>a \<in> set as. nested d a)
              \<and> cursor' \<le> range_end outer \<and> cut_at s 0 cursor'
              \<and> (\<exists>new. children' = (ch @ [a']) @ new \<and> covers (range_end (node_range a)) new cursor'
                  \<and> (\<forall>n \<in> set new. finished s n)
                  \<and> ((\<forall>a \<in> set as. tokenless a) \<longrightarrow>
                      tiles (cut_at s 0) (range_end (node_range a)) (leaf_tokens new) cursor'))"
          using Cons.prems 3 cut by (intro Cons.IH) auto
        show ?thesis
        proof (cases "materialize_annotations host d outer as (range_end (node_range a)) (ch @ [a']) c3")
          case (Inl e)
          with IH run a'(1) 3 show ?thesis by (auto simp: build_error_def)
        next
          case (Inr r)
          obtain cursor' children' c' where r: "r = (cursor', children', c')" by (cases r) auto
          from IH Inr r obtain rest where rest: "children' = (ch @ [a']) @ rest"
            "covers (range_end (node_range a)) rest cursor'" "\<forall>n \<in> set rest. finished s n"
            "(\<forall>a \<in> set as. tokenless a) \<longrightarrow>
               tiles (cut_at s 0) (range_end (node_range a)) (leaf_tokens rest) cursor'"
            by auto
          have "covers cursor (new @ a' # rest) cursor'"
            using new(2) rest(2) a'(3) by (auto simp: covers_append)
          moreover have "tiles (cut_at s 0) cursor (leaf_tokens (new @ a' # rest)) cursor'"
            if "\<forall>x \<in> set (a # as). tokenless x"
            using that new(4) a'(5) rest(4) leaf_tokens_append [of "[a']" rest]
            by (auto intro!: tiles_appendI)
          moreover have "\<forall>n \<in> set (new @ a' # rest). finished s n"
            using new(3) rest(3) a'(4) by auto
          moreover have "children' = children @ (new @ a' # rest)"
            using rest(1) new(1) by simp
          ultimately show ?thesis
            using IH Inr r run a'(1) 3 by auto
        qed
      qed
    qed
  qed
qed

lemma leaf_tokens_tokenless:
  "\<forall>t. node_kind n \<noteq> TokenNode t \<Longrightarrow> leaf_tokens [n] = leaf_tokens (node_children n)"
  by (auto simp: leaf_tokens_Cons is_token_def split: SyntaxKind.splits)

lemma materialize_result:
  assumes "well_indexed s 0 d"
  shows "node_result host d s n (materialize host d n c)"
proof (induction n arbitrary: c)
  case (SyntaxNode k r cs)
  let ?n = "SyntaxNode k r cs"
  let ?as = "sort_key annotation_key cs"
  obtain cancelled c1 where c: "checkpoint_is_cancelled host c = (cancelled, c1)" by force
  obtain cancelled' c2 where c': "checkpoint_is_cancelled host c1 = (cancelled', c2)" by force
  consider "cancelled" | "\<not> cancelled" "sd_text d r = None" | "\<not> cancelled" "sd_text d r \<noteq> None" "cancelled'"
    | "\<not> cancelled" "sd_text d r \<noteq> None" "\<not> cancelled'"
    by blast
  then show ?case
  proof cases
    case 1
    with c show ?thesis
      by (auto simp: materialize.simps node_result_def build_error_def dest: is_cancelled_host)
  next
    case 2
    with c show ?thesis by (auto simp: materialize.simps node_result_def build_error_def)
  next
    case 3
    with c c' show ?thesis
      by (auto simp: materialize.simps node_result_def build_error_def sort_by_cancellable_def
          dest: is_cancelled_host)
  next
    case 4
    note cut = sd_text_cut [OF assms 4(2)]
    let ?loop = "materialize_annotations host d r ?as (range_start r) [] c2"
    have run: "materialize host d ?n c =
        and_then ?loop (\<lambda>(cursor, children, c).
        and_then (expect_range cursor (range_end r)) (\<lambda>gap.
        and_then (append_tokens host d gap children c) (\<lambda>(children, c).
          Inr (SyntaxNode k r children, c))))"
      using 4 c c' by (auto simp: materialize.simps sort_by_cancellable_def)
    have nested: "nested d ?n \<longleftrightarrow> spaced (range_start r) ?as (range_end r) \<and> (\<forall>a \<in> set ?as. nested d a)"
      using 4 by auto
    have loop: "case ?loop of
        Inl e \<Rightarrow> build_error host (nested d ?n) e
      | Inr (cursor', children', c') \<Rightarrow> nested d ?n \<and> cursor' \<le> range_end r \<and> cut_at s 0 cursor'
          \<and> (\<exists>new. children' = [] @ new \<and> covers (range_start r) new cursor'
              \<and> (\<forall>n \<in> set new. finished s n)
              \<and> ((\<forall>a \<in> set ?as. tokenless a) \<longrightarrow>
                  tiles (cut_at s 0) (range_start r) (leaf_tokens new) cursor'))"
      using materialize_annotations_result [OF assms, where as = ?as and outer = r and cursor = "range_start r"
          and children = "[]" and c = c2 and host = host] SyntaxNode.IH cut
      unfolding nested by (simp split: sum.splits prod.splits)
    show ?thesis
    proof (cases ?loop)
      case (Inl e)
      with loop run show ?thesis by (auto simp: node_result_def)
    next
      case (Inr res)
      obtain cursor new c3 where res: "res = (cursor, new, c3)" by (cases res) auto
      from loop Inr res have new: "nested d ?n" "cursor \<le> range_end r" "cut_at s 0 cursor"
        "covers (range_start r) new cursor" "\<forall>n \<in> set new. finished s n"
        "(\<forall>a \<in> set cs. tokenless a) \<longrightarrow> tiles (cut_at s 0) (range_start r) (leaf_tokens new) cursor"
        by auto
      let ?gap = "\<lparr>range_start = cursor, range_end = range_end r\<rparr>"
      have gap: "expect_range cursor (range_end r) = (Inr ?gap :: SyntaxTreeBuildFailure failure + _)"
        using new(2) by (simp add: expect_range_def TextRange_new_def)
      from append_tokens_result [OF assms new(2,3) cut(4), of host new c3]
      show ?thesis
      proof (cases "append_tokens host d ?gap new c3")
        case fail: (Inl e)
        with append_tokens_error [OF fail] Inr res run gap show ?thesis
          by (auto simp: node_result_def build_error_def)
      next
        case out: (Inr out)
        obtain ch c4 where ch: "out = (ch, c4)" by force
        from append_tokens_result [OF assms new(2,3) cut(4), of host new c3] out ch
        obtain last where last: "ch = new @ last" "covers cursor last (range_end r)"
          "\<forall>n \<in> set last. finished s n" "tiles (cut_at s 0) cursor (leaf_tokens last) (range_end r)"
          by auto
        have "covers (range_start r) ch (range_end r)"
          using new(4) last(1,2) by (auto simp: covers_append)
        moreover have "tiles (cut_at s 0) (range_start r) (leaf_tokens [SyntaxNode k r ch]) (range_end r)"
          if "tokenless ?n"
        proof -
          have "leaf_tokens [SyntaxNode k r ch] = leaf_tokens ch"
            using that leaf_tokens_tokenless [of "SyntaxNode k r ch"] by simp
          with that new(6) last(1,4) show ?thesis by (auto intro: tiles_appendI)
        qed
        ultimately show ?thesis
          using run Inr res gap out ch new(1,5) last(1,3) cut by (auto simp: node_result_def)
      qed
    qed
  qed
qed

section \<open>Blocks\<close>

fun blocks_ok :: "SourceDocument \<Rightarrow> nat \<Rightarrow> SyntaxNode list \<Rightarrow> nat \<Rightarrow> bool" where
  "blocks_ok d a [] b \<longleftrightarrow> a = b"
| "blocks_ok d a (n # ns) b \<longleftrightarrow>
     is_block (node_kind n) \<and> range_start (node_range n) = a \<and> nested d n
     \<and> blocks_ok d (range_end (node_range n)) ns b"

lemma place_blocks_result:
  assumes "well_indexed s 0 d" and "cut_at s 0 cursor"
  shows "case place_blocks host d (length s) bs cursor c of
      Inl e \<Rightarrow> build_error host (\<exists>b. blocks_ok d cursor bs b) e
    | Inr (cursor', bs', c') \<Rightarrow>
        blocks_ok d cursor bs cursor' \<and> cut_at s 0 cursor' \<and> covers cursor bs' cursor'
        \<and> (\<forall>n \<in> set bs'. finished s n)
        \<and> ((\<forall>b \<in> set bs. tokenless b) \<longrightarrow> tiles (cut_at s 0) cursor (leaf_tokens bs') cursor')"
  using assms(2)
proof (induction bs arbitrary: cursor c)
  case Nil
  then show ?case by simp
next
  case (Cons b bs)
  obtain cancelled c1 where c: "checkpoint_is_cancelled host c = (cancelled, c1)" by force
  let ?bad = "\<not> is_block (node_kind b) \<or> range_start (node_range b) \<noteq> cursor
      \<or> length s < range_end (node_range b) \<or> sd_text d (node_range b) = None"
  consider "cancelled" | "\<not> cancelled" "?bad" | "\<not> cancelled" "\<not> ?bad" by blast
  then show ?case
  proof cases
    case 1
    with c show ?thesis by (auto simp: build_error_def dest: is_cancelled_host)
  next
    case 2
    then have "\<not> blocks_ok d cursor (b # bs) m" for m
      using nested_text [of d b] sd_text_cut(2) [OF assms(1), of "node_range b"] by auto
    with 2 c show ?thesis by (auto simp: build_error_def)
  next
    case 3
    have node: "node_result host d s b (materialize host d b c1)"
      by (rule materialize_result [OF assms(1)])
    show ?thesis
    proof (cases "materialize host d b c1")
      case (Inl e)
      with node 3 c show ?thesis by (auto simp: node_result_def build_error_def)
    next
      case (Inr built)
      obtain b' c2 where b: "built = (b', c2)" by force
      from node Inr b have b': "nested d b" "node_range b' = node_range b" "finished s b'"
        "tokenless b \<longrightarrow> tiles (cut_at s 0) (range_start (node_range b)) (leaf_tokens [b'])
           (range_end (node_range b))"
        by (auto simp: node_result_def)
      note cut = sd_text_cut [OF assms(1) nested_text [OF b'(1)]]
      note IH = Cons.IH [OF cut(4), of c2]
      show ?thesis
      proof (cases "place_blocks host d (length s) bs (range_end (node_range b)) c2")
        case fail: (Inl e)
        with IH 3 c Inr b b'(1) show ?thesis by (auto simp: build_error_def)
      next
        case rest: (Inr r)
        obtain cursor' bs' c' where r: "r = (cursor', bs', c')" by (cases r) auto
        have "tiles (cut_at s 0) cursor (leaf_tokens (b' # bs')) cursor'" if "\<forall>x \<in> set (b # bs). tokenless x"
          using that IH rest r b'(4) 3 leaf_tokens_append [of "[b']" bs'] by (auto intro!: tiles_appendI)
        with IH rest r 3 c Inr b b'(1-3) show ?thesis by auto
      qed
    qed
  qed
qed

lemma partition_loop_result:
  "case partition_loop host ns cursor c of
      Inl e \<Rightarrow> e = Err TreeCancelled \<and> (\<exists>q. host q)
    | Inr (res, c') \<Rightarrow>
        (\<forall>b. res = Some b \<longleftrightarrow> tiles (\<lambda>_. True) cursor (map to_token (filter is_token ns)) b)"
proof (induction ns arbitrary: cursor c)
  case (Cons n ns)
  obtain cancelled c1 where c: "checkpoint_is_cancelled host c = (cancelled, c1)" by force
  show ?case
  proof (cases cancelled)
    case True
    with c show ?thesis by (auto dest: is_cancelled_host)
  next
    case False
    let ?bad = "range_start (node_range n) \<noteq> cursor \<or> range_end (node_range n) \<le> range_start (node_range n)"
    consider "\<not> is_token n" | "is_token n" "?bad" | "is_token n" "\<not> ?bad" by blast
    then show ?thesis
    proof cases
      case 1
      with c False Cons.IH [of cursor c1] show ?thesis by (auto split: sum.splits)
    next
      case 2
      with c False show ?thesis by (auto simp: to_token_def)
    next
      case 3
      with c False Cons.IH [of "range_end (node_range n)" c1] show ?thesis
        by (auto simp: to_token_def split: sum.splits)
    qed
  qed
qed simp

lemma tiles_weaken: "tiles P a ts b \<Longrightarrow> tiles (\<lambda>_. True) a ts b"
  by (induction ts arbitrary: a) auto

lemma tiles_strengthen:
  "tiles (\<lambda>_. True) a ts b \<Longrightarrow> \<forall>t \<in> set ts. P (range_start (token_range t)) \<Longrightarrow> tiles P a ts b"
  by (induction ts arbitrary: a) auto

lemma leaf_tokens_root:
  "map to_token (filter is_token (descendants (SyntaxNode Document r bs))) = leaf_tokens bs"
  by (simp add: descendants_def leaf_tokens_def)

text \<open>The whole contract of the builder.\<close>

lemma from_blocks_result:
  assumes "well_indexed s 0 d" and "length s \<le> u32_max"
  shows "case from_blocks_cancellable host d blocks issues c of
      Inl e \<Rightarrow> build_error host (blocks_ok d 0 blocks (length s) \<and> (\<forall>b \<in> set blocks. tokenless b)) e
    | Inr (tree, c') \<Rightarrow>
        blocks_ok d 0 blocks (length s) \<and> tree_source tree = d \<and> finished s (tree_root tree)
        \<and> node_kind (tree_root tree) = Document
        \<and> node_range (tree_root tree) = \<lparr>range_start = 0, range_end = length s\<rparr>
        \<and> tiles (cut_at s 0) 0 (map to_token (filter is_token (descendants (tree_root tree)))) (length s)"
proof -
  have source: "sd_source d = s" using assms(1) by (simp add: well_indexed_def)
  have start: "cut_at s 0 0" and stop: "cut_at s 0 (length s)" by (simp_all add: cut_at_def)
  have size: "TextSize_new (length (sd_source d)) = Inr (length s)"
    using assms(2) source by (simp add: TextSize_new_def)
  let ?r = "\<lparr>range_start = 0, range_end = length s\<rparr>"
  have whole: "expect_range 0 (length s) = (Inr ?r :: SyntaxTreeBuildFailure failure + _)"
    by (simp add: expect_range_def TextRange_new_def)
  note placed = place_blocks_result [OF assms(1) start, of host blocks c]
  show ?thesis
  proof (cases "place_blocks host d (length s) blocks 0 c")
    case (Inl e)
    with placed size show ?thesis by (auto simp: from_blocks_cancellable_def build_error_def)
  next
    case (Inr p)
    obtain cursor bs c1 where p: "p = (cursor, bs, c1)" by (cases p) auto
    from placed Inr p have ok: "blocks_ok d 0 blocks cursor" "covers 0 bs cursor"
      "\<forall>n \<in> set bs. finished s n"
      "(\<forall>b \<in> set blocks. tokenless b) \<longrightarrow> tiles (cut_at s 0) 0 (leaf_tokens bs) cursor"
      by auto
    have unique: "blocks_ok d a ns x \<Longrightarrow> blocks_ok d a ns y \<Longrightarrow> x = y" for a ns x y
      by (induction ns arbitrary: a) auto
    show ?thesis
    proof (cases "cursor = length s")
      case False
      with unique ok(1) Inr p size show ?thesis
        by (auto simp: from_blocks_cancellable_def build_error_def)
    next
      case True
      let ?root = "SyntaxNode Document ?r bs"
      let ?leaves = "filter is_token (descendants ?root)"
      have root: "finished s ?root" using ok(2,3) True start stop by simp
      note loop = partition_loop_result [where host = host and ns = "descendants ?root" and cursor = 0 and c = c1]
      show ?thesis
      proof (cases "partition_loop host (descendants ?root) 0 c1")
        case fail: (Inl e)
        with loop Inr p True size whole show ?thesis
          by (auto simp: from_blocks_cancellable_def build_error_def token_leaves_partition_source_def)
      next
        case res: (Inr r)
        obtain end_cursor c2 where r: "r = (end_cursor, c2)" by force
        have parts: "end_cursor = Some (length s) \<longleftrightarrow> tiles (\<lambda>_. True) 0 (map to_token ?leaves) (length s)"
          using loop res r by auto
        let ?tree = "\<lparr>tree_source = d, tree_root = ?root, tree_issues = issues\<rparr>"
        have run: "from_blocks_cancellable host d blocks issues c =
            (if end_cursor = Some (length s) then Inr (?tree, c2) else Inl (Err InvariantFailure))"
          using res r Inr p True size whole
          by (simp add: from_blocks_cancellable_def token_leaves_partition_source_def Let_def)
        show ?thesis
        proof (cases "end_cursor = Some (length s)")
          case good: True
          have "cut_at s 0 (range_start (token_range t))" if t: "t \<in> set (map to_token ?leaves)" for t
          proof -
            from t obtain m where m: "m \<in> set (descend bs)" "t = to_token m" by (auto simp: descendants_def)
            with finished_start [OF finished_descend [OF m(1) ok(3)]] show ?thesis
              by (simp add: to_token_def)
          qed
          then have "\<forall>t \<in> set (map to_token ?leaves). cut_at s 0 (range_start (token_range t))" by (rule ballI)
          with parts [THEN iffD1, OF good] have "tiles (cut_at s 0) 0 (map to_token ?leaves) (length s)"
            by (rule tiles_strengthen)
          with ok(1) root True show ?thesis
            unfolding run if_P [OF good] by (simp del: finished.simps)
        next
          case bad: False
          have "\<not> (\<forall>b \<in> set blocks. tokenless b)"
            using bad parts ok(4) True leaf_tokens_root tiles_weaken by metis
          then show ?thesis
            unfolding run if_not_P [OF bad] by (auto simp: build_error_def)
        qed
      qed
    qed
  qed
qed

lemma tree_reconstruct_source:
  assumes "well_indexed s 0 d" and "tree_source tree = d"
    and "tiles (cut_at s 0) 0 (map to_token (filter is_token (descendants (tree_root tree)))) (length s)"
  shows "tree_reconstruct tree = Inr s"
proof -
  have "sd_source d = s" "sd_base d = 0" using assms(1) by (simp_all add: well_indexed_def)
  from tiles_concat [OF this, of 0 "map to_token (filter is_token (descendants (tree_root tree)))" "length s"]
    assms(2,3)
  show ?thesis by (simp add: tree_reconstruct_def comp_def to_token_def)
qed

section \<open>Properties\<close>

text \<open>C28. Building the tree decides the layout: it fails only when the host cancels or when the
  blocks are not laid out as the parser promises (consecutive blocks over the whole text,
  annotations inside their node without overlap, every range a range of the text), and never
  panics. A tree it returns covers the text: the children of every node cover the node's
  range exactly, and the token leaves partition the source at character boundaries.\<close>

theorem syntax_tree_well_formed:
  assumes "valid_utf8 s" and "SourceDocument_new s = Inr d"
  shows "case from_blocks_cancellable host d blocks issues c of
      Inl e \<Rightarrow> e = Err TreeCancelled \<and> (\<exists>q. host q)
        \<or> e = Err InvariantFailure
          \<and> \<not> (blocks_ok d 0 blocks (length s) \<and> (\<forall>b \<in> set blocks. tokenless b))
    | Inr (tree, c') \<Rightarrow>
        blocks_ok d 0 blocks (length s) \<and> finished s (tree_root tree)
        \<and> node_range (tree_root tree) = \<lparr>range_start = 0, range_end = length s\<rparr>
        \<and> tiles (cut_at s 0) 0 (map to_token (filter is_token (descendants (tree_root tree))))
            (length s)"
  using from_blocks_result [OF SourceDocument_new_Inr [OF assms], of host blocks issues c]
  by (auto simp: build_error_def split: sum.splits)

definition sample_document :: SourceDocument where
  "sample_document = (case SourceDocument_new (''ab c'' @ [line_feed]) of Inr d \<Rightarrow> d)"

definition sample_blocks :: "SyntaxNode list" where
  "sample_blocks =
     [SyntaxNode Paragraph \<lparr>range_start = 0, range_end = 5\<rparr>
        [leaf InlineSpan \<lparr>range_start = 1, range_end = 4\<rparr>]]"

definition sample_tree :: SyntaxTree where
  "sample_tree =
     (case from_blocks_cancellable NeverCancel sample_document sample_blocks [] (checkpoint_new 0) of
        Inr (t, _) \<Rightarrow> t)"

lemma sample_document: "SourceDocument_new (''ab c'' @ [line_feed]) = Inr sample_document"
  by (simp add: sample_document_def source_eval str_eval)

lemma sample_tree_built:
  "\<exists>c'. from_blocks_cancellable NeverCancel sample_document sample_blocks [] (checkpoint_new 0)
      = Inr (sample_tree, c')"
proof -
  have "isl (from_blocks_cancellable NeverCancel sample_document sample_blocks [] (checkpoint_new 0)) = False"
    by code_simp
  then show ?thesis
    by (auto simp: sample_tree_def isl_def split: sum.splits)
qed

theorem syntax_tree_well_formed_witness:
  "blocks_ok sample_document 0 sample_blocks 5 \<and> finished (''ab c'' @ [line_feed]) (tree_root sample_tree)"
proof -
  have v: "valid_utf8 (''ab c'' @ [line_feed])" by (simp add: str_eval)
  from sample_tree_built obtain c' where "from_blocks_cancellable NeverCancel sample_document
      sample_blocks [] (checkpoint_new 0) = Inr (sample_tree, c')" by blast
  with syntax_tree_well_formed [OF v sample_document, of NeverCancel sample_blocks "[]" "checkpoint_new 0"]
  show ?thesis by (simp add: eval_nat_numeral)
qed

text \<open>C29. A built tree is lossless: reading its token leaves in order gives the source text.\<close>

theorem syntax_tree_reconstructs:
  assumes "valid_utf8 s" and "SourceDocument_new s = Inr d"
    and "from_blocks_cancellable host d blocks issues c = Inr (tree, c')"
  shows "tree_reconstruct tree = Inr s"
proof -
  note d = SourceDocument_new_Inr [OF assms(1,2)]
  from from_blocks_result [OF d, of host blocks issues c] assms(3)
  have "tree_source tree = d"
    "tiles (cut_at s 0) 0 (map to_token (filter is_token (descendants (tree_root tree)))) (length s)"
    by auto
  then show ?thesis by (rule tree_reconstruct_source [OF d(1)])
qed

theorem syntax_tree_reconstructs_witness:
  "tree_reconstruct sample_tree = Inr (''ab c'' @ [line_feed])"
proof -
  have v: "valid_utf8 (''ab c'' @ [line_feed])" by (simp add: str_eval)
  from sample_tree_built syntax_tree_reconstructs [OF v sample_document] show ?thesis by blast
qed

text \<open>The ranges the formatter must leave alone are ranges of the text.\<close>

lemma protected_ranges_inside:
  "finished s n \<Longrightarrow> r \<in> set (collect_protected_ranges n p) \<Longrightarrow>
     range_start r \<le> range_end r \<and> cut_at s 0 (range_start r) \<and> cut_at s 0 (range_end r)"
proof (induction n arbitrary: p)
  case (SyntaxNode k q cs)
  show ?case
  proof (cases "protects_formatting k \<and> \<not> p")
    case True
    with SyntaxNode.prems show ?thesis by auto
  next
    case False
    with SyntaxNode.prems(2) obtain m p' where "m \<in> set cs" "r \<in> set (collect_protected_ranges m p')"
      by (auto simp: Let_def)
    moreover from this SyntaxNode.prems(1) have "finished s m" by auto
    ultimately show ?thesis using SyntaxNode.IH by blast
  qed
qed

end
