(* ===== verification/Block_Grammar.thy ===== *)
theory Block_Grammar
  imports Attributes Directives Delimiters "HOL-Library.Code_Target_Numeral"
begin

text \<open>
  \<open>block_grammar.rs\<close> with the list markers of \<open>list_parser.rs\<close>: the classification of one
  line, block attributes, explicit anchors and list markers. \<open>Inl Panic\<close> marks an \<open>expect\<close>.
\<close>

section \<open>Block attributes\<close>

record MetadataValue =
  metadata_value :: str
  metadata_value_range :: TextRange

record ElementAttribute =
  element_name :: "str option"
  element_value :: str
  element_range :: TextRange

text \<open>The title of a block is attached by the parser; the grammar leaves it alone.\<close>

record BlockMetadata =
  metadata_range :: "TextRange option"
  metadata_id :: "MetadataValue option"
  metadata_roles :: "MetadataValue list"
  metadata_options :: "MetadataValue list"
  metadata_attributes :: "ElementAttribute list"

definition BlockMetadata_default :: BlockMetadata where
  "BlockMetadata_default =
     \<lparr>metadata_range = None, metadata_id = None, metadata_roles = [], metadata_options = [],
      metadata_attributes = []\<rparr>"

definition unquote :: "str \<Rightarrow> str" where
  "unquote v =
     (case strip_prefix v [double_quote] of
        None \<Rightarrow> v
      | Some inner \<Rightarrow> (case strip_suffix inner [double_quote] of None \<Rightarrow> v | Some w \<Rightarrow> w))"

definition shorthand_marker :: "char \<Rightarrow> bool" where
  "shorthand_marker b \<longleftrightarrow> b = CHR ''#'' \<or> b = CHR ''.'' \<or> b = CHR 0x25"

definition push_attribute :: "str option \<Rightarrow> str \<Rightarrow> TextRange \<Rightarrow> BlockMetadata \<Rightarrow> BlockMetadata" where
  "push_attribute name v r m =
     m\<lparr>metadata_attributes := metadata_attributes m @
        [\<lparr>element_name = name, element_value = v, element_range = r\<rparr>]\<rparr>"

text \<open>One shorthand item: an id, a role or an option.\<close>

definition push_shorthand :: "char \<Rightarrow> MetadataValue \<Rightarrow> BlockMetadata \<Rightarrow> BlockMetadata" where
  "push_shorthand marker item m =
     (if marker = CHR ''#'' then m\<lparr>metadata_id := Some item\<rparr>
      else if marker = CHR ''.'' then m\<lparr>metadata_roles := metadata_roles m @ [item]\<rparr>
      else m\<lparr>metadata_options := metadata_options m @ [item]\<rparr>)"

text \<open>
  The loop over the shorthand: what is left of it, whether an item was taken, and the
  metadata. \<open>n\<close> is the length of the whole value and \<open>start\<close> its offset.
\<close>

function shorthand_loop ::
    "nat \<Rightarrow> nat \<Rightarrow> str \<Rightarrow> BlockMetadata \<Rightarrow> bool \<Rightarrow> unit failure + (BlockMetadata \<times> bool \<times> str)" where
  "shorthand_loop n start shorthand m consumed =
     (case shorthand of
        [] \<Rightarrow> Inr (m, consumed, shorthand)
      | marker # rest \<Rightarrow>
          if \<not> shorthand_marker marker then Inr (m, consumed, shorthand)
          else
            let stop = (case find_if shorthand_marker rest of Some i \<Rightarrow> i | None \<Rightarrow> length rest);
                item = take stop rest;
                offset = n - length shorthand + 1
            in if item = [] then Inr (m, consumed, shorthand)
               else and_then (attribute_range (start + offset) (start + offset + length item)) (\<lambda>r.
                 shorthand_loop n start (drop stop rest)
                   (push_shorthand marker \<lparr>metadata_value = item, metadata_value_range = r\<rparr> m) True))"
  by pat_completeness auto
termination
  by (relation "measure (\<lambda>(n, start, shorthand, m, consumed). length shorthand)") auto

declare shorthand_loop.simps [simp del]

definition element_style :: "str \<Rightarrow> bool \<Rightarrow> str option" where
  "element_style v first_positional =
     (if \<not> first_positional then None
      else (case find_if shorthand_marker v of
          None \<Rightarrow> None
        | Some offset \<Rightarrow>
            if 0 < offset \<and> \<not> list_ex is_whitespace (chars (take offset v))
               \<and> \<not> starts_with v [double_quote]
            then Some (take offset v) else None))"

definition parse_element_attribute ::
    "str \<Rightarrow> TextRange \<Rightarrow> BlockMetadata \<Rightarrow> bool \<Rightarrow> unit failure + BlockMetadata" where
  "parse_element_attribute v r m first_positional =
     (case split_once_char (CHR ''='') v of
        Some (name, raw_value) \<Rightarrow>
          let name = trim name; raw_value = trim raw_value in
          Inr (push_attribute (if name \<noteq> [] then Some name else None) (unquote raw_value) r m)
      | None \<Rightarrow>
          let style = element_style v first_positional;
              shorthand = (case style of None \<Rightarrow> v | Some w \<Rightarrow> drop (length w) v)
          in and_then (shorthand_loop (length v) (range_start r) shorthand m False)
               (\<lambda>(m, consumed, shorthand).
             case style of
               Some w \<Rightarrow>
                 if consumed \<and> shorthand = [] then
                   and_then (attribute_range (range_start r) (range_start r + length w)) (\<lambda>style_range.
                     Inr (push_attribute None w style_range m))
                 else if \<not> consumed \<or> shorthand \<noteq> []
                 then Inr (push_attribute None (unquote v) r m) else Inr m
             | None \<Rightarrow>
                 if \<not> consumed \<or> shorthand \<noteq> []
                 then Inr (push_attribute None (unquote v) r m) else Inr m))"

text \<open>The ends of the fields: the commas outside quotes, and the end of the text.\<close>

fun field_ends :: "bool \<Rightarrow> nat \<Rightarrow> str \<Rightarrow> nat list" where
  "field_ends quoted i [] = [i]"
| "field_ends quoted i (b # s) =
     (let quoted = (if b = double_quote then \<not> quoted else quoted)
      in if b = CHR '','' \<and> \<not> quoted then i # field_ends quoted (i + 1) s
         else field_ends quoted (i + 1) s)"

fun fields_loop ::
    "str \<Rightarrow> nat \<Rightarrow> nat list \<Rightarrow> nat \<Rightarrow> BlockMetadata \<Rightarrow> unit failure + BlockMetadata option" where
  "fields_loop inner base [] field_start m = Inr (Some m)"
| "fields_loop inner base (field_end # ends) field_start m =
     (let raw = slice inner field_start field_end;
          leading = length raw - length (trim_start raw);
          v = trim raw;
          absolute_start = base + 1 + field_start + leading
      in case text_range absolute_start (absolute_start + length v) of
           Inl _ \<Rightarrow> Inr None
         | Inr r \<Rightarrow>
             and_then
               (if v \<noteq> [] then parse_element_attribute v r m (field_start = 0)
                else if field_start = 0 \<and> field_end < length inner
                then Inr (push_attribute None [] r m)
                else Inr m)
               (\<lambda>m. fields_loop inner base ends (field_end + 1) m))"

definition parse_block_attributes :: "str \<Rightarrow> nat \<Rightarrow> unit failure + BlockMetadata option" where
  "parse_block_attributes content base =
     (case strip_prefix content ''['' of
        None \<Rightarrow> Inr None
      | Some rest \<Rightarrow>
          (case strip_suffix rest '']'' of
             None \<Rightarrow> Inr None
           | Some inner \<Rightarrow>
               if starts_with inner ''['' \<or> ends_with inner '']'' then Inr None
               else fields_loop inner base (field_ends False 0 inner) 0 BlockMetadata_default))"

section \<open>Anchors, titles and mathematics\<close>

definition is_valid_anchor_id :: "str \<Rightarrow> bool" where
  "is_valid_anchor_id v \<longleftrightarrow>
     v \<noteq> [] \<and> list_all (\<lambda>ch. \<not> is_control ch \<and> \<not> is_whitespace ch
       \<and> ch \<notin> {''['', '']'', ''<'', ''>'', '','', ''#'', [double_quote], [quote_char], ''&'', ''='',
            ''('', '')''}) (chars v)"

record ExplicitAnchor =
  anchor_range :: TextRange
  anchor_id_range :: TextRange
  anchor_label_range :: "TextRange option"
  anchor_id :: str
  anchor_label :: "str option"
  anchor_target_range :: "TextRange option"
  anchor_valid :: bool

definition parse_explicit_anchor :: "str \<Rightarrow> nat \<Rightarrow> TextRange \<Rightarrow> ExplicitAnchor option" where
  "parse_explicit_anchor content absolute_start full =
     (case (case Option.bind (strip_prefix content ''[['') (\<lambda>v. strip_suffix v '']]'') of
          Some inner \<Rightarrow> Some inner
        | None \<Rightarrow> Option.bind (strip_prefix content ''[#'') (\<lambda>v. strip_suffix v '']''))
      of None \<Rightarrow> None
       | Some inner \<Rightarrow>
           let (anchor_name, label) = (case split_once_char (CHR '','') inner of
                 None \<Rightarrow> (inner, None)
               | Some (a, l) \<Rightarrow> (a, Some l));
               id_start = absolute_start + 2;
               id_end = id_start + length anchor_name
           in (case text_range id_start id_end of
                 Inl _ \<Rightarrow> None
               | Inr id_r \<Rightarrow>
                   (case (case label of
                       None \<Rightarrow> Some None
                     | Some l \<Rightarrow> (case text_range (id_end + 1) (id_end + 1 + length l) of
                           Inl _ \<Rightarrow> None
                         | Inr r \<Rightarrow> Some (Some r)))
                    of None \<Rightarrow> None
                     | Some label_r \<Rightarrow>
                         Some \<lparr>anchor_range = full, anchor_id_range = id_r,
                               anchor_label_range = label_r, anchor_id = anchor_name,
                               anchor_label = label, anchor_target_range = None,
                               anchor_valid = is_valid_anchor_id anchor_name\<rparr>)))"

definition is_block_title :: "str \<Rightarrow> bool" where
  "is_block_title content =
     (case strip_prefix content ''.'' of
        None \<Rightarrow> False
      | Some v \<Rightarrow>
          let v = (case strip_prefix v ''.'' of None \<Rightarrow> v | Some w \<Rightarrow> w)
          in v \<noteq> [] \<and> hd v \<notin> {CHR '' '', tab, CHR ''.''})"

datatype MathLanguage = Latex | AsciiMath | Typst

definition stem_language :: "str option \<Rightarrow> MathLanguage" where
  "stem_language v =
     (if v \<in> {Some ''latexmath'', Some ''latex'', Some ''tex''} then Latex else AsciiMath)"

definition parse_math_attribute :: "str \<Rightarrow> unit failure + MathLanguage option" where
  "parse_math_attribute content =
     and_then (parse_block_attributes content 0) (\<lambda>md. Inr (case md of
        None \<Rightarrow> None
      | Some m \<Rightarrow>
          (case filter (\<lambda>a. element_name a = None) (metadata_attributes m) of
             [] \<Rightarrow> None
           | style # rest \<Rightarrow>
               if element_value style = ''stem''
               then Some (stem_language (case rest of [] \<Rightarrow> None | a # _ \<Rightarrow> Some (element_value a)))
               else if element_value style = ''asciimath'' then Some AsciiMath
               else if element_value style = ''latexmath'' then Some Latex
               else None)))"

section \<open>List markers\<close>

datatype ListKind = Unordered | Ordered | Description | Callout

datatype ExplicitNumber = AbsentNumber | ValidNumber nat | InvalidNumber

record ParsedListMarker =
  marker_kind :: ListKind
  marker_depth :: nat
  marker_start :: nat
  marker_end :: nat
  explicit_number :: ExplicitNumber
  text_start :: nat
  term_end :: "nat option"
  callout_id :: "nat option"

definition public_fields :: "ExplicitNumber \<Rightarrow> nat option \<times> bool" where
  "public_fields n = (case n of
      AbsentNumber \<Rightarrow> (None, False) | ValidNumber k \<Rightarrow> (Some k, False) | InvalidNumber \<Rightarrow> (None, True))"

definition separator_at :: "str \<Rightarrow> nat \<Rightarrow> bool" where
  "separator_at s i \<longleftrightarrow> i < length s \<and> is_blank (s ! i)"

text \<open>The loop that looks for the marker of a description term, over the rest at \<open>offset\<close>.\<close>

fun description_marker :: "nat \<Rightarrow> str \<Rightarrow> ParsedListMarker option" where
  "description_marker offset [] = None"
| "description_marker offset (b # s) =
     (if \<not> (b = CHR '':'' \<and> starts_with (b # s) ''::'' \<or> b = CHR '';'' \<and> starts_with (b # s) '';;'')
      then description_marker (offset + 1) s
      else
        let width = (if b = CHR '':'' \<and> starts_with (b # s) ''::::'' then 4
              else if b = CHR '':'' \<and> starts_with (b # s) '':::'' then 3 else 2);
            after = drop width (b # s)
        in if offset = 0 \<or> \<not> (after = [] \<or> is_blank (hd after))
           then description_marker (offset + 1) s
           else Some \<lparr>marker_kind = Description, marker_depth = width - 1, marker_start = offset,
                      marker_end = offset + width, explicit_number = AbsentNumber,
                      text_start = offset + width + (if after = [] then 0 else 1),
                      term_end = Some offset, callout_id = None\<rparr>)"

definition parse_u32 :: "str \<Rightarrow> nat option" where
  "parse_u32 = parse_unsigned u32_max"

definition list_marker :: "str \<Rightarrow> ParsedListMarker option" where
  "list_marker content =
     (case content of
        [] \<Rightarrow> None
      | m # _ \<Rightarrow>
          if m = CHR ''*'' \<or> m = CHR ''.'' then
            (let kind = (if m = CHR ''*'' then Unordered else Ordered);
                 depth = length (takeWhile (\<lambda>b. b = m) content)
             in if separator_at content depth
                then Some \<lparr>marker_kind = kind, marker_depth = depth, marker_start = 0,
                           marker_end = depth, explicit_number = AbsentNumber,
                           text_start = depth + 1, term_end = None, callout_id = None\<rparr>
                else None)
          else if is_ascii_digit m then
            (let digits = length (takeWhile is_ascii_digit content);
                 dot = (digits < length content \<and> content ! digits = CHR ''.'');
                 stop = digits + (if dot then 1 else 0);
                 number = (case parse_u32 (take digits content) of
                     None \<Rightarrow> InvalidNumber
                   | Some n \<Rightarrow> if 0 < n then ValidNumber n else InvalidNumber)
             in if dot \<and> separator_at content stop
                then Some \<lparr>marker_kind = Ordered, marker_depth = 1, marker_start = 0,
                           marker_end = stop, explicit_number = number,
                           text_start = stop + 1, term_end = None, callout_id = None\<rparr>
                else None)
          else if m = CHR ''<'' then
            (case find_char (CHR ''>'') content of
               None \<Rightarrow> None
             | Some close \<Rightarrow>
                 (let raw = slice content 1 close
                  in (case (if raw = ''.'' then Some 0 else parse_u32 raw) of
                        None \<Rightarrow> None
                      | Some number \<Rightarrow>
                          if separator_at content (close + 1)
                          then Some \<lparr>marker_kind = Callout, marker_depth = 1, marker_start = 0,
                                     marker_end = close + 1, explicit_number = AbsentNumber,
                                     text_start = close + 2, term_end = None,
                                     callout_id = Some number\<rparr>
                          else None)))
          else description_marker 0 content)"

section \<open>Classification of a line\<close>

datatype LineRecognition =
    Math_line | Delimited_line | Anchor_line | Block_title_line | Block_metadata_line
  | Comment_line | Blank_line | Document_attribute_line | Break_line | Literal_paragraph_line
  | Heading_line | List_line | Preprocessor_directive_line | Unsupported_line | Paragraph_line

datatype BlockRecognizer =
    R_Math | R_Delimited | R_Anchor | R_BlockTitle | R_BlockMetadata | R_Comment | R_Blank
  | R_DocumentAttribute | R_Break | R_LiteralParagraph | R_Heading | R_List
  | R_PreprocessorDirective | R_Unsupported

definition BLOCK_RECOGNIZER_PRIORITY :: "BlockRecognizer list" where
  "BLOCK_RECOGNIZER_PRIORITY =
     [R_Math, R_Delimited, R_Anchor, R_BlockTitle, R_BlockMetadata, R_Comment, R_Blank,
      R_DocumentAttribute, R_Break, R_LiteralParagraph, R_Heading, R_List,
      R_PreprocessorDirective, R_Unsupported]"

record RecognitionInput =
  input_content :: str
  next_content :: "str option"
  content_start :: nat
  input_full_range :: TextRange
  document_attribute_position :: bool

definition is_delimiter :: "str \<Rightarrow> bool" where
  "is_delimiter s =
     (case chars s of
        [] \<Rightarrow> False
      | first # rest \<Rightarrow>
          first \<in> {''-'', ''.'', ''='', ''_''} \<and> 4 \<le> length (chars s) \<and> list_all (\<lambda>ch. ch = first) rest)"

definition unsupported_reason :: "str \<Rightarrow> str option" where
  "unsupported_reason content =
     (let trimmed = trim_start_matches space_or_tab content in
      if starts_with trimmed ''['' then Some ''block attributes are not implemented''
      else if is_delimiter trimmed then Some ''delimited blocks are not implemented''
      else if starts_with trimmed ''* '' \<or> starts_with trimmed ''. ''
      then Some ''list syntax is not implemented''
      else None)"

definition directive_reason :: "DirectiveLine \<Rightarrow> str" where
  "directive_reason l = (case l of
      ConditionalLine \<Rightarrow> ''conditional directive was not preprocessed''
    | IncludeLine \<Rightarrow> ''include directive was not preprocessed'')"

definition line_if :: "bool \<Rightarrow> LineRecognition \<Rightarrow> unit failure + LineRecognition option" where
  "line_if b l = Inr (if b then Some l else None)"

definition run_recognizer ::
    "RecognitionInput \<Rightarrow> BlockRecognizer \<Rightarrow> unit failure + LineRecognition option" where
  "run_recognizer i r =
     (let content = input_content i in case r of
        R_Math \<Rightarrow> and_then (parse_math_attribute content) (\<lambda>m.
          line_if (m \<noteq> None \<and> next_content i = Some ''++++'') Math_line)
      | R_Delimited \<Rightarrow> line_if (delimiter_spec content \<noteq> None) Delimited_line
      | R_Anchor \<Rightarrow>
          line_if (parse_explicit_anchor content (content_start i) (input_full_range i) \<noteq> None
              \<and> starts_with content ''[['') Anchor_line
      | R_BlockTitle \<Rightarrow> line_if (is_block_title content) Block_title_line
      | R_BlockMetadata \<Rightarrow> and_then (parse_block_attributes content (content_start i)) (\<lambda>m.
          line_if (m \<noteq> None) Block_metadata_line)
      | R_Comment \<Rightarrow> line_if (starts_with content ''//'') Comment_line
      | R_Blank \<Rightarrow> line_if (trim_matches space_or_tab content = []) Blank_line
      | R_DocumentAttribute \<Rightarrow>
          if document_attribute_position i then
            and_then (map_err (\<lambda>_. Panic) (parse_line content (content_start i) (input_full_range i)))
              (\<lambda>p. line_if (p \<noteq> None) Document_attribute_line)
          else Inr None
      | R_Break \<Rightarrow> line_if (content = [quote_char, quote_char, quote_char] \<or> content = ''<<<'') Break_line
      | R_LiteralParagraph \<Rightarrow> line_if (content \<noteq> [] \<and> is_blank (hd content)) Literal_paragraph_line
      | R_Heading \<Rightarrow> line_if (starts_with content ''='') Heading_line
      | R_List \<Rightarrow> line_if (list_marker content \<noteq> None) List_line
      | R_PreprocessorDirective \<Rightarrow>
          line_if (classify_directive_line content \<noteq> None) Preprocessor_directive_line
      | R_Unsupported \<Rightarrow> line_if (unsupported_reason content \<noteq> None) Unsupported_line)"

fun first_recognized ::
    "RecognitionInput \<Rightarrow> BlockRecognizer list \<Rightarrow> unit failure + LineRecognition" where
  "first_recognized i [] = Inr Paragraph_line"
| "first_recognized i (r # rs) =
     and_then (run_recognizer i r) (\<lambda>res. case res of
        Some l \<Rightarrow> Inr l
      | None \<Rightarrow> first_recognized i rs)"

definition recognize_line ::
    "str \<Rightarrow> str option \<Rightarrow> nat \<Rightarrow> TextRange \<Rightarrow> bool \<Rightarrow> unit failure + LineRecognition" where
  "recognize_line content next_line_content start full attribute_ok =
     first_recognized
       \<lparr>input_content = content, next_content = next_line_content, content_start = start,
        input_full_range = full, document_attribute_position = attribute_ok\<rparr>
       BLOCK_RECOGNIZER_PRIORITY"

definition trailing_whitespace_is_structural :: "str \<Rightarrow> unit failure + bool" where
  "trailing_whitespace_is_structural content =
     (let trimmed = trim_end_matches space_or_tab content in
      if trimmed = content then Inr False
      else if delimiter_spec trimmed \<noteq> None then Inr True
      else
        and_then (parse_block_attributes trimmed 0) (\<lambda>m. if m \<noteq> None then Inr True else
        and_then (parse_math_attribute trimmed) (\<lambda>l. if l \<noteq> None then Inr True else
        and_then (attribute_range 0 (length trimmed)) (\<lambda>r.
          Inr (parse_explicit_anchor trimmed 0 r \<noteq> None)))))"

section \<open>Ranges of block attributes\<close>

lemma trim_start_suffix: "\<exists>a. s = a @ trim_start s"
proof -
  have "s = concat (takeWhile is_whitespace (chars s)) @ trim_start s"
    unfolding trim_start_def concat_append [symmetric] takeWhile_dropWhile_id by simp
  then show ?thesis ..
qed

lemma trim_prefix: "\<exists>b. trim_start s = trim s @ b"
proof -
  let ?ws = "rev (dropWhile is_whitespace (chars s))"
  have "?ws = takeWhile is_whitespace ?ws @ dropWhile is_whitespace ?ws" by simp
  then have "dropWhile is_whitespace (chars s)
      = rev (dropWhile is_whitespace ?ws) @ rev (takeWhile is_whitespace ?ws)"
    by (metis rev_append rev_rev_ident)
  then have "trim_start s = trim s @ concat (rev (takeWhile is_whitespace ?ws))"
    unfolding trim_start_def trim_def by (metis concat_append)
  then show ?thesis ..
qed

lemma trim_split: "\<exists>a b. s = a @ trim s @ b \<and> length a = length s - length (trim_start s)"
proof -
  obtain a b where "s = a @ trim_start s" "trim_start s = trim s @ b"
    using trim_start_suffix trim_prefix by metis
  then show ?thesis by (metis add_diff_cancel_right' length_append)
qed

text \<open>A range of the source stands for a piece of the line at \<open>base\<close>.\<close>

definition denotes :: "str \<Rightarrow> nat \<Rightarrow> TextRange \<Rightarrow> str \<Rightarrow> bool" where
  "denotes content base r w \<longleftrightarrow>
     (\<exists>a b. content = a @ w @ b \<and> range_start r = base + length a
        \<and> range_end r = base + length a + length w)"

lemma denotes_slice:
  "denotes content base r w \<Longrightarrow> slice content (range_start r - base) (range_end r - base) = w"
  by (auto simp: denotes_def slice_def)

lemma denotes_part:
  assumes "denotes content base r (a @ w @ b)"
  shows "denotes content base
    \<lparr>range_start = range_start r + length a, range_end = range_start r + length a + length w\<rparr> w"
proof -
  from assms obtain c d where "content = (c @ a) @ w @ (b @ d)" "range_start r = base + length c"
    by (auto simp: denotes_def)
  then show ?thesis
    unfolding denotes_def by (intro exI [of _ "c @ a"] exI [of _ "b @ d"]) simp
qed

lemma denotes_end: "denotes content base r w \<Longrightarrow> range_end r = range_start r + length w"
  by (auto simp: denotes_def)

definition attribute_denotes :: "str \<Rightarrow> nat \<Rightarrow> ElementAttribute \<Rightarrow> bool" where
  "attribute_denotes content base a \<longleftrightarrow>
     (\<exists>raw. denotes content base (element_range a) raw
        \<and> (element_name a = None \<and> element_value a = unquote raw
           \<or> (\<exists>n v. split_once_char (CHR ''='') raw = Some (n, v)
                \<and> element_name a = (if trim n = [] then None else Some (trim n))
                \<and> element_value a = unquote (trim v))))"

definition metadata_denotes :: "str \<Rightarrow> nat \<Rightarrow> BlockMetadata \<Rightarrow> bool" where
  "metadata_denotes content base m \<longleftrightarrow>
     (\<forall>x \<in> set_option (metadata_id m) \<union> set (metadata_roles m) \<union> set (metadata_options m).
        denotes content base (metadata_value_range x) (metadata_value x))
     \<and> (\<forall>a \<in> set (metadata_attributes m). attribute_denotes content base a)"

lemma metadata_denotes_default [simp]: "metadata_denotes content base BlockMetadata_default"
  by (simp add: metadata_denotes_def BlockMetadata_default_def)

lemma metadata_denotes_attribute:
  "metadata_denotes content base m
   \<Longrightarrow> attribute_denotes content base \<lparr>element_name = n, element_value = v, element_range = r\<rparr>
   \<Longrightarrow> metadata_denotes content base (push_attribute n v r m)"
  by (auto simp: metadata_denotes_def push_attribute_def)

lemma metadata_denotes_shorthand:
  "metadata_denotes content base m \<Longrightarrow> denotes content base r w
   \<Longrightarrow> metadata_denotes content base
         (push_shorthand k \<lparr>metadata_value = w, metadata_value_range = r\<rparr> m)"
  by (auto simp: metadata_denotes_def push_shorthand_def)

lemma attribute_range_ok:
  "a \<le> b \<Longrightarrow> b \<le> u32_max \<Longrightarrow> attribute_range a b = Inr \<lparr>range_start = a, range_end = b\<rparr>"
  by (simp add: attribute_range_def text_range_ok)

lemma shorthand_loop_denotes:
  assumes "metadata_denotes content base m" and "denotes content base r (pre @ shorthand)"
    and "range_end r \<le> u32_max"
  shows "\<exists>m' consumed' rest. shorthand_loop (length (pre @ shorthand)) (range_start r) shorthand m consumed
      = Inr (m', consumed', rest) \<and> metadata_denotes content base m'"
  using assms(1,2)
proof (induction shorthand arbitrary: pre m consumed rule: length_induct)
  case (1 shorthand)
  show ?case
  proof (cases "\<exists>marker tail. shorthand = marker # tail \<and> shorthand_marker marker")
    case False
    with 1(2) show ?thesis
      by (subst shorthand_loop.simps) (auto split: list.split)
  next
    case True
    then obtain marker tail where s: "shorthand = marker # tail" and mk: "shorthand_marker marker" by blast
    define stop where "stop = (case find_if shorthand_marker tail of Some i \<Rightarrow> i | None \<Rightarrow> length tail)"
    let ?item = "take stop tail"
    show ?thesis
    proof (cases "?item = []")
      case True
      with s mk 1(2) show ?thesis
        by (subst shorthand_loop.simps) (simp add: stop_def [symmetric] del: take_eq_Nil)
    next
      case False
      let ?a = "pre @ [marker]"
      let ?r = "\<lparr>range_start = range_start r + length ?a,
                 range_end = range_start r + length ?a + length ?item\<rparr>"
      have whole: "pre @ shorthand = ?a @ ?item @ drop stop tail" using s by simp
      have part: "denotes content base ?r ?item"
        using denotes_part [of content base r ?a ?item "drop stop tail"] 1(3) unfolding whole by simp
      have "range_start r + length (pre @ shorthand) \<le> u32_max"
        using denotes_end [OF 1(3)] assms(3) by simp
      then have range_ok: "attribute_range (range_start r + length ?a)
          (range_start r + length ?a + length ?item) = (Inr ?r :: unit failure + TextRange)"
        using s by (intro attribute_range_ok) auto
      let ?m = "push_shorthand marker \<lparr>metadata_value = ?item, metadata_value_range = ?r\<rparr> m"
      have step: "shorthand_loop (length (pre @ shorthand)) (range_start r) shorthand m consumed
          = shorthand_loop (length ((?a @ ?item) @ drop stop tail)) (range_start r) (drop stop tail) ?m True"
        using s mk False range_ok
        by (subst shorthand_loop.simps) (simp add: stop_def [symmetric] del: take_eq_Nil)
      have "length (drop stop tail) < length shorthand" using s by simp
      then have "\<exists>m' consumed' rest. shorthand_loop (length ((?a @ ?item) @ drop stop tail)) (range_start r)
          (drop stop tail) ?m True = Inr (m', consumed', rest) \<and> metadata_denotes content base m'"
        using metadata_denotes_shorthand [OF 1(2) part] 1(3) whole
        by (intro 1(1) [rule_format]) simp_all
      then show ?thesis unfolding step .
    qed
  qed
qed

lemma element_style_prefix:
  assumes "element_style v first = Some w"
  shows "\<exists>t. v = w @ t" "w \<noteq> []" "unquote w = w"
proof -
  from assms obtain offset where w: "w = take offset v" and "0 < offset" "offset < length v"
    and q: "\<not> starts_with v [double_quote]"
    by (auto simp: element_style_def find_if_Some split: if_splits option.splits)
  then show "w \<noteq> []" by auto
  show "\<exists>t. v = w @ t" unfolding w by (metis append_take_drop_id)
  from q w \<open>w \<noteq> []\<close> have "\<not> starts_with w [double_quote]"
    by (cases v; cases offset) (auto simp: starts_with_def)
  then show "unquote w = w" by (simp add: unquote_def strip_prefix_def)
qed

lemma parse_element_attribute_denotes:
  assumes "metadata_denotes content base m" and "denotes content base r v" and "range_end r \<le> u32_max"
  shows "\<exists>m'. parse_element_attribute v r m first = Inr m' \<and> metadata_denotes content base m'"
proof (cases "split_once_char (CHR ''='') v")
  case (Some nv)
  then obtain n w where nv: "split_once_char (CHR ''='') v = Some (n, w)" by (cases nv) auto
  then have "attribute_denotes content base
      \<lparr>element_name = (if trim n \<noteq> [] then Some (trim n) else None),
       element_value = unquote (trim w), element_range = r\<rparr>"
    using assms(2) by (auto simp: attribute_denotes_def)
  with assms(1) nv show ?thesis
    by (auto simp: parse_element_attribute_def Let_def intro: metadata_denotes_attribute)
next
  case None
  define style where "style = element_style v first"
  define pre where "pre = (case style of None \<Rightarrow> [] | Some w \<Rightarrow> w)"
  define shorthand where "shorthand = (case style of None \<Rightarrow> v | Some w \<Rightarrow> drop (length w) v)"
  have v: "v = pre @ shorthand"
    using element_style_prefix(1) [of v first] by (auto simp: pre_def shorthand_def style_def split: option.split)
  obtain m' consumed rest where loop:
    "shorthand_loop (length v) (range_start r) shorthand m False = Inr (m', consumed, rest)"
    "metadata_denotes content base m'"
    using shorthand_loop_denotes [OF assms(1) _ assms(3), of pre shorthand False] assms(2)
    unfolding v by blast
  have whole: "metadata_denotes content base (push_attribute None (unquote v) r m')"
    using loop(2) assms(2) by (intro metadata_denotes_attribute) (auto simp: attribute_denotes_def)
  have styled: "attribute_range (range_start r) (range_start r + length w)
        = (Inr \<lparr>range_start = range_start r, range_end = range_start r + length w\<rparr> :: unit failure + TextRange)
      \<and> metadata_denotes content base (push_attribute None w
          \<lparr>range_start = range_start r, range_end = range_start r + length w\<rparr> m')"
    if st: "style = Some w" for w
  proof
    obtain t where t: "v = w @ t" and "unquote w = w"
      using st element_style_prefix [of v first w] unfolding style_def by blast
    then show "attribute_range (range_start r) (range_start r + length w)
        = (Inr \<lparr>range_start = range_start r, range_end = range_start r + length w\<rparr> :: unit failure + TextRange)"
      using denotes_end [OF assms(2)] assms(3) by (intro attribute_range_ok) simp_all
    have "denotes content base \<lparr>range_start = range_start r, range_end = range_start r + length w\<rparr> w"
      using denotes_part [of content base r "[]" w t] assms(2) t by simp
    with \<open>unquote w = w\<close> loop(2) show "metadata_denotes content base (push_attribute None w
        \<lparr>range_start = range_start r, range_end = range_start r + length w\<rparr> m')"
      by (intro metadata_denotes_attribute) (auto simp: attribute_denotes_def)
  qed
  show ?thesis
    unfolding parse_element_attribute_def None option.case Let_def style_def [symmetric]
      shorthand_def [symmetric] loop(1) and_then_Inr prod.case
    using whole styled loop(2) by (cases style) auto
qed

lemma field_ends_bounds:
  "e \<in> set (field_ends q i s) \<Longrightarrow> i \<le> e \<and> e \<le> i + length s"
  by (induction q i s rule: field_ends.induct) (fastforce simp: Let_def split: if_splits)+

lemma field_ends_sorted: "sorted_wrt (<) (field_ends q i s)"
  by (induction q i s rule: field_ends.induct)
    (auto simp: Let_def dest: field_ends_bounds)

lemma fields_loop_denotes:
  assumes "metadata_denotes (''['' @ inner @ '']'') base m" and "sorted_wrt (<) ends"
    and "\<forall>e \<in> set ends. field_start \<le> e \<and> e \<le> length inner"
  shows "\<exists>res. fields_loop inner base ends field_start m = Inr res
    \<and> (\<forall>m'. res = Some m' \<longrightarrow> metadata_denotes (''['' @ inner @ '']'') base m')"
  using assms
proof (induction ends arbitrary: field_start m)
  case Nil
  then show ?case by simp
next
  case (Cons e ends)
  let ?content = "''['' @ inner @ '']''"
  let ?raw = "slice inner field_start e"
  obtain lead trail where raw: "?raw = lead @ trim ?raw @ trail"
    and lead: "length lead = length ?raw - length (trim_start ?raw)"
    using trim_split by blast
  let ?start = "base + 1 + field_start + (length ?raw - length (trim_start ?raw))"
  show ?case
  proof (cases "text_range ?start (?start + length (trim ?raw))")
    case (Inl err)
    then show ?thesis by (simp add: Let_def)
  next
    case (Inr r)
    then have r: "range_start r = ?start" "range_end r = ?start + length (trim ?raw)"
      and bound: "range_end r \<le> u32_max"
      by (auto simp: text_range_Inr)
    have "inner = take field_start inner @ ?raw @ drop e inner"
      using Cons.prems(3) by (simp add: slice_def) (metis append_take_drop_id le_add_diff_inverse2 drop_drop)
    with raw have "?content = (''['' @ take field_start inner @ lead) @ trim ?raw @ (trail @ drop e inner @ '']'')"
      by (metis append.assoc)
    then have den: "denotes ?content base r (trim ?raw)"
      unfolding denotes_def
      using r lead Cons.prems(3)
      by (intro exI [of _ "''['' @ take field_start inner @ lead"] exI [of _ "trail @ drop e inner @ '']''"])
        simp
    have "\<exists>m'. (if trim ?raw \<noteq> [] then parse_element_attribute (trim ?raw) r m (field_start = 0)
        else if field_start = 0 \<and> e < length inner then Inr (push_attribute None [] r m)
        else Inr m) = Inr m' \<and> metadata_denotes ?content base m'"
    proof (cases "trim ?raw = []")
      case False
      with parse_element_attribute_denotes [OF Cons.prems(1) den bound] show ?thesis by simp
    next
      case True
      with den have "attribute_denotes ?content base \<lparr>element_name = None, element_value = [], element_range = r\<rparr>"
        by (auto simp: attribute_denotes_def unquote_def strip_prefix_def starts_with_def)
      with True Cons.prems(1) show ?thesis by (auto intro: metadata_denotes_attribute)
    qed
    then obtain m' where m': "(if trim ?raw \<noteq> [] then parse_element_attribute (trim ?raw) r m (field_start = 0)
        else if field_start = 0 \<and> e < length inner then Inr (push_attribute None [] r m)
        else Inr m) = Inr m'" "metadata_denotes ?content base m'" by blast
    have "\<exists>res. fields_loop inner base ends (e + 1) m' = Inr res
      \<and> (\<forall>m''. res = Some m'' \<longrightarrow> metadata_denotes ?content base m'')"
      using Cons.prems m'(2) by (intro Cons.IH) auto
    then show ?thesis
      using Inr by (simp add: Let_def m'(1))
  qed
qed

lemma parse_block_attributes_result:
  "\<exists>res. parse_block_attributes content base = Inr res
    \<and> (\<forall>m. res = Some m \<longrightarrow> metadata_denotes content base m)"
proof (cases "\<exists>inner. content = ''['' @ inner @ '']''")
  case True
  then obtain inner where c: "content = ''['' @ inner @ '']''" by blast
  then have p: "strip_prefix content ''['' = Some (inner @ '']'')" "strip_suffix (inner @ '']'') '']'' = Some inner"
    by (simp_all add: strip_prefix_Some strip_suffix_Some)
  have "\<forall>e \<in> set (field_ends False 0 inner). 0 \<le> e \<and> e \<le> length inner"
    using field_ends_bounds by fastforce
  from fields_loop_denotes [OF metadata_denotes_default field_ends_sorted this, of base, folded c]
  show ?thesis
    unfolding parse_block_attributes_def p option.case by auto
next
  case False
  then have "strip_prefix content ''['' = None \<or>
      (\<exists>rest. strip_prefix content ''['' = Some rest \<and> strip_suffix rest '']'' = None)"
    by (cases "strip_prefix content ''[''"; cases "strip_suffix (the (strip_prefix content ''['')) '']''")
      (auto simp: strip_prefix_Some strip_suffix_Some)
  then show ?thesis by (auto simp: parse_block_attributes_def)
qed

lemma parse_block_attributes_total: "\<exists>res. parse_block_attributes content base = Inr res"
  using parse_block_attributes_result by blast

lemma parse_math_attribute_total: "\<exists>res. parse_math_attribute content = Inr res"
  using parse_block_attributes_total [of content 0] by (auto simp: parse_math_attribute_def)

text \<open>The recognizers panic only where the offsets of the line do not fit the source model.\<close>

definition line_fits :: "str \<Rightarrow> nat \<Rightarrow> TextRange \<Rightarrow> bool" where
  "line_fits content start full \<longleftrightarrow>
     range_start full \<le> start \<and> start + length content \<le> range_end full \<and> range_end full \<le> u32_max"

lemma trim_matches_lead:
  "length s - length (trim_start_matches pat s) + length (trim_matches pat s) \<le> length s"
  using length_trim_end_matches [of pat "trim_start_matches pat s"]
    length_dropWhile_le [of "\<lambda>b. List.member pat b" s]
  unfolding trim_matches_def trim_start_matches_def by linarith

lemma parse_line_total:
  assumes "line_fits content start full"
  shows "\<exists>res. parse_line content start full = Inr res"
proof (cases "strip_prefix content '':''")
  case None
  then show ?thesis unfolding parse_line_def by simp
next
  case p: (Some inner)
  then have c: "content = CHR '':'' # inner" by (simp add: strip_prefix_Some)
  show ?thesis
  proof (cases "find_char (CHR '':'') inner")
    case None
    show ?thesis unfolding parse_line_def p option.case None by simp
  next
    case d: (Some delimiter)
  obtain name unset where split: "split_unset (take delimiter inner) = (name, unset)" by force
  have dl: "delimiter < length inner" using d by (rule find_char_length)
  have name: "(if starts_with (take delimiter inner) ''!'' then 1 else 0) + length name \<le> delimiter"
    using split dl
    by (cases delimiter)
      (auto simp: split_unset_def strip_prefix_def strip_suffix_def starts_with_def split: option.splits if_splits)
  let ?after = "drop (delimiter + 1) inner"
  let ?lead = "length ?after - length (trim_start_matches space_or_tab ?after)"
  have trim: "?lead + length (trim_matches space_or_tab ?after) \<le> length ?after" by (rule trim_matches_lead)
  have len: "length content = 1 + length inner" "length ?after = length inner - (delimiter + 1)"
    using c by simp_all
  let ?vs = "start + 1 + delimiter + 1 + ?lead"
  let ?no = "1 + (if starts_with (take delimiter inner) ''!'' then 1 else 0)"
  have fits: "range_end full \<le> u32_max" "start + length content \<le> range_end full"
    using assms by (simp_all add: line_fits_def)
  have ends: "?no + length name \<le> length content"
    "1 + delimiter + 1 + ?lead + length (trim_matches space_or_tab ?after) \<le> length content"
    using dl name trim len by (simp_all split: if_splits)
  have ranges:
    "attribute_range (start + ?no) (start + ?no + length name)
      = Inr \<lparr>range_start = start + ?no, range_end = start + ?no + length name\<rparr>"
    "attribute_range ?vs (?vs + length (trim_matches space_or_tab ?after))
      = Inr \<lparr>range_start = ?vs, range_end = ?vs + length (trim_matches space_or_tab ?after)\<rparr>"
    "attribute_range ?vs (range_end full) = Inr \<lparr>range_start = ?vs, range_end = range_end full\<rparr>"
    "attribute_range ?vs ?vs = Inr \<lparr>range_start = ?vs, range_end = ?vs\<rparr>"
    "attribute_range (start + length content) (range_end full)
      = Inr \<lparr>range_start = start + length content, range_end = range_end full\<rparr>"
    using fits ends by (auto intro!: attribute_range_ok)
  show ?thesis
    unfolding parse_line_def p option.case d split Let_def prod.case ranges and_then_Inr
    by (simp split: prod.splits)
  qed
qed

lemma run_recognizer_total:
  assumes "line_fits (input_content i) (content_start i) (input_full_range i)"
  shows "\<exists>res. run_recognizer i r = Inr res"
  using parse_block_attributes_total [of "input_content i" "content_start i"]
    parse_math_attribute_total [of "input_content i"] parse_line_total [OF assms]
  by (cases r) (auto simp: run_recognizer_def Let_def line_if_def)

lemma first_recognized_cases:
  assumes "\<And>r. \<exists>res. run_recognizer i r = Inr res"
  shows "\<exists>l. first_recognized i rs = Inr l
    \<and> ((\<exists>k < length rs. run_recognizer i (rs ! k) = Inr (Some l)
          \<and> (\<forall>j < k. run_recognizer i (rs ! j) = Inr None))
       \<or> l = Paragraph_line \<and> (\<forall>r \<in> set rs. run_recognizer i r = Inr None))"
proof (induction rs)
  case (Cons r rs)
  obtain res where res: "run_recognizer i r = Inr res" using assms by blast
  show ?case
  proof (cases res)
    case None
    from Cons.IH obtain l where l: "first_recognized i rs = Inr l" and
      "(\<exists>k < length rs. run_recognizer i (rs ! k) = Inr (Some l)
          \<and> (\<forall>j < k. run_recognizer i (rs ! j) = Inr None))
       \<or> l = Paragraph_line \<and> (\<forall>r \<in> set rs. run_recognizer i r = Inr None)" by blast
    then consider k where "k < length rs" "run_recognizer i (rs ! k) = Inr (Some l)"
        "\<forall>j < k. run_recognizer i (rs ! j) = Inr None"
      | "l = Paragraph_line" "\<forall>r \<in> set rs. run_recognizer i r = Inr None" by blast
    then show ?thesis
    proof cases
      case 1
      with res None have "\<forall>j < Suc k. run_recognizer i ((r # rs) ! j) = Inr None"
        by (auto simp: less_Suc_eq_0_disj)
      with 1 res None l show ?thesis
        by (intro exI [of _ l]) (auto intro!: exI [of _ "Suc k"])
    next
      case 2
      with res None l show ?thesis by auto
    qed
  next
    case (Some l)
    with res show ?thesis by (intro exI [of _ l]) (auto intro!: exI [of _ 0])
  qed
qed simp

lemma trailing_whitespace_total:
  "length content \<le> u32_max \<Longrightarrow> \<exists>b. trailing_whitespace_is_structural content = Inr b"
  using parse_block_attributes_total [of "trim_end_matches space_or_tab content" 0]
    parse_math_attribute_total [of "trim_end_matches space_or_tab content"]
    length_trim_end_matches [of space_or_tab content]
  by (auto simp: trailing_whitespace_is_structural_def Let_def attribute_range_ok)

text \<open>A list marker lies inside its line.\<close>

definition description_marker_at :: "nat \<Rightarrow> str \<Rightarrow> ParsedListMarker \<Rightarrow> bool" where
  "description_marker_at offset s m \<longleftrightarrow>
     offset \<le> marker_start m \<and> marker_start m < marker_end m \<and> marker_end m \<le> text_start m
     \<and> text_start m \<le> offset + length s \<and> marker_kind m = Description \<and> 0 < marker_start m
     \<and> 1 \<le> marker_depth m \<and> marker_depth m \<le> 3"

lemma description_marker_bounds:
  assumes "description_marker offset s = Some m"
  shows "description_marker_at offset s m"
  using assms
proof (induction s arbitrary: offset)
  case (Cons b s)
  define width where "width = (if b = CHR '':'' \<and> starts_with (b # s) ''::::'' then 4
            else if b = CHR '':'' \<and> starts_with (b # s) '':::'' then 3 else 2 :: nat)"
  define here where "here \<longleftrightarrow>
    (b = CHR '':'' \<and> starts_with (b # s) ''::'' \<or> b = CHR '';'' \<and> starts_with (b # s) '';;'')
    \<and> offset \<noteq> 0 \<and> (drop width (b # s) = [] \<or> is_blank (hd (drop width (b # s))))"
  show ?case
  proof (cases here)
    case False
    then have rest: "description_marker (offset + 1) s = Some m"
      using Cons.prems unfolding description_marker.simps Let_def width_def [symmetric] here_def
      by (simp split: if_splits)
    from Cons.IH [OF rest] show ?thesis by (auto simp: description_marker_at_def)
  next
    case True
    have len: "width \<le> length (b # s)"
      using True starts_with_length [of "b # s"] by (fastforce simp: width_def here_def)
    from True Cons.prems have m: "m = \<lparr>marker_kind = Description, marker_depth = width - 1,
        marker_start = offset, marker_end = offset + width, explicit_number = AbsentNumber,
        text_start = offset + width + (if drop width (b # s) = [] then 0 else 1),
        term_end = Some offset, callout_id = None\<rparr>"
      unfolding description_marker.simps Let_def width_def [symmetric] here_def by (simp split: if_splits)
    have "2 \<le> width" "width \<le> 4" by (auto simp: width_def)
    moreover have "drop width (b # s) \<noteq> [] \<Longrightarrow> width < length (b # s)"
      by (metis drop_eq_Nil not_less)
    ultimately show ?thesis
      using True len unfolding m description_marker_at_def here_def by auto
  qed
qed simp

section \<open>Properties\<close>

text \<open>C30. Parsing block attributes never panics, and every range of the result stands for its
  text: an id, a role or an option is the text of its range, and the value of an attribute is
  the unquoted text of its range, or of what follows its equals sign.\<close>

theorem block_attributes_denote_source:
  "\<exists>res. parse_block_attributes content base = Inr res
    \<and> (\<forall>m. res = Some m \<longrightarrow> metadata_denotes content base m)"
  by (rule parse_block_attributes_result)

theorem block_attributes_denote_source_witness:
  "\<exists>m. parse_block_attributes ''[quote#a.b]'' 3 = Inr (Some m) \<and> metadata_denotes ''[quote#a.b]'' 3 m"
proof -
  have "case parse_block_attributes ''[quote#a.b]'' 3 of Inr (Some _) \<Rightarrow> True | _ \<Rightarrow> False" by code_simp
  with block_attributes_denote_source [of "''[quote#a.b]''" 3] show ?thesis
    by (auto split: option.splits)
qed



end
