(* ===== verification/Formatter.thy ===== *)
theory Formatter
  imports Syntax_Tree Diagnostics Block_Grammar
begin

text \<open>
  \<open>formatter.rs\<close>: the edits that remove trailing blanks and surplus blank lines and unify line
  endings, and the text they give. The theorems relate them to a reference that writes the
  formatted text line by line.
\<close>

section \<open>Configuration and results\<close>

datatype NewlineStyle = StyleLf | StyleCrLf

definition newline_text :: "NewlineStyle \<Rightarrow> str" where
  "newline_text n = (case n of StyleLf \<Rightarrow> [line_feed] | StyleCrLf \<Rightarrow> [carriage_return, line_feed])"

record FormatConfig =
  newline :: NewlineStyle
  final_newline :: bool
  max_consecutive_blank_lines :: nat

definition FormatConfig_default :: FormatConfig where
  "FormatConfig_default =
     \<lparr>newline = StyleLf, final_newline = True, max_consecutive_blank_lines = 1\<rparr>"

record FormatOutput =
  formatted :: str
  format_edits :: "TextEdit list"

definition format_changed :: "FormatOutput \<Rightarrow> bool" where
  "format_changed out \<longleftrightarrow> format_edits out \<noteq> []"

datatype FormatError = FormatCancelled | FormatPosition PositionError

section \<open>Formatting\<close>

definition ranges_overlap :: "TextRange \<Rightarrow> TextRange \<Rightarrow> bool" where
  "ranges_overlap left right \<longleftrightarrow>
     range_start left < range_end right \<and> range_start right < range_end left"

definition overlaps_any :: "TextRange list \<Rightarrow> TextRange \<Rightarrow> bool" where
  "overlaps_any protected r = list_ex (\<lambda>p. ranges_overlap p r) protected"

definition format_range :: "nat \<Rightarrow> nat \<Rightarrow> FormatError failure + TextRange" where
  "format_range a b = map_err (\<lambda>e. Err (FormatPosition e)) (text_range a b)"

text \<open>Whether an attribute entry follows a blank line, comment lines aside.\<close>

fun blank_offsets_loop ::
    "cancel_host \<Rightarrow> SourceDocument \<Rightarrow> nat set \<Rightarrow> SourceLine list \<Rightarrow> CancellationCheckpoint
     \<Rightarrow> FormatError failure + (bool \<times> CancellationCheckpoint)" where
  "blank_offsets_loop host d starts [] c = Inr (False, c)"
| "blank_offsets_loop host d starts (l # ls) c =
     (let (cancelled, c) = checkpoint_is_cancelled host c in
      if cancelled then Inl (Err FormatCancelled)
      else and_then (expect (sd_text d (content_range l))) (\<lambda>content.
        if starts_with content ''//'' then blank_offsets_loop host d starts ls c
        else Inr (range_start (full_range l) \<in> starts, c)))"

definition blank_offsets_document_attribute ::
    "cancel_host \<Rightarrow> SourceDocument \<Rightarrow> nat \<Rightarrow> nat set \<Rightarrow> CancellationCheckpoint
     \<Rightarrow> FormatError failure + (bool \<times> CancellationCheckpoint)" where
  "blank_offsets_document_attribute host d blank_index starts c =
     blank_offsets_loop host d starts (drop (blank_index + 1) (sd_lines d)) c"

text \<open>\<open>rposition\<close>: the index of the last element that satisfies a test.\<close>

definition rposition :: "('a \<Rightarrow> bool) \<Rightarrow> 'a list \<Rightarrow> nat option" where
  "rposition p xs =
     (case filter (\<lambda>i. p (xs ! i)) [0..<length xs] of [] \<Rightarrow> None | is \<Rightarrow> Some (last is))"

text \<open>The edit that removes the blanks before the ending of a line.\<close>

definition trailing_edit :: "SourceLine \<Rightarrow> str \<Rightarrow> FormatError failure + TextEdit list" where
  "trailing_edit l content =
     (let trimmed = trim_end_matches space_or_tab content in
      if length trimmed \<noteq> length content then
        and_then (map_err (\<lambda>_. Panic) (trailing_whitespace_is_structural content)) (\<lambda>structural.
          if structural then Inr []
          else and_then (format_range (range_start (content_range l) + length trimmed)
                           (range_end (content_range l))) (\<lambda>r.
            Inr [\<lparr>edit_range = r, replacement = []\<rparr>]))
      else Inr [])"

text \<open>The edit that unifies the ending of a line.\<close>

definition ending_edit ::
    "SourceDocument \<Rightarrow> FormatConfig \<Rightarrow> nat option \<Rightarrow> nat \<Rightarrow> SourceLine \<Rightarrow> FormatError failure + TextEdit list" where
  "ending_edit d cfg last_real_line i l =
     (if ending_kind l \<noteq> NoEnding then
        let wanted = (if last_real_line = Some i \<and> \<not> final_newline cfg then []
              else newline_text (newline cfg))
        in and_then (expect (sd_text d (ending_range l))) (\<lambda>current.
          Inr (if current \<noteq> wanted then [\<lparr>edit_range = ending_range l, replacement = wanted\<rparr>] else []))
      else Inr [])"

text \<open>One iteration of the loop over the lines: the edits it pushes and the blank count.\<close>

definition format_line ::
    "cancel_host \<Rightarrow> SourceDocument \<Rightarrow> FormatConfig \<Rightarrow> TextRange list \<Rightarrow> nat set \<Rightarrow> nat option
     \<Rightarrow> nat \<times> SourceLine \<Rightarrow> nat \<Rightarrow> CancellationCheckpoint
     \<Rightarrow> FormatError failure + (TextEdit list \<times> nat \<times> CancellationCheckpoint)" where
  "format_line host d cfg protected starts last_real_line il blank_count c =
     (let (i, l) = il; (cancelled, c) = checkpoint_is_cancelled host c in
      if cancelled then Inl (Err FormatCancelled)
      else if overlaps_any protected (full_range l) then Inr ([], 0, c)
      else and_then (expect (sd_text d (content_range l))) (\<lambda>content.
        let virtual_final = (range_is_empty (full_range l) \<and> ending_kind l = NoEnding);
            blank = (trim_matches space_or_tab content = [])
        in and_then (if blank then blank_offsets_document_attribute host d i starts c else Inr (False, c))
             (\<lambda>(required_attribute_offset, c).
           let blank_count = (if blank \<and> \<not> virtual_final then blank_count + 1 else 0) in
           if blank \<and> \<not> virtual_final \<and> max_consecutive_blank_lines cfg < blank_count
                \<and> \<not> required_attribute_offset
           then Inr ([\<lparr>edit_range = full_range l, replacement = []\<rparr>], blank_count, c)
           else and_then (trailing_edit l content) (\<lambda>trailing.
             and_then (ending_edit d cfg last_real_line i l) (\<lambda>ending.
               Inr (trailing @ ending, blank_count, c))))))"

fun format_loop ::
    "cancel_host \<Rightarrow> SourceDocument \<Rightarrow> FormatConfig \<Rightarrow> TextRange list \<Rightarrow> nat set \<Rightarrow> nat option
     \<Rightarrow> (nat \<times> SourceLine) list \<Rightarrow> TextEdit list \<Rightarrow> nat \<Rightarrow> CancellationCheckpoint
     \<Rightarrow> FormatError failure + (TextEdit list \<times> CancellationCheckpoint)" where
  "format_loop host d cfg protected starts last_real_line [] edits blank_count c = Inr (edits, c)"
| "format_loop host d cfg protected starts last_real_line (il # ils) edits blank_count c =
     and_then (format_line host d cfg protected starts last_real_line il blank_count c)
       (\<lambda>(new, blank_count, c).
         format_loop host d cfg protected starts last_real_line ils (edits @ new) blank_count c)"

text \<open>The edit that ends the last line.\<close>

definition final_edit ::
    "SourceDocument \<Rightarrow> FormatConfig \<Rightarrow> TextRange list \<Rightarrow> nat option \<Rightarrow> FormatError failure + TextEdit list" where
  "final_edit d cfg protected last_real_line =
     (let source = sd_source d in
      if final_newline cfg \<and> source \<noteq> [] \<and> \<not> ends_with source [line_feed]
         \<and> (case last_real_line of
              None \<Rightarrow> False
            | Some i \<Rightarrow> \<not> overlaps_any protected (full_range (sd_lines d ! i)))
      then and_then (format_range (length source) (length source)) (\<lambda>r.
             Inr [\<lparr>edit_range = r, replacement = newline_text (newline cfg)\<rparr>])
      else Inr [])"

text \<open>The loop over the edits in reverse.\<close>

fun apply_edits_loop ::
    "cancel_host \<Rightarrow> str \<Rightarrow> TextEdit list \<Rightarrow> CancellationCheckpoint
     \<Rightarrow> FormatError failure + (str \<times> CancellationCheckpoint)" where
  "apply_edits_loop host out [] c = Inr (out, c)"
| "apply_edits_loop host out (e # es) c =
     (let (cancelled, c) = checkpoint_is_cancelled host c in
      if cancelled then Inl (Err FormatCancelled)
      else and_then (expect (replace_range out (edit_range e) (replacement e))) (\<lambda>out.
        apply_edits_loop host out es c))"

definition apply_edits ::
    "cancel_host \<Rightarrow> str \<Rightarrow> TextEdit list \<Rightarrow> CancellationCheckpoint
     \<Rightarrow> FormatError failure + (str \<times> CancellationCheckpoint)" where
  "apply_edits host source edits c = apply_edits_loop host source (rev edits) c"

definition format_syntax ::
    "cancel_host \<Rightarrow> nat \<Rightarrow> SyntaxTree \<Rightarrow> FormatConfig \<Rightarrow> FormatError failure + FormatOutput" where
  "format_syntax host q t cfg =
     (let (cancelled, c) = checkpoint_is_cancelled_now host (checkpoint_new q) in
      if cancelled then Inl (Err FormatCancelled)
      else
        let d = tree_source t;
            protected = formatting_protected_ranges t;
            starts = set (map (\<lambda>n. range_start (node_range n)) (tree_nodes DocumentAttribute t));
            last_real_line = rposition (\<lambda>l. \<not> range_is_empty (full_range l)) (sd_lines d)
        in and_then (format_loop host d cfg protected starts last_real_line
                       (enumerate 0 (sd_lines d)) [] 0 c) (\<lambda>(edits, c).
           and_then (final_edit d cfg protected last_real_line) (\<lambda>ending.
           and_then (map_err (\<lambda>_. Panic) (Fix_new ''format document'' Always (edits @ ending))) (\<lambda>f.
           and_then (apply_edits host (sd_source d) (fix_edits f) c) (\<lambda>(out, c).
             Inr \<lparr>formatted = out, format_edits = fix_edits f\<rparr>)))))"

section \<open>The reference\<close>

text \<open>Formatting without edits: every line is written as it should be.\<close>

definition line_slice :: "str \<Rightarrow> TextRange \<Rightarrow> str" where
  "line_slice s r = slice s (range_start r) (range_end r)"

definition blank_line :: "str \<Rightarrow> bool" where
  "blank_line content \<longleftrightarrow> list_all is_blank content"

definition before_attribute :: "str \<Rightarrow> nat set \<Rightarrow> SourceLine list \<Rightarrow> bool" where
  "before_attribute s starts ls \<longleftrightarrow>
     (case dropWhile (\<lambda>l. starts_with (line_slice s (content_range l)) ''//'') ls of
        [] \<Rightarrow> False | l # _ \<Rightarrow> range_start (full_range l) \<in> starts)"

definition tidy_content :: "str \<Rightarrow> str" where
  "tidy_content content =
     (if trailing_whitespace_is_structural content = Inr True then content
      else trim_end_matches space_or_tab content)"

text \<open>What becomes of a line, given how many blank lines precede it and the lines after it.\<close>

definition tidy_line ::
    "str \<Rightarrow> FormatConfig \<Rightarrow> TextRange list \<Rightarrow> nat set \<Rightarrow> bool \<Rightarrow> SourceLine \<Rightarrow> SourceLine list \<Rightarrow> nat
     \<Rightarrow> str \<times> nat" where
  "tidy_line s cfg protected starts is_last l ls blank_count =
     (let content = line_slice s (content_range l) in
      if overlaps_any protected (full_range l) then (line_slice s (full_range l), 0)
      else if range_is_empty (full_range l) then ([], 0)
      else if blank_line content \<and> max_consecutive_blank_lines cfg < blank_count + 1
           \<and> \<not> before_attribute s starts ls
      then ([], blank_count + 1)
      else (tidy_content content
              @ (if ending_kind l = NoEnding \<or> is_last \<and> \<not> final_newline cfg then []
                 else newline_text (newline cfg)),
            if blank_line content then blank_count + 1 else 0))"

text \<open>\<open>last_line\<close> is the index of the last line that is not empty, counted from \<open>i\<close>.\<close>

fun tidy_lines ::
    "str \<Rightarrow> FormatConfig \<Rightarrow> TextRange list \<Rightarrow> nat set \<Rightarrow> nat option \<Rightarrow> nat \<Rightarrow> SourceLine list \<Rightarrow> nat \<Rightarrow> str" where
  "tidy_lines s cfg protected starts last_line i [] blank_count = []"
| "tidy_lines s cfg protected starts last_line i (l # ls) blank_count =
     (let (w, blank_count) = tidy_line s cfg protected starts (last_line = Some i) l ls blank_count
      in w @ tidy_lines s cfg protected starts last_line (Suc i) ls blank_count)"

section \<open>Edits inside a span\<close>

fun edits_within :: "nat \<Rightarrow> TextEdit list \<Rightarrow> nat \<Rightarrow> bool" where
  "edits_within a [] b \<longleftrightarrow> a \<le> b"
| "edits_within a (e # es) b \<longleftrightarrow>
     a \<le> range_start (edit_range e) \<and> range_start (edit_range e) \<le> range_end (edit_range e)
     \<and> edits_within (range_end (edit_range e)) es b"

lemma edits_within_le: "edits_within a es b \<Longrightarrow> a \<le> b"
  by (induction a es b rule: edits_within.induct) auto

lemma edits_within_append:
  "edits_within a xs b \<Longrightarrow> edits_within b ys c \<Longrightarrow> edits_within a (xs @ ys) c"
proof (induction a xs b rule: edits_within.induct)
  case (1 a b)
  then show ?case by (cases ys) auto
qed auto

lemma edits_within_ordered: "edits_within a es b \<Longrightarrow> ordered_edits a es"
  by (induction a es b rule: edits_within.induct) auto

lemma edits_within_ranges:
  "edits_within a es b \<Longrightarrow> e \<in> set es \<Longrightarrow>
     a \<le> range_start (edit_range e) \<and> range_start (edit_range e) \<le> range_end (edit_range e)
     \<and> range_end (edit_range e) \<le> b"
  by (induction a es b rule: edits_within.induct) (auto dest: edits_within_le)

lemma splice_within:
  assumes "edits_within a xs b" and "edits_within b ys c" and "b \<le> length s"
  shows "splice s a (xs @ ys) = splice (take b s) a xs @ splice s b ys"
  using assms
proof (induction a xs b rule: edits_within.induct)
  case (1 a b)
  have split: "a \<le> m \<Longrightarrow> m \<le> b \<Longrightarrow> slice s a b = slice s a m @ slice s m b" for m
    by (simp add: slice_append_slice)
  have take: "drop a (take b s) = slice s a b" by (simp add: slice_def drop_take)
  show ?case
  proof (cases ys)
    case Nil
    have "drop a s = slice s a b @ drop b s"
      using 1(1) slice_append_slice [of a b "length s" s] 1(3) by (simp add: slice_to_end)
    with Nil take show ?thesis by simp
  next
    case (Cons y ys')
    with 1 have "slice s a (range_start (edit_range y)) = slice s a b @ slice s b (range_start (edit_range y))"
      by (simp add: slice_append_slice)
    with Cons take show ?thesis by simp
  qed
next
  case (2 a e es b)
  then have "range_start (edit_range e) \<le> b" by (auto dest: edits_within_le)
  then have "slice (take b s) a (range_start (edit_range e)) = slice s a (range_start (edit_range e))"
    by (simp add: slice_def drop_take min_def)
  with 2 show ?case by simp
qed

section \<open>Layout bytes\<close>

definition is_layout :: "char \<Rightarrow> bool" where
  "is_layout b \<longleftrightarrow> is_blank b \<or> b = carriage_return \<or> b = line_feed"

text \<open>What a reader sees: the text without blanks and line ends.\<close>

definition visible :: "str \<Rightarrow> str" where
  "visible s = filter (\<lambda>b. \<not> is_layout b) s"

lemma visible_append [simp]: "visible (s @ t) = visible s @ visible t"
  by (simp add: visible_def)

lemma visible_layout: "list_all is_layout s \<Longrightarrow> visible s = []"
  by (auto simp: visible_def filter_empty_conv list_all_iff)

definition layout_edit :: "str \<Rightarrow> TextEdit \<Rightarrow> bool" where
  "layout_edit s e \<longleftrightarrow>
     list_all is_layout (line_slice s (edit_range e)) \<and> list_all is_layout (replacement e)"

lemma visible_splice:
  assumes "edits_within a es b" and "b \<le> length s" and "\<forall>e \<in> set es. layout_edit s e"
  shows "visible (splice (take b s) a es) = visible (slice s a b)"
  using assms
proof (induction a es b rule: edits_within.induct)
  case (1 a b)
  then show ?case by (simp add: slice_def drop_take)
next
  case (2 a e es b)
  let ?p = "range_start (edit_range e)" and ?q = "range_end (edit_range e)"
  from 2 have e: "a \<le> ?p" "?p \<le> ?q" "?q \<le> b" by (auto dest: edits_within_le)
  then have "slice s a b = slice s a ?p @ slice s ?p ?q @ slice s ?q b"
    by (simp add: slice_append_slice)
  moreover have "visible (slice s ?p ?q) = []" "visible (replacement e) = []"
    using 2(4) by (auto simp: layout_edit_def line_slice_def intro!: visible_layout)
  moreover have "slice (take b s) a ?p = slice s a ?p"
    using e by (simp add: slice_def drop_take min_def)
  ultimately show ?case using 2 by simp
qed

text \<open>A span that no edit touches stays as it is, between what becomes of the text around it.\<close>

lemma splice_around:
  assumes "edits_within a es b" and "b \<le> length s" and "a \<le> p" and "p < q" and "q \<le> b"
    and "\<forall>e \<in> set es. range_end (edit_range e) \<le> p \<or> q \<le> range_start (edit_range e)"
  shows "\<exists>xs ys. es = xs @ ys \<and> edits_within a xs p \<and> edits_within q ys b
    \<and> splice (take b s) a es = splice (take p s) a xs @ slice s p q @ splice (take b s) q ys"
  using assms
proof (induction a es b rule: edits_within.induct)
  case (1 a b)
  then have "slice s a b = slice s a p @ slice s p q @ slice s q b" by (simp add: slice_append_slice)
  with 1 show ?case by (simp add: slice_def drop_take)
next
  case (2 a e es b)
  let ?i = "range_start (edit_range e)" and ?j = "range_end (edit_range e)"
  from 2 have e: "a \<le> ?i" "?i \<le> ?j" "edits_within ?j es b" "?j \<le> b" by (auto dest: edits_within_le)
  show ?case
  proof (cases "?j \<le> p")
    case True
    with 2 e obtain xs ys where "es = xs @ ys" "edits_within ?j xs p" "edits_within q ys b"
      "splice (take b s) ?j es = splice (take p s) ?j xs @ slice s p q @ splice (take b s) q ys"
      by auto
    moreover have "slice (take b s) a ?i = slice (take p s) a ?i"
      using e True 2 by (simp add: slice_def drop_take min_def)
    ultimately show ?thesis
      using e by (intro exI [of _ "e # xs"] exI [of _ ys]) simp
  next
    case False
    with 2 have i: "q \<le> ?i" by auto
    then have "slice s a ?i = slice s a p @ slice s p q @ slice s q ?i"
      using 2 by (simp add: slice_append_slice)
    moreover have "slice (take b s) a ?i = slice s a ?i" "slice (take b s) q ?i = slice s q ?i"
      using e by (simp_all add: slice_def drop_take min_def)
    ultimately show ?thesis
      using e i 2(4) by (intro exI [of _ "[]"] exI [of _ "e # es"]) (simp add: slice_def drop_take)
  qed
qed

section \<open>Lines of the text\<close>

lemma terminated_endings:
  "terminated s base a L b \<Longrightarrow> l \<in> set L \<Longrightarrow>
     \<exists>x c e k. l = line_of base x c e k \<and> c < length s \<and> line_ending_at s c = Some (e, k)"
  by (induction L arbitrary: a) auto

lemma line_ending_layout:
  assumes "line_ending_at s c = Some (e, k)" and "c < length s"
  shows "list_all is_layout (slice s c e)"
proof -
  have "i < e - c \<Longrightarrow> is_layout (s ! (c + i))" for i
    using assms
    by (auto simp: line_ending_at_def is_layout_def less_Suc_eq numeral_2_eq_2 split: if_splits)
  then show ?thesis
    using line_ending_at_facts(2) [OF assms] by (auto simp: list_all_length slice_def)
qed

text \<open>The lines from one on tile the rest of the text.\<close>

fun lines_from :: "str \<Rightarrow> nat \<Rightarrow> SourceLine list \<Rightarrow> bool" where
  "lines_from s a [] \<longleftrightarrow> a = length s"
| "lines_from s a (l # ls) \<longleftrightarrow>
     (\<exists>c e k. l = line_of 0 a c e k \<and> a \<le> c \<and> c \<le> e \<and> e \<le> length s
        \<and> char_boundary s a \<and> char_boundary s c \<and> char_boundary s e
        \<and> (k = NoEnding \<longleftrightarrow> c = e) \<and> list_all is_layout (slice s c e) \<and> lines_from s e ls)"

lemma terminated_lines_from:
  assumes "valid_utf8 s" and "terminated s 0 a L b" and "char_boundary s a" and "lines_from s b M"
  shows "lines_from s a (L @ M)"
  using assms(2,3)
proof (induction L arbitrary: a)
  case Nil
  with assms(4) show ?case by simp
next
  case (Cons l L)
  then obtain c e k where l: "a \<le> c" "c < length s" "line_ending_at s c = Some (e, k)"
    "l = line_of 0 a c e k" "terminated s 0 e L b" by auto
  note facts = line_ending_at_facts [OF l(3,2)]
  have "lines_from s e (L @ M)" using Cons.IH [OF l(5)] facts(5) assms(1) by blast
  with l facts Cons.prems(2) line_ending_layout [OF l(3,2)] assms(1)
  show ?case unfolding append_Cons lines_from.simps
    by (intro exI [of _ c] exI [of _ e] exI [of _ k]) simp
qed

lemma well_indexed_lines_from:
  assumes "valid_utf8 s" and "well_indexed s 0 d"
  shows "lines_from s 0 (sd_lines d)"
proof -
  obtain init b where L: "sd_lines d = init @ [line_of 0 b (length s) (length s) NoEnding]"
    "terminated s 0 0 init b" "b \<le> length s" "char_boundary s b"
    using assms(2) by (auto simp: well_indexed_def)
  have "lines_from s b [line_of 0 b (length s) (length s) NoEnding]"
    using L(3,4) by (auto intro!: exI [of _ "length s"] exI [of _ NoEnding])
  from terminated_lines_from [OF assms(1) L(2) char_boundary_0 this] L(1) show ?thesis by simp
qed

lemma blank_line_layout: "blank_line w \<Longrightarrow> list_all is_layout w"
  by (auto simp: blank_line_def is_layout_def list_all_iff)

lemma space_or_tab_member [simp]: "b \<in> set space_or_tab \<longleftrightarrow> is_blank b"
  by (auto simp: space_or_tab_def is_blank_def)

lemma blank_line_trim: "trim_matches space_or_tab w = [] \<longleftrightarrow> blank_line w"
proof
  assume "blank_line w"
  then show "trim_matches space_or_tab w = []"
    by (auto simp: trim_matches_def trim_start_matches_def trim_end_matches_def blank_line_def
        list_all_iff dropWhile_eq_Nil_conv dest!: set_dropWhileD)
next
  assume "trim_matches space_or_tab w = []"
  then have "\<forall>b \<in> set (trim_start_matches space_or_tab w). is_blank b"
    unfolding trim_matches_def trim_end_matches_def by (simp add: dropWhile_eq_Nil_conv)
  moreover obtain lead where "w = lead @ trim_start_matches space_or_tab w" "\<forall>b \<in> set lead. is_blank b"
    using trim_start_matches_split [of w space_or_tab] by auto
  ultimately show "blank_line w"
    unfolding blank_line_def list_all_iff by (metis Un_iff set_append)
qed

section \<open>What one line becomes\<close>

lemma blank_offsets_loop_result:
  assumes "lines_from s a ls" and "sd_source d = s" and "sd_base d = 0"
  shows "case blank_offsets_loop host d starts ls c of
      Inl e \<Rightarrow> e = Err FormatCancelled \<and> (\<exists>q. host q)
    | Inr (b, c') \<Rightarrow> b = before_attribute s starts ls"
  using assms(1)
proof (induction ls arbitrary: a c)
  case Nil
  then show ?case by (simp add: before_attribute_def)
next
  case (Cons l ls)
  then obtain x e k where l: "l = line_of 0 a x e k" "a \<le> x" "x \<le> e" "e \<le> length s"
    "char_boundary s a" "char_boundary s x" "lines_from s e ls" by auto
  obtain cancelled c1 where c: "checkpoint_is_cancelled host c = (cancelled, c1)" by force
  show ?case
  proof (cases cancelled)
    case True
    with c show ?thesis by (auto dest: is_cancelled_host)
  next
    case False
    have "sd_text d (content_range l) = Some (slice s a x)"
      using l assms(2,3) by (simp add: sd_text_def str_get_def)
    moreover have "line_slice s (content_range l) = slice s a x" using l by (simp add: line_slice_def)
    ultimately show ?thesis
      using False c Cons.IH [OF l(7), of c1]
      by (auto simp: before_attribute_def expect_def split: sum.splits)
  qed
qed

text \<open>What an iteration must deliver for the line \<open>l\<close> of the text.\<close>

definition line_done ::
    "str \<Rightarrow> TextRange list \<Rightarrow> SourceLine \<Rightarrow> TextEdit list \<Rightarrow> str \<Rightarrow> bool" where
  "line_done s protected l es w \<longleftrightarrow>
     (let a = range_start (full_range l); e = range_end (full_range l) in
      edits_within a es e \<and> splice (take e s) a es = w
      \<and> (\<forall>x \<in> set es. edit_inside s x \<and> layout_edit s x
            \<and> range_start (edit_range x) < range_end (edit_range x))
      \<and> (es \<noteq> [] \<longrightarrow> \<not> overlaps_any protected (full_range l)))"

lemma newline_layout: "list_all is_layout (newline_text n)" "valid_utf8 (newline_text n)"
  by (cases n; simp add: newline_text_def is_layout_def str_eval)+

lemma trailing_edit_result:
  assumes "l = line_of 0 a x e k" and "a \<le> x" and "x \<le> e" and "e \<le> length s"
    and "char_boundary s a" and "char_boundary s x" and "valid_utf8 s" and "length s \<le> u32_max"
  defines "content \<equiv> slice s a x"
  shows "\<exists>es. trailing_edit l content = Inr es \<and> edits_within a es x
    \<and> splice (take x s) a es = tidy_content content
    \<and> (\<forall>y \<in> set es. edit_inside s y \<and> layout_edit s y
          \<and> range_start (edit_range y) < range_end (edit_range y))"
proof -
  let ?t = "trim_end_matches space_or_tab content"
  have len: "length content = x - a" using assms by (simp add: content_def length_slice)
  have c: "drop a (take x s) = content" by (simp add: content_def slice_def drop_take)
  obtain tail where tail: "content = ?t @ tail" "\<forall>b \<in> set tail. is_blank b"
    using trim_end_matches_split [of content space_or_tab] by auto
  have "length content \<le> u32_max" using len assms(2,3,4,8) by linarith
  then obtain b where b: "trailing_whitespace_is_structural content = Inr b"
    using trailing_whitespace_total by blast
  show ?thesis
  proof (cases "length ?t = length content \<or> b")
    case True
    then have "tidy_content content = content"
      using b trim_end_matches_eq_take [of space_or_tab content] by (auto simp: tidy_content_def)
    moreover have "trailing_edit l content = Inr []"
      using True b by (auto simp: trailing_edit_def Let_def)
    ultimately show ?thesis using assms(2) c by simp
  next
    case False
    define m where "m = a + length ?t"
    have shorter: "length ?t < length content"
      using False length_trim_end_matches [of space_or_tab content] by linarith
    with len assms have m: "a \<le> m" "m < x" "m \<le> u32_max" "x \<le> u32_max"
      by (auto simp: m_def)
    let ?y = "\<lparr>edit_range = \<lparr>range_start = m, range_end = x\<rparr>, replacement = []\<rparr>"
    have r: "trailing_edit l content = Inr [?y]"
      using False b assms(1) m by (simp add: trailing_edit_def m_def format_range_def text_range_ok)
    have slices: "slice s a m = ?t" "slice s m x = tail"
    proof -
      have "content = slice s a m @ slice s m x"
        using m by (simp add: content_def slice_append_slice)
      moreover have "length (slice s a m) = length ?t"
        using m assms by (simp add: length_slice m_def)
      ultimately show "slice s a m = ?t" "slice s m x = tail" using tail(1) by (metis append_eq_append_conv)+
    qed
    have "tail \<noteq> []" using tail(1) shorter by auto
    have "is_blank (s ! m)"
    proof -
      have "hd tail = s ! m" using slices(2) m assms(3,4) hd_conv_nth [OF \<open>tail \<noteq> []\<close>]
        by (auto simp: slice_def)
      with tail(2) \<open>tail \<noteq> []\<close> show ?thesis by (metis hd_in_set)
    qed
    then have "char_boundary s m"
      using m assms by (auto simp: char_boundary_def is_blank_def is_continuation_def)
    then have "edit_inside s ?y" using m assms by (simp add: edit_inside_def str_eval)
    moreover have "layout_edit s ?y"
      using tail(2) slices(2) by (auto simp: layout_edit_def line_slice_def is_layout_def list_all_iff)
    moreover have "splice (take x s) a [?y] = tidy_content content"
    proof -
      have "slice (take x s) a m = slice s a m" using m by (simp add: slice_def drop_take min_def)
      with False b slices show ?thesis by (simp add: tidy_content_def)
    qed
    ultimately show ?thesis using r m by simp
  qed
qed

lemma ending_edit_result:
  assumes "l = line_of 0 a x e k" and "x \<le> e" and "e \<le> length s" and "char_boundary s x"
    and "char_boundary s e" and "k = NoEnding \<longleftrightarrow> x = e" and "list_all is_layout (slice s x e)"
    and "sd_source d = s" and "sd_base d = 0"
  shows "\<exists>es. ending_edit d cfg last_line i l = Inr es \<and> edits_within x es e
    \<and> splice (take e s) x es = (if k = NoEnding \<or> last_line = Some i \<and> \<not> final_newline cfg then []
          else newline_text (newline cfg))
    \<and> (\<forall>y \<in> set es. edit_inside s y \<and> layout_edit s y
          \<and> range_start (edit_range y) < range_end (edit_range y))"
proof (cases "k = NoEnding")
  case True
  with assms show ?thesis by (simp add: ending_edit_def)
next
  case False
  with assms(2,6) have "x < e" by simp
  have t: "sd_text d (ending_range l) = Some (slice s x e)"
    using assms by (simp add: sd_text_def str_get_def)
  have c: "drop x (take e s) = slice s x e" by (simp add: slice_def drop_take)
  have "list_all is_layout (newline_text (newline cfg))" "valid_utf8 (newline_text (newline cfg))"
    by (rule newline_layout)+
  moreover have "valid_utf8 []" by (simp add: str_eval)
  ultimately show ?thesis
    using False assms \<open>x < e\<close> t c
    by (auto simp: ending_edit_def edit_inside_def layout_edit_def line_slice_def expect_def Let_def)
qed

lemma line_done_append:
  assumes "edits_within a xs x" and "edits_within x ys e" and "x \<le> e" and "e \<le> length s"
    and "\<forall>y \<in> set xs \<union> set ys. edit_inside s y \<and> layout_edit s y
          \<and> range_start (edit_range y) < range_end (edit_range y)"
    and "\<not> overlaps_any protected (full_range (line_of 0 a x e k))"
  shows "line_done s protected (line_of 0 a x e k) (xs @ ys)
    (splice (take x s) a xs @ splice (take e s) x ys)"
proof -
  have "splice (take e s) a (xs @ ys) = splice (take x (take e s)) a xs @ splice (take e s) x ys"
    using assms by (intro splice_within [OF assms(1,2)]) simp
  moreover have "take x (take e s) = take x s" using assms(3) by (simp add: min_def)
  ultimately show ?thesis
    using assms edits_within_append [OF assms(1,2)] by (auto simp: line_done_def Let_def)
qed

lemma format_line_result:
  assumes "l = line_of 0 a x e k" and "a \<le> x" and "x \<le> e" and "e \<le> length s"
    and "char_boundary s a" and "char_boundary s x" and "char_boundary s e"
    and "k = NoEnding \<longleftrightarrow> x = e" and "list_all is_layout (slice s x e)"
    and "lines_from s e ls" and "valid_utf8 s" and "length s \<le> u32_max"
    and "sd_source d = s" and "sd_base d = 0" and "drop (Suc i) (sd_lines d) = ls"
  shows "case format_line host d cfg protected starts last_line (i, l) n c of
      Inl err \<Rightarrow> err = Err FormatCancelled \<and> (\<exists>q. host q)
    | Inr (es, n', c') \<Rightarrow>
        (let w = tidy_line s cfg protected starts (last_line = Some i) l ls n
         in line_done s protected l es (fst w) \<and> n' = snd w)"
proof -
  obtain cancelled c1 where c: "checkpoint_is_cancelled host c = (cancelled, c1)" by force
  let ?w = "slice s a x"
  have slices: "line_slice s (content_range l) = ?w" "line_slice s (full_range l) = slice s a e"
    using assms(1) by (simp_all add: line_slice_def)
  have whole: "splice (take e s) a [] = slice s a e" by (simp add: slice_def drop_take)
  show ?thesis
  proof (cases "cancelled \<or> overlaps_any protected (full_range l)")
    case True
    with c assms(1-4) slices whole show ?thesis
      by (auto simp: format_line_def tidy_line_def line_done_def Let_def dest: is_cancelled_host)
  next
    case False
    have t: "sd_text d (content_range l) = Some ?w"
      using assms by (simp add: sd_text_def str_get_def)
    have empty: "range_is_empty (full_range l) \<longleftrightarrow> a = e" "a = e \<Longrightarrow> k = NoEnding" "a = e \<Longrightarrow> ?w = []"
      using assms by (auto simp: range_is_empty_def slice_def)
    define off where "off = (if blank_line ?w then blank_offsets_document_attribute host d i starts c1
        else Inr (False, c1))"
    have off: "case off of Inl err \<Rightarrow> err = Err FormatCancelled \<and> (\<exists>q. host q)
        | Inr (b, c') \<Rightarrow> b = (blank_line ?w \<and> before_attribute s starts ls)"
      using blank_offsets_loop_result [OF assms(10,13,14), of host starts c1] assms(15)
      by (auto simp: off_def blank_offsets_document_attribute_def split: sum.splits)
    from trailing_edit_result [OF assms(1-6,11,12)] obtain ts where
      ts: "trailing_edit l ?w = Inr ts" "edits_within a ts x" "splice (take x s) a ts = tidy_content ?w"
        "\<forall>y \<in> set ts. edit_inside s y \<and> layout_edit s y
          \<and> range_start (edit_range y) < range_end (edit_range y)" by blast
    from ending_edit_result [OF assms(1,3,4,6-9,13,14)] obtain es where
      es: "ending_edit d cfg last_line i l = Inr es" "edits_within x es e"
        "splice (take e s) x es = (if k = NoEnding \<or> last_line = Some i \<and> \<not> final_newline cfg then []
          else newline_text (newline cfg))"
        "\<forall>y \<in> set es. edit_inside s y \<and> layout_edit s y
          \<and> range_start (edit_range y) < range_end (edit_range y)" by blast
    have kept: "line_done s protected l (ts @ es) (tidy_content ?w
        @ (if k = NoEnding \<or> last_line = Some i \<and> \<not> final_newline cfg then []
           else newline_text (newline cfg)))"
    proof -
      have "line_done s protected (line_of 0 a x e k) (ts @ es)
          (splice (take x s) a ts @ splice (take e s) x es)"
        using ts(4) es(4) False assms(1) by (intro line_done_append [OF ts(2) es(2) assms(3,4)]) auto
      then show ?thesis unfolding ts(3) es(3) assms(1) .
    qed
    have removed: "line_done s protected l [\<lparr>edit_range = full_range l, replacement = []\<rparr>] []"
      if "blank_line ?w" "a \<noteq> e"
    proof -
      have "list_all is_layout (slice s a e)"
        using blank_line_layout [OF that(1)] assms(2,3,9)
        by (simp add: slice_append_slice [of a x e s, symmetric])
      with that assms False show ?thesis
        by (auto simp: line_done_def edit_inside_def layout_edit_def line_slice_def str_eval)
    qed
    have "format_line host d cfg protected starts last_line (i, l) n c =
        and_then off (\<lambda>(required_attribute_offset, c).
           let blank_count = (if blank_line ?w \<and> a \<noteq> e then n + 1 else 0) in
           if blank_line ?w \<and> a \<noteq> e \<and> max_consecutive_blank_lines cfg < blank_count
                \<and> \<not> required_attribute_offset
           then Inr ([\<lparr>edit_range = full_range l, replacement = []\<rparr>], blank_count, c)
           else Inr (ts @ es, blank_count, c))"
      using False c t empty ts(1) es(1) assms(1)
      unfolding format_line_def off_def by (auto simp: blank_line_trim expect_def Let_def cong: if_cong)
    moreover have "a = e \<Longrightarrow> tidy_content ?w = []"
      using empty(3) by (simp add: tidy_content_def trim_end_matches_def)
    ultimately show ?thesis
      using off kept removed empty False slices assms(1)
      by (cases off) (auto simp: tidy_line_def Let_def)
  qed
qed

section \<open>The loops\<close>

text \<open>The edits of a stretch of the text: proper, in order, and away from what is protected.\<close>

definition edits_done :: "str \<Rightarrow> TextRange list \<Rightarrow> nat \<Rightarrow> TextEdit list \<Rightarrow> bool" where
  "edits_done s protected a es \<longleftrightarrow>
     edits_within a es (length s)
     \<and> (\<forall>x \<in> set es. edit_inside s x \<and> layout_edit s x
           \<and> range_start (edit_range x) < range_end (edit_range x)
           \<and> (\<forall>p \<in> set protected. range_end p \<le> range_start (edit_range x)
                \<or> range_end (edit_range x) \<le> range_start p))"

lemma not_overlapping:
  assumes "\<not> overlaps_any protected r" and "p \<in> set protected"
    and "range_start r \<le> a" and "a < b" and "b \<le> range_end r"
  shows "range_end p \<le> a \<or> b \<le> range_start p"
  using assms by (auto simp: overlaps_any_def ranges_overlap_def list_ex_iff not_less)

lemma line_done_edits:
  assumes "line_done s protected l es w" and "x \<in> set es" and "p \<in> set protected"
  shows "range_end p \<le> range_start (edit_range x) \<or> range_end (edit_range x) \<le> range_start p"
proof -
  have "\<not> overlaps_any protected (full_range l)"
    and w: "edits_within (range_start (full_range l)) es (range_end (full_range l))"
    and "range_start (edit_range x) < range_end (edit_range x)"
    using assms(1,2) by (auto simp: line_done_def Let_def)
  with not_overlapping [OF _ assms(3)] edits_within_ranges [OF w assms(2)] show ?thesis by blast
qed

lemma format_loop_result:
  assumes "lines_from s a ls" and "drop i (sd_lines d) = ls"
    and "valid_utf8 s" and "length s \<le> u32_max" and "sd_source d = s" and "sd_base d = 0"
  shows "case format_loop host d cfg protected starts last_line (enumerate i ls) edits n c of
      Inl err \<Rightarrow> err = Err FormatCancelled \<and> (\<exists>q. host q)
    | Inr (edits', c') \<Rightarrow> \<exists>es. edits' = edits @ es \<and> edits_done s protected a es
        \<and> splice s a es = tidy_lines s cfg protected starts last_line i ls n"
  using assms(1,2)
proof (induction ls arbitrary: a i edits n c)
  case Nil
  then show ?case by (simp add: edits_done_def)
next
  case (Cons l ls)
  then obtain x e k where l: "l = line_of 0 a x e k" "a \<le> x" "x \<le> e" "e \<le> length s"
    "char_boundary s a" "char_boundary s x" "char_boundary s e" "k = NoEnding \<longleftrightarrow> x = e"
    "list_all is_layout (slice s x e)" "lines_from s e ls" by auto
  have rest: "drop (Suc i) (sd_lines d) = ls"
    using Cons.prems(2) by (metis drop_Suc list.sel(3) tl_drop)
  note one = format_line_result [OF l assms(3-6) rest, of host cfg protected starts last_line n c]
  show ?case
  proof (cases "format_line host d cfg protected starts last_line (i, l) n c")
    case (Inl err)
    with one show ?thesis by simp
  next
    case (Inr r)
    obtain es n' c' where r: "r = (es, n', c')" by (cases r)
    obtain w where w: "tidy_line s cfg protected starts (last_line = Some i) l ls n = (w, n')"
      and ld: "line_done s protected l es w"
      using one Inr r by (cases "tidy_line s cfg protected starts (last_line = Some i) l ls n")
        (auto simp: Let_def)
    have es: "edits_within a es e" "splice (take e s) a es = w"
      using ld l(1) by (auto simp: line_done_def)
    note ih = Cons.IH [OF l(10) rest, of "edits @ es" n' c']
    show ?thesis
    proof (cases "format_loop host d cfg protected starts last_line (enumerate (Suc i) ls) (edits @ es) n' c'")
      case (Inl err)
      with ih Inr r \<open>format_line _ _ _ _ _ _ _ _ _ = Inr r\<close> show ?thesis by simp
    next
      case (Inr r')
      with ih obtain edits' c'' es' where r': "r' = (edits', c'')" and "edits' = (edits @ es) @ es'"
        and es': "edits_done s protected e es'"
        "splice s e es' = tidy_lines s cfg protected starts last_line (Suc i) ls n'"
        by (cases r') auto
      moreover have "edits_done s protected a (es @ es')"
        using ld es' edits_within_append [OF es(1)] line_done_edits [OF ld]
        by (auto simp: edits_done_def line_done_def Let_def)
      moreover have "splice s a (es @ es') = w @ splice s e es'"
        using splice_within [OF es(1) _ l(4)] es' es(2) by (auto simp: edits_done_def)
      ultimately show ?thesis
        using Inr r w \<open>format_line _ _ _ _ _ _ _ _ _ = Inr r\<close> by simp
    qed
  qed
qed

text \<open>The final line end of the reference.\<close>

definition tidy_end ::
    "str \<Rightarrow> FormatConfig \<Rightarrow> TextRange list \<Rightarrow> nat option \<Rightarrow> SourceLine list \<Rightarrow> str" where
  "tidy_end s cfg protected last_line ls =
     (if final_newline cfg \<and> s \<noteq> [] \<and> \<not> ends_with s [line_feed]
         \<and> (\<exists>i. last_line = Some i \<and> \<not> overlaps_any protected (full_range (ls ! i)))
      then newline_text (newline cfg) else [])"

definition tidy_text :: "str \<Rightarrow> FormatConfig \<Rightarrow> SyntaxTree \<Rightarrow> str" where
  "tidy_text s cfg t =
     (let ls = sd_lines (tree_source t);
          protected = formatting_protected_ranges t;
          starts = range_start ` node_range ` set (tree_nodes DocumentAttribute t);
          last_line = rposition (\<lambda>l. \<not> range_is_empty (full_range l)) ls
      in tidy_lines s cfg protected starts last_line 0 ls 0 @ tidy_end s cfg protected last_line ls)"

lemma final_edit_result:
  assumes "sd_source d = s" and "length s \<le> u32_max"
  shows "final_edit d cfg protected last_line =
    Inr (if tidy_end s cfg protected last_line (sd_lines d) = [] then []
         else [\<lparr>edit_range = \<lparr>range_start = length s, range_end = length s\<rparr>,
                 replacement = newline_text (newline cfg)\<rparr>])"
proof -
  have "newline_text (newline cfg) \<noteq> []" by (cases "newline cfg") (simp_all add: newline_text_def)
  with assms show ?thesis
    by (cases last_line) (simp_all add: final_edit_def tidy_end_def Let_def format_range_def text_range_ok)
qed

text \<open>Edits in order are sorted already, and distinct when only the last may be empty.\<close>

lemma validate_within:
  assumes "edits_within a es b"
    and "\<forall>x \<in> set (butlast es). range_start (edit_range x) < range_end (edit_range x)"
  shows "validate_edits es = Inr ()"
  using assms
proof (induction es arbitrary: a rule: validate_edits.induct)
  case (1 x y es)
  then have "range_start (edit_range x) < range_end (edit_range x)"
    "range_end (edit_range x) \<le> range_start (edit_range y)" by auto
  then have "edit_range x \<noteq> edit_range y" "\<not> range_start (edit_range y) < range_end (edit_range x)" by auto
  with 1 show ?case by (auto simp: Let_def)
qed auto

lemma sorted_within: "edits_within a es b \<Longrightarrow> sorted (map edit_key es)"
proof (induction es arbitrary: a)
  case (Cons e es)
  have "edit_key e \<le> edit_key y" if "y \<in> set es" for y
    using Cons.prems edits_within_ranges [OF _ that]
    by (fastforce simp: edit_key_def less_eq_prod_def)
  with Cons show ?case by auto
qed simp

lemma Fix_new_within:
  assumes "edits_within a es b"
    and "\<forall>x \<in> set (butlast es). range_start (edit_range x) < range_end (edit_range x)"
  shows "Fix_new title app es =
    Inr \<lparr>fix_title = title, fix_applicability = app, fix_edits = es\<rparr>"
  using validate_within [OF assms] sorted_within [OF assms(1)]
  by (simp add: Fix_new_def sort_key_id_if_sorted)

lemma apply_edits_loop_result:
  "case replace_edits out es of None \<Rightarrow> True
    | Some w \<Rightarrow> (case apply_edits_loop host out es c of
        Inl err \<Rightarrow> err = Err FormatCancelled \<and> (\<exists>q. host q)
      | Inr (out', c') \<Rightarrow> out' = w)"
proof (induction es arbitrary: out c)
  case (Cons e es)
  obtain cancelled c1 where c: "checkpoint_is_cancelled host c = (cancelled, c1)" by force
  show ?case
  proof (cases "replace_range out (edit_range e) (replacement e)")
    case (Some w)
    with Cons.IH [of w c1] c show ?thesis
      by (auto simp: expect_def dest: is_cancelled_host split: option.splits)
  qed simp
qed simp

text \<open>What a completed formatting run has done.\<close>

definition output_ok :: "str \<Rightarrow> FormatConfig \<Rightarrow> SyntaxTree \<Rightarrow> FormatOutput \<Rightarrow> bool" where
  "output_ok s cfg t out \<longleftrightarrow>
     edits_within 0 (format_edits out) (length s)
     \<and> splice s 0 (format_edits out) = formatted out
     \<and> formatted out = tidy_text s cfg t
     \<and> (\<forall>x \<in> set (format_edits out). edit_inside s x \<and> layout_edit s x
          \<and> (\<forall>p \<in> set (formatting_protected_ranges t). range_end p \<le> length s \<longrightarrow>
               range_end p \<le> range_start (edit_range x) \<or> range_end (edit_range x) \<le> range_start p))"

lemma format_syntax_result:
  assumes "valid_utf8 s" and "SourceDocument_new s = Inr (tree_source t)"
  shows "case format_syntax host q t cfg of
      Inl err \<Rightarrow> err = Err FormatCancelled \<and> (\<exists>q. host q)
    | Inr out \<Rightarrow> output_ok s cfg t out"
proof -
  note d = SourceDocument_new_Inr [OF assms]
  have src: "sd_source (tree_source t) = s" "sd_base (tree_source t) = 0"
    using d(1) by (simp_all add: well_indexed_def)
  let ?d = "tree_source t" and ?p = "formatting_protected_ranges t"
  let ?starts = "set (map (\<lambda>n. range_start (node_range n)) (tree_nodes DocumentAttribute t))"
  let ?last = "rposition (\<lambda>l. \<not> range_is_empty (full_range l)) (sd_lines ?d)"
  obtain cancelled c where c: "checkpoint_is_cancelled_now host (checkpoint_new q) = (cancelled, c)" by force
  show ?thesis
  proof (cases cancelled)
    case True
    with c show ?thesis
      by (auto simp: format_syntax_def checkpoint_is_cancelled_now_def)
  next
    case False
    have starts: "?starts = range_start ` node_range ` set (tree_nodes DocumentAttribute t)"
      by (auto simp: image_image)
    have all: "drop 0 (sd_lines ?d) = sd_lines ?d" by simp
    note lines = format_loop_result [OF well_indexed_lines_from [OF assms(1) d(1)] all assms(1) d(2) src,
        where host = host and cfg = cfg and protected = ?p and starts = ?starts and last_line = ?last
          and edits = "[]" and n = 0 and c = c]
    show ?thesis
    proof (cases "format_loop host ?d cfg ?p ?starts ?last (enumerate 0 (sd_lines ?d)) [] 0 c")
      case (Inl err)
      with lines c False show ?thesis by (simp add: format_syntax_def Let_def)
    next
      case (Inr r)
      with lines obtain es c1 where r: "r = (es, c1)" and good: "edits_done s ?p 0 es"
        and written: "splice s 0 es = tidy_lines s cfg ?p ?starts ?last 0 (sd_lines ?d) 0"
        by (cases r) auto
      let ?nl = "newline_text (newline cfg)"
      define ins where "ins = (if tidy_end s cfg ?p ?last (sd_lines ?d) = [] then []
         else [\<lparr>edit_range = \<lparr>range_start = length s, range_end = length s\<rparr>, replacement = ?nl\<rparr>])"
      have fin: "final_edit ?d cfg ?p ?last = Inr ins"
        unfolding ins_def by (rule final_edit_result [OF src(1) d(2)])
      have ins: "edits_within (length s) ins (length s)" by (simp add: ins_def)
      have within: "edits_within 0 (es @ ins) (length s)"
        using edits_within_append [OF _ ins] good by (simp add: edits_done_def)
      have strict: "\<forall>x \<in> set (butlast (es @ ins)). range_start (edit_range x) < range_end (edit_range x)"
        using good by (auto simp: ins_def edits_done_def butlast_append dest: in_set_butlastD)
      have inside: "\<forall>x \<in> set (es @ ins). edit_inside s x \<and> layout_edit s x
          \<and> (\<forall>p \<in> set ?p. range_end p \<le> length s \<longrightarrow>
               range_end p \<le> range_start (edit_range x) \<or> range_end (edit_range x) \<le> range_start p)"
        using good newline_layout [of "newline cfg"]
        by (auto simp: ins_def edits_done_def edit_inside_def layout_edit_def line_slice_def)
      have "splice s 0 (es @ ins) = splice s 0 es @ splice s (length s) ins"
        using splice_within [of 0 es "length s" ins "length s" s] good ins by (simp add: edits_done_def)
      also have "splice s (length s) ins = tidy_end s cfg ?p ?last (sd_lines ?d)"
        by (auto simp: ins_def tidy_end_def)
      finally have whole: "splice s 0 (es @ ins) = tidy_text s cfg t"
        using written starts by (simp add: tidy_text_def Let_def)
      have applied: "replace_edits s (rev (es @ ins)) = Some (splice s 0 (es @ ins))"
        using replace_edits_splice [OF assms(1) edits_within_ordered [OF within]] inside by simp
      have "case apply_edits host s (es @ ins) c1 of
          Inl err \<Rightarrow> err = Err FormatCancelled \<and> (\<exists>q. host q)
        | Inr (w, c') \<Rightarrow> w = tidy_text s cfg t"
        using apply_edits_loop_result [where out = s and es = "rev (es @ ins)" and host = host and c = c1] applied whole
        by (simp add: apply_edits_def)
      moreover have "format_syntax host q t cfg = and_then (apply_edits host s (es @ ins) c1)
          (\<lambda>(out, c). Inr \<lparr>formatted = out, format_edits = es @ ins\<rparr>)"
        using c False Inr r fin Fix_new_within [OF within strict] src
        by (simp add: format_syntax_def Let_def)
      ultimately show ?thesis
        using within inside whole by (auto simp: output_ok_def split: sum.splits)
    qed
  qed
qed

section \<open>Properties\<close>

text \<open>C32. Formatting writes the text its rules describe. For every tree over an indexed text it
  never panics and fails only by cancellation, and the text its edits give is the one written
  line by line: a line that overlaps a protected range stays as it is; a blank line beyond
  the allowed number goes, unless an attribute entry depends on it; every other line loses its
  trailing blanks, unless they matter, and gets the configured ending.\<close>

theorem formatting_matches_reference:
  assumes "valid_utf8 s" and "SourceDocument_new s = Inr (tree_source t)"
  shows "case format_syntax host q t cfg of
      Inl err \<Rightarrow> err = Err FormatCancelled \<and> (\<exists>q. host q)
    | Inr out \<Rightarrow> formatted out = tidy_text s cfg t \<and> splice s 0 (format_edits out) = formatted out"
  using format_syntax_result [OF assms, where host = host and q = q and cfg = cfg] by (auto simp: output_ok_def split: sum.splits)

text \<open>Formatting a text in which nothing is protected.\<close>

definition plain_tree :: "SourceDocument \<Rightarrow> SyntaxTree" where
  "plain_tree d =
     \<lparr>tree_source = d,
      tree_root = SyntaxNode Document \<lparr>range_start = 0, range_end = length (sd_source d)\<rparr> [],
      tree_issues = []\<rparr>"

definition format_plain :: "str \<Rightarrow> str option" where
  "format_plain s =
     (case SourceDocument_new s of
        Inl _ \<Rightarrow> None
      | Inr d \<Rightarrow>
          (case format_syntax NeverCancel 0 (plain_tree d) FormatConfig_default of
             Inl _ \<Rightarrow> None | Inr out \<Rightarrow> Some (formatted out)))"

theorem formatting_matches_reference_witness:
  "\<exists>d. SourceDocument_new (''a '' @ [line_feed]) = Inr d
     \<and> tidy_text (''a '' @ [line_feed]) FormatConfig_default (plain_tree d) = ''a'' @ [line_feed]"
proof -
  have "format_plain (''a '' @ [line_feed]) = Some (''a'' @ [line_feed])" by code_simp
  then obtain d out where d: "SourceDocument_new (''a '' @ [line_feed]) = Inr d"
    and out: "format_syntax NeverCancel 0 (plain_tree d) FormatConfig_default = Inr out"
      "formatted out = ''a'' @ [line_feed]"
    by (auto simp: format_plain_def split: sum.splits)
  have v: "valid_utf8 (''a '' @ [line_feed])" by (simp add: str_eval)
  have t: "SourceDocument_new (''a '' @ [line_feed]) = Inr (tree_source (plain_tree d))"
    using d by (simp add: plain_tree_def)
  from formatting_matches_reference [OF v t, where host = NeverCancel and q = 0 and cfg = FormatConfig_default]
    out d show ?thesis by auto
qed

text \<open>C33. Formatting keeps what the author wrote: it changes blanks and line ends only, and the
  text of every protected range of a built tree stays byte for byte, between the visible text
  that precedes it and the visible text that follows it.\<close>

theorem formatting_keeps_text:
  assumes "valid_utf8 s" and "SourceDocument_new s = Inr d"
    and "from_blocks_cancellable host d bs issues c = Inr (t, c')"
    and "format_syntax host' q t cfg = Inr out"
  shows "visible (formatted out) = visible s
    \<and> (\<forall>p \<in> set (formatting_protected_ranges t). range_start p < range_end p \<longrightarrow>
         (\<exists>before after. formatted out = before @ line_slice s p @ after
            \<and> visible before = visible (take (range_start p) s)
            \<and> visible after = visible (drop (range_end p) s)))"
proof -
  have tree: "tree_source t = d" "finished s (tree_root t)"
    using from_blocks_result [OF SourceDocument_new_Inr [OF assms(1,2)], of host bs issues c] assms(3)
    by auto
  with format_syntax_result [OF assms(1), where t = t and host = host' and q = q and cfg = cfg] assms(2,4)
  have ok: "output_ok s cfg t out" by simp
  let ?es = "format_edits out"
  have es: "edits_within 0 ?es (length s)" "splice s 0 ?es = formatted out"
    and layout: "\<forall>x \<in> set ?es. layout_edit s x"
    using ok by (auto simp: output_ok_def)
  show ?thesis
  proof (intro conjI ballI impI)
    from visible_splice [OF es(1) _ layout] es(2) show "visible (formatted out) = visible s" by simp
    fix p
    assume p: "p \<in> set (formatting_protected_ranges t)" "range_start p < range_end p"
    then have "cut_at s 0 (range_end p)"
      using protected_ranges_inside [OF tree(2)] by (simp add: formatting_protected_ranges_def)
    then have len: "range_end p \<le> length s" by (auto simp: cut_at_def char_boundary_le)
    have apart: "\<forall>e \<in> set ?es. range_end (edit_range e) \<le> range_start p \<or> range_end p \<le> range_start (edit_range e)"
      using ok p len by (auto simp: output_ok_def)
    from splice_around [OF es(1) order_refl _ p(2) len apart] obtain xs ys where
      xy: "?es = xs @ ys" "edits_within 0 xs (range_start p)" "edits_within (range_end p) ys (length s)"
        "splice s 0 ?es = splice (take (range_start p) s) 0 xs @ line_slice s p @ splice s (range_end p) ys"
      by (auto simp: line_slice_def)
    have "visible (splice (take (range_start p) s) 0 xs) = visible (take (range_start p) s)"
      using visible_splice [OF xy(2), of s] layout xy(1) p(2) len by (simp add: slice_from_zero)
    moreover have "visible (splice s (range_end p) ys) = visible (drop (range_end p) s)"
      using visible_splice [OF xy(3), of s] layout xy(1) by (simp add: slice_to_end)
    ultimately show "\<exists>before after. formatted out = before @ line_slice s p @ after
            \<and> visible before = visible (take (range_start p) s)
            \<and> visible after = visible (drop (range_end p) s)"
      using xy(4) es(2) by metis
  qed
qed

definition two_paragraphs :: str where
  "two_paragraphs = ''x '' @ [line_feed] @ ''y'' @ [line_feed]"

definition two_blocks :: "SyntaxNode list" where
  "two_blocks =
     [SyntaxNode Paragraph \<lparr>range_start = 0, range_end = 3\<rparr> [],
      SyntaxNode Paragraph \<lparr>range_start = 3, range_end = 5\<rparr>
        [leaf InlineSpan \<lparr>range_start = 3, range_end = 4\<rparr>]]"

definition two_tree :: "(SyntaxTree \<times> FormatOutput) option" where
  "two_tree =
     (case SourceDocument_new two_paragraphs of
        Inl _ \<Rightarrow> None
      | Inr d \<Rightarrow> (case from_blocks_cancellable NeverCancel d two_blocks [] (checkpoint_new 0) of
            Inl _ \<Rightarrow> None
          | Inr (t, _) \<Rightarrow> (case format_syntax NeverCancel 0 t FormatConfig_default of
              Inl _ \<Rightarrow> None | Inr out \<Rightarrow> Some (t, out))))"

theorem formatting_keeps_text_witness:
  "\<exists>t out. two_tree = Some (t, out) \<and> formatted out = ''x'' @ [line_feed] @ ''y'' @ [line_feed]
     \<and> visible (formatted out) = visible two_paragraphs"
proof -
  have "map_option (\<lambda>p. formatted (snd p)) two_tree = Some (''x'' @ [line_feed] @ ''y'' @ [line_feed])"
    by code_simp
  then obtain t out where t: "two_tree = Some (t, out)"
    and w: "formatted out = ''x'' @ [line_feed] @ ''y'' @ [line_feed]" by auto
  then obtain d c' where d: "SourceDocument_new two_paragraphs = Inr d"
    and b: "from_blocks_cancellable NeverCancel d two_blocks [] (checkpoint_new 0) = Inr (t, c')"
    and f: "format_syntax NeverCancel 0 t FormatConfig_default = Inr out"
    by (auto simp: two_tree_def split: sum.splits)
  have v: "valid_utf8 two_paragraphs" by (simp add: two_paragraphs_def str_eval)
  from formatting_keeps_text [OF v d b f] t w show ?thesis by blast
qed


end
