(* ===== verification/Cjk.thy ===== *)
theory Cjk
  imports Str
begin

text \<open>
  \<open>cjk.rs\<close>: which scalar values count as CJK, the judgement that the line joining of rendered
  paragraphs and the word boundaries of inline markup share.
\<close>

text \<open>The code point of a scalar value.\<close>

definition code_point :: "str \<Rightarrow> nat" where
  "code_point ch = (case map byte_val ch of
      [a] \<Rightarrow> a
    | [a, b] \<Rightarrow> (a - 192) * 64 + (b - 128)
    | [a, b, c] \<Rightarrow> (a - 224) * 4096 + (b - 128) * 64 + (c - 128)
    | [a, b, c, d] \<Rightarrow> (a - 240) * 262144 + (b - 128) * 4096 + (c - 128) * 64 + (d - 128)
    | _ \<Rightarrow> 0)"

definition is_cjk :: "str \<Rightarrow> bool" where
  "is_cjk ch \<longleftrightarrow>
     (let n = code_point ch in
      0x3000 \<le> n \<and> n \<le> 0x30FF \<or> 0x3400 \<le> n \<and> n \<le> 0x4DBF \<or> 0x4E00 \<le> n \<and> n \<le> 0x9FFF
      \<or> 0x1100 \<le> n \<and> n \<le> 0x11FF \<or> 0xAC00 \<le> n \<and> n \<le> 0xD7AF \<or> 0xF900 \<le> n \<and> n \<le> 0xFAFF
      \<or> 0xFF00 \<le> n \<and> n \<le> 0xFFEF \<or> 0x20000 \<le> n \<and> n \<le> 0x2FA1F)"

definition joins_without_space :: "str option \<Rightarrow> str option \<Rightarrow> bool" where
  "joins_without_space a b = (case (a, b) of (Some a, Some b) \<Rightarrow> is_cjk a \<and> is_cjk b | _ \<Rightarrow> False)"

end
