(* ===== verification/Html_Writer.thy ===== *)
theory Html_Writer
  imports Urls Cjk
begin

text \<open>
  \<open>html/safe.rs\<close> with the line joining rule of \<open>cjk.rs\<close>: the only code that writes HTML. Names
  and values have types of their own, each with a constructor that checks it. The theorems read
  the written text back as an HTML reader does.
\<close>

section \<open>What may be written\<close>

definition ALLOWED_ELEMENTS :: "str list" where
  "ALLOWED_ELEMENTS =
     [''a'', ''audio'', ''body'', ''blockquote'', ''br'', ''caption'', ''cite'', ''code'',
      ''dd'', ''details'', ''div'', ''dl'', ''dt'', ''em'', ''figcaption'', ''figure'',
      ''h1'', ''h2'', ''h3'', ''h4'', ''h5'', ''head'', ''hr'', ''html'', ''img'', ''kbd'',
      ''li'', ''link'', ''mark'', ''meta'', ''ol'', ''p'', ''pre'', ''span'', ''strong'',
      ''style'', ''sub'', ''summary'', ''sup'', ''table'', ''tbody'', ''td'', ''tfoot'',
      ''th'', ''thead'', ''title'', ''tr'', ''ul'', ''video'']"

definition ALLOWED_ATTRIBUTES :: "str list" where
  "ALLOWED_ATTRIBUTES =
     [''alt'', ''charset'', ''class'', ''colspan'', ''controls'', ''data-language'',
      ''data-line-numbers'', ''data-line-start'', ''data-math-display'',
      ''data-math-language'', ''height'', ''href'', ''id'', ''lang'', ''open'', ''poster'',
      ''rel'', ''rowspan'', ''src'', ''target'', ''title'', ''value'', ''width'']"

definition ALLOWED_CLASSES :: "str list" where
  "ALLOWED_CLASSES =
     [''author'', ''admonition'', ''admonition-caution'', ''admonition-important'',
      ''admonition-note'', ''admonition-tip'', ''admonition-warning'', ''attribution'',
      ''appendix'', ''bibliography-anchor'', ''bibliography-backref'', ''button'',
      ''callout-list'', ''callout-number'', ''checklist-marker'', ''citation'',
      ''citation-link'', ''document-title'', ''example'', ''footnote'', ''footnote-backref'',
      ''footnote-ref'', ''footnotes'', ''image-block'', ''index-term'', ''language-*'',
      ''lead'', ''listing-block'', ''literal-block'', ''math-latex'', ''math-asciimath'',
      ''math-typst'', ''menu'', ''open'', ''page-break'', ''revision'', ''role-*'', ''quote'',
      ''sidebar'', ''source-block'', ''table-align-center'', ''table-align-left'',
      ''table-align-right'', ''table-valign-bottom'', ''table-valign-middle'',
      ''table-valign-top'', ''table-frame-all'', ''table-frame-ends'', ''table-frame-none'',
      ''table-frame-sides'', ''table-grid-all'', ''table-grid-cols'', ''table-grid-none'',
      ''table-grid-rows'', ''table-stripes-all'', ''table-stripes-even'',
      ''table-stripes-hover'', ''table-stripes-none'', ''table-stripes-odd'', ''toc'',
      ''title'', ''titled-block'', ''verse'']"

definition ACTIVE_URL_ATTRIBUTES :: "str list" where
  "ACTIVE_URL_ATTRIBUTES =
     [''href'', ''poster'', ''src'']"

definition BOOLEAN_ATTRIBUTES :: "str list" where
  "BOOLEAN_ATTRIBUTES =
     [''controls'', ''open'']"

definition CLASS_ATTRIBUTE :: str where "CLASS_ATTRIBUTE = ''class''"

datatype ElementName = ElementName (element_str: str)
datatype PassiveAttributeName = PassiveAttributeName (passive_str: str)
datatype BooleanAttributeName = BooleanAttributeName (boolean_str: str)
datatype ActiveUrlAttributeName = ActiveUrlAttributeName (active_str: str)
datatype ClassName = ClassName (class_str: str)
datatype RoleClass = RoleClass (role_str: str)
datatype SourceLanguageClass = SourceLanguageClass (language_str: str)
datatype SafeUrl = SafeUrl (safe_url_str: str)
datatype SafeFragmentUrl = SafeFragmentUrl (fragment_str: str)
datatype SafeStyleBody = SafeStyleBody (style_str: str)

definition ElementName_new :: "str \<Rightarrow> ElementName option" where
  "ElementName_new v = (if v \<in> set ALLOWED_ELEMENTS then Some (ElementName v) else None)"

definition PassiveAttributeName_new :: "str \<Rightarrow> PassiveAttributeName option" where
  "PassiveAttributeName_new v =
     (if v \<in> set ALLOWED_ATTRIBUTES \<and> v \<notin> set ACTIVE_URL_ATTRIBUTES \<and> v \<notin> set BOOLEAN_ATTRIBUTES
         \<and> v \<noteq> CLASS_ATTRIBUTE
      then Some (PassiveAttributeName v) else None)"

definition fragment_index :: PassiveAttributeName where
  "fragment_index = PassiveAttributeName ''data-fragment-index''"

definition aria_label :: PassiveAttributeName where
  "aria_label = PassiveAttributeName ''aria-label''"

definition BooleanAttributeName_new :: "str \<Rightarrow> BooleanAttributeName option" where
  "BooleanAttributeName_new v =
     (if v \<in> set BOOLEAN_ATTRIBUTES then Some (BooleanAttributeName v) else None)"

definition ActiveUrlAttributeName_new :: "str \<Rightarrow> ActiveUrlAttributeName option" where
  "ActiveUrlAttributeName_new v =
     (if v \<in> set ACTIVE_URL_ATTRIBUTES then Some (ActiveUrlAttributeName v) else None)"

definition ClassName_new :: "str \<Rightarrow> ClassName option" where
  "ClassName_new v =
     (if v \<noteq> ''language-*'' \<and> v \<noteq> ''role-*'' \<and> v \<in> set ALLOWED_CLASSES then Some (ClassName v) else None)"

definition fragment_class :: ClassName where
  "fragment_class = ClassName ''fragment''"

definition is_role_name :: "str \<Rightarrow> bool" where
  "is_role_name role \<longleftrightarrow> role \<noteq> []
     \<and> list_all (\<lambda>b. is_ascii_alphanumeric b \<or> b = CHR ''-'' \<or> b = CHR ''_'') role"

definition RoleClass_new :: "str \<Rightarrow> RoleClass option" where
  "RoleClass_new role = (if is_role_name role then Some (RoleClass (''role-'' @ role)) else None)"

definition canonical_source_language :: "str \<Rightarrow> str" where
  "canonical_source_language language =
     concat (map (\<lambda>ch. case ch of
         [b] \<Rightarrow> if is_ascii_alphanumeric b \<or> b = CHR ''-'' \<or> b = CHR ''_'' then [ascii_lower b] else ''-''
       | _ \<Rightarrow> ''-'') (chars language))"

definition SourceLanguageClass_new :: "str \<Rightarrow> SourceLanguageClass option" where
  "SourceLanguageClass_new language =
     (let language = canonical_source_language language in
      if language \<noteq> [] then Some (SourceLanguageClass (''language-'' @ language)) else None)"

definition SafeUrl_from_policy :: "str \<Rightarrow> ActiveUrlPolicy \<Rightarrow> UrlProvenance \<Rightarrow> SafeUrl option" where
  "SafeUrl_from_policy v policy provenance =
     (if active_classify policy v provenance = Allowed then Some (SafeUrl v) else None)"

definition SafeFragmentUrl_new :: "str \<Rightarrow> SafeFragmentUrl option" where
  "SafeFragmentUrl_new anchor =
     (if anchor \<noteq> [] \<and> \<not> list_ex is_control (chars anchor) then Some (SafeFragmentUrl anchor) else None)"

fun contains_ignore_case :: "str \<Rightarrow> str \<Rightarrow> bool" where
  "contains_ignore_case pat [] = (pat = [])"
| "contains_ignore_case pat (b # s) \<longleftrightarrow>
     length pat \<le> length (b # s) \<and> eq_ignore_ascii_case (take (length pat) (b # s)) pat
     \<or> contains_ignore_case pat s"

definition SafeStyleBody_new :: "str \<Rightarrow> SafeStyleBody option" where
  "SafeStyleBody_new v =
     (if list_ex (\<lambda>ch. is_control ch \<and> ch \<notin> {[line_feed], [carriage_return], [tab]}) (chars v)
         \<or> find_str ''<!--'' v \<noteq> None
      then None
      else if contains_ignore_case ''</style'' v then None else Some (SafeStyleBody v))"

definition ends_with_line_break :: "SafeStyleBody \<Rightarrow> bool" where
  "ends_with_line_break b \<longleftrightarrow> style_str b \<noteq> [] \<and> last (style_str b) = line_feed"

section \<open>Writing\<close>

text \<open>The escape of one scalar value.\<close>

definition escape_scalar :: "str \<Rightarrow> str" where
  "escape_scalar ch =
     (if ch = ''&'' then ''&amp;'' else if ch = ''<'' then ''&lt;'' else if ch = ''>'' then ''&gt;''
      else if ch = [double_quote] then ''&#34;'' else if ch = [quote_char] then ''&#39;'' else ch)"

definition escape_into :: "str \<Rightarrow> str \<Rightarrow> str" where
  "escape_into out t = out @ concat (map escape_scalar (chars t))"

definition write_attribute :: "str \<Rightarrow> str \<Rightarrow> str \<Rightarrow> str" where
  "write_attribute out name v =
     escape_into (out @ '' '' @ name @ ''='' @ [double_quote]) v @ [double_quote]"

definition write_start :: "str \<Rightarrow> ElementName \<Rightarrow> str" where
  "write_start out e = out @ ''<'' @ element_str e"

definition passive_attribute :: "str \<Rightarrow> PassiveAttributeName \<Rightarrow> str \<Rightarrow> str" where
  "passive_attribute out name v = write_attribute out (passive_str name) v"

definition active_url_attribute :: "str \<Rightarrow> ActiveUrlAttributeName \<Rightarrow> SafeUrl \<Rightarrow> str" where
  "active_url_attribute out name v = write_attribute out (active_str name) (safe_url_str v)"

definition fragment_url_attribute :: "str \<Rightarrow> ActiveUrlAttributeName \<Rightarrow> SafeFragmentUrl \<Rightarrow> str" where
  "fragment_url_attribute out name v =
     escape_into (out @ '' '' @ active_str name @ ''='' @ [double_quote] @ ''#'') (fragment_str v)
       @ [double_quote]"

fun write_classes :: "str \<Rightarrow> nat \<Rightarrow> str list \<Rightarrow> str" where
  "write_classes out i [] = out"
| "write_classes out i (c # cs) =
     write_classes (escape_into (if 0 < i then out @ '' '' else out) c) (i + 1) cs"

definition class_attribute :: "str \<Rightarrow> ClassName list \<Rightarrow> RoleClass list \<Rightarrow> str" where
  "class_attribute out classes roles =
     write_classes (out @ '' class='' @ [double_quote]) 0 (map class_str classes @ map role_str roles)
       @ [double_quote]"

definition source_language_class_attribute :: "str \<Rightarrow> SourceLanguageClass \<Rightarrow> str" where
  "source_language_class_attribute out c = write_attribute out CLASS_ATTRIBUTE (language_str c)"

definition boolean_attribute :: "str \<Rightarrow> BooleanAttributeName \<Rightarrow> str" where
  "boolean_attribute out name = out @ '' '' @ boolean_str name"

definition finish_start :: "str \<Rightarrow> str" where
  "finish_start out = out @ ''>''"

definition write_text :: "str \<Rightarrow> str \<Rightarrow> str" where
  "write_text out v = escape_into out v"

definition safe_style_body :: "str \<Rightarrow> SafeStyleBody \<Rightarrow> str" where
  "safe_style_body out v = out @ style_str v"

definition line_break :: "str \<Rightarrow> str" where
  "line_break out = out @ [line_feed]"

definition write_end :: "str \<Rightarrow> ElementName \<Rightarrow> str" where
  "write_end out e = out @ ''</'' @ element_str e @ ''>''"

text \<open>The loop over the scalar values of a paragraph.\<close>

fun inline_text_loop :: "str \<Rightarrow> str option \<Rightarrow> str list \<Rightarrow> str" where
  "inline_text_loop out previous [] = out"
| "inline_text_loop out previous (ch # rest) =
     (if ch = [carriage_return] \<or> ch = [line_feed] then
        let rest = (if ch = [carriage_return] \<and> rest \<noteq> [] \<and> hd rest = [line_feed] then tl rest else rest)
        in if joins_without_space previous (case rest of [] \<Rightarrow> None | next_ch # _ \<Rightarrow> Some next_ch)
           then inline_text_loop out previous rest
           else inline_text_loop (out @ '' '') (Some '' '') rest
      else inline_text_loop (escape_into out ch) (Some ch) rest)"

definition inline_text :: "str \<Rightarrow> str \<Rightarrow> str" where
  "inline_text out v = inline_text_loop out None (chars v)"

section \<open>Escaping\<close>

definition escape_byte :: "char \<Rightarrow> str" where
  "escape_byte b = escape_scalar [b]"

definition escape :: "str \<Rightarrow> str" where
  "escape t = concat (map escape_byte t)"

lemma escape_append [simp]: "escape (s @ t) = escape s @ escape t"
  by (simp add: escape_def)

lemma escape_Nil [simp]: "escape [] = []" and escape_Cons: "escape (b # t) = escape_byte b @ escape t"
  by (simp_all add: escape_def)

text \<open>The bytes of a longer scalar value are no markup.\<close>

lemma escape_high: "list_all (\<lambda>b. 128 \<le> byte_val b) ch \<Longrightarrow> escape ch = ch"
proof (induction ch)
  case (Cons b ch)
  then have "b \<noteq> CHR ''&''" "b \<noteq> CHR ''<''" "b \<noteq> CHR ''>''" "b \<noteq> double_quote" "b \<noteq> quote_char"
    by auto
  with Cons show ?case by (simp add: escape_Cons escape_byte_def escape_scalar_def)
qed simp

lemma escape_scalar_bytes: "valid_scalar ch \<Longrightarrow> escape_scalar ch = escape ch"
proof -
  assume v: "valid_scalar ch"
  show ?thesis
  proof (cases "length ch = 1")
    case True
    then obtain b where "ch = [b]" by (auto simp: length_Suc_conv)
    then show ?thesis by (simp add: escape_Cons escape_byte_def)
  next
    case False
    with v have high: "list_all (\<lambda>b. 128 \<le> byte_val b) ch"
      by (auto simp: valid_scalar_def in_byte_range_def is_continuation_def split: list.splits if_splits)
    have "escape_scalar ch = ch" using False by (auto simp: escape_scalar_def)
    with escape_high [OF high] show ?thesis by simp
  qed
qed

lemma escape_scalars: "list_all valid_scalar cs \<Longrightarrow> concat (map escape_scalar cs) = escape (concat cs)"
  by (induction cs) (simp_all add: escape_scalar_bytes)

lemma escape_into_escape: "valid_utf8 t \<Longrightarrow> escape_into out t = out @ escape t"
  using escape_scalars [of "chars t"] by (simp add: escape_into_def valid_utf8_def)

lemma escape_plain:
  "CHR ''<'' \<notin> set (escape t)" "CHR ''>'' \<notin> set (escape t)" "double_quote \<notin> set (escape t)"
  "quote_char \<notin> set (escape t)"
  by (induction t) (auto simp: escape_Cons escape_byte_def escape_scalar_def)

section \<open>Reading\<close>

text \<open>
  An HTML reader for what the writer can write. Character references stand for their
  characters; a tag is read up to the bracket that closes it; an attribute value runs to the
  next double quote.
\<close>

definition entity :: "str \<Rightarrow> (char \<times> nat) option" where
  "entity s =
     (if starts_with s ''&amp;'' then Some (CHR ''&'', 5) else if starts_with s ''&lt;'' then Some (CHR ''<'', 4)
      else if starts_with s ''&gt;'' then Some (CHR ''>'', 4)
      else if starts_with s ''&#34;'' then Some (double_quote, 5)
      else if starts_with s ''&#39;'' then Some (quote_char, 5) else None)"

function unescape :: "str \<Rightarrow> str" where
  "unescape s =
     (case s of
        [] \<Rightarrow> []
      | b # t \<Rightarrow> (case entity s of
          Some (c, n) \<Rightarrow> c # unescape (drop (n - 1) t)
        | None \<Rightarrow> b # unescape t))"
  by pat_completeness auto
termination
  by (relation "measure length") auto

declare unescape.simps [simp del]

lemma unescape_Nil [simp]: "unescape [] = []"
  by (simp add: unescape.simps)

lemma unescape_byte: "unescape (escape_byte b @ s) = b # unescape s"
  by (cases "b = CHR ''&''"; cases "b = CHR ''<''"; cases "b = CHR ''>''"; cases "b = double_quote";
      cases "b = quote_char")
    (auto simp: escape_byte_def escape_scalar_def unescape.simps [of "_ # _"] entity_def starts_with_def)

lemma unescape_escape: "unescape (escape t @ s) = t @ unescape s"
  by (induction t) (simp_all add: escape_Cons unescape_byte)

definition name_byte :: "char \<Rightarrow> bool" where
  "name_byte b \<longleftrightarrow> is_ascii_alphanumeric b \<or> b = CHR ''-''"

lemma dropWhile_drop_le [simp]:
  "length (dropWhile p (drop n t)) - k \<le> length t"
  "length (dropWhile p (drop n (dropWhile q t))) - k \<le> length t"
proof -
  have one: "length (dropWhile p (drop n t)) \<le> length t" for t :: "'a list"
    using length_dropWhile_le [of p "drop n t"] by simp
  from one [of t] show "length (dropWhile p (drop n t)) - k \<le> length t" by linarith
  from one [of "dropWhile q t"] length_dropWhile_le [of q t]
  show "length (dropWhile p (drop n (dropWhile q t))) - k \<le> length t" by linarith
qed

function read_attributes :: "str \<Rightarrow> ((str \<times> str option) list \<times> str) option" where
  "read_attributes s =
     (case s of
        [] \<Rightarrow> None
      | b # t \<Rightarrow>
          if b = CHR ''>'' then Some ([], t)
          else if b \<noteq> CHR '' '' then None
          else
            let name = takeWhile name_byte t; r = dropWhile name_byte t in
            if starts_with r [CHR ''='', double_quote] then
              let v = takeWhile (\<lambda>b. b \<noteq> double_quote) (drop 2 r)
              in map_option (\<lambda>(as, rest). ((name, Some (unescape v)) # as, rest))
                   (read_attributes (drop 1 (dropWhile (\<lambda>b. b \<noteq> double_quote) (drop 2 r))))
            else map_option (\<lambda>(as, rest). ((name, None) # as, rest)) (read_attributes r))"
  by pat_completeness auto
termination
  by (relation "measure length") (auto simp: less_Suc_eq_le length_dropWhile_le)

declare read_attributes.simps [simp del]

datatype html_event =
    StartEvent str "(str \<times> str option) list"
  | EndEvent str
  | ByteEvent char

function read_html :: "str \<Rightarrow> html_event list option" where
  "read_html s =
     (case s of
        [] \<Rightarrow> Some []
      | b # t \<Rightarrow>
          if b = CHR ''<'' then
            if starts_with t ''/'' then
              let name = takeWhile name_byte (drop 1 t); r = dropWhile name_byte (drop 1 t) in
              if starts_with r ''>'' then map_option ((#) (EndEvent name)) (read_html (drop 1 r)) else None
            else
              let name = takeWhile name_byte t in
              (case read_attributes (dropWhile name_byte t) of
                 None \<Rightarrow> None
               | Some (as, rest) \<Rightarrow>
                   if length rest \<le> length t then map_option ((#) (StartEvent name as)) (read_html rest)
                   else None)
          else
            map_option ((@) (map ByteEvent (unescape (takeWhile (\<lambda>b. b \<noteq> CHR ''<'') s))))
              (read_html (dropWhile (\<lambda>b. b \<noteq> CHR ''<'') t)))"
  by pat_completeness auto
termination
  by (relation "measure length") (auto simp: less_Suc_eq_le length_dropWhile_le)

declare read_html.simps [simp del]

section \<open>Pieces of a document\<close>

text \<open>What a renderer asks the writer for: tags with their attributes, and text.\<close>

datatype html_attribute =
    Passive PassiveAttributeName str
  | ActiveUrl ActiveUrlAttributeName SafeUrl
  | FragmentUrl ActiveUrlAttributeName SafeFragmentUrl
  | Classes "ClassName list" "RoleClass list"
  | SourceLanguage SourceLanguageClass
  | BooleanFlag BooleanAttributeName

datatype html_piece =
    StartTag ElementName "html_attribute list"
  | EndTag ElementName
  | TextPiece str
  | ParagraphPiece str
  | LineBreak

fun write_html_attribute :: "html_attribute \<Rightarrow> str \<Rightarrow> str" where
  "write_html_attribute (Passive n v) out = passive_attribute out n v"
| "write_html_attribute (ActiveUrl n v) out = active_url_attribute out n v"
| "write_html_attribute (FragmentUrl n v) out = fragment_url_attribute out n v"
| "write_html_attribute (Classes cs rs) out = class_attribute out cs rs"
| "write_html_attribute (SourceLanguage c) out = source_language_class_attribute out c"
| "write_html_attribute (BooleanFlag n) out = boolean_attribute out n"

fun write_piece :: "html_piece \<Rightarrow> str \<Rightarrow> str" where
  "write_piece (StartTag e as) out = finish_start (fold write_html_attribute as (write_start out e))"
| "write_piece (EndTag e) out = write_end out e"
| "write_piece (TextPiece v) out = write_text out v"
| "write_piece (ParagraphPiece v) out = inline_text out v"
| "write_piece LineBreak out = line_break out"

definition write_pieces :: "html_piece list \<Rightarrow> str" where
  "write_pieces ps = fold write_piece ps []"

text \<open>What a reader should find.\<close>

fun spaced_words :: "str list \<Rightarrow> str" where
  "spaced_words [] = []"
| "spaced_words [w] = w"
| "spaced_words (w # ws) = w @ '' '' @ spaced_words ws"

fun attribute_entry_of :: "html_attribute \<Rightarrow> str \<times> str option" where
  "attribute_entry_of (Passive n v) = (passive_str n, Some v)"
| "attribute_entry_of (ActiveUrl n v) = (active_str n, Some (safe_url_str v))"
| "attribute_entry_of (FragmentUrl n v) = (active_str n, Some (CHR ''#'' # fragment_str v))"
| "attribute_entry_of (Classes cs rs) =
     (CLASS_ATTRIBUTE, Some (spaced_words (map class_str cs @ map role_str rs)))"
| "attribute_entry_of (SourceLanguage c) = (CLASS_ATTRIBUTE, Some (language_str c))"
| "attribute_entry_of (BooleanFlag n) = (boolean_str n, None)"

text \<open>The text of a paragraph whose lines have been joined.\<close>

fun joined :: "str option \<Rightarrow> str list \<Rightarrow> str" where
  "joined previous [] = []"
| "joined previous (ch # rest) =
     (if ch = [carriage_return] \<or> ch = [line_feed] then
        let rest = (if ch = [carriage_return] \<and> rest \<noteq> [] \<and> hd rest = [line_feed] then tl rest else rest)
        in if joins_without_space previous (case rest of [] \<Rightarrow> None | next_ch # _ \<Rightarrow> Some next_ch)
           then joined previous rest
           else '' '' @ joined (Some '' '') rest
      else ch @ joined (Some ch) rest)"

fun piece_events :: "html_piece \<Rightarrow> html_event list" where
  "piece_events (StartTag e as) = [StartEvent (element_str e) (map attribute_entry_of as)]"
| "piece_events (EndTag e) = [EndEvent (element_str e)]"
| "piece_events (TextPiece v) = map ByteEvent v"
| "piece_events (ParagraphPiece v) = map ByteEvent (joined None (chars v))"
| "piece_events LineBreak = [ByteEvent line_feed]"

text \<open>Pieces made with the checked constructors only, of well-formed text.\<close>

fun attribute_ok :: "ActiveUrlPolicy \<Rightarrow> html_attribute \<Rightarrow> bool" where
  "attribute_ok policy (Passive n v) \<longleftrightarrow>
     (n = fragment_index \<or> n = aria_label \<or> (\<exists>x. PassiveAttributeName_new x = Some n)) \<and> valid_utf8 v"
| "attribute_ok policy (ActiveUrl n u) \<longleftrightarrow>
     (\<exists>x. ActiveUrlAttributeName_new x = Some n)
     \<and> (\<exists>x provenance. valid_utf8 x \<and> SafeUrl_from_policy x policy provenance = Some u)"
| "attribute_ok policy (FragmentUrl n u) \<longleftrightarrow>
     (\<exists>x. ActiveUrlAttributeName_new x = Some n)
     \<and> (\<exists>x. valid_utf8 x \<and> SafeFragmentUrl_new x = Some u)"
| "attribute_ok policy (Classes cs rs) \<longleftrightarrow>
     (\<forall>c \<in> set cs. c = fragment_class \<or> (\<exists>x. ClassName_new x = Some c))
     \<and> (\<forall>r \<in> set rs. \<exists>x. RoleClass_new x = Some r)"
| "attribute_ok policy (SourceLanguage c) \<longleftrightarrow> (\<exists>x. SourceLanguageClass_new x = Some c)"
| "attribute_ok policy (BooleanFlag n) \<longleftrightarrow> (\<exists>x. BooleanAttributeName_new x = Some n)"

fun piece_ok :: "ActiveUrlPolicy \<Rightarrow> html_piece \<Rightarrow> bool" where
  "piece_ok policy (StartTag e as) \<longleftrightarrow>
     (\<exists>x. ElementName_new x = Some e) \<and> (\<forall>a \<in> set as. attribute_ok policy a)"
| "piece_ok policy (EndTag e) \<longleftrightarrow> (\<exists>x. ElementName_new x = Some e)"
| "piece_ok policy (TextPiece v) \<longleftrightarrow> valid_utf8 v"
| "piece_ok policy (ParagraphPiece v) \<longleftrightarrow> valid_utf8 v"
| "piece_ok policy LineBreak \<longleftrightarrow> True"

section \<open>Reading back\<close>

lemma ascii_valid: "list_all (\<lambda>b. byte_val b < 128) s \<Longrightarrow> valid_utf8 s"
  by (induction s rule: chars.induct) (auto simp: valid_utf8_def utf8_len_def valid_scalar_def)

lemma name_bytes_ascii: "list_all name_byte s \<Longrightarrow> list_all (\<lambda>b. byte_val b < 128) s"
  by (auto simp: list_all_iff name_byte_def is_ascii_alphanumeric_def is_ascii_alphabetic_def
      is_ascii_upper_def is_ascii_lower_def is_ascii_digit_def in_byte_range_def)

lemma allowed_names:
  "\<forall>n \<in> set ALLOWED_ELEMENTS. list_all name_byte n \<and> n \<noteq> []"
  "\<forall>n \<in> set ALLOWED_ATTRIBUTES. list_all name_byte n"
  "\<forall>n \<in> set ACTIVE_URL_ATTRIBUTES. list_all name_byte n \<and> n \<in> set ALLOWED_ATTRIBUTES"
  "\<forall>n \<in> set BOOLEAN_ATTRIBUTES. list_all name_byte n \<and> n \<in> set ALLOWED_ATTRIBUTES"
  "\<forall>n \<in> set ALLOWED_CLASSES. list_all (\<lambda>b. byte_val b < 128) n"
  "CLASS_ATTRIBUTE \<in> set ALLOWED_ATTRIBUTES"
  by code_simp+

definition entry_text :: "str \<times> str option \<Rightarrow> str" where
  "entry_text e = '' '' @ fst e
     @ (case snd e of None \<Rightarrow> [] | Some v \<Rightarrow> ''='' @ [double_quote] @ escape v @ [double_quote])"

lemma write_classes_text:
  assumes "\<forall>c \<in> set cs. valid_utf8 c"
  shows "write_classes out i cs
    = out @ (if 0 < i \<and> cs \<noteq> [] then '' '' else []) @ escape (spaced_words cs)"
  using assms
proof (induction cs arbitrary: out i)
  case (Cons c cs)
  have space: "escape (CHR '' '' # x) = CHR '' '' # escape x" for x
    by (simp add: escape_Cons escape_byte_def escape_scalar_def)
  have words: "spaced_words (c # cs) = c @ (if cs = [] then [] else CHR '' '' # spaced_words cs)"
    by (cases cs) simp_all
  from Cons show ?case by (simp add: escape_into_escape space words)
qed simp

lemma role_name_ascii: "is_role_name r \<Longrightarrow> list_all (\<lambda>b. byte_val b < 128) r"
  by (auto simp: list_all_iff is_role_name_def is_ascii_alphanumeric_def is_ascii_alphabetic_def
      is_ascii_upper_def is_ascii_lower_def is_ascii_digit_def in_byte_range_def)

lemma language_ascii: "list_all (\<lambda>b. byte_val b < 128) (canonical_source_language l)"
proof -
  have "list_all (\<lambda>b. byte_val b < 128) (case ch of
         [b] \<Rightarrow> if is_ascii_alphanumeric b \<or> b = CHR ''-'' \<or> b = CHR ''_'' then [ascii_lower b] else ''-''
       | _ \<Rightarrow> ''-'')" for ch
    by (auto simp: ascii_lower_def is_ascii_alphanumeric_def is_ascii_alphabetic_def
        is_ascii_upper_def is_ascii_lower_def is_ascii_digit_def in_byte_range_def split: list.splits)
  then show ?thesis by (auto simp: canonical_source_language_def list_all_iff)
qed

lemma write_html_attribute_text:
  assumes "attribute_ok policy a"
  shows "write_html_attribute a out = out @ entry_text (attribute_entry_of a)"
proof (cases a)
  case (Passive n v)
  with assms show ?thesis
    by (simp add: passive_attribute_def write_attribute_def escape_into_escape entry_text_def)
next
  case (ActiveUrl n u)
  with assms have "valid_utf8 (safe_url_str u)"
    by (auto simp: SafeUrl_from_policy_def split: if_split_asm)
  with ActiveUrl show ?thesis
    by (simp add: active_url_attribute_def write_attribute_def escape_into_escape entry_text_def)
next
  case (FragmentUrl n u)
  with assms have "valid_utf8 (fragment_str u)"
    by (auto simp: SafeFragmentUrl_new_def split: if_split_asm)
  with FragmentUrl show ?thesis
    by (simp add: fragment_url_attribute_def escape_into_escape entry_text_def escape_Cons
        escape_byte_def escape_scalar_def)
next
  case (Classes cs rs)
  have "valid_utf8 (class_str c)" if c: "c \<in> set cs" for c
  proof -
    have "c = fragment_class \<or> class_str c \<in> set ALLOWED_CLASSES"
      using assms c Classes by (auto simp: ClassName_new_def split: if_split_asm)
    then have "list_all (\<lambda>b. byte_val b < 128) (class_str c)"
      using allowed_names(5) by (auto simp: fragment_class_def)
    then show ?thesis by (rule ascii_valid)
  qed
  moreover have "valid_utf8 (role_str r)" if r: "r \<in> set rs" for r
  proof -
    obtain x where "RoleClass_new x = Some r" using assms r Classes by auto
    then have "is_role_name x" "r = RoleClass (''role-'' @ x)"
      by (auto simp: RoleClass_new_def split: if_split_asm)
    with role_name_ascii [of x] show ?thesis by (intro ascii_valid) simp
  qed
  ultimately have "\<forall>c \<in> set (map class_str cs @ map role_str rs). valid_utf8 c" by auto
  with Classes show ?thesis
    by (simp add: class_attribute_def write_classes_text entry_text_def CLASS_ATTRIBUTE_def)
next
  case (SourceLanguage c)
  with assms obtain x where "c = SourceLanguageClass (''language-'' @ canonical_source_language x)"
    by (auto simp: SourceLanguageClass_new_def Let_def split: if_split_asm)
  with language_ascii [of x] have "valid_utf8 (language_str c)" by (intro ascii_valid) simp
  with SourceLanguage show ?thesis
    by (simp add: source_language_class_attribute_def write_attribute_def escape_into_escape entry_text_def)
next
  case (BooleanFlag n)
  then show ?thesis by (simp add: boolean_attribute_def entry_text_def)
qed

lemma attribute_name:
  assumes "attribute_ok policy a"
  shows "list_all name_byte (fst (attribute_entry_of a))"
    "fst (attribute_entry_of a) \<in> set ALLOWED_ATTRIBUTES \<union> {''data-fragment-index'', ''aria-label''}"
proof -
  have extra: "list_all name_byte ''data-fragment-index''" "list_all name_byte ''aria-label''"
    by code_simp+
  have "fst (attribute_entry_of a) \<in> set ALLOWED_ATTRIBUTES \<union> {''data-fragment-index'', ''aria-label''}"
    using assms allowed_names(3,4,6)
    by (cases a) (auto simp: PassiveAttributeName_new_def fragment_index_def aria_label_def
        ActiveUrlAttributeName_new_def BooleanAttributeName_new_def split: if_split_asm)
  then show "fst (attribute_entry_of a) \<in> set ALLOWED_ATTRIBUTES \<union> {''data-fragment-index'', ''aria-label''}"
    and "list_all name_byte (fst (attribute_entry_of a))"
    using allowed_names(2) extra by auto
qed

lemma takeWhile_name:
  assumes "list_all name_byte n" and "s \<noteq> [] \<longrightarrow> \<not> name_byte (hd s)"
  shows "takeWhile name_byte (n @ s) = n" "dropWhile name_byte (n @ s) = s"
proof -
  have "\<forall>b \<in> set n. name_byte b" using assms(1) by (simp add: list_all_iff)
  moreover have "takeWhile name_byte s = []" "dropWhile name_byte s = s"
    using assms(2) by (cases s; simp)+
  ultimately show "takeWhile name_byte (n @ s) = n" "dropWhile name_byte (n @ s) = s" by simp_all
qed

lemma separators: "\<not> name_byte (CHR '' '')" "\<not> name_byte (CHR ''>'')" "\<not> name_byte (CHR ''='')"
  "\<not> name_byte (CHR ''/'')"
  by code_simp+

lemma read_attributes_entries:
  assumes "\<forall>e \<in> set es. list_all name_byte (fst e)"
  shows "read_attributes (concat (map entry_text es) @ CHR ''>'' # rest) = Some (es, rest)"
  using assms
proof (induction es)
  case Nil
  then show ?case by (simp add: read_attributes.simps)
next
  case (Cons e es)
  obtain n v where e: "e = (n, v)" by force
  define tail where "tail = concat (map entry_text es) @ CHR ''>'' # rest"
  have n: "list_all name_byte n" using Cons.prems e by simp
  have tail: "tail \<noteq> []" "\<not> name_byte (hd tail)" "\<not> starts_with tail [CHR ''='', double_quote]"
    by (cases es; simp add: tail_def entry_text_def separators starts_with_def)+
  have ih: "read_attributes tail = Some (es, rest)" using Cons by (simp add: tail_def)
  have whole: "concat (map entry_text (e # es)) @ CHR ''>'' # rest = entry_text e @ tail"
    by (simp add: tail_def)
  have head: "takeWhile name_byte (n @ x) = n" "dropWhile name_byte (n @ x) = x"
    if "x \<noteq> []" "\<not> name_byte (hd x)" for x
    using takeWhile_name [OF n, of x] that by auto
  show ?case
  proof (cases v)
    case None
    have "read_attributes (CHR '' '' # n @ tail) = Some ((n, None) # es, rest)"
      using head [OF tail(1,2)] tail(3) ih
      by (simp add: read_attributes.simps [of "CHR '' '' # _"])
    then show ?thesis unfolding whole using None e by (simp add: entry_text_def)
  next
    case (Some w)
    define x where "x = CHR ''='' # double_quote # escape w @ double_quote # tail"
    have "x \<noteq> []" "\<not> name_byte (hd x)" by (simp_all add: x_def separators)
    note hx = head [OF this]
    have parts: "starts_with x [CHR ''='', double_quote]" "drop 2 x = escape w @ double_quote # tail"
      by (simp_all add: x_def starts_with_def)
    have no: "\<forall>b \<in> set (escape w). b \<noteq> double_quote" using escape_plain(3) [of w] by auto
    have "takeWhile (\<lambda>b. b \<noteq> double_quote) (escape w @ double_quote # tail) = escape w"
      "dropWhile (\<lambda>b. b \<noteq> double_quote) (escape w @ double_quote # tail) = double_quote # tail"
      using no by (simp_all add: takeWhile_append2 dropWhile_append2)
    moreover have "unescape (escape w) = w" using unescape_escape [of w "[]"] by simp
    ultimately have "read_attributes (CHR '' '' # n @ x) = Some ((n, Some w) # es, rest)"
      using hx parts ih by (simp add: read_attributes.simps [of "CHR '' '' # _"])
    then show ?thesis unfolding whole using Some e by (simp add: entry_text_def x_def)
  qed
qed

lemma read_html_run:
  "read_html s = map_option ((@) (map ByteEvent (unescape (takeWhile (\<lambda>b. b \<noteq> CHR ''<'') s))))
     (read_html (dropWhile (\<lambda>b. b \<noteq> CHR ''<'') s))"
proof (cases "s = [] \<or> hd s = CHR ''<''")
  case True
  have "map_option ((@) []) r = r" for r :: "html_event list option" by (cases r) simp_all
  with True show ?thesis by (cases s) auto
next
  case False
  then show ?thesis by (cases s) (auto simp: read_html.simps [of "_ # _"])
qed

lemma read_html_text:
  "read_html (escape t @ s) = map_option ((@) (map ByteEvent t)) (read_html s)"
proof -
  have no: "\<forall>b \<in> set (escape t). b \<noteq> CHR ''<''" using escape_plain(1) by auto
  show ?thesis
    unfolding read_html_run [of "escape t @ s"] read_html_run [of s]
    using no
    by (cases "read_html (dropWhile (\<lambda>b. b \<noteq> CHR ''<'') s)")
      (simp_all add: takeWhile_append2 dropWhile_append2 unescape_escape)
qed

text \<open>What a piece adds to the output.\<close>

definition piece_text :: "html_piece \<Rightarrow> str" where
  "piece_text p = (case p of
      StartTag e as \<Rightarrow> ''<'' @ element_str e @ concat (map (entry_text \<circ> attribute_entry_of) as) @ ''>''
    | EndTag e \<Rightarrow> ''</'' @ element_str e @ ''>''
    | TextPiece v \<Rightarrow> escape v
    | ParagraphPiece v \<Rightarrow> escape (joined None (chars v))
    | LineBreak \<Rightarrow> [line_feed])"

lemma fold_attributes:
  assumes "\<forall>a \<in> set as. attribute_ok policy a"
  shows "fold write_html_attribute as out = out @ concat (map (entry_text \<circ> attribute_entry_of) as)"
  using assms by (induction as arbitrary: out) (simp_all add: write_html_attribute_text [of policy])

lemma inline_text_loop_text:
  assumes "list_all valid_scalar cs"
  shows "inline_text_loop out previous cs = out @ escape (joined previous cs)"
  using assms
proof (induction out previous cs rule: inline_text_loop.induct)
  case (2 out previous ch rest)
  show ?case
  proof (cases "ch = [carriage_return] \<or> ch = [line_feed]")
    case False
    have "valid_utf8 ch"
    proof -
      have "valid_scalar ch" using 2(4) by simp
      then have "chars ch = [ch]"
        using valid_scalar_shape(1) by (cases ch) (auto simp: valid_scalar_def)
      with \<open>valid_scalar ch\<close> show ?thesis by (simp add: valid_utf8_def)
    qed
    with 2 False show ?thesis by (simp add: escape_into_escape)
  next
    case True
    define rest' where "rest' = (if ch = [carriage_return] \<and> rest \<noteq> [] \<and> hd rest = [line_feed] then tl rest else rest)"
    have v: "list_all valid_scalar rest'"
      using 2(4) by (cases rest) (auto simp: rest'_def)
    have space: "escape (CHR '' '' # x) = CHR '' '' # escape x" for x
      by (simp add: escape_Cons escape_byte_def escape_scalar_def)
    show ?thesis
    proof (cases "joins_without_space previous (case rest' of [] \<Rightarrow> None | next_ch # _ \<Rightarrow> Some next_ch)")
      case j: True
      from 2(1) [OF True rest'_def j v] True j show ?thesis
        by (simp add: rest'_def [symmetric] Let_def)
    next
      case j: False
      from 2(2) [OF True rest'_def j v] True j space show ?thesis
        by (simp add: rest'_def [symmetric] Let_def)
    qed
  qed
qed simp

lemma write_piece_text: "piece_ok policy p \<Longrightarrow> write_piece p out = out @ piece_text p"
  by (cases p)
    (auto simp: piece_text_def finish_start_def write_start_def fold_attributes [of _ policy] write_end_def
      write_text_def escape_into_escape inline_text_def inline_text_loop_text valid_utf8_def line_break_def)

lemma write_pieces_text:
  assumes "\<forall>p \<in> set ps. piece_ok policy p"
  shows "fold write_piece ps out = out @ concat (map piece_text ps)"
  using assms by (induction ps arbitrary: out) (simp_all add: write_piece_text [of policy])

lemma element_name: "ElementName_new x = Some e \<Longrightarrow> list_all name_byte (element_str e) \<and> element_str e \<noteq> []
    \<and> element_str e \<in> set ALLOWED_ELEMENTS"
  using bspec [OF allowed_names(1), of x] by (simp add: ElementName_new_def split: if_split_asm) auto

lemma read_piece:
  assumes "piece_ok policy p"
  shows "read_html (piece_text p @ s) = map_option ((@) (piece_events p)) (read_html s)"
proof (cases p)
  case (StartTag e as)
  let ?es = "map attribute_entry_of as"
  have e: "list_all name_byte (element_str e)" "element_str e \<noteq> []"
    using assms StartTag element_name by auto
  have as: "\<forall>x \<in> set ?es. list_all name_byte (fst x)"
    using assms StartTag attribute_name(1) by auto
  define t where "t = concat (map entry_text ?es) @ CHR ''>'' # s"
  have t: "t \<noteq> []" "\<not> name_byte (hd t)"
    by (cases as; simp add: t_def entry_text_def separators)+
  have r: "read_attributes t = Some (?es, s)"
    unfolding t_def by (rule read_attributes_entries [OF as])
  have names: "takeWhile name_byte (element_str e @ t) = element_str e"
    "dropWhile name_byte (element_str e @ t) = t"
    using takeWhile_name [OF e(1), of t] t by auto
  have slash: "\<not> starts_with (element_str e @ t) ''/''"
  proof -
    obtain b n where "element_str e = b # n" "name_byte b"
      using e by (cases "element_str e") auto
    with separators(4) show ?thesis by (auto simp: starts_with_def)
  qed
  have "read_html (CHR ''<'' # element_str e @ t)
      = map_option ((#) (StartEvent (element_str e) ?es)) (read_html s)"
    using names slash r by (simp add: read_html.simps [of "CHR ''<'' # _"] t_def)
  moreover have "piece_text p @ s = CHR ''<'' # element_str e @ t"
    using StartTag by (simp add: piece_text_def t_def comp_def)
  moreover have "piece_events p = [StartEvent (element_str e) ?es]" using StartTag by simp
  ultimately show ?thesis by (cases "read_html s") simp_all
next
  case (EndTag e)
  then have e: "list_all name_byte (element_str e)" using assms element_name by auto
  have names: "takeWhile name_byte (element_str e @ CHR ''>'' # s) = element_str e"
    "dropWhile name_byte (element_str e @ CHR ''>'' # s) = CHR ''>'' # s"
    using takeWhile_name [OF e, of "CHR ''>'' # s"] separators by auto
  then show ?thesis
    using EndTag by (cases "read_html s")
      (simp_all add: piece_text_def read_html.simps [of "CHR ''<'' # _"] starts_with_def)
next
  case LineBreak
  have "escape [line_feed] = [line_feed]" by (simp add: escape_Cons escape_byte_def escape_scalar_def)
  with read_html_text [of "[line_feed]" s] LineBreak show ?thesis by (simp add: piece_text_def)
qed (simp_all add: piece_text_def read_html_text)

lemma read_pieces:
  assumes "\<forall>p \<in> set ps. piece_ok policy p"
  shows "read_html (concat (map piece_text ps)) = Some (concat (map piece_events ps))"
  using assms
proof (induction ps)
  case Nil
  then show ?case by (simp add: read_html.simps)
next
  case (Cons p ps)
  then show ?case by (simp add: read_piece [of policy])
qed

text \<open>A style body cannot end its element: the first end tag after it is the writer's.\<close>

lemma contains_ignore_case_at:
  "pat \<noteq> [] \<Longrightarrow> i + length pat \<le> length s \<Longrightarrow> eq_ignore_ascii_case (slice s i (i + length pat)) pat \<Longrightarrow>
     contains_ignore_case pat s"
proof (induction pat s arbitrary: i rule: contains_ignore_case.induct)
  case (2 pat b s)
  show ?case
  proof (cases i)
    case 0
    with 2 show ?thesis by (simp add: slice_from_zero)
  next
    case (Suc j)
    with 2 have "contains_ignore_case pat s" by (auto simp: slice_def)
    then show ?thesis by simp
  qed
qed simp

lemma style_body_confined:
  assumes "SafeStyleBody_new v = Some b" and "i < length v"
  shows "\<not> eq_ignore_ascii_case (slice (style_str b @ ''</style>'') i (i + 7)) ''</style''"
proof
  let ?w = "slice (style_str b @ ''</style>'') i (i + 7)"
  assume eq: "eq_ignore_ascii_case ?w ''</style''"
  have v: "style_str b = v" "\<not> contains_ignore_case ''</style'' v"
    using assms(1) by (auto simp: SafeStyleBody_new_def split: if_split_asm)
  show False
  proof (cases "i + 7 \<le> length v")
    case True
    then have "?w = slice v i (i + length ''</style'')" using v by (simp add: slice_def)
    with contains_ignore_case_at [of "''</style''" i v] eq v True show False by simp
  next
    case False
    define k where "k = length v - i"
    have k: "0 < k" "k < 7" using False assms(2) by (auto simp: k_def)
    then have "?w ! k = CHR ''<''"
      using v False assms(2) by (simp add: slice_def k_def nth_append)
    moreover have "map ascii_lower ?w = ''</style''"
      using eq by (simp add: eq_ignore_ascii_case_def to_ascii_lowercase_def ascii_lower_def
          is_ascii_upper_def in_byte_range_def)
    moreover have "length ?w = 7" using v assms(2) by (simp add: slice_def)
    moreover have "ascii_lower (CHR ''<'') = CHR ''<''" by code_simp
    ultimately have "''</style'' ! k = CHR ''<''" using k(2) nth_map [of k ?w ascii_lower] by simp
    with k show False by (auto simp: less_Suc_eq numeral_eq_Suc)
  qed
qed

section \<open>Properties\<close>

text \<open>C39. What is written is what is read. A reader of the written HTML finds exactly the tags,
  attributes and text the renderer asked for: no text and no attribute value, whatever it
  contains, becomes markup or ends early.\<close>

theorem html_reads_back:
  assumes "\<forall>p \<in> set ps. piece_ok policy p"
  shows "read_html (write_pieces ps) = Some (concat (map piece_events ps))"
  using read_pieces [OF assms] write_pieces_text [OF assms, of "[]"] by (simp add: write_pieces_def)

definition sample_pieces :: "html_piece list" where
  "sample_pieces =
     [StartTag (ElementName ''a'')
        [FragmentUrl (ActiveUrlAttributeName ''href'') (SafeFragmentUrl ''x''),
         Passive (PassiveAttributeName ''title'') ([double_quote] @ ''><b>'')],
      TextPiece ''<i>&amp;'', EndTag (ElementName ''a'')]"

lemma sample_pieces_ok: "\<forall>p \<in> set sample_pieces. piece_ok ActiveUrlPolicy_default p"
proof -
  have "ElementName_new ''a'' = Some (ElementName ''a'')"
    "ActiveUrlAttributeName_new ''href'' = Some (ActiveUrlAttributeName ''href'')"
    "SafeFragmentUrl_new ''x'' = Some (SafeFragmentUrl ''x'')"
    "PassiveAttributeName_new ''title'' = Some (PassiveAttributeName ''title'')"
    "valid_utf8 ''x''" "valid_utf8 ([double_quote] @ ''><b>'')" "valid_utf8 ''<i>&amp;''"
    by code_simp+
  then show ?thesis unfolding sample_pieces_def by (auto intro: exI)
qed

theorem html_reads_back_witness:
  "read_html (write_pieces sample_pieces)
     = Some ([StartEvent ''a'' [(''href'', Some ''#x''), (''title'', Some ([double_quote] @ ''><b>''))]]
             @ map ByteEvent ''<i>&amp;'' @ [EndEvent ''a''])"
  using html_reads_back [OF sample_pieces_ok] by (simp add: sample_pieces_def)



end
