(* ===== verification/Lsp_Lifecycle.thy ===== *)
theory Lsp_Lifecycle
  imports Str
begin

text \<open>
  \<open>adocweave-lsp/src/lifecycle.rs\<close>: the gate that owns the protocol state of the language
  server in front of the service that handles the messages. The service is a parameter: two
  functions from its state and a message to its next state and its answer.
\<close>

section \<open>Messages and answers\<close>

record 'p AnyRequest =
  request_method :: str
  request_payload :: 'p

record 'p AnyNotification =
  notification_method :: str
  notification_payload :: 'p

datatype ErrorCode = SERVER_NOT_INITIALIZED | INVALID_REQUEST

record ResponseError =
  error_code :: ErrorCode
  error_message :: str

text \<open>\<open>ControlFlow\<close> with the result of the session; the gate adds protocol errors of its own.\<close>

datatype 'e lsp_error = Protocol str | ServiceError 'e

datatype 'e control_flow = Continue | Break "'e lsp_error + unit"

definition INITIALIZE :: str where "INITIALIZE = ''initialize''"
definition SHUTDOWN :: str where "SHUTDOWN = ''shutdown''"
definition INITIALIZED :: str where "INITIALIZED = ''initialized''"
definition EXIT :: str where "EXIT = ''exit''"

lemmas method_defs = INITIALIZE_def SHUTDOWN_def INITIALIZED_def EXIT_def

section \<open>The gate\<close>

datatype LifecycleState = Uninitialized | Initializing | Ready | ShuttingDown

record 's ProtocolLifecycle =
  lifecycle_inner :: 's
  lifecycle_state :: LifecycleState

definition lifecycle_new :: "'s \<Rightarrow> 's ProtocolLifecycle" where
  "lifecycle_new s = \<lparr>lifecycle_inner = s, lifecycle_state = Uninitialized\<rparr>"

type_synonym ('s, 'p, 'r) request_service = "'s \<Rightarrow> 'p AnyRequest \<Rightarrow> 's \<times> 'r"
type_synonym ('s, 'p, 'e) notification_service = "'s \<Rightarrow> 'p AnyNotification \<Rightarrow> 's \<times> 'e control_flow"

text \<open>\<open>Either::Left\<close> is the answer of the service, \<open>Either::Right\<close> a refusal of the gate.\<close>

definition forward_request ::
    "('s, 'p, 'r) request_service \<Rightarrow> LifecycleState \<Rightarrow> 's ProtocolLifecycle \<Rightarrow> 'p AnyRequest
     \<Rightarrow> 's ProtocolLifecycle \<times> (ResponseError + 'r)" where
  "forward_request serve next_state g r =
     (let (s, answer) = serve (lifecycle_inner g) r
      in (\<lparr>lifecycle_inner = s, lifecycle_state = next_state\<rparr>, Inr answer))"

definition refuse ::
    "ErrorCode \<Rightarrow> str \<Rightarrow> 's ProtocolLifecycle \<Rightarrow> 's ProtocolLifecycle \<times> (ResponseError + 'r)" where
  "refuse code message g = (g, Inl \<lparr>error_code = code, error_message = message\<rparr>)"

definition lifecycle_call ::
    "('s, 'p, 'r) request_service \<Rightarrow> 's ProtocolLifecycle \<Rightarrow> 'p AnyRequest
     \<Rightarrow> 's ProtocolLifecycle \<times> (ResponseError + 'r)" where
  "lifecycle_call serve g r =
     (let state = lifecycle_state g; m = request_method r in
      if state = Uninitialized \<and> m = INITIALIZE then forward_request serve Initializing g r
      else if state = Uninitialized \<or> state = Initializing
      then refuse SERVER_NOT_INITIALIZED ''server is not initialized'' g
      else if m = INITIALIZE then refuse INVALID_REQUEST ''server is already initialized'' g
      else if state = Ready \<and> m = SHUTDOWN then forward_request serve ShuttingDown g r
      else if state = Ready then forward_request serve Ready g r
      else refuse INVALID_REQUEST ''server is shutting down'' g)"

definition lifecycle_notify ::
    "('s, 'p, 'e) notification_service \<Rightarrow> 's ProtocolLifecycle \<Rightarrow> 'p AnyNotification
     \<Rightarrow> 's ProtocolLifecycle \<times> 'e control_flow" where
  "lifecycle_notify notify g n =
     (let state = lifecycle_state g; m = notification_method n in
      if m = EXIT then
        let (s, _) = notify (lifecycle_inner g) n
        in (g\<lparr>lifecycle_inner := s\<rparr>,
            if state = ShuttingDown then Break (Inr ())
            else Break (Inl (Protocol ''exit received before shutdown'')))
      else if m = INITIALIZED \<and> state = Initializing then
        let (s, flow) = notify (lifecycle_inner g) n
        in (\<lparr>lifecycle_inner = s, lifecycle_state = Ready\<rparr>, flow)
      else if m = INITIALIZED then (g, Continue)
      else if state = Ready then
        let (s, flow) = notify (lifecycle_inner g) n in (g\<lparr>lifecycle_inner := s\<rparr>, flow)
      else (g, Continue))"

section \<open>Sessions\<close>

text \<open>
  The client's messages in the order they arrive. A session feeds them to the gate until it
  breaks or they run out; it records which messages reach the service.
\<close>

datatype 'p message = Request "'p AnyRequest" | Notification "'p AnyNotification"

text \<open>One message: the messages that reach the service, and how the session goes on.\<close>

definition message_step ::
    "('s, 'p, 'r) request_service \<Rightarrow> ('s, 'p, 'e) notification_service \<Rightarrow> 's ProtocolLifecycle
     \<Rightarrow> 'p message \<Rightarrow> 's ProtocolLifecycle \<times> 'e control_flow" where
  "message_step serve notify g m = (case m of
      Request r \<Rightarrow> (fst (lifecycle_call serve g r), Continue)
    | Notification n \<Rightarrow> lifecycle_notify notify g n)"

fun session ::
    "('s, 'p, 'r) request_service \<Rightarrow> ('s, 'p, 'e) notification_service \<Rightarrow> 's ProtocolLifecycle
     \<Rightarrow> 'p message list \<Rightarrow> 's ProtocolLifecycle \<times> 'e control_flow" where
  "session serve notify g [] = (g, Continue)"
| "session serve notify g (m # ms) =
     (let (g, flow) = message_step serve notify g m
      in case flow of Continue \<Rightarrow> session serve notify g ms | Break r \<Rightarrow> (g, Break r))"

text \<open>A service that also keeps the list of what it was given.\<close>

definition logged_serve :: "('s, 'p, 'r) request_service \<Rightarrow> ('s \<times> 'p message list, 'p, 'r) request_service" where
  "logged_serve serve sl r =
     (let (s, answer) = serve (fst sl) r in ((s, snd sl @ [Request r]), answer))"

definition logged_notify ::
    "('s, 'p, 'e) notification_service \<Rightarrow> ('s \<times> 'p message list, 'p, 'e) notification_service" where
  "logged_notify notify sl n =
     (let (s, flow) = notify (fst sl) n in ((s, snd sl @ [Notification n]), flow))"

text \<open>The abstract protocol: what a service may see, in which order.\<close>

definition is_initialize :: "'p message \<Rightarrow> bool" where
  "is_initialize m \<longleftrightarrow> (\<exists>r. m = Request r \<and> request_method r = INITIALIZE)"

definition is_initialized :: "'p message \<Rightarrow> bool" where
  "is_initialized m \<longleftrightarrow> (\<exists>n. m = Notification n \<and> notification_method n = INITIALIZED)"

definition is_shutdown :: "'p message \<Rightarrow> bool" where
  "is_shutdown m \<longleftrightarrow> (\<exists>r. m = Request r \<and> request_method r = SHUTDOWN)"

definition is_exit :: "'p message \<Rightarrow> bool" where
  "is_exit m \<longleftrightarrow> (\<exists>n. m = Notification n \<and> notification_method n = EXIT)"

definition ordinary :: "'p message \<Rightarrow> bool" where
  "ordinary m \<longleftrightarrow> \<not> is_initialize m \<and> \<not> is_initialized m \<and> \<not> is_shutdown m \<and> \<not> is_exit m"

inductive seen :: "LifecycleState \<Rightarrow> 'p message list \<Rightarrow> bool" where
  nothing: "seen Uninitialized []"
| initialize: "seen Uninitialized ms \<Longrightarrow> is_initialize m \<Longrightarrow> seen Initializing (ms @ [m])"
| initialized: "seen Initializing ms \<Longrightarrow> is_initialized m \<Longrightarrow> seen Ready (ms @ [m])"
| work: "seen Ready ms \<Longrightarrow> ordinary m \<Longrightarrow> seen Ready (ms @ [m])"
| shutdown: "seen Ready ms \<Longrightarrow> is_shutdown m \<Longrightarrow> seen ShuttingDown (ms @ [m])"

inductive_cases seen_UninitializedE: "seen Uninitialized ms"
inductive_cases seen_InitializingE: "seen Initializing ms"
inductive_cases seen_ReadyE: "seen Ready ms"
inductive_cases seen_ShuttingDownE: "seen ShuttingDown ms"

text \<open>The shape of what a service has seen in each state.\<close>

lemma seen_shape:
  "seen st ms \<Longrightarrow> \<exists>i j work x. list_all is_initialize i \<and> list_all is_initialized j
     \<and> list_all ordinary work \<and> list_all is_shutdown x \<and> ms = i @ j @ work @ x
     \<and> length i = (if st = Uninitialized then 0 else 1)
     \<and> length j = (if st = Ready \<or> st = ShuttingDown then 1 else 0)
     \<and> (st = Uninitialized \<or> st = Initializing \<longrightarrow> work = [])
     \<and> length x = (if st = ShuttingDown then 1 else 0)"
proof (induction rule: seen.induct)
  case (initialize ms m)
  show ?case by (rule exI [of _ "[m]"], rule exI [of _ "[]"]) (use initialize in auto)
next
  case (initialized ms m)
  then obtain i where ih: "list_all is_initialize i" "ms = i" "length i = 1" by auto
  show ?case
    by (rule exI [of _ i], rule exI [of _ "[m]"], rule exI [of _ "[]"]) (use initialized ih in auto)
next
  case (work ms m)
  then obtain i j w where ih: "list_all is_initialize i" "list_all is_initialized j" "list_all ordinary w"
    "ms = i @ j @ w" "length i = 1" "length j = 1" by auto
  show ?case by (rule exI [of _ i], rule exI [of _ j], rule exI [of _ "w @ [m]"], rule exI [of _ "[]"]) (use work ih in auto)
next
  case (shutdown ms m)
  then obtain i j w where ih: "list_all is_initialize i" "list_all is_initialized j" "list_all ordinary w"
    "ms = i @ j @ w" "length i = 1" "length j = 1" by auto
  show ?case
    by (rule exI [of _ i], rule exI [of _ j], rule exI [of _ w], rule exI [of _ "[m]"]) (use shutdown ih in auto)
qed auto

abbreviation logged_session ::
    "('s, 'p, 'r) request_service \<Rightarrow> ('s, 'p, 'e) notification_service
     \<Rightarrow> ('s \<times> 'p message list) ProtocolLifecycle \<Rightarrow> 'p message list
     \<Rightarrow> ('s \<times> 'p message list) ProtocolLifecycle \<times> 'e control_flow" where
  "logged_session serve notify \<equiv> session (logged_serve serve) (logged_notify notify)"

abbreviation log_of :: "('s \<times> 'p message list) ProtocolLifecycle \<Rightarrow> 'p message list" where
  "log_of g \<equiv> snd (lifecycle_inner g)"

lemmas role_defs =
  is_initialize_def is_initialized_def is_shutdown_def is_exit_def ordinary_def method_defs

definition moves :: "LifecycleState \<Rightarrow> 'p message \<Rightarrow> LifecycleState \<Rightarrow> bool" where
  "moves st m st' \<longleftrightarrow>
     st = Uninitialized \<and> is_initialize m \<and> st' = Initializing
     \<or> st = Initializing \<and> is_initialized m \<and> st' = Ready
     \<or> st = Ready \<and> ordinary m \<and> st' = Ready
     \<or> st = Ready \<and> is_shutdown m \<and> st' = ShuttingDown"

lemma moves_seen: "seen st ms \<Longrightarrow> moves st m st' \<Longrightarrow> seen st' (ms @ [m])"
  unfolding moves_def using seen.intros by blast

lemma message_step_moves:
  assumes "message_step (logged_serve serve) (logged_notify notify) g m = (g', flow)"
  shows "if is_exit m
    then lifecycle_state g' = lifecycle_state g \<and> log_of g' = log_of g @ [m]
      \<and> flow = Break (if lifecycle_state g = ShuttingDown then Inr ()
                      else Inl (Protocol ''exit received before shutdown''))
    else lifecycle_state g' = lifecycle_state g \<and> log_of g' = log_of g
      \<or> log_of g' = log_of g @ [m] \<and> moves (lifecycle_state g) m (lifecycle_state g')"
proof (cases m)
  case (Request r)
  with assms show ?thesis
    by (cases "lifecycle_state g")
      (auto simp: message_step_def lifecycle_call_def forward_request_def refuse_def logged_serve_def
        Let_def moves_def role_defs split: prod.splits if_splits)
next
  case (Notification n)
  with assms show ?thesis
    by (cases "lifecycle_state g")
      (auto simp: message_step_def lifecycle_notify_def logged_notify_def Let_def moves_def role_defs
        split: prod.splits if_splits)
qed

lemma message_step_seen:
  assumes "seen (lifecycle_state g) (log_of g)"
    and "message_step (logged_serve serve) (logged_notify notify) g m = (g', flow)"
  shows "if is_exit m
    then lifecycle_state g' = lifecycle_state g \<and> log_of g' = log_of g @ [m]
      \<and> flow = Break (if lifecycle_state g = ShuttingDown then Inr ()
                      else Inl (Protocol ''exit received before shutdown''))
    else seen (lifecycle_state g') (log_of g')"
  using message_step_moves [OF assms(2)] moves_seen [OF assms(1)] assms(1) by (metis (no_types, lifting))

lemma session_seen:
  assumes "logged_session serve notify g ms = (g', flow)" and "seen (lifecycle_state g) (log_of g)"
  shows "\<exists>st log. seen st log \<and> (log_of g' = log
    \<or> (\<exists>m. is_exit m \<and> log_of g' = log @ [m]
         \<and> flow = Break (if st = ShuttingDown then Inr ()
                         else Inl (Protocol ''exit received before shutdown''))))"
  using assms
proof (induction ms arbitrary: g)
  case (Cons m ms)
  obtain g1 f1 where step: "message_step (logged_serve serve) (logged_notify notify) g m = (g1, f1)"
    by force
  note one = message_step_seen [OF Cons.prems(2) step]
  show ?case
  proof (cases "is_exit m")
    case True
    show ?thesis
      by (rule exI [of _ "lifecycle_state g"], rule exI [of _ "log_of g"]) (use True one step Cons.prems in auto)
  next
    case False
    with one have s: "seen (lifecycle_state g1) (log_of g1)" by simp
    show ?thesis
    proof (cases f1)
      case Continue
      with Cons.IH [OF _ s] Cons.prems(1) step show ?thesis by simp
    next
      case (Break r)
      with Cons.prems(1) step have g': "g' = g1" by simp
      show ?thesis by (rule exI [of _ "lifecycle_state g1"], rule exI [of _ "log_of g1"]) (use s g' in simp)
    qed
  qed
qed auto

section \<open>Properties\<close>

text \<open>C35. Whatever a client sends, the service behind the gate sees a well-formed session: the
  initialize request, then the initialized notification, then ordinary messages, then at most
  one shutdown request, and in any of these states possibly an exit, which ends the session,
  cleanly just when shutdown came before it.\<close>

theorem service_sees_protocol:
  assumes "logged_session serve notify (lifecycle_new (s, [])) ms = (g, flow)"
  shows "\<exists>i j work x e. log_of g = i @ j @ work @ x @ e
    \<and> list_all is_initialize i \<and> list_all is_initialized j \<and> list_all ordinary work
    \<and> list_all is_shutdown x \<and> list_all is_exit e
    \<and> length i \<le> 1 \<and> length j \<le> length i \<and> (work \<noteq> [] \<longrightarrow> j \<noteq> [])
    \<and> length x \<le> length j \<and> length e \<le> 1
    \<and> (e \<noteq> [] \<longrightarrow> flow = Break (if x \<noteq> [] then Inr ()
                                  else Inl (Protocol ''exit received before shutdown'')))"
proof -
  have "seen (lifecycle_state (lifecycle_new (s, []))) (log_of (lifecycle_new (s, [])))"
    by (simp add: lifecycle_new_def seen.nothing)
  from session_seen [OF assms this] obtain st log where log: "seen st log" and
    c: "log_of g = log \<or> (\<exists>m. is_exit m \<and> log_of g = log @ [m]
         \<and> flow = Break (if st = ShuttingDown then Inr ()
                         else Inl (Protocol ''exit received before shutdown'')))"
    by blast
  from seen_shape [OF log] obtain i j work x where s: "list_all is_initialize i"
    "list_all is_initialized j" "list_all ordinary work" "list_all is_shutdown x"
    "log = i @ j @ work @ x" "length i = (if st = Uninitialized then 0 else 1)"
    "length j = (if st = Ready \<or> st = ShuttingDown then 1 else 0)"
    "st = Uninitialized \<or> st = Initializing \<longrightarrow> work = []"
    "length x = (if st = ShuttingDown then 1 else 0)"
    by blast
  have sizes: "length i \<le> 1" "length j \<le> length i" "work \<noteq> [] \<longrightarrow> j \<noteq> []" "length x \<le> length j"
    "x \<noteq> [] \<longleftrightarrow> st = ShuttingDown"
    using s(6-9) by (cases st; auto)+
  from c show ?thesis
  proof
    assume same: "log_of g = log"
    show ?thesis
      by (rule exI [of _ i], rule exI [of _ j], rule exI [of _ work], rule exI [of _ x], rule exI [of _ "[]"]) (use s sizes same in simp)
  next
    assume "\<exists>m. is_exit m \<and> log_of g = log @ [m]
         \<and> flow = Break (if st = ShuttingDown then Inr ()
                         else Inl (Protocol ''exit received before shutdown''))"
    then obtain m where left: "is_exit m" "log_of g = log @ [m]"
      "flow = Break (if st = ShuttingDown then Inr ()
                     else Inl (Protocol ''exit received before shutdown''))" by blast
    show ?thesis
      by (rule exI [of _ i], rule exI [of _ j], rule exI [of _ work], rule exI [of _ x], rule exI [of _ "[m]"]) (use s sizes left in simp)
  qed
qed

definition request_of :: "str \<Rightarrow> unit message" where
  "request_of m = Request \<lparr>request_method = m, request_payload = ()\<rparr>"

definition notification_of :: "str \<Rightarrow> unit message" where
  "notification_of m = Notification \<lparr>notification_method = m, notification_payload = ()\<rparr>"

text \<open>A service that does nothing and never ends the session.\<close>

definition idle_serve :: "(unit, 'p, unit) request_service" where
  "idle_serve s r = ((), ())"

definition idle_notify :: "(unit, 'p, unit) notification_service" where
  "idle_notify s n = ((), Continue)"

theorem service_sees_protocol_witness:
  "\<exists>i j work x e. [request_of INITIALIZE, notification_of EXIT] = i @ j @ work @ x @ e
    \<and> list_all is_initialize i \<and> list_all is_exit e \<and> length i \<le> 1"
proof -
  have "\<exists>g flow. logged_session idle_serve idle_notify (lifecycle_new ((), []))
      [request_of SHUTDOWN, request_of INITIALIZE, notification_of ''x'', notification_of EXIT] = (g, flow)
    \<and> log_of g = [request_of INITIALIZE, notification_of EXIT]"
    by (simp add: message_step_def lifecycle_call_def lifecycle_notify_def forward_request_def refuse_def
        logged_serve_def logged_notify_def idle_serve_def idle_notify_def lifecycle_new_def
        request_of_def notification_of_def method_defs)
  then obtain g flow where g: "logged_session idle_serve idle_notify (lifecycle_new ((), []))
      [request_of SHUTDOWN, request_of INITIALIZE, notification_of ''x'', notification_of EXIT] = (g, flow)"
    "log_of g = [request_of INITIALIZE, notification_of EXIT]" by blast
  from service_sees_protocol [OF g(1)] g(2) show ?thesis by metis
qed

text \<open>The steps of a client that keeps to the protocol.\<close>

lemma ordinary_step:
  assumes "ordinary m" and "lifecycle_state g = Ready"
    and "\<And>s n. snd (notify s n) = Continue"
  shows "\<exists>s'. message_step (logged_serve serve) (logged_notify notify) g m
    = (\<lparr>lifecycle_inner = (s', log_of g @ [m]), lifecycle_state = Ready\<rparr>, Continue)"
proof (cases m)
  case (Request r)
  with assms(1,2) show ?thesis
    by (auto simp: message_step_def lifecycle_call_def forward_request_def logged_serve_def
        role_defs split: prod.splits)
next
  case (Notification n)
  with assms(1,2) assms(3) [of "fst (lifecycle_inner g)" n] show ?thesis
    by (cases g)
      (auto simp: message_step_def lifecycle_notify_def logged_notify_def role_defs split: prod.splits)
qed

lemma ordinary_session:
  assumes "list_all ordinary work" and "lifecycle_state g = Ready"
    and "\<And>s n. snd (notify s n) = Continue"
  shows "\<exists>s'. logged_session serve notify g (work @ ms)
    = logged_session serve notify
        \<lparr>lifecycle_inner = (s', log_of g @ work), lifecycle_state = Ready\<rparr> ms"
  using assms(1,2)
proof (induction work arbitrary: g)
  case Nil
  have "g = \<lparr>lifecycle_inner = (fst (lifecycle_inner g), log_of g @ []), lifecycle_state = Ready\<rparr>"
    using Nil by (cases g) simp
  then show ?case by (metis append_Nil)
next
  case (Cons m work)
  from ordinary_step [of m g notify serve] Cons.prems assms(3) obtain s1 where
    step: "message_step (logged_serve serve) (logged_notify notify) g m
      = (\<lparr>lifecycle_inner = (s1, log_of g @ [m]), lifecycle_state = Ready\<rparr>, Continue)"
    by auto
  from Cons.IH [of "\<lparr>lifecycle_inner = (s1, log_of g @ [m]), lifecycle_state = Ready\<rparr>"] Cons.prems step
  show ?case by auto
qed



end
