(* ===== verification/Confinement.thy ===== *)
theory Confinement
  imports Urls "HOL-Library.List_Lexorder" "HOL-Library.Char_ord"
begin

text \<open>
  The paths of \<open>adocweave-project/src/filesystem\<close>: \<open>path.rs\<close>, the lexical part of \<open>mod.rs\<close> and
  the choice of an authority in \<open>authority.rs\<close>, as they are on Linux. A \<open>Path\<close> of the standard
  library is the list of its components, which is what its equality, its order and \<open>starts_with\<close>
  look at. Opening a directory is a parameter.
\<close>

section \<open>Paths\<close>

datatype component = RootDir | CurDir | ParentDir | Normal str

text \<open>The derived order of the components: by variant, then by name.\<close>

fun component_key :: "component \<Rightarrow> nat \<times> str" where
  "component_key RootDir = (1, [])"
| "component_key CurDir = (2, [])"
| "component_key ParentDir = (3, [])"
| "component_key (Normal s) = (4, s)"

lemma component_key_inj: "component_key a = component_key b \<longleftrightarrow> a = b"
  by (cases a; cases b) auto

instantiation component :: linorder
begin

definition less_eq_component :: "component \<Rightarrow> component \<Rightarrow> bool" where
  "less_eq_component a b \<longleftrightarrow>
     fst (component_key a) < fst (component_key b)
     \<or> fst (component_key a) = fst (component_key b) \<and> snd (component_key a) \<le> snd (component_key b)"

definition less_component :: "component \<Rightarrow> component \<Rightarrow> bool" where
  "less_component a b \<longleftrightarrow>
     fst (component_key a) < fst (component_key b)
     \<or> fst (component_key a) = fst (component_key b) \<and> snd (component_key a) < snd (component_key b)"

instance
proof
  fix x y z :: component
  show "x < y \<longleftrightarrow> x \<le> y \<and> \<not> y \<le> x" by (auto simp: less_eq_component_def less_component_def)
  show "x \<le> x" by (simp add: less_eq_component_def)
  show "x \<le> z" if "x \<le> y" "y \<le> z" using that by (auto simp: less_eq_component_def)
  show "x = y" if "x \<le> y" "y \<le> x"
    using that component_key_inj [of x y] by (auto simp: less_eq_component_def prod_eq_iff)
  show "x \<le> y \<or> y \<le> x" by (auto simp: less_eq_component_def)
qed

end

type_synonym path = "component list"

text \<open>
  \<open>Path::components\<close> on Unix: repeated separators and inner dots vanish, and a dot stays only
  at the start of a relative path.
\<close>

definition component_of :: "str \<Rightarrow> component" where
  "component_of s = (if s = ''..'' then ParentDir else Normal s)"

definition path_components :: "str \<Rightarrow> path" where
  "path_components s =
     (let parts = split_chars ''/'' s;
          named = map component_of (filter (\<lambda>p. p \<noteq> [] \<and> p \<noteq> ''.'') parts)
      in if starts_with s ''/'' then RootDir # named
         else if hd parts = ''.'' then CurDir # named else named)"

definition path_starts_with :: "path \<Rightarrow> path \<Rightarrow> bool" where
  "path_starts_with p root \<longleftrightarrow> take (length root) p = root"

definition strip_path_prefix :: "path \<Rightarrow> path \<Rightarrow> path option" where
  "strip_path_prefix p root = (if path_starts_with p root then Some (drop (length root) p) else None)"

definition is_absolute :: "path \<Rightarrow> bool" where
  "is_absolute p \<longleftrightarrow> p \<noteq> [] \<and> hd p = RootDir"

text \<open>\<open>PathBuf::pop\<close>: whether there is a parent, and the path with its last component removed.\<close>

definition path_pop :: "path \<Rightarrow> bool \<times> path" where
  "path_pop p = (if p = [] \<or> last p = RootDir then (False, p) else (True, butlast p))"

section \<open>Errors\<close>

datatype FilesystemError =
    Missing path
  | OutsideRoot path
  | NotFile path
  | NotDirectory path
  | PermissionDenied path
  | PathNotAbsolute path
  | InvalidUtf8 path
  | Inspect path str
  | Unverifiable str
  | FilesystemLimitExceeded nat
  | ResourceTooLarge path
  | ReadLimitExceeded

definition filesystem_diagnostic_code :: "FilesystemError \<Rightarrow> str" where
  "filesystem_diagnostic_code e = (case e of
      Missing _ \<Rightarrow> ''local-target-missing''
    | OutsideRoot _ \<Rightarrow> ''local-target-outside-root''
    | PathNotAbsolute _ \<Rightarrow> ''local-target-outside-root''
    | NotFile _ \<Rightarrow> ''local-target-not-file''
    | NotDirectory _ \<Rightarrow> ''local-target-not-file''
    | PermissionDenied _ \<Rightarrow> ''local-target-permission-denied''
    | InvalidUtf8 _ \<Rightarrow> ''local-target-unverifiable''
    | Inspect _ _ \<Rightarrow> ''local-target-unverifiable''
    | Unverifiable _ \<Rightarrow> ''local-target-unverifiable''
    | FilesystemLimitExceeded _ \<Rightarrow> ''local-target-limit-exceeded''
    | ResourceTooLarge _ \<Rightarrow> ''local-target-unverifiable''
    | ReadLimitExceeded \<Rightarrow> ''local-target-unverifiable'')"

section \<open>Decoding and normalizing a target\<close>

text \<open>The loop over the bytes: \<open>None\<close> for a broken escape.\<close>

fun decode_loop :: "str \<Rightarrow> str option" where
  "decode_loop [] = Some []"
| "decode_loop (b # s) =
     (if b \<noteq> CHR 0x25 then map_option ((#) b) (decode_loop s)
      else (case s of
          h # l # rest \<Rightarrow>
            (case (hex h, hex l) of
               (Some high, Some low) \<Rightarrow> map_option ((#) (char_of (high * 16 + low))) (decode_loop rest)
             | _ \<Rightarrow> None)
        | _ \<Rightarrow> None))"

definition decode_relative_path :: "str \<Rightarrow> FilesystemError + str" where
  "decode_relative_path target =
     (if target = [] \<or> starts_with target ''/'' \<or> starts_with target [backslash]
         \<or> backslash \<in> set target \<or> CHR '':'' \<in> set target \<or> list_ex is_control (chars target)
      then Inl (Unverifiable target)
      else (case decode_loop target of
          None \<Rightarrow> Inl (Unverifiable target)
        | Some decoded \<Rightarrow>
            if \<not> valid_utf8 decoded then Inl (Unverifiable target)
            else if CHR '':'' \<in> set decoded \<or> backslash \<in> set decoded
                    \<or> list_ex is_control (chars decoded)
            then Inl (Unverifiable target)
            else Inr decoded))"

fun normalize_loop :: "path \<Rightarrow> path \<Rightarrow> path \<Rightarrow> FilesystemError + path" where
  "normalize_loop root candidate [] = Inr candidate"
| "normalize_loop root candidate (c # cs) = (case c of
      Normal v \<Rightarrow> normalize_loop root (candidate @ [Normal v]) cs
    | CurDir \<Rightarrow> normalize_loop root candidate cs
    | ParentDir \<Rightarrow>
        if candidate = root then Inl (OutsideRoot candidate)
        else
          let (popped, parent) = path_pop candidate in
          if \<not> popped \<or> \<not> path_starts_with parent root then Inl (OutsideRoot parent)
          else normalize_loop root parent cs
    | RootDir \<Rightarrow> Inl (OutsideRoot candidate))"

definition normalize_below_root :: "path \<Rightarrow> path \<Rightarrow> str \<Rightarrow> FilesystemError + path" where
  "normalize_below_root root base relative =
     and_then (normalize_loop root base (path_components relative)) (\<lambda>candidate.
       if candidate = base \<and> relative = [] then Inl (Unverifiable relative) else Inr candidate)"

definition normalize_authored_candidate :: "path \<Rightarrow> path \<Rightarrow> str \<Rightarrow> FilesystemError + path" where
  "normalize_authored_candidate root base target =
     (if \<not> path_starts_with base root then Inl (OutsideRoot base)
      else and_then (decode_relative_path target) (\<lambda>relative. normalize_below_root root base relative))"

section \<open>Authorities\<close>

text \<open>An authority is its canonical root and the identity of the opened directory.\<close>

record RootAuthority =
  authority_root :: path
  root_handle :: nat

definition has_same_authority :: "RootAuthority \<Rightarrow> RootAuthority \<Rightarrow> bool" where
  "has_same_authority a b \<longleftrightarrow> authority_root a = authority_root b \<and> root_handle a = root_handle b"

definition matching_prefix_depth :: "RootAuthority \<Rightarrow> path \<Rightarrow> nat option" where
  "matching_prefix_depth a p =
     (if path_starts_with p (authority_root a) then Some (length (authority_root a)) else None)"

definition authority_normalize_path :: "RootAuthority \<Rightarrow> path \<Rightarrow> FilesystemError + path" where
  "authority_normalize_path a p =
     (if path_starts_with p (authority_root a) then Inr p else Inl (OutsideRoot p))"

definition represents_root :: "RootAuthority \<Rightarrow> path \<Rightarrow> bool" where
  "represents_root a p \<longleftrightarrow> p = authority_root a"

text \<open>\<open>normalize_candidate\<close>: parent components may not climb above the root.\<close>

fun candidate_loop :: "(path \<Rightarrow> str) \<Rightarrow> path \<Rightarrow> path \<Rightarrow> nat \<Rightarrow> path \<Rightarrow> FilesystemError + path" where
  "candidate_loop shown candidate normalized depth [] = Inr normalized"
| "candidate_loop shown candidate normalized depth (c # cs) = (case c of
      Normal v \<Rightarrow> candidate_loop shown candidate (normalized @ [Normal v]) (depth + 1) cs
    | CurDir \<Rightarrow> candidate_loop shown candidate normalized depth cs
    | ParentDir \<Rightarrow>
        if 0 < depth then candidate_loop shown candidate (snd (path_pop normalized)) (depth - 1) cs
        else Inl (OutsideRoot candidate)
    | RootDir \<Rightarrow> Inl (Unverifiable (shown candidate)))"

definition normalize_candidate :: "(path \<Rightarrow> str) \<Rightarrow> RootAuthority \<Rightarrow> path \<Rightarrow> FilesystemError + path" where
  "normalize_candidate shown a candidate =
     (case strip_path_prefix candidate (authority_root a) of
        None \<Rightarrow> Inl (OutsideRoot candidate)
      | Some relative \<Rightarrow> candidate_loop shown candidate (authority_root a) 0 relative)"

definition MAX_ROOTS :: nat where "MAX_ROOTS = 128"

text \<open>A \<open>BTreeMap\<close> as the list of its entries in the order of the keys.\<close>

fun btree_insert :: "'k::linorder \<Rightarrow> 'v \<Rightarrow> ('k \<times> 'v) list \<Rightarrow> ('k \<times> 'v) list" where
  "btree_insert k v [] = [(k, v)]"
| "btree_insert k v ((k', v') # xs) =
     (if k < k' then (k, v) # (k', v') # xs
      else if k = k' then (k, v) # xs
      else (k', v') # btree_insert k v xs)"

record FilesystemAuthority =
  authority_roots :: "path list"
  authorities :: "RootAuthority list"

definition from_map :: "(path \<times> RootAuthority) list \<Rightarrow> FilesystemAuthority" where
  "from_map unique = \<lparr>authority_roots = map fst unique, authorities = map snd unique\<rparr>"

definition root_error :: "(FilesystemError \<Rightarrow> str) \<Rightarrow> path \<Rightarrow> FilesystemError \<Rightarrow> FilesystemError" where
  "root_error shown p e = (case e of
      Missing _ \<Rightarrow> Missing p
    | PermissionDenied _ \<Rightarrow> PermissionDenied p
    | OutsideRoot _ \<Rightarrow> OutsideRoot p
    | NotDirectory _ \<Rightarrow> NotDirectory p
    | NotFile _ \<Rightarrow> NotDirectory p
    | _ \<Rightarrow> Inspect p (shown e))"

fun open_loop ::
    "(FilesystemError \<Rightarrow> str) \<Rightarrow> (path \<Rightarrow> FilesystemError + RootAuthority)
     \<Rightarrow> (path \<times> RootAuthority) list \<Rightarrow> path list \<Rightarrow> FilesystemError + (path \<times> RootAuthority) list" where
  "open_loop shown open_root unique [] = Inr unique"
| "open_loop shown open_root unique (root # roots) =
     (if \<not> is_absolute root then Inl (PathNotAbsolute root)
      else and_then (map_err (root_error shown root) (open_root root)) (\<lambda>authority.
        let r = authority_root authority in
        if map_of unique r \<noteq> None then open_loop shown open_root unique roots
        else if MAX_ROOTS \<le> length unique then Inl (FilesystemLimitExceeded MAX_ROOTS)
        else open_loop shown open_root (btree_insert r authority unique) roots))"

definition open_authorities ::
    "(FilesystemError \<Rightarrow> str) \<Rightarrow> (path \<Rightarrow> FilesystemError + RootAuthority) \<Rightarrow> path list
     \<Rightarrow> FilesystemError + FilesystemAuthority" where
  "open_authorities shown open_root roots =
     and_then (open_loop shown open_root [] roots) (\<lambda>unique.
       if unique = [] then Inl (Unverifiable ''no local resource roots were configured'')
       else Inr (from_map unique))"

text \<open>\<open>max_by_key\<close> keeps the last of equal maxima.\<close>

fun max_by_depth :: "(nat \<times> 'a) list \<Rightarrow> (nat \<times> 'a) option" where
  "max_by_depth [] = None"
| "max_by_depth (x # xs) = (case max_by_depth xs of
      None \<Rightarrow> Some x
    | Some y \<Rightarrow> if fst y < fst x then Some x else Some y)"

definition authority_for_path :: "FilesystemAuthority \<Rightarrow> path \<Rightarrow> RootAuthority option" where
  "authority_for_path f p =
     map_option snd (max_by_depth (List.map_filter
       (\<lambda>a. map_option (\<lambda>depth. (depth, a)) (matching_prefix_depth a p)) (authorities f)))"

definition authority_for_root :: "FilesystemAuthority \<Rightarrow> path \<Rightarrow> RootAuthority option" where
  "authority_for_root f root = find (\<lambda>a. represents_root a root) (authorities f)"

definition normalize_path :: "FilesystemAuthority \<Rightarrow> path \<Rightarrow> FilesystemError + path" where
  "normalize_path f p = (case authority_for_path f p of
      None \<Rightarrow> Inl (OutsideRoot p)
    | Some a \<Rightarrow> authority_normalize_path a p)"

fun select_roots_loop ::
    "FilesystemAuthority \<Rightarrow> (path \<times> RootAuthority) list \<Rightarrow> path list
     \<Rightarrow> FilesystemError + (path \<times> RootAuthority) list" where
  "select_roots_loop f unique [] = Inr unique"
| "select_roots_loop f unique (root # roots) = (case authority_for_root f root of
      None \<Rightarrow> Inl (OutsideRoot root)
    | Some a \<Rightarrow> select_roots_loop f (btree_insert root a unique) roots)"

definition select_authorities :: "FilesystemAuthority \<Rightarrow> path list \<Rightarrow> FilesystemError + FilesystemAuthority" where
  "select_authorities f roots =
     and_then (select_roots_loop f [] roots) (\<lambda>unique.
       if unique = [] then Inl (Unverifiable ''no local resource roots were selected'')
       else Inr (from_map unique))"

fun derive_pending ::
    "(RootAuthority \<Rightarrow> path \<Rightarrow> FilesystemError + RootAuthority) \<Rightarrow> path \<Rightarrow> RootAuthority
     \<Rightarrow> (path \<times> RootAuthority) list \<Rightarrow> path list \<Rightarrow> FilesystemError + (path \<times> RootAuthority) list" where
  "derive_pending derive_directory anchor anchor_authority pending [] = Inr pending"
| "derive_pending derive_directory anchor anchor_authority pending (root # roots) =
     and_then (if root = anchor then Inr anchor_authority else derive_directory anchor_authority root)
       (\<lambda>a. derive_pending derive_directory anchor anchor_authority
              (btree_insert (authority_root a) a pending) roots)"

fun retain_loop ::
    "(path \<times> RootAuthority) list \<Rightarrow> (path \<times> RootAuthority) list
     \<Rightarrow> FilesystemError + (path \<times> RootAuthority) list" where
  "retain_loop retained [] = Inr retained"
| "retain_loop retained ((root, a) # pending) =
     (if map_of retained root = None \<and> MAX_ROOTS \<le> length retained
      then Inl (FilesystemLimitExceeded MAX_ROOTS)
      else retain_loop (btree_insert root a retained) pending)"

text \<open>The derived authorities, and the authorities that retain them.\<close>

definition derive_authorities ::
    "(RootAuthority \<Rightarrow> path \<Rightarrow> FilesystemError + RootAuthority) \<Rightarrow> FilesystemAuthority \<Rightarrow> path
     \<Rightarrow> path list \<Rightarrow> FilesystemError + (FilesystemAuthority \<times> FilesystemAuthority)" where
  "derive_authorities derive_directory f anchor roots =
     (case authority_for_root f anchor of
        None \<Rightarrow> Inl (OutsideRoot anchor)
      | Some anchor_authority \<Rightarrow>
          and_then (derive_pending derive_directory anchor anchor_authority [] roots) (\<lambda>pending.
          and_then (retain_loop
              (fold (\<lambda>a m. btree_insert (authority_root a) a m) (authorities f) []) pending) (\<lambda>retained.
            Inr (from_map pending, from_map retained))))"

section \<open>The walk below a root\<close>

text \<open>The reference: where the components lead, step by step, whatever is allowed.\<close>

fun walk_step :: "path \<Rightarrow> component \<Rightarrow> path" where
  "walk_step p (Normal v) = p @ [Normal v]"
| "walk_step p ParentDir = butlast p"
| "walk_step p CurDir = p"
| "walk_step p RootDir = [RootDir]"

definition walk :: "path \<Rightarrow> path \<Rightarrow> path" where
  "walk p cs = foldl walk_step p cs"

text \<open>Every stop on the way lies below the root.\<close>

definition stays_below :: "path \<Rightarrow> path \<Rightarrow> path \<Rightarrow> bool" where
  "stays_below root p cs \<longleftrightarrow>
     RootDir \<notin> set cs \<and> (\<forall>n \<le> length cs. path_starts_with (walk p (take n cs)) root)"

text \<open>A root, and a path below it without parent components.\<close>

definition is_normal :: "component \<Rightarrow> bool" where
  "is_normal c \<longleftrightarrow> (\<exists>v. c = Normal v)"

definition plain_root :: "path \<Rightarrow> bool" where
  "plain_root root \<longleftrightarrow> (\<exists>cs. root = RootDir # cs \<and> list_all is_normal cs)"

definition plain_below :: "path \<Rightarrow> path \<Rightarrow> bool" where
  "plain_below root p \<longleftrightarrow> path_starts_with p root \<and> list_all is_normal (drop (length root) p)"

lemma plain_belowE:
  assumes "plain_below root p"
  obtains rest where "p = root @ rest" "list_all is_normal rest"
  using assms unfolding plain_below_def path_starts_with_def by (metis append_take_drop_id)

lemma path_starts_with_append [simp]: "path_starts_with (root @ rest) root"
  by (simp add: path_starts_with_def)

lemma plain_below_append: "plain_below root (root @ rest) \<longleftrightarrow> list_all is_normal rest"
  by (simp add: plain_below_def)

lemma path_starts_with_length: "path_starts_with p root \<Longrightarrow> length root \<le> length p"
  unfolding path_starts_with_def by (metis length_take min.cobounded1)

lemma stays_below_Nil: "stays_below root p [] \<longleftrightarrow> path_starts_with p root"
  by (simp add: stays_below_def walk_def)

lemma walk_Cons [simp]: "walk p (c # cs) = walk (walk_step p c) cs"
  by (simp add: walk_def)

lemma walk_Nil [simp]: "walk p [] = p"
  by (simp add: walk_def)

lemma all_le_Suc: "(\<forall>n \<le> Suc k. P n) \<longleftrightarrow> P 0 \<and> (\<forall>n \<le> k. P (Suc n))"
  by (metis Suc_le_mono not0_implies_Suc zero_le)

lemma stays_below_Cons:
  "stays_below root p (c # cs) \<longleftrightarrow>
     path_starts_with p root \<and> c \<noteq> RootDir \<and> stays_below root (walk_step p c) cs"
  unfolding stays_below_def list.size(4) add_Suc_right add_0_right all_le_Suc by auto

lemma normalize_loop_walk:
  assumes "plain_root root" and "plain_below root p"
  shows "case normalize_loop root p cs of
      Inr c \<Rightarrow> stays_below root p cs \<and> c = walk p cs \<and> plain_below root c
    | Inl e \<Rightarrow> \<not> stays_below root p cs \<and> (\<exists>q. e = OutsideRoot q)"
  using assms(2)
proof (induction cs arbitrary: p)
  case Nil
  then show ?case by (auto simp: stays_below_Nil walk_def plain_below_def)
next
  case (Cons c cs)
  from Cons.prems obtain rest where p: "p = root @ rest" "list_all is_normal rest" by (rule plain_belowE)
  show ?case
  proof (cases c)
    case RootDir
    then show ?thesis by (simp add: stays_below_Cons)
  next
    case CurDir
    with Cons.IH [OF Cons.prems] p show ?thesis by (auto simp: stays_below_Cons split: sum.splits)
  next
    case (Normal v)
    have "plain_below root (p @ [Normal v])"
      using p by (simp add: plain_below_append is_normal_def)
    from Cons.IH [OF this] Normal p show ?thesis
      by (auto simp: stays_below_Cons split: sum.splits)
  next
    case ParentDir
    show ?thesis
    proof (cases "rest = []")
      case True
      have "\<not> path_starts_with (butlast root) root"
        using assms(1) path_starts_with_length [of "butlast root" root] by (auto simp: plain_root_def)
      moreover from this have "\<not> stays_below root (butlast root) cs"
        by (auto simp: stays_below_def walk_def dest!: spec [of _ 0])
      ultimately show ?thesis using True p ParentDir by (simp add: stays_below_Cons)
    next
      case False
      have "is_normal (last rest)" using p(2) False by (simp add: list_all_iff)
      then have pop: "path_pop p = (True, root @ butlast rest)"
        using p False by (auto simp: path_pop_def butlast_append is_normal_def)
      have "plain_below root (root @ butlast rest)"
        using p(2) by (auto simp: plain_below_append list_all_iff dest: in_set_butlastD)
      note ih = Cons.IH [OF this]
      have parent: "butlast p = root @ butlast rest" using p(1) False by (simp add: butlast_append)
      have "p \<noteq> root" using p(1) False by simp
      then have "normalize_loop root p (c # cs) = normalize_loop root (root @ butlast rest) cs"
        using ParentDir pop by simp
      moreover have "stays_below root p (c # cs) \<longleftrightarrow> stays_below root (root @ butlast rest) cs"
        unfolding stays_below_Cons using ParentDir p(1) parent by simp
      moreover have "walk p (c # cs) = walk (root @ butlast rest) cs" using ParentDir parent by simp
      ultimately show ?thesis using ih by (simp only:)
    qed
  qed
qed

lemma decode_loop_nonempty: "decode_loop s = Some d \<Longrightarrow> s \<noteq> [] \<Longrightarrow> d \<noteq> []"
  by (cases s) (auto split: if_split_asm list.split_asm option.split_asm)

section \<open>Maps of authorities\<close>

definition btree_ok :: "('k::linorder \<times> 'v) list \<Rightarrow> bool" where
  "btree_ok m \<longleftrightarrow> sorted_wrt (<) (map fst m)"

lemma btree_insert_keys: "fst ` set (btree_insert k v m) = insert k (fst ` set m)"
  by (induction k v m rule: btree_insert.induct) auto

lemma btree_insert_ok: "btree_ok m \<Longrightarrow> btree_ok (btree_insert k v m)"
proof (induction k v m rule: btree_insert.induct)
  case (2 k v k' v' xs)
  have keys: "set (map fst (btree_insert k v xs)) = insert k (set (map fst xs))"
    using btree_insert_keys [of k v xs] by simp
  show ?case
  proof (cases "k < k' \<or> k = k'")
    case True
    with 2(2) show ?thesis by (auto simp: btree_ok_def)
  next
    case False
    then have "k' < k" by (metis neqE)
    with False 2 keys show ?thesis by (auto simp: btree_ok_def)
  qed
qed (simp add: btree_ok_def)

lemma btree_insert_entries:
  "set (btree_insert k v m) \<subseteq> insert (k, v) (set m)" "(k, v) \<in> set (btree_insert k v m)"
  by (induction k v m rule: btree_insert.induct) auto

lemma btree_insert_length:
  "length (btree_insert k v m) \<le> Suc (length m)"
  "map_of m k \<noteq> None \<Longrightarrow> btree_ok m \<Longrightarrow> length (btree_insert k v m) = length m"
proof -
  show "length (btree_insert k v m) \<le> Suc (length m)"
    by (induction k v m rule: btree_insert.induct) auto
  show "map_of m k \<noteq> None \<Longrightarrow> btree_ok m \<Longrightarrow> length (btree_insert k v m) = length m"
  proof (induction k v m rule: btree_insert.induct)
    case (2 k v k' v' xs)
    have "\<not> k < k'"
    proof
      assume "k < k'"
      with 2(2,3) have "k \<in> fst ` set xs" "\<forall>x \<in> fst ` set xs. k' < x"
        by (auto simp: btree_ok_def split: if_splits dest!: map_of_SomeD intro: rev_image_eqI)
      with \<open>k < k'\<close> show False by force
    qed
    with 2 show ?case by (auto simp: btree_ok_def)
  qed simp
qed

lemma btree_map_of: "btree_ok m \<Longrightarrow> (k, v) \<in> set m \<longleftrightarrow> map_of m k = Some v"
  by (intro map_of_eq_Some_iff [symmetric]) (auto simp: btree_ok_def strict_sorted_iff)

text \<open>A set of authorities under their roots, no more than the program keeps.\<close>

definition registry_ok :: "(path \<times> RootAuthority) list \<Rightarrow> bool" where
  "registry_ok m \<longleftrightarrow> btree_ok m \<and> (\<forall>(r, a) \<in> set m. authority_root a = r) \<and> length m \<le> MAX_ROOTS"

lemma registry_insert:
  assumes "registry_ok m" and "map_of m (authority_root a) \<noteq> None \<or> length m < MAX_ROOTS"
  shows "registry_ok (btree_insert (authority_root a) a m)"
proof -
  have "length (btree_insert (authority_root a) a m) \<le> MAX_ROOTS"
    using assms btree_insert_length [where k = "authority_root a" and v = a and m = m] by (auto simp: registry_ok_def)
  with assms(1) btree_insert_entries(1) [where k = "authority_root a" and v = a and m = m] btree_insert_ok show ?thesis
    by (fastforce simp: registry_ok_def)
qed

lemma open_loop_ok:
  "registry_ok m \<Longrightarrow> open_loop shown open_root m roots = Inr m' \<Longrightarrow> registry_ok m'"
proof (induction roots arbitrary: m)
  case (Cons root roots)
  then obtain a where a: "open_root root = Inr a"
    by (auto simp: result_simps split: if_split_asm)
  show ?case
  proof (cases "map_of m (authority_root a) = None")
    case True
    with Cons.prems(2) a have "length m < MAX_ROOTS"
      "open_loop shown open_root (btree_insert (authority_root a) a m) roots = Inr m'"
      by (auto simp: Let_def split: if_split_asm)
    with Cons.IH registry_insert [OF Cons.prems(1)] show ?thesis by blast
  next
    case False
    with Cons.prems(2) a have "open_loop shown open_root m roots = Inr m'"
      by (auto simp: Let_def split: if_split_asm)
    with Cons.IH Cons.prems(1) show ?thesis by blast
  qed
qed simp

lemma retain_loop_ok:
  assumes "registry_ok m" and "\<forall>(r, a) \<in> set pending. authority_root a = r"
    and "retain_loop m pending = Inr m'"
  shows "registry_ok m'"
  using assms
proof (induction m pending rule: retain_loop.induct)
  case (2 m root a pending)
  then have "registry_ok (btree_insert root a m)"
    using registry_insert [of m a] by (auto split: if_split_asm)
  with 2 show ?case by (auto split: if_split_asm)
qed simp

lemma registry_fold:
  "registry_ok m \<Longrightarrow> length m + length as \<le> MAX_ROOTS \<Longrightarrow>
     registry_ok (fold (\<lambda>a m. btree_insert (authority_root a) a m) as m)"
proof (induction as arbitrary: m)
  case (Cons a as)
  have "registry_ok (btree_insert (authority_root a) a m)"
    using Cons.prems by (intro registry_insert) auto
  moreover have "length (btree_insert (authority_root a) a m) + length as \<le> MAX_ROOTS"
    using Cons.prems(2) btree_insert_length(1) [where k = "authority_root a" and v = a and m = m] by simp
  ultimately show ?case using Cons.IH by simp
qed simp

lemma derive_pending_roots:
  "\<forall>(r, a) \<in> set m. authority_root a = r \<Longrightarrow>
     derive_pending derive_directory anchor first m roots = Inr m' \<Longrightarrow>
     \<forall>(r, a) \<in> set m'. authority_root a = r"
proof (induction roots arbitrary: m)
  case (Cons root roots)
  then obtain a where "derive_pending derive_directory anchor first
      (btree_insert (authority_root a) a m) roots = Inr m'"
    by (auto simp: result_simps split: if_split_asm)
  moreover have "\<forall>(r, b) \<in> set (btree_insert (authority_root a) a m). authority_root b = r"
    using Cons.prems(1) btree_insert_entries(1) [where k = "authority_root a" and v = a and m = m] by auto
  ultimately show ?case using Cons.IH by blast
qed simp

lemma from_map_roots:
  assumes "registry_ok m"
  shows "authority_roots (from_map m) = map authority_root (authorities (from_map m))"
    "sorted_wrt (<) (authority_roots (from_map m))" "length (authorities (from_map m)) \<le> MAX_ROOTS"
  using assms by (auto simp: registry_ok_def from_map_def btree_ok_def)

text \<open>The authority of a path is the deepest root above it.\<close>

lemma max_by_depth_None: "max_by_depth xs = None \<longleftrightarrow> xs = []"
  by (cases xs) (auto split: option.splits)

lemma max_by_depth_Some:
  "max_by_depth xs = Some x \<Longrightarrow> x \<in> set xs \<and> (\<forall>y \<in> set xs. fst y \<le> fst x)"
  by (induction xs arbitrary: x) (fastforce simp: max_by_depth_None split: option.splits if_split_asm)+

lemma authority_for_path_cases:
  "case authority_for_path f p of
      None \<Rightarrow> \<forall>a \<in> set (authorities f). \<not> path_starts_with p (authority_root a)
    | Some a \<Rightarrow> a \<in> set (authorities f) \<and> path_starts_with p (authority_root a)
        \<and> (\<forall>b \<in> set (authorities f). path_starts_with p (authority_root b)
             \<longrightarrow> length (authority_root b) \<le> length (authority_root a))"
proof -
  let ?xs = "List.map_filter (\<lambda>a. map_option (\<lambda>depth. (depth, a)) (matching_prefix_depth a p)) (authorities f)"
  have xs: "set ?xs = {(length (authority_root a), a) | a. a \<in> set (authorities f)
      \<and> path_starts_with p (authority_root a)}"
    by (auto simp: List.map_filter_def matching_prefix_depth_def split: if_split_asm)
  show ?thesis
  proof (cases "max_by_depth ?xs")
    case None
    then have "set ?xs = {}" by (simp add: max_by_depth_None)
    with None xs show ?thesis by (auto simp: authority_for_path_def)
  next
    case (Some x)
    with max_by_depth_Some [OF Some] xs show ?thesis
      by (auto simp: authority_for_path_def)
  qed
qed

section \<open>Properties\<close>

text \<open>C37. An authored target never leads outside its root. A candidate is accepted exactly when
  the target decodes and every component on the way stays below the root, with no absolute
  component; then it is where the components lead, still below the root and free of parent
  components.\<close>

theorem authored_candidate_confined:
  assumes "plain_root root" and "plain_below root base"
  shows "case normalize_authored_candidate root base target of
      Inr c \<Rightarrow> \<exists>relative. decode_relative_path target = Inr relative
        \<and> stays_below root base (path_components relative)
        \<and> c = walk base (path_components relative) \<and> plain_below root c
    | Inl e \<Rightarrow> decode_relative_path target = Inl e
        \<or> (\<exists>relative q. decode_relative_path target = Inr relative \<and> e = OutsideRoot q
             \<and> \<not> stays_below root base (path_components relative))"
proof -
  have base: "path_starts_with base root" using assms(2) by (simp add: plain_below_def)
  show ?thesis
  proof (cases "decode_relative_path target")
    case (Inl e)
    with base show ?thesis by (simp add: normalize_authored_candidate_def)
  next
    case (Inr relative)
    then have "relative \<noteq> []"
      using decode_loop_nonempty [of target] by (auto simp: decode_relative_path_def split: if_split_asm option.split_asm)
    with Inr base normalize_loop_walk [OF assms, of "path_components relative"] show ?thesis
      by (auto simp: normalize_authored_candidate_def normalize_below_root_def split: sum.splits)
  qed
qed

theorem authored_candidate_confined_witness:
  "\<exists>relative. decode_relative_path ''x%2F..'' = Inr relative \<and> path_components relative = [Normal ''x'', ParentDir]
    \<and> normalize_authored_candidate [RootDir, Normal ''p''] [RootDir, Normal ''p'', Normal ''q''] ''x%2F..''
      = Inr [RootDir, Normal ''p'', Normal ''q'']
    \<and> stays_below [RootDir, Normal ''p''] [RootDir, Normal ''p'', Normal ''q''] [Normal ''x'', ParentDir]"
proof -
  have r: "plain_root [RootDir, Normal ''p'']" "plain_below [RootDir, Normal ''p''] [RootDir, Normal ''p'', Normal ''q'']"
    by (simp_all add: plain_root_def plain_below_def path_starts_with_def is_normal_def)
  have n: "normalize_authored_candidate [RootDir, Normal ''p''] [RootDir, Normal ''p'', Normal ''q''] ''x%2F..''
      = Inr [RootDir, Normal ''p'', Normal ''q'']" by code_simp
  have "decode_relative_path ''x%2F..'' = Inr ''x/..''" "path_components ''x/..'' = [Normal ''x'', ParentDir]"
    by code_simp+
  with authored_candidate_confined [OF r, of "''x%2F..''"] n show ?thesis by auto
qed

text \<open>C38. Whatever roots are opened or derived, the authorities are kept one for each root, in
  the order of the roots and within the limit, and a path is served by the deepest root above
  it or by none when there is none.\<close>

theorem authorities_well_formed:
  assumes "open_authorities shown open_root roots = Inr f
    \<or> (\<exists>g. authority_roots g = map authority_root (authorities g)
         \<and> sorted_wrt (<) (authority_roots g) \<and> length (authorities g) \<le> MAX_ROOTS
         \<and> (\<exists>derived. derive_authorities derive_directory g anchor roots = Inr (derived, f)))"
  shows "authority_roots f = map authority_root (authorities f) \<and> sorted_wrt (<) (authority_roots f)
    \<and> length (authorities f) \<le> MAX_ROOTS
    \<and> (case authority_for_path f p of
          None \<Rightarrow> \<forall>a \<in> set (authorities f). \<not> path_starts_with p (authority_root a)
        | Some a \<Rightarrow> a \<in> set (authorities f) \<and> path_starts_with p (authority_root a)
            \<and> (\<forall>b \<in> set (authorities f). path_starts_with p (authority_root b)
                 \<longrightarrow> length (authority_root b) \<le> length (authority_root a)))"
proof -
  have "\<exists>m. registry_ok m \<and> f = from_map m"
    using assms
  proof
    assume "open_authorities shown open_root roots = Inr f"
    then obtain m where "open_loop shown open_root [] roots = Inr m" "f = from_map m"
      by (auto simp: open_authorities_def result_simps split: if_split_asm)
    moreover have "registry_ok []" by (simp add: registry_ok_def btree_ok_def)
    ultimately show ?thesis using open_loop_ok by blast
  next
    show ?thesis if "\<exists>g. authority_roots g = map authority_root (authorities g)
         \<and> sorted_wrt (<) (authority_roots g) \<and> length (authorities g) \<le> MAX_ROOTS
         \<and> (\<exists>derived. derive_authorities derive_directory g anchor roots = Inr (derived, f))"
    proof -
      from that obtain g derived where g: "length (authorities g) \<le> MAX_ROOTS"
        "derive_authorities derive_directory g anchor roots = Inr (derived, f)" by blast
      then obtain first pending m where "derive_pending derive_directory anchor first [] roots = Inr pending"
        and m: "retain_loop (fold (\<lambda>a m. btree_insert (authority_root a) a m) (authorities g) []) pending
          = Inr m" "f = from_map m"
        by (auto simp: derive_authorities_def result_simps split: option.split_asm)
      then have "\<forall>(r, a) \<in> set pending. authority_root a = r"
        using derive_pending_roots [of "[]"] by fastforce
      moreover have "registry_ok (fold (\<lambda>a m. btree_insert (authority_root a) a m) (authorities g) [])"
        using g(1) by (intro registry_fold) (simp_all add: registry_ok_def btree_ok_def)
      ultimately show ?thesis using retain_loop_ok m by blast
    qed
  qed
  then show ?thesis using from_map_roots authority_for_path_cases by blast
qed

theorem authorities_well_formed_witness:
  "\<exists>f. open_authorities (\<lambda>_. []) (\<lambda>r. Inr \<lparr>authority_root = r, root_handle = length r\<rparr>)
        [[RootDir, Normal ''b''], [RootDir], [RootDir, Normal ''b'']] = Inr f
     \<and> authority_roots f = [[RootDir], [RootDir, Normal ''b'']]
     \<and> sorted_wrt (<) (authority_roots f)"
proof -
  let ?open = "\<lambda>r. Inr \<lparr>authority_root = r, root_handle = length r\<rparr>"
  have "map_sum id authority_roots (open_authorities (\<lambda>_. []) ?open
      [[RootDir, Normal ''b''], [RootDir], [RootDir, Normal ''b'']])
    = Inr [[RootDir], [RootDir, Normal ''b'']]"
    by code_simp
  then obtain f where f: "open_authorities (\<lambda>_. []) ?open
      [[RootDir, Normal ''b''], [RootDir], [RootDir, Normal ''b'']] = Inr f"
    "authority_roots f = [[RootDir], [RootDir, Normal ''b'']]"
    by (auto simp: map_sum_def split: sum.splits)
  from authorities_well_formed [OF disjI1 [OF f(1)]] f show ?thesis by blast
qed

end
