(* ===== verification/Inline_Model.thy ===== *)
theory Inline_Model
  imports Source Targets Substitution Block_Grammar
begin

text \<open>
  \<open>inline_model.rs\<close>: the output-independent model of inline content. A struct with a field of
  inlines is a datatype over the type of those inlines, so that \<open>Inline\<close> can recurse through it.
\<close>

record InlineText =
  inline_text_range :: TextRange
  inline_text_value :: str

record AttributeUse =
  use_name :: str
  use_name_range :: TextRange

datatype 'i Link = Link
  (link_range: TextRange) (link_macro_name_range: "TextRange option")
  (link_target_range: TextRange) (link_target_source: str) (link_target: str)
  (link_target_attributes: "AttributeUse list")
  (link_target_expansion_error: "AttributeExpansionError option")
  (link_label_range: "TextRange option") (link_label: "'i list")

datatype StandardMacroKind =
    Email | Footnote | AnchorMacro | BibliographyAnchor | Citation | IndexTerm | Keyboard | Button
  | Menu | Image | Icon | Audio | Video

datatype MacroForm = InlineForm | BlockForm

record MacroAttribute =
  macro_attribute_range :: TextRange
  macro_attribute_value_range :: TextRange
  macro_attribute_name :: "str option"
  macro_attribute_value :: str

record StandardMacro =
  macro_kind :: StandardMacroKind
  macro_form :: MacroForm
  macro_range :: TextRange
  macro_target_range :: TextRange
  macro_target_source :: str
  macro_target :: str
  macro_target_attributes :: "AttributeUse list"
  macro_target_expansion_error :: "AttributeExpansionError option"
  macro_attributes_range :: TextRange
  macro_attributes :: "MacroAttribute list"

definition as_asciidoc_name :: "MathLanguage \<Rightarrow> str" where
  "as_asciidoc_name l = (case l of
      Latex \<Rightarrow> ''latexmath'' | AsciiMath \<Rightarrow> ''asciimath'' | Typst \<Rightarrow> ''typst'')"

record InlineFormula =
  formula_range :: TextRange
  formula_content_range :: TextRange
  formula_language :: MathLanguage
  uses_stem_attribute :: bool
  formula_value :: str
  formula_closed :: bool

datatype ReferenceDestination =
    LocalDestination str TextRange
  | DocumentDestination str TextRange "str option" "TextRange option"
  | SchemeDestination str TextRange str TextRange "str option" "TextRange option"
  | InvalidDestination

datatype 'i Reference = Reference
  (reference_range: TextRange) (reference_macro_name_range: "TextRange option")
  (reference_target_range: TextRange) (reference_target_source: str)
  (reference_expanded_target: str) (reference_target_attributes: "AttributeUse list")
  (reference_target_expansion_error: "AttributeExpansionError option")
  (authored_destination: ReferenceDestination) (reference_target: "ReferenceKey option")
  (reference_label_range: "TextRange option") (reference_label: "'i list")

definition authored_anchor_range :: "'i Reference \<Rightarrow> TextRange option" where
  "authored_anchor_range r = (case authored_destination r of
      LocalDestination _ anchor_r \<Rightarrow> Some anchor_r
    | DocumentDestination _ _ _ anchor_r \<Rightarrow> anchor_r
    | SchemeDestination _ _ _ _ _ anchor_r \<Rightarrow> anchor_r
    | InvalidDestination \<Rightarrow> None)"

datatype InlineLiteralKind = Monospace

datatype PassthroughKind = SinglePlus | DoublePlus | TriplePlus | MacroPassthrough

datatype InlineStyle =
    Strong | Emphasis | Highlight | Subscript | Superscript | CurvedDoubleQuote | CurvedSingleQuote

datatype Inline =
    TextInline InlineText
  | LiteralInline InlineLiteralKind TextRange TextRange str
  | StyledInline InlineStyle TextRange TextRange "Inline list"
  | AttributeReferenceInline TextRange TextRange str "str option" "AttributeExpansionError option"
  | LinkInline "Inline Link"
  | ReferenceInline "Inline Reference"
  | FormulaInline InlineFormula
  | MacroInline StandardMacro
  | PassthroughInline PassthroughKind TextRange TextRange str
  | HardBreakInline TextRange

fun inline_range :: "Inline \<Rightarrow> TextRange" where
  "inline_range (TextInline t) = inline_text_range t"
| "inline_range (LiteralInline _ r _ _) = r"
| "inline_range (StyledInline _ r _ _) = r"
| "inline_range (AttributeReferenceInline r _ _ _ _) = r"
| "inline_range (LinkInline l) = link_range l"
| "inline_range (ReferenceInline x) = reference_range x"
| "inline_range (FormulaInline f) = formula_range f"
| "inline_range (MacroInline m) = macro_range m"
| "inline_range (PassthroughInline _ r _ _) = r"
| "inline_range (HardBreakInline r) = r"

datatype InlineProblemKind =
    UnclosedMonospace | UnclosedStrong | UnclosedEmphasis | UnclosedHighlight | UnclosedSubscript
  | UnclosedSuperscript | NestingLimitExceeded | UnclosedAttributeReference | IncompleteLink
  | UnclosedPassthrough | IncompleteCrossReference | InvalidCrossReference | UnclosedStem
  | EmptyStem | StemSizeLimitExceeded | MacroBoundaryProblem str | MonospaceBoundaryProblem

record InlineProblem =
  inline_problem_kind :: InlineProblemKind
  inline_problem_range :: TextRange

end
