(* ===== verification/Inline_Scan.thy ===== *)
theory Inline_Scan
  imports Inline_Model Cjk
begin

text \<open>
  The scanner of \<open>inline.rs\<close>: the index of the places in a fragment where inline markup may
  begin, and the recognition of one of them as a token of byte offsets. The counters of
  inspected positions exist for the tests of the source and are left out. A table of the source
  that is filled backwards (\<open>CompactOffsetIndex\<close>) is a list with one entry per offset.
\<close>

section \<open>Neighbours of an offset\<close>

definition previous_char :: "str \<Rightarrow> nat \<Rightarrow> str option" where
  "previous_char value offset =
     (case rev (chars (take offset value)) of [] \<Rightarrow> None | ch # _ \<Rightarrow> Some ch)"

definition next_char :: "str \<Rightarrow> nat \<Rightarrow> str option" where
  "next_char value offset = (case chars (drop offset value) of [] \<Rightarrow> None | ch # _ \<Rightarrow> Some ch)"

definition next_char_boundary :: "str \<Rightarrow> nat \<Rightarrow> nat" where
  "next_char_boundary value offset =
     offset + (case next_char value offset of None \<Rightarrow> 1 | Some ch \<Rightarrow> length ch)"

text \<open>A backslash is one byte, so the run of them before an offset is counted in bytes.\<close>

definition is_escaped :: "str \<Rightarrow> nat \<Rightarrow> bool" where
  "is_escaped value offset \<longleftrightarrow>
     length (takeWhile (\<lambda>b. b = backslash) (rev (take offset value))) mod 2 = 1"

definition is_token_boundary :: "str option \<Rightarrow> bool" where
  "is_token_boundary previous = (case previous of
      None \<Rightarrow> True
    | Some ch \<Rightarrow> is_whitespace ch \<or> ch \<in> {''('', ''['', ''{'', ''<'', [double_quote], [quote_char]})"

definition is_macro_boundary :: "str \<Rightarrow> nat \<Rightarrow> bool" where
  "is_macro_boundary value offset \<longleftrightarrow>
     is_token_boundary (previous_char value offset)
     \<or> is_escaped value offset \<and> is_token_boundary (previous_char value (offset - 1))"

definition is_constrained_word_character :: "(str \<Rightarrow> bool) \<Rightarrow> char \<Rightarrow> str \<Rightarrow> bool" where
  "is_constrained_word_character alnum marker ch \<longleftrightarrow>
     \<not> is_cjk ch \<and> (is_alphanumeric alnum ch \<or> marker = CHR ''`'' \<and> ch = ''_'')"

text \<open>The markers are ASCII, so \<open>marker.len_utf8()\<close> is one.\<close>

definition is_open_boundary :: "(str \<Rightarrow> bool) \<Rightarrow> str \<Rightarrow> nat \<Rightarrow> char \<Rightarrow> bool" where
  "is_open_boundary alnum value offset marker \<longleftrightarrow>
     (case next_char value (offset + 1) of
        None \<Rightarrow> False
      | Some ch \<Rightarrow> \<not> is_whitespace ch \<and> ch \<noteq> [marker])
     \<and> (case previous_char value offset of
          None \<Rightarrow> True
        | Some ch \<Rightarrow> \<not> is_constrained_word_character alnum marker ch
            \<and> \<not> (marker = CHR ''`'' \<and> ch \<in> {'':'', '';'', ''}''}))"

definition is_close_boundary :: "(str \<Rightarrow> bool) \<Rightarrow> str \<Rightarrow> nat \<Rightarrow> char \<Rightarrow> bool" where
  "is_close_boundary alnum value offset marker \<longleftrightarrow>
     (case previous_char value offset of
        None \<Rightarrow> False
      | Some ch \<Rightarrow> \<not> is_whitespace ch \<and> ch \<noteq> [marker])
     \<and> (case next_char value (offset + 1) of
          None \<Rightarrow> True
        | Some ch \<Rightarrow> \<not> is_constrained_word_character alnum marker ch)"

definition starts_ascii_case_insensitive :: "str \<Rightarrow> str \<Rightarrow> bool" where
  "starts_ascii_case_insensitive value pfx =
     (case str_get value 0 (length pfx) of
        None \<Rightarrow> False | Some candidate \<Rightarrow> eq_ignore_ascii_case candidate pfx)"

section \<open>Backward tables\<close>

text \<open>For every offset up to the end, the first offset from there on whose rest satisfies \<open>p\<close>.\<close>

fun next_index :: "(str \<Rightarrow> bool) \<Rightarrow> nat \<Rightarrow> str \<Rightarrow> nat option list" where
  "next_index p offset [] = [None]"
| "next_index p offset (b # s) =
     (let rest = next_index p (Suc offset) s
      in (if p (b # s) then Some offset else hd rest) # rest)"

record DelimiterIndex =
  next_open_bracket :: "nat option list"
  next_close_bracket :: "nat option list"
  next_double_greater :: "nat option list"

definition DelimiterIndex_new :: "str \<Rightarrow> DelimiterIndex" where
  "DelimiterIndex_new value =
     \<lparr>next_open_bracket = next_index (\<lambda>s. starts_with s ''['') 0 value,
      next_close_bracket = next_index (\<lambda>s. starts_with s '']'') 0 value,
      next_double_greater = next_index (\<lambda>s. starts_with s ''>>'') 0 value\<rparr>"

text \<open>
  \<open>UrlCandidateIndex\<close>: the next \<open>[\<close> or white space from the start of each scalar value; the
  entries inside a scalar value keep the length they were filled with.
\<close>

fun url_index :: "nat \<Rightarrow> nat \<Rightarrow> str list \<Rightarrow> nat list" where
  "url_index bound offset [] = [bound]"
| "url_index bound offset (ch # cs) =
     (let rest = url_index bound (offset + length ch) cs
      in (if ch = ''['' \<or> is_whitespace ch then offset else hd rest)
         # replicate (length ch - 1) bound @ rest)"

definition UrlCandidateIndex_new :: "str \<Rightarrow> nat list" where
  "UrlCandidateIndex_new value = url_index (length value) 0 (chars value)"

definition has_label_before_whitespace :: "nat list \<Rightarrow> str \<Rightarrow> nat \<Rightarrow> bool" where
  "has_label_before_whitespace index value start =
     (index ! start < length value \<and> value ! (index ! start) = CHR ''['')"

section \<open>Candidates\<close>

datatype MarkerForm = Constrained | Unconstrained

definition form_width :: "MarkerForm \<Rightarrow> nat" where
  "form_width f = (case f of Constrained \<Rightarrow> 1 | Unconstrained \<Rightarrow> 2)"

datatype InlineCandidate =
    EscapedAnchor nat
  | MacroCandidate nat
  | MacroBoundaryCandidate nat
  | MarkerCandidate nat char MarkerForm "nat option"
  | MonospaceBoundaryCandidate nat nat
  | TypographicQuote nat char nat nat nat
  | PassthroughCandidate nat nat nat nat nat

fun candidate_open :: "InlineCandidate \<Rightarrow> nat" where
  "candidate_open (EscapedAnchor slash) = slash"
| "candidate_open (MacroCandidate open) = open"
| "candidate_open (MacroBoundaryCandidate open) = open"
| "candidate_open (MarkerCandidate open _ _ _) = open"
| "candidate_open (MonospaceBoundaryCandidate open _) = open"
| "candidate_open (TypographicQuote open _ _ _ _) = open"
| "candidate_open (PassthroughCandidate open _ _ _ _) = open"

text \<open>\<open>markers[a..b]\<close> set to true.\<close>

definition fill :: "nat \<Rightarrow> nat \<Rightarrow> bool list \<Rightarrow> bool list" where
  "fill a b marks = map (\<lambda>(i, m). m \<or> a \<le> i \<and> i < b) (zip [0..<length marks] marks)"

lemma length_fill [simp]: "length (fill a b marks) = length marks"
  by (simp add: fill_def)

lemma nth_fill [simp]: "i < length marks \<Longrightarrow> fill a b marks ! i \<longleftrightarrow> marks ! i \<or> a \<le> i \<and> i < b"
  by (simp add: fill_def)

definition next_plus :: "str \<Rightarrow> nat \<Rightarrow> nat option list" where
  "next_plus value width = next_index (\<lambda>s. starts_with s (replicate width (CHR ''+''))) 0 value"

definition next_quote :: "str \<Rightarrow> char \<Rightarrow> nat option list" where
  "next_quote value quote = next_index (\<lambda>s. starts_with s [CHR ''`'', quote]) 0 value"

lemma length_next_index [simp]: "length (next_index p offset s) = Suc (length s)"
  by (induction s arbitrary: offset) (simp_all add: Let_def)

lemma next_index_Some:
  "i \<le> length s \<Longrightarrow> next_index p offset s ! i = Some k \<Longrightarrow>
     offset + i \<le> k \<and> k < offset + length s \<and> p (drop (k - offset) s)"
proof (induction s arbitrary: offset i)
  case (Cons b s)
  have head: "hd (next_index p (Suc offset) s) = next_index p (Suc offset) s ! 0"
    by (rule hd_conv_nth) (metis length_next_index list.size(3) nat.distinct(1))
  have shift: "drop (k - offset) (b # s) = drop (k - Suc offset) s" if "Suc offset \<le> k"
    using that by (simp add: drop_Cons')
  show ?case
  proof (cases i)
    case 0
    with Cons.prems Cons.IH [of 0 "Suc offset"] head shift show ?thesis
      by (auto simp: Let_def split: if_splits)
  next
    case (Suc j)
    with Cons.prems Cons.IH [of j "Suc offset"] shift show ?thesis
      by (auto simp: Let_def split: if_splits)
  qed
qed simp

lemma chars_head: "cursor < length value \<Longrightarrow> chars (drop cursor value) \<noteq> []"
  by (metis chars.elims drop_eq_Nil leD list.discI)

lemma hd_chars_pos: "cursor < length value \<Longrightarrow> 0 < length (hd (chars (drop cursor value)))"
  using chars_head [of cursor "value"] chars_nonempty hd_in_set by fastforce

lemma advance_char: "cursor < length value \<Longrightarrow>
    length value - (cursor + length (hd (chars (drop cursor value)))) < length value - cursor"
  using hd_chars_pos [of cursor "value"] by linarith

text \<open>
  A run of plus signs that opens a passthrough: its width, at most three, and the offset of
  the closing run.
\<close>

definition passthrough_at :: "(str \<Rightarrow> bool) \<Rightarrow> str \<Rightarrow> nat \<Rightarrow> (nat \<times> nat) option" where
  "passthrough_at alnum value cursor =
     (let run = min 3 (length (takeWhile (\<lambda>b. b = CHR ''+'') (drop cursor value)))
      in if 0 < run \<and> (1 < run \<or> is_open_boundary alnum value cursor (CHR ''+''))
         then (case next_plus value run ! (cursor + run) of
                 Some content_end \<Rightarrow>
                   if cursor + run < content_end then Some (run, content_end) else None
               | None \<Rightarrow> None)
         else None)"

lemma passthrough_at_pos: "passthrough_at alnum value cursor = Some (run, ce) \<Longrightarrow> 0 < run \<and> cursor + run < ce"
  by (auto simp: passthrough_at_def Let_def split: if_splits option.splits)

text \<open>
  The forward loop of \<open>preparsed_candidates\<close>: passthroughs and typographic quotes, with the
  offsets their markers occupy. The rest at \<open>cursor\<close> is not empty, so it has a first scalar value.
\<close>

function preparsed_loop ::
    "(str \<Rightarrow> bool) \<Rightarrow> str \<Rightarrow> nat \<Rightarrow> InlineCandidate list \<Rightarrow> bool list \<Rightarrow> InlineCandidate list \<times> bool list" where
  "preparsed_loop alnum value cursor candidates marks =
     (if length value \<le> cursor + 1 then (candidates, marks)
      else case passthrough_at alnum value cursor of
        Some (run, content_end) \<Rightarrow>
          preparsed_loop alnum value (content_end + run)
            (candidates @ [PassthroughCandidate cursor run (cursor + run) content_end (content_end + run)])
            (fill content_end (content_end + run) (fill cursor (cursor + run) marks))
      | None \<Rightarrow>
          let quote = hd (chars (drop cursor value)) in
          if \<not> (quote = [quote_char] \<or> quote = [double_quote]) \<or> value ! (cursor + 1) \<noteq> CHR ''`''
          then preparsed_loop alnum value (cursor + length quote) candidates marks
          else (case next_quote value (hd quote) ! (cursor + 2) of
              None \<Rightarrow> preparsed_loop alnum value (cursor + 2) candidates marks
            | Some content_end \<Rightarrow>
                preparsed_loop alnum value (content_end + 2)
                  (candidates @ [TypographicQuote cursor (hd quote) (cursor + 2) content_end (content_end + 2)])
                  (fill content_end (content_end + 2) (fill cursor (cursor + 2) marks))))"
  by pat_completeness auto
termination
proof (relation "measure (\<lambda>(alnum, value, cursor, candidates, marks). length value - cursor)", goal_cases)
  case (4 alnum "value" cursor candidates marks quote content_end)
  then have "next_quote value (hd quote) ! (cursor + 2) = Some content_end" "cursor + 2 \<le> length value"
    by auto
  then have "cursor + 2 \<le> content_end"
    unfolding next_quote_def using next_index_Some by fastforce
  with 4 show ?case by simp
qed (auto dest!: passthrough_at_pos intro!: advance_char)

declare preparsed_loop.simps [simp del]

definition preparsed_candidates :: "(str \<Rightarrow> bool) \<Rightarrow> str \<Rightarrow> InlineCandidate list \<times> bool list" where
  "preparsed_candidates alnum value =
     preparsed_loop alnum value 0 [] (replicate (length value + 1) False)"

text \<open>Single backticks that pair up although one of the two is no boundary of monospace text.\<close>

function monospace_loop ::
    "(str \<Rightarrow> bool) \<Rightarrow> str \<Rightarrow> nat \<Rightarrow> nat option \<Rightarrow> InlineCandidate list \<Rightarrow> bool list
     \<Rightarrow> InlineCandidate list \<times> bool list" where
  "monospace_loop alnum value cursor pending candidates marks =
     (if length value \<le> cursor then (candidates, marks)
      else if value ! cursor \<noteq> CHR ''`''
      then monospace_loop alnum value (cursor + 1) pending candidates marks
      else
        let end = length (takeWhile (\<lambda>b. b = CHR ''`'') (drop cursor value)) + cursor in
        if end - cursor \<noteq> 1 then monospace_loop alnum value end None candidates marks
        else (case pending of
            None \<Rightarrow> monospace_loop alnum value end (Some cursor) candidates marks
          | Some open \<Rightarrow>
              if marks ! open \<or> marks ! cursor \<or> is_escaped value open \<or> is_escaped value cursor
                \<or> is_open_boundary alnum value open (CHR ''`'')
                    \<and> is_close_boundary alnum value cursor (CHR ''`'')
              then monospace_loop alnum value end None candidates marks
              else monospace_loop alnum value end None
                  (candidates @ [MonospaceBoundaryCandidate open (cursor + 1)])
                  (marks[open := True, cursor := True])))"
  by pat_completeness auto
termination
proof (relation "measure (\<lambda>(alnum, value, cursor, pending, candidates, marks). length value - cursor)", goal_cases)
  case (3 alnum "value" cursor pending candidates marks "end")
  have "drop cursor value = value ! cursor # drop (Suc cursor) value"
    using 3(1) by (simp add: Cons_nth_drop_Suc)
  with 3 show ?case by simp
qed auto

declare monospace_loop.simps [simp del]

text \<open>\<open>index_unconstrained_pairs\<close>: inside a run of one marker, every second offset opens a pair.\<close>

definition formatting_byte :: "char \<Rightarrow> bool" where
  "formatting_byte b \<longleftrightarrow> b = CHR ''`'' \<or> b = CHR ''*'' \<or> b = CHR ''_'' \<or> b = CHR ''#''"

function mark_pairs :: "nat \<Rightarrow> nat \<Rightarrow> bool list \<Rightarrow> bool list" where
  "mark_pairs pair run_end pairs =
     (if pair + 1 < run_end then mark_pairs (pair + 2) run_end (pairs[pair := True]) else pairs)"
  by pat_completeness auto
termination by (relation "measure (\<lambda>(pair, run_end, pairs). run_end - pair)") auto

declare mark_pairs.simps [simp del]

function pairs_loop :: "str \<Rightarrow> nat \<Rightarrow> bool list \<Rightarrow> bool list" where
  "pairs_loop value cursor pairs =
     (if length value \<le> cursor then pairs
      else if \<not> formatting_byte (value ! cursor) then pairs_loop value (cursor + 1) pairs
      else
        let run_end = cursor + 1 + length (takeWhile (\<lambda>b. b = value ! cursor) (drop (cursor + 1) value))
        in pairs_loop value run_end (mark_pairs cursor run_end pairs))"
  by pat_completeness auto
termination by (relation "measure (\<lambda>(value, cursor, pairs). length value - cursor)") auto

declare pairs_loop.simps [simp del]

definition index_unconstrained_pairs :: "str \<Rightarrow> bool list" where
  "index_unconstrained_pairs value = pairs_loop value 0 (replicate (length value + 1) False)"

section \<open>Macro names\<close>

definition valid_inline_attribute_name :: "str \<Rightarrow> bool" where
  "valid_inline_attribute_name name \<longleftrightarrow>
     name \<noteq> [] \<and> list_all (\<lambda>b. is_ascii_alphanumeric b \<or> List.member ''_-.'' b) name"

definition valid_reference_name :: "str \<Rightarrow> bool" where
  "valid_reference_name name \<longleftrightarrow>
     valid_inline_attribute_name name \<or> counter_reference name \<noteq> None"

definition PREFIXES :: "(str \<times> StandardMacroKind \<times> MacroForm) list" where
  "PREFIXES =
     [(''image::'', Image, BlockForm), (''icon::'', Icon, BlockForm),
      (''audio::'', Audio, BlockForm), (''video::'', Video, BlockForm),
      (''footnote:'', Footnote, InlineForm), (''anchor:'', AnchorMacro, InlineForm),
      (''bibanchor:'', BibliographyAnchor, InlineForm), (''cite:'', Citation, InlineForm),
      (''indexterm:'', IndexTerm, InlineForm), (''kbd:'', Keyboard, InlineForm),
      (''btn:'', Button, InlineForm), (''menu:'', Menu, InlineForm), (''image:'', Image, InlineForm),
      (''icon:'', Icon, InlineForm), (''audio:'', Audio, InlineForm), (''video:'', Video, InlineForm)]"

fun find_map_prefix ::
    "str \<Rightarrow> (str \<times> StandardMacroKind \<times> MacroForm) list \<Rightarrow> (StandardMacroKind \<times> MacroForm \<times> nat) option" where
  "find_map_prefix value [] = None"
| "find_map_prefix value ((pfx, kind, form) # rest) =
     (if starts_ascii_case_insensitive value pfx then Some (kind, form, length pfx)
      else find_map_prefix value rest)"

definition standard_macro_prefix :: "str \<Rightarrow> (StandardMacroKind \<times> MacroForm \<times> nat) option" where
  "standard_macro_prefix value = find_map_prefix value PREFIXES"

datatype NamedMacroPrefix =
    FormulaPrefix nat "MathLanguage option"
  | PassthroughPrefix nat
  | XrefPrefix nat
  | LinkPrefix nat
  | StandardPrefix StandardMacroKind MacroForm nat

definition prefix_is_inline :: "NamedMacroPrefix \<Rightarrow> bool" where
  "prefix_is_inline p = (case p of StandardPrefix _ BlockForm _ \<Rightarrow> False | _ \<Rightarrow> True)"

definition named_macro_prefix :: "str \<Rightarrow> NamedMacroPrefix option" where
  "named_macro_prefix value =
     (if starts_ascii_case_insensitive value ''stem:['' then Some (FormulaPrefix 6 None)
      else if starts_ascii_case_insensitive value ''latexmath:['' then Some (FormulaPrefix 11 (Some Latex))
      else if starts_ascii_case_insensitive value ''asciimath:['' then Some (FormulaPrefix 11 (Some AsciiMath))
      else if starts_ascii_case_insensitive value ''pass:['' then Some (PassthroughPrefix 6)
      else if starts_ascii_case_insensitive value ''xref:'' then Some (XrefPrefix 5)
      else if starts_ascii_case_insensitive value ''link:'' then Some (LinkPrefix 5)
      else map_option (\<lambda>(kind, form, n). StandardPrefix kind form n) (standard_macro_prefix value))"

definition named_macro_candidate :: "str \<Rightarrow> bool" where
  "named_macro_candidate value =
     (case named_macro_prefix value of None \<Rightarrow> False | Some p \<Rightarrow> prefix_is_inline p)"

section \<open>Addresses\<close>

definition email_local_part_byte :: "char \<Rightarrow> bool" where
  "email_local_part_byte b \<longleftrightarrow> is_ascii_alphanumeric b \<or> List.member ''._+-'' b"

text \<open>The end moves back over final dots; the \<open>@\<close> before the domain stops it.\<close>

fun trim_final_dots :: "str \<Rightarrow> nat \<Rightarrow> nat" where
  "trim_final_dots value 0 = 0"
| "trim_final_dots value (Suc n) =
     (if n < length value \<and> value ! n = CHR ''.'' then trim_final_dots value n else Suc n)"

definition email_address_end :: "str \<Rightarrow> nat option" where
  "email_address_end value =
     (case find_if (\<lambda>b. \<not> email_local_part_byte b) value of
        None \<Rightarrow> None
      | Some at \<Rightarrow>
          if value ! at \<noteq> CHR ''@'' \<or> at = 0 then None
          else
            let domain_end = trim_final_dots value
                  (case find_if (\<lambda>b. \<not> (is_ascii_alphanumeric b \<or> List.member ''.-'' b)) (drop (at + 1) value) of
                     None \<Rightarrow> length value
                   | Some offset \<Rightarrow> at + 1 + offset);
                domain = slice value (at + 1) domain_end
            in if CHR ''.'' \<in> set domain \<and> \<not> starts_with domain ''.'' \<and> \<not> ends_with domain ''.''
                 \<and> \<not> ends_with domain ''-''
               then Some domain_end else None)"

definition email_candidate_start :: "str \<Rightarrow> nat \<Rightarrow> bool" where
  "email_candidate_start value open \<longleftrightarrow>
     byte_val (value ! open) < 128 \<and> email_local_part_byte (value ! open)
     \<and> (open = 0 \<or> \<not> email_local_part_byte (value ! (open - 1)))"

definition scheme_byte :: "char \<Rightarrow> bool" where
  "scheme_byte b \<longleftrightarrow> is_ascii_alphanumeric b \<or> List.member ''+-.%'' b"

definition url_candidate_start :: "str \<Rightarrow> nat \<Rightarrow> bool" where
  "url_candidate_start value open \<longleftrightarrow>
     is_ascii_alphabetic (value ! open) \<and> (open = 0 \<or> \<not> scheme_byte (value ! (open - 1)))"

definition url_scheme_end :: "str \<Rightarrow> nat option" where
  "url_scheme_end value =
     (case find_if (\<lambda>b. b = CHR '':'' \<or> \<not> scheme_byte b) value of
        None \<Rightarrow> None
      | Some colon \<Rightarrow>
          if value ! colon \<noteq> CHR '':'' then None
          else
            let scheme = take colon value in
            if scheme = [] \<or> \<not> is_ascii_alphabetic (hd scheme) \<or> \<not> list_all scheme_byte scheme
              \<or> eq_ignore_ascii_case scheme ''xref''
            then None else Some (colon + 1))"

definition url_link_candidate :: "str \<Rightarrow> nat \<Rightarrow> bool" where
  "url_link_candidate value open =
     (let candidate = drop open value in
      case url_scheme_end candidate of
        None \<Rightarrow> False
      | Some scheme_end \<Rightarrow>
          starts_with (drop scheme_end candidate) ''//''
          \<or> starts_ascii_case_insensitive candidate ''mailto:''
          \<or> has_label_before_whitespace (UrlCandidateIndex_new value) value (open + scheme_end))"

definition macro_candidate :: "str \<Rightarrow> nat \<Rightarrow> bool" where
  "macro_candidate value open =
     (let candidate = drop open value in
      if named_macro_candidate candidate then True
      else if email_candidate_start value open \<and> email_address_end candidate \<noteq> None then True
      else if url_candidate_start value open then url_link_candidate value open
      else False)"

section \<open>The index of candidates\<close>

text \<open>
  One position of the loop of \<open>InlineCandidateIndex::new\<close>: the candidates, the protected
  offsets and the macros that their left neighbour rejects.
\<close>

type_synonym scan_state = "InlineCandidate list \<times> bool list \<times> nat list"

definition escaped_anchor_end :: "str \<Rightarrow> nat \<Rightarrow> nat" where
  "escaped_anchor_end value open =
     (let rest = drop open value in
      if starts_with rest (backslash # ''[['')
      then (case find_str '']]'' rest of None \<Rightarrow> length value | Some close \<Rightarrow> open + close + 2)
      else (case find_char (CHR '']'') rest of None \<Rightarrow> length value | Some close \<Rightarrow> open + close + 1))"

definition scan_position ::
    "(str \<Rightarrow> bool) \<Rightarrow> str \<Rightarrow> bool list \<Rightarrow> nat \<times> str \<Rightarrow> scan_state \<Rightarrow> scan_state" where
  "scan_position alnum value pairs position state =
     (let (open, marker) = position;
          (candidates, marks, rejected) = state;
          rest = drop open value
      in
      if marks ! open then state
      else if marker = [backslash]
        \<and> (starts_with rest (backslash # ''[['') \<or> starts_with rest (backslash # ''[#''))
        \<and> \<not> is_escaped value open
      then (candidates @ [EscapedAnchor open], fill open (escaped_anchor_end value open) marks, rejected)
      else
        let boundary = is_macro_boundary value open;
            boundary_macro = macro_candidate value open
        in
        if starts_with rest ''<<'' \<or> starts_with rest ''[['' \<or> boundary \<and> boundary_macro
        then (candidates @ [MacroCandidate open], marks, rejected)
        else if boundary_macro \<and> \<not> is_escaped value open
        then (candidates, marks, rejected @ [open])
        else if formatting_byte (hd marker) \<and> pairs ! open
        then (candidates @ [MarkerCandidate open (hd marker) Unconstrained None], marks, rejected)
        else if marker = ''{''
          \<or> (marker = ''^'' \<or> marker = ''~'')
              \<and> (case next_char value (open + 1) of None \<Rightarrow> False | Some ch \<Rightarrow> \<not> is_whitespace ch)
          \<or> formatting_byte (hd marker) \<and> is_open_boundary alnum value open (hd marker)
        then (candidates @ [MarkerCandidate open (hd marker) Constrained None], marks, rejected)
        else state)"

text \<open>
  \<open>index_marker_closers\<close>. The variables \<open>last_strong\<close>, \<open>last_unconstrained_strong\<close> and so on are
  one map from the opening marker and its form to the closer seen last.
\<close>

type_synonym closers = "char \<times> MarkerForm \<rightharpoonup> nat"

definition opener_map :: "InlineCandidate list \<Rightarrow> (nat \<rightharpoonup> char \<times> MarkerForm)" where
  "opener_map candidates =
     fold (\<lambda>c m. case c of MarkerCandidate open marker form _ \<Rightarrow> m(open \<mapsto> (marker, form)) | _ \<Rightarrow> m)
       candidates Map.empty"

definition closer_step ::
    "(str \<Rightarrow> bool) \<Rightarrow> str \<Rightarrow> bool list \<Rightarrow> (nat \<rightharpoonup> char \<times> MarkerForm) \<Rightarrow> nat \<times> str
     \<Rightarrow> (nat \<Rightarrow> nat option) \<times> closers \<Rightarrow> (nat \<Rightarrow> nat option) \<times> closers" where
  "closer_step alnum value pairs openers position state =
     (let (offset, ch) = position;
          (closer_at, last) = state;
          marker = hd ch;
          closer_at = (case openers offset of
              None \<Rightarrow> closer_at
            | Some opener \<Rightarrow> closer_at(offset := last opener));
          last = (if pairs ! offset \<and> formatting_byte marker
                  then last((marker, Unconstrained) \<mapsto> offset) else last);
          last = (if formatting_byte marker then
                    (if is_close_boundary alnum value offset marker
                     then last((marker, Constrained) \<mapsto> offset) else last)
                  else if ch = ''~'' \<or> ch = ''^'' then last((marker, Constrained) \<mapsto> offset)
                  else if ch = ''}'' then last((CHR ''{'', Constrained) \<mapsto> offset)
                  else last)
      in (closer_at, last))"

definition index_marker_closers ::
    "(str \<Rightarrow> bool) \<Rightarrow> str \<Rightarrow> bool list \<Rightarrow> InlineCandidate list \<Rightarrow> InlineCandidate list" where
  "index_marker_closers alnum value pairs candidates =
     (let (closer_at, _) = fold (closer_step alnum value pairs (opener_map candidates))
            (rev (char_indices value)) (\<lambda>_. None, Map.empty)
      in map (\<lambda>c. case c of
            MarkerCandidate open marker form _ \<Rightarrow> MarkerCandidate open marker form (closer_at open)
          | _ \<Rightarrow> c) candidates)"

text \<open>
  \<open>InlineCandidateIndex::new\<close>, with the assertion that offsets fit the compact tables. The
  delimiter and URL tables are functions of the fragment and are asked for where they are used.
\<close>

definition candidate_index :: "(str \<Rightarrow> bool) \<Rightarrow> str \<Rightarrow> 'e failure + InlineCandidate list" where
  "candidate_index alnum value =
     (if u32_max \<le> length value then Inl Panic
      else
        let (candidates, marks) = preparsed_candidates alnum value;
            (candidates, marks) = monospace_loop alnum value 0 None candidates marks;
            pairs = index_unconstrained_pairs value;
            (candidates, marks, rejected) =
              fold (scan_position alnum value pairs) (char_indices value) (candidates, marks, []);
            candidates = index_marker_closers alnum value pairs candidates
              @ map MacroBoundaryCandidate rejected
        in Inr (sort_key candidate_open candidates))"

text \<open>\<open>InlineCandidateCursor::next\<close>: candidates before the cursor are skipped.\<close>

definition next_candidate ::
    "nat \<Rightarrow> InlineCandidate list \<Rightarrow> (InlineCandidate \<times> InlineCandidate list) option" where
  "next_candidate cursor candidates =
     (case dropWhile (\<lambda>c. candidate_open c < cursor) candidates of
        [] \<Rightarrow> None | c # rest \<Rightarrow> Some (c, rest))"

section \<open>Tokens\<close>

datatype MacroToken =
    FormulaToken nat nat nat nat bool "MathLanguage option"
  | ShortReferenceToken nat nat nat nat
  | XrefToken nat nat nat nat nat
  | ExplicitLinkToken nat nat nat nat nat
  | UrlLinkToken nat nat "(nat \<times> nat) option" nat
  | PassthroughMacroToken nat nat nat nat
  | StandardMacroToken StandardMacroKind MacroForm nat nat nat nat nat
  | ShorthandAnchorToken StandardMacroKind nat nat nat "(nat \<times> nat) option" nat
  | EmailToken nat nat

fun macro_open :: "MacroToken \<Rightarrow> nat" where
  "macro_open (FormulaToken open _ _ _ _ _) = open"
| "macro_open (ShortReferenceToken open _ _ _) = open"
| "macro_open (XrefToken open _ _ _ _) = open"
| "macro_open (ExplicitLinkToken open _ _ _ _) = open"
| "macro_open (UrlLinkToken open _ _ _) = open"
| "macro_open (PassthroughMacroToken open _ _ _) = open"
| "macro_open (StandardMacroToken _ _ open _ _ _ _) = open"
| "macro_open (ShorthandAnchorToken _ open _ _ _ _) = open"
| "macro_open (EmailToken open _) = open"

fun macro_end :: "MacroToken \<Rightarrow> nat" where
  "macro_end (FormulaToken _ _ _ end_offset _ _) = end_offset"
| "macro_end (ShortReferenceToken _ _ _ end_offset) = end_offset"
| "macro_end (XrefToken _ _ _ _ end_offset) = end_offset"
| "macro_end (ExplicitLinkToken _ _ _ _ end_offset) = end_offset"
| "macro_end (UrlLinkToken _ _ _ end_offset) = end_offset"
| "macro_end (PassthroughMacroToken _ _ _ end_offset) = end_offset"
| "macro_end (StandardMacroToken _ _ _ _ _ _ end_offset) = end_offset"
| "macro_end (ShorthandAnchorToken _ _ _ _ _ end_offset) = end_offset"
| "macro_end (EmailToken _ end_offset) = end_offset"

record MarkerToken =
  token_open :: nat
  token_close :: nat
  token_end :: nat
  token_marker :: char
  token_form :: MarkerForm

datatype InlineToken = MacroTok MacroToken | MarkerTok MarkerToken

fun inline_token_open :: "InlineToken \<Rightarrow> nat" where
  "inline_token_open (MacroTok t) = macro_open t"
| "inline_token_open (MarkerTok t) = token_open t"

fun inline_token_end :: "InlineToken \<Rightarrow> nat" where
  "inline_token_end (MacroTok t) = macro_end t"
| "inline_token_end (MarkerTok t) = token_end t"

datatype InlineRecognition =
    MatchedInline InlineToken
  | RecoveredInline nat nat InlineProblemKind
  | RejectedInline nat nat

fun recognition_open :: "InlineRecognition \<Rightarrow> nat" where
  "recognition_open (MatchedInline t) = inline_token_open t"
| "recognition_open (RecoveredInline open _ _) = open"
| "recognition_open (RejectedInline open _) = open"

fun recognition_next :: "InlineRecognition \<Rightarrow> nat" where
  "recognition_next (MatchedInline t) = inline_token_end t"
| "recognition_next (RecoveredInline _ next_offset _) = next_offset"
| "recognition_next (RejectedInline _ next_offset) = next_offset"

text \<open>The debug assertion of every recognition.\<close>

definition recognition_well_formed :: "str \<Rightarrow> InlineRecognition \<Rightarrow> bool" where
  "recognition_well_formed value r \<longleftrightarrow>
     recognition_open r < recognition_next r \<and> recognition_next r \<le> length value
     \<and> char_boundary value (recognition_open r) \<and> char_boundary value (recognition_next r)"

section \<open>Recognition\<close>

definition unclosed_marker :: "char \<Rightarrow> 'e failure + InlineProblemKind" where
  "unclosed_marker marker =
     (if marker = CHR ''`'' then Inr UnclosedMonospace
      else if marker = CHR ''*'' then Inr UnclosedStrong
      else if marker = CHR ''_'' then Inr UnclosedEmphasis
      else if marker = CHR ''#'' then Inr UnclosedHighlight
      else if marker = CHR ''~'' then Inr UnclosedSubscript
      else if marker = CHR ''^'' then Inr UnclosedSuperscript
      else if marker = CHR ''{'' then Inr UnclosedAttributeReference
      else Inl Panic)"

definition recognize_marker ::
    "str \<Rightarrow> nat \<Rightarrow> char \<Rightarrow> MarkerForm \<Rightarrow> nat option \<Rightarrow> 'e failure + InlineRecognition" where
  "recognize_marker value open marker form close =
     (let width = form_width form; next_offset = open + width in
      case close of
        None \<Rightarrow>
          if form = Unconstrained
            \<and> (next_offset = length value
               \<or> (case next_char value next_offset of None \<Rightarrow> False | Some ch \<Rightarrow> is_whitespace ch))
          then Inr (RejectedInline open next_offset)
          else and_then (unclosed_marker marker) (\<lambda>kind. Inr (RecoveredInline open next_offset kind))
      | Some close \<Rightarrow>
          if close = next_offset then Inr (RejectedInline open (close + width))
          else if marker = CHR ''{'' \<and> \<not> valid_reference_name (slice value next_offset close)
          then Inr (RejectedInline open next_offset)
          else if (marker = CHR ''^'' \<or> marker = CHR ''~'')
            \<and> list_ex is_whitespace (chars (slice value next_offset close))
          then Inr (RejectedInline open next_offset)
          else Inr (MatchedInline (MarkerTok
                 \<lparr>token_open = open, token_close = close, token_end = close + width,
                  token_marker = marker, token_form = form\<rparr>)))"

abbreviation open_bracket_from :: "str \<Rightarrow> nat \<Rightarrow> nat option" where
  "open_bracket_from value offset \<equiv> next_open_bracket (DelimiterIndex_new value) ! offset"

abbreviation close_bracket_from :: "str \<Rightarrow> nat \<Rightarrow> nat option" where
  "close_bracket_from value offset \<equiv> next_close_bracket (DelimiterIndex_new value) ! offset"

abbreviation double_greater_from :: "str \<Rightarrow> nat \<Rightarrow> nat option" where
  "double_greater_from value offset \<equiv> next_double_greater (DelimiterIndex_new value) ! offset"

definition split_anchor_label :: "str \<Rightarrow> nat \<Rightarrow> nat \<Rightarrow> nat \<times> (nat \<times> nat) option" where
  "split_anchor_label value start close =
     (case find_char (CHR '','') (slice value start close) of
        Some offset \<Rightarrow> (start + offset, Some (start + offset + 1, close))
      | None \<Rightarrow> (close, None))"

text \<open>The bracket that closes a footnote, by depth; \<open>first_close\<close> is the fallback.\<close>

function footnote_loop :: "str \<Rightarrow> nat \<Rightarrow> nat \<Rightarrow> nat option \<Rightarrow> nat option" where
  "footnote_loop value cursor depth first_close =
     (if length value < cursor then None
      else case close_bracket_from value cursor of
        None \<Rightarrow> first_close
      | Some close \<Rightarrow>
          (case open_bracket_from value cursor of
             Some open \<Rightarrow>
               if open < close
               then footnote_loop value (open + 1) (if is_escaped value open then depth else depth + 1) first_close
               else if is_escaped value close then footnote_loop value (close + 1) depth first_close
               else if depth = 0 then Some close
               else footnote_loop value (close + 1) (depth - 1)
                      (case first_close of None \<Rightarrow> Some close | Some c \<Rightarrow> Some c)
           | None \<Rightarrow>
               if is_escaped value close then footnote_loop value (close + 1) depth first_close
               else if depth = 0 then Some close
               else footnote_loop value (close + 1) (depth - 1)
                      (case first_close of None \<Rightarrow> Some close | Some c \<Rightarrow> Some c)))"
  by pat_completeness auto
termination
  by (relation "measure (\<lambda>(value, cursor, depth, first_close). Suc (length value) - cursor)")
    (auto simp: DelimiterIndex_new_def dest!: next_index_Some [rotated])

declare footnote_loop.simps [simp del]

definition footnote_close :: "str \<Rightarrow> nat \<Rightarrow> nat option" where
  "footnote_close value start = footnote_loop value start 0 None"

text \<open>The end of a URL moves back over final punctuation.\<close>

fun trim_url_end :: "str \<Rightarrow> nat \<Rightarrow> nat \<Rightarrow> nat" where
  "trim_url_end value open 0 = 0"
| "trim_url_end value open (Suc n) =
     (if open < Suc n \<and> previous_char value (Suc n) \<in> {Some ''.'', Some '','', Some '';''}
      then trim_url_end value open n else Suc n)"

text \<open>
  The macros written \<open>name:target[...]\<close>: the target may hold no white space. \<open>build\<close> makes the
  token from the two brackets and \<open>missing\<close> is the problem when one of them is absent.
\<close>

definition recognize_bracketed ::
    "str \<Rightarrow> nat \<Rightarrow> nat \<Rightarrow> InlineProblemKind \<Rightarrow> (nat \<Rightarrow> nat option) \<Rightarrow> (nat \<Rightarrow> nat \<Rightarrow> MacroToken)
     \<Rightarrow> InlineRecognition" where
  "recognize_bracketed value open start missing close_from build =
     (case open_bracket_from value start of
        None \<Rightarrow> RecoveredInline open (next_char_boundary value open) missing
      | Some bracket \<Rightarrow>
          if list_ex is_whitespace (chars (slice value start bracket))
          then RejectedInline open (next_char_boundary value open)
          else (case close_from (bracket + 1) of
              None \<Rightarrow> RecoveredInline open (next_char_boundary value open) missing
            | Some close \<Rightarrow> MatchedInline (MacroTok (build bracket close))))"

definition recognize_named :: "str \<Rightarrow> nat \<Rightarrow> NamedMacroPrefix \<Rightarrow> InlineRecognition" where
  "recognize_named value open named =
     (case named of
        FormulaPrefix n language \<Rightarrow>
          let close = close_bracket_from value (open + n) in
          MatchedInline (MacroTok (FormulaToken open (open + n)
            (case close of None \<Rightarrow> length value | Some c \<Rightarrow> c)
            (case close of None \<Rightarrow> length value | Some c \<Rightarrow> c + 1) (close \<noteq> None) language))
      | PassthroughPrefix n \<Rightarrow>
          (case close_bracket_from value (open + n) of
             None \<Rightarrow> RecoveredInline open (next_char_boundary value open) UnclosedPassthrough
           | Some close \<Rightarrow>
               MatchedInline (MacroTok (PassthroughMacroToken open (open + n) close (close + 1))))
      | XrefPrefix n \<Rightarrow>
          recognize_bracketed value open (open + n) IncompleteCrossReference (close_bracket_from value)
            (\<lambda>bracket close. XrefToken open (open + n) bracket close (close + 1))
      | LinkPrefix n \<Rightarrow>
          recognize_bracketed value open (open + n) IncompleteLink (close_bracket_from value)
            (\<lambda>bracket close. ExplicitLinkToken open (open + n) bracket close (close + 1))
      | StandardPrefix kind form n \<Rightarrow>
          recognize_bracketed value open (open + n) IncompleteLink
            (if kind = Footnote then footnote_close value else close_bracket_from value)
            (\<lambda>bracket close. StandardMacroToken kind form open (open + n) bracket close (close + 1)))"

definition recognize_url :: "str \<Rightarrow> nat \<Rightarrow> InlineRecognition" where
  "recognize_url value open =
     (case url_scheme_end (drop open value) of
        None \<Rightarrow> RejectedInline open (next_char_boundary value open)
      | Some scheme_end \<Rightarrow>
          let target_end = trim_url_end value open (UrlCandidateIndex_new value ! (open + scheme_end)) in
          if target_end \<le> open + scheme_end
          then RejectedInline open (next_char_boundary value open)
          else if target_end < length value \<and> value ! target_end = CHR ''[''
          then (case close_bracket_from value (target_end + 1) of
              None \<Rightarrow> RecoveredInline open (next_char_boundary value open) IncompleteLink
            | Some close \<Rightarrow>
                MatchedInline (MacroTok (UrlLinkToken open target_end (Some (target_end + 1, close)) (close + 1))))
          else MatchedInline (MacroTok (UrlLinkToken open target_end None target_end)))"

fun before_angle_brackets :: "NamedMacroPrefix option \<Rightarrow> bool" where
  "before_angle_brackets (Some (FormulaPrefix _ _)) = True"
| "before_angle_brackets (Some (PassthroughPrefix _)) = True"
| "before_angle_brackets _ = False"

text \<open>The double angle bracket stands between the passthrough and the other named macros.\<close>

definition recognize_macro :: "str \<Rightarrow> nat \<Rightarrow> InlineRecognition" where
  "recognize_macro value open =
     (let rest = drop open value;
          anchor = (\<lambda>kind width closing.
            map_option (\<lambda>relative.
                let close = open + width + relative;
                    (stop, label) = split_anchor_label value (open + width) close
                in MatchedInline (MacroTok
                     (ShorthandAnchorToken kind open (open + width) stop label (close + width))))
              (find_str closing (drop width rest)));
          named = named_macro_prefix rest
      in
      case (if starts_with rest ''[[['' then anchor BibliographyAnchor 3 '']]]'' else None) of
        Some r \<Rightarrow> r
      | None \<Rightarrow>
      (case (if starts_with rest ''[['' then anchor AnchorMacro 2 '']]'' else None) of
        Some r \<Rightarrow> r
      | None \<Rightarrow>
      (if before_angle_brackets named
       then recognize_named value open (the named)
       else if starts_with rest ''<<''
       then (case double_greater_from value (open + 2) of
           None \<Rightarrow> RecoveredInline open (next_char_boundary value open) IncompleteCrossReference
         | Some close \<Rightarrow>
             MatchedInline (MacroTok (ShortReferenceToken open (open + 2) close (close + 2))))
       else (case named of
           Some p \<Rightarrow> recognize_named value open p
         | None \<Rightarrow>
             (case email_address_end rest of
                Some relative_end \<Rightarrow> MatchedInline (MacroTok (EmailToken open (open + relative_end)))
              | None \<Rightarrow> recognize_url value open)))))"

definition recognize_candidate ::
    "str \<Rightarrow> InlineCandidate \<Rightarrow> 'e failure + InlineRecognition option" where
  "recognize_candidate value candidate =
     (case candidate of
        MacroCandidate open \<Rightarrow> Inr (Some (recognize_macro value open))
      | MacroBoundaryCandidate open \<Rightarrow> Inr (Some (recognize_macro value open))
      | MarkerCandidate open marker form close \<Rightarrow>
          and_then (recognize_marker value open marker form close) (\<lambda>r. Inr (Some r))
      | _ \<Rightarrow> Inr None)"

definition standard_macro_name :: "StandardMacroKind \<Rightarrow> str" where
  "standard_macro_name kind = (case kind of
      Email \<Rightarrow> ''email'' | Footnote \<Rightarrow> ''footnote'' | AnchorMacro \<Rightarrow> ''anchor''
    | BibliographyAnchor \<Rightarrow> ''bibanchor'' | Citation \<Rightarrow> ''cite'' | IndexTerm \<Rightarrow> ''indexterm''
    | Keyboard \<Rightarrow> ''kbd'' | Button \<Rightarrow> ''btn'' | Menu \<Rightarrow> ''menu'' | Image \<Rightarrow> ''image''
    | Icon \<Rightarrow> ''icon'' | Audio \<Rightarrow> ''audio'' | Video \<Rightarrow> ''video'')"

definition macro_boundary_subject :: "str \<Rightarrow> MacroToken \<Rightarrow> (nat \<times> str) option" where
  "macro_boundary_subject value token =
     (case token of
        FormulaToken open start _ _ _ _ \<Rightarrow>
          Some (start - 2,
            if starts_ascii_case_insensitive (drop open value) ''latexmath:['' then ''latexmath''
            else if starts_ascii_case_insensitive (drop open value) ''asciimath:['' then ''asciimath''
            else ''stem'')
      | PassthroughMacroToken _ start _ _ \<Rightarrow> Some (start - 2, ''pass'')
      | XrefToken _ start _ _ _ \<Rightarrow> Some (start - 1, ''xref'')
      | ExplicitLinkToken _ start _ _ _ \<Rightarrow> Some (start - 1, ''link'')
      | UrlLinkToken open _ _ _ \<Rightarrow>
          if starts_ascii_case_insensitive (drop open value) ''include::'' then None
          else map_option (\<lambda>scheme_end. (open + scheme_end - 1, ''URL''))
                 (url_scheme_end (drop open value))
      | StandardMacroToken kind InlineForm _ start _ _ _ \<Rightarrow> Some (start - 1, standard_macro_name kind)
      | EmailToken _ stop \<Rightarrow> Some (stop, ''email'')
      | _ \<Rightarrow> None)"

end
