(* ===== verification/Inline_Parser.thy ===== *)
theory Inline_Parser
  imports Inline_Scan Budget
begin

text \<open>
  \<open>inline.rs\<close> and \<open>inline/lowering.rs\<close>: recognized tokens become inlines with ranges of the source.
  A slice or a range that the source takes for granted (\<open>&value[a..b]\<close>, \<open>subrange\<close>) is \<open>Inl Panic\<close>
  where it would panic. \<open>parse_segment\<close> calls itself on labels and spans; here it is given the
  parser of shorter fragments, and \<open>parse_fuel\<close> ties the knot by the length of the fragment.
\<close>

record InlineParseConfig =
  inline_max_depth :: nat
  inline_max_formula_bytes :: nat

definition InlineParseConfig_default :: InlineParseConfig where
  "InlineParseConfig_default = \<lparr>inline_max_depth = 32, inline_max_formula_bytes = 1024 * 1024\<rparr>"

record InlineParseOutput =
  output_inlines :: "Inline list"
  output_problems :: "InlineProblem list"

record BuiltInline =
  built_inline :: Inline
  built_end :: nat
  built_problems :: "InlineProblem list"

type_synonym 'a parsed = "BudgetExceeded failure + 'a"

type_synonym segment_parser =
  "str \<Rightarrow> TextRange \<Rightarrow> nat \<Rightarrow> ParseBudget \<Rightarrow> (InlineParseOutput \<times> ParseBudget) parsed"

section \<open>Ranges and slices of a fragment\<close>

definition subrange :: "TextRange \<Rightarrow> nat \<Rightarrow> nat \<Rightarrow> 'e failure + TextRange" where
  "subrange parent start stop =
     (case text_range (range_start parent + start) (range_start parent + stop) of
        Inl _ \<Rightarrow> Inl Panic | Inr r \<Rightarrow> Inr r)"

definition sub_str :: "str \<Rightarrow> nat \<Rightarrow> nat \<Rightarrow> 'e failure + str" where
  "sub_str value start stop = expect (str_get value start stop)"

definition push_inline :: "Inline list \<Rightarrow> Inline \<Rightarrow> ParseBudget \<Rightarrow> (Inline list \<times> ParseBudget) parsed" where
  "push_inline inlines inline budget =
     and_then (map_err Err (consume_node budget)) (\<lambda>budget. Inr (inlines @ [inline], budget))"

definition push_text ::
    "Inline list \<Rightarrow> str \<Rightarrow> TextRange \<Rightarrow> nat \<Rightarrow> nat \<Rightarrow> ParseBudget \<Rightarrow> (Inline list \<times> ParseBudget) parsed" where
  "push_text inlines value outer start stop budget =
     (if start \<noteq> stop
      then and_then (subrange outer start stop) (\<lambda>r.
           and_then (sub_str value start stop) (\<lambda>v.
             push_inline inlines (TextInline \<lparr>inline_text_range = r, inline_text_value = v\<rparr>) budget))
      else Inr (inlines, budget))"

section \<open>Targets and attributes of macros\<close>

function attribute_uses_loop ::
    "str \<Rightarrow> TextRange \<Rightarrow> nat \<Rightarrow> AttributeUse list \<Rightarrow> 'e failure + AttributeUse list" where
  "attribute_uses_loop value outer cursor output =
     (case find_char (CHR ''{'') (drop cursor value) of
        None \<Rightarrow> Inr output
      | Some open_relative \<Rightarrow>
          let open = cursor + open_relative in
          (case find_char (CHR ''}'') (drop (open + 1) value) of
             None \<Rightarrow> Inr output
           | Some close_relative \<Rightarrow>
               let close = open + 1 + close_relative; name = slice value (open + 1) close in
               if valid_inline_attribute_name name
               then (case subrange outer (open + 1) close of
                   Inl e \<Rightarrow> Inl e
                 | Inr r \<Rightarrow> attribute_uses_loop value outer (close + 1)
                     (output @ [\<lparr>use_name = name, use_name_range = r\<rparr>]))
               else attribute_uses_loop value outer (close + 1) output))"
  by pat_completeness auto
termination
  by (relation "measure (\<lambda>(value, outer, cursor, output). length value - cursor)")
    (auto dest!: find_char_length)

declare attribute_uses_loop.simps [simp del]

definition attribute_uses :: "str \<Rightarrow> TextRange \<Rightarrow> 'e failure + AttributeUse list" where
  "attribute_uses value outer = attribute_uses_loop value outer 0 []"

definition trim_end :: "str \<Rightarrow> str" where
  "trim_end s = concat (rev (dropWhile is_whitespace (rev (chars s))))"

definition footnote_body_attribute :: "str \<Rightarrow> TextRange \<Rightarrow> 'e failure + MacroAttribute list" where
  "footnote_body_attribute value outer =
     (let start = length value - length (trim_start value); stop = length (trim_end value) in
      if stop \<le> start then Inr []
      else and_then (subrange outer start stop) (\<lambda>r.
           and_then (sub_str value start stop) (\<lambda>v.
             Inr [\<lparr>macro_attribute_range = r, macro_attribute_value_range = r,
                   macro_attribute_name = None, macro_attribute_value = v\<rparr>])))"

text \<open>One item of an attribute list, between two commas outside quotes.\<close>

definition macro_attribute_item ::
    "str \<Rightarrow> TextRange \<Rightarrow> nat \<Rightarrow> nat \<Rightarrow> 'e failure + MacroAttribute option" where
  "macro_attribute_item value outer start offset =
     and_then (sub_str value start offset) (\<lambda>raw.
     let leading = length raw - length (trim_start raw);
         trailing = length raw - length (trim_end raw);
         item_start = start + leading;
         item_end = offset - trailing
     in
     if item_end \<le> item_start then Inr None
     else and_then (sub_str value item_start item_end) (\<lambda>item.
       let (name, raw_value, raw_value_start) = (case find_char (CHR ''='') item of
               None \<Rightarrow> (None, item, item_start)
             | Some equals \<Rightarrow>
                 (Some (trim (take equals item)), drop (equals + 1) item, item_start + equals + 1));
           value_start = raw_value_start + (length raw_value - length (trim_start raw_value));
           value_end = item_end - (length raw_value - length (trim_end raw_value))
       in
       and_then (sub_str value value_start value_end) (\<lambda>item_value.
       let quoted = (2 \<le> length item_value \<and> hd item_value \<in> {quote_char, double_quote}
             \<and> hd item_value = last item_value);
           value_start = (if quoted then value_start + 1 else value_start);
           value_end = (if quoted then value_end - 1 else value_end)
       in
       and_then (sub_str value value_start value_end) (\<lambda>item_value.
       and_then (subrange outer item_start item_end) (\<lambda>r.
       and_then (subrange outer value_start value_end) (\<lambda>vr.
         Inr (Some \<lparr>macro_attribute_range = r, macro_attribute_value_range = vr,
                    macro_attribute_name = name, macro_attribute_value = item_value\<rparr>)))))))"

fun macro_attributes_loop ::
    "str \<Rightarrow> TextRange \<Rightarrow> (nat \<times> str) list \<Rightarrow> nat \<Rightarrow> str option \<Rightarrow> MacroAttribute list
     \<Rightarrow> 'e failure + MacroAttribute list" where
  "macro_attributes_loop value outer [] start quote found = Inr found"
| "macro_attributes_loop value outer ((offset, ch) # rest) start quote found =
     (let quote = (if ch = [quote_char] \<or> ch = [double_quote] then
                     (if quote = Some ch then None else if quote = None then Some ch else quote)
                   else quote)
      in
      if ch \<noteq> '','' \<or> quote \<noteq> None then macro_attributes_loop value outer rest start quote found
      else and_then (macro_attribute_item value outer start offset) (\<lambda>item.
        macro_attributes_loop value outer rest (offset + 1) quote
          (case item of None \<Rightarrow> found | Some a \<Rightarrow> found @ [a])))"

definition parse_macro_attributes :: "str \<Rightarrow> TextRange \<Rightarrow> 'e failure + MacroAttribute list" where
  "parse_macro_attributes value outer =
     macro_attributes_loop value outer (char_indices value @ [(length value, '','')]) 0 None []"

definition parse_reference_destination :: "str \<Rightarrow> TextRange \<Rightarrow> 'e failure + ReferenceDestination" where
  "parse_reference_destination tgt outer =
     (case strip_prefix tgt ''#'' of
        Some anchor \<Rightarrow>
          if anchor = [] then Inr InvalidDestination
          else and_then (subrange outer 1 (length tgt)) (\<lambda>r. Inr (LocalDestination anchor r))
      | None \<Rightarrow>
          let anchor_part = (\<lambda>anchor. case anchor of
                None \<Rightarrow> Inr None
              | Some a \<Rightarrow> and_then (subrange outer (length tgt - length a) (length tgt)) (\<lambda>r. Inr (Some r)));
              document_part =
                (let (document, anchor) = split_anchor tgt in
                 if document = [] then Inr InvalidDestination
                 else and_then (subrange outer 0 (length document)) (\<lambda>r.
                      and_then (anchor_part anchor) (\<lambda>ar. Inr (DocumentDestination document r anchor ar))))
          in (case find_char (CHR '':'') tgt of
                None \<Rightarrow> document_part
              | Some colon \<Rightarrow>
                  if scheme_bytes (take colon tgt)
                  then
                    (let (locator, anchor) = split_anchor (drop (colon + 1) tgt) in
                     and_then (subrange outer 0 colon) (\<lambda>sr.
                     and_then (subrange outer (colon + 1) (colon + 1 + length locator)) (\<lambda>lr.
                     and_then (anchor_part anchor) (\<lambda>ar.
                       Inr (SchemeDestination (to_ascii_lowercase (take colon tgt)) sr locator lr anchor ar)))))
                  else document_part))"

section \<open>Lowering of tokens\<close>

definition lower_standard_macro ::
    "str \<Rightarrow> TextRange \<Rightarrow> StandardMacroKind \<Rightarrow> MacroForm \<Rightarrow> nat \<Rightarrow> nat \<Rightarrow> nat \<Rightarrow> nat \<Rightarrow> nat
     \<Rightarrow> 'e failure + BuiltInline" where
  "lower_standard_macro value outer kind form open start bracket close stop =
     and_then (subrange outer (bracket + 1) close) (\<lambda>attributes_r.
     and_then (subrange outer open stop) (\<lambda>r.
     and_then (subrange outer start bracket) (\<lambda>target_r.
     and_then (sub_str value start bracket) (\<lambda>tgt.
     and_then (attribute_uses tgt target_r) (\<lambda>uses.
     and_then (sub_str value (bracket + 1) close) (\<lambda>body.
     and_then (if kind = Footnote then footnote_body_attribute body attributes_r
               else parse_macro_attributes body attributes_r) (\<lambda>found.
       Inr \<lparr>built_inline = MacroInline
               \<lparr>macro_kind = kind, macro_form = form, macro_range = r, macro_target_range = target_r,
                macro_target_source = tgt, macro_target = tgt, macro_target_attributes = uses,
                macro_target_expansion_error = None, macro_attributes_range = attributes_r,
                macro_attributes = found\<rparr>,
            built_end = stop, built_problems = []\<rparr>)))))))"

definition build_shorthand_anchor ::
    "str \<Rightarrow> TextRange \<Rightarrow> StandardMacroKind \<Rightarrow> nat \<Rightarrow> nat \<Rightarrow> nat \<Rightarrow> (nat \<times> nat) option \<Rightarrow> nat
     \<Rightarrow> 'e failure + BuiltInline" where
  "build_shorthand_anchor value outer kind open start target_to label stop =
     and_then (case label of None \<Rightarrow> subrange outer target_to target_to
               | Some (a, b) \<Rightarrow> subrange outer a b) (\<lambda>attributes_r.
     and_then (case label of None \<Rightarrow> Inr []
               | Some (a, b) \<Rightarrow> and_then (sub_str value a b) (\<lambda>v.
                   Inr [\<lparr>macro_attribute_range = attributes_r, macro_attribute_value_range = attributes_r,
                         macro_attribute_name = None, macro_attribute_value = v\<rparr>])) (\<lambda>found.
     and_then (subrange outer open stop) (\<lambda>r.
     and_then (subrange outer start target_to) (\<lambda>target_r.
     and_then (sub_str value start target_to) (\<lambda>tgt.
       Inr \<lparr>built_inline = MacroInline
               \<lparr>macro_kind = kind, macro_form = InlineForm, macro_range = r,
                macro_target_range = target_r, macro_target_source = tgt, macro_target = tgt,
                macro_target_attributes = [], macro_target_expansion_error = None,
                macro_attributes_range = attributes_r, macro_attributes = found\<rparr>,
            built_end = stop, built_problems = []\<rparr>)))))"

definition build_email :: "str \<Rightarrow> TextRange \<Rightarrow> nat \<Rightarrow> nat \<Rightarrow> 'e failure + BuiltInline" where
  "build_email value outer open stop =
     and_then (sub_str value open stop) (\<lambda>tgt.
     and_then (subrange outer stop stop) (\<lambda>none_r.
     and_then (subrange outer open stop) (\<lambda>r.
       Inr \<lparr>built_inline = MacroInline
               \<lparr>macro_kind = Email, macro_form = InlineForm, macro_range = r, macro_target_range = r,
                macro_target_source = tgt, macro_target = tgt, macro_target_attributes = [],
                macro_target_expansion_error = None, macro_attributes_range = none_r,
                macro_attributes = []\<rparr>,
            built_end = stop, built_problems = []\<rparr>)))"

definition build_formula ::
    "str \<Rightarrow> TextRange \<Rightarrow> InlineParseConfig \<Rightarrow> nat \<Rightarrow> nat \<Rightarrow> nat \<Rightarrow> nat \<Rightarrow> bool \<Rightarrow> MathLanguage option
     \<Rightarrow> 'e failure + BuiltInline" where
  "build_formula value outer config open content_from content_to stop closed language =
     and_then (subrange outer open stop) (\<lambda>r.
     and_then (subrange outer content_from content_to) (\<lambda>content_r.
     and_then (sub_str value content_from content_to) (\<lambda>v.
       Inr \<lparr>built_inline = FormulaInline
               \<lparr>formula_range = r, formula_content_range = content_r,
                formula_language = (case language of None \<Rightarrow> AsciiMath | Some l \<Rightarrow> l),
                uses_stem_attribute = (language = None), formula_value = v, formula_closed = closed\<rparr>,
            built_end = stop,
            built_problems =
              (if closed then [] else [\<lparr>inline_problem_kind = UnclosedStem, inline_problem_range = r\<rparr>])
              @ (if v = [] then [\<lparr>inline_problem_kind = EmptyStem, inline_problem_range = content_r\<rparr>] else [])
              @ (if inline_max_formula_bytes config < length v
                 then [\<lparr>inline_problem_kind = StemSizeLimitExceeded, inline_problem_range = content_r\<rparr>]
                 else [])\<rparr>)))"

definition build_passthrough ::
    "str \<Rightarrow> TextRange \<Rightarrow> PassthroughKind \<Rightarrow> nat \<Rightarrow> nat \<Rightarrow> nat \<Rightarrow> nat \<Rightarrow> 'e failure + Inline" where
  "build_passthrough value outer kind open content_from content_to stop =
     and_then (subrange outer open stop) (\<lambda>r.
     and_then (subrange outer content_from content_to) (\<lambda>content_r.
     and_then (sub_str value content_from content_to) (\<lambda>v.
       Inr (PassthroughInline kind r content_r v))))"

text \<open>A label between two offsets, parsed one level deeper.\<close>

definition parse_label ::
    "segment_parser \<Rightarrow> str \<Rightarrow> TextRange \<Rightarrow> nat \<Rightarrow> nat \<Rightarrow> nat \<Rightarrow> ParseBudget
     \<Rightarrow> (TextRange \<times> InlineParseOutput \<times> ParseBudget) parsed" where
  "parse_label parse value outer depth start stop budget =
     and_then (subrange outer start stop) (\<lambda>label_r.
     and_then (sub_str value start stop) (\<lambda>label.
     and_then (parse label label_r (depth + 1) budget) (\<lambda>(output, budget).
       Inr (label_r, output, budget))))"

definition build_explicit_link ::
    "segment_parser \<Rightarrow> str \<Rightarrow> TextRange \<Rightarrow> nat \<Rightarrow> nat \<Rightarrow> nat \<Rightarrow> nat \<Rightarrow> nat \<Rightarrow> nat \<Rightarrow> ParseBudget
     \<Rightarrow> (BuiltInline \<times> ParseBudget) parsed" where
  "build_explicit_link parse value outer depth open start bracket close stop budget =
     and_then (subrange outer start bracket) (\<lambda>target_r.
     and_then (sub_str value start bracket) (\<lambda>tgt.
     and_then (parse_label parse value outer depth (bracket + 1) close budget) (\<lambda>(label_r, label, budget).
     and_then (subrange outer open stop) (\<lambda>r.
     and_then (subrange outer open (start - 1)) (\<lambda>name_r.
     and_then (attribute_uses tgt target_r) (\<lambda>uses.
       Inr (\<lparr>built_inline = LinkInline (Link r (Some name_r) target_r tgt tgt uses None (Some label_r)
               (output_inlines label)),
             built_end = stop, built_problems = output_problems label\<rparr>, budget)))))))"

definition build_url_link ::
    "segment_parser \<Rightarrow> str \<Rightarrow> TextRange \<Rightarrow> nat \<Rightarrow> nat \<Rightarrow> nat \<Rightarrow> (nat \<times> nat) option \<Rightarrow> nat \<Rightarrow> ParseBudget
     \<Rightarrow> (BuiltInline \<times> ParseBudget) parsed" where
  "build_url_link parse value outer depth open target_to label stop budget =
     and_then (case label of
         None \<Rightarrow> Inr (None, \<lparr>output_inlines = [], output_problems = []\<rparr>, budget)
       | Some (a, b) \<Rightarrow>
           and_then (parse_label parse value outer depth a b budget) (\<lambda>(label_r, output, budget).
             Inr (Some label_r, output, budget))) (\<lambda>(label_r, output, budget).
     and_then (subrange outer open target_to) (\<lambda>target_r.
     and_then (subrange outer open stop) (\<lambda>r.
     and_then (sub_str value open target_to) (\<lambda>tgt.
     and_then (attribute_uses tgt target_r) (\<lambda>uses.
       Inr (\<lparr>built_inline = LinkInline (Link r None target_r tgt tgt uses None label_r (output_inlines output)),
             built_end = stop, built_problems = output_problems output\<rparr>, budget))))))"

definition lower_short_reference ::
    "segment_parser \<Rightarrow> str \<Rightarrow> TextRange \<Rightarrow> nat \<Rightarrow> nat \<Rightarrow> nat \<Rightarrow> nat \<Rightarrow> nat \<Rightarrow> ParseBudget
     \<Rightarrow> (BuiltInline \<times> ParseBudget) parsed" where
  "lower_short_reference parse value outer depth open start close stop budget =
     and_then (map_err Err (consume_reference budget)) (\<lambda>budget.
     and_then (sub_str value start close) (\<lambda>tgt.
     let (anchor, label) = (case split_once_char (CHR '','') tgt of
             None \<Rightarrow> (tgt, None) | Some (a, l) \<Rightarrow> (a, Some l))
     in
     and_then (subrange outer start (start + length anchor)) (\<lambda>target_r.
     and_then (case label of
         None \<Rightarrow> Inr (None, \<lparr>output_inlines = [], output_problems = []\<rparr>, budget)
       | Some l \<Rightarrow>
           and_then (parse_label parse value outer depth (close - length l) close budget)
             (\<lambda>(label_r, output, budget). Inr (Some label_r, output, budget))) (\<lambda>(label_r, output, budget).
     and_then (subrange outer open stop) (\<lambda>r.
     and_then (attribute_uses anchor target_r) (\<lambda>uses.
       Inr (\<lparr>built_inline = ReferenceInline (Reference r None target_r anchor anchor uses None
               (if anchor = [] then InvalidDestination else LocalDestination anchor target_r)
               (if anchor = [] then None else Some (LocalKey anchor)) label_r (output_inlines output)),
             built_end = stop, built_problems = output_problems output\<rparr>, budget)))))))"

definition lower_xref ::
    "segment_parser \<Rightarrow> str \<Rightarrow> TextRange \<Rightarrow> nat \<Rightarrow> nat \<Rightarrow> nat \<Rightarrow> nat \<Rightarrow> nat \<Rightarrow> nat \<Rightarrow> ParseBudget
     \<Rightarrow> (BuiltInline \<times> ParseBudget) parsed" where
  "lower_xref parse value outer depth open start bracket close stop budget =
     and_then (map_err Err (consume_reference budget)) (\<lambda>budget.
     and_then (sub_str value start bracket) (\<lambda>tgt.
     and_then (subrange outer start bracket) (\<lambda>target_r.
     and_then (parse_label parse value outer depth (bracket + 1) close budget) (\<lambda>(label_r, label, budget).
     and_then (subrange outer open stop) (\<lambda>r.
     and_then (subrange outer open (start - 1)) (\<lambda>name_r.
     and_then (attribute_uses tgt target_r) (\<lambda>uses.
     and_then (parse_reference_destination tgt target_r) (\<lambda>destination.
       Inr (\<lparr>built_inline = ReferenceInline (Reference r (Some name_r) target_r tgt tgt uses None
               destination (ReferenceKey_parse tgt) (Some label_r) (output_inlines label)),
             built_end = stop, built_problems = output_problems label\<rparr>, budget)))))))))"

definition build_macro ::
    "segment_parser \<Rightarrow> InlineParseConfig \<Rightarrow> str \<Rightarrow> TextRange \<Rightarrow> nat \<Rightarrow> MacroToken \<Rightarrow> ParseBudget
     \<Rightarrow> (BuiltInline \<times> ParseBudget) parsed" where
  "build_macro parse config value outer depth token budget =
     (case token of
        PassthroughMacroToken open content_from content_to stop \<Rightarrow>
          and_then (build_passthrough value outer MacroPassthrough open content_from content_to stop)
            (\<lambda>i. Inr (\<lparr>built_inline = i, built_end = stop, built_problems = []\<rparr>, budget))
      | FormulaToken open content_from content_to stop closed language \<Rightarrow>
          and_then (build_formula value outer config open content_from content_to stop closed language)
            (\<lambda>b. Inr (b, budget))
      | ShortReferenceToken open start close stop \<Rightarrow>
          lower_short_reference parse value outer depth open start close stop budget
      | XrefToken open start bracket close stop \<Rightarrow>
          lower_xref parse value outer depth open start bracket close stop budget
      | ExplicitLinkToken open start bracket close stop \<Rightarrow>
          build_explicit_link parse value outer depth open start bracket close stop budget
      | UrlLinkToken open target_to label stop \<Rightarrow>
          build_url_link parse value outer depth open target_to label stop budget
      | StandardMacroToken kind form open start bracket close stop \<Rightarrow>
          and_then (lower_standard_macro value outer kind form open start bracket close stop)
            (\<lambda>b. Inr (b, budget))
      | ShorthandAnchorToken kind open start target_to label stop \<Rightarrow>
          and_then (build_shorthand_anchor value outer kind open start target_to label stop)
            (\<lambda>b. Inr (b, budget))
      | EmailToken open stop \<Rightarrow>
          and_then (build_email value outer open stop) (\<lambda>b. Inr (b, budget)))"

definition span_style :: "char \<Rightarrow> InlineStyle option" where
  "span_style marker =
     (if marker = CHR ''*'' then Some Strong
      else if marker = CHR ''_'' then Some Emphasis
      else if marker = CHR ''#'' then Some Highlight
      else if marker = CHR ''~'' then Some Subscript
      else if marker = CHR ''^'' then Some Superscript
      else None)"

definition lower_marker ::
    "segment_parser \<Rightarrow> InlineParseConfig \<Rightarrow> str \<Rightarrow> TextRange \<Rightarrow> nat \<Rightarrow> MarkerToken \<Rightarrow> ParseBudget
     \<Rightarrow> (BuiltInline \<times> ParseBudget) parsed" where
  "lower_marker parse config value outer depth token budget =
     (let open = token_open token; close = token_close token; stop = token_end token;
          marker = token_marker token; from = open + form_width (token_form token)
      in
      and_then (subrange outer open stop) (\<lambda>node_r.
      and_then (subrange outer from close) (\<lambda>content_r.
      if marker = CHR ''`'' then
        and_then (sub_str value from close) (\<lambda>content.
        let literal = (3 \<le> length content \<and> starts_with content ''+'' \<and> ends_with content ''+'');
            content_from = (if literal then from + 1 else from);
            content_to = (if literal then close - 1 else close)
        in
        and_then (subrange outer content_from content_to) (\<lambda>literal_r.
        and_then (sub_str value content_from content_to) (\<lambda>v.
          Inr (\<lparr>built_inline = LiteralInline Monospace node_r literal_r v, built_end = stop,
                built_problems = []\<rparr>, budget))))
      else (case span_style marker of
          Some style \<Rightarrow>
            if inline_max_depth config \<le> depth
            then and_then (sub_str value open stop) (\<lambda>v.
              Inr (\<lparr>built_inline = TextInline \<lparr>inline_text_range = node_r, inline_text_value = v\<rparr>,
                    built_end = stop,
                    built_problems = [\<lparr>inline_problem_kind = NestingLimitExceeded,
                                       inline_problem_range = node_r\<rparr>]\<rparr>, budget))
            else and_then (sub_str value from close) (\<lambda>content.
                 and_then (parse content content_r (depth + 1) budget) (\<lambda>(inner, budget).
              Inr (\<lparr>built_inline = StyledInline style node_r content_r (output_inlines inner),
                    built_end = stop, built_problems = output_problems inner\<rparr>, budget)))
        | None \<Rightarrow>
            if marker = CHR ''{''
            then and_then (sub_str value from close) (\<lambda>name.
              Inr (\<lparr>built_inline = AttributeReferenceInline node_r content_r name None None,
                    built_end = stop, built_problems = []\<rparr>, budget))
            else Inl Panic))))"

definition lower_inline_token ::
    "segment_parser \<Rightarrow> InlineParseConfig \<Rightarrow> str \<Rightarrow> TextRange \<Rightarrow> nat \<Rightarrow> InlineToken \<Rightarrow> ParseBudget
     \<Rightarrow> (BuiltInline \<times> ParseBudget) parsed" where
  "lower_inline_token parse config value outer depth token budget =
     (case token of
        MacroTok t \<Rightarrow> build_macro parse config value outer depth t budget
      | MarkerTok t \<Rightarrow> lower_marker parse config value outer depth t budget)"

section \<open>The loop over the candidates\<close>

record SegmentState =
  segment_inlines :: "Inline list"
  segment_problems :: "InlineProblem list"
  segment_cursor :: nat
  plain_start :: nat
  suppressed_closers :: "nat list"
  segment_budget :: ParseBudget

text \<open>Plain text up to \<open>from\<close>, then one inline; the cursor and the plain text go on at \<open>stop\<close>.\<close>

definition emit ::
    "str \<Rightarrow> TextRange \<Rightarrow> nat \<Rightarrow> Inline \<Rightarrow> nat \<Rightarrow> SegmentState \<Rightarrow> SegmentState parsed" where
  "emit value outer from inline stop st =
     and_then (push_text (segment_inlines st) value outer (plain_start st) from (segment_budget st))
       (\<lambda>(inlines, budget).
     and_then (push_inline inlines inline budget) (\<lambda>(inlines, budget).
       Inr (st\<lparr>segment_inlines := inlines, segment_budget := budget, segment_cursor := stop,
               plain_start := stop\<rparr>)))"

text \<open>An inline of literal text that hides the escape in front of it.\<close>

definition emit_literal ::
    "str \<Rightarrow> TextRange \<Rightarrow> nat \<Rightarrow> nat \<Rightarrow> nat \<Rightarrow> SegmentState \<Rightarrow> SegmentState parsed" where
  "emit_literal value outer from text_from stop st =
     and_then (push_text (segment_inlines st) value outer (plain_start st) from (segment_budget st))
       (\<lambda>(inlines, budget).
     and_then (subrange outer from stop) (\<lambda>r.
     and_then (sub_str value text_from stop) (\<lambda>v.
     and_then (push_inline inlines (TextInline \<lparr>inline_text_range = r, inline_text_value = v\<rparr>) budget)
       (\<lambda>(inlines, budget).
       Inr (st\<lparr>segment_inlines := inlines, segment_budget := budget, segment_cursor := stop,
               plain_start := stop\<rparr>)))))"

definition add_problem ::
    "InlineProblemKind \<Rightarrow> TextRange \<Rightarrow> SegmentState \<Rightarrow> SegmentState" where
  "add_problem kind r st =
     st\<lparr>segment_problems := segment_problems st
          @ [\<lparr>inline_problem_kind = kind, inline_problem_range = r\<rparr>]\<rparr>"

definition emit_built ::
    "str \<Rightarrow> TextRange \<Rightarrow> nat \<Rightarrow> BuiltInline \<Rightarrow> SegmentState \<Rightarrow> SegmentState parsed" where
  "emit_built value outer open built st =
     and_then (emit value outer open (built_inline built) (built_end built) st) (\<lambda>st.
       Inr (st\<lparr>segment_problems := segment_problems st @ built_problems built\<rparr>))"

text \<open>A macro candidate. The flag says that the loop ends.\<close>

definition macro_step ::
    "segment_parser \<Rightarrow> InlineParseConfig \<Rightarrow> str \<Rightarrow> TextRange \<Rightarrow> nat \<Rightarrow> nat \<Rightarrow> InlineRecognition
     \<Rightarrow> SegmentState \<Rightarrow> (bool \<times> SegmentState) parsed" where
  "macro_step parse config value outer depth open recognition st =
     and_then (case recognition of
         MatchedInline (MacroTok token) \<Rightarrow>
           if is_escaped value open
           then emit_literal value outer (open - 1) open (macro_end token) st
           else
             and_then (lower_inline_token parse config value outer depth (MacroTok token) (segment_budget st))
               (\<lambda>(built, budget). emit_built value outer open built (st\<lparr>segment_budget := budget\<rparr>))
       | RecoveredInline _ next_offset kind \<Rightarrow>
           if is_escaped value open
           then emit_literal value outer (open - 1) open (length value) st
           else
             and_then (subrange outer open (length value)) (\<lambda>r.
               Inr (add_problem kind r st\<lparr>segment_cursor := next_offset\<rparr>))
       | RejectedInline _ next_offset \<Rightarrow> Inr (st\<lparr>segment_cursor := next_offset\<rparr>)
       | MatchedInline (MarkerTok _) \<Rightarrow> Inl Panic) (\<lambda>st.
     if segment_cursor st = length value then Inr (True, st)
     else if open < segment_cursor st then Inr (False, st)
     else Inr (False, st\<lparr>segment_cursor := next_char_boundary value open\<rparr>))"

definition macro_boundary_step ::
    "str \<Rightarrow> TextRange \<Rightarrow> nat \<Rightarrow> InlineRecognition \<Rightarrow> SegmentState \<Rightarrow> SegmentState parsed" where
  "macro_boundary_step value outer open recognition st =
     (case (case recognition of
          MatchedInline (MacroTok token) \<Rightarrow>
            map_option (\<lambda>(name_end, name). (token, name_end, name)) (macro_boundary_subject value token)
        | _ \<Rightarrow> None) of
        Some (token, name_end, name) \<Rightarrow>
          and_then (subrange outer open name_end) (\<lambda>r.
            Inr (add_problem (MacroBoundaryProblem name) r st\<lparr>segment_cursor := macro_end token\<rparr>))
      | None \<Rightarrow> Inr (st\<lparr>segment_cursor := next_char_boundary value open\<rparr>))"

definition marker_escape_width :: "str \<Rightarrow> nat \<Rightarrow> MarkerForm \<Rightarrow> nat" where
  "marker_escape_width value open form =
     (if form = Unconstrained \<and> ends_with (take open value) [backslash, backslash] then 2
      else if is_escaped value open then 1 else 0)"

text \<open>\<open>Vec::swap_remove\<close>: the last element takes the place of the removed one.\<close>

definition swap_remove :: "nat \<Rightarrow> 'a list \<Rightarrow> 'a list" where
  "swap_remove i xs = butlast (xs[i := last xs])"

definition marker_step ::
    "segment_parser \<Rightarrow> InlineParseConfig \<Rightarrow> str \<Rightarrow> TextRange \<Rightarrow> nat \<Rightarrow> nat \<Rightarrow> MarkerForm
     \<Rightarrow> InlineRecognition \<Rightarrow> SegmentState \<Rightarrow> SegmentState parsed" where
  "marker_step parse config value outer depth open form recognition st =
     (let escape_width = marker_escape_width value open form;
          suppressed = find_if (\<lambda>c. c = open) (suppressed_closers st)
      in
      if 0 < escape_width \<or> suppressed \<noteq> None then
        emit_literal value outer (open - escape_width) open (open + form_width form)
          (st\<lparr>suppressed_closers := (case suppressed of
                Some i \<Rightarrow> swap_remove i (suppressed_closers st)
              | None \<Rightarrow> (case recognition of
                    MatchedInline (MarkerTok token) \<Rightarrow> suppressed_closers st @ [token_close token]
                  | _ \<Rightarrow> suppressed_closers st))\<rparr>)
      else (case recognition of
          MatchedInline (MarkerTok token) \<Rightarrow>
            and_then (lower_inline_token parse config value outer depth (MarkerTok token) (segment_budget st))
              (\<lambda>(built, budget).
                emit_built value outer open (built\<lparr>built_end := token_end token\<rparr>)
                  (st\<lparr>segment_budget := budget\<rparr>))
        | RecoveredInline _ next_offset kind \<Rightarrow>
            and_then (subrange outer open next_offset) (\<lambda>r.
              Inr (add_problem kind r st\<lparr>segment_cursor := next_offset\<rparr>))
        | RejectedInline _ next_offset \<Rightarrow> Inr (st\<lparr>segment_cursor := next_offset\<rparr>)
        | MatchedInline (MacroTok _) \<Rightarrow> Inl Panic))"

text \<open>The text before the quote is pushed before its content is parsed.\<close>

definition quote_step ::
    "segment_parser \<Rightarrow> str \<Rightarrow> TextRange \<Rightarrow> nat \<Rightarrow> nat \<Rightarrow> char \<Rightarrow> nat \<Rightarrow> nat \<Rightarrow> nat \<Rightarrow> SegmentState
     \<Rightarrow> SegmentState parsed" where
  "quote_step parse value outer depth open quote content_from content_to stop st =
     and_then (push_text (segment_inlines st) value outer (plain_start st) open (segment_budget st))
       (\<lambda>(inlines, budget).
     and_then (subrange outer content_from content_to) (\<lambda>content_r.
     and_then (sub_str value content_from content_to) (\<lambda>content.
     and_then (parse content content_r (depth + 1) budget) (\<lambda>(inner, budget).
     and_then (subrange outer open stop) (\<lambda>r.
     and_then (push_inline inlines
         (StyledInline (if quote = double_quote then CurvedDoubleQuote else CurvedSingleQuote) r content_r
           (output_inlines inner)) budget) (\<lambda>(inlines, budget).
       Inr (st\<lparr>segment_inlines := inlines, segment_problems := segment_problems st @ output_problems inner,
               segment_budget := budget, segment_cursor := stop, plain_start := stop\<rparr>)))))))"

definition passthrough_kind :: "nat \<Rightarrow> 'e failure + PassthroughKind" where
  "passthrough_kind width =
     (if width = 1 then Inr SinglePlus else if width = 2 then Inr DoublePlus
      else if width = 3 then Inr TriplePlus else Inl Panic)"

definition candidate_step ::
    "segment_parser \<Rightarrow> InlineParseConfig \<Rightarrow> str \<Rightarrow> TextRange \<Rightarrow> nat \<Rightarrow> InlineCandidate \<Rightarrow> SegmentState
     \<Rightarrow> (bool \<times> SegmentState) parsed" where
  "candidate_step parse config value outer depth candidate st =
     and_then (recognize_candidate value candidate) (\<lambda>recognition.
     let continue = (\<lambda>r. and_then r (\<lambda>st. Inr (False, st))) in
     case candidate of
       EscapedAnchor slash \<Rightarrow>
         continue (
           and_then (push_text (segment_inlines st) value outer (plain_start st) slash (segment_budget st))
             (\<lambda>(inlines, budget).
           and_then (subrange outer slash (slash + 2)) (\<lambda>r.
           and_then (push_inline inlines (TextInline \<lparr>inline_text_range = r, inline_text_value = ''[''\<rparr>) budget)
             (\<lambda>(inlines, budget).
             Inr (st\<lparr>segment_inlines := inlines, segment_budget := budget,
                     segment_cursor := slash + 2, plain_start := slash + 2\<rparr>)))))
     | MacroCandidate open \<Rightarrow>
         and_then (expect recognition) (\<lambda>recognition.
           macro_step parse config value outer depth open recognition st)
     | MacroBoundaryCandidate open \<Rightarrow>
         and_then (expect recognition) (\<lambda>recognition.
           continue (macro_boundary_step value outer open recognition st))
     | MarkerCandidate open marker form _ \<Rightarrow>
         and_then (expect recognition) (\<lambda>recognition.
           continue (marker_step parse config value outer depth open form recognition st))
     | MonospaceBoundaryCandidate open stop \<Rightarrow>
         and_then (subrange outer open stop) (\<lambda>r.
           Inr (False, add_problem MonospaceBoundaryProblem r st
                         \<lparr>segment_cursor := next_char_boundary value open\<rparr>))
     | TypographicQuote open quote content_from content_to stop \<Rightarrow>
         continue (quote_step parse value outer depth open quote content_from content_to stop st)
     | PassthroughCandidate open width content_from content_to stop \<Rightarrow>
         continue (
           and_then (push_text (segment_inlines st) value outer (plain_start st) open (segment_budget st))
             (\<lambda>(inlines, budget).
           and_then (passthrough_kind width) (\<lambda>kind.
           and_then (build_passthrough value outer kind open content_from content_to stop) (\<lambda>inline.
           and_then (push_inline inlines inline budget) (\<lambda>(inlines, budget).
             Inr (st\<lparr>segment_inlines := inlines, segment_budget := budget, segment_cursor := stop,
                     plain_start := stop\<rparr>)))))))"

lemma next_candidate_shorter:
  "next_candidate cursor candidates = Some (c, rest) \<Longrightarrow> length rest < length candidates"
  unfolding next_candidate_def
  by (auto split: list.splits) (metis length_Cons length_dropWhile_le Suc_le_eq)

function segment_loop ::
    "segment_parser \<Rightarrow> InlineParseConfig \<Rightarrow> str \<Rightarrow> TextRange \<Rightarrow> nat \<Rightarrow> InlineCandidate list
     \<Rightarrow> SegmentState \<Rightarrow> SegmentState parsed" where
  "segment_loop parse config value outer depth candidates st =
     (case next_candidate (segment_cursor st) candidates of
        None \<Rightarrow> Inr st
      | Some (candidate, rest) \<Rightarrow>
          (case candidate_step parse config value outer depth candidate st of
             Inl e \<Rightarrow> Inl e
           | Inr (stop, st) \<Rightarrow>
               if stop then Inr st else segment_loop parse config value outer depth rest st))"
  by pat_completeness auto
termination
  by (relation "measure (\<lambda>(parse, config, value, outer, depth, candidates, st). length candidates)")
    (auto dest!: next_candidate_shorter)

declare segment_loop.simps [simp del]

definition segment_with ::
    "segment_parser \<Rightarrow> (str \<Rightarrow> bool) \<Rightarrow> InlineParseConfig \<Rightarrow> str \<Rightarrow> TextRange \<Rightarrow> nat \<Rightarrow> ParseBudget
     \<Rightarrow> (InlineParseOutput \<times> ParseBudget) parsed" where
  "segment_with parse alnum config value outer depth budget =
     and_then (candidate_index alnum value) (\<lambda>candidates.
     and_then (segment_loop parse config value outer depth candidates
         \<lparr>segment_inlines = [], segment_problems = [], segment_cursor = 0, plain_start = 0,
          suppressed_closers = [], segment_budget = budget\<rparr>) (\<lambda>st.
     and_then (push_text (segment_inlines st) value outer (plain_start st) (length value) (segment_budget st))
       (\<lambda>(inlines, budget).
         Inr (\<lparr>output_inlines = inlines, output_problems = segment_problems st\<rparr>, budget))))"

fun parse_fuel ::
    "nat \<Rightarrow> (str \<Rightarrow> bool) \<Rightarrow> InlineParseConfig \<Rightarrow> segment_parser" where
  "parse_fuel 0 alnum config value outer depth budget = Inl Panic"
| "parse_fuel (Suc n) alnum config value outer depth budget =
     segment_with (parse_fuel n alnum config) alnum config value outer depth budget"

definition parse_segment :: "(str \<Rightarrow> bool) \<Rightarrow> InlineParseConfig \<Rightarrow> segment_parser" where
  "parse_segment alnum config value outer depth budget =
     parse_fuel (Suc (length value)) alnum config value outer depth budget"

definition parse_inlines ::
    "(str \<Rightarrow> bool) \<Rightarrow> str \<Rightarrow> TextRange \<Rightarrow> InlineParseConfig \<Rightarrow> ParseBudget
     \<Rightarrow> (InlineParseOutput \<times> ParseBudget) parsed" where
  "parse_inlines alnum value outer config budget = parse_segment alnum config value outer 0 budget"

definition is_plain_inline_text :: "(str \<Rightarrow> bool) \<Rightarrow> str \<Rightarrow> unit failure + bool" where
  "is_plain_inline_text alnum value =
     (if unat (max_line_bytes AnalysisLimits_default) < length value then Inr False
      else if u32_max < length value then Inr False
      else
        let outer = \<lparr>range_start = 0, range_end = length value\<rparr> in
        case ParseBudget_new (AnalysisLimits_default\<lparr>max_nodes := 2\<rparr>) of
          Inl _ \<Rightarrow> Inr False
        | Inr budget \<Rightarrow>
            (case parse_inlines alnum value outer InlineParseConfig_default budget of
               Inl Panic \<Rightarrow> Inl Panic
             | Inl (Err _) \<Rightarrow> Inr False
             | Inr (output, _) \<Rightarrow>
                 Inr (output_problems output = []
                   \<and> output_inlines output = [TextInline \<lparr>inline_text_range = outer, inline_text_value = value\<rparr>])))"

fun inline_at :: "Inline list \<Rightarrow> nat \<Rightarrow> Inline option" where
  "inline_at [] offset = None"
| "inline_at (i # is) offset =
     (if range_start (inline_range i) \<le> offset \<and> offset < range_end (inline_range i)
      then (case i of
          StyledInline _ _ _ children \<Rightarrow>
            (case inline_at children offset of None \<Rightarrow> Some i | Some x \<Rightarrow> Some x)
        | _ \<Rightarrow> Some i)
      else inline_at is offset)"

end
