(* ===== verification/Block_Model.thy ===== *)
theory Block_Model
  imports Inline_Parser Syntax_Tree
begin

text \<open>
  \<open>block_model.rs\<close> and \<open>table/model.rs\<close>: the output-independent model of blocks. A struct that
  holds blocks is a datatype over the type of those blocks, so that \<open>AstBlock\<close> can recurse
  through it; its other fields are grouped in a record. \<open>syntax_builder.rs\<close> at the end turns
  recognized facts into syntax nodes.
\<close>

section \<open>Metadata, headers and paragraphs\<close>

record BlockTitle =
  title_value :: str
  title_range :: TextRange
  title_inlines :: "Inline list"
  title_inline_problems :: "InlineProblem list"

text \<open>The grammar of a line never sets the title, which is the last field here.\<close>

record TitledMetadata = BlockMetadata +
  metadata_title :: "BlockTitle option"

definition untitled :: "BlockMetadata \<Rightarrow> TitledMetadata" where
  "untitled m = BlockMetadata.extend m (TitledMetadata.fields None)"

definition TitledMetadata_default :: TitledMetadata where
  "TitledMetadata_default = untitled BlockMetadata_default"

datatype DocumentType = Article | Book | Manpage | InlineDocument

record Author =
  author_range :: TextRange
  author_name_range :: TextRange
  author_email_range :: "TextRange option"
  author_name :: str
  author_email :: "str option"

record Revision =
  revision_range :: TextRange
  revision_number :: "MetadataValue option"
  revision_date :: "MetadataValue option"
  revision_remark :: "MetadataValue option"

record DocumentHeader =
  header_range :: "TextRange option"
  header_authors :: "Author list"
  header_revision :: "Revision option"
  header_doctype :: DocumentType
  header_end :: nat

definition DocumentHeader_default :: DocumentHeader where
  "DocumentHeader_default =
     \<lparr>header_range = None, header_authors = [], header_revision = None, header_doctype = Article,
      header_end = 0\<rparr>"

datatype AdmonitionKind = Note | Tip | Important | Warning | Caution

definition admonition_label :: "AdmonitionKind \<Rightarrow> str" where
  "admonition_label k = (case k of
      Note \<Rightarrow> ''NOTE'' | Tip \<Rightarrow> ''TIP'' | Important \<Rightarrow> ''IMPORTANT'' | Warning \<Rightarrow> ''WARNING''
    | Caution \<Rightarrow> ''CAUTION'')"

definition parse_admonition :: "str \<Rightarrow> AdmonitionKind option" where
  "parse_admonition v =
     (if v = ''NOTE'' then Some Note else if v = ''TIP'' then Some Tip
      else if v = ''IMPORTANT'' then Some Important else if v = ''WARNING'' then Some Warning
      else if v = ''CAUTION'' then Some Caution else None)"

record AdmonitionPresentation =
  admonition_kind :: AdmonitionKind
  admonition_label_range :: TextRange

record Paragraph =
  paragraph_metadata :: TitledMetadata
  paragraph_range :: TextRange
  paragraph_content_range :: TextRange
  paragraph_value :: str
  paragraph_inlines :: "Inline list"
  paragraph_admonition :: "AdmonitionPresentation option"
  paragraph_inline_problems :: "InlineProblem list"

datatype QuoteKind = QuoteText | Verse

record QuotePresentation =
  quote_kind :: QuoteKind
  quote_attribution :: "MetadataValue option"
  quote_citation :: "MetadataValue option"

record LiteralParagraph =
  literal_metadata :: TitledMetadata
  literal_range :: TextRange
  literal_content_range :: TextRange
  literal_value :: str

datatype BreakKind = Thematic | Page

record BreakBlock =
  break_metadata :: TitledMetadata
  break_range :: TextRange
  break_kind :: BreakKind

datatype UnsupportedKind = UnsupportedSyntax | UnprocessedDirectiveLine

record Unsupported =
  unsupported_metadata :: TitledMetadata
  unsupported_range :: TextRange
  unsupported_raw :: str
  reason :: str
  unsupported_kind :: UnsupportedKind

record SourceInfo =
  source_attribute_range :: TextRange
  source_language_range :: "TextRange option"
  source_language :: "str option"
  line_numbers :: bool
  start_line :: "nat option"

datatype VerbatimKind = ListingText | LiteralText | SourceText SourceInfo

record CalloutMarker =
  callout_marker_id :: nat
  callout_marker_range :: TextRange

record VerbatimBlock =
  verbatim_metadata :: TitledMetadata
  verbatim_kind :: VerbatimKind
  verbatim_range :: TextRange
  verbatim_delimiter_range :: TextRange
  verbatim_content_range :: TextRange
  verbatim_value :: str
  verbatim_callouts :: "CalloutMarker list"
  verbatim_problems :: "BlockProblem list"

datatype HeadingKind = DocumentTitleHeading | Part | Section nat | Discrete nat

datatype HeadingProblem = MissingSpace | EmptyHeading | LevelTooDeep | MisplacedDocumentTitle

record Heading =
  heading_metadata :: TitledMetadata
  heading_range :: TextRange
  heading_marker_range :: TextRange
  heading_separator_range :: TextRange
  heading_text_range :: TextRange
  heading_kind :: HeadingKind
  well_formed :: bool
  hierarchy_valid :: bool
  heading_text :: str
  heading_inlines :: "Inline list"
  heading_inline_problems :: "InlineProblem list"
  heading_problems :: "HeadingProblem list"

datatype MathProblemKind = UnclosedMath | EmptyMath | MathSizeLimitExceeded

record MathProblem =
  math_problem_kind :: MathProblemKind
  math_problem_range :: TextRange

record MathBlock =
  math_metadata :: TitledMetadata
  math_range :: TextRange
  math_attribute_range :: TextRange
  math_delimiter_range :: TextRange
  math_content_range :: TextRange
  math_language :: MathLanguage
  math_value :: str
  math_problems :: "MathProblem list"

section \<open>Lists\<close>

datatype OrderedListStyle =
    Arabic | Decimal | LowerAlpha | UpperAlpha | LowerRoman | UpperRoman | LowerGreek

record OrderedListPresentation =
  list_start :: "nat option"
  list_reversed :: bool
  list_style :: OrderedListStyle

definition OrderedListPresentation_default :: OrderedListPresentation where
  "OrderedListPresentation_default = \<lparr>list_start = None, list_reversed = False, list_style = Arabic\<rparr>"

datatype ListPresentationProblemKind =
    InvalidStart | InvalidExplicitNumber | InconsistentExplicitNumber | UnknownOrderedStyle

record ListPresentationProblem =
  presentation_problem_kind :: ListPresentationProblemKind
  presentation_problem_range :: TextRange

datatype ChecklistState = Unchecked | Checked

record DescriptionTerm =
  term_range :: TextRange
  term_text :: str
  term_inlines :: "Inline list"
  term_inline_problems :: "InlineProblem list"

datatype ListProblemKind =
    EmptyItem | InconsistentMarker | InvalidNesting | DepthLimitExceeded | NonCanonicalSeparator

record ListProblem =
  list_problem_kind :: ListProblemKind
  list_problem_range :: TextRange

record ListItemFacts =
  item_range :: TextRange
  item_marker_range :: TextRange
  item_explicit_number :: "nat option"
  invalid_explicit_number :: bool
  item_separator_range :: TextRange
  item_text_range :: TextRange
  item_text :: str
  item_inlines :: "Inline list"
  item_terms :: "DescriptionTerm list"
  item_checklist :: "ChecklistState option"
  item_callout_id :: "nat option"
  item_inline_problems :: "InlineProblem list"
  item_continuation_ranges :: "TextRange list"
  item_problems :: "ListProblem list"

record ListBlockFacts =
  list_metadata :: TitledMetadata
  list_kind :: ListKind
  list_presentation :: OrderedListPresentation
  list_presentation_problems :: "ListPresentationProblem list"
  list_range :: TextRange

datatype 'b ListItem =
    MkListItem (item_facts: ListItemFacts) (item_children: "'b ListBlock list")
      (item_continuations: "'b list")
and 'b ListBlock =
    MkListBlock (list_facts: ListBlockFacts) (list_items: "'b ListItem list")

section \<open>Tables\<close>

datatype TableFormat = Psv | Csv | Dsv | Tsv

definition default_separator :: "TableFormat \<Rightarrow> str" where
  "default_separator f = (case f of Psv \<Rightarrow> ''|'' | Csv \<Rightarrow> '','' | Dsv \<Rightarrow> '':'' | Tsv \<Rightarrow> [tab])"

datatype TableSection = HeaderRow | BodyRow | FooterRow

datatype HorizontalAlignment = LeftAligned | CenterAligned | RightAligned

datatype VerticalAlignment = TopAligned | MiddleAligned | BottomAligned

datatype TableCellStyle =
    DefaultStyle | AsciiDocStyle | EmphasisStyle | HeaderStyle | LiteralStyle | MonospaceStyle
  | StrongStyle | VerseStyle

datatype TableFrame = FrameAll | FrameEnds | FrameNone | FrameSides

datatype TableGrid = GridAll | GridColumns | GridNone | GridRows

datatype TableStripes = StripesAll | StripesEven | StripesHover | StripesNone | StripesOdd

record TablePresentation =
  table_frame :: TableFrame
  table_grid :: TableGrid
  table_stripes :: TableStripes
  table_width :: "nat option"
  table_autowidth :: bool

definition TablePresentation_default :: TablePresentation where
  "TablePresentation_default =
     \<lparr>table_frame = FrameAll, table_grid = GridAll, table_stripes = StripesNone, table_width = None,
      table_autowidth = False\<rparr>"

datatype TableProblemKind = InvalidFormat | InvalidSeparator | UnclosedQuotedCell | InvalidPresentation

record TableProblem =
  table_problem_kind :: TableProblemKind
  table_problem_range :: TextRange

record TableColumn =
  column_index :: nat
  column_width :: "nat option"
  column_horizontal_alignment :: HorizontalAlignment
  column_vertical_alignment :: VerticalAlignment
  column_style :: TableCellStyle

record ConfiguredCell =
  cell_range :: TextRange
  cell_marker_range :: TextRange
  cell_content_range :: TextRange
  cell_raw :: str
  column_span :: nat
  row_span :: nat
  cell_horizontal_alignment :: "HorizontalAlignment option"
  cell_vertical_alignment :: "VerticalAlignment option"
  cell_style :: TableCellStyle
  style_is_explicit :: bool

record ScannedCell = ConfiguredCell +
  duplication :: nat

record LaidOutCell =
  laid_out_cell :: ConfiguredCell
  cell_column_index :: nat

record TableFacts =
  table_format :: TableFormat
  table_separator :: str
  table_content_range :: TextRange
  table_columns :: "TableColumn list"
  table_presentation :: TablePresentation
  table_problems :: "TableProblem list"

datatype 'b TableCellContent = InlineCell "Inline list" | VerbatimCell str | AsciiDocCell "'b list"

datatype 'b TableCell =
  MkTableCell (cell_facts: LaidOutCell) (cell_content: "'b TableCellContent")

datatype 'b TableRow =
  MkTableRow (row_range: TextRange) (row_section: TableSection) (row_cells: "'b TableCell list")

datatype 'b ParsedTable = MkTable (table_facts: TableFacts) (table_rows: "'b TableRow list")

section \<open>Delimited blocks and the sum of all blocks\<close>

record CollapsiblePresentation =
  collapsible_expanded :: bool
  option_range :: TextRange

datatype DelimitedPresentation =
    AdmonitionBlock AdmonitionPresentation | QuoteBlock QuotePresentation
  | CollapsibleBlock CollapsiblePresentation

record DelimitedFacts =
  delimited_metadata :: TitledMetadata
  delimited_kind :: DelimitedBlockKind
  delimited_range :: TextRange
  opening_delimiter_range :: TextRange
  delimited_closing_range :: "TextRange option"
  delimited_content_range :: TextRange
  delimiter_text :: str
  delimited_presentation :: "DelimitedPresentation option"
  delimited_problems :: "BlockProblem list"

datatype 'b DelimitedContent =
    CompoundBlocks "'b list" | VerbatimBody str | PassthroughBody str | TableBody "'b ParsedTable"

datatype 'b DelimitedBlock =
  MkDelimited (delimited_facts: DelimitedFacts) (delimited_content: "'b DelimitedContent")

datatype AstBlock =
    HeadingBlock Heading
  | ParagraphBlock Paragraph
  | LiteralParagraphBlock LiteralParagraph
  | BreakAst BreakBlock
  | VerbatimAst VerbatimBlock
  | ListAst "AstBlock ListBlock"
  | MathAst MathBlock
  | DelimitedAst "AstBlock DelimitedBlock"
  | UnsupportedAst Unsupported

fun block_metadata :: "AstBlock \<Rightarrow> TitledMetadata" where
  "block_metadata (HeadingBlock b) = heading_metadata b"
| "block_metadata (ParagraphBlock b) = paragraph_metadata b"
| "block_metadata (LiteralParagraphBlock b) = literal_metadata b"
| "block_metadata (BreakAst b) = break_metadata b"
| "block_metadata (VerbatimAst b) = verbatim_metadata b"
| "block_metadata (ListAst b) = list_metadata (list_facts b)"
| "block_metadata (MathAst b) = math_metadata b"
| "block_metadata (DelimitedAst b) = delimited_metadata (delimited_facts b)"
| "block_metadata (UnsupportedAst b) = unsupported_metadata b"

text \<open>An assignment through \<open>metadata_mut\<close>.\<close>

fun set_block_metadata :: "TitledMetadata \<Rightarrow> AstBlock \<Rightarrow> AstBlock" where
  "set_block_metadata m (HeadingBlock b) = HeadingBlock (b\<lparr>heading_metadata := m\<rparr>)"
| "set_block_metadata m (ParagraphBlock b) = ParagraphBlock (b\<lparr>paragraph_metadata := m\<rparr>)"
| "set_block_metadata m (LiteralParagraphBlock b) = LiteralParagraphBlock (b\<lparr>literal_metadata := m\<rparr>)"
| "set_block_metadata m (BreakAst b) = BreakAst (b\<lparr>break_metadata := m\<rparr>)"
| "set_block_metadata m (VerbatimAst b) = VerbatimAst (b\<lparr>verbatim_metadata := m\<rparr>)"
| "set_block_metadata m (ListAst (MkListBlock f items)) = ListAst (MkListBlock (f\<lparr>list_metadata := m\<rparr>) items)"
| "set_block_metadata m (MathAst b) = MathAst (b\<lparr>math_metadata := m\<rparr>)"
| "set_block_metadata m (DelimitedAst (MkDelimited f c)) =
     DelimitedAst (MkDelimited (f\<lparr>delimited_metadata := m\<rparr>) c)"
| "set_block_metadata m (UnsupportedAst b) = UnsupportedAst (b\<lparr>unsupported_metadata := m\<rparr>)"

fun block_range :: "AstBlock \<Rightarrow> TextRange" where
  "block_range (HeadingBlock b) = heading_range b"
| "block_range (ParagraphBlock b) = paragraph_range b"
| "block_range (LiteralParagraphBlock b) = literal_range b"
| "block_range (BreakAst b) = break_range b"
| "block_range (VerbatimAst b) = verbatim_range b"
| "block_range (ListAst b) = list_range (list_facts b)"
| "block_range (MathAst b) = math_range b"
| "block_range (DelimitedAst b) = delimited_range (delimited_facts b)"
| "block_range (UnsupportedAst b) = unsupported_range b"

end
