(* ===== verification/Syntax_Builder.thy ===== *)
theory Syntax_Builder
  imports Block_Model
begin

text \<open>
  \<open>syntax_builder.rs\<close>: syntax nodes from recognized facts, with the results shared by the
  parsers of blocks (\<open>parser_support.rs\<close>).
\<close>

section \<open>Results of the block parser\<close>

type_synonym 'a block_result = "ParseFailure failure + 'a"

text \<open>The conversions that \<open>?\<close> applies to positions and budgets, and \<open>expect\<close> on a position.\<close>

definition position :: "PositionError + 'a \<Rightarrow> 'a block_result" where
  "position = map_err (\<lambda>e. Err (ParsePosition e))"

definition budgeted :: "BudgetExceeded + 'a \<Rightarrow> 'a block_result" where
  "budgeted = map_err (\<lambda>e. Err (ParseBudgetExceeded e))"

definition budgeted_parse :: "BudgetExceeded failure + 'a \<Rightarrow> 'a block_result" where
  "budgeted_parse = map_err (\<lambda>e. case e of Panic \<Rightarrow> Panic | Err e \<Rightarrow> Err (ParseBudgetExceeded e))"

definition unfailing :: "unit failure + 'a \<Rightarrow> 'a block_result" where
  "unfailing = map_err (\<lambda>_. Panic)"

definition expect_position :: "PositionError + 'a \<Rightarrow> 'a block_result" where
  "expect_position = map_err (\<lambda>_. Panic)"

definition invariant_broken :: "'a block_result" where
  "invariant_broken = Inl (Err InternalInvariant)"

section \<open>Inline nodes\<close>

definition span_node :: "TextRange \<Rightarrow> TextRange \<Rightarrow> SyntaxNode list \<Rightarrow> SyntaxNode block_result" where
  "span_node r content inner =
     and_then (expect_position (TextRange_new (range_start r) (range_start content))) (\<lambda>opening.
     let children = leaf InlineDelimiter opening # inner in
     if range_end content < range_end r then
       and_then (expect_position (TextRange_new (range_end content) (range_end r))) (\<lambda>closing.
         Inr (SyntaxNode InlineSpan r (children @ [leaf InlineDelimiter closing])))
     else Inr (SyntaxNode InlineSpan r children))"

definition macro_node :: "TextRange \<Rightarrow> TextRange \<Rightarrow> SyntaxNode list \<Rightarrow> SyntaxNode" where
  "macro_node r target_r label = SyntaxNode MacroNode r (leaf TargetNode target_r # label)"

function (sequential) inline_syntax :: "Inline \<Rightarrow> SyntaxNode list block_result"
  and inlines_syntax :: "Inline list \<Rightarrow> SyntaxNode list block_result" where
  "inline_syntax (TextInline t) = Inr []"
| "inline_syntax (LiteralInline _ r content _) =
     and_then (span_node r content []) (\<lambda>n. Inr [n])"
| "inline_syntax (StyledInline _ r content inlines) =
     and_then (inlines_syntax inlines) (\<lambda>inner.
     and_then (span_node r content inner) (\<lambda>n. Inr [n]))"
| "inline_syntax (AttributeReferenceInline r name_r _ _ _) =
     Inr [SyntaxNode MacroNode r [leaf TargetNode name_r]]"
| "inline_syntax (LinkInline l) =
     (case link_label_range l of
        None \<Rightarrow> Inr [macro_node (link_range l) (link_target_range l) []]
      | Some label_r \<Rightarrow>
          and_then (inlines_syntax (link_label l)) (\<lambda>inner.
            Inr [macro_node (link_range l) (link_target_range l) [SyntaxNode LabelNode label_r inner]]))"
| "inline_syntax (ReferenceInline x) =
     (case reference_label_range x of
        None \<Rightarrow> Inr [macro_node (reference_range x) (reference_target_range x) []]
      | Some label_r \<Rightarrow>
          and_then (inlines_syntax (reference_label x)) (\<lambda>inner.
            Inr [macro_node (reference_range x) (reference_target_range x)
                  [SyntaxNode LabelNode label_r inner]]))"
| "inline_syntax (FormulaInline f) =
     Inr [macro_node (formula_range f) (formula_content_range f) []]"
| "inline_syntax (MacroInline m) =
     Inr [SyntaxNode MacroNode (macro_range m) [leaf TargetNode (macro_target_range m)]]"
| "inline_syntax (HardBreakInline r) = Inr [leaf HardBreak r]"
| "inline_syntax (PassthroughInline _ r content _) =
     and_then (span_node r content []) (\<lambda>n. Inr [n])"
| "inlines_syntax [] = Inr []"
| "inlines_syntax (i # is) =
     and_then (inline_syntax i) (\<lambda>ns. and_then (inlines_syntax is) (\<lambda>ms. Inr (ns @ ms)))"
  by pat_completeness auto
termination
proof (relation "measure (\<lambda>x. case x of Inl i \<Rightarrow> size i | Inr is \<Rightarrow> size_list size is)", goal_cases)
  case (3 l label_r)
  then show ?case by (cases l) simp
next
  case (4 x label_r)
  then show ?case by (cases x) simp
qed auto

section \<open>Block nodes\<close>

definition heading_node :: "Heading \<Rightarrow> SyntaxKind \<Rightarrow> SyntaxNode block_result" where
  "heading_node h k =
     and_then (inlines_syntax (heading_inlines h)) (\<lambda>inner.
       Inr (SyntaxNode k (heading_range h) (leaf HeadingMarker (heading_marker_range h) # inner)))"

definition paragraph_node :: "Paragraph \<Rightarrow> SyntaxNode block_result" where
  "paragraph_node p =
     and_then (inlines_syntax (paragraph_inlines p)) (\<lambda>inner.
       Inr (SyntaxNode SyntaxKind.Paragraph (paragraph_range p) inner))"

definition delimiter_node :: "TextRange \<Rightarrow> bool \<Rightarrow> SyntaxNode" where
  "delimiter_node r is_error =
     (let delimiter = leaf BlockDelimiter r in
      if is_error then SyntaxNode ErrorNode r [delimiter] else delimiter)"

definition delimited_node :: "'b DelimitedBlock \<Rightarrow> SyntaxNode list \<Rightarrow> SyntaxNode" where
  "delimited_node b inner =
     (let f = delimited_facts b;
          opening = leaf BlockDelimiter (opening_delimiter_range f);
          first = (if delimited_closing_range f = None
                   then SyntaxNode ErrorNode (opening_delimiter_range f) [opening] else opening);
          closing = (case delimited_closing_range f of None \<Rightarrow> [] | Some r \<Rightarrow> [leaf BlockDelimiter r]);
          kind = (if delimited_kind f = DelimitedBlockKind.LiteralBlock
                  then SyntaxKind.LiteralBlock else SyntaxKind.DelimitedBlock)
      in SyntaxNode kind (delimited_range f) (first # inner @ closing))"

definition math_node :: "MathBlock \<Rightarrow> SyntaxNode" where
  "math_node m =
     SyntaxNode SyntaxKind.MathBlock (math_range m)
       [leaf BlockAttribute (math_attribute_range m),
        delimiter_node (math_delimiter_range m)
          (list_ex (\<lambda>p. math_problem_kind p = UnclosedMath) (math_problems m))]"

fun terms_syntax :: "DescriptionTerm list \<Rightarrow> SyntaxNode list block_result" where
  "terms_syntax [] = Inr []"
| "terms_syntax (t # ts) =
     and_then (inlines_syntax (term_inlines t)) (\<lambda>ns.
     and_then (terms_syntax ts) (\<lambda>ms. Inr (ns @ ms)))"

fun item_node :: "'b ListItem \<Rightarrow> SyntaxNode block_result"
  and items_nodes :: "'b ListItem list \<Rightarrow> SyntaxNode list block_result"
  and lists_nodes :: "'b ListBlock list \<Rightarrow> SyntaxNode list block_result" where
  "item_node (MkListItem f children continuations) =
     and_then (terms_syntax (item_terms f)) (\<lambda>terms.
     and_then (inlines_syntax (item_inlines f)) (\<lambda>inner.
     and_then (lists_nodes children) (\<lambda>nested.
       Inr (SyntaxNode ListItem (item_range f)
             (leaf ListMarker (item_marker_range f) # terms @ inner @ nested)))))"
| "items_nodes [] = Inr []"
| "items_nodes (i # is) =
     and_then (item_node i) (\<lambda>n. and_then (items_nodes is) (\<lambda>ns. Inr (n # ns)))"
| "lists_nodes [] = Inr []"
| "lists_nodes (MkListBlock f items # ls) =
     and_then (items_nodes items) (\<lambda>ns. and_then (lists_nodes ls) (\<lambda>ms. Inr (ns @ ms)))"

definition list_node :: "TextRange \<Rightarrow> 'b ListBlock list \<Rightarrow> SyntaxNode block_result" where
  "list_node r ls = and_then (lists_nodes ls) (\<lambda>ns. Inr (SyntaxNode ListNode r ns))"

end
