(* ===== verification/Block_Sequence.thy ===== *)
theory Block_Sequence
  imports Syntax_Builder
begin

text \<open>
  The state of the block parser: the cursor, the context and the facts of a block sequence
  (\<open>block_sequence.rs\<close>), the header of the document (\<open>document_header.rs\<close>), and from \<open>parser.rs\<close>
  the pending metadata and the recognizers that need no other block: titles, headings, literal
  paragraphs, paragraphs with their hard breaks, and callout markers.
\<close>

section \<open>Configuration, context and state\<close>

record ParseConfig =
  config_max_inline_depth :: nat
  config_max_list_depth :: nat
  config_max_block_depth :: nat
  config_max_formula_bytes :: nat
  config_limits :: AnalysisLimits

text \<open>
  What every parser of blocks is given (\<open>DelimitedParseContext\<close>), with the host that answers
  \<open>is_cancelled\<close> and the Unicode class \<open>is_alphanumeric\<close> of the standard library.
\<close>

record ParseContext =
  ctx_document :: SourceDocument
  ctx_source :: str
  ctx_config :: ParseConfig
  ctx_host :: cancel_host
  ctx_alnum :: "str \<Rightarrow> bool"

text \<open>\<open>ParseState\<close>, with the number of times the host has been asked.\<close>

record ParseState =
  ps_budget :: ParseBudget
  ps_anchors :: "ExplicitAnchor list"
  ps_queries :: nat

definition poll :: "ParseContext \<Rightarrow> ParseState \<Rightarrow> ParseState block_result" where
  "poll ctx st =
     (if ctx_host ctx (ps_queries st) then Inl (Err ParseCancelled)
      else Inr (st\<lparr>ps_queries := Suc (ps_queries st)\<rparr>))"

definition spend :: "(ParseBudget \<Rightarrow> BudgetExceeded + ParseBudget) \<Rightarrow> ParseState \<Rightarrow> ParseState block_result" where
  "spend tick st = and_then (budgeted (tick (ps_budget st))) (\<lambda>b. Inr (st\<lparr>ps_budget := b\<rparr>))"

definition add_anchor :: "ExplicitAnchor \<Rightarrow> ParseState \<Rightarrow> ParseState" where
  "add_anchor a st = st\<lparr>ps_anchors := ps_anchors st @ [a]\<rparr>"

definition inline_config :: "ParseConfig \<Rightarrow> InlineParseConfig" where
  "inline_config c =
     \<lparr>inline_max_depth = config_max_inline_depth c,
      inline_max_formula_bytes = config_max_formula_bytes c\<rparr>"

definition parse_text ::
    "ParseContext \<Rightarrow> str \<Rightarrow> TextRange \<Rightarrow> ParseState \<Rightarrow> (InlineParseOutput \<times> ParseState) block_result" where
  "parse_text ctx v r st =
     and_then (budgeted_parse (parse_inlines (ctx_alnum ctx) v r (inline_config (ctx_config ctx)) (ps_budget st)))
       (\<lambda>(out, b). Inr (out, st\<lparr>ps_budget := b\<rparr>))"

text \<open>\<open>lines()[i]\<close> and \<open>lines().get(i)\<close>, and the text of a line.\<close>

definition get_line :: "SourceDocument \<Rightarrow> nat \<Rightarrow> SourceLine option" where
  "get_line d i = (if i < length (sd_lines d) then Some (sd_lines d ! i) else None)"

definition line_content :: "SourceDocument \<Rightarrow> SourceLine \<Rightarrow> str option" where
  "line_content d l = sd_text d (content_range l)"

definition content_at :: "SourceDocument \<Rightarrow> nat \<Rightarrow> str option" where
  "content_at d i = Option.bind (get_line d i) (line_content d)"

definition read_line :: "SourceDocument \<Rightarrow> nat \<Rightarrow> (SourceLine \<times> str) block_result" where
  "read_line d i =
     and_then (expect (get_line d i)) (\<lambda>l.
     and_then (expect (line_content d l)) (\<lambda>content. Inr (l, content)))"

definition blank_text :: "str \<Rightarrow> bool" where
  "blank_text content \<longleftrightarrow> trim_matches space_or_tab content = []"

definition block_text_range :: "nat \<Rightarrow> nat \<Rightarrow> TextRange block_result" where
  "block_text_range start stop = position (text_range start stop)"

definition block_range_new :: "nat \<Rightarrow> nat \<Rightarrow> TextRange block_result" where
  "block_range_new start stop = position (TextRange_new start stop)"

section \<open>Cursor and context\<close>

record BlockInput =
  block_input_document :: SourceDocument
  block_input_start :: nat
  block_input_end :: nat

definition BlockInput_new :: "SourceDocument \<Rightarrow> nat \<Rightarrow> nat \<Rightarrow> BlockInput block_result" where
  "BlockInput_new d start stop =
     (if stop < start \<or> length (sd_lines d) < stop then invariant_broken
      else Inr \<lparr>block_input_document = d, block_input_start = start, block_input_end = stop\<rparr>)"

record ParseDepth =
  depth_block :: nat
  depth_table :: nat

datatype BlockLocation = DocumentRoot | CompoundBody | AsciiDocCellBody

record BlockContext =
  context_depth :: ParseDepth
  context_location :: BlockLocation

definition root_context :: BlockContext where
  "root_context = \<lparr>context_depth = \<lparr>depth_block = 1, depth_table = 1\<rparr>, context_location = DocumentRoot\<rparr>"

definition allows_document_header :: "BlockContext \<Rightarrow> bool" where
  "allows_document_header c \<longleftrightarrow> context_location c = DocumentRoot"

definition document_title_position :: "BlockContext \<Rightarrow> bool \<Rightarrow> bool" where
  "document_title_position c saw_content \<longleftrightarrow> allows_document_header c \<and> \<not> saw_content"

record BlockCursor =
  cursor_line :: nat
  cursor_line_count :: nat

datatype BlockConsumption = OneLine | Through nat

datatype 'v BlockRecognition =
    NoMatch | MatchedBlock BlockConsumption 'v | RecoveredBlock BlockConsumption 'v

definition cursor_for_range :: "BlockInput \<Rightarrow> BlockCursor" where
  "cursor_for_range i = \<lparr>cursor_line = block_input_start i, cursor_line_count = block_input_end i\<rparr>"

definition cursor_current :: "BlockCursor \<Rightarrow> nat option" where
  "cursor_current c = (if cursor_line c < cursor_line_count c then Some (cursor_line c) else None)"

definition cursor_validate :: "BlockConsumption \<Rightarrow> BlockCursor \<Rightarrow> nat block_result" where
  "cursor_validate consumption c =
     (let next = (case consumption of OneLine \<Rightarrow> min usize_max (cursor_line c + 1) | Through n \<Rightarrow> n) in
      if next \<le> cursor_line c \<or> cursor_line_count c < next then invariant_broken else Inr next)"

definition cursor_commit :: "BlockConsumption \<Rightarrow> BlockCursor \<Rightarrow> BlockCursor block_result" where
  "cursor_commit consumption c =
     and_then (cursor_validate consumption c) (\<lambda>next. Inr (c\<lparr>cursor_line := next\<rparr>))"

definition into_commit :: "'v BlockRecognition \<Rightarrow> (BlockConsumption \<times> 'v) option" where
  "into_commit r = (case r of
      NoMatch \<Rightarrow> None | MatchedBlock c v \<Rightarrow> Some (c, v) | RecoveredBlock c v \<Rightarrow> Some (c, v))"

section \<open>The header of the document\<close>

record DocumentHeaderState =
  attributes_open :: bool
  expect_author :: bool
  expect_revision :: bool
  header_facts :: DocumentHeader
  header_attributes :: "DocumentAttributeOccurrence list"
  header_attribute_problems :: "AttributeProblem list"

definition DocumentHeaderState_default :: DocumentHeaderState where
  "DocumentHeaderState_default =
     \<lparr>attributes_open = True, expect_author = False, expect_revision = False,
      header_facts = DocumentHeader_default, header_attributes = [], header_attribute_problems = []\<rparr>"

definition extend_header_range :: "TextRange \<Rightarrow> DocumentHeaderState \<Rightarrow> DocumentHeaderState block_result" where
  "extend_header_range l h =
     and_then
       (case header_range (header_facts h) of
          Some r \<Rightarrow> expect_position (TextRange_new (range_start r) (range_end l))
        | None \<Rightarrow> Inr l) (\<lambda>r.
       Inr (h\<lparr>header_facts := (header_facts h)\<lparr>header_range := Some r, header_end := range_end l\<rparr>\<rparr>))"

definition parse_author :: "str \<Rightarrow> SourceLine \<Rightarrow> Author option block_result" where
  "parse_author content l =
     (let trimmed = trim_matches space_or_tab content in
      if trimmed = [] then Inr None
      else
        let leading = length content - length (trim_start_matches space_or_tab content);
            base = range_start (content_range l) + leading;
            (name, email, email_offset) =
              (case Option.bind (strip_suffix trimmed ''>'') (rsplit_once_char (CHR ''<'')) of
                 Some (name, email) \<Rightarrow>
                   if trim email \<noteq> []
                   then (trim_end name, Some (trim email), Some (length trimmed - length email - 1))
                   else (trimmed, None, None)
               | None \<Rightarrow> (trimmed, None, None))
        in if name = [] then Inr None
           else
             and_then (block_text_range base (base + length name)) (\<lambda>name_r.
             and_then (case email_offset of
                 None \<Rightarrow> Inr None
               | Some offset \<Rightarrow>
                   and_then (expect email) (\<lambda>email.
                   and_then (block_text_range (base + offset) (base + offset + length email)) (\<lambda>r.
                     Inr (Some r)))) (\<lambda>email_r.
               Inr (Some \<lparr>author_range = full_range l, author_name_range = name_r,
                          author_email_range = email_r, author_name = name, author_email = email\<rparr>))))"

text \<open>The range of a part of the revision is where its text first occurs in the line.\<close>

definition revision_value :: "str \<Rightarrow> nat \<Rightarrow> str option \<Rightarrow> MetadataValue option block_result" where
  "revision_value trimmed base piece =
     (case piece of
        None \<Rightarrow> Inr None
      | Some v \<Rightarrow>
          if v = [] then Inr None
          else
            and_then (expect (find_str v trimmed)) (\<lambda>offset.
            and_then (block_text_range (base + offset) (base + offset + length v)) (\<lambda>r.
              Inr (Some \<lparr>metadata_value = v, metadata_value_range = r\<rparr>))))"

definition parse_revision :: "str \<Rightarrow> SourceLine \<Rightarrow> Revision block_result" where
  "parse_revision content l =
     (let trimmed = trim_matches space_or_tab content;
          leading = length content - length (trim_start_matches space_or_tab content);
          base = range_start (content_range l) + leading;
          (pre, remark) = (case split_once_char (CHR '':'') trimmed of
              None \<Rightarrow> (trimmed, None)
            | Some (left, right) \<Rightarrow> (trim_end left, Some (trim_start right)));
          (number, date) = (case split_once_char (CHR '','') pre of
              None \<Rightarrow> (Some (trim pre), None)
            | Some (left, right) \<Rightarrow> (Some (trim left), Some (trim right)))
      in and_then (revision_value trimmed base number) (\<lambda>number.
         and_then (revision_value trimmed base date) (\<lambda>date.
         and_then (revision_value trimmed base remark) (\<lambda>remark.
           Inr \<lparr>revision_range = full_range l, revision_number = number, revision_date = date,
                revision_remark = remark\<rparr>))))"

section \<open>Hard breaks\<close>

definition relative_range :: "TextRange \<Rightarrow> nat \<Rightarrow> nat \<Rightarrow> TextRange block_result" where
  "relative_range parent start stop =
     expect_position (text_range (range_start parent + start) (range_start parent + stop))"

definition push_piece :: "InlineText \<Rightarrow> nat \<Rightarrow> nat \<Rightarrow> Inline list \<Rightarrow> Inline list block_result" where
  "push_piece t start stop out =
     (if start < stop then
        and_then (relative_range (inline_text_range t) start stop) (\<lambda>r.
        and_then (sub_str (inline_text_value t) start stop) (\<lambda>v.
          Inr (out @ [TextInline \<lparr>inline_text_range = r, inline_text_value = v\<rparr>])))
      else Inr out)"

text \<open>The offsets of the line feeds of the text, from \<open>i\<close> on.\<close>

fun line_feeds :: "nat \<Rightarrow> str \<Rightarrow> nat list" where
  "line_feeds i [] = []"
| "line_feeds i (b # s) = (if b = line_feed then i # line_feeds (Suc i) s else line_feeds (Suc i) s)"

fun hard_break_loop ::
    "InlineText \<Rightarrow> nat list \<Rightarrow> nat \<Rightarrow> Inline list \<Rightarrow> (nat \<times> Inline list) block_result" where
  "hard_break_loop t [] cursor out = Inr (cursor, out)"
| "hard_break_loop t (newline # rest) cursor out =
     (let bytes = inline_text_value t;
          marker_stop = (if 0 < newline \<and> bytes ! (newline - 1) = carriage_return then newline - 1 else newline)
      in if marker_stop < 2 \<or> slice bytes (marker_stop - 2) marker_stop \<noteq> '' +''
         then hard_break_loop t rest cursor out
         else
           let marker_from = marker_stop - 2 in
           and_then (push_piece t cursor marker_from out) (\<lambda>out.
           and_then (relative_range (inline_text_range t) marker_from (newline + 1)) (\<lambda>r.
             hard_break_loop t rest (newline + 1) (out @ [HardBreakInline r]))))"

definition split_hard_break_text :: "InlineText \<Rightarrow> Inline list block_result" where
  "split_hard_break_text t =
     and_then (hard_break_loop t (line_feeds 0 (inline_text_value t)) 0 []) (\<lambda>(cursor, out).
       push_piece t cursor (length (inline_text_value t)) out)"

fun set_link_label :: "Inline list \<Rightarrow> Inline Link \<Rightarrow> Inline Link" where
  "set_link_label inner (Link r macro_r target_r source tgt uses err label_r _) =
     Link r macro_r target_r source tgt uses err label_r inner"

fun set_reference_label :: "Inline list \<Rightarrow> Inline Reference \<Rightarrow> Inline Reference" where
  "set_reference_label inner (Reference r macro_r target_r source tgt uses err dest key label_r _) =
     Reference r macro_r target_r source tgt uses err dest key label_r inner"

function (sequential) split_hard_break :: "Inline \<Rightarrow> Inline list block_result"
  and split_hard_breaks :: "Inline list \<Rightarrow> Inline list block_result" where
  "split_hard_break (TextInline t) = split_hard_break_text t"
| "split_hard_break (StyledInline style r content inner) =
     and_then (split_hard_breaks inner) (\<lambda>inner. Inr [StyledInline style r content inner])"
| "split_hard_break (LinkInline l) =
     and_then (split_hard_breaks (link_label l)) (\<lambda>inner. Inr [LinkInline (set_link_label inner l)])"
| "split_hard_break (ReferenceInline x) =
     and_then (split_hard_breaks (reference_label x)) (\<lambda>inner.
       Inr [ReferenceInline (set_reference_label inner x)])"
| "split_hard_break i = Inr [i]"
| "split_hard_breaks [] = Inr []"
| "split_hard_breaks (i # is) =
     and_then (split_hard_break i) (\<lambda>xs. and_then (split_hard_breaks is) (\<lambda>ys. Inr (xs @ ys)))"
  by pat_completeness auto
termination
proof (relation "measure (\<lambda>x. case x of Inl i \<Rightarrow> size i | Inr is \<Rightarrow> size_list size is)", goal_cases)
  case (3 l)
  then show ?case by (cases l) simp
next
  case (4 x)
  then show ?case by (cases x) simp
qed auto

section \<open>Recognizers without nesting\<close>

definition parse_block_title ::
    "ParseContext \<Rightarrow> str \<Rightarrow> nat \<Rightarrow> ParseState \<Rightarrow> (BlockTitle option \<times> ParseState) block_result" where
  "parse_block_title ctx content base st =
     (if \<not> is_block_title content then Inr (None, st)
      else
        and_then (expect (strip_prefix content ''.'')) (\<lambda>v.
        and_then (expect_position (text_range (base + 1) (base + length content))) (\<lambda>r.
        and_then (parse_text ctx v r st) (\<lambda>(out, st).
        and_then (split_hard_breaks (output_inlines out)) (\<lambda>inlines.
          Inr (Some \<lparr>title_value = v, title_range = r, title_inlines = inlines,
                     title_inline_problems = output_problems out\<rparr>, st))))))"

definition heading_kind_of :: "nat \<Rightarrow> bool \<Rightarrow> HeadingKind \<times> HeadingProblem list" where
  "heading_kind_of marker_len title_position =
     (if marker_len = 1 then
        (DocumentTitleHeading, if title_position then [] else [MisplacedDocumentTitle])
      else if 2 \<le> marker_len \<and> marker_len \<le> 6 then (Section (marker_len - 1), [])
      else (Section 6, [LevelTooDeep]))"

definition parse_heading ::
    "ParseContext \<Rightarrow> str \<Rightarrow> SourceLine \<Rightarrow> bool \<Rightarrow> ParseState \<Rightarrow> (Heading \<times> ParseState) block_result" where
  "parse_heading ctx content l title_position st =
     (let marker_len = length (takeWhile (\<lambda>b. b = CHR ''='') content);
          start = range_start (content_range l)
      in and_then (block_text_range start (start + marker_len)) (\<lambda>marker_r.
      let has_space = (marker_len < length content \<and> content ! marker_len = CHR '' '');
          text_from = marker_len + (if has_space then 1 else 0);
          v = trim_end_matches space_or_tab
                (case str_get content text_from (length content) of Some w \<Rightarrow> w | None \<Rightarrow> []);
          text_start = start + min text_from (length content)
      in and_then (if has_space then block_text_range (start + marker_len) (start + marker_len + 1)
                   else block_text_range (start + marker_len) (start + marker_len)) (\<lambda>separator_r.
         and_then (block_text_range text_start (text_start + length v)) (\<lambda>text_r.
         let (kind, kind_problems) = heading_kind_of marker_len title_position;
             probs = (if has_space then [] else [MissingSpace]) @ (if v = [] then [EmptyHeading] else [])
                     @ kind_problems
         in and_then (parse_text ctx v text_r st) (\<lambda>(out, st).
              Inr (\<lparr>heading_metadata = TitledMetadata_default, heading_range = full_range l,
                    heading_marker_range = marker_r, heading_separator_range = separator_r,
                    heading_text_range = text_r, heading_kind = kind, well_formed = (probs = []),
                    hierarchy_valid = (LevelTooDeep \<notin> set probs \<and> MisplacedDocumentTitle \<notin> set probs),
                    heading_text = v, heading_inlines = output_inlines out,
                    heading_inline_problems = output_problems out, heading_problems = probs\<rparr>, st))))))"

fun literal_loop ::
    "SourceDocument \<Rightarrow> nat \<Rightarrow> SourceLine list \<Rightarrow> nat \<Rightarrow> str \<Rightarrow> (nat \<times> str) block_result" where
  "literal_loop d start [] stop v = Inr (stop, v)"
| "literal_loop d start (l # ls) stop v =
     and_then (expect (line_content d l)) (\<lambda>content.
       if content = [] \<or> \<not> List.member space_or_tab (hd content) then Inr (stop, v)
       else
         and_then (sub_str content 1 (length content)) (\<lambda>tail.
           literal_loop d start ls (stop + 1) (v @ (if start < stop then [line_feed] else []) @ tail)))"

definition parse_literal_paragraph ::
    "SourceDocument \<Rightarrow> nat \<Rightarrow> (LiteralParagraph \<times> nat) block_result" where
  "parse_literal_paragraph d start =
     and_then (expect (get_line d start)) (\<lambda>first.
     and_then (literal_loop d start (drop start (sd_lines d)) start []) (\<lambda>(stop, v).
     and_then (expect (if stop = 0 then None else get_line d (stop - 1))) (\<lambda>last_line.
     and_then (block_range_new (range_start (full_range first)) (range_end (full_range last_line))) (\<lambda>r.
     and_then (block_text_range (range_start (content_range first) + 1) (range_end (content_range last_line)))
       (\<lambda>content_r.
       Inr (\<lparr>literal_metadata = TitledMetadata_default, literal_range = r, literal_content_range = content_r,
             literal_value = v\<rparr>, stop))))))"

definition admonition_paragraph :: "str \<Rightarrow> (AdmonitionKind \<times> nat) option" where
  "admonition_paragraph v =
     (case split_once_char (CHR '':'') v of
        None \<Rightarrow> None
      | Some (label, body) \<Rightarrow>
          (case parse_admonition label of
             None \<Rightarrow> None
           | Some kind \<Rightarrow>
               let whitespace = length body - length (trim_start_matches space_or_tab body) in
               if 0 < whitespace \<and> trim (drop whitespace body) \<noteq> []
               then Some (kind, length label + 1 + whitespace) else None))"

definition resolve_paragraph_inlines ::
    "ParseContext \<Rightarrow> Paragraph \<Rightarrow> ParseState \<Rightarrow> (Paragraph \<times> ParseState) block_result" where
  "resolve_paragraph_inlines ctx p st =
     (let admonition = admonition_paragraph (paragraph_value p);
          body_offset = (case admonition of None \<Rightarrow> 0 | Some (_, n) \<Rightarrow> n);
          content_r = paragraph_content_range p
      in and_then (case admonition of
             None \<Rightarrow> Inr None
           | Some (kind, _) \<Rightarrow>
               and_then (expect_position (TextSize_new (range_start content_r + length (admonition_label kind) + 1)))
                 (\<lambda>label_end.
               and_then (expect_position (TextRange_new (range_start content_r) label_end)) (\<lambda>r.
                 Inr (Some \<lparr>admonition_kind = kind, admonition_label_range = r\<rparr>)))) (\<lambda>presentation.
         and_then (sub_str (paragraph_value p) body_offset (length (paragraph_value p))) (\<lambda>body.
         and_then (expect_position (TextSize_new (range_start content_r + body_offset))) (\<lambda>body_start.
         and_then (expect_position (TextRange_new body_start (range_end content_r))) (\<lambda>body_r.
         and_then (parse_text ctx body body_r st) (\<lambda>(out, st).
         and_then (split_hard_breaks (output_inlines out)) (\<lambda>inlines.
           Inr (p\<lparr>paragraph_admonition := presentation, paragraph_inlines := inlines,
                  paragraph_inline_problems := output_problems out\<rparr>, st))))))))"

function (sequential) callout_loop ::
    "str \<Rightarrow> TextRange \<Rightarrow> nat \<Rightarrow> CalloutMarker list \<Rightarrow> CalloutMarker list block_result" where
  "callout_loop v r cursor out =
     (case find_char (CHR ''<'') (drop cursor v) of
        None \<Rightarrow> Inr out
      | Some relative \<Rightarrow>
          let open_at = cursor + relative in
          if 0 < open_at \<and> v ! (open_at - 1) = backslash then callout_loop v r (open_at + 1) out
          else (case find_char (CHR ''>'') (drop (open_at + 1) v) of
              None \<Rightarrow> Inr out
            | Some close_relative \<Rightarrow>
                let close = open_at + 1 + close_relative in
                (case parse_u32 (slice v (open_at + 1) close) of
                   Some n \<Rightarrow>
                     if n \<noteq> 0 then
                       and_then (block_text_range (range_start r + open_at) (range_start r + close + 1)) (\<lambda>mr.
                         callout_loop v r (close + 1)
                           (out @ [\<lparr>callout_marker_id = n, callout_marker_range = mr\<rparr>]))
                     else callout_loop v r (close + 1) out
                 | None \<Rightarrow> callout_loop v r (close + 1) out)))"
  by pat_completeness auto
termination
  by (relation "measure (\<lambda>(v, r, cursor, out). length v - cursor)")
    (auto dest!: find_char_length simp del: find_char_None)

declare callout_loop.simps [simp del]

definition scan_callout_markers :: "str \<Rightarrow> TextRange \<Rightarrow> CalloutMarker list block_result" where
  "scan_callout_markers v r = callout_loop v r 0 []"

section \<open>Pending metadata\<close>

record PendingBlockMetadata =
  pending_semantic :: TitledMetadata
  pending_syntax :: "SyntaxNode list"

definition no_pending :: PendingBlockMetadata where
  "no_pending = \<lparr>pending_semantic = TitledMetadata_default, pending_syntax = []\<rparr>"

definition pending_is_empty :: "PendingBlockMetadata \<Rightarrow> bool" where
  "pending_is_empty p \<longleftrightarrow> metadata_range (pending_semantic p) = None"

definition extend_pending_range :: "TextRange \<Rightarrow> PendingBlockMetadata \<Rightarrow> PendingBlockMetadata block_result" where
  "extend_pending_range l p =
     and_then
       (case metadata_range (pending_semantic p) of
          Some r \<Rightarrow> expect_position (TextRange_new (range_start r) (range_end l))
        | None \<Rightarrow> Inr l) (\<lambda>r.
       Inr (p\<lparr>pending_semantic := (pending_semantic p)\<lparr>metadata_range := Some r\<rparr>\<rparr>))"

definition push_title ::
    "BlockTitle \<Rightarrow> TextRange \<Rightarrow> PendingBlockMetadata \<Rightarrow> PendingBlockMetadata block_result" where
  "push_title t l p =
     and_then (extend_pending_range l p) (\<lambda>p.
       Inr (p\<lparr>pending_semantic := (pending_semantic p)\<lparr>metadata_title := Some t\<rparr>,
              pending_syntax := pending_syntax p @ [leaf SyntaxKind.BlockTitle l]\<rparr>))"

definition push_attributes ::
    "BlockMetadata \<Rightarrow> TextRange \<Rightarrow> PendingBlockMetadata \<Rightarrow> PendingBlockMetadata block_result" where
  "push_attributes m l p =
     and_then (extend_pending_range l p) (\<lambda>p.
       let s = pending_semantic p in
       Inr (p\<lparr>pending_semantic :=
                s\<lparr>metadata_id := (if metadata_id m \<noteq> None then metadata_id m else metadata_id s),
                  metadata_roles := metadata_roles s @ metadata_roles m,
                  metadata_options := metadata_options s @ metadata_options m,
                  metadata_attributes := metadata_attributes s @ metadata_attributes m\<rparr>,
              pending_syntax := pending_syntax p @ [leaf BlockAttribute l]\<rparr>))"

definition push_anchor :: "ExplicitAnchor \<Rightarrow> PendingBlockMetadata \<Rightarrow> PendingBlockMetadata block_result" where
  "push_anchor a p =
     and_then (extend_pending_range (anchor_range a) p) (\<lambda>p.
       Inr (p\<lparr>pending_semantic := (pending_semantic p)
                \<lparr>metadata_id := Some \<lparr>metadata_value = anchor_id a, metadata_value_range = anchor_id_range a\<rparr>\<rparr>,
              pending_syntax := pending_syntax p @ [leaf BlockAnchor (anchor_range a)]\<rparr>))"

definition push_interstitial :: "SyntaxNode \<Rightarrow> PendingBlockMetadata \<Rightarrow> PendingBlockMetadata" where
  "push_interstitial n p = p\<lparr>pending_syntax := pending_syntax p @ [n]\<rparr>"

definition merge_block_metadata ::
    "TitledMetadata \<Rightarrow> TitledMetadata \<Rightarrow> TitledMetadata block_result" where
  "merge_block_metadata leading trailing =
     and_then
       (case (metadata_range leading, metadata_range trailing) of
          (Some first, Some second) \<Rightarrow>
            and_then (expect_position (TextRange_new (range_start first) (range_end second))) (\<lambda>r. Inr (Some r))
        | (Some r, None) \<Rightarrow> Inr (Some r)
        | (None, r) \<Rightarrow> Inr r) (\<lambda>r.
       Inr (leading\<lparr>metadata_range := r,
              metadata_title := (if metadata_title trailing \<noteq> None then metadata_title trailing
                                 else metadata_title leading),
              metadata_id := (if metadata_id trailing \<noteq> None then metadata_id trailing
                              else metadata_id leading),
              metadata_roles := metadata_roles leading @ metadata_roles trailing,
              metadata_options := metadata_options leading @ metadata_options trailing,
              metadata_attributes := metadata_attributes leading @ metadata_attributes trailing\<rparr>))"

definition metadata_attribute_count :: "'m BlockMetadata_scheme \<Rightarrow> nat" where
  "metadata_attribute_count m =
     length (metadata_attributes m) + length (metadata_roles m) + length (metadata_options m)
     + (if metadata_id m = None then 0 else 1)"

definition consume_metadata_budget :: "'m BlockMetadata_scheme \<Rightarrow> ParseBudget \<Rightarrow> BudgetExceeded + ParseBudget" where
  "consume_metadata_budget m b = repeat_result (metadata_attribute_count m) consume_attribute b"

definition anchor_of_metadata :: "TextRange \<Rightarrow> MetadataValue \<Rightarrow> ExplicitAnchor" where
  "anchor_of_metadata r v =
     \<lparr>anchor_range = r, anchor_id_range = metadata_value_range v, anchor_label_range = None,
      anchor_id = metadata_value v, anchor_label = None, anchor_target_range = None,
      anchor_valid = is_valid_anchor_id (metadata_value v)\<rparr>"

text \<open>The nodes and the blocks of a sequence, as far as they have been recognized.\<close>

record Recognized =
  recognized_syntax :: "SyntaxNode list"
  recognized_blocks :: "AstBlock list"

text \<open>The metadata goes to the last block, and its nodes to the last node.\<close>

definition attach_pending_metadata ::
    "Recognized \<Rightarrow> PendingBlockMetadata \<Rightarrow> (Recognized \<times> PendingBlockMetadata) block_result" where
  "attach_pending_metadata out pending =
     (if pending_is_empty pending then Inr (out, pending)
      else if recognized_blocks out = [] then Inr (out, no_pending)
      else
        let block = last (recognized_blocks out) in
        and_then (merge_block_metadata (pending_semantic pending) (block_metadata block)) (\<lambda>m.
        and_then (expect (if recognized_syntax out = [] then None else Some (last (recognized_syntax out))))
          (\<lambda>node.
        and_then (expect (metadata_range m)) (\<lambda>r.
        and_then (unfailing (prepend_annotations (range_start r) (pending_syntax pending) node)) (\<lambda>node.
          Inr (\<lparr>recognized_syntax = butlast (recognized_syntax out) @ [node],
                recognized_blocks = butlast (recognized_blocks out) @ [set_block_metadata m block]\<rparr>,
               no_pending))))))"

definition flush_orphan_metadata ::
    "ParseContext \<Rightarrow> Recognized \<Rightarrow> PendingBlockMetadata \<Rightarrow> ParseState
     \<Rightarrow> (Recognized \<times> PendingBlockMetadata \<times> ParseState) block_result" where
  "flush_orphan_metadata ctx out pending st =
     (if pending_is_empty pending then Inr (out, pending, st)
      else
        and_then (spend consume_block st) (\<lambda>st.
        and_then (spend consume_node st) (\<lambda>st.
        and_then (expect (metadata_range (pending_semantic pending))) (\<lambda>r.
        let inside = takeWhile (\<lambda>n. \<not> range_end r \<le> range_start (node_range n)) (pending_syntax pending);
            trailing = drop (length inside) (pending_syntax pending)
        in and_then (sub_str (ctx_source ctx) (range_start r) (range_end r)) (\<lambda>raw.
             Inr (\<lparr>recognized_syntax = recognized_syntax out
                      @ [SyntaxNode UnsupportedNode r [SyntaxNode UnknownNode r inside]] @ trailing,
                   recognized_blocks = recognized_blocks out
                      @ [UnsupportedAst \<lparr>unsupported_metadata = TitledMetadata_default, unsupported_range = r,
                           unsupported_raw = trim_end_matches [carriage_return, line_feed] raw,
                           reason = ''block metadata is not attached to a block'',
                           unsupported_kind = UnsupportedSyntax\<rparr>]\<rparr>,
                  no_pending, st))))))"

text \<open>The lines collected for a paragraph become a block.\<close>

fun paragraph_text :: "nat \<Rightarrow> (SourceLine \<times> str) list \<Rightarrow> str" where
  "paragraph_text content_end [] = []"
| "paragraph_text content_end ((l, v) # ls) =
     v @ (if range_end (full_range l) < content_end
          then (case ending_kind l of Lf \<Rightarrow> [line_feed] | CrLf \<Rightarrow> [carriage_return, line_feed] | NoEnding \<Rightarrow> [])
          else []) @ paragraph_text content_end ls"

definition flush_paragraph ::
    "ParseContext \<Rightarrow> Recognized \<Rightarrow> (SourceLine \<times> str) list \<Rightarrow> PendingBlockMetadata \<Rightarrow> ParseState
     \<Rightarrow> (Recognized \<times> PendingBlockMetadata \<times> ParseState) block_result" where
  "flush_paragraph ctx out ls pending st =
     (if ls = [] then Inr (out, pending, st)
      else
        let first = fst (hd ls); final = fst (last ls) in
        and_then (spend consume_block st) (\<lambda>st.
        and_then (spend consume_node st) (\<lambda>st.
        and_then (expect_position (TextRange_new (range_start (full_range first)) (range_end (full_range final))))
          (\<lambda>r.
        and_then (expect_position (TextRange_new (range_start (content_range first)) (range_end (content_range final))))
          (\<lambda>content_r.
        and_then (resolve_paragraph_inlines ctx
            \<lparr>paragraph_metadata = TitledMetadata_default, paragraph_range = r, paragraph_content_range = content_r,
             paragraph_value = paragraph_text (range_end content_r) ls, paragraph_inlines = [],
             paragraph_admonition = None, paragraph_inline_problems = []\<rparr> st) (\<lambda>(p, st).
        and_then (paragraph_node p) (\<lambda>node.
        and_then (attach_pending_metadata
            \<lparr>recognized_syntax = recognized_syntax out @ [node],
             recognized_blocks = recognized_blocks out @ [ParagraphBlock p]\<rparr> pending) (\<lambda>(out, pending).
          Inr (out, pending, st)))))))))"

section \<open>Attributes in the body\<close>

text \<open>
  The lines before a possible attribute, nearest first: an attribute may follow a blank line or
  a comment, over other attributes.
\<close>

fun blank_offset_loop :: "SourceDocument \<Rightarrow> SourceLine list \<Rightarrow> bool block_result" where
  "blank_offset_loop d [] = Inr False"
| "blank_offset_loop d (l # ls) =
     and_then (expect (line_content d l)) (\<lambda>content.
       if blank_text content then Inr True
       else if starts_with content ''//'' then Inr True
       else and_then (parse_line content (range_start (content_range l)) (full_range l)) (\<lambda>p.
              if p = None then Inr False else blank_offset_loop d ls))"

definition body_attribute_has_blank_offset :: "SourceDocument \<Rightarrow> nat \<Rightarrow> bool \<Rightarrow> bool block_result" where
  "body_attribute_has_blank_offset d line_index saw_content =
     (if \<not> saw_content then Inr False
      else blank_offset_loop d (rev (take line_index (sd_lines d))))"

end
