(* ===== verification/Inline_Candidates.thy ===== *)
theory Inline_Candidates
  imports Inline_Parser
begin

text \<open>
  What the index of \<open>Inline_Scan\<close> promises of its candidates: their offsets are ordered, inside the
  fragment and at the boundaries of scalar values. The recognition of a candidate keeps that.
\<close>

section \<open>Offsets of ASCII bytes\<close>

lemma boundary_ascii: "i < length s \<Longrightarrow> byte_val (s ! i) < 128 \<Longrightarrow> char_boundary s i"
  by (simp add: char_boundary_def is_continuation_def)

text \<open>An ASCII byte stands on a boundary and in front of one.\<close>

lemma ascii_at:
  assumes "valid_utf8 s" "i < length s" "s ! i = b" "byte_val b < 128"
  shows "char_boundary s i" "char_boundary s (Suc i)"
  using assms boundary_ascii [of i s] char_boundary_after_ascii [of s i] by simp_all

lemma starts_with_drop:
  "starts_with (drop i s) p \<longleftrightarrow> i + length p \<le> length s \<and> slice s i (i + length p) = p" if "i \<le> length s"
  using that by (auto simp: starts_with_def slice_def dest: starts_with_length [unfolded starts_with_def])

lemma starts_with_drop_nth:
  assumes "starts_with (drop i s) p" "k < length p"
  shows "s ! (i + k) = p ! k" "i + k < length s"
proof -
  have len: "length p \<le> length (drop i s)" using assms(1) by (rule starts_with_length)
  with assms(2) show "i + k < length s" by simp
  have "take (length p) (drop i s) ! k = p ! k" using assms(1) by (simp add: starts_with_def)
  with len assms(2) show "s ! (i + k) = p ! k" by simp
qed

text \<open>An ASCII string read at an offset ends on a boundary, and so does every prefix of it.\<close>

lemma ascii_string_boundary:
  assumes "valid_utf8 s" "starts_with (drop i s) p" "list_all (\<lambda>b. byte_val b < 128) p" "0 < k" "k \<le> length p"
  shows "char_boundary s (i + k)"
proof -
  have "k - 1 < length p" using assms(4,5) by simp
  with starts_with_drop_nth [OF assms(2) this] assms(1,3)
  have "char_boundary s (Suc (i + (k - 1)))"
    by (auto intro!: ascii_at(2) simp: list_all_length)
  with assms(4) show ?thesis by simp
qed

lemma char_indices_nth:
  assumes "(i, ch) \<in> set (char_indices s)"
  shows "\<exists>k < length (chars s). i = char_offset s k \<and> ch = chars s ! k"
  using assms by (auto simp: char_indices_def char_indices_from_def char_offset_def set_zip)

lemma char_indices_at:
  assumes "(i, ch) \<in> set (char_indices s)"
  shows "i < length s" "starts_with (drop i s) ch" "ch \<noteq> []" "hd ch = s ! i" "next_char s i = Some ch"
    and "valid_utf8 s \<Longrightarrow> char_boundary s i"
proof -
  obtain k where k: "k < length (chars s)" "i = char_offset s k" "ch = chars s ! k"
    using char_indices_nth [OF assms] by blast
  have d: "chars (drop i s) = ch # drop (Suc k) (chars s)"
    using k by (simp add: chars_drop_offset Cons_nth_drop_Suc)
  show nonempty: "ch \<noteq> []" using chars_nonempty k(1,3) nth_mem by metis
  have "drop i s = ch @ concat (drop (Suc k) (chars s))"
    by (metis concat.simps(2) concat_chars d)
  then show s: "starts_with (drop i s) ch" by simp
  show "next_char s i = Some ch" using d by (simp add: next_char_def)
  from starts_with_drop_nth [OF s, of 0] nonempty show "i < length s" "hd ch = s ! i"
    by (simp_all add: hd_conv_nth)
  show "valid_utf8 s \<Longrightarrow> char_boundary s i" unfolding k(2) by (rule char_offset_boundary)
qed

lemma next_char_boundary_bounds:
  assumes "i < length s"
  shows "i < next_char_boundary s i" "next_char_boundary s i \<le> length s"
proof -
  obtain ch rest where c: "chars (drop i s) = ch # rest"
    using chars_head [OF assms] by (cases "chars (drop i s)") auto
  have "ch \<noteq> []" using chars_nonempty [of ch "drop i s"] c by simp
  moreover have "drop i s = ch @ concat rest" by (metis c concat.simps(2) concat_chars)
  then have "length ch \<le> length s - i" by (metis length_append length_drop le_add1)
  ultimately show "i < next_char_boundary s i" "next_char_boundary s i \<le> length s"
    using assms c by (auto simp: next_char_boundary_def next_char_def)
qed

lemma next_char_boundary_boundary:
  assumes "valid_utf8 s" "char_boundary s i" "i < length s"
  shows "char_boundary s (next_char_boundary s i)"
proof -
  obtain k where k: "k \<le> length (chars s)" "i = char_offset s k"
    using char_boundary_offset [OF assms(1,2)] by blast
  with assms(3) have lt: "k < length (chars s)" using char_offset_all [of s k] by fastforce
  then have "chars (drop i s) = chars s ! k # drop (Suc k) (chars s)"
    using k(2) by (simp add: chars_drop_offset Cons_nth_drop_Suc)
  moreover have "char_offset s (Suc k) = char_offset s k + length (chars s ! k)"
    using lt by (simp add: char_offset_def take_Suc_conv_app_nth)
  ultimately have "next_char_boundary s i = char_offset s (Suc k)"
    using k(2) by (simp add: next_char_boundary_def next_char_def)
  then show ?thesis using char_offset_boundary [OF assms(1)] by simp
qed

lemma char_indices_sorted: "sorted_wrt (\<lambda>a b. fst a < fst b) (char_indices s)"
proof -
  have "sorted_wrt (\<lambda>a b. fst a < fst b) (char_indices_from n cs) \<and> (\<forall>p \<in> set (char_indices_from n cs). n \<le> fst p)"
    if "\<forall>ch \<in> set cs. ch \<noteq> []" for n cs
    using that
  proof (induction cs arbitrary: n)
    case (Cons c cs)
    have "0 < length c" and nonempty: "\<forall>ch \<in> set cs. ch \<noteq> []" using Cons.prems by simp_all
    moreover have "\<forall>p \<in> set (char_indices_from (n + length c) cs). n + length c \<le> fst p"
      using Cons.IH [OF nonempty] by blast
    ultimately have "\<forall>p \<in> set (char_indices_from (n + length c) cs). n < fst p"
      by (meson add_le_cancel_left less_add_same_cancel1 less_le_trans)
    with Cons.IH [OF nonempty, of "n + length c"] show ?case by (simp add: less_imp_le)
  qed simp
  from this [of "chars s" 0] show ?thesis using chars_nonempty by (auto simp: char_indices_def)
qed

section \<open>Well-formed candidates\<close>

definition closer_ok :: "str \<Rightarrow> nat \<Rightarrow> MarkerForm \<Rightarrow> nat \<Rightarrow> bool" where
  "closer_ok value open form close \<longleftrightarrow>
     open + form_width form \<le> close \<and> close + form_width form \<le> length value
     \<and> char_boundary value close \<and> char_boundary value (close + form_width form)
     \<and> value ! (close + form_width form - 1) \<noteq> backslash"

definition marker_at :: "str \<Rightarrow> nat \<Rightarrow> char \<Rightarrow> MarkerForm \<Rightarrow> bool" where
  "marker_at value open marker form \<longleftrightarrow>
     open + form_width form \<le> length value \<and> char_boundary value open
     \<and> char_boundary value (open + form_width form)
     \<and> value ! open = marker \<and> value ! (open + form_width form - 1) = marker
     \<and> marker \<in> set ''`*_#{^~''"

definition macro_opening :: "str \<Rightarrow> nat \<Rightarrow> bool" where
  "macro_opening value open \<longleftrightarrow>
     starts_with (drop open value) ''<<'' \<or> starts_with (drop open value) ''[['' \<or> macro_candidate value open"

definition span_ok :: "str \<Rightarrow> nat \<Rightarrow> nat \<Rightarrow> nat \<Rightarrow> nat \<Rightarrow> bool" where
  "span_ok value open from until stop \<longleftrightarrow>
     open < from \<and> from \<le> until \<and> until < stop \<and> stop \<le> length value
     \<and> char_boundary value open \<and> char_boundary value from \<and> char_boundary value until
     \<and> char_boundary value stop \<and> value ! (stop - 1) \<noteq> backslash"

fun candidate_ok :: "str \<Rightarrow> InlineCandidate \<Rightarrow> bool" where
  "candidate_ok value (EscapedAnchor slash) \<longleftrightarrow>
     slash + 2 \<le> length value \<and> char_boundary value slash \<and> char_boundary value (slash + 2)
     \<and> value ! slash = backslash \<and> value ! (slash + 1) = CHR ''[''"
| "candidate_ok value (MacroCandidate open) \<longleftrightarrow>
     open < length value \<and> char_boundary value open \<and> macro_opening value open"
| "candidate_ok value (MacroBoundaryCandidate open) \<longleftrightarrow>
     open < length value \<and> char_boundary value open \<and> macro_candidate value open"
| "candidate_ok value (MarkerCandidate open marker form close) \<longleftrightarrow>
     marker_at value open marker form
     \<and> (case close of None \<Rightarrow> True | Some close \<Rightarrow> closer_ok value open form close)"
| "candidate_ok value (MonospaceBoundaryCandidate open stop) \<longleftrightarrow>
     open < length value \<and> open \<le> stop \<and> stop \<le> length value"
| "candidate_ok value (TypographicQuote open quote from until stop) \<longleftrightarrow> span_ok value open from until stop"
| "candidate_ok value (PassthroughCandidate open width from until stop) \<longleftrightarrow>
     span_ok value open from until stop \<and> width \<in> {1, 2, 3}"

text \<open>The candidates found before the scan for markers are none.\<close>

definition unmarked :: "str \<Rightarrow> InlineCandidate \<Rightarrow> bool" where
  "unmarked value c \<longleftrightarrow>
     candidate_ok value c \<and> (case c of MarkerCandidate _ _ _ _ \<Rightarrow> False | _ \<Rightarrow> True)"

lemma unmarked_simps [simp]:
  "unmarked value (TypographicQuote open q from until stop) = candidate_ok value (TypographicQuote open q from until stop)"
  "unmarked value (PassthroughCandidate open w from until stop)
     = candidate_ok value (PassthroughCandidate open w from until stop)"
  "unmarked value (MonospaceBoundaryCandidate open stop) = candidate_ok value (MonospaceBoundaryCandidate open stop)"
  by (simp_all add: unmarked_def)

lemma run_starts_with:
  "n \<le> length (takeWhile (\<lambda>b. b = c) s) \<Longrightarrow> starts_with s (replicate n c)"
proof (induction n arbitrary: s)
  case 0
  then show ?case by (simp add: starts_with_def)
next
  case (Suc n)
  then obtain t where "s = c # t" "n \<le> length (takeWhile (\<lambda>b. b = c) t)"
    by (cases s) (auto split: if_splits)
  with Suc.IH [of t] show ?case by (simp add: starts_with_def)
qed

lemma passthrough_at_ok:
  assumes "valid_utf8 value" "passthrough_at alnum value cursor = Some (run, content_end)"
    and "cursor + 1 < length value"
  shows "candidate_ok value (PassthroughCandidate cursor run (cursor + run) content_end (content_end + run))"
proof -
  let ?n = "length (takeWhile (\<lambda>b. b = CHR ''+'') (drop cursor value))"
  from assms(2) have run: "run = min 3 ?n" "0 < run" "cursor + run < content_end"
    and nxt: "next_plus value run ! (cursor + run) = Some content_end"
    by (auto simp: passthrough_at_def Let_def split: if_splits option.splits)
  have ascii: "list_all (\<lambda>b. byte_val b < 128) (replicate run (CHR ''+''))" by (simp add: list_all_length)
  have opens: "starts_with (drop cursor value) (replicate run (CHR ''+''))"
    using run(1) by (intro run_starts_with) simp
  from starts_with_length [OF this] run(2) have "cursor + run \<le> length value" by simp
  from next_index_Some [OF this nxt [unfolded next_plus_def]]
  have close: "content_end < length value" "starts_with (drop content_end value) (replicate run (CHR ''+''))"
    by simp_all
  from starts_with_length [OF close(2)] have stop: "content_end + run \<le> length value" using close(1) by simp
  have b: "char_boundary value cursor" "char_boundary value content_end"
    "value ! (content_end + (run - 1)) = CHR ''+''"
    using starts_with_drop_nth [OF opens, of 0] starts_with_drop_nth [OF close(2), of 0]
      starts_with_drop_nth [OF close(2), of "run - 1"] run(2)
    by (auto intro!: boundary_ascii)
  moreover have "char_boundary value (cursor + run)" "char_boundary value (content_end + run)"
    using ascii_string_boundary [OF assms(1) opens ascii, of run]
      ascii_string_boundary [OF assms(1) close(2) ascii, of run] run(2) by simp_all
  moreover have "value ! (content_end + run - 1) \<noteq> backslash" using b(3) run(2) by simp
  moreover have "run = 1 \<or> run = 2 \<or> run = 3" using run(1,2) by linarith
  ultimately show ?thesis using run(2,3) stop by (simp add: span_ok_def)
qed

lemma quote_at_ok:
  assumes "valid_utf8 value" "cursor + 1 < length value"
    and q: "hd (chars (drop cursor value)) = [q]" "q = quote_char \<or> q = double_quote"
    and tick: "value ! (cursor + 1) = CHR ''`''"
    and nxt: "next_quote value q ! (cursor + 2) = Some content_end"
  shows "candidate_ok value (TypographicQuote cursor q (cursor + 2) content_end (content_end + 2))"
proof -
  have open_q: "value ! cursor = q"
  proof -
    have "drop cursor value = concat (chars (drop cursor value))" by simp
    also have "\<dots> = [q] @ concat (tl (chars (drop cursor value)))"
      using q(1) chars_head [of cursor "value"] assms(2) by (cases "chars (drop cursor value)") auto
    finally show ?thesis using assms(2) by (metis Suc_lessD add.commute append_Cons hd_drop_conv_nth list.sel(1) plus_1_eq_Suc)
  qed
  from next_index_Some [OF _ nxt [unfolded next_quote_def]] assms(2)
  have close: "cursor + 2 \<le> content_end" "content_end < length value"
    "starts_with (drop content_end value) [CHR ''`'', q]" by simp_all
  from starts_with_drop_nth [OF close(3), of 0] starts_with_drop_nth [OF close(3), of 1]
  have c: "value ! content_end = CHR ''`''" "value ! (content_end + 1) = q" "content_end + 1 < length value"
    by simp_all
  have ascii: "byte_val q < 128" "q \<noteq> backslash" using q(2) by auto
  have "char_boundary value cursor" "char_boundary value content_end"
    using assms(2) open_q c ascii by (auto intro!: boundary_ascii)
  moreover have "char_boundary value (Suc (cursor + 1))" "char_boundary value (Suc (content_end + 1))"
    using assms(2) tick c ascii by (auto intro!: ascii_at(2) [OF assms(1)])
  ultimately have "char_boundary value cursor" "char_boundary value (Suc (Suc cursor))"
    "char_boundary value content_end" "char_boundary value (Suc (Suc content_end))" by simp_all
  with close c ascii(2) show ?thesis by (simp add: span_ok_def)
qed

lemma preparsed_loop_ok:
  "valid_utf8 value \<Longrightarrow> list_all (unmarked value) cs \<Longrightarrow>
     list_all (unmarked value) (fst (preparsed_loop alnum value cursor cs marks))"
proof (induction alnum "value" cursor cs marks rule: preparsed_loop.induct)
  case (1 alnum "value" cursor cs marks)
  show ?case
  proof (cases "length value \<le> cursor + 1")
    case True
    with 1(6) show ?thesis by (simp add: preparsed_loop.simps)
  next
    case in_range: False
    show ?thesis
    proof (cases "passthrough_at alnum value cursor")
      case (Some p)
      then obtain run content_end where p: "passthrough_at alnum value cursor = Some (run, content_end)"
        by (cases p) auto
      from passthrough_at_ok [OF 1(5) this] in_range
      have "candidate_ok value (PassthroughCandidate cursor run (cursor + run) content_end (content_end + run))"
        by simp
      with 1(4) [OF in_range p refl 1(5)] 1(6) in_range p show ?thesis
        by (subst preparsed_loop.simps) simp
    next
      case None
      let ?quote = "hd (chars (drop cursor value))"
      show ?thesis
      proof (cases "\<not> (?quote = [quote_char] \<or> ?quote = [double_quote]) \<or> value ! (cursor + 1) \<noteq> CHR ''`''")
        case True
        with 1(1) [OF in_range None refl True 1(5,6)] in_range None show ?thesis
          by (subst preparsed_loop.simps) (auto simp: Let_def)
      next
        case False
        then obtain q where q: "?quote = [q]" "q = quote_char \<or> q = double_quote"
          and tick: "value ! (cursor + 1) = CHR ''`''" by auto
        show ?thesis
        proof (cases "next_quote value (hd ?quote) ! (cursor + 2)")
          case no: None
          with 1(2) [OF in_range None refl False no 1(5,6)] in_range None False show ?thesis
            by (subst preparsed_loop.simps) (auto simp: Let_def)
        next
          case (Some content_end)
          with quote_at_ok [OF 1(5) _ q tick, of content_end] in_range q(1)
          have "candidate_ok value (TypographicQuote cursor (hd ?quote) (cursor + 2) content_end (content_end + 2))"
            by simp
          with 1(3) [OF in_range None refl False Some 1(5)] 1(6) in_range None False Some show ?thesis
            by (subst preparsed_loop.simps) (auto simp: Let_def)
        qed
      qed
    qed
  qed
qed

lemma monospace_loop_ok:
  "(case pending of None \<Rightarrow> True | Some open \<Rightarrow> open < cursor) \<Longrightarrow> list_all (unmarked value) cs \<Longrightarrow>
     list_all (unmarked value) (fst (monospace_loop alnum value cursor pending cs marks))"
proof (induction alnum "value" cursor pending cs marks rule: monospace_loop.induct)
  case (1 alnum "value" cursor pending cs marks)
  let ?run_end = "length (takeWhile (\<lambda>b. b = CHR ''`'') (drop cursor value)) + cursor"
  consider "length value \<le> cursor" | "cursor < length value" "value ! cursor \<noteq> CHR ''`''"
    | "cursor < length value" "value ! cursor = CHR ''`''" by linarith
  then show ?case
  proof cases
    case 1
    with "1.prems" show ?thesis by (subst monospace_loop.simps) simp
  next
    case 2
    with "1.IH"(1) "1.prems" show ?thesis
      by (subst monospace_loop.simps) (simp split: option.splits)
  next
    case 3
    then have "drop cursor value = CHR ''`'' # drop (Suc cursor) value" by (simp add: Cons_nth_drop_Suc [symmetric])
    then have adv: "cursor < ?run_end" by simp
    have open_ok: "pending = Some open \<Longrightarrow> candidate_ok value (MonospaceBoundaryCandidate open (cursor + 1))" for "open"
      using 3(1) "1.prems"(1) by simp
    show ?thesis
      by (subst monospace_loop.simps)
        (use "1.IH"(2-) "1.prems"(2) 3 adv open_ok in \<open>auto simp: Let_def split: option.split\<close>)
  qed
qed

section \<open>Pairs and closers\<close>

lemma length_mark_pairs [simp]: "length (mark_pairs p r xs) = length xs"
proof (induction p r xs rule: mark_pairs.induct)
  case (1 p r xs)
  then show ?case by (subst mark_pairs.simps) simp
qed

lemma nth_mark_pairs:
  "i < length xs \<Longrightarrow> mark_pairs p r xs ! i \<longleftrightarrow> xs ! i \<or> p \<le> i \<and> i + 1 < r \<and> even (i - p)"
proof (induction p r xs rule: mark_pairs.induct)
  case (1 p r xs)
  show ?case
  proof (cases "p + 1 < r")
    case True
    have "(i = p \<or> xs ! i) \<or> p + 2 \<le> i \<and> i + 1 < r \<and> even (i - (p + 2)) \<longleftrightarrow>
        xs ! i \<or> p \<le> i \<and> i + 1 < r \<and> even (i - p)"
      using True by (cases "p + 2 \<le> i") (auto simp: le_Suc_eq not_le less_Suc_eq)
    moreover have "mark_pairs p r xs ! i \<longleftrightarrow> mark_pairs (p + 2) r (xs[p := True]) ! i"
      using True by (subst mark_pairs.simps) simp
    moreover have "mark_pairs (p + 2) r (xs[p := True]) ! i \<longleftrightarrow>
        xs[p := True] ! i \<or> p + 2 \<le> i \<and> i + 1 < r \<and> even (i - (p + 2))"
      using 1 True by simp
    moreover have "xs[p := True] ! i \<longleftrightarrow> i = p \<or> xs ! i"
      using 1(2) by (cases "i = p") auto
    ultimately show ?thesis by blast
  next
    case False
    then show ?thesis by (subst mark_pairs.simps) auto
  qed
qed

definition pairs_ok :: "str \<Rightarrow> nat \<Rightarrow> bool list \<Rightarrow> bool" where
  "pairs_ok value bound pairs \<longleftrightarrow> length pairs = length value + 1
     \<and> (\<forall>i < length pairs. pairs ! i \<longrightarrow> i + 1 < bound \<and> formatting_byte (value ! i)
          \<and> value ! (i + 1) = value ! i \<and> \<not> pairs ! (i + 1))"

lemma pairs_loop_ok:
  "pairs_ok value cursor pairs \<Longrightarrow> cursor \<le> length value \<Longrightarrow>
     pairs_ok value (length value) (pairs_loop value cursor pairs)"
proof (induction "value" cursor pairs rule: pairs_loop.induct)
  case (1 "value" cursor pairs)
  let ?n = "length (takeWhile (\<lambda>b. b = value ! cursor) (drop (cursor + 1) value))"
  let ?run_end = "cursor + 1 + ?n"
  have bound: "?n \<le> length value - (cursor + 1)"
    by (metis length_drop length_takeWhile_le)
  consider "length value \<le> cursor" | "cursor < length value" "\<not> formatting_byte (value ! cursor)"
    | "cursor < length value" "formatting_byte (value ! cursor)" by linarith
  then show ?case
  proof cases
    case 1
    with "1.prems" show ?thesis by (subst pairs_loop.simps) simp
  next
    case 2
    moreover have "pairs_ok value (cursor + 1) pairs"
      using "1.prems"(1) by (fastforce simp: pairs_ok_def)
    ultimately have "pairs_ok value (length value) (pairs_loop value (cursor + 1) pairs)"
      using "1.IH"(1) by simp
    with 2 show ?thesis by (subst pairs_loop.simps) simp
  next
    case 3
    have same: "value ! i = value ! cursor" if "cursor \<le> i" "i < ?run_end" for i
    proof (cases "i = cursor")
      case False
      then have k: "i - (cursor + 1) < ?n" using that by linarith
      from set_takeWhileD [OF nth_mem [OF k]] takeWhile_nth [OF k]
      have "drop (cursor + 1) value ! (i - (cursor + 1)) = value ! cursor" by simp
      then show ?thesis using False that 3(1) by simp
    qed simp
    note old = "1.prems"(1) [unfolded pairs_ok_def]
    have new: "mark_pairs cursor ?run_end pairs ! i \<longleftrightarrow>
        pairs ! i \<or> cursor \<le> i \<and> i + 1 < ?run_end \<and> even (i - cursor)" if "i < length pairs" for i
      using that by (rule nth_mark_pairs)
    have "pairs_ok value ?run_end (mark_pairs cursor ?run_end pairs)"
      unfolding pairs_ok_def
    proof (intro conjI allI impI)
      fix i assume "i < length (mark_pairs cursor ?run_end pairs)" "mark_pairs cursor ?run_end pairs ! i"
      then have i: "i < length pairs" "pairs ! i \<or> cursor \<le> i \<and> i + 1 < ?run_end \<and> even (i - cursor)"
        using new by simp_all
      show "i + 1 < ?run_end" using i old by fastforce
      show "formatting_byte (value ! i)" using i old same [of i] 3(2) by auto
      show "value ! (i + 1) = value ! i" using i old same [of i] same [of "i + 1"] by auto
      show "\<not> mark_pairs cursor ?run_end pairs ! (i + 1)"
      proof (cases "cursor \<le> i")
        case True
        then have "\<not> pairs ! i" using i(1) old by fastforce
        with i(2) True have lt: "i + 1 < length pairs" and "odd (i + 1 - cursor)"
          using bound 3(1) old by auto
        moreover have "\<not> pairs ! (i + 1)" using lt True old by fastforce
        ultimately show ?thesis using new [OF lt] by simp
      next
        case False
        with i have p: "pairs ! i" by simp
        with i(1) old have "i + 1 < cursor" "\<not> pairs ! (i + 1)" by auto
        with new [of "i + 1"] "1.prems"(2) old show ?thesis by simp
      qed
    qed (use old in simp)
    moreover have "?run_end \<le> length value" using bound 3(1) by linarith
    ultimately have "pairs_ok value (length value)
        (pairs_loop value ?run_end (mark_pairs cursor ?run_end pairs))"
      using "1.IH"(2) [OF _ _ refl] 3 by simp
    with 3 show ?thesis by (subst pairs_loop.simps) (simp add: Let_def)
  qed
qed

lemma unconstrained_pairs_ok: "pairs_ok value (length value) (index_unconstrained_pairs value)"
  unfolding index_unconstrained_pairs_def Suc_eq_plus1 [symmetric] by (rule pairs_loop_ok) (simp_all add: pairs_ok_def nth_replicate del: replicate_Suc)

text \<open>One position of the scan adds at most one candidate, and a good one.\<close>

definition paired :: "bool list \<Rightarrow> InlineCandidate \<Rightarrow> bool" where
  "paired pairs c \<longleftrightarrow> (case c of 
      MarkerCandidate open _ form _ \<Rightarrow> form = Unconstrained \<longleftrightarrow> pairs ! open | _ \<Rightarrow> True)"

definition scan_ok :: "str \<Rightarrow> bool list \<Rightarrow> scan_state \<Rightarrow> bool" where
  "scan_ok value pairs st \<longleftrightarrow>
     list_all (\<lambda>c. candidate_ok value c \<and> paired pairs c) (fst st)
     \<and> (\<forall>open \<in> set (snd (snd st)). candidate_ok value (MacroBoundaryCandidate open))"

lemma marker_at_constrained:
  assumes "valid_utf8 value" "open < length value" "value ! open \<in> set ''`*_#{^~''"
  shows "marker_at value open (value ! open) Constrained"
  using assms ascii_at [OF assms(1,2) refl]
  by (auto simp: marker_at_def form_width_def)

lemma formatting_byte_iff: "formatting_byte b \<longleftrightarrow> b \<in> set ''`*_#''"
  by (auto simp: formatting_byte_def)

lemma marker_at_unconstrained:
  assumes "valid_utf8 value" "open < length value" "pairs_ok value (length value) pairs" "pairs ! open"
  shows "marker_at value open (value ! open) Unconstrained"
proof -
  from assms(2-4) have p: "open + 1 < length value" "formatting_byte (value ! open)"
    "value ! (open + 1) = value ! open" by (auto simp: pairs_ok_def)
  then have ascii: "byte_val (value ! open) < 128" by (auto simp: formatting_byte_def)
  have "char_boundary value (Suc (open + 1))"
    using ascii_at(2) [OF assms(1) p(1,3) ascii] .
  moreover have "char_boundary value open" using boundary_ascii [OF assms(2) ascii] .
  ultimately show ?thesis using p by (simp add: marker_at_def form_width_def formatting_byte_iff) auto
qed

lemma scan_position_ok:
  assumes v: "valid_utf8 value" and pairs: "pairs_ok value (length value) pairs"
    and pos: "pos \<in> set (char_indices value)" and st: "scan_ok value pairs st"
  shows "scan_ok value pairs (scan_position alnum value pairs pos st)"
proof -
  obtain i ch where p: "pos = (i, ch)" by (cases pos)
  obtain cs marks rej where s: "st = (cs, marks, rej)" by (cases st)
  note at = char_indices_at [OF pos [unfolded p]]
  note open_b = at(6) [OF v]
  have anchor: "candidate_ok value (EscapedAnchor i)"
    if "starts_with (drop i value) (backslash # ''[['') \<or> starts_with (drop i value) (backslash # ''[#'')"
  proof -
    from that have two: "starts_with (drop i value) (backslash # ''['')" by (auto simp: starts_with_prefix)
    from starts_with_drop_nth [OF two, of 0] starts_with_drop_nth [OF two, of 1]
      ascii_string_boundary [OF v two, of 2] open_b
    show ?thesis by simp
  qed
  have marker: "candidate_ok value (MarkerCandidate i (hd ch) Constrained None)"
    if "hd ch \<in> set ''`*_#{^~''"
    using marker_at_constrained [OF v at(1)] that at(4) by simp
  have pair: "candidate_ok value (MarkerCandidate i (hd ch) Unconstrained None)" if "pairs ! i"
    using marker_at_unconstrained [OF v at(1) pairs that] at(4) by simp
  have macro: "candidate_ok value (MacroCandidate i)"
    if "starts_with (drop i value) ''<<'' \<or> starts_with (drop i value) ''[['' \<or> b \<and> macro_candidate value i" for b
    using that at(1) open_b by (auto simp: macro_opening_def)
  have rejected: "macro_candidate value i \<Longrightarrow> candidate_ok value (MacroBoundaryCandidate i)"
    using at(1) open_b by simp
  have constrained: "hd ch \<in> set ''`*_#{^~''"
    if "ch = ''{'' \<or> (ch = ''^'' \<or> ch = ''~'') \<and> b \<or> formatting_byte (hd ch) \<and> c" for b c
    using that by (auto simp: formatting_byte_def)
  have form: "pairs ! i \<Longrightarrow> formatting_byte (hd ch)"
    using pairs at(1,4) by (auto simp: pairs_ok_def)
  show ?thesis
    using st anchor marker [OF constrained] pair macro rejected form
    unfolding p s scan_position_def scan_ok_def Let_def prod.case
    by (auto simp: paired_def simp del: candidate_ok.simps split: if_split)
qed

lemma scan_positions_ok:
  "valid_utf8 value \<Longrightarrow> pairs_ok value (length value) pairs \<Longrightarrow> set ps \<subseteq> set (char_indices value) \<Longrightarrow>
     scan_ok value pairs st \<Longrightarrow> scan_ok value pairs (fold (scan_position alnum value pairs) ps st)"
  by (induction ps arbitrary: st) (simp_all add: scan_position_ok)

text \<open>The closers seen from the end: each is good for the openers still to come.\<close>

definition closing_at :: "str \<Rightarrow> bool list \<Rightarrow> char \<times> MarkerForm \<Rightarrow> nat \<Rightarrow> bool" where
  "closing_at value pairs opener close \<longleftrightarrow>
     close < length value
     \<and> (case snd opener of
          Constrained \<Rightarrow> value ! close \<in> set ''`*_#}^~''
        | Unconstrained \<Rightarrow> pairs ! close)"

definition closers_ok ::
    "str \<Rightarrow> bool list \<Rightarrow> (nat \<rightharpoonup> char \<times> MarkerForm) \<Rightarrow> nat \<Rightarrow> (nat \<Rightarrow> nat option) \<times> closers \<Rightarrow> bool" where
  "closers_ok value pairs openers bound st \<longleftrightarrow>
     (\<forall>i close. fst st i = Some close \<longrightarrow>
        (\<exists>opener. openers i = Some opener \<and> i < close \<and> closing_at value pairs opener close))
     \<and> (\<forall>opener close. snd st opener = Some close \<longrightarrow> bound \<le> close \<and> closing_at value pairs opener close)"

lemma closer_step_ok:
  assumes "(i, ch) \<in> set (char_indices value)" "closers_ok value pairs openers bound st" "i < bound"
  shows "closers_ok value pairs openers i (closer_step alnum value pairs openers (i, ch) st)"
proof -
  obtain closer_at last where s: "st = (closer_at, last)" by (cases st)
  note at = char_indices_at [OF assms(1)]
  have con: "closing_at value pairs (m, Constrained) i" if "hd ch \<in> set ''`*_#}^~''" for m
    using that at(1,4) by (auto simp: closing_at_def)
  have unc: "closing_at value pairs (m, Unconstrained) i" if "pairs ! i" for m
    using that at(1) by (simp add: closing_at_def)
  obtain closer_at' last' where r: "closer_step alnum value pairs openers (i, ch) st = (closer_at', last')"
    by (cases "closer_step alnum value pairs openers (i, ch) st")
  have c: "closer_at' = (case openers i of None \<Rightarrow> closer_at | Some opener \<Rightarrow> closer_at(i := last opener))"
    using r by (simp add: closer_step_def s Let_def)
  have last: "last opener = Some close \<or> close = i \<and> closing_at value pairs opener i"
    if "last' opener = Some close" for opener close
  proof -
    let ?l1 = "if pairs ! i \<and> formatting_byte (hd ch) then last((hd ch, Unconstrained) \<mapsto> i) else last"
    have "last' opener = Some close \<Longrightarrow> ?l1 opener = Some close \<or> close = i \<and> (\<exists>m. opener = (m, Constrained))
        \<and> hd ch \<in> set ''`*_#}^~''"
      using r unfolding closer_step_def s Let_def prod.case
      by (simp only: prod.inject, elim conjE, hypsubst)
        (auto simp: formatting_byte_iff split: if_splits)
    with that con unc show ?thesis by (auto split: if_splits)
  qed
  have old: "\<exists>opener. openers j = Some opener \<and> j < close \<and> closing_at value pairs opener close"
    if "closer_at j = Some close" for j close
    using assms(2) that unfolding closers_ok_def s by simp
  have old_last: "bound \<le> close \<and> closing_at value pairs opener close" if "last opener = Some close" for opener close
    using assms(2) that unfolding closers_ok_def s by (cases opener) simp
  show ?thesis
    unfolding r closers_ok_def fst_conv snd_conv
  proof (intro conjI allI impI)
    fix j close assume j: "closer_at' j = Some close"
    show "\<exists>opener. openers j = Some opener \<and> j < close \<and> closing_at value pairs opener close"
    proof (cases "openers i")
      case None
      with j c old show ?thesis by simp
    next
      case (Some opener)
      with j c old [of j close] old_last [of opener close] assms(3) show ?thesis
        by (cases "j = i") auto
    qed
  next
    fix opener close assume "last' opener = Some close"
    from last [OF this] old_last [of opener close] assms(3)
    show "i \<le> close" "closing_at value pairs opener close" by auto
  qed
qed

lemma closer_steps_ok:
  "sorted_wrt (\<lambda>a b. fst b < fst a) ps \<Longrightarrow> set ps \<subseteq> set (char_indices value) \<Longrightarrow>
     \<forall>p \<in> set ps. fst p < bound \<Longrightarrow> closers_ok value pairs openers bound st \<Longrightarrow>
     \<exists>bound. closers_ok value pairs openers bound (fold (closer_step alnum value pairs openers) ps st)"
proof (induction ps arbitrary: st bound)
  case (Cons p ps)
  obtain i ch where p: "p = (i, ch)" by (cases p)
  have "closers_ok value pairs openers i (closer_step alnum value pairs openers (i, ch) st)"
    using Cons.prems p by (intro closer_step_ok) auto
  from Cons.IH [OF _ _ _ this] Cons.prems(1,2) p show ?case by simp
qed auto

text \<open>What the closers are looked up for, as an alist-like fold over the candidates.\<close>

lemma opener_map_candidate:
  assumes "opener_map cs i = Some (marker, form)"
  shows "\<exists>close. MarkerCandidate i marker form close \<in> set cs"
proof -
  have "\<exists>close. MarkerCandidate i marker form close \<in> set cs"
    if "fold (\<lambda>c m. case c of MarkerCandidate open marker form _ \<Rightarrow> m(open \<mapsto> (marker, form)) | _ \<Rightarrow> m) cs m i
        = Some (marker, form)" "m i \<noteq> Some (marker, form)" for m :: "nat \<rightharpoonup> char \<times> MarkerForm"
    using that
  proof (induction cs arbitrary: m)
    case (Cons c cs)
    let ?m = "case c of MarkerCandidate open marker form _ \<Rightarrow> m(open \<mapsto> (marker, form)) | _ \<Rightarrow> m"
    show ?case
    proof (cases "?m i = Some (marker, form)")
      case True
      with Cons.prems(2) have "\<exists>close. c = MarkerCandidate i marker form close"
        by (auto split: InlineCandidate.splits if_splits)
      then show ?thesis by auto
    next
      case False
      with Cons.IH [of ?m] Cons.prems(1) show ?thesis by auto
    qed
  qed simp
  from this [of Map.empty] assms show ?thesis by (simp add: opener_map_def)
qed

lemma closing_closer:
  assumes "valid_utf8 value" "pairs_ok value (length value) pairs"
    and "marker_at value i marker form" "closing_at value pairs (m, form) close" "i < close"
    and "form = Unconstrained \<Longrightarrow> pairs ! i"
  shows "closer_ok value i form close"
proof (cases form)
  case Constrained
  with assms(4) have c: "close < length value" "value ! close \<in> set ''`*_#}^~''"
    by (auto simp: closing_at_def)
  then have "byte_val (value ! close) < 128" by auto
  with ascii_at [OF assms(1) c(1) refl] c assms(5) Constrained show ?thesis
    by (auto simp: closer_ok_def form_width_def)
next
  case Unconstrained
  with assms(4) have c: "close < length value" "pairs ! close" by (auto simp: closing_at_def)
  with assms(2) have d: "close + 1 < length value" "formatting_byte (value ! close)"
    "value ! (close + 1) = value ! close" by (auto simp: pairs_ok_def)
  have "\<not> pairs ! (i + 1)" using assms(2,5,6) c(1) Unconstrained by (auto simp: pairs_ok_def)
  with c(2) assms(5) have "i + 2 \<le> close" by (cases "close = i + 1") auto
  moreover have "byte_val (value ! close) < 128" "value ! close \<noteq> backslash"
    using d(2) by (auto simp: formatting_byte_def)
  ultimately show ?thesis
    using ascii_at(1) [OF assms(1) c(1) refl] ascii_at(2) [OF assms(1) d(1,3)] d Unconstrained
    by (simp add: closer_ok_def form_width_def)
qed

lemma index_marker_closers_ok:
  assumes v: "valid_utf8 value" and pairs: "pairs_ok value (length value) pairs"
    and cs: "list_all (\<lambda>c. candidate_ok value c \<and> paired pairs c) cs"
  shows "list_all (candidate_ok value) (index_marker_closers alnum value pairs cs)"
proof -
  let ?openers = "opener_map cs"
  obtain closer_at last where f: "fold (closer_step alnum value pairs ?openers) (rev (char_indices value))
      (\<lambda>_. None, Map.empty) = (closer_at, last)" by (meson surj_pair)
  have "\<exists>bound. closers_ok value pairs ?openers bound (fold (closer_step alnum value pairs ?openers)
      (rev (char_indices value)) (\<lambda>_. None, Map.empty))"
  proof (rule closer_steps_ok)
    show "sorted_wrt (\<lambda>a b. fst b < fst a) (rev (char_indices value))"
      using char_indices_sorted [of "value"] by (simp add: sorted_wrt_rev)
    show "set (rev (char_indices value)) \<subseteq> set (char_indices value)" by simp
    show "\<forall>p \<in> set (rev (char_indices value)). fst p < length value"
    proof
      fix p assume "p \<in> set (rev (char_indices value))"
      then have "(fst p, snd p) \<in> set (char_indices value)" by simp
      from char_indices_at(1) [OF this] show "fst p < length value" .
    qed
    show "closers_ok value pairs ?openers (length value) (\<lambda>_. None, Map.empty)"
      by (simp add: closers_ok_def)
  qed
  then obtain bound where "closers_ok value pairs ?openers bound (closer_at, last)" unfolding f ..
  then have closing: "\<exists>opener. ?openers i = Some opener \<and> i < close \<and> closing_at value pairs opener close"
    if "closer_at i = Some close" for i close
    using that by (simp add: closers_ok_def)
  have "candidate_ok value (MarkerCandidate i marker form (closer_at i))"
    if c: "MarkerCandidate i marker form close \<in> set cs" for i marker form close
  proof (cases "closer_at i")
    case None
    with cs c show ?thesis by (auto simp: list_all_iff)
  next
    case (Some stop)
    from closing [OF this] obtain m f where o: "?openers i = Some (m, f)" "i < stop"
      "closing_at value pairs (m, f) stop" by auto
    from opener_map_candidate [OF o(1)] obtain close' where c': "MarkerCandidate i m f close' \<in> set cs" ..
    have "candidate_ok value (MarkerCandidate i marker form close) \<and> paired pairs (MarkerCandidate i marker form close)"
      using cs c unfolding list_all_iff by (rule bspec)
    then have at: "marker_at value i marker form" and form: "form = Unconstrained \<longleftrightarrow> pairs ! i"
      by (simp_all add: paired_def)
    have "candidate_ok value (MarkerCandidate i m f close') \<and> paired pairs (MarkerCandidate i m f close')"
      using cs c' unfolding list_all_iff by (rule bspec)
    then have at': "marker_at value i m f" and form': "f = Unconstrained \<longleftrightarrow> pairs ! i"
      by (simp_all add: paired_def)
    have "f = form" using form form' by (cases f; cases form) simp_all
    moreover have "m = marker" using at at' by (simp add: marker_at_def)
    ultimately have "closer_ok value i form stop"
      using closing_closer [OF v pairs at _ o(2)] o(3) form by simp
    with at Some show ?thesis by simp
  qed
  then show ?thesis
    using cs unfolding index_marker_closers_def f Let_def prod.case
    by (auto simp: list_all_iff split: InlineCandidate.splits)
qed

section \<open>The whole index\<close>

lemma unmarked_scan: "unmarked value c \<Longrightarrow> candidate_ok value c \<and> paired pairs c"
  by (cases c) (auto simp: unmarked_def paired_def)

lemma candidate_index_ok:
  assumes v: "valid_utf8 value" and len: "length value < u32_max"
  shows "\<exists>cs. candidate_index alnum value = Inr cs \<and> list_all (candidate_ok value) cs"
proof -
  let ?pairs = "index_unconstrained_pairs value"
  obtain cs1 m1 where p1: "preparsed_candidates alnum value = (cs1, m1)" by fastforce
  obtain cs2 m2 where p2: "monospace_loop alnum value 0 None cs1 m1 = (cs2, m2)" by fastforce
  obtain cs3 m3 rej where p3: "fold (scan_position alnum value ?pairs) (char_indices value) (cs2, m2, [])
      = (cs3, m3, rej)" using prod_cases3 by blast
  have "list_all (unmarked value) cs1"
    using preparsed_loop_ok [OF v, of "[]" alnum 0 "replicate (length value + 1) False"]
      p1 [unfolded preparsed_candidates_def] by simp
  from monospace_loop_ok [where pending = None and cursor = 0, OF _ this, of alnum m1] p2 have "list_all (unmarked value) cs2" by simp
  then have "list_all (\<lambda>c. candidate_ok value c \<and> paired ?pairs c) cs2"
    by (rule list.pred_mono_strong) (rule unmarked_scan)
  then have "scan_ok value ?pairs (cs2, m2, [])" by (simp add: scan_ok_def)
  from scan_positions_ok [OF v unconstrained_pairs_ok subset_refl this, of alnum] p3
  have ok: "scan_ok value ?pairs (cs3, m3, rej)" by simp
  then have "list_all (\<lambda>c. candidate_ok value c \<and> paired ?pairs c) cs3" by (simp add: scan_ok_def)
  from index_marker_closers_ok [OF v unconstrained_pairs_ok this, of alnum]
  have "list_all (candidate_ok value) (index_marker_closers alnum value ?pairs cs3)" .
  moreover have "list_all (candidate_ok value) (map MacroBoundaryCandidate rej)"
    using ok by (simp add: scan_ok_def list_all_iff del: candidate_ok.simps)
  ultimately have "list_all (candidate_ok value) (sort_key candidate_open
      (index_marker_closers alnum value ?pairs cs3 @ map MacroBoundaryCandidate rej))"
    by (auto simp: list_all_iff simp del: candidate_ok.simps)
  with len p1 p2 p3 show ?thesis by (simp add: candidate_index_def Let_def)
qed

end
