(* ===== verification/Inline_Recognition.thy ===== *)
theory Inline_Recognition
  imports Inline_Candidates
begin

text \<open>
  What recognition makes of a good candidate: a token whose offsets are ordered, at boundaries
  and inside the fragment, or a next offset to go on at. So the assertion that every recognition
  carries in debug builds never fails.
\<close>

section \<open>Where delimiters are found\<close>

lemma boundary_drop:
  assumes "char_boundary s i" "char_boundary (drop i s) k"
  shows "char_boundary s (i + k)"
proof -
  have i: "i \<le> length s" using assms(1) by (rule char_boundary_le)
  from assms(2) consider "k = 0" | "k = length s - i" | "k < length s - i" "\<not> is_continuation (drop i s ! k)"
    by (auto simp: char_boundary_def)
  then show ?thesis
  proof cases
    case 3
    then show ?thesis by (simp add: char_boundary_def add_less_le_mono less_diff_conv add.commute [of i])
  qed (use assms(1) i in simp_all)
qed

lemma byte_found:
  assumes "valid_utf8 s" "i < length s" "s ! i = b" "byte_val b < 128"
  shows "char_boundary s i \<and> char_boundary s (Suc i) \<and> Suc i \<le> length s"
  using ascii_at [OF assms] assms(2) by simp

lemma starts_single: "starts_with (drop i s) [b] \<longleftrightarrow> i < length s \<and> s ! i = b"
  by (cases "i < length s") (auto simp: starts_with_def simp flip: Cons_nth_drop_Suc)

lemma bracket_found:
  assumes "valid_utf8 s" "i \<le> length s"
  shows "close_bracket_from s i = Some k \<Longrightarrow>
      i \<le> k \<and> Suc k \<le> length s \<and> s ! k = CHR '']'' \<and> char_boundary s k \<and> char_boundary s (Suc k)"
    and "open_bracket_from s i = Some k \<Longrightarrow>
      i \<le> k \<and> Suc k \<le> length s \<and> s ! k = CHR ''['' \<and> char_boundary s k \<and> char_boundary s (Suc k)"
  using assms(2) byte_found [OF assms(1), of k]
  by (auto simp: DelimiterIndex_new_def starts_single dest!: next_index_Some [rotated])

lemma double_greater_found:
  assumes "valid_utf8 s" "i \<le> length s" "double_greater_from s i = Some k"
  shows "i \<le> k \<and> k + 2 \<le> length s \<and> s ! (k + 1) = CHR ''>'' \<and> char_boundary s k \<and> char_boundary s (k + 2)"
proof -
  from assms(2,3) have k: "i \<le> k" "k < length s" "starts_with (drop k s) ''>>''"
    by (auto simp: DelimiterIndex_new_def dest!: next_index_Some [rotated])
  from starts_with_drop_nth [OF k(3), of 0] starts_with_drop_nth [OF k(3), of 1]
  have b: "s ! k = CHR ''>''" "s ! (k + 1) = CHR ''>''" "k + 1 < length s" by simp_all
  with byte_found [OF assms(1) k(2)] byte_found [OF assms(1) b(3)] k(1) show ?thesis by simp
qed

lemma find_str_Some: "find_str p s = Some i \<Longrightarrow> i + length p \<le> length s \<and> starts_with (drop i s) p"
proof (induction s arbitrary: i)
  case (Cons b s)
  then show ?case by (auto split: if_splits dest: starts_with_length)
qed (simp split: if_splits add: starts_with_def)

text \<open>The end of a delimiter found by \<open>find\<close> in the rest after \<open>i\<close>.\<close>

lemma find_str_found:
  assumes "valid_utf8 s" "i \<le> length s" "find_str p (drop i s) = Some k"
    and "list_all (\<lambda>b. byte_val b < 128) p" "p \<noteq> []"
  shows "i + k + length p \<le> length s" "char_boundary s (i + k)" "char_boundary s (i + k + length p)"
    and "s ! (i + k + length p - 1) = last p"
proof -
  from find_str_Some [OF assms(3)] assms(2)
  have k: "i + k + length p \<le> length s" "starts_with (drop (i + k) s) p" by (auto simp: add.commute)
  then show "i + k + length p \<le> length s" by simp
  have n: "length p - 1 < length p" "0 < length p" using assms(5) by simp_all
  from starts_with_drop_nth [OF k(2) n(2)] assms(4) n(2)
  show "char_boundary s (i + k)" by (auto intro!: boundary_ascii simp: list_all_length)
  from ascii_string_boundary [OF assms(1) k(2) assms(4) n(2)]
  show "char_boundary s (i + k + length p)" by simp
  from starts_with_drop_nth(1) [OF k(2) n(1)] n
  show "s ! (i + k + length p - 1) = last p" by (simp add: last_conv_nth assms(5))
qed

lemma find_char_found:
  assumes "valid_utf8 s" "a \<le> b" "b \<le> length s" "find_char c (slice s a b) = Some k" "byte_val c < 128"
  shows "a + k < b" "char_boundary s (a + k)" "char_boundary s (Suc (a + k))" "s ! (a + k) = c"
proof -
  from assms(4) have "k < length (slice s a b)" "slice s a b ! k = c" by (simp_all add: find_char_Some)
  with assms(2,3) have k: "k < b - a" "s ! (a + k) = c" by (simp_all add: length_slice slice_def)
  then show "a + k < b" "s ! (a + k) = c" by simp_all
  from byte_found [OF assms(1) _ k(2) assms(5)] k(1) assms(3)
  show "char_boundary s (a + k)" "char_boundary s (Suc (a + k))" by simp_all
qed

lemma footnote_loop_found:
  assumes "valid_utf8 s"
  shows "start \<le> cursor \<Longrightarrow> (case first of None \<Rightarrow> True | Some c \<Rightarrow> start \<le> c \<and> c < length s \<and> s ! c = CHR '']'') \<Longrightarrow>
     footnote_loop s cursor depth first = Some k \<Longrightarrow> start \<le> k \<and> k < length s \<and> s ! k = CHR '']''"
proof (induction s cursor depth first rule: footnote_loop.induct)
  case (1 s cursor depth first)
  show ?case
  proof (cases "length s < cursor")
    case True
    with "1.prems" show ?thesis by (simp add: footnote_loop.simps [of s cursor])
  next
    case len: False
    show ?thesis
    proof (cases "close_bracket_from s cursor")
      case None
      with "1.prems" len show ?thesis by (simp add: footnote_loop.simps [of s cursor])
    next
      case (Some close)
      have c: "cursor \<le> close" "close < length s" "s ! close = CHR '']''"
        using Some len by (auto simp: DelimiterIndex_new_def starts_single dest!: next_index_Some [rotated])
      have o: "open_bracket_from s cursor = Some j \<Longrightarrow> cursor \<le> j" for j
        using len by (auto simp: DelimiterIndex_new_def dest!: next_index_Some [rotated])
      have first': "(case (case first of None \<Rightarrow> Some close | Some c \<Rightarrow> Some c) of None \<Rightarrow> True
          | Some c \<Rightarrow> start \<le> c \<and> c < length s \<and> s ! c = CHR '']'')"
        using "1.prems"(1,2) c by (cases first) simp_all
      note step = "1.prems"(3) [unfolded footnote_loop.simps [of s cursor], simplified len Some option.case if_False]
      show ?thesis
      proof (cases "open_bracket_from s cursor")
        case none: None
        with step "1.IH"(1,2) [OF len Some none] "1.prems"(1,2) first' c show ?thesis
          by (auto split: if_splits)
      next
        case (Some j)
        with step "1.IH"(3,4,5) [OF len \<open>close_bracket_from s cursor = Some close\<close> Some] "1.prems"(1,2) first' c o
        show ?thesis by (auto split: if_splits)
      qed
    qed
  qed
qed

lemma footnote_close_found:
  assumes "valid_utf8 s" "footnote_close s i = Some k"
  shows "i \<le> k \<and> Suc k \<le> length s \<and> s ! k = CHR '']'' \<and> char_boundary s k \<and> char_boundary s (Suc k)"
  using footnote_loop_found [OF assms(1), of i i None 0 k] assms byte_found [OF assms(1), of k]
  by (auto simp: footnote_close_def)

section \<open>Names and addresses\<close>

lemma ascii_case_prefix:
  assumes "starts_ascii_case_insensitive (drop i s) p" "char_boundary s i"
  shows "i + length p \<le> length s \<and> char_boundary s (i + length p)"
proof -
  from assms(1) have "length p \<le> length (drop i s)" "char_boundary (drop i s) (length p)"
    by (auto simp: starts_ascii_case_insensitive_def str_get_def split: option.splits if_splits)
  with boundary_drop [OF assms(2)] char_boundary_le [OF assms(2)] show ?thesis by simp
qed

fun prefix_width :: "NamedMacroPrefix \<Rightarrow> nat" where
  "prefix_width (FormulaPrefix n _) = n"
| "prefix_width (PassthroughPrefix n) = n"
| "prefix_width (XrefPrefix n) = n"
| "prefix_width (LinkPrefix n) = n"
| "prefix_width (StandardPrefix _ _ n) = n"

lemma find_map_prefix_Some:
  "find_map_prefix s ps = Some (kind, form, n) \<Longrightarrow>
     \<exists>p. (p, kind, form) \<in> set ps \<and> n = length p \<and> starts_ascii_case_insensitive s p"
  by (induction ps) (auto split: if_splits)

lemma standard_prefixes_long: "(p, kind, form) \<in> set PREFIXES \<Longrightarrow> 4 \<le> length p"
  by (auto simp: PREFIXES_def)

lemma named_prefix_at:
  assumes "named_macro_prefix s = Some p"
  shows "\<exists>w. prefix_width p = length w \<and> 4 \<le> length w \<and> starts_ascii_case_insensitive s w"
proof -
  have standard: "\<exists>w. n = length w \<and> 4 \<le> length w \<and> starts_ascii_case_insensitive s w"
    if "standard_macro_prefix s = Some (kind, form, n)" for kind form n
    using find_map_prefix_Some [OF that [unfolded standard_macro_prefix_def]] standard_prefixes_long by blast
  show ?thesis
    using assms standard unfolding named_macro_prefix_def
    by (auto split: if_splits intro: exI [of _ "''stem:[''"] exI [of _ "''latexmath:[''"]
        exI [of _ "''asciimath:[''"] exI [of _ "''pass:[''"] exI [of _ "''xref:''"] exI [of _ "''link:''"])
qed

lemma named_prefix_width:
  assumes "named_macro_prefix (drop i s) = Some p" "char_boundary s i"
  shows "4 \<le> prefix_width p \<and> i + prefix_width p \<le> length s \<and> char_boundary s (i + prefix_width p)"
  using named_prefix_at [OF assms(1)] ascii_case_prefix [OF _ assms(2)] by metis

lemma trim_final_dots_le: "trim_final_dots s n \<le> n"
  by (induction n) (simp_all add: le_SucI)

lemma ascii_domain_byte: "is_ascii_alphanumeric b \<or> List.member ''.-'' b \<Longrightarrow> byte_val b < 128"
  by (auto simp: is_ascii_alphanumeric_def is_ascii_alphabetic_def is_ascii_upper_def is_ascii_lower_def
      is_ascii_digit_def in_byte_range_def)

text \<open>An address ends after an ASCII letter, digit or sign that is no backslash.\<close>

lemma email_found:
  assumes "valid_utf8 s" "char_boundary s i" "email_address_end (drop i s) = Some k"
  shows "0 < k \<and> i + k \<le> length s \<and> char_boundary s (i + k) \<and> s ! (i + k - 1) \<noteq> backslash"
proof -
  let ?r = "drop i s"
  have i: "i \<le> length s" using assms(2) by (rule char_boundary_le)
  let ?p = "\<lambda>b. \<not> (is_ascii_alphanumeric b \<or> List.member ''.-'' b)"
  from assms(3) obtain at where at: "find_if (\<lambda>b. \<not> email_local_part_byte b) ?r = Some at"
    "?r ! at = CHR ''@''" "at \<noteq> 0" "at < length ?r"
    by (auto simp: email_address_end_def find_if_Some split: option.splits if_splits)
  define e where "e = (case find_if ?p (drop (at + 1) ?r) of None \<Rightarrow> length ?r | Some offset \<Rightarrow> at + 1 + offset)"
  have k: "k = trim_final_dots ?r e" and dot: "CHR ''.'' \<in> set (slice ?r (at + 1) k)"
    using assms(3) at by (auto simp: email_address_end_def Let_def e_def split: if_splits)
  have e: "at + 1 \<le> e \<and> e \<le> length ?r \<and> (\<forall>j. at + 1 \<le> j \<and> j < e \<longrightarrow> \<not> ?p (?r ! j))"
  proof (cases "find_if ?p (drop (at + 1) ?r)")
    case None
    then have "\<forall>b \<in> set (drop (at + 1) ?r). \<not> ?p b" by (simp only: find_if_None)
    then have "\<not> ?p (?r ! j)" if "at + 1 \<le> j" "j < length ?r" for j
      using nth_mem [of "j - (at + 1)" "drop (at + 1) ?r"] that by fastforce
    with None at(4) show ?thesis by (simp add: e_def)
  next
    case (Some o')
    from Some [unfolded find_if_Some] have o': "o' < length (drop (at + 1) ?r)"
      "\<forall>j < o'. \<not> ?p (drop (at + 1) ?r ! j)" by simp_all
    have "\<not> ?p (?r ! j)" if "at + 1 \<le> j" "j < at + 1 + o'" for j
      using o' that by (auto dest: spec [of _ "j - (at + 1)"])
    with Some o'(1) show ?thesis by (simp add: e_def)
  qed
  have "k \<le> e" unfolding k by (rule trim_final_dots_le)
  moreover have "at + 1 < k"
  proof (rule ccontr)
    assume "\<not> at + 1 < k"
    then have "slice ?r (at + 1) k = []" by (simp add: slice_def)
    with dot show False by simp
  qed
  ultimately have k': "at + 1 \<le> k - 1" "k - 1 < e" "0 < k" "k \<le> length ?r" using e by simp_all
  then have "\<not> ?p (?r ! (k - 1))" using e by blast
  with k' have last: "k \<le> length ?r" "\<not> ?p (?r ! (k - 1))" "0 < k" by blast+
  then have lt: "i + (k - 1) < length s" "s ! (i + (k - 1)) = ?r ! (k - 1)" using i by auto
  with byte_found [OF assms(1) lt(1) refl] ascii_domain_byte [of "?r ! (k - 1)"] last
  have "char_boundary s (Suc (i + (k - 1)))" by simp
  moreover have "?r ! (k - 1) \<noteq> backslash"
    using last(2) by (auto simp: is_ascii_alphanumeric_def is_ascii_alphabetic_def is_ascii_upper_def
        is_ascii_lower_def is_ascii_digit_def in_byte_range_def)
  ultimately show ?thesis using last lt i by simp
qed

lemma scheme_found:
  assumes "valid_utf8 s" "char_boundary s i" "url_scheme_end (drop i s) = Some k"
  shows "0 < k \<and> i + k \<le> length s \<and> char_boundary s (i + k)"
proof -
  from assms(3) obtain colon where c: "find_if (\<lambda>b. b = CHR '':'' \<or> \<not> scheme_byte b) (drop i s) = Some colon"
    "drop i s ! colon = CHR '':''" "k = colon + 1"
    by (auto simp: url_scheme_end_def Let_def split: option.splits if_splits)
  then have "colon < length s - i" by (simp add: find_if_Some)
  with byte_found [OF assms(1), of "i + colon" "CHR '':''"] c show ?thesis by simp
qed

section \<open>Where a URL ends\<close>

lemma url_index_hd:
  "bound = offset + length (concat cs) \<Longrightarrow>
     \<exists>p q. cs = p @ q \<and> hd (url_index bound offset cs) = offset + length (concat p)
       \<and> (q \<noteq> [] \<longrightarrow> hd q = ''['' \<or> is_whitespace (hd q))"
proof (induction cs arbitrary: offset)
  case (Cons ch cs)
  show ?case
  proof (cases "ch = ''['' \<or> is_whitespace ch")
    case True
    then show ?thesis by (intro exI [of _ "[]"] exI [of _ "ch # cs"]) (auto simp: Let_def)
  next
    case False
    have "bound = (offset + length ch) + length (concat cs)" using Cons.prems by simp
    from Cons.IH [OF this] obtain p q where
      "cs = p @ q" "hd (url_index bound (offset + length ch) cs) = offset + length ch + length (concat p)"
      "q \<noteq> [] \<longrightarrow> hd q = ''['' \<or> is_whitespace (hd q)" by blast
    with False show ?thesis by (intro exI [of _ "ch # p"] exI [of _ q]) (simp add: Let_def)
  qed
qed simp

lemma url_index_nonempty [simp]: "url_index bound offset cs \<noteq> []"
  by (cases cs) (simp_all add: Let_def)

lemma url_index_nth:
  "\<forall>ch \<in> set (p @ q). ch \<noteq> [] \<Longrightarrow>
     url_index bound offset (p @ q) ! length (concat p) = hd (url_index bound (offset + length (concat p)) q)"
proof (induction p arbitrary: offset)
  case Nil
  then show ?case by (simp add: hd_conv_nth)
next
  case (Cons ch p)
  then have "0 < length ch" by simp
  then obtain n where n: "length ch = Suc n" by (cases "length ch") auto
  have "url_index bound offset ((ch # p) @ q) ! length (concat (ch # p))
      = url_index bound (offset + length ch) (p @ q) ! length (concat p)"
    by (simp add: Let_def n nth_append)
  with Cons show ?case by (simp add: add.assoc)
qed

lemma url_stop:
  assumes "valid_utf8 s" "char_boundary s i"
  shows "\<exists>m. UrlCandidateIndex_new s ! i = m \<and> i \<le> m \<and> m \<le> length s \<and> char_boundary s m
     \<and> (m < length s \<longrightarrow> s ! m = CHR ''['' \<or> is_whitespace (hd (chars (drop m s))))"
proof -
  obtain k where k: "k \<le> length (chars s)" "i = char_offset s k"
    using char_boundary_offset [OF assms] by blast
  let ?p = "take k (chars s)" and ?q = "drop k (chars s)"
  have nonempty: "\<forall>ch \<in> set (?p @ ?q). ch \<noteq> []" using chars_nonempty by auto
  have i: "length (concat ?p) = i" using k(2) by (simp add: char_offset_def)
  have split: "length (concat ?p) + length (concat ?q) = length s"
    by (metis append_take_drop_id concat_append concat_chars length_append)
  have at: "UrlCandidateIndex_new s ! i = hd (url_index (length s) i ?q)"
    using url_index_nth [OF nonempty, of "length s" 0] i by (simp add: UrlCandidateIndex_new_def)
  have "length s = i + length (concat ?q)" using split i by simp
  from url_index_hd [OF this] obtain p q where
    q: "?q = p @ q" "hd (url_index (length s) i ?q) = i + length (concat p)"
    "q \<noteq> [] \<longrightarrow> hd q = ''['' \<or> is_whitespace (hd q)" by blast
  let ?m = "i + length (concat p)"
  define pre where "pre = ?p @ p"
  have cs: "chars s = pre @ q" unfolding pre_def using q(1) by (metis append.assoc append_take_drop_id)
  have pre: "length (concat pre) = ?m" using i by (simp add: pre_def)
  then have m: "?m = char_offset s (length pre)" by (simp add: char_offset_def cs)
  have "chars (drop ?m s) = q" unfolding m chars_drop_offset by (simp add: cs)
  then have "drop ?m s = concat q" by (metis concat_chars)
  then have "?m < length s \<Longrightarrow> s ! ?m = CHR ''['' \<or> is_whitespace (hd (chars (drop ?m s)))"
    using q(3) \<open>chars (drop ?m s) = q\<close> by (cases q) (auto simp flip: hd_drop_conv_nth)
  moreover have "?m \<le> length s" using char_offset_le [of s] m by simp
  moreover have "char_boundary s ?m" unfolding m by (rule char_offset_boundary [OF assms(1)])
  ultimately show ?thesis using at q(2) by auto
qed

text \<open>Final punctuation is taken off byte by byte.\<close>

lemma previous_char_ascii:
  assumes "valid_utf8 s" "char_boundary s (Suc n)" "previous_char s (Suc n) = Some [b]"
  shows "n < length s \<and> s ! n = b"
proof -
  have n: "Suc n \<le> length s" using assms(2) by (rule char_boundary_le)
  have "concat (chars (take (Suc n) s)) = take (Suc n) s" by simp
  moreover have "rev (chars (take (Suc n) s)) = [b] # tl (rev (chars (take (Suc n) s)))"
    using assms(3) by (simp add: previous_char_def split: list.splits)
  then have "chars (take (Suc n) s) = rev (tl (rev (chars (take (Suc n) s)))) @ [[b]]"
    by (metis rev.simps(2) rev_rev_ident)
  ultimately have "take (Suc n) s = concat (rev (tl (rev (chars (take (Suc n) s))))) @ [b]"
    by (metis concat.simps concat_append append_Nil2)
  then have "last (take (Suc n) s) = b" by (metis last_snoc)
  with n show ?thesis by (simp add: take_Suc_conv_app_nth)
qed

lemma trim_url_end_ok:
  assumes "valid_utf8 s"
  shows "char_boundary s n \<Longrightarrow> trim_url_end s i n \<le> n \<and> char_boundary s (trim_url_end s i n)
    \<and> (\<forall>j. trim_url_end s i n \<le> j \<and> j < n \<longrightarrow> j < length s \<and> s ! j \<in> set ''.,;'')"
proof (induction n)
  case (Suc n)
  show ?case
  proof (cases "i < Suc n \<and> previous_char s (Suc n) \<in> {Some ''.'', Some '','', Some '';''}")
    case True
    then have at: "n < length s" "s ! n \<in> set ''.,;''"
      using previous_char_ascii [OF assms Suc.prems] by auto
    then have "char_boundary s n" by (intro boundary_ascii) auto
    with Suc.IH True at show ?thesis by (auto simp: less_Suc_eq)
  next
    case False
    with Suc.prems show ?thesis by auto
  qed
qed simp

section \<open>Good tokens\<close>

text \<open>
  The parser takes the backslash in front of a candidate for an escape. A token may end after a
  backslash only where no candidate that could be escaped begins.
\<close>

definition quiet :: "str \<Rightarrow> nat \<Rightarrow> bool" where
  "quiet value p \<longleftrightarrow> p < length value \<longrightarrow>
     value ! p \<noteq> backslash \<and> value ! p \<notin> set ''`*_#{^~'' \<and> \<not> macro_opening value p"

definition clean_end :: "str \<Rightarrow> nat \<Rightarrow> bool" where
  "clean_end value p \<longleftrightarrow> p = 0 \<or> value ! (p - 1) \<noteq> backslash \<or> quiet value p"

fun macro_token_ok :: "str \<Rightarrow> MacroToken \<Rightarrow> bool" where
  "macro_token_ok v (FormulaToken open a b stop _ _) \<longleftrightarrow>
     open + 2 \<le> a \<and> a \<le> b \<and> b \<le> stop \<and> list_all (char_boundary v) [open, a, b, stop]"
| "macro_token_ok v (ShortReferenceToken open a b stop) \<longleftrightarrow>
     open + 2 \<le> a \<and> a \<le> b \<and> b < stop \<and> list_all (char_boundary v) [open, a, b, stop]"
| "macro_token_ok v (XrefToken open a k b stop) \<longleftrightarrow>
     open + 2 \<le> a \<and> a \<le> k \<and> k < b \<and> b < stop \<and> list_all (char_boundary v) [open, a, k, k + 1, b, stop]"
| "macro_token_ok v (ExplicitLinkToken open a k b stop) \<longleftrightarrow>
     open + 2 \<le> a \<and> a \<le> k \<and> k < b \<and> b < stop \<and> list_all (char_boundary v) [open, a, k, k + 1, b, stop]"
| "macro_token_ok v (StandardMacroToken _ _ open a k b stop) \<longleftrightarrow>
     open + 2 \<le> a \<and> a \<le> k \<and> k < b \<and> b < stop \<and> list_all (char_boundary v) [open, a, k, k + 1, b, stop]"
| "macro_token_ok v (UrlLinkToken open b label stop) \<longleftrightarrow>
     open < b \<and> list_all (char_boundary v) [open, b, stop]
     \<and> (case label of None \<Rightarrow> stop = b
        | Some (x, y) \<Rightarrow> b < x \<and> x \<le> y \<and> y < stop \<and> char_boundary v x \<and> char_boundary v y)"
| "macro_token_ok v (PassthroughMacroToken open a b stop) \<longleftrightarrow>
     open + 2 \<le> a \<and> a \<le> b \<and> b < stop \<and> list_all (char_boundary v) [open, a, b, stop]"
| "macro_token_ok v (ShorthandAnchorToken _ open a b label stop) \<longleftrightarrow>
     open + 2 \<le> a \<and> a \<le> b \<and> b < stop \<and> list_all (char_boundary v) [open, a, b, stop]
     \<and> (case label of None \<Rightarrow> True
        | Some (x, y) \<Rightarrow> b < x \<and> x \<le> y \<and> y < stop \<and> char_boundary v x \<and> char_boundary v y)"
| "macro_token_ok v (EmailToken open stop) \<longleftrightarrow> open < stop \<and> list_all (char_boundary v) [open, stop]"

fun macro_recognition_ok :: "str \<Rightarrow> nat \<Rightarrow> InlineRecognition \<Rightarrow> bool" where
  "macro_recognition_ok v open (MatchedInline (MacroTok t)) \<longleftrightarrow>
     macro_open t = open \<and> macro_token_ok v t \<and> clean_end v (macro_end t)"
| "macro_recognition_ok v open (MatchedInline (MarkerTok t)) \<longleftrightarrow> False"
| "macro_recognition_ok v open (RecoveredInline o' next_offset kind) \<longleftrightarrow>
     o' = open \<and> char_boundary v open \<and> char_boundary v next_offset \<and> open < next_offset"
| "macro_recognition_ok v open (RejectedInline o' next_offset) \<longleftrightarrow>
     o' = open \<and> char_boundary v open \<and> char_boundary v next_offset \<and> open < next_offset"

lemma clean_after [simp]: "value ! p \<noteq> backslash \<Longrightarrow> clean_end value (Suc p)"
  by (simp add: clean_end_def)

lemma clean_at_end [simp]: "clean_end value (length value)"
  by (simp add: clean_end_def quiet_def)

lemma pass_over:
  assumes "valid_utf8 v" "char_boundary v open" "open < length v"
  shows "macro_recognition_ok v open (RecoveredInline open (next_char_boundary v open) kind)"
    and "macro_recognition_ok v open (RejectedInline open (next_char_boundary v open))"
  using next_char_boundary_boundary [OF assms] next_char_boundary_bounds [OF assms(3)] assms(2) by simp_all

lemma recognize_bracketed_ok:
  assumes v: "valid_utf8 v" "char_boundary v open" "open < length v"
    and start: "start \<le> length v" "char_boundary v start"
    and close: "\<And>i k. i \<le> length v \<Longrightarrow> close_from i = Some k \<Longrightarrow>
        i \<le> k \<and> Suc k \<le> length v \<and> v ! k = CHR '']'' \<and> char_boundary v k \<and> char_boundary v (Suc k)"
    and build: "\<And>k b. start \<le> k \<Longrightarrow> k < b \<Longrightarrow> list_all (char_boundary v) [k, Suc k, b, Suc b] \<Longrightarrow>
        clean_end v (Suc b) \<Longrightarrow> macro_recognition_ok v open (MatchedInline (MacroTok (build k b)))"
  shows "macro_recognition_ok v open (recognize_bracketed v open start missing close_from build)"
proof (cases "open_bracket_from v start")
  case None
  with pass_over [OF v] show ?thesis by (simp add: recognize_bracketed_def)
next
  case (Some k)
  from bracket_found(2) [OF v(1) start(1) Some] have k: "start \<le> k" "Suc k \<le> length v"
    "char_boundary v k" "char_boundary v (Suc k)" by simp_all
  show ?thesis
  proof (cases "close_from (k + 1)")
    case None
    with Some pass_over [OF v] show ?thesis by (simp add: recognize_bracketed_def)
  next
    case (Some b)
    have "k + 1 \<le> length v" using k by simp
    from close [OF this Some] have b: "k + 1 \<le> b" "Suc b \<le> length v" "v ! b = CHR '']''"
      "char_boundary v b" "char_boundary v (Suc b)" by blast+
    then have "k < b" "list_all (char_boundary v) [k, Suc k, b, Suc b]" "clean_end v (Suc b)"
      using k(3,4) by (simp_all del: char_boundary_0)
    from build [OF k(1) this] Some \<open>open_bracket_from v start = Some k\<close> pass_over [OF v]
    show ?thesis by (simp add: recognize_bracketed_def del: macro_recognition_ok.simps)
  qed
qed

lemma recognize_named_ok:
  assumes v: "valid_utf8 v" "char_boundary v open" "open < length v"
    and p: "named_macro_prefix (drop open v) = Some p"
  shows "macro_recognition_ok v open (recognize_named v open p)"
proof -
  from named_prefix_width [OF p v(2)] have w: "4 \<le> prefix_width p" "open + prefix_width p \<le> length v"
    "char_boundary v (open + prefix_width p)" by simp_all
  note bracketed = recognize_bracketed_ok [OF v w(2,3)]
  show ?thesis
  proof (cases p)
    case (FormulaPrefix n language)
    with w have n: "open + n \<le> length v" "char_boundary v (open + n)" "2 \<le> n" by simp_all
    show ?thesis
    proof (cases "close_bracket_from v (open + n)")
      case None
      with FormulaPrefix n v(2) show ?thesis by (simp add: recognize_named_def)
    next
      case (Some c)
      from bracket_found(1) [OF v(1) n(1) Some] Some FormulaPrefix n v(2) show ?thesis
        by (simp add: recognize_named_def)
    qed
  next
    case (PassthroughPrefix n)
    with w have n: "open + n \<le> length v" "char_boundary v (open + n)" "2 \<le> n" by simp_all
    show ?thesis
    proof (cases "close_bracket_from v (open + n)")
      case None
      with PassthroughPrefix pass_over [OF v] show ?thesis by (simp add: recognize_named_def)
    next
      case (Some c)
      from bracket_found(1) [OF v(1) n(1) Some] Some PassthroughPrefix n v(2) show ?thesis
        by (simp add: recognize_named_def)
    qed
  next
    case (XrefPrefix n)
    with w v(2) have "macro_recognition_ok v open (recognize_bracketed v open (open + prefix_width p)
        IncompleteCrossReference (close_bracket_from v) (\<lambda>k b. XrefToken open (open + n) k b (b + 1)))"
      by (intro bracketed bracket_found(1) [OF v(1)]) auto
    with XrefPrefix show ?thesis by (simp add: recognize_named_def)
  next
    case (LinkPrefix n)
    with w v(2) have "macro_recognition_ok v open (recognize_bracketed v open (open + prefix_width p)
        IncompleteLink (close_bracket_from v) (\<lambda>k b. ExplicitLinkToken open (open + n) k b (b + 1)))"
      by (intro bracketed bracket_found(1) [OF v(1)]) auto
    with LinkPrefix show ?thesis by (simp add: recognize_named_def)
  next
    case (StandardPrefix kind form n)
    let ?from = "if kind = Footnote then footnote_close v else close_bracket_from v"
    have close: "i \<le> k \<and> Suc k \<le> length v \<and> v ! k = CHR '']'' \<and> char_boundary v k \<and> char_boundary v (Suc k)"
      if "i \<le> length v" "?from i = Some k" for i k
    proof (cases "kind = Footnote")
      case True
      with that footnote_close_found [OF v(1)] show ?thesis by simp
    next
      case False
      with that(2) have "close_bracket_from v i = Some k" by simp
      from bracket_found(1) [OF v(1) that(1) this] show ?thesis .
    qed
    from StandardPrefix w v(2) have "macro_recognition_ok v open (recognize_bracketed v open
        (open + prefix_width p) IncompleteLink ?from
        (\<lambda>k b. StandardMacroToken kind form open (open + n) k b (b + 1)))"
      by (intro bracketed close) auto
    with StandardPrefix show ?thesis by (simp add: recognize_named_def)
  qed
qed

section \<open>After a URL\<close>

lemma prefix_head_letter:
  assumes "starts_ascii_case_insensitive s w" "w \<noteq> []" "is_ascii_lower (hd w)"
  shows "is_ascii_alphabetic (hd s)"
proof -
  from assms(1) have len: "length w \<le> length s" and eq: "map ascii_lower (take (length w) s) = map ascii_lower w"
    by (auto simp: starts_ascii_case_insensitive_def str_get_def slice_from_zero eq_ignore_ascii_case_def
        to_ascii_lowercase_def split: option.splits if_splits)
  with assms(2) obtain a s' b w' where "s = a # s'" "w = b # w'" by (cases s; cases w) auto
  with eq assms(3) have "ascii_lower a = ascii_lower b" "is_ascii_lower b" by simp_all
  then have "is_ascii_lower (ascii_lower a)"
    by (simp add: ascii_lower_def is_ascii_upper_def is_ascii_lower_def in_byte_range_def)
  with \<open>s = a # s'\<close> show ?thesis
    by (auto simp: ascii_lower_def is_ascii_alphabetic_def split: if_splits)
qed

lemma standard_prefixes_lower: "(p, kind, form) \<in> set PREFIXES \<Longrightarrow> is_ascii_lower (hd p)"
  by (auto simp: PREFIXES_def is_ascii_lower_def in_byte_range_def)

lemma named_prefix_letter:
  assumes "named_macro_prefix s = Some p"
  shows "is_ascii_alphabetic (hd s)"
proof -
  have standard: "is_ascii_alphabetic (hd s)" if "standard_macro_prefix s = Some (kind, form, n)" for kind form n
    using find_map_prefix_Some [OF that [unfolded standard_macro_prefix_def]] standard_prefixes_lower
      standard_prefixes_long prefix_head_letter [of s] by fastforce
  have lower: "is_ascii_lower (CHR ''s'')" "is_ascii_lower (CHR ''l'')" "is_ascii_lower (CHR ''a'')"
    "is_ascii_lower (CHR ''p'')" "is_ascii_lower (CHR ''x'')"
    by (simp_all add: is_ascii_lower_def in_byte_range_def)
  show ?thesis
    using assms standard prefix_head_letter [of s] lower unfolding named_macro_prefix_def
    by (auto split: if_splits)
qed

definition url_stop_byte :: "char \<Rightarrow> bool" where
  "url_stop_byte b \<longleftrightarrow> b \<in> set ''.,;['' \<or> byte_val b \<in> {9, 10, 11, 12, 13, 32} \<or> 128 \<le> byte_val b"

lemma whitespace_head: "is_whitespace ch \<Longrightarrow> url_stop_byte (hd ch)"
  by (auto simp: is_whitespace_def url_stop_byte_def split: list.splits)

lemma whitespace_no_dot: "is_whitespace ch \<Longrightarrow> hd ch \<notin> set ''.,;''"
  by (auto simp: is_whitespace_def split: list.splits)

lemma url_stop_byte_facts:
  assumes "url_stop_byte b"
  shows "b \<noteq> backslash" "b \<notin> set ''`*_#{^~''" "b \<noteq> CHR ''@''" "b \<noteq> CHR ''<''" "\<not> is_ascii_alphabetic b"
    and "b \<noteq> CHR ''.'' \<Longrightarrow> \<not> email_local_part_byte b \<or> 128 \<le> byte_val b"
  using assms
  by (auto simp: url_stop_byte_def is_ascii_alphabetic_def is_ascii_upper_def is_ascii_lower_def
      in_byte_range_def email_local_part_byte_def is_ascii_alphanumeric_def is_ascii_digit_def)

lemma local_part_ascii: "email_local_part_byte b \<Longrightarrow> byte_val b < 128"
  by (auto simp: email_local_part_byte_def is_ascii_alphanumeric_def is_ascii_alphabetic_def
      is_ascii_upper_def is_ascii_lower_def is_ascii_digit_def in_byte_range_def)

lemma url_tail_quiet:
  assumes "p \<le> m" "m \<le> length s" "\<forall>j. p \<le> j \<and> j < m \<longrightarrow> s ! j \<in> set ''.,;''"
    and "m < length s \<longrightarrow> url_stop_byte (s ! m) \<and> s ! m \<notin> set ''.,;''" "p < length s \<longrightarrow> s ! p \<noteq> CHR ''[''"
  shows "quiet s p"
proof -
  have stop: "url_stop_byte (s ! j)" if "p \<le> j" "j \<le> m" "j < length s" for j
  proof (cases "j = m")
    case False
    with assms(3) that have "s ! j \<in> set ''.,;''" by simp
    then show ?thesis by (auto simp: url_stop_byte_def)
  qed (use assms(4) that in simp)
  have "\<not> macro_opening s p" if p: "p < length s"
  proof
    assume "macro_opening s p"
    note b = url_stop_byte_facts [OF stop [OF order_refl assms(1) p]]
    have head: "hd (drop p s) = s ! p" using p by (simp add: hd_drop_conv_nth)
    from \<open>macro_opening s p\<close> consider "starts_with (drop p s) ''<<''" | "starts_with (drop p s) ''[[''"
      | "named_macro_candidate (drop p s)" | "email_address_end (drop p s) \<noteq> None" | "url_candidate_start s p"
      by (auto simp: macro_opening_def macro_candidate_def Let_def split: if_splits)
    then show False
    proof cases
      case 1
      from starts_with_drop_nth(1) [OF this, of 0] b(4) show False by simp
    next
      case 2
      from starts_with_drop_nth(1) [OF this, of 0] assms(5) p show False by simp
    next
      case 3
      then obtain q where "named_macro_prefix (drop p s) = Some q"
        by (auto simp: named_macro_candidate_def split: option.splits)
      from named_prefix_letter [OF this] head b(5) show False by simp
    next
      case 4
      then obtain at where at: "find_if (\<lambda>b. \<not> email_local_part_byte b) (drop p s) = Some at"
        "drop p s ! at = CHR ''@''"
        by (auto simp: email_address_end_def split: option.splits if_splits)
      then have lt: "p + at < length s" "s ! (p + at) = CHR ''@''" "\<forall>j < at. email_local_part_byte (drop p s ! j)"
        by (auto simp: find_if_Some)
      have "m < p + at"
      proof (rule ccontr)
        assume "\<not> m < p + at"
        with url_stop_byte_facts(3) [OF stop [of "p + at"]] lt(1,2) show False by simp
      qed
      then have "email_local_part_byte (s ! m)" "m < length s"
        using lt(1) lt(3) [rule_format, of "m - p"] assms(1) by simp_all
      with url_stop_byte_facts(6) [of "s ! m"] assms(4) local_part_ascii [of "s ! m"] show False by auto
    next
      case 5
      with b(5) show False by (simp add: url_candidate_start_def)
    qed
  qed
  with url_stop_byte_facts(1,2) [OF stop [OF order_refl assms(1)]] show ?thesis by (auto simp: quiet_def)
qed

lemma recognize_url_ok:
  assumes v: "valid_utf8 v" "char_boundary v open" "open < length v"
  shows "macro_recognition_ok v open (recognize_url v open)"
proof (cases "url_scheme_end (drop open v)")
  case None
  with pass_over [OF v] show ?thesis by (simp add: recognize_url_def)
next
  case (Some k)
  note scheme = scheme_found [OF v(1,2) Some]
  obtain m where m: "UrlCandidateIndex_new v ! (open + k) = m" "open + k \<le> m" "m \<le> length v" "char_boundary v m"
    "m < length v \<longrightarrow> v ! m = CHR ''['' \<or> is_whitespace (hd (chars (drop m v)))"
    using url_stop [OF v(1), of "open + k"] scheme by auto
  define te where "te = trim_url_end v open m"
  note te = trim_url_end_ok [OF v(1) m(4), of "open", folded te_def]
  show ?thesis
  proof (cases "te \<le> open + k")
    case True
    with Some m(1) pass_over [OF v] show ?thesis by (simp add: recognize_url_def te_def Let_def)
  next
    case far: False
    show ?thesis
    proof (cases "te < length v \<and> v ! te = CHR ''[''")
      case True
      with byte_found [OF v(1), of te "CHR ''[''"] have b: "char_boundary v (Suc te)" "Suc te \<le> length v" by simp_all
      show ?thesis
      proof (cases "close_bracket_from v (Suc te)")
        case None
        with Some far m(1) True pass_over [OF v] show ?thesis by (simp add: recognize_url_def te_def Let_def)
      next
        case (Some c)
        from bracket_found(1) [OF v(1) b(2) Some] have c: "Suc te \<le> c" "v ! c = CHR '']''"
          "char_boundary v c" "char_boundary v (Suc c)" by simp_all
        have "macro_recognition_ok v open (MatchedInline (MacroTok (UrlLinkToken open te (Some (te + 1, c)) (c + 1))))"
          using c b far v(2) te by simp
        with Some \<open>url_scheme_end (drop open v) = Some k\<close> far m(1) True show ?thesis
          by (simp add: recognize_url_def te_def Let_def)
      qed
    next
      case False
      have "m < length v \<longrightarrow> url_stop_byte (v ! m) \<and> v ! m \<notin> set ''.,;''"
      proof
        assume "m < length v"
        then have h: "hd (hd (chars (drop m v))) = v ! m"
          by (cases "drop m v") (auto simp flip: hd_drop_conv_nth)
        from m(5) \<open>m < length v\<close> have "v ! m = CHR ''['' \<or> is_whitespace (hd (chars (drop m v)))" by simp
        then show "url_stop_byte (v ! m) \<and> v ! m \<notin> set ''.,;''"
        proof
          assume "is_whitespace (hd (chars (drop m v)))"
          from whitespace_head [OF this] whitespace_no_dot [OF this] show ?thesis unfolding h by simp
        qed (simp add: url_stop_byte_def)
      qed
      then have "quiet v te" using te m(3) False by (intro url_tail_quiet [of te m]) auto
      moreover have "recognize_url v open = MatchedInline (MacroTok (UrlLinkToken open te None te))"
        unfolding recognize_url_def Let_def Some option.case te_def [symmetric] m(1) if_not_P [OF far] if_not_P [OF False] ..
      ultimately show ?thesis using far v(2) te by (simp add: clean_end_def)
    qed
  qed
qed

section \<open>Every candidate\<close>

lemma split_anchor_label_ok:
  assumes "valid_utf8 v" "a \<le> b" "char_boundary v a" "char_boundary v b" "split_anchor_label v a b = (stop, label)"
  shows "a \<le> stop \<and> stop \<le> b \<and> char_boundary v stop
     \<and> (case label of None \<Rightarrow> True
        | Some (x, y) \<Rightarrow> stop < x \<and> x \<le> y \<and> y \<le> b \<and> char_boundary v x \<and> char_boundary v y)"
proof (cases "find_char (CHR '','') (slice v a b)")
  case None
  with assms show ?thesis by (auto simp: split_anchor_label_def)
next
  case (Some k)
  from find_char_found [OF assms(1,2) char_boundary_le [OF assms(4)] Some] assms Some show ?thesis
    by (auto simp: split_anchor_label_def)
qed

lemma shorthand_anchor_ok:
  assumes v: "valid_utf8 v" "char_boundary v open"
    and opens: "starts_with (drop open v) p" "list_all (\<lambda>b. byte_val b < 128) p" "2 \<le> length p"
    and closes: "find_str q (drop (length p) (drop open v)) = Some k" "list_all (\<lambda>b. byte_val b < 128) q"
      "length q = length p" "last q \<noteq> backslash"
    and label: "split_anchor_label v (open + length p) (open + length p + k) = (stop, label)"
  shows "macro_recognition_ok v open (MatchedInline (MacroTok
      (ShorthandAnchorToken kind open (open + length p) stop label (open + length p + k + length p))))"
proof -
  let ?a = "open + length p" and ?b = "open + length p + k"
  have a: "char_boundary v ?a" using ascii_string_boundary [OF v(1) opens(1,2), of "length p"] opens(3)
    by (cases p) simp_all
  have q: "q \<noteq> []" using closes(3) opens(3) by (cases q) auto
  have find: "find_str q (drop ?a v) = Some k" using closes(1) by (simp add: add.commute)
  note b = find_str_found [OF v(1) char_boundary_le [OF a] find closes(2) q, unfolded closes(3)]
  have "clean_end v (?b + length p)" using b(4) closes(4) opens(3) by (simp add: clean_end_def)
  moreover have "0 < length p" using opens(3) by linarith
  ultimately show ?thesis
    using split_anchor_label_ok [OF v(1) _ a b(2) label] v(2) a b opens(3)
    by (auto split: option.splits)
qed

lemma recognize_macro_ok:
  assumes v: "valid_utf8 v" "char_boundary v open" "open < length v"
  shows "macro_recognition_ok v open (recognize_macro v open)"
proof -
  let ?r = "drop open v"
  define found where "found kind width closing = map_option (\<lambda>relative.
      let close = open + width + relative; (stop, label) = split_anchor_label v (open + width) close
      in MatchedInline (MacroTok (ShorthandAnchorToken kind open (open + width) stop label (close + width))))
      (find_str closing (drop width ?r))" for kind and width :: nat and closing
  have anchor: "macro_recognition_ok v open r"
    if "found kind (length p) q = Some r" "starts_with ?r p" "p = ''[[['' \<and> q = '']]]'' \<or> p = ''[['' \<and> q = '']]''"
    for kind p q r
  proof -
    from that(1) obtain k where k: "find_str q (drop (length p) ?r) = Some k"
      by (auto simp: found_def)
    obtain stop label where s: "split_anchor_label v (open + length p) (open + length p + k) = (stop, label)"
      by fastforce
    have "macro_recognition_ok v open (MatchedInline (MacroTok
        (ShorthandAnchorToken kind open (open + length p) stop label (open + length p + k + length p))))"
      using that(3) by (intro shorthand_anchor_ok [OF v(1,2) that(2) _ _ k _ _ _ s]) auto
    with that(1) k s show ?thesis by (auto simp: found_def)
  qed
  have short: "macro_recognition_ok v open
      (case double_greater_from v (open + 2) of
           None \<Rightarrow> RecoveredInline open (next_char_boundary v open) IncompleteCrossReference
         | Some close \<Rightarrow> MatchedInline (MacroTok (ShortReferenceToken open (open + 2) close (close + 2))))"
    if "starts_with ?r ''<<''"
  proof (cases "double_greater_from v (open + 2)")
    case None
    with pass_over [OF v] show ?thesis by simp
  next
    case (Some c)
    have two: "char_boundary v (open + 2)" using ascii_string_boundary [OF v(1) that, of 2] by simp
    from double_greater_found [OF v(1) char_boundary_le [OF two] Some] two v(2) Some show ?thesis
      by (simp add: clean_end_def)
  qed
  let ?named = "named_macro_prefix ?r"
  have rest: "macro_recognition_ok v open
      (if before_angle_brackets ?named then recognize_named v open (the ?named)
       else if starts_with ?r ''<<''
       then (case double_greater_from v (open + 2) of
           None \<Rightarrow> RecoveredInline open (next_char_boundary v open) IncompleteCrossReference
         | Some close \<Rightarrow> MatchedInline (MacroTok (ShortReferenceToken open (open + 2) close (close + 2))))
       else (case ?named of
           Some p \<Rightarrow> recognize_named v open p
         | None \<Rightarrow>
             (case email_address_end ?r of
                Some relative_end \<Rightarrow> MatchedInline (MacroTok (EmailToken open (open + relative_end)))
              | None \<Rightarrow> recognize_url v open)))"
  proof (cases ?named)
    case None
    have "macro_recognition_ok v open (case email_address_end ?r of
                Some relative_end \<Rightarrow> MatchedInline (MacroTok (EmailToken open (open + relative_end)))
              | None \<Rightarrow> recognize_url v open)"
    proof (cases "email_address_end ?r")
      case None
      with recognize_url_ok [OF v] show ?thesis by simp
    next
      case (Some k)
      from email_found [OF v(1,2) Some] Some v(2) show ?thesis by (simp add: clean_end_def)
    qed
    with None short show ?thesis by simp
  next
    case (Some p)
    with short recognize_named_ok [OF v Some] show ?thesis by simp
  qed
  show ?thesis
  proof (cases "if starts_with ?r ''[[['' then found BibliographyAnchor 3 '']]]'' else None")
    case (Some r)
    then have p: "starts_with ?r ''[[[''" "found BibliographyAnchor 3 '']]]'' = Some r" by (simp_all split: if_splits)
    with anchor [of BibliographyAnchor "''[[[''" "'']]]''" r] have "macro_recognition_ok v open r"
      by (simp add: numeral_3_eq_3)
    moreover have "recognize_macro v open = r"
      unfolding recognize_macro_def Let_def using Some [unfolded found_def Let_def] by simp
    ultimately show ?thesis by simp
  next
    case none: None
    show ?thesis
    proof (cases "if starts_with ?r ''[['' then found AnchorMacro 2 '']]'' else None")
      case (Some r)
      then have p: "starts_with ?r ''[[''" "found AnchorMacro 2 '']]'' = Some r" by (simp_all split: if_splits)
      with anchor [of AnchorMacro "''[[''" "'']]''" r] have "macro_recognition_ok v open r"
        by (simp add: numeral_2_eq_2)
      moreover have "recognize_macro v open = r"
        unfolding recognize_macro_def Let_def
        using none [unfolded found_def Let_def] Some [unfolded found_def Let_def] by simp
      ultimately show ?thesis by simp
    next
      case None
      with none rest show ?thesis
        unfolding recognize_macro_def Let_def found_def by simp
    qed
  qed
qed

fun marker_recognition_ok :: "str \<Rightarrow> nat \<Rightarrow> char \<Rightarrow> MarkerForm \<Rightarrow> InlineRecognition \<Rightarrow> bool" where
  "marker_recognition_ok v open marker form (MatchedInline (MarkerTok t)) \<longleftrightarrow>
     token_open t = open \<and> token_marker t = marker \<and> token_form t = form
     \<and> token_end t = token_close t + form_width form \<and> closer_ok v open form (token_close t)"
| "marker_recognition_ok v open marker form (MatchedInline (MacroTok t)) \<longleftrightarrow> False"
| "marker_recognition_ok v open marker form (RecoveredInline o' next_offset kind) \<longleftrightarrow>
     o' = open \<and> char_boundary v open \<and> char_boundary v next_offset \<and> open < next_offset"
| "marker_recognition_ok v open marker form (RejectedInline o' next_offset) \<longleftrightarrow>
     o' = open \<and> char_boundary v open \<and> char_boundary v next_offset \<and> open < next_offset"

lemma form_width_pos [simp]: "0 < form_width form"
  by (simp add: form_width_def split: MarkerForm.split)

lemma recognize_marker_ok:
  assumes "candidate_ok v (MarkerCandidate open marker form close)"
  shows "\<exists>r. (recognize_marker v open marker form close :: 'e failure + InlineRecognition) = Inr r
    \<and> marker_recognition_ok v open marker form r"
proof -
  from assms have at: "marker_at v open marker form" by simp
  then have b: "char_boundary v open" "char_boundary v (open + form_width form)" by (simp_all add: marker_at_def)
  have kind: "\<exists>kind. (unclosed_marker marker :: 'e failure + InlineProblemKind) = Inr kind"
    using at by (auto simp: marker_at_def unclosed_marker_def)
  show ?thesis
  proof (cases close)
    case None
    with kind b show ?thesis by (auto simp: recognize_marker_def Let_def)
  next
    case (Some c)
    with assms have "closer_ok v open form c" by simp
    moreover from this have "char_boundary v (c + form_width form)" "open + form_width form \<le> c"
      by (simp_all add: closer_ok_def)
    moreover from this(2) have "open < c + form_width form" using form_width_pos [of form] by linarith
    ultimately show ?thesis using Some b by (auto simp: recognize_marker_def Let_def)
  qed
qed

lemma macro_token_span:
  "macro_token_ok v t \<Longrightarrow> macro_open t < macro_end t \<and> char_boundary v (macro_open t) \<and> char_boundary v (macro_end t)"
  by (cases t) (auto split: option.splits)

lemma macro_recognition_wf:
  "macro_recognition_ok v open r \<Longrightarrow> recognition_open r = open \<and> recognition_well_formed v r"
  by (induction v "open" r rule: macro_recognition_ok.induct)
    (auto simp: recognition_well_formed_def char_boundary_le dest: macro_token_span)

lemma marker_recognition_wf:
  assumes "marker_recognition_ok v open marker form r" "marker_at v open marker form"
  shows "recognition_open r = open \<and> recognition_well_formed v r"
  using assms
proof (induction v "open" marker form r rule: marker_recognition_ok.induct)
  case (1 v "open" marker form t)
  then have "open + form_width form \<le> token_close t" "char_boundary v (token_close t + form_width form)"
    "char_boundary v open" by (simp_all add: closer_ok_def marker_at_def)
  moreover from this(1) have "open < token_close t + form_width form"
    using form_width_pos [of form] by linarith
  ultimately show ?case using 1 by (simp add: recognition_well_formed_def char_boundary_le)
qed (auto simp: recognition_well_formed_def char_boundary_le)

lemma candidate_recognized:
  assumes "valid_utf8 v" "candidate_ok v c"
  shows "\<exists>r. (recognize_candidate v c :: 'e failure + InlineRecognition option) = Inr r
     \<and> (\<forall>q. r = Some q \<longrightarrow> recognition_open q = candidate_open c \<and> recognition_well_formed v q)"
proof (cases c)
  case (MarkerCandidate "open" marker form close)
  with recognize_marker_ok [of v "open" marker form close] assms(2) obtain r where
    "(recognize_marker v open marker form close :: 'e failure + InlineRecognition) = Inr r" "marker_recognition_ok v open marker form r" by auto
  with MarkerCandidate marker_recognition_wf [of v "open" marker form r] assms(2) show ?thesis
    by (simp add: recognize_candidate_def)
qed (use assms macro_recognition_wf [OF recognize_macro_ok [OF assms(1)]] in \<open>auto simp: recognize_candidate_def\<close>)

lemma candidate_open_less: "candidate_ok v c \<Longrightarrow> candidate_open c < length v"
proof (induction v c rule: candidate_ok.induct)
  case (4 v "open" marker form close)
  then have "open + form_width form \<le> length v" by (simp add: marker_at_def)
  with form_width_pos [of form] show ?case unfolding candidate_open.simps by linarith
qed (auto simp: span_ok_def)

section \<open>The index\<close>

text \<open>C13. The index of inline candidates exists for every valid fragment whose length fits its tables. The candidates are ordered by the offset they begin at, inside the fragment, and recognizing any of them never panics: it gives nothing or a recognition that begins at the candidate, moves forward and starts and ends at boundaries of scalar values, as the debug assertion of every recognition demands.\<close>

theorem candidates_recognized:
  assumes "valid_utf8 value" and "length value < u32_max"
  shows "\<exists>cs. candidate_index alnum value = (Inr cs :: unit failure + InlineCandidate list)
     \<and> sorted (map candidate_open cs)
     \<and> (\<forall>c \<in> set cs. candidate_open c < length value
          \<and> (\<exists>r. (recognize_candidate value c :: unit failure + InlineRecognition option) = Inr r
               \<and> (\<forall>q. r = Some q \<longrightarrow> recognition_open q = candidate_open c \<and> recognition_well_formed value q)))"
proof -
  from candidate_index_ok [OF assms, of alnum] obtain cs where
    cs: "candidate_index alnum value = (Inr cs :: unit failure + InlineCandidate list)" "list_all (candidate_ok value) cs" by blast
  then have "sorted (map candidate_open cs)"
    by (auto simp: candidate_index_def Let_def split: if_splits prod.splits)
  moreover have "\<forall>c \<in> set cs. candidate_open c < length value
      \<and> (\<exists>r. (recognize_candidate value c :: unit failure + InlineRecognition option) = Inr r
           \<and> (\<forall>q. r = Some q \<longrightarrow> recognition_open q = candidate_open c \<and> recognition_well_formed value q))"
    using cs(2) candidate_open_less candidate_recognized [OF assms(1)] unfolding list_all_iff by blast
  ultimately show ?thesis using cs(1) by blast
qed

theorem candidates_recognized_witness:
  "\<exists>cs. candidate_index (\<lambda>_. False) ''a *b* stem:[x] <<c>>'' = (Inr cs :: unit failure + InlineCandidate list)
     \<and> sorted (map candidate_open cs)"
  using candidates_recognized [of "''a *b* stem:[x] <<c>>''" "\<lambda>_. False"] by (auto simp: valid_utf8_def valid_scalar_def utf8_len_def u32_max_def)

end
