(* ===== verification/Inline_Lowering.thy ===== *)
theory Inline_Lowering
  imports Inline_Recognition
begin

text \<open>
  What an inline says of the source: its ranges spell its texts, and its nested inlines cover
  their content one after the other. Lowering a good token never panics and builds such an
  inline. \<open>doc\<close> is the text the ranges are offsets into.
\<close>

section \<open>Outcomes\<close>

text \<open>No panic, and \<open>P\<close> of what is returned.\<close>

definition yields :: "('a \<Rightarrow> bool) \<Rightarrow> 'e failure + 'a \<Rightarrow> bool" where
  "yields P r = (case r of Inl Panic \<Rightarrow> False | Inl (Err _) \<Rightarrow> True | Inr a \<Rightarrow> P a)"

lemma yields_simps [simp]:
  "yields P (Inr a) \<longleftrightarrow> P a" "yields P (Inl (Err e))" "\<not> yields P (Inl Panic)"
  by (simp_all add: yields_def)

lemma yields_and_then:
  assumes "yields Q r" "\<And>a. Q a \<Longrightarrow> yields P (k a)"
  shows "yields P (and_then r k)"
proof (cases r)
  case (Inl e)
  with assms(1) show ?thesis by (cases e) (simp_all add: yields_def)
next
  case (Inr a)
  with assms show ?thesis by simp
qed

lemma yields_mono: "yields Q r \<Longrightarrow> (\<And>a. Q a \<Longrightarrow> P a) \<Longrightarrow> yields P r"
  by (auto simp: yields_def split: sum.splits failure.splits)

section \<open>What an inline denotes\<close>

definition text_at :: "str \<Rightarrow> TextRange \<Rightarrow> str" where
  "text_at doc r = slice doc (range_start r) (range_end r)"

definition within :: "TextRange \<Rightarrow> TextRange \<Rightarrow> bool" where
  "within r outer \<longleftrightarrow>
     range_start outer \<le> range_start r \<and> range_start r \<le> range_end r \<and> range_end r \<le> range_end outer"

text \<open>Both ends of the range are between scalar values of the document.\<close>

definition cut :: "str \<Rightarrow> TextRange \<Rightarrow> bool" where
  "cut doc r \<longleftrightarrow> char_boundary doc (range_start r) \<and> char_boundary doc (range_end r)"

definition spells :: "str \<Rightarrow> TextRange \<Rightarrow> TextRange \<Rightarrow> str \<Rightarrow> bool" where
  "spells doc outer r v \<longleftrightarrow> within r outer \<and> text_at doc r = v"

text \<open>A range that spells its text and can be cut out of the document.\<close>

definition marks :: "str \<Rightarrow> TextRange \<Rightarrow> TextRange \<Rightarrow> str \<Rightarrow> bool" where
  "marks doc outer r v \<longleftrightarrow> spells doc outer r v \<and> cut doc r"

text \<open>Not empty, and each begins where the one before it ends, between scalar values.\<close>

fun consecutive :: "str \<Rightarrow> nat \<Rightarrow> TextRange list \<Rightarrow> nat \<Rightarrow> bool" where
  "consecutive doc a [] b \<longleftrightarrow> a = b"
| "consecutive doc a (r # rs) b \<longleftrightarrow>
     range_start r = a \<and> a < range_end r \<and> cut doc r \<and> consecutive doc (range_end r) rs b"

lemma consecutive_append:
  "consecutive doc a (rs @ qs) b \<longleftrightarrow> (\<exists>c. consecutive doc a rs c \<and> consecutive doc c qs b)"
  by (induction rs arbitrary: a) auto

text \<open>Literal text may stand for its source without the one or two backslashes that escape it.\<close>

definition unescapes :: "str \<Rightarrow> str \<Rightarrow> bool" where
  "unescapes source v \<longleftrightarrow>
     v = source \<or> source = backslash # v \<or> source = backslash # backslash # v"

definition uses_ok :: "str \<Rightarrow> TextRange \<Rightarrow> AttributeUse list \<Rightarrow> bool" where
  "uses_ok doc outer uses \<longleftrightarrow> list_all (\<lambda>u. spells doc outer (use_name_range u) (use_name u)) uses"

definition macro_attribute_ok :: "str \<Rightarrow> TextRange \<Rightarrow> MacroAttribute \<Rightarrow> bool" where
  "macro_attribute_ok doc outer a \<longleftrightarrow>
     within (macro_attribute_range a) outer
     \<and> spells doc (macro_attribute_range a) (macro_attribute_value_range a) (macro_attribute_value a)"

definition macro_ok :: "str \<Rightarrow> StandardMacro \<Rightarrow> bool" where
  "macro_ok doc m \<longleftrightarrow>
     marks doc (macro_range m) (macro_target_range m) (macro_target m)
     \<and> macro_target_source m = macro_target m
     \<and> uses_ok doc (macro_target_range m) (macro_target_attributes m)
     \<and> within (macro_attributes_range m) (macro_range m)
     \<and> list_all (macro_attribute_ok doc (macro_attributes_range m)) (macro_attributes m)"

definition anchor_ok :: "str \<Rightarrow> TextRange \<Rightarrow> str option \<Rightarrow> TextRange option \<Rightarrow> bool" where
  "anchor_ok doc outer anchor r = (case (anchor, r) of
      (None, None) \<Rightarrow> True | (Some a, Some r) \<Rightarrow> spells doc outer r a | _ \<Rightarrow> False)"

fun destination_ok :: "str \<Rightarrow> TextRange \<Rightarrow> ReferenceDestination \<Rightarrow> bool" where
  "destination_ok doc outer (LocalDestination anchor r) \<longleftrightarrow> spells doc outer r anchor \<and> anchor \<noteq> []"
| "destination_ok doc outer (DocumentDestination document r anchor ar) \<longleftrightarrow>
     spells doc outer r document \<and> document \<noteq> [] \<and> anchor_ok doc outer anchor ar"
| "destination_ok doc outer (SchemeDestination scheme sr locator lr anchor ar) \<longleftrightarrow>
     within sr outer \<and> to_ascii_lowercase (text_at doc sr) = scheme \<and> spells doc outer lr locator
     \<and> anchor_ok doc outer anchor ar"
| "destination_ok doc outer InvalidDestination \<longleftrightarrow> True"

lemma size_link_label: "x \<in> set (link_label l) \<Longrightarrow> size x \<le> size_Link size l"
  by (cases l) (auto simp: size_list_estimation' [OF _ order_refl] less_Suc_eq_le le_SucI trans_le_add2)

lemma size_reference_label: "x \<in> set (reference_label l) \<Longrightarrow> size x \<le> size_Reference size l"
  by (cases l) (auto simp: size_list_estimation' [OF _ order_refl] less_Suc_eq_le le_SucI trans_le_add2)

text \<open>A label stands behind the target, which ends at \<open>a\<close>.\<close>

fun label_range_ok :: "str \<Rightarrow> nat \<Rightarrow> TextRange \<Rightarrow> TextRange option \<Rightarrow> TextRange list \<Rightarrow> bool" where
  "label_range_ok doc a outer None rs \<longleftrightarrow> rs = []"
| "label_range_ok doc a outer (Some r) rs \<longleftrightarrow>
     within r outer \<and> cut doc r \<and> a \<le> range_start r \<and> consecutive doc (range_start r) rs (range_end r)"

function inline_ok :: "str \<Rightarrow> Inline \<Rightarrow> bool" where
  "inline_ok doc (TextInline t) \<longleftrightarrow> unescapes (text_at doc (inline_text_range t)) (inline_text_value t)"
| "inline_ok doc (LiteralInline _ r content v) \<longleftrightarrow> marks doc r content v"
| "inline_ok doc (StyledInline _ r content inner) \<longleftrightarrow>
     within content r \<and> cut doc content
     \<and> consecutive doc (range_start content) (map inline_range inner) (range_end content)
     \<and> list_all (inline_ok doc) inner"
| "inline_ok doc (AttributeReferenceInline r name_r name _ _) \<longleftrightarrow> marks doc r name_r name"
| "inline_ok doc (LinkInline l) \<longleftrightarrow>
     marks doc (link_range l) (link_target_range l) (link_target l) \<and> link_target_source l = link_target l
     \<and> uses_ok doc (link_target_range l) (link_target_attributes l)
     \<and> pred_option (\<lambda>r. within r (link_range l)) (link_macro_name_range l)
     \<and> label_range_ok doc (range_end (link_target_range l)) (link_range l) (link_label_range l) (map inline_range (link_label l))
     \<and> list_all (inline_ok doc) (link_label l)"
| "inline_ok doc (ReferenceInline x) \<longleftrightarrow>
     marks doc (reference_range x) (reference_target_range x) (reference_expanded_target x)
     \<and> reference_target_source x = reference_expanded_target x
     \<and> uses_ok doc (reference_target_range x) (reference_target_attributes x)
     \<and> pred_option (\<lambda>r. within r (reference_range x)) (reference_macro_name_range x)
     \<and> destination_ok doc (reference_target_range x) (authored_destination x)
     \<and> label_range_ok doc (range_end (reference_target_range x)) (reference_range x) (reference_label_range x) (map inline_range (reference_label x))
     \<and> list_all (inline_ok doc) (reference_label x)"
| "inline_ok doc (FormulaInline f) \<longleftrightarrow> marks doc (formula_range f) (formula_content_range f) (formula_value f)"
| "inline_ok doc (MacroInline m) \<longleftrightarrow> macro_ok doc m"
| "inline_ok doc (PassthroughInline _ r content v) \<longleftrightarrow> marks doc r content v"
| "inline_ok doc (HardBreakInline _) \<longleftrightarrow> False"
  by pat_completeness auto
termination
  by (relation "measure (size \<circ> snd)")
    (auto simp: size_link_label size_reference_label less_Suc_eq_le size_list_estimation' [OF _ order_refl] le_SucI)

text \<open>What the inlines of a parse cost: a node each, and a reference for each cross reference.\<close>

function inline_nodes :: "Inline \<Rightarrow> nat" where
  "inline_nodes i = Suc (case i of
      StyledInline _ _ _ inner \<Rightarrow> sum_list (map inline_nodes inner)
    | LinkInline l \<Rightarrow> sum_list (map inline_nodes (link_label l))
    | ReferenceInline x \<Rightarrow> sum_list (map inline_nodes (reference_label x))
    | _ \<Rightarrow> 0)"
  by pat_completeness auto
termination
  by (relation "measure size")
    (auto simp: size_link_label size_reference_label less_Suc_eq_le size_list_estimation' [OF _ order_refl] le_SucI)

function inline_references :: "Inline \<Rightarrow> nat" where
  "inline_references i = (case i of
      StyledInline _ _ _ inner \<Rightarrow> sum_list (map inline_references inner)
    | LinkInline l \<Rightarrow> sum_list (map inline_references (link_label l))
    | ReferenceInline x \<Rightarrow> Suc (sum_list (map inline_references (reference_label x)))
    | _ \<Rightarrow> 0)"
  by pat_completeness auto
termination
  by (relation "measure size")
    (auto simp: size_link_label size_reference_label less_Suc_eq_le size_list_estimation' [OF _ order_refl] le_SucI)

declare inline_nodes.simps [simp del] inline_references.simps [simp del]

definition spent :: "nat \<Rightarrow> nat \<Rightarrow> ParseBudget \<Rightarrow> ParseBudget \<Rightarrow> bool" where
  "spent n m b b' \<longleftrightarrow>
     b' = b\<lparr>nodes := nodes b', references := references b'\<rparr>
     \<and> unat (nodes b') = unat (nodes b) + n \<and> unat (references b') = unat (references b) + m"

lemma spent_refl [simp]: "spent 0 0 b b"
  by (simp add: spent_def)

lemma spent_trans: "spent n m b c \<Longrightarrow> spent n' m' c d \<Longrightarrow> spent (n + n') (m + m') b d"
  by (cases b; cases c; cases d) (simp add: spent_def)

section \<open>Fragments of the document\<close>

text \<open>A fragment the parser is called on, and the range it stands at.\<close>

definition located :: "str \<Rightarrow> str \<Rightarrow> TextRange \<Rightarrow> bool" where
  "located doc value outer \<longleftrightarrow>
     valid_utf8 value \<and> length value < u32_max \<and> text_at doc outer = value \<and> cut doc outer
     \<and> range_end outer = range_start outer + length value \<and> range_end outer \<le> u32_max"

abbreviation part :: "TextRange \<Rightarrow> nat \<Rightarrow> nat \<Rightarrow> TextRange" where
  "part outer a b \<equiv> \<lparr>range_start = range_start outer + a, range_end = range_start outer + b\<rparr>"

lemma located_valid: "located doc value outer \<Longrightarrow> valid_utf8 value"
  by (simp add: located_def)

lemma subrange_ok:
  "located doc value outer \<Longrightarrow> a \<le> b \<Longrightarrow> b \<le> length value \<Longrightarrow> subrange outer a b = Inr (part outer a b)"
  by (simp add: subrange_def text_range_ok located_def)

lemma sub_str_ok:
  "a \<le> b \<Longrightarrow> char_boundary value a \<Longrightarrow> char_boundary value b \<Longrightarrow> sub_str value a b = Inr (slice value a b)"
  by (simp add: sub_str_def str_get_def char_boundary_le)

lemma text_at_part:
  "located doc value outer \<Longrightarrow> a \<le> b \<Longrightarrow> b \<le> length value \<Longrightarrow> text_at doc (part outer a b) = slice value a b"
  unfolding text_at_def located_def by (auto intro!: slice_within)

lemma located_boundary:
  assumes "located doc value outer" "char_boundary value a"
  shows "char_boundary doc (range_start outer + a)"
  using assms char_boundary_slice [of doc "range_start outer" "range_end outer" a]
  by (auto simp: located_def cut_def text_at_def)

lemma cut_part:
  "located doc value outer \<Longrightarrow> char_boundary value a \<Longrightarrow> char_boundary value b \<Longrightarrow> cut doc (part outer a b)"
  by (simp add: cut_def located_boundary)

lemma located_part:
  assumes "located doc value outer" "char_boundary value a" "char_boundary value b" "a \<le> b"
  shows "located doc (slice value a b) (part outer a b)"
  using assms text_at_part [OF assms(1,4) char_boundary_le [OF assms(3)]] char_boundary_le [OF assms(3)]
    cut_part [OF assms(1-3)]
  by (auto simp: located_def valid_utf8_slice length_slice)

lemma within_part [simp]: "within (part outer a b) (part outer c d) \<longleftrightarrow> c \<le> a \<and> a \<le> b \<and> b \<le> d"
  by (simp add: within_def)

lemma within_outer: "located doc value outer \<Longrightarrow> within (part outer a b) outer \<longleftrightarrow> a \<le> b \<and> b \<le> length value"
  by (simp add: within_def located_def)

lemma spells_part:
  "located doc value outer \<Longrightarrow> c \<le> a \<Longrightarrow> a \<le> b \<Longrightarrow> b \<le> d \<Longrightarrow> b \<le> length value \<Longrightarrow>
     spells doc (part outer c d) (part outer a b) (slice value a b)"
  by (simp add: spells_def text_at_part)

lemma marks_part:
  "located doc value outer \<Longrightarrow> c \<le> a \<Longrightarrow> a \<le> b \<Longrightarrow> b \<le> d \<Longrightarrow> char_boundary value a \<Longrightarrow> char_boundary value b \<Longrightarrow>
     marks doc (part outer c d) (part outer a b) (slice value a b)"
  by (simp add: marks_def spells_part cut_part char_boundary_le)

lemma spells_outer:
  "located doc value outer \<Longrightarrow> a \<le> b \<Longrightarrow> b \<le> length value \<Longrightarrow> spells doc outer (part outer a b) (slice value a b)"
  by (simp add: spells_def text_at_part within_outer)

lemma attribute_uses_loop_ok:
  "located doc value outer \<Longrightarrow> cursor \<le> length value \<Longrightarrow> uses_ok doc outer output \<Longrightarrow>
     yields (uses_ok doc outer) (attribute_uses_loop value outer cursor output :: 'e failure + AttributeUse list)"
proof (induction "value" outer cursor "output" rule: attribute_uses_loop.induct [where ?'a = 'e])
  case (1 "value" outer cursor "output")
  show ?case
  proof (cases "find_char (CHR ''{'') (drop cursor value)")
    case None
    with "1.prems" show ?thesis by (subst attribute_uses_loop.simps) (simp del: find_char_None)
  next
    case o': (Some r)
    show ?thesis
    proof (cases "find_char (CHR ''}'') (drop (cursor + r + 1) value)")
      case None
      with o' "1.prems" show ?thesis by (subst attribute_uses_loop.simps) (simp del: find_char_None)
    next
      case c: (Some q)
      let ?a = "cursor + r + 1" and ?b = "cursor + r + 1 + q"
      have b: "?a \<le> ?b" "?b + 1 \<le> length value"
        using find_char_length [OF c] by simp_all
      have "spells doc outer (part outer ?a ?b) (slice value ?a ?b)"
        using b by (intro spells_outer [OF "1.prems"(1)]) simp_all
      then have new: "uses_ok doc outer (output @ [\<lparr>use_name = slice value ?a ?b, use_name_range = part outer ?a ?b\<rparr>])"
        using "1.prems"(3) by (simp add: uses_ok_def)
      have r: "(subrange outer ?a ?b :: 'e failure + TextRange) = Inr (part outer ?a ?b)"
        using b by (intro subrange_ok [OF "1.prems"(1)]) simp_all
      show ?thesis
        by (subst attribute_uses_loop.simps)
          (use "1.IH" [OF o' refl c refl refl] r new b o' c "1.prems" in \<open>simp add: Let_def\<close>)
    qed
  qed
qed

lemma attribute_uses_ok:
  "located doc value outer \<Longrightarrow> yields (uses_ok doc outer) (attribute_uses value outer)"
  using attribute_uses_loop_ok [of doc "value" outer 0 "[]"] by (simp add: attribute_uses_def uses_ok_def)

lemma find_char_boundary:
  assumes "valid_utf8 s" "find_char c s = Some i" "byte_val c < 128"
  shows "i < length s" "char_boundary s i" "char_boundary s (Suc i)"
  using byte_found [OF assms(1), of i c] assms(2,3) by (simp_all add: find_char_Some)

lemma anchor_part_ok:
  assumes "located doc tgt outer" "case anchor of None \<Rightarrow> True | Some a \<Rightarrow> length a \<le> length tgt \<and> drop (length tgt - length a) tgt = a"
  shows "yields (anchor_ok doc outer anchor) (case anchor of None \<Rightarrow> Inr None :: 'e failure + TextRange option
    | Some a \<Rightarrow> and_then (subrange outer (length tgt - length a) (length tgt)) (\<lambda>r. Inr (Some r)))"
proof (cases anchor)
  case (Some a)
  have "slice tgt (length tgt - length a) (length tgt) = a"
    using assms(2) Some by (simp add: slice_to_end)
  with Some spells_outer [OF assms(1), of "length tgt - length a" "length tgt"]
  show ?thesis by (simp add: anchor_ok_def subrange_ok [OF assms(1)])
qed (simp add: anchor_ok_def)

lemma split_anchor_parts:
  assumes "split_anchor s = (l, anchor)"
  shows "length l \<le> length s" "take (length l) s = l"
    and "case anchor of None \<Rightarrow> True | Some a \<Rightarrow> length a \<le> length s \<and> drop (length s - length a) s = a"
  using assms
  by (auto simp: split_anchor_def split_once_char_def find_char_Some split: option.splits)

lemma parse_reference_destination_ok:
  assumes l: "located doc tgt outer"
  shows "yields (destination_ok doc outer) (parse_reference_destination tgt outer :: 'e failure + ReferenceDestination)"
proof -
  define anchor_part :: "str option \<Rightarrow> 'e failure + TextRange option" where "anchor_part = (\<lambda>anchor. case anchor of
                None \<Rightarrow> Inr None
              | Some a \<Rightarrow> and_then (subrange outer (length tgt - length a) (length tgt)) (\<lambda>r. Inr (Some r)))"
  have slice_tgt: "slice tgt 0 n = take n tgt" for n by (simp add: slice_from_zero)
  have document: "yields (destination_ok doc outer) (let (document, anchor) = split_anchor tgt in
                 if document = [] then Inr InvalidDestination
                 else and_then (subrange outer 0 (length document)) (\<lambda>r.
                      and_then (anchor_part anchor) (\<lambda>ar. Inr (DocumentDestination document r anchor ar))))"
  proof -
    obtain document anchor where s: "split_anchor tgt = (document, anchor)" by (cases "split_anchor tgt")
    note parts = split_anchor_parts [OF s]
    have r: "(subrange outer 0 (length document) :: 'e failure + TextRange) = Inr (part outer 0 (length document))"
      "spells doc outer (part outer 0 (length document)) document"
      using spells_outer [OF l, of 0 "length document"] parts slice_tgt by (simp_all add: subrange_ok [OF l])
    have "yields (anchor_ok doc outer anchor) (anchor_part anchor)"
      unfolding anchor_part_def using anchor_part_ok [OF l parts(3)] .
    then have "document \<noteq> [] \<Longrightarrow> yields (destination_ok doc outer) (and_then (anchor_part anchor)
        (\<lambda>ar. Inr (DocumentDestination document (part outer 0 (length document)) anchor ar)))"
      using r(2) by (elim yields_and_then) simp
    with s r(1) show ?thesis by simp
  qed
  have scheme: "yields (destination_ok doc outer) (let (locator, anchor) = split_anchor (drop (colon + 1) tgt) in
       and_then (subrange outer 0 colon) (\<lambda>sr.
       and_then (subrange outer (colon + 1) (colon + 1 + length locator)) (\<lambda>lr.
       and_then (anchor_part anchor) (\<lambda>ar.
         Inr (SchemeDestination (to_ascii_lowercase (take colon tgt)) sr locator lr anchor ar)))))"
    if c: "find_char (CHR '':'') tgt = Some colon" for colon
  proof -
    obtain locator anchor where s: "split_anchor (drop (colon + 1) tgt) = (locator, anchor)"
      by (cases "split_anchor (drop (colon + 1) tgt)")
    note parts = split_anchor_parts [OF s]
    have colon: "colon < length tgt" using c by (rule find_char_length)
    have anchor: "case anchor of None \<Rightarrow> True | Some a \<Rightarrow> length a \<le> length tgt \<and> drop (length tgt - length a) tgt = a"
    proof (cases anchor)
      case (Some a)
      with parts(3) have a: "length a \<le> length tgt - (colon + 1)"
        "drop (length (drop (colon + 1) tgt) - length a) (drop (colon + 1) tgt) = a" by simp_all
      then have "length tgt - length a = length (drop (colon + 1) tgt) - length a + (colon + 1)"
        using colon by simp
      with a Some show ?thesis by (simp only: drop_drop) simp
    qed simp
    have sr: "(subrange outer 0 colon :: 'e failure + TextRange) = Inr (part outer 0 colon)" "within (part outer 0 colon) outer"
      "text_at doc (part outer 0 colon) = take colon tgt"
      using colon within_outer [OF l, of 0 colon] text_at_part [OF l, of 0 colon]
      by (simp_all add: slice_tgt subrange_ok [OF l])
    have "slice tgt (colon + 1) (colon + 1 + length locator) = locator"
      using parts(2) by (simp add: slice_def)
    then have lr: "(subrange outer (colon + 1) (colon + 1 + length locator) :: 'e failure + TextRange)
        = Inr (part outer (colon + 1) (colon + 1 + length locator))"
      "spells doc outer (part outer (colon + 1) (colon + 1 + length locator)) locator"
      using parts(1) colon spells_outer [OF l, of "colon + 1" "colon + 1 + length locator"]
      by (simp_all add: subrange_ok [OF l])
    have "yields (anchor_ok doc outer anchor) (anchor_part anchor)"
      unfolding anchor_part_def using anchor_part_ok [OF l anchor] .
    then have "yields (destination_ok doc outer) (and_then (anchor_part anchor)
        (\<lambda>ar. Inr (SchemeDestination (to_ascii_lowercase (take colon tgt)) (part outer 0 colon) locator
           (part outer (colon + 1) (colon + 1 + length locator)) anchor ar)))"
      using sr(2,3) lr(2) by (elim yields_and_then) simp
    then show ?thesis unfolding s prod.case Let_def sr(1) lr(1) and_then_Inr .
  qed
  have local: "yields (destination_ok doc outer) (if anchor = [] then Inr InvalidDestination
          else and_then (subrange outer 1 (length tgt)) (\<lambda>r. Inr (LocalDestination anchor r)))"
    if "strip_prefix tgt ''#'' = Some anchor" for anchor
  proof -
    have "tgt = ''#'' @ anchor" using that by (simp add: strip_prefix_Some)
    then have "slice tgt 1 (length tgt) = anchor" by (simp add: slice_to_end)
    with spells_outer [OF l, of 1 "length tgt"] \<open>tgt = _\<close>
    show ?thesis by (simp add: subrange_ok [OF l])
  qed
  show ?thesis
    unfolding parse_reference_destination_def Let_def [of "\<lambda>anchor. case anchor of None \<Rightarrow> _ anchor | Some a \<Rightarrow> _ anchor a"]
      anchor_part_def [symmetric]
    using local document scheme unfolding Let_def by (auto split: option.splits)
qed

section \<open>Attribute lists\<close>

lemma trim_start_drop:
  assumes "valid_utf8 s"
  shows "\<exists>a. trim_start s = drop a s \<and> a \<le> length s \<and> char_boundary s a \<and> length s - length (trim_start s) = a"
proof -
  let ?k = "length (takeWhile is_whitespace (chars s))"
  have "trim_start s = drop (char_offset s ?k) s"
    by (simp add: trim_start_def drop_char_offset dropWhile_eq_drop)
  then show ?thesis using char_offset_boundary [OF assms, of ?k] char_offset_le [of s ?k]
    by (intro exI [of _ "char_offset s ?k"]) simp
qed

lemma trim_end_chars: "chars (trim_end s) = rev (dropWhile is_whitespace (rev (chars s)))"
proof -
  have "rev (dropWhile is_whitespace (rev (chars s)))
      = take (length (chars s) - length (takeWhile is_whitespace (rev (chars s)))) (chars s)"
    by (simp add: dropWhile_eq_drop rev_drop)
  then show ?thesis by (simp only: trim_end_def chars_concat_take)
qed

lemma trim_end_take:
  assumes "valid_utf8 s"
  shows "trim_end s = take (length (trim_end s)) s \<and> length (trim_end s) \<le> length s
    \<and> char_boundary s (length (trim_end s))"
proof -
  let ?k = "length (chars s) - length (takeWhile is_whitespace (rev (chars s)))"
  have "trim_end s = take (char_offset s ?k) s"
    by (simp add: trim_end_def take_char_offset dropWhile_eq_drop rev_drop)
  then show ?thesis using char_offset_boundary [OF assms, of ?k] char_offset_le [of s ?k]
    by (simp add: min_absorb1)
qed

lemma trim_end_last: "trim_end s \<noteq> [] \<Longrightarrow> \<not> is_whitespace (last (chars (trim_end s)))"
proof -
  assume "trim_end s \<noteq> []"
  then have "dropWhile is_whitespace (rev (chars s)) \<noteq> []"
    unfolding trim_end_def by (metis concat.simps(1) rev.simps(1))
  from hd_dropWhile [OF this] this show ?thesis unfolding trim_end_chars by (simp add: last_rev)
qed

lemma trim_end_fixed: "\<not> is_whitespace (last (chars t)) \<Longrightarrow> trim_end t = t"
proof -
  assume "\<not> is_whitespace (last (chars t))"
  then have "dropWhile is_whitespace (rev (chars t)) = rev (chars t)"
    by (cases "chars t" rule: rev_cases) simp_all
  then show ?thesis by (simp add: trim_end_def)
qed

lemma trim_end_suffix:
  assumes "valid_utf8 s" "char_boundary (trim_end s) a"
  shows "trim_end (drop a (trim_end s)) = drop a (trim_end s)"
proof (cases "a < length (trim_end s)")
  case True
  let ?t = "trim_end s"
  have "valid_utf8 ?t"
    using valid_utf8_slice [OF assms(1), of 0 "length ?t"] trim_end_take [OF assms(1)] by (simp add: slice_from_zero)
  from char_boundary_offset [OF this assms(2)] obtain k where "a = char_offset ?t k" by blast
  then have "chars (drop a ?t) = drop k (chars ?t)" by (simp add: chars_drop_offset)
  moreover have "chars (drop a ?t) \<noteq> []" by (rule chars_head [OF True])
  ultimately have "last (chars (drop a ?t)) = last (chars ?t)" by simp
  moreover have "?t \<noteq> []" using True by auto
  ultimately show ?thesis using trim_end_last [of s] by (simp add: trim_end_fixed)
qed (simp add: trim_end_def)

lemma footnote_body_attribute_ok:
  assumes "located doc value outer"
  shows "yields (list_all (macro_attribute_ok doc outer)) (footnote_body_attribute value outer)"
proof -
  note v = located_valid [OF assms]
  obtain a where a: "length value - length (trim_start value) = a" "char_boundary value a"
    using trim_start_drop [OF v] by blast
  note e = trim_end_take [OF v]
  show ?thesis
  proof (cases "length (trim_end value) \<le> a")
    case True
    with a show ?thesis by (simp add: footnote_body_attribute_def Let_def)
  next
    case False
    with a e spells_part [OF assms, of a a "length (trim_end value)" "length (trim_end value)"]
      within_outer [OF assms, of a "length (trim_end value)"]
    show ?thesis
      by (simp add: footnote_body_attribute_def Let_def subrange_ok [OF assms] sub_str_ok macro_attribute_ok_def)
  qed
qed

lemma slice_of_slice: "b \<le> length s \<Longrightarrow> j \<le> b - a \<Longrightarrow> slice (slice s a b) i j = slice s (a + i) (a + j)"
  by (cases "i \<le> j") (simp_all add: slice_def take_drop min_absorb1 add.commute)

lemma macro_attribute_item_ok:
  assumes l: "located doc value outer" and b: "char_boundary value start" "char_boundary value offset"
    and le: "start \<le> offset"
  shows "yields (pred_option (macro_attribute_ok doc outer))
    (macro_attribute_item value outer start offset :: 'e failure + MacroAttribute option)"
proof -
  note v = located_valid [OF l]
  let ?raw = "slice value start offset"
  have raw: "valid_utf8 ?raw" "length ?raw = offset - start" "offset \<le> length value"
    using valid_utf8_slice [OF v b le] char_boundary_le [OF b(2)] by (simp_all add: length_slice)
  obtain a where a: "length ?raw - length (trim_start ?raw) = a" "char_boundary ?raw a"
    using trim_start_drop [OF raw(1)] by blast
  define e where "e = length (trim_end ?raw)"
  note e = trim_end_take [OF raw(1), folded e_def]
  have "e \<le> offset - start" using e raw(2) by simp
  then have item_end: "offset - (length ?raw - e) = start + e" using raw(2) le by arith
  note bound = char_boundary_slice [OF b le]
  have "start + e \<le> offset" using \<open>e \<le> offset - start\<close> le by arith
  from slice_take [OF this] e have t: "trim_end ?raw = slice value start (start + e)" by simp
  show ?thesis
  proof (cases "e \<le> a")
    case True
    with a item_end show ?thesis
      by (simp add: macro_attribute_item_def Let_def sub_str_ok b le flip: e_def)
  next
    case False
    then have ae: "a < e" by simp
    let ?item = "slice value (start + a) (start + e)"
    have item_b: "char_boundary value (start + a)" "char_boundary value (start + e)"
      using bound [OF a(2)] bound [of e] e by simp_all
    have not_le: "\<not> start + e \<le> start + a" using ae by simp
    have item_le: "start + a \<le> start + e" and en: "start + e \<le> length value"
      using ae char_boundary_le [OF item_b(2)] by simp_all
    define split where "split = (case find_char (CHR ''='') ?item of
               None \<Rightarrow> (None, ?item, start + a)
             | Some equals \<Rightarrow>
                 (Some (trim (take equals ?item)), drop (equals + 1) ?item, start + a + equals + 1))"
    obtain name v0 where s: "split = (name, slice value v0 (start + e), v0)"
      and v0: "start + a \<le> v0" "v0 \<le> start + e" "char_boundary value v0"
    proof (cases "find_char (CHR ''='') ?item")
      case None
      then show ?thesis using that [of None "start + a"] item_b ae
        by (simp add: split_def del: find_char_None)
    next
      case (Some q)
      have en: "start + e \<le> length value" using item_b(2) by (rule char_boundary_le)
      from find_char_found [OF v _ en Some] ae
      have q: "start + a + q < start + e" "char_boundary value (Suc (start + a + q))" by simp_all
      have "drop (q + 1) ?item = slice value (start + a + q + 1) (start + e)"
        by (simp add: slice_def drop_take add.commute add.left_commute)
      with Some q show ?thesis
        using that [of "Some (trim (take q ?item))" "start + a + q + 1"] by (simp add: split_def)
    qed
    let ?rv = "slice value v0 (start + e)"
    have rv: "valid_utf8 ?rv" using valid_utf8_slice [OF v v0(3) item_b(2) v0(2)] .
    have "char_boundary (trim_end ?raw) (v0 - start)"
      unfolding t using v0 item_b b(1) by (intro char_boundary_in_slice) auto
    moreover have "drop (v0 - start) (trim_end ?raw) = ?rv"
      unfolding t using v0 by (simp add: slice_def drop_take add.commute)
    ultimately have trail: "trim_end ?rv = ?rv" using trim_end_suffix [OF raw(1)] by metis
    obtain c where c: "length ?rv - length (trim_start ?rv) = c" "char_boundary ?rv c" "c \<le> length ?rv"
      using trim_start_drop [OF rv] by blast
    have lrv: "length ?rv = start + e - v0" using char_boundary_le [OF item_b(2)] by (simp add: length_slice)
    let ?vs = "v0 + c" and ?ve = "start + e"
    have vs: "char_boundary value ?vs" "v0 \<le> ?vs" "?vs \<le> ?ve"
      using char_boundary_slice [OF v0(3) item_b(2) v0(2) c(2)] c(3) lrv v0(2) by simp_all
    let ?iv = "slice value ?vs ?ve"
    define quoted where "quoted \<longleftrightarrow> 2 \<le> length ?iv \<and> hd ?iv \<in> {quote_char, double_quote} \<and> hd ?iv = last ?iv"
    let ?vs' = "if quoted then ?vs + 1 else ?vs" and ?ve' = "if quoted then ?ve - 1 else ?ve"
    have q: "char_boundary value ?vs'" "char_boundary value ?ve'" "?vs \<le> ?vs'" "?vs' \<le> ?ve'" "?ve' \<le> ?ve"
    proof -
      have "char_boundary value (Suc ?vs) \<and> char_boundary value (?ve - 1) \<and> Suc ?vs \<le> ?ve - 1" if quoted
      proof -
        from that have iv: "2 \<le> ?ve - ?vs" "hd ?iv \<in> {quote_char, double_quote}" "last ?iv = hd ?iv"
          using char_boundary_le [OF item_b(2)] by (auto simp: quoted_def length_slice)
        then have lt: "?vs < length value" "?ve - 1 < length value" using char_boundary_le [OF item_b(2)] by simp_all
        have "?iv \<noteq> []" using iv(1) char_boundary_le [OF item_b(2)] length_slice [of ?ve "value" ?vs] by force
        then have "value ! ?vs = hd ?iv" "value ! (?ve - 1) = last ?iv"
          using iv(1) char_boundary_le [OF item_b(2)] by (simp_all add: hd_conv_nth last_conv_nth slice_def)
        then have ascii: "byte_val (value ! ?vs) < 128" "byte_val (value ! (?ve - 1)) < 128" using iv by auto
        show ?thesis
          using ascii_at(2) [OF v lt(1) refl ascii(1)] boundary_ascii [OF lt(2) ascii(2)] iv(1) by simp
      qed
      then show "char_boundary value ?vs'" "char_boundary value ?ve'" "?vs \<le> ?vs'" "?vs' \<le> ?ve'" "?ve' \<le> ?ve"
        using vs item_b by auto
    qed
    have ok: "macro_attribute_ok doc outer \<lparr>macro_attribute_range = part outer (start + a) (start + e),
        macro_attribute_value_range = part outer ?vs' ?ve', macro_attribute_name = name,
        macro_attribute_value = slice value ?vs' ?ve'\<rparr>"
      using l spells_part [OF l, of "start + a" ?vs' ?ve' "start + e"] within_outer [OF l, of "start + a" "start + e"]
        q vs v0 ae char_boundary_le [OF item_b(2)]
      by (auto simp: macro_attribute_ok_def)
    have eq: "macro_attribute_item value outer start offset = (Inr (Some \<lparr>macro_attribute_range = part outer (start + a) (start + e),
        macro_attribute_value_range = part outer ?vs' ?ve', macro_attribute_name = name,
        macro_attribute_value = slice value ?vs' ?ve'\<rparr>) :: 'e failure + MacroAttribute option)"
      unfolding macro_attribute_item_def sub_str_ok [OF le b] and_then_Inr Let_def a(1) e_def [symmetric]
        item_end if_not_P [OF not_le] sub_str_ok [OF item_le item_b] split_def [symmetric] s prod.case trail c(1)
        diff_self_eq_0 diff_zero sub_str_ok [OF vs(3,1) item_b(2)] quoted_def [symmetric]
        sub_str_ok [OF q(4,1,2)] subrange_ok [OF l item_le en] subrange_ok [OF l q(4) order_trans [OF q(5) en]] ..
    show ?thesis unfolding eq using ok by simp
  qed
qed

lemma macro_attributes_loop_ok:
  assumes l: "located doc value outer"
  shows "sorted_wrt (\<lambda>a b. fst a < fst b) ps \<Longrightarrow>
     \<forall>p \<in> set ps. start \<le> fst p \<and> char_boundary value (fst p)
       \<and> (snd p = '','' \<longrightarrow> fst p < length value \<longrightarrow> value ! fst p = CHR '','') \<Longrightarrow>
     (ps \<noteq> [] \<longrightarrow> char_boundary value start) \<Longrightarrow> list_all (macro_attribute_ok doc outer) found \<Longrightarrow>
     yields (list_all (macro_attribute_ok doc outer))
       (macro_attributes_loop value outer ps start quote found :: 'e failure + MacroAttribute list)"
proof (induction ps arbitrary: start quote found)
  case (Cons p ps)
  obtain offset ch where p: "p = (offset, ch)" by (cases p)
  define q where "q = (if ch = [quote_char] \<or> ch = [double_quote] then
      (if quote = Some ch then None else if quote = None then Some ch else quote) else quote)"
  show ?case
  proof (cases "ch \<noteq> '','' \<or> q \<noteq> None")
    case True
    have "yields (list_all (macro_attribute_ok doc outer)) (macro_attributes_loop value outer ps start q found :: 'e failure + MacroAttribute list)"
      using Cons.prems by (intro Cons.IH) auto
    moreover have "(macro_attributes_loop value outer (p # ps) start quote found :: 'e failure + MacroAttribute list) = macro_attributes_loop value outer ps start q found"
      unfolding p macro_attributes_loop.simps Let_def q_def [symmetric] using True by simp
    ultimately show ?thesis by simp
  next
    case False
    have o': "char_boundary value start" "char_boundary value offset" "start \<le> offset" using Cons.prems p by simp_all
    have "ps \<noteq> [] \<longrightarrow> char_boundary value (Suc offset)"
    proof
      assume "ps \<noteq> []"
      then have "hd ps \<in> set ps" by simp
      with Cons.prems(1,2) p have "offset < fst (hd ps)" "char_boundary value (fst (hd ps))" by simp_all
      then have "offset < length value" using char_boundary_le [of "value" "fst (hd ps)"] by simp
      with Cons.prems(2) p False have "offset < length value" "value ! offset = CHR '',''" by auto
      from byte_found [OF located_valid [OF l] this] show "char_boundary value (Suc offset)" by simp
    qed
    moreover have "\<forall>p \<in> set ps. Suc offset \<le> fst p"
      using Cons.prems(1) p by auto
    ultimately have "list_all (macro_attribute_ok doc outer) found' \<Longrightarrow> yields (list_all (macro_attribute_ok doc outer))
        (macro_attributes_loop value outer ps (Suc offset) q found' :: 'e failure + MacroAttribute list)" for found'
      using Cons.prems by (intro Cons.IH) auto
    then have "yields (list_all (macro_attribute_ok doc outer)) (and_then (macro_attribute_item value outer start offset)
        (\<lambda>item. macro_attributes_loop value outer ps (offset + 1) q
          (case item of None \<Rightarrow> found | Some a \<Rightarrow> found @ [a])) :: 'e failure + MacroAttribute list)"
      using Cons.prems(4) by (intro yields_and_then [OF macro_attribute_item_ok [OF l o']]) (auto split: option.split)
    moreover have "(macro_attributes_loop value outer (p # ps) start quote found :: 'e failure + MacroAttribute list)
        = and_then (macro_attribute_item value outer start offset)
        (\<lambda>item. macro_attributes_loop value outer ps (offset + 1) q
          (case item of None \<Rightarrow> found | Some a \<Rightarrow> found @ [a]))"
      unfolding p macro_attributes_loop.simps Let_def q_def [symmetric] using False by simp
    ultimately show ?thesis by simp
  qed
qed simp

lemma parse_macro_attributes_ok:
  assumes l: "located doc value outer"
  shows "yields (list_all (macro_attribute_ok doc outer)) (parse_macro_attributes value outer :: 'e failure + MacroAttribute list)"
  unfolding parse_macro_attributes_def
proof (rule macro_attributes_loop_ok [OF l])
  have at: "fst p < length value" "char_boundary value (fst p)" "snd p = '','' \<Longrightarrow> value ! fst p = CHR '',''"
    if "p \<in> set (char_indices value)" for p
    using char_indices_at [of "fst p" "snd p" "value"] that located_valid [OF l] by (cases p; force)+
  then show "sorted_wrt (\<lambda>a b. fst a < fst b) (char_indices value @ [(length value, '','')])"
    using char_indices_sorted [of "value"] by (auto simp: sorted_wrt_append)
  show "\<forall>p \<in> set (char_indices value @ [(length value, '','')]). 0 \<le> fst p \<and> char_boundary value (fst p)
       \<and> (snd p = '','' \<longrightarrow> fst p < length value \<longrightarrow> value ! fst p = CHR '','')"
    using at by auto
qed simp_all

section \<open>Lowering\<close>

text \<open>The parser of shorter fragments: its inlines cover the fragment and are paid for.\<close>

definition output_ok :: "str \<Rightarrow> TextRange \<Rightarrow> ParseBudget \<Rightarrow> InlineParseOutput \<times> ParseBudget \<Rightarrow> bool" where
  "output_ok doc outer b = (\<lambda>(output, b').
     consecutive doc (range_start outer) (map inline_range (output_inlines output)) (range_end outer)
     \<and> list_all (inline_ok doc) (output_inlines output)
     \<and> list_all (\<lambda>p. within (inline_problem_range p) outer) (output_problems output)
     \<and> spent (sum_list (map inline_nodes (output_inlines output)))
         (sum_list (map inline_references (output_inlines output))) b b')"

definition parser_ok :: "str \<Rightarrow> nat \<Rightarrow> segment_parser \<Rightarrow> bool" where
  "parser_ok doc n parse \<longleftrightarrow>
     (\<forall>value outer depth b. length value < n \<longrightarrow> located doc value outer \<longrightarrow>
        yields (output_ok doc outer b) (parse value outer depth b))"

text \<open>An inline that is built but not yet pushed, so its own node is still to be paid.\<close>

definition built_ok :: "str \<Rightarrow> TextRange \<Rightarrow> nat \<Rightarrow> nat \<Rightarrow> ParseBudget \<Rightarrow> BuiltInline \<times> ParseBudget \<Rightarrow> bool" where
  "built_ok doc outer open stop b = (\<lambda>(built, b').
     inline_range (built_inline built) = part outer open stop \<and> built_end built = stop
     \<and> inline_ok doc (built_inline built)
     \<and> list_all (\<lambda>p. within (inline_problem_range p) outer) (built_problems built)
     \<and> spent (inline_nodes (built_inline built) - 1) (inline_references (built_inline built)) b b')"

lemma parse_label_ok:
  assumes l: "located doc value outer" and p: "parser_ok doc (length value) parse"
    and b: "char_boundary value x" "char_boundary value y" "x \<le> y" "0 < x"
  shows "yields (\<lambda>(r, output, b'). r = part outer x y \<and> output_ok doc (part outer x y) b (output, b'))
    (parse_label parse value outer depth x y b)"
proof -
  have y: "y \<le> length value" using b(2) by (rule char_boundary_le)
  have "yields (output_ok doc (part outer x y) b) (parse (slice value x y) (part outer x y) (depth + 1) b)"
    using p located_part [OF l b(1,2,3)] y b(3,4) by (auto simp: parser_ok_def length_slice)
  then have "yields (\<lambda>(r, output, b'). r = part outer x y \<and> output_ok doc (part outer x y) b (output, b'))
      (and_then (parse (slice value x y) (part outer x y) (depth + 1) b)
        (\<lambda>(output, budget). Inr (part outer x y, output, budget)))"
    by (rule yields_and_then) auto
  then show ?thesis
    using b y by (simp add: parse_label_def subrange_ok [OF l] sub_str_ok)
qed

lemma problems_within: "list_all (\<lambda>p. within (inline_problem_range p) r) ps \<Longrightarrow> within r outer \<Longrightarrow>
    list_all (\<lambda>p. within (inline_problem_range p) outer) ps"
  by (auto simp: list_all_iff within_def)

lemma consume_node_spent: "yields (spent 1 0 b) (map_err Err (consume_node b))"
  by (cases b) (simp add: consume_node_def consume_cases spent_def unat_succ_below)

lemma consume_reference_spent: "yields (spent 0 1 b) (map_err Err (consume_reference b))"
  by (cases b) (simp add: consume_reference_def consume_cases spent_def unat_succ_below)

lemma leaf_costs [simp]:
  "inline_nodes (TextInline t) = 1" "inline_references (TextInline t) = 0"
  "inline_nodes (LiteralInline k r c v) = 1" "inline_references (LiteralInline k r c v) = 0"
  "inline_nodes (AttributeReferenceInline r c v x y) = 1" "inline_references (AttributeReferenceInline r c v x y) = 0"
  "inline_nodes (FormulaInline f) = 1" "inline_references (FormulaInline f) = 0"
  "inline_nodes (MacroInline m) = 1" "inline_references (MacroInline m) = 0"
  "inline_nodes (PassthroughInline k2 r c v) = 1" "inline_references (PassthroughInline k2 r c v) = 0"
  by (simp_all add: inline_nodes.simps inline_references.simps)

lemma nested_costs [simp]:
  "inline_nodes (StyledInline s r c inner) = Suc (sum_list (map inline_nodes inner))"
  "inline_references (StyledInline s r c inner) = sum_list (map inline_references inner)"
  "inline_nodes (LinkInline l) = Suc (sum_list (map inline_nodes (link_label l)))"
  "inline_references (LinkInline l) = sum_list (map inline_references (link_label l))"
  "inline_nodes (ReferenceInline x) = Suc (sum_list (map inline_nodes (reference_label x)))"
  "inline_references (ReferenceInline x) = Suc (sum_list (map inline_references (reference_label x)))"
  by (simp_all add: inline_nodes.simps [of "StyledInline s r c inner"] inline_references.simps [of "StyledInline s r c inner"]
      inline_nodes.simps [of "LinkInline l"] inline_references.simps [of "LinkInline l"]
      inline_nodes.simps [of "ReferenceInline x"] inline_references.simps [of "ReferenceInline x"])

lemma build_passthrough_ok:
  assumes l: "located doc value outer" and o: "open \<le> a" "a \<le> b" "b \<le> stop"
    and cb: "char_boundary value a" "char_boundary value b" "stop \<le> length value"
  shows "yields (\<lambda>i. inline_range i = part outer open stop \<and> inline_ok doc i \<and> inline_nodes i = 1 \<and> inline_references i = 0)
    (build_passthrough value outer kind open a b stop)"
  using o cb marks_part [OF l o cb(1,2)]
  by (simp add: build_passthrough_def subrange_ok [OF l] sub_str_ok)

lemma build_formula_ok:
  assumes l: "located doc value outer" and t: "macro_token_ok value (FormulaToken open a b stop closed language)"
  shows "yields (\<lambda>built. built_ok doc outer open stop budget (built, budget))
    (build_formula value outer config open a b stop closed language)"
proof -
  from t have o: "open \<le> a" "a \<le> b" "b \<le> stop" "char_boundary value a" "char_boundary value b" "stop \<le> length value"
    by (simp_all add: char_boundary_le)
  then have "b \<le> length value" by simp
  with o marks_part [OF l o(1-5)] within_outer [OF l] show ?thesis
    by (simp add: build_formula_def subrange_ok [OF l] sub_str_ok built_ok_def)
qed

lemma lower_standard_macro_ok:
  assumes l: "located doc value outer" and t: "macro_token_ok value (StandardMacroToken kind form open a k b stop)"
  shows "yields (\<lambda>built. built_ok doc outer open stop budget (built, budget))
    (lower_standard_macro value outer kind form open a k b stop :: 'e failure + BuiltInline)"
proof -
  from t have o: "open \<le> a" "a \<le> k" "k + 1 \<le> b" "b \<le> stop" "stop \<le> length value" and
    cb: "char_boundary value a" "char_boundary value k" "char_boundary value (k + 1)" "char_boundary value b"
    by (simp_all add: char_boundary_le)
  from o have le: "k \<le> stop" "k \<le> length value" "b \<le> length value" "open \<le> stop" "open \<le> k + 1" by simp_all
  let ?tgt = "slice value a k" and ?body = "slice value (k + 1) b"
  have target: "marks doc (part outer open stop) (part outer a k) ?tgt"
    using marks_part [OF l o(1,2) le(1) cb(1,2)] .
  have uses: "yields (uses_ok doc (part outer a k)) (attribute_uses ?tgt (part outer a k) :: 'e failure + AttributeUse list)"
    by (rule attribute_uses_ok [OF located_part [OF l cb(1,2) o(2)]])
  note body = located_part [OF l cb(3,4) o(3)]
  have found: "yields (list_all (macro_attribute_ok doc (part outer (k + 1) b)))
      (if kind = Footnote then footnote_body_attribute ?body (part outer (k + 1) b)
       else parse_macro_attributes ?body (part outer (k + 1) b) :: 'e failure + MacroAttribute list)"
    by (simp only: footnote_body_attribute_ok [OF body] parse_macro_attributes_ok [OF body] split: if_split) simp
  have inside: "within (part outer (k + 1) b) (part outer open stop)" using o le by (simp add: within_def)
  show ?thesis
    unfolding lower_standard_macro_def subrange_ok [OF l o(3) le(3)] subrange_ok [OF l le(4) o(5)]
      subrange_ok [OF l o(2) le(2)] sub_str_ok [OF o(2) cb(1,2)] sub_str_ok [OF o(3) cb(3,4)] and_then_Inr
    by (intro yields_and_then [OF uses] yields_and_then [OF found])
      (use target inside in \<open>simp add: built_ok_def macro_ok_def\<close>)
qed

lemma build_shorthand_anchor_ok:
  assumes l: "located doc value outer" and t: "macro_token_ok value (ShorthandAnchorToken kind open a b label stop)"
  shows "yields (\<lambda>built. built_ok doc outer open stop budget (built, budget))
    (build_shorthand_anchor value outer kind open a b label stop :: 'e failure + BuiltInline)"
proof -
  from t have o: "open \<le> a" "a \<le> b" "b \<le> stop" "stop \<le> length value" "char_boundary value a" "char_boundary value b"
    by (simp_all add: char_boundary_le)
  then have "b \<le> length value" "open \<le> stop" by simp_all
  note o = o this
  have target: "marks doc (part outer open stop) (part outer a b) (slice value a b)"
    using marks_part [OF l o(1-3,5,6)] .
  show ?thesis
  proof (cases label)
    case None
    with o target show ?thesis
      by (simp add: build_shorthand_anchor_def subrange_ok [OF l] sub_str_ok built_ok_def macro_ok_def uses_ok_def)
  next
    case (Some xy)
    obtain x y where xy: "xy = (x, y)" by (cases xy)
    from t Some xy have q: "x \<le> y" "y \<le> stop" "char_boundary value x" "char_boundary value y" "b \<le> x" by simp_all
    have "spells doc (part outer x y) (part outer x y) (slice value x y)"
      using spells_part [OF l order_refl q(1) order_refl] q o by simp
    with Some xy o q target show ?thesis
      by (simp add: build_shorthand_anchor_def subrange_ok [OF l] sub_str_ok built_ok_def macro_ok_def
          uses_ok_def macro_attribute_ok_def)
  qed
qed

lemma build_email_ok:
  assumes l: "located doc value outer" and t: "macro_token_ok value (EmailToken open stop)"
  shows "yields (\<lambda>built. built_ok doc outer open stop budget (built, budget))
    (build_email value outer open stop :: 'e failure + BuiltInline)"
proof -
  from t have o: "open \<le> stop" "stop \<le> length value" "char_boundary value open" "char_boundary value stop"
    by (simp_all add: char_boundary_le)
  with marks_part [OF l order_refl o(1) order_refl o(3,4)] show ?thesis
    by (simp add: build_email_def subrange_ok [OF l] sub_str_ok built_ok_def macro_ok_def uses_ok_def)
qed

text \<open>A label that may be absent.\<close>

definition label_ok :: "str \<Rightarrow> nat \<Rightarrow> TextRange \<Rightarrow> ParseBudget \<Rightarrow> TextRange option \<times> InlineParseOutput \<times> ParseBudget \<Rightarrow> bool" where
  "label_ok doc a outer b = (\<lambda>(r, output, b').
     label_range_ok doc a outer r (map inline_range (output_inlines output))
     \<and> list_all (inline_ok doc) (output_inlines output)
     \<and> list_all (\<lambda>p. within (inline_problem_range p) outer) (output_problems output)
     \<and> spent (sum_list (map inline_nodes (output_inlines output)))
         (sum_list (map inline_references (output_inlines output))) b b')"

lemma no_label_ok: "label_ok doc a outer b (None, \<lparr>output_inlines = [], output_problems = []\<rparr>, b)"
  by (simp add: label_ok_def)

lemma output_label_ok:
  "output_ok doc r b (output, b') \<Longrightarrow> within r outer \<Longrightarrow> cut doc r \<Longrightarrow> a \<le> range_start r \<Longrightarrow>
     label_ok doc a outer b (Some r, output, b')"
  using problems_within by (auto simp: output_ok_def label_ok_def)

lemma label_ok_iff:
  "label_ok doc a outer b (r, output, b') \<longleftrightarrow>
     label_range_ok doc a outer r (map inline_range (output_inlines output))
     \<and> list_all (inline_ok doc) (output_inlines output)
     \<and> list_all (\<lambda>p. within (inline_problem_range p) outer) (output_problems output)
     \<and> spent (sum_list (map inline_nodes (output_inlines output)))
         (sum_list (map inline_references (output_inlines output))) b b'"
  by (simp add: label_ok_def)

lemma parse_inner_label_ok:
  assumes l: "located doc value outer" and p: "parser_ok doc (length value) parse"
    and q: "open \<le> x" "x \<le> y" "y \<le> stop" "0 < x" "char_boundary value x" "char_boundary value y"
    and e: "e \<le> x"
  shows "yields (\<lambda>(r, output, b'). r = part outer x y
      \<and> label_ok doc (range_start outer + e) (part outer open stop) b (Some r, output, b'))
    (parse_label parse value outer depth x y b)"
  by (rule yields_mono [OF parse_label_ok [OF l p q(5,6,2,4)]])
    (use q e cut_part [OF l q(5,6)] in \<open>auto intro!: output_label_ok\<close>)

lemma maybe_label_ok:
  assumes l: "located doc value outer" and p: "parser_ok doc (length value) parse"
    and label: "case label of None \<Rightarrow> True | Some (x, y) \<Rightarrow>
      open \<le> x \<and> e \<le> x \<and> x \<le> y \<and> y \<le> stop \<and> 0 < x \<and> char_boundary value x \<and> char_boundary value y"
  shows "yields (label_ok doc (range_start outer + e) (part outer open stop) b) (case label of
         None \<Rightarrow> Inr (None, \<lparr>output_inlines = [], output_problems = []\<rparr>, b)
       | Some (x, y) \<Rightarrow>
           and_then (parse_label parse value outer depth x y b) (\<lambda>(label_r, output, budget).
             Inr (Some label_r, output, budget)))"
proof (cases label)
  case None
  then show ?thesis by (simp add: no_label_ok)
next
  case (Some xy)
  obtain x y where xy: "xy = (x, y)" by (cases xy)
  from label Some xy have q: "open \<le> x" "x \<le> y" "y \<le> stop" "0 < x" "char_boundary value x" "char_boundary value y"
    "e \<le> x" by simp_all
  have "yields (label_ok doc (range_start outer + e) (part outer open stop) b) (and_then (parse_label parse value outer depth x y b)
      (\<lambda>(label_r, output, budget). Inr (Some label_r, output, budget)))"
    by (rule yields_and_then [OF parse_inner_label_ok [OF l p q]]) auto
  with Some xy show ?thesis by simp
qed

lemma within_part_trans: "within r (part outer a b) \<Longrightarrow> located doc value outer \<Longrightarrow> b \<le> length value \<Longrightarrow> within r outer"
  by (auto simp: within_def located_def)

lemma problems_part:
  "list_all (\<lambda>p. within (inline_problem_range p) (part outer a b)) ps \<Longrightarrow> located doc value outer \<Longrightarrow>
     b \<le> length value \<Longrightarrow> list_all (\<lambda>p. within (inline_problem_range p) outer) ps"
  by (auto simp: list_all_iff intro: within_part_trans)

lemma build_explicit_link_ok:
  assumes l: "located doc value outer" and p: "parser_ok doc (length value) parse"
    and t: "macro_token_ok value (ExplicitLinkToken open a k b stop)"
  shows "yields (built_ok doc outer open stop budget)
    (build_explicit_link parse value outer depth open a k b stop budget)"
proof -
  from t have "open + 2 \<le> a" by simp
  then have "0 < a" "open \<le> a - 1" by arith+
  with t have o: "open \<le> a" "a \<le> k" "k + 1 \<le> b" "b \<le> stop" "stop \<le> length value" "0 < a" "open \<le> a - 1" and
    cb: "char_boundary value a" "char_boundary value k" "char_boundary value (k + 1)" "char_boundary value b"
    by (simp_all add: char_boundary_le)
  from o have le: "k \<le> stop" "k \<le> length value" "open \<le> stop" "open \<le> k + 1" "a - 1 \<le> length value" "a - 1 \<le> stop"
    "0 < k + 1" "k \<le> k + 1" by simp_all
  have target: "marks doc (part outer open stop) (part outer a k) (slice value a k)"
    using marks_part [OF l o(1,2) le(1) cb(1,2)] .
  have uses: "yields (uses_ok doc (part outer a k)) (attribute_uses (slice value a k) (part outer a k) :: BudgetExceeded failure + AttributeUse list)"
    by (rule attribute_uses_ok [OF located_part [OF l cb(1,2) o(2)]])
  have inside: "within (part outer (k + 1) b) (part outer open stop)" using o le by (simp add: within_def)
  have name: "within (part outer open (a - 1)) (part outer open stop)"
    unfolding within_part using o(7) le(6) by blast
  show ?thesis
    unfolding build_explicit_link_def subrange_ok [OF l o(2) le(2)] sub_str_ok [OF o(2) cb(1,2)]
      subrange_ok [OF l le(3) o(5)] subrange_ok [OF l o(7) le(5)] and_then_Inr
    by (intro yields_and_then [OF parse_inner_label_ok [OF l p le(4) o(3,4) le(7) cb(3,4) le(8)]])
      (use target inside name problems_part [OF _ l o(5)] in
        \<open>auto simp: built_ok_def label_ok_iff intro!: yields_and_then [OF uses]\<close>)
qed

lemma build_url_link_ok:
  assumes l: "located doc value outer" and p: "parser_ok doc (length value) parse"
    and t: "macro_token_ok value (UrlLinkToken open b label stop)"
  shows "yields (built_ok doc outer open stop budget)
    (build_url_link parse value outer depth open b label stop budget)"
proof -
  from t have o: "open \<le> b" "b \<le> stop" "stop \<le> length value" "char_boundary value open" "char_boundary value b"
    and label: "case label of None \<Rightarrow> True | Some (x, y) \<Rightarrow>
      open \<le> x \<and> b \<le> x \<and> x \<le> y \<and> y \<le> stop \<and> 0 < x \<and> char_boundary value x \<and> char_boundary value y"
    by (auto simp: char_boundary_le split: option.splits)
  from o have le: "open \<le> stop" "b \<le> length value" by simp_all
  have target: "marks doc (part outer open stop) (part outer open b) (slice value open b)"
    using marks_part [OF l order_refl o(1,2,4,5)] .
  have uses: "yields (uses_ok doc (part outer open b)) (attribute_uses (slice value open b) (part outer open b) :: BudgetExceeded failure + AttributeUse list)"
    by (rule attribute_uses_ok [OF located_part [OF l o(4,5,1)]])
  show ?thesis
    unfolding build_url_link_def subrange_ok [OF l o(1) le(2)] sub_str_ok [OF o(1,4,5)]
      subrange_ok [OF l le(1) o(3)] and_then_Inr
    by (intro yields_and_then [OF maybe_label_ok [OF l p label]])
      (use target problems_part [OF _ l o(3)] in
        \<open>auto simp: built_ok_def label_ok_iff intro!: yields_and_then [OF uses]\<close>)
qed

lemma lower_xref_ok:
  assumes l: "located doc value outer" and p: "parser_ok doc (length value) parse"
    and t: "macro_token_ok value (XrefToken open a k b stop)"
  shows "yields (built_ok doc outer open stop budget)
    (lower_xref parse value outer depth open a k b stop budget)"
proof -
  from t have "open + 2 \<le> a" by simp
  then have "0 < a" "open \<le> a - 1" by arith+
  with t have o: "open \<le> a" "a \<le> k" "k + 1 \<le> b" "b \<le> stop" "stop \<le> length value" "0 < a" "open \<le> a - 1" and
    cb: "char_boundary value a" "char_boundary value k" "char_boundary value (k + 1)" "char_boundary value b"
    by (simp_all add: char_boundary_le)
  from o have le: "k \<le> stop" "k \<le> length value" "open \<le> stop" "open \<le> k + 1" "a - 1 \<le> length value" "a - 1 \<le> stop"
    "0 < k + 1" "k \<le> k + 1" by simp_all
  have target: "marks doc (part outer open stop) (part outer a k) (slice value a k)"
    using marks_part [OF l o(1,2) le(1) cb(1,2)] .
  note tgt = located_part [OF l cb(1,2) o(2)]
  have uses: "yields (uses_ok doc (part outer a k)) (attribute_uses (slice value a k) (part outer a k) :: BudgetExceeded failure + AttributeUse list)"
    by (rule attribute_uses_ok [OF tgt])
  have destination: "yields (destination_ok doc (part outer a k))
      (parse_reference_destination (slice value a k) (part outer a k) :: BudgetExceeded failure + ReferenceDestination)"
    by (rule parse_reference_destination_ok [OF tgt])
  have inside: "within (part outer (k + 1) b) (part outer open stop)" using o le by (simp add: within_def)
  have name: "within (part outer open (a - 1)) (part outer open stop)"
    unfolding within_part using o(7) le(6) by blast
  have rest: "yields (built_ok doc outer open stop budget) (and_then (parse_label parse value outer depth (k + 1) b b1) (\<lambda>(label_r, label, budget).
     and_then (attribute_uses (slice value a k) (part outer a k)) (\<lambda>uses.
     and_then (parse_reference_destination (slice value a k) (part outer a k)) (\<lambda>destination.
       Inr (\<lparr>built_inline = ReferenceInline (Reference (part outer open stop) (Some (part outer open (a - 1))) (part outer a k)
               (slice value a k) (slice value a k) uses None
               destination (ReferenceKey_parse (slice value a k)) (Some label_r) (output_inlines label)),
             built_end = stop, built_problems = output_problems label\<rparr>, budget)))))"
    if b1: "spent 0 1 budget b1" for b1
    by (intro yields_and_then [OF parse_inner_label_ok [OF l p le(4) o(3,4) le(7) cb(3,4) le(8)]])
      (use target inside name problems_part [OF _ l o(5)] spent_trans [OF b1] in
        \<open>auto simp: built_ok_def label_ok_iff intro!: yields_and_then [OF uses] yields_and_then [OF destination]
          \<close>)
  show ?thesis
    unfolding lower_xref_def subrange_ok [OF l o(2) le(2)] sub_str_ok [OF o(2) cb(1,2)]
      subrange_ok [OF l le(3) o(5)] subrange_ok [OF l o(7) le(5)] and_then_Inr
    by (rule yields_and_then [OF consume_reference_spent rest])
qed

lemma lower_short_reference_ok:
  assumes l: "located doc value outer" and p: "parser_ok doc (length value) parse"
    and t: "macro_token_ok value (ShortReferenceToken open a b stop)"
  shows "yields (built_ok doc outer open stop budget)
    (lower_short_reference parse value outer depth open a b stop budget)"
proof -
  from t have o: "open \<le> a" "a \<le> b" "b \<le> stop" "stop \<le> length value" "0 < a" and
    cb: "char_boundary value a" "char_boundary value b" by (simp_all add: char_boundary_le)
  from o have le: "open \<le> stop" "b \<le> length value" by simp_all
  let ?tgt = "slice value a b"
  define split where "split = (case split_once_char (CHR '','') ?tgt of None \<Rightarrow> (?tgt, None) | Some (x, l) \<Rightarrow> (x, Some l))"
  have len: "length ?tgt = b - a" using le by (simp add: length_slice)
  have parts: "\<exists>c label. split = (slice value a c, label) \<and> a \<le> c \<and> c \<le> b \<and> char_boundary value c
      \<and> (case label of None \<Rightarrow> True
         | Some l \<Rightarrow> open \<le> b - length l \<and> c \<le> b - length l \<and> b - length l \<le> b \<and> b \<le> stop \<and> 0 < b - length l
             \<and> char_boundary value (b - length l) \<and> char_boundary value b)"
  proof (cases "find_char (CHR '','') ?tgt")
    case None
    then have "split = (?tgt, None)" by (simp add: split_def split_once_char_def del: find_char_None)
    with o cb show ?thesis by (intro exI [of _ b] exI [of _ None]) simp
  next
    case (Some k)
    from find_char_found [OF located_valid [OF l] o(2) le(2) Some]
    have k: "a + k < b" "char_boundary value (a + k)" "char_boundary value (Suc (a + k))" by simp_all
    have "split = (take k ?tgt, Some (drop (Suc k) ?tgt))" using Some by (simp add: split_def split_once_char_def)
    moreover have "take k ?tgt = slice value a (a + k)" using k(1) by (simp add: slice_take)
    moreover have "b - length (drop (Suc k) ?tgt) = Suc (a + k)" using len k(1) by simp
    ultimately show ?thesis using k o cb by (intro exI [of _ "a + k"] exI [of _ "Some (drop (Suc k) ?tgt)"]) simp
  qed
  then obtain c label where s: "split = (slice value a c, label)" and c: "a \<le> c" "c \<le> b" "char_boundary value c"
    and label: "case label of None \<Rightarrow> True
         | Some l \<Rightarrow> open \<le> b - length l \<and> c \<le> b - length l \<and> b - length l \<le> b \<and> b \<le> stop \<and> 0 < b - length l
             \<and> char_boundary value (b - length l) \<and> char_boundary value b" by blast
  define anchor where "anchor = slice value a c"
  have anchor_len: "a + length anchor = c" using c le by (simp add: length_slice anchor_def)
  have cs: "c \<le> stop" "c \<le> length value" using c o by simp_all
  have target: "marks doc (part outer open stop) (part outer a c) anchor"
    using marks_part [OF l o(1) c(1) cs(1) cb(1) c(3)] unfolding anchor_def .
  have here: "spells doc (part outer a c) (part outer a c) anchor"
    using spells_part [OF l order_refl c(1) order_refl cs(2)] unfolding anchor_def .
  have uses: "yields (uses_ok doc (part outer a c)) (attribute_uses anchor (part outer a c) :: BudgetExceeded failure + AttributeUse list)"
    unfolding anchor_def by (rule attribute_uses_ok [OF located_part [OF l cb(1) c(3,1)]])
  have labelled: "yields (label_ok doc (range_start outer + c) (part outer open stop) b1) (case label of
         None \<Rightarrow> Inr (None, \<lparr>output_inlines = [], output_problems = []\<rparr>, b1)
       | Some l \<Rightarrow>
           and_then (parse_label parse value outer depth (b - length l) b b1)
             (\<lambda>(label_r, output, budget). Inr (Some label_r, output, budget)))" for b1
  proof (cases label)
    case None
    then show ?thesis by (simp add: no_label_ok)
  next
    case (Some x)
    with label have q: "open \<le> b - length x" "b - length x \<le> b" "b \<le> stop" "0 < b - length x"
      "char_boundary value (b - length x)" "char_boundary value b" "c \<le> b - length x" by simp_all
    show ?thesis unfolding Some option.case
      by (rule yields_and_then [OF parse_inner_label_ok [OF l p q]]) auto
  qed
  have rest: "yields (built_ok doc outer open stop budget) (and_then (case label of
         None \<Rightarrow> Inr (None, \<lparr>output_inlines = [], output_problems = []\<rparr>, b1)
       | Some l \<Rightarrow>
           and_then (parse_label parse value outer depth (b - length l) b b1)
             (\<lambda>(label_r, output, budget). Inr (Some label_r, output, budget))) (\<lambda>(label_r, output, budget).
     and_then (attribute_uses anchor (part outer a c)) (\<lambda>uses.
       Inr (\<lparr>built_inline = ReferenceInline (Reference (part outer open stop) None (part outer a c) anchor anchor uses None
               (if anchor = [] then InvalidDestination else LocalDestination anchor (part outer a c))
               (if anchor = [] then None else Some (LocalKey anchor)) label_r (output_inlines output)),
             built_end = stop, built_problems = output_problems output\<rparr>, budget))))"
    if b1: "spent 0 1 budget b1" for b1
  proof (rule yields_and_then [OF labelled], clarify)
    fix r label_output b2 assume lab: "label_ok doc (range_start outer + c) (part outer open stop) b1 (r, label_output, b2)"
    show "yields (built_ok doc outer open stop budget) (and_then (attribute_uses anchor (part outer a c)) (\<lambda>uses.
       Inr (\<lparr>built_inline = ReferenceInline (Reference (part outer open stop) None (part outer a c) anchor anchor uses None
               (if anchor = [] then InvalidDestination else LocalDestination anchor (part outer a c))
               (if anchor = [] then None else Some (LocalKey anchor)) r (output_inlines label_output)),
             built_end = stop, built_problems = output_problems label_output\<rparr>, b2)) :: (BuiltInline \<times> ParseBudget) parsed)"
      by (intro yields_and_then [OF uses])
        (use lab target here problems_part [OF _ l o(4)] spent_trans [OF b1] in \<open>auto simp: built_ok_def label_ok_iff\<close>)
  qed
  show ?thesis
    unfolding lower_short_reference_def sub_str_ok [OF o(2) cb] and_then_Inr split_def [symmetric] Let_def s prod.case
      anchor_def [symmetric]       anchor_len subrange_ok [OF l c(1) cs(2)] subrange_ok [OF l le(1) o(4)]
    by (rule yields_and_then [OF consume_reference_spent rest])
qed

lemma build_macro_ok:
  assumes l: "located doc value outer" and p: "parser_ok doc (length value) parse"
    and t: "macro_token_ok value t"
  shows "yields (built_ok doc outer (macro_open t) (macro_end t) budget)
    (build_macro parse config value outer depth t budget)"
proof (cases t)
  case (FormulaToken "open" a b stop closed language)
  show ?thesis unfolding build_macro_def FormulaToken MacroToken.case macro_open.simps macro_end.simps
    by (rule yields_and_then [OF build_formula_ok [OF l t [unfolded FormulaToken]]]) simp
next
  case (PassthroughMacroToken "open" a b stop)
  with t have o: "open \<le> a" "a \<le> b" "b \<le> stop" "char_boundary value a" "char_boundary value b" "stop \<le> length value"
    by (simp_all add: char_boundary_le)
  show ?thesis unfolding build_macro_def PassthroughMacroToken MacroToken.case macro_open.simps macro_end.simps
    by (rule yields_and_then [OF build_passthrough_ok [OF l o]]) (simp add: built_ok_def)
next
  case (StandardMacroToken kind form "open" a k b stop)
  show ?thesis unfolding build_macro_def StandardMacroToken MacroToken.case macro_open.simps macro_end.simps
    by (rule yields_and_then [OF lower_standard_macro_ok [OF l t [unfolded StandardMacroToken]]]) simp
next
  case (ShorthandAnchorToken kind "open" a b label stop)
  show ?thesis unfolding build_macro_def ShorthandAnchorToken MacroToken.case macro_open.simps macro_end.simps
    by (rule yields_and_then [OF build_shorthand_anchor_ok [OF l t [unfolded ShorthandAnchorToken]]]) simp
next
  case (EmailToken "open" stop)
  show ?thesis unfolding build_macro_def EmailToken MacroToken.case macro_open.simps macro_end.simps
    by (rule yields_and_then [OF build_email_ok [OF l t [unfolded EmailToken]]]) simp
qed (use t lower_short_reference_ok [OF l p] lower_xref_ok [OF l p] build_explicit_link_ok [OF l p]
    build_url_link_ok [OF l p] in \<open>simp_all add: build_macro_def del: macro_token_ok.simps\<close>)

lemma lower_marker_ok:
  assumes l: "located doc value outer" and p: "parser_ok doc (length value) parse"
    and at: "marker_at value open marker form" and c: "closer_ok value open form close"
  shows "yields (built_ok doc outer open (close + form_width form) budget)
    (lower_marker parse config value outer depth
       \<lparr>token_open = open, token_close = close, token_end = close + form_width form,
        token_marker = marker, token_form = form\<rparr> budget)"
proof -
  let ?from = "open + form_width form" and ?stop = "close + form_width form"
  from at c have cb: "char_boundary value open" "char_boundary value ?from" "char_boundary value close" "char_boundary value ?stop"
    and o: "?from \<le> close" "?stop \<le> length value" by (simp_all add: marker_at_def closer_ok_def)
  then have le: "open \<le> ?stop" "close \<le> length value" "open \<le> ?from" "close \<le> ?stop" by simp_all
  have content: "marks doc (part outer open ?stop) (part outer ?from close) (slice value ?from close)"
    using marks_part [OF l le(3) o(1) le(4) cb(2,3)] .
  have node: "text_at doc (part outer open ?stop) = slice value open ?stop"
    using text_at_part [OF l le(1) o(2)] .
  have inside: "within (part outer open ?stop) outer" using within_outer [OF l] le(1) o(2) by simp
  note start = subrange_ok [OF l le(1) o(2)] subrange_ok [OF l o(1) le(2)]
  consider "marker = CHR ''`''" | style where "span_style marker = Some style" "marker \<noteq> CHR ''`''"
    | "marker = CHR ''{''" using at by (auto simp: marker_at_def span_style_def)
  then show ?thesis
  proof cases
    case 1
    define content where "content = slice value ?from close"
    define literal where "literal \<longleftrightarrow> 3 \<le> length content \<and> starts_with content ''+'' \<and> ends_with content ''+''"
    let ?a = "if literal then ?from + 1 else ?from" and ?b = "if literal then close - 1 else close"
    have q: "char_boundary value ?a" "char_boundary value ?b" "open \<le> ?a" "?a \<le> ?b" "?b \<le> ?stop" "?b \<le> length value"
    proof -
      have "char_boundary value (Suc ?from) \<and> char_boundary value (close - 1) \<and> Suc ?from \<le> close - 1" if literal
      proof -
        from that have lit: "3 \<le> close - ?from" "starts_with content ''+''" "ends_with content ''+''"
          using le(2) by (simp_all add: literal_def content_def length_slice)
        have len: "length content = close - ?from" using le(2) by (simp add: content_def length_slice)
        have "content ! 0 = CHR ''+''" "content ! (length content - 1) = CHR ''+''"
          using lit(2,3) len lit(1) by (auto simp: starts_with_prefix ends_with_def nth_append
              dest!: arg_cong [where f = hd] simp flip: hd_drop_conv_nth)
        then have "value ! ?from = CHR ''+''" "value ! (close - 1) = CHR ''+''"
          using lit(1) le(2) len by (simp_all add: content_def slice_def)
        then have "char_boundary value (Suc ?from)" "char_boundary value (close - 1)"
          using byte_found [OF located_valid [OF l], of ?from "CHR ''+''"] byte_found [OF located_valid [OF l], of "close - 1" "CHR ''+''"]
            lit(1) le(2) by simp_all
        with lit(1) show ?thesis by simp
      qed
      then show "char_boundary value ?a" "char_boundary value ?b" "open \<le> ?a" "?a \<le> ?b" "?b \<le> ?stop" "?b \<le> length value"
        using cb o le by auto
    qed
    have "lower_marker parse config value outer depth
       \<lparr>token_open = open, token_close = close, token_end = ?stop, token_marker = marker, token_form = form\<rparr> budget
      = Inr (\<lparr>built_inline = LiteralInline Monospace (part outer open ?stop) (part outer ?a ?b) (slice value ?a ?b),
          built_end = ?stop, built_problems = []\<rparr>, budget)"
      unfolding lower_marker_def Let_def MarkerToken.select_convs start and_then_Inr if_P [OF 1]
        sub_str_ok [OF o(1) cb(2,3)] content_def [symmetric] literal_def [symmetric]
        subrange_ok [OF l q(4,6)] sub_str_ok [OF q(4,1,2)] ..
    with marks_part [OF l q(3,4,5,1,2)] show ?thesis by (simp add: built_ok_def)
  next
    case (2 style)
    show ?thesis
    proof (cases "inline_max_depth config \<le> depth")
      case True
      with 2 inside node cb le show ?thesis
        by (simp add: lower_marker_def Let_def start sub_str_ok built_ok_def unescapes_def)
    next
      case False
      have short: "length (slice value ?from close) < length value"
        using o le(2) by (simp add: length_slice) (use form_width_pos [of form] in linarith)
      have inner: "yields (output_ok doc (part outer ?from close) budget)
          (parse (slice value ?from close) (part outer ?from close) (depth + 1) budget)"
        using p located_part [OF l cb(2,3) o(1)] short by (simp add: parser_ok_def)
      have "within (part outer ?from close) (part outer open ?stop)" by (simp add: o le)
      then have "yields (built_ok doc outer open ?stop budget)
          (and_then (parse (slice value ?from close) (part outer ?from close) (depth + 1) budget) (\<lambda>(inner, budget).
              Inr (\<lparr>built_inline = StyledInline style (part outer open ?stop) (part outer ?from close) (output_inlines inner),
                    built_end = ?stop, built_problems = output_problems inner\<rparr>, budget)))"
        by (intro yields_and_then [OF inner])
          (use problems_part [OF _ l le(2)] cut_part [OF l cb(2,3)] in \<open>auto simp: built_ok_def output_ok_def\<close>)
      with 2 False show ?thesis
        by (simp add: lower_marker_def Let_def start sub_str_ok [OF o(1) cb(2,3)])
    qed
  next
    case 3
    with content show ?thesis
      by (simp add: lower_marker_def Let_def start sub_str_ok [OF o(1) cb(2,3)] built_ok_def span_style_def)
  qed
qed

end
