(* ===== verification/Inline_Tiling.thy ===== *)
theory Inline_Tiling
  imports Inline_Lowering
begin

text \<open>
  The loop over the candidates keeps the inlines found so far consecutive up to the start of the
  plain text. So the parser never panics, the fuel is enough, the inlines of a fragment cover it
  without gaps or overlaps, and each of them is paid for exactly once.
\<close>

section \<open>Pushing inlines\<close>

text \<open>The inlines up to \<open>p\<close>, and what is paid for them; \<open>n\<close> and \<open>m\<close> are paid in advance.\<close>

definition pushed ::
    "str \<Rightarrow> TextRange \<Rightarrow> nat \<Rightarrow> nat \<Rightarrow> nat \<Rightarrow> ParseBudget \<Rightarrow> Inline list \<times> ParseBudget \<Rightarrow> bool" where
  "pushed doc outer p n m b = (\<lambda>(inlines, b').
     consecutive doc (range_start outer) (map inline_range inlines) (range_start outer + p)
     \<and> list_all (inline_ok doc) inlines
     \<and> spent (sum_list (map inline_nodes inlines) + n) (sum_list (map inline_references inlines) + m) b b')"

lemma inline_nodes_pos: "0 < inline_nodes i"
  by (simp add: inline_nodes.simps [of i])

lemma push_inline_ok:
  assumes "pushed doc outer p (inline_nodes i - 1) (inline_references i) b (inlines, b1)"
    and "inline_range i = part outer p q" "p < q" "inline_ok doc i" "cut doc (part outer p q)"
  shows "yields (pushed doc outer q 0 0 b) (push_inline inlines i b1)"
  unfolding push_inline_def
proof (rule yields_and_then [OF consume_node_spent])
  fix b2 assume s: "spent 1 0 b1 b2"
  from assms(1) have "spent (sum_list (map inline_nodes inlines) + (inline_nodes i - 1))
      (sum_list (map inline_references inlines) + inline_references i) b b1" by (simp add: pushed_def)
  from spent_trans [OF this s] inline_nodes_pos [of i]
  have "spent (sum_list (map inline_nodes inlines) + inline_nodes i)
      (sum_list (map inline_references inlines) + inline_references i) b b2" by simp
  with assms show "yields (pushed doc outer q 0 0 b) (Inr (inlines @ [i], b2) :: (Inline list \<times> ParseBudget) parsed)"
    by (auto simp: pushed_def consecutive_append)
qed

text \<open>A text is one node, so it can be pushed while another inline is already paid for.\<close>

lemma push_text_ok:
  assumes l: "located doc value outer" and p: "pushed doc outer p n m b (inlines, b1)"
    and q: "p \<le> q" "char_boundary value p" "char_boundary value q"
  shows "yields (pushed doc outer q n m b) (push_text inlines value outer p q b1)"
proof (cases "p = q")
  case True
  with p show ?thesis by (simp add: push_text_def)
next
  case False
  let ?i = "TextInline \<lparr>inline_text_range = part outer p q, inline_text_value = slice value p q\<rparr>"
  have len: "q \<le> length value" using q(3) by (rule char_boundary_le)
  have i: "inline_ok doc ?i" using text_at_part [OF l q(1) len] by (simp add: unescapes_def)
  have "yields (pushed doc outer q n m b) (push_inline inlines ?i b1)"
    unfolding push_inline_def
  proof (rule yields_and_then [OF consume_node_spent])
    fix b2 assume s: "spent 1 0 b1 b2"
    from p have "spent (sum_list (map inline_nodes inlines) + n) (sum_list (map inline_references inlines) + m) b b1"
      by (simp add: pushed_def)
    from spent_trans [OF this s] p i False q(1) cut_part [OF l q(2,3)]
    show "yields (pushed doc outer q n m b) (Inr (inlines @ [?i], b2) :: (Inline list \<times> ParseBudget) parsed)"
      by (auto simp: pushed_def consecutive_append)
  qed
  with False show ?thesis
    by (simp add: push_text_def subrange_ok [OF l q(1) len] sub_str_ok [OF q])
qed

section \<open>The state of the loop\<close>

definition segment_ok ::
    "str \<Rightarrow> str \<Rightarrow> TextRange \<Rightarrow> nat \<Rightarrow> nat \<Rightarrow> ParseBudget \<Rightarrow> SegmentState \<Rightarrow> bool" where
  "segment_ok doc value outer n m b st \<longleftrightarrow>
     plain_start st \<le> segment_cursor st \<and> segment_cursor st \<le> length value
     \<and> char_boundary value (plain_start st) \<and> clean_end value (plain_start st)
     \<and> pushed doc outer (plain_start st) n m b (segment_inlines st, segment_budget st)
     \<and> list_all (\<lambda>p. within (inline_problem_range p) outer) (segment_problems st)"

lemma segment_ok_closers [simp]:
  "segment_ok doc value outer n m b (st\<lparr>suppressed_closers := closers\<rparr>) = segment_ok doc value outer n m b st"
  by (simp add: segment_ok_def)

lemma move_cursor:
  "segment_ok doc value outer n m b st \<Longrightarrow> plain_start st \<le> c \<Longrightarrow> c \<le> length value \<Longrightarrow>
     segment_ok doc value outer n m b (st\<lparr>segment_cursor := c\<rparr>)"
  by (simp add: segment_ok_def)

lemma add_problem_ok:
  "segment_ok doc value outer n m b st \<Longrightarrow> within r outer \<Longrightarrow> segment_ok doc value outer n m b (add_problem kind r st)"
  by (simp add: segment_ok_def add_problem_def)

lemma pay_in_advance:
  "segment_ok doc value outer 0 0 b st \<Longrightarrow> spent n m (segment_budget st) b1 \<Longrightarrow>
     segment_ok doc value outer n m b (st\<lparr>segment_budget := b1\<rparr>)"
  using spent_trans by (fastforce simp: segment_ok_def pushed_def)

lemma emit_ok:
  assumes l: "located doc value outer"
    and st: "segment_ok doc value outer (inline_nodes i - 1) (inline_references i) b st"
    and at: "plain_start st \<le> from" "from < stop" "char_boundary value from" "char_boundary value stop"
      "clean_end value stop"
    and i: "inline_range i = part outer from stop" "inline_ok doc i"
  shows "yields (\<lambda>st'. segment_ok doc value outer 0 0 b st' \<and> segment_cursor st' = stop
      \<and> segment_problems st' = segment_problems st) (emit value outer from i stop st)"
proof -
  have p: "pushed doc outer (plain_start st) (inline_nodes i - 1) (inline_references i) b
      (segment_inlines st, segment_budget st)" "char_boundary value (plain_start st)"
    using st by (simp_all add: segment_ok_def)
  show ?thesis
    unfolding emit_def
    by (intro yields_and_then [OF push_text_ok [OF l p(1) at(1) p(2) at(3)]])
      (use st at i in \<open>auto intro!: yields_and_then [OF push_inline_ok [OF _ i(1)]] simp: segment_ok_def char_boundary_le cut_part [OF l at(3,4)]\<close>)
qed

lemma emit_literal_ok:
  assumes l: "located doc value outer" and st: "segment_ok doc value outer 0 0 b st"
    and at: "plain_start st \<le> from" "from < stop" "from \<le> text_from" "text_from \<le> stop"
      "char_boundary value from" "char_boundary value text_from" "char_boundary value stop" "clean_end value stop"
    and esc: "unescapes (slice value from stop) (slice value text_from stop)"
  shows "yields (\<lambda>st'. segment_ok doc value outer 0 0 b st' \<and> segment_cursor st' = stop)
    (emit_literal value outer from text_from stop st)"
proof -
  have stop: "stop \<le> length value" using at(7) by (rule char_boundary_le)
  have le: "from \<le> stop" using at(2) by simp
  let ?i = "TextInline \<lparr>inline_text_range = part outer from stop, inline_text_value = slice value text_from stop\<rparr>"
  have i: "inline_ok doc ?i" using esc text_at_part [OF l le stop] by simp
  have p: "pushed doc outer (plain_start st) 0 0 b (segment_inlines st, segment_budget st)"
    "char_boundary value (plain_start st)" using st by (simp_all add: segment_ok_def)
  show ?thesis
    unfolding emit_literal_def subrange_ok [OF l le stop] sub_str_ok [OF at(4,6,7)] and_then_Inr
    by (intro yields_and_then [OF push_text_ok [OF l p(1) at(1) p(2) at(5)]])
      (use st at i stop in \<open>auto intro!: yields_and_then [OF push_inline_ok [of doc outer "from" ?i _ _ _ stop]] simp: segment_ok_def cut_part [OF l at(5,7)]\<close>)
qed

lemma emit_built_ok:
  assumes l: "located doc value outer" and st: "segment_ok doc value outer 0 0 b st"
    and built: "built_ok doc outer open stop (segment_budget st) (built, b1)"
    and at: "plain_start st \<le> open" "open < stop" "char_boundary value open" "char_boundary value stop"
      "clean_end value stop"
  shows "yields (\<lambda>st'. segment_ok doc value outer 0 0 b st' \<and> segment_cursor st' = stop)
    (emit_built value outer open built (st\<lparr>segment_budget := b1\<rparr>))"
proof -
  from built have i: "inline_range (built_inline built) = part outer open stop" "inline_ok doc (built_inline built)"
    and e: "built_end built = stop" and ps: "list_all (\<lambda>p. within (inline_problem_range p) outer) (built_problems built)"
    and s: "spent (inline_nodes (built_inline built) - 1) (inline_references (built_inline built)) (segment_budget st) b1"
    by (simp_all add: built_ok_def)
  have at': "plain_start (st\<lparr>segment_budget := b1\<rparr>) \<le> open" using at(1) by simp
  show ?thesis
    unfolding emit_built_def e
    by (rule yields_and_then [OF emit_ok [OF l pay_in_advance [OF st s] at' at(2-5) i]])
      (use ps in \<open>auto simp: segment_ok_def\<close>)
qed

section \<open>Escapes\<close>

lemma escaped_before:
  assumes "is_escaped value open" "open \<le> length value"
  shows "0 < open" "value ! (open - 1) = backslash"
proof -
  have "takeWhile (\<lambda>b. b = backslash) (rev (take open value)) \<noteq> []"
  proof
    assume "takeWhile (\<lambda>b. b = backslash) (rev (take open value)) = []"
    with assms(1) show False by (simp add: is_escaped_def)
  qed
  then obtain xs where x: "rev (take open value) = backslash # xs"
    by (cases "rev (take open value)") (auto split: if_splits)
  then have "take open value = rev xs @ [backslash]" by (metis rev.simps(2) rev_rev_ident)
  then have "take open value \<noteq> []" "last (take open value) = backslash" by simp_all
  with assms(2) show "0 < open" "value ! (open - 1) = backslash"
    by (auto simp: last_conv_nth min_absorb2)
qed

lemma escape_gap:
  assumes "clean_end value p" "p \<le> open" "0 < open" "value ! (open - 1) = backslash" "\<not> quiet value open"
  shows "p \<le> open - 1"
proof (rule ccontr)
  assume "\<not> p \<le> open - 1"
  with assms(2) have "p = open" by simp
  with assms show False by (simp add: clean_end_def)
qed

lemma escape_gap2:
  assumes "clean_end value p" "p \<le> open - 1" "2 \<le> open" "value ! (open - 1) = backslash" "value ! (open - 2) = backslash"
    and "open \<le> length value"
  shows "p \<le> open - 2"
proof (rule ccontr)
  assume "\<not> p \<le> open - 2"
  with assms(2) have "p = open - 1" by simp
  moreover have "open - 1 - 1 = open - 2" "open - 1 < length value" "open - 1 \<noteq> 0" using assms(3,6) by simp_all
  ultimately show False using assms(1,4,5) by (simp add: clean_end_def quiet_def)
qed

lemma backslash_boundary:
  assumes "value ! (k - 1) = backslash" "0 < k" "k \<le> length value"
  shows "char_boundary value (k - 1)"
  using assms by (intro boundary_ascii) auto

lemma slice_escape:
  assumes "0 < k" "k \<le> stop" "stop \<le> length value" "value ! (k - 1) = b"
  shows "slice value (k - 1) stop = b # slice value k stop"
proof -
  have "drop (k - 1) value = value ! (k - 1) # drop k value"
    using Cons_nth_drop_Suc [of "k - 1" "value"] assms by simp
  moreover have "stop - (k - 1) = Suc (stop - k)" using assms by simp
  ultimately show ?thesis using assms(4) by (simp add: slice_def)
qed

section \<open>The steps\<close>

lemma span_bounds:
  "macro_token_ok value t \<Longrightarrow> macro_open t < macro_end t \<and> macro_end t \<le> length value"
  using macro_token_span char_boundary_le by blast

lemma macro_step_ok:
  assumes l: "located doc value outer" and p: "parser_ok doc (length value) parse"
    and st: "segment_ok doc value outer 0 0 b st"
    and c: "segment_cursor st \<le> open" "open < length value" "char_boundary value open" "macro_opening value open"
    and r: "macro_recognition_ok value open r"
  shows "yields (\<lambda>(stop, st'). segment_ok doc value outer 0 0 b st')
    (macro_step parse config value outer depth open r st)"
proof -
  note v = located_valid [OF l]
  from st c(1) have ps: "plain_start st \<le> open" "clean_end value (plain_start st)" by (simp_all add: segment_ok_def)
  have noisy: "\<not> quiet value open" using c(2,4) by (simp add: quiet_def)
  have literal: "yields (\<lambda>st'. segment_ok doc value outer 0 0 b st' \<and> open < segment_cursor st')
      (emit_literal value outer (open - 1) open stop st)"
    if "is_escaped value open" "open < stop" "char_boundary value stop" "clean_end value stop" for stop
  proof -
    note e = escaped_before [OF that(1) less_imp_le [OF c(2)]]
    have stop: "stop \<le> length value" using that(3) by (rule char_boundary_le)
    have "unescapes (slice value (open - 1) stop) (slice value open stop)"
      using slice_escape [OF e(1) less_imp_le [OF that(2)] stop e(2)] by (simp add: unescapes_def)
    with escape_gap [OF ps(2,1) e noisy] e(1) that c(2,3) backslash_boundary [OF e(2,1)]
    show ?thesis
      by (intro yields_mono [OF emit_literal_ok [OF l st]]) auto
  qed
  have first: "yields (\<lambda>st'. segment_ok doc value outer 0 0 b st' \<and> open < segment_cursor st') (case r of
         MatchedInline (MacroTok token) \<Rightarrow>
           if is_escaped value open
           then emit_literal value outer (open - 1) open (macro_end token) st
           else
             and_then (lower_inline_token parse config value outer depth (MacroTok token) (segment_budget st))
               (\<lambda>(built, budget). emit_built value outer open built (st\<lparr>segment_budget := budget\<rparr>))
       | RecoveredInline _ next_offset kind \<Rightarrow>
           if is_escaped value open
           then emit_literal value outer (open - 1) open (length value) st
           else
             and_then (subrange outer open (length value)) (\<lambda>r.
               Inr (add_problem kind r st\<lparr>segment_cursor := next_offset\<rparr>))
       | RejectedInline _ next_offset \<Rightarrow> Inr (st\<lparr>segment_cursor := next_offset\<rparr>)
       | MatchedInline (MarkerTok _) \<Rightarrow> Inl Panic)"
  proof (cases r)
    case (RejectedInline o' n)
    with r ps(1) st show ?thesis by (auto intro!: move_cursor simp: char_boundary_le)
  next
    case (RecoveredInline o' n kind)
    with r ps(1) st c(2) within_outer [OF l, of "open" "length value"] literal [of "length value"] show ?thesis
      by (auto simp: char_boundary_le subrange_ok [OF l] add_problem_ok intro!: move_cursor simp: add_problem_def segment_ok_def)
  next
    case (MatchedInline t)
    show ?thesis
    proof (cases t)
      case (MarkerTok m)
      with r MatchedInline show ?thesis by simp
    next
      case (MacroTok token)
      with r MatchedInline have t: "macro_open token = open" "macro_token_ok value token" "clean_end value (macro_end token)"
        by simp_all
      from macro_token_span [OF t(2)] t(1) have e: "open < macro_end token" "char_boundary value (macro_end token)" by simp_all
      have "yields (\<lambda>st'. segment_ok doc value outer 0 0 b st' \<and> segment_cursor st' = macro_end token)
          (and_then (lower_inline_token parse config value outer depth (MacroTok token) (segment_budget st))
               (\<lambda>(built, budget). emit_built value outer open built (st\<lparr>segment_budget := budget\<rparr>)))"
        unfolding lower_inline_token_def InlineToken.case
        by (rule yields_and_then [OF build_macro_ok [OF l p t(2), unfolded t(1)]])
          (use emit_built_ok [OF l st _ ps(1) e(1) c(3) e(2) t(3)] in auto)
      with e literal [OF _ e t(3)] MatchedInline MacroTok show ?thesis
        by (auto elim!: yields_mono)
    qed
  qed
  show ?thesis
    unfolding macro_step_def
    by (rule yields_and_then [OF first]) auto
qed

lemma macro_boundary_subject_within:
  assumes "valid_utf8 value" "macro_token_ok value t" "macro_boundary_subject value t = Some (name_end, name)"
  shows "macro_open t \<le> name_end \<and> name_end \<le> length value"
proof (cases t)
  case (UrlLinkToken "open" b label stop)
  with assms(3) obtain k where k: "url_scheme_end (drop open value) = Some k" "name_end = open + k - 1"
    by (auto simp: macro_boundary_subject_def split: if_splits)
  moreover have "char_boundary value open" using assms(2) UrlLinkToken by simp
  ultimately show ?thesis using scheme_found [OF assms(1) _ k(1)] UrlLinkToken by auto
qed (use assms(2,3) span_bounds [OF assms(2)] in
    \<open>auto simp: macro_boundary_subject_def split: if_splits MacroForm.splits\<close>)

lemma macro_boundary_step_ok:
  assumes l: "located doc value outer" and st: "segment_ok doc value outer 0 0 b st"
    and c: "segment_cursor st \<le> open" "open < length value" "char_boundary value open"
    and r: "macro_recognition_ok value open r"
  shows "yields (segment_ok doc value outer 0 0 b) (macro_boundary_step value outer open r st)"
proof -
  from st c(1) have ps: "plain_start st \<le> open" by (simp add: segment_ok_def)
  have skip: "segment_ok doc value outer 0 0 b (st\<lparr>segment_cursor := next_char_boundary value open\<rparr>)"
    using next_char_boundary_bounds [OF c(2)] ps by (intro move_cursor [OF st]) simp_all
  show ?thesis
  proof (cases "case r of MatchedInline (MacroTok token) \<Rightarrow>
            map_option (\<lambda>(name_end, name). (token, name_end, name)) (macro_boundary_subject value token)
        | _ \<Rightarrow> None")
    case None
    with skip show ?thesis by (simp add: macro_boundary_step_def)
  next
    case (Some x)
    then obtain token name_end name where x: "r = MatchedInline (MacroTok token)" "x = (token, name_end, name)"
      "macro_boundary_subject value token = Some (name_end, name)"
      by (auto split: InlineRecognition.splits InlineToken.splits)
    with r have t: "macro_open token = open" "macro_token_ok value token" by simp_all
    from macro_boundary_subject_within [OF located_valid [OF l] t(2) x(3)] t(1)
    have n: "open \<le> name_end" "name_end \<le> length value" by simp_all
    have "segment_ok doc value outer 0 0 b (add_problem (MacroBoundaryProblem name) (part outer open name_end) st
        \<lparr>segment_cursor := macro_end token\<rparr>)"
      using within_outer [OF l] n span_bounds [OF t(2)] ps t(1)
      by (intro move_cursor add_problem_ok [OF st]) (auto simp: add_problem_def)
    then show ?thesis
      using Some x(2) by (simp add: macro_boundary_step_def subrange_ok [OF l n])
  qed
qed

lemma ends_with_two:
  assumes "ends_with (take open value) [b, b]" "open \<le> length value"
  shows "2 \<le> open" "value ! (open - 1) = b" "value ! (open - 2) = b"
proof -
  from assms have len: "2 \<le> open" and d: "drop (open - 2) (take open value) = [b, b]"
    by (simp_all add: ends_with_def min_absorb2 numeral_2_eq_2)
  show "2 \<le> open" by (rule len)
  have "drop (open - 2) (take open value) ! 0 = b" "drop (open - 2) (take open value) ! 1 = b"
    by (simp_all add: d)
  with len assms(2) show "value ! (open - 2) = b" "value ! (open - 1) = b"
    by (simp_all add: Suc_diff_Suc numeral_2_eq_2)
qed

lemma marker_escape_ok:
  assumes "clean_end value p" "p \<le> open" "open < length value" "\<not> quiet value open" "char_boundary value open"
    and s: "open \<le> stop" "stop \<le> length value"
  shows "p \<le> open - marker_escape_width value open form
     \<and> char_boundary value (open - marker_escape_width value open form)
     \<and> unescapes (slice value (open - marker_escape_width value open form) stop) (slice value open stop)"
proof -
  let ?k = "marker_escape_width value open form"
  consider "?k = 0" | "?k = 1" "is_escaped value open" | "?k = 2" "ends_with (take open value) [backslash, backslash]"
  proof (cases "form = Unconstrained \<and> ends_with (take open value) [backslash, backslash]")
    case False
    with that show ?thesis
      unfolding marker_escape_width_def by (cases "is_escaped value open") simp_all
  qed (simp add: marker_escape_width_def)
  then show ?thesis
  proof cases
    case 1
    with assms(2,5) show ?thesis by (simp add: unescapes_def)
  next
    case 2
    note e = escaped_before [OF 2(2) less_imp_le [OF assms(3)]]
    show ?thesis
      using escape_gap [OF assms(1,2) e assms(4)] backslash_boundary [OF e(2,1)] assms(3) 2(1)
        slice_escape [OF e(1) s e(2)] by (simp add: unescapes_def)
  next
    case 3
    note e = ends_with_two [OF 3(2) less_imp_le [OF assms(3)]]
    have pos: "0 < open" "0 < open - 1" "open - 1 \<le> length value" "open - 1 \<le> stop" using e(1) assms(3) s by simp_all
    have two: "value ! (open - 1 - 1) = backslash" "open - 1 - 1 = open - 2" using e(3) by (simp_all add: numeral_2_eq_2)
    have gap: "p \<le> open - 1" using escape_gap [OF assms(1,2) pos(1) e(2) assms(4)] .
    have "slice value (open - 2) stop = backslash # backslash # slice value open stop"
      using slice_escape [OF pos(2,4) s(2) two(1)] slice_escape [OF pos(1) s e(2)] two(2) by simp
    with escape_gap2 [OF assms(1) gap e less_imp_le [OF assms(3)]] backslash_boundary [OF two(1) pos(2,3)] 3(1) two(2)
    show ?thesis by (simp add: unescapes_def)
  qed
qed

lemma marker_step_ok:
  assumes l: "located doc value outer" and p: "parser_ok doc (length value) parse"
    and st: "segment_ok doc value outer 0 0 b st"
    and c: "segment_cursor st \<le> open" "marker_at value open marker form"
    and r: "marker_recognition_ok value open marker form r"
  shows "yields (segment_ok doc value outer 0 0 b) (marker_step parse config value outer depth open form r st)"
proof -
  let ?stop = "open + form_width form" and ?k = "marker_escape_width value open form"
  define suppressed where "suppressed = find_if (\<lambda>c. c = open) (suppressed_closers st)"
  from st c(1) have ps: "plain_start st \<le> open" "clean_end value (plain_start st)" by (simp_all add: segment_ok_def)
  from c(2) have m: "char_boundary value open" "char_boundary value ?stop" "?stop \<le> length value"
    "value ! (?stop - 1) \<noteq> backslash" "value ! open \<in> set ''`*_#{^~''" by (auto simp: marker_at_def)
  have o: "open < ?stop" using form_width_pos [of form] by linarith
  have lt: "open < length value" using o m(3) by linarith
  have noisy: "\<not> quiet value open" using lt m(5) by (auto simp: quiet_def)
  have clean: "clean_end value ?stop" using m(4) by (simp add: clean_end_def)
  show ?thesis
  proof (cases "0 < ?k \<or> suppressed \<noteq> None")
    case True
    note esc = marker_escape_ok [OF ps(2,1) lt noisy m(1) less_imp_le [OF o] m(3), of form]
    have before: "open - ?k < ?stop" "open - ?k \<le> open" using o by linarith+
    have "yields (segment_ok doc value outer 0 0 b) (emit_literal value outer (open - ?k) open ?stop (st\<lparr>suppressed_closers := closers\<rparr>))" for closers
    proof (rule yields_mono [OF emit_literal_ok [OF l, of b]])
      show "segment_ok doc value outer 0 0 b (st\<lparr>suppressed_closers := closers\<rparr>)" using st by simp
    qed (use esc before less_imp_le [OF o] m(1,2) clean in simp_all)
    with True show ?thesis
      unfolding marker_step_def Let_def suppressed_def [symmetric] by simp
  next
    case False
    have rest: "yields (segment_ok doc value outer 0 0 b) (case r of
          MatchedInline (MarkerTok token) \<Rightarrow>
            and_then (lower_inline_token parse config value outer depth (MarkerTok token) (segment_budget st))
              (\<lambda>(built, budget).
                emit_built value outer open (built\<lparr>built_end := token_end token\<rparr>)
                  (st\<lparr>segment_budget := budget\<rparr>))
        | RecoveredInline _ next_offset kind \<Rightarrow>
            and_then (subrange outer open next_offset) (\<lambda>r.
              Inr (add_problem kind r st\<lparr>segment_cursor := next_offset\<rparr>))
        | RejectedInline _ next_offset \<Rightarrow> Inr (st\<lparr>segment_cursor := next_offset\<rparr>)
        | MatchedInline (MacroTok _) \<Rightarrow> Inl Panic)"
    proof (cases r)
      case (RejectedInline o' n)
      with r ps(1) st show ?thesis by (auto intro!: move_cursor simp: char_boundary_le)
    next
      case (RecoveredInline o' n kind)
      with r have n: "open \<le> n" "n \<le> length value" by (simp_all add: char_boundary_le)
      have "segment_ok doc value outer 0 0 b (add_problem kind (part outer open n) st\<lparr>segment_cursor := n\<rparr>)"
        using within_outer [OF l] n ps(1) by (intro move_cursor add_problem_ok [OF st]) (auto simp: add_problem_def)
      with RecoveredInline show ?thesis by (simp add: subrange_ok [OF l n])
    next
      case (MatchedInline t)
      show ?thesis
      proof (cases t)
        case (MacroTok token)
        with r MatchedInline show ?thesis by simp
      next
        case (MarkerTok token)
        with r MatchedInline have t: "token = \<lparr>token_open = open, token_close = token_close token,
            token_end = token_close token + form_width form, token_marker = marker, token_form = form\<rparr>"
          "closer_ok value open form (token_close token)"
          by (cases token; simp)+
        let ?e = "token_close token + form_width form"
        from t have e: "token_end token = ?e" by (metis MarkerToken.select_convs(3))
        from t(2) have cl: "?stop \<le> token_close token" "char_boundary value ?e" "clean_end value ?e"
          by (simp_all add: closer_ok_def clean_end_def)
        have before: "open < ?e" using cl(1) o by linarith
        have "yields (built_ok doc outer open ?e (segment_budget st))
            (lower_inline_token parse config value outer depth (MarkerTok token) (segment_budget st))"
          unfolding lower_inline_token_def InlineToken.case
          by (subst t(1)) (rule lower_marker_ok [OF l p c(2) t(2)])
        then have "yields (segment_ok doc value outer 0 0 b) (and_then
            (lower_inline_token parse config value outer depth (MarkerTok token) (segment_budget st)) (\<lambda>(built, budget).
                emit_built value outer open (built\<lparr>built_end := token_end token\<rparr>) (st\<lparr>segment_budget := budget\<rparr>)))"
        proof (rule yields_and_then, clarify)
          fix built b1 assume "built_ok doc outer open ?e (segment_budget st) (built, b1)"
          then have "built_ok doc outer open ?e (segment_budget st) (built\<lparr>built_end := token_end token\<rparr>, b1)"
            by (simp add: built_ok_def e)
          from emit_built_ok [OF l st this ps(1) before m(1) cl(2,3)]
          show "yields (segment_ok doc value outer 0 0 b)
              (emit_built value outer open (built\<lparr>built_end := token_end token\<rparr>) (st\<lparr>segment_budget := b1\<rparr>))"
            by (rule yields_mono) simp
        qed
        with MatchedInline MarkerTok show ?thesis by simp
      qed
    qed
    with False show ?thesis
      unfolding marker_step_def Let_def suppressed_def [symmetric] by simp
  qed
qed

lemma quote_step_ok:
  assumes l: "located doc value outer" and p: "parser_ok doc (length value) parse"
    and st: "segment_ok doc value outer 0 0 b st"
    and c: "segment_cursor st \<le> open" and s: "span_ok value open from until stop"
  shows "yields (segment_ok doc value outer 0 0 b) (quote_step parse value outer depth open q from until stop st)"
proof -
  from st c have ps: "plain_start st \<le> open" "char_boundary value (plain_start st)"
    and pp: "pushed doc outer (plain_start st) 0 0 b (segment_inlines st, segment_budget st)"
    by (simp_all add: segment_ok_def)
  from s have o: "open < from" "from \<le> until" "until < stop" "stop \<le> length value" "char_boundary value open"
    "char_boundary value from" "char_boundary value until" "char_boundary value stop" "clean_end value stop"
    by (simp_all add: span_ok_def clean_end_def)
  then have le: "until \<le> length value" "open \<le> stop" "open < stop" by simp_all
  let ?style = "if q = double_quote then CurvedDoubleQuote else CurvedSingleQuote"
  have inside: "within (part outer from until) (part outer open stop)" using o by simp
  have content: "within (part outer from until) outer" using within_outer [OF l] o le by simp
  show ?thesis
    unfolding quote_step_def subrange_ok [OF l o(2) le(1)] sub_str_ok [OF o(2,6,7)] subrange_ok [OF l le(2) o(4)] and_then_Inr
  proof (rule yields_and_then [OF push_text_ok [OF l pp ps(1,2) o(5)]], clarify)
    fix inlines b1 assume i: "pushed doc outer open 0 0 b (inlines, b1)"
    have inner: "yields (output_ok doc (part outer from until) b1)
        (parse (slice value from until) (part outer from until) (depth + 1) b1)"
      using p located_part [OF l o(6,7,2)] o le by (simp add: parser_ok_def length_slice)
    show "yields (segment_ok doc value outer 0 0 b) (and_then (parse (slice value from until) (part outer from until) (depth + 1) b1)
        (\<lambda>(inner, budget). and_then (push_inline inlines (StyledInline ?style (part outer open stop) (part outer from until)
             (output_inlines inner)) budget) (\<lambda>(inlines, budget).
       Inr (st\<lparr>segment_inlines := inlines, segment_problems := segment_problems st @ output_problems inner,
               segment_budget := budget, segment_cursor := stop, plain_start := stop\<rparr>))))"
    proof (rule yields_and_then [OF inner], clarify)
      fix inner b2 assume r: "output_ok doc (part outer from until) b1 (inner, b2)"
      let ?i = "StyledInline ?style (part outer open stop) (part outer from until) (output_inlines inner)"
      from r have ok: "inline_ok doc ?i" "inline_range ?i = part outer open stop"
        and s2: "spent (inline_nodes ?i - 1) (inline_references ?i) b1 b2"
        and problems: "list_all (\<lambda>p. within (inline_problem_range p) outer) (output_problems inner)"
        using inside problems_within [OF _ content] cut_part [OF l o(6,7)] by (auto simp: output_ok_def)
      have "pushed doc outer open (inline_nodes ?i - 1) (inline_references ?i) b (inlines, b2)"
        using i spent_trans [OF _ s2] by (fastforce simp: pushed_def)
      from push_inline_ok [OF this ok(2) le(3) ok(1) cut_part [OF l o(5,8)]]
      show "yields (segment_ok doc value outer 0 0 b) (and_then (push_inline inlines ?i b2) (\<lambda>(inlines, budget).
         Inr (st\<lparr>segment_inlines := inlines, segment_problems := segment_problems st @ output_problems inner,
                 segment_budget := budget, segment_cursor := stop, plain_start := stop\<rparr>)))"
        by (rule yields_and_then) (use st o problems in \<open>auto simp: segment_ok_def\<close>)
    qed
  qed
qed

text \<open>One inline of the source's own text, without a parse of its content.\<close>

lemma push_plain_ok:
  assumes l: "located doc value outer" and st: "segment_ok doc value outer 0 0 b st"
    and i: "inline_range i = part outer from stop" "inline_ok doc i" "inline_nodes i = 1" "inline_references i = 0"
    and at: "plain_start st \<le> from" "from < stop" "char_boundary value from" "char_boundary value stop" "clean_end value stop"
  shows "yields (segment_ok doc value outer 0 0 b)
    (and_then (push_text (segment_inlines st) value outer (plain_start st) from (segment_budget st)) (\<lambda>(inlines, budget).
     and_then (push_inline inlines i budget) (\<lambda>(inlines, budget).
       Inr (st\<lparr>segment_inlines := inlines, segment_budget := budget, segment_cursor := stop, plain_start := stop\<rparr>))))"
proof -
  have st': "segment_ok doc value outer (inline_nodes i - 1) (inline_references i) b st" using st i(3,4) by simp
  show ?thesis
    using emit_ok [OF l st' at i(1,2)] unfolding emit_def by (rule yields_mono) simp
qed

lemma candidate_step_ok:
  assumes l: "located doc value outer" and p: "parser_ok doc (length value) parse"
    and st: "segment_ok doc value outer 0 0 b st" and c: "segment_cursor st \<le> candidate_open c" "candidate_ok value c"
  shows "yields (\<lambda>(stop, st'). segment_ok doc value outer 0 0 b st') (candidate_step parse config value outer depth c st)"
proof -
  note v = located_valid [OF l]
  have continue: "yields (\<lambda>(stop, st'). segment_ok doc value outer 0 0 b st') (and_then r (\<lambda>st. Inr (False, st)))"
    if "yields (segment_ok doc value outer 0 0 b) r" for r :: "SegmentState parsed"
    by (rule yields_and_then [OF that]) simp
  from st c(1) have ps: "plain_start st \<le> candidate_open c" by (simp add: segment_ok_def)
  show ?thesis
  proof (cases c)
    case (EscapedAnchor slash)
    with c(2) have s: "slash < slash + 2" "slash \<le> slash + 2" "slash + 2 \<le> length value" "char_boundary value slash"
      "char_boundary value (slash + 2)" "value ! slash = backslash" "value ! (slash + 1) = CHR ''[''"
      by simp_all
    have "slice value slash (slash + 2) = [backslash, CHR ''['']"
      using slice_escape [of "Suc slash" "slash + 2" "value" backslash]
        slice_escape [of "slash + 2" "slash + 2" "value" "CHR ''[''"] s by simp
    with text_at_part [OF l s(2,3)]
    have i: "inline_ok doc (TextInline \<lparr>inline_text_range = part outer slash (slash + 2), inline_text_value = ''[''\<rparr>)"
      by (simp add: unescapes_def)
    have "clean_end value (slash + 2)" using s by (simp add: clean_end_def)
    with push_plain_ok [OF l st _ i, of slash "slash + 2"] s ps EscapedAnchor
    have "yields (segment_ok doc value outer 0 0 b)
      (and_then (push_text (segment_inlines st) value outer (plain_start st) slash (segment_budget st)) (\<lambda>(inlines, budget).
       and_then (push_inline inlines (TextInline \<lparr>inline_text_range = part outer slash (slash + 2), inline_text_value = ''[''\<rparr>) budget)
         (\<lambda>(inlines, budget).
       Inr (st\<lparr>segment_inlines := inlines, segment_budget := budget, segment_cursor := slash + 2, plain_start := slash + 2\<rparr>))))"
      by simp
    then show ?thesis
      unfolding candidate_step_def EscapedAnchor recognize_candidate_def InlineCandidate.case and_then_Inr Let_def
        subrange_ok [OF l s(2,3)] by (rule continue)
  next
    case (MacroCandidate "open")
    with c(2) have m: "open < length value" "char_boundary value open" "macro_opening value open" by simp_all
    from macro_step_ok [OF l p st _ m recognize_macro_ok [OF v m(2,1)], of config depth] c(1) MacroCandidate
    show ?thesis by (simp add: candidate_step_def recognize_candidate_def)
  next
    case (MacroBoundaryCandidate "open")
    with c(2) have m: "open < length value" "char_boundary value open" by simp_all
    from continue [OF macro_boundary_step_ok [OF l st _ m recognize_macro_ok [OF v m(2,1)]]] c(1) MacroBoundaryCandidate
    show ?thesis by (simp add: candidate_step_def recognize_candidate_def)
  next
    case (MarkerCandidate "open" marker form close)
    from recognize_marker_ok [OF c(2) [unfolded MarkerCandidate]] obtain r where
      r: "(recognize_marker value open marker form close :: BudgetExceeded failure + InlineRecognition) = Inr r"
      "marker_recognition_ok value open marker form r" by blast
    have "marker_at value open marker form" using c(2) MarkerCandidate by simp
    from continue [OF marker_step_ok [OF l p st _ this r(2), of config depth]] c(1) MarkerCandidate r(1)
    show ?thesis by (simp add: candidate_step_def recognize_candidate_def)
  next
    case (MonospaceBoundaryCandidate "open" stop)
    with c(2) have m: "open < length value" "open \<le> stop" "stop \<le> length value" by simp_all
    have "segment_ok doc value outer 0 0 b (add_problem MonospaceBoundaryProblem (part outer open stop) st
        \<lparr>segment_cursor := next_char_boundary value open\<rparr>)"
      using within_outer [OF l] m ps MonospaceBoundaryCandidate next_char_boundary_bounds [OF m(1)]
      by (intro move_cursor add_problem_ok [OF st]) (auto simp: add_problem_def)
    with MonospaceBoundaryCandidate show ?thesis
      by (simp add: candidate_step_def recognize_candidate_def subrange_ok [OF l m(2,3)])
  next
    case (TypographicQuote "open" q "from" until stop)
    with c have "segment_cursor st \<le> open" "span_ok value open from until stop" by simp_all
    from continue [OF quote_step_ok [OF l p st this]] TypographicQuote
    show ?thesis by (simp add: candidate_step_def recognize_candidate_def)
  next
    case (PassthroughCandidate "open" width "from" until stop)
    with c have s: "span_ok value open from until stop" and w: "width \<in> {1, 2, 3}" by simp_all
    from s have o: "open \<le> from" "from \<le> until" "until \<le> stop" "char_boundary value from" "char_boundary value until"
      "stop \<le> length value" and o': "open < stop" "char_boundary value open" "char_boundary value stop" "clean_end value stop"
      by (simp_all add: span_ok_def clean_end_def)
    from w obtain kind where k: "(passthrough_kind width :: BudgetExceeded failure + PassthroughKind) = Inr kind"
      by (auto simp: passthrough_kind_def)
    have le: "open \<le> stop" "until \<le> length value" using o by simp_all
    let ?i = "PassthroughInline kind (part outer open stop) (part outer from until) (slice value from until)"
    have i: "inline_ok doc ?i" using marks_part [OF l o(1-5)] by simp
    have build: "(build_passthrough value outer kind open from until stop :: Inline parsed) = Inr ?i"
      by (simp add: build_passthrough_def subrange_ok [OF l le(1) o(6)] subrange_ok [OF l o(2) le(2)] sub_str_ok [OF o(2,4,5)])
    have "plain_start st \<le> open" using ps PassthroughCandidate by simp
    from push_plain_ok [OF l st _ i _ _ this o'] k build PassthroughCandidate
    show ?thesis
      unfolding candidate_step_def recognize_candidate_def
      by (auto simp: Let_def intro!: continue)
  qed
qed

lemma next_candidate_in:
  "next_candidate cursor cs = Some (c, rest) \<Longrightarrow> c \<in> set cs \<and> set rest \<subseteq> set cs \<and> cursor \<le> candidate_open c"
proof -
  assume "next_candidate cursor cs = Some (c, rest)"
  then have d: "dropWhile (\<lambda>c. candidate_open c < cursor) cs = c # rest"
    by (simp add: next_candidate_def split: list.splits)
  then have "set (c # rest) \<subseteq> set cs" by (metis set_dropWhileD subsetI)
  moreover have "\<not> candidate_open c < cursor" using hd_dropWhile [of "\<lambda>c. candidate_open c < cursor" cs] d by simp
  ultimately show ?thesis by simp
qed

lemma segment_loop_ok:
  "located doc value outer \<Longrightarrow> parser_ok doc (length value) parse \<Longrightarrow> segment_ok doc value outer 0 0 b st \<Longrightarrow>
     list_all (candidate_ok value) cs \<Longrightarrow>
     yields (segment_ok doc value outer 0 0 b) (segment_loop parse config value outer depth cs st)"
proof (induction parse config "value" outer depth cs st rule: segment_loop.induct)
  case (1 parse config "value" outer depth cs st)
  show ?case
  proof (cases "next_candidate (segment_cursor st) cs")
    case None
    with "1.prems"(3) show ?thesis by (subst segment_loop.simps) simp
  next
    case (Some x)
    obtain c rest where x: "x = (c, rest)" by (cases x)
    from next_candidate_in [OF Some [unfolded x]] "1.prems"(4)
    have c: "segment_cursor st \<le> candidate_open c" "candidate_ok value c" "list_all (candidate_ok value) rest"
      by (auto simp: list_all_iff)
    note step = candidate_step_ok [OF "1.prems"(1-3) c(1,2), of config depth]
    show ?thesis
    proof (cases "candidate_step parse config value outer depth c st")
      case (Inl e)
      with step Some x show ?thesis by (subst segment_loop.simps) (simp add: yields_def)
    next
      case (Inr r)
      obtain stop st' where r: "r = (stop, st')" by (cases r)
      from step Inr r have st': "segment_ok doc value outer 0 0 b st'" by simp
      show ?thesis
      proof (cases stop)
        case True
        with Some x Inr r st' show ?thesis by (subst segment_loop.simps) simp
      next
        case False
        with "1.IH" [OF Some x [symmetric] Inr r [symmetric] False "1.prems"(1,2) st' c(3)] Some x Inr r
        show ?thesis by (subst segment_loop.simps) simp
      qed
    qed
  qed
qed

lemma segment_with_ok:
  assumes l: "located doc value outer" and p: "parser_ok doc (length value) parse"
  shows "yields (output_ok doc outer b) (segment_with parse alnum config value outer depth b)"
proof -
  note v = located_valid [OF l]
  have len: "length value < u32_max" using l by (simp add: located_def)
  obtain cs where cs: "candidate_index alnum value = (Inr cs :: BudgetExceeded failure + InlineCandidate list)"
    "list_all (candidate_ok value) cs" using candidate_index_ok [OF v len] by blast
  let ?st = "\<lparr>segment_inlines = [], segment_problems = [], segment_cursor = 0, plain_start = 0,
          suppressed_closers = [], segment_budget = b\<rparr>"
  have st: "segment_ok doc value outer 0 0 b ?st"
    by (simp add: segment_ok_def pushed_def clean_end_def)
  show ?thesis
    unfolding segment_with_def cs(1) and_then_Inr
  proof (rule yields_and_then [OF segment_loop_ok [OF l p st cs(2)]])
    fix st assume s: "segment_ok doc value outer 0 0 b st"
    then have q: "plain_start st \<le> length value" "char_boundary value (plain_start st)"
      "pushed doc outer (plain_start st) 0 0 b (segment_inlines st, segment_budget st)"
      by (simp_all add: segment_ok_def)
    show "yields (output_ok doc outer b) (and_then (push_text (segment_inlines st) value outer (plain_start st) (length value) (segment_budget st))
       (\<lambda>(inlines, budget). Inr (\<lparr>output_inlines = inlines, output_problems = segment_problems st\<rparr>, budget)))"
      by (rule yields_and_then [OF push_text_ok [OF l q(3,1,2) char_boundary_length]])
        (use s l in \<open>auto simp: pushed_def output_ok_def segment_ok_def located_def\<close>)
  qed
qed

lemma parse_fuel_ok: "parser_ok doc n (parse_fuel n alnum config)"
proof (induction n)
  case 0
  show ?case by (simp add: parser_ok_def)
next
  case (Suc n)
  show ?case unfolding parser_ok_def
  proof (intro allI impI)
    fix "value" outer depth b assume v: "length value < Suc n" "located doc value outer"
    then have "parser_ok doc (length value) (parse_fuel n alnum config)"
      using Suc by (simp add: parser_ok_def)
    from segment_with_ok [OF v(2) this]
    show "yields (output_ok doc outer b) (parse_fuel (Suc n) alnum config value outer depth b)" by simp
  qed
qed

section \<open>Parsing a fragment\<close>

text \<open>C3. Parsing the inlines of a valid fragment that stands at a range of a document never panics: it ends with an exceeded budget or with inlines that cover the range from its start to its end without gaps or overlaps and between scalar values, the nested ones covering the content or the label they belong to, every text, target, name, formula and attribute spelled by its range (up to the backslashes that escape it), and every problem inside the range. The budget has then been charged one node for each inline and one reference for each cross reference, and nothing else.\<close>

theorem parse_inlines_tiles:
  assumes "valid_utf8 value" and "text_at doc outer = value" and "length value < u32_max"
    and "range_end outer = range_start outer + length value" and "range_end outer \<le> u32_max"
    and "cut doc outer"
  shows "case parse_inlines alnum value outer config budget of
      Inl Panic \<Rightarrow> False
    | Inl (Err _) \<Rightarrow> True
    | Inr (output, budget') \<Rightarrow>
        consecutive doc (range_start outer) (map inline_range (output_inlines output)) (range_end outer)
        \<and> list_all (inline_ok doc) (output_inlines output)
        \<and> list_all (\<lambda>p. within (inline_problem_range p) outer) (output_problems output)
        \<and> unat (nodes budget') = unat (nodes budget) + sum_list (map inline_nodes (output_inlines output))
        \<and> unat (references budget') = unat (references budget) + sum_list (map inline_references (output_inlines output))
        \<and> budget' = budget\<lparr>nodes := nodes budget', references := references budget'\<rparr>"
proof -
  have "located doc value outer" using assms by (simp add: located_def)
  with parse_fuel_ok [of doc "Suc (length value)" alnum config]
  have "yields (output_ok doc outer budget) (parse_inlines alnum value outer config budget)"
    by (simp add: parser_ok_def parse_inlines_def parse_segment_def del: parse_fuel.simps)
  then show ?thesis
    unfolding yields_def output_ok_def spent_def by (auto split: sum.splits failure.splits)
qed

theorem parse_inlines_tiles_witness:
  "\<exists>inlines problems budget'.
     parse_inlines (\<lambda>_. False) ''a *b*'' \<lparr>range_start = 2, range_end = 7\<rparr> InlineParseConfig_default
       \<lparr>limits = AnalysisLimits_default, blocks = 0, nodes = 1, references = 0, attributes = 0, list_continuations = 0\<rparr>
       = Inr (\<lparr>output_inlines = inlines, output_problems = problems\<rparr>, budget')
     \<and> consecutive ('': a *b*'') 2 (map inline_range inlines) 7 \<and> unat (nodes budget') = 4"
proof -
  have "parse_inlines (\<lambda>_. False) ''a *b*'' \<lparr>range_start = 2, range_end = 7\<rparr> InlineParseConfig_default
       \<lparr>limits = AnalysisLimits_default, blocks = 0, nodes = 1, references = 0, attributes = 0, list_continuations = 0\<rparr>
      = Inr (\<lparr>output_inlines = [TextInline \<lparr>inline_text_range = \<lparr>range_start = 2, range_end = 4\<rparr>, inline_text_value = ''a ''\<rparr>,
         StyledInline Strong \<lparr>range_start = 4, range_end = 7\<rparr> \<lparr>range_start = 5, range_end = 6\<rparr>
           [TextInline \<lparr>inline_text_range = \<lparr>range_start = 5, range_end = 6\<rparr>, inline_text_value = ''b''\<rparr>]], output_problems = []\<rparr>,
        \<lparr>limits = AnalysisLimits_default, blocks = 0, nodes = 4, references = 0, attributes = 0, list_continuations = 0\<rparr>)"
    by code_simp
  with parse_inlines_tiles [of "''a *b*''" "'': a *b*''" "\<lparr>range_start = 2, range_end = 7\<rparr>"
      "\<lparr>limits = AnalysisLimits_default, blocks = 0, nodes = 1, references = 0, attributes = 0, list_continuations = 0\<rparr>"
      "\<lambda>_. False" InlineParseConfig_default]
  show ?thesis
    by (simp add: valid_utf8_def valid_scalar_def utf8_len_def text_at_def slice_def u32_max_def cut_def char_boundary_def
      is_continuation_def)
qed

section \<open>Asking for an offset\<close>

lemma inline_at_contains:
  "inline_at is offset = Some i \<Longrightarrow>
     range_start (inline_range i) \<le> offset \<and> offset < range_end (inline_range i)
     \<and> (list_all (inline_ok doc) is \<longrightarrow> inline_ok doc i)"
proof (induction "is" offset arbitrary: i rule: inline_at.induct)
  case (2 j js offset)
  show ?case
  proof (cases "range_start (inline_range j) \<le> offset \<and> offset < range_end (inline_range j)")
    case True
    show ?thesis
    proof (cases j)
      case (StyledInline style r c inner)
      with 2(1) [OF True StyledInline] 2(3) True show ?thesis
        by (cases "inline_at inner offset") auto
    qed (use True 2(3) in auto)
  next
    case False
    with 2 show ?thesis by auto
  qed
qed simp

lemma inline_at_found:
  "consecutive doc a (map inline_range is) b \<Longrightarrow> a \<le> offset \<Longrightarrow> offset < b \<Longrightarrow> inline_at is offset \<noteq> None"
proof (induction "is" arbitrary: a)
  case (Cons i "is")
  show ?case
  proof (cases "offset < range_end (inline_range i)")
    case True
    with Cons.prems show ?thesis by (auto split: Inline.split option.split)
  next
    case False
    with Cons show ?thesis by auto
  qed
qed simp

text \<open>C14. After a parse, asking for the inline at any offset of the fragment finds one: it contains the offset and says of the document what its range holds.\<close>

theorem inline_at_hits:
  assumes "valid_utf8 value" and "text_at doc outer = value" and "length value < u32_max"
    and "range_end outer = range_start outer + length value" and "range_end outer \<le> u32_max"
    and "cut doc outer"
    and "parse_inlines alnum value outer config budget = Inr (output, budget')"
    and "range_start outer \<le> offset" and "offset < range_end outer"
  shows "\<exists>i. inline_at (output_inlines output) offset = Some i \<and> inline_ok doc i
     \<and> range_start (inline_range i) \<le> offset \<and> offset < range_end (inline_range i)"
proof -
  have l: "located doc value outer" using assms(1-6) by (simp add: located_def)
  with parse_fuel_ok [of doc "Suc (length value)" alnum config]
  have "yields (output_ok doc outer budget) (parse_inlines alnum value outer config budget)"
    by (simp add: parser_ok_def parse_inlines_def parse_segment_def del: parse_fuel.simps)
  then have ok: "consecutive doc (range_start outer) (map inline_range (output_inlines output)) (range_end outer)"
    "list_all (inline_ok doc) (output_inlines output)" using assms(7) by (simp_all add: output_ok_def)
  obtain i where i: "inline_at (output_inlines output) offset = Some i"
    using inline_at_found [OF ok(1) assms(8,9)] by auto
  from inline_at_contains [OF i] i ok(2) show ?thesis by blast
qed

theorem inline_at_hits_witness:
  "\<exists>i. inline_at [TextInline \<lparr>inline_text_range = \<lparr>range_start = 0, range_end = 2\<rparr>, inline_text_value = ''ab''\<rparr>] 1 = Some i
     \<and> inline_ok ''ab'' i \<and> range_start (inline_range i) \<le> 1 \<and> 1 < range_end (inline_range i)"
proof -
  let ?b = "\<lparr>limits = AnalysisLimits_default, blocks = 0, nodes = 1, references = 0, attributes = 0, list_continuations = 0\<rparr>"
  have p: "parse_inlines (\<lambda>_. False) ''ab'' \<lparr>range_start = 0, range_end = 2\<rparr> InlineParseConfig_default ?b
      = Inr (\<lparr>output_inlines = [TextInline \<lparr>inline_text_range = \<lparr>range_start = 0, range_end = 2\<rparr>, inline_text_value = ''ab''\<rparr>],
          output_problems = []\<rparr>, ?b\<lparr>nodes := 2\<rparr>)"
    by code_simp
  show ?thesis
    using inline_at_hits [OF _ _ _ _ _ _ p, of "''ab''" 1]
    by (simp add: valid_utf8_def valid_scalar_def utf8_len_def text_at_def slice_def u32_max_def cut_def char_boundary_def
      is_continuation_def)
qed

lemma is_plain_inline_text_total:
  assumes "valid_utf8 value"
  shows "\<exists>r. is_plain_inline_text alnum value = Inr r"
proof (cases "unat (max_line_bytes AnalysisLimits_default) < length value")
  case False
  then have len: "length value < u32_max" by (simp add: AnalysisLimits_default_def u32_max_def)
  let ?outer = "\<lparr>range_start = 0, range_end = length value\<rparr>"
  have l: "located value value ?outer" using assms len by (simp add: located_def text_at_def cut_def)
  have "parse_inlines alnum value ?outer InlineParseConfig_default b \<noteq> Inl Panic" for b
    using parse_fuel_ok [of "value" "Suc (length value)" alnum InlineParseConfig_default] l
    by (auto simp: parser_ok_def parse_inlines_def parse_segment_def yields_def simp del: parse_fuel.simps
        split: sum.splits failure.splits)
  with False len show ?thesis
    by (auto simp: is_plain_inline_text_def Let_def split: sum.splits failure.splits)
qed (auto simp: is_plain_inline_text_def)

end
