(* ===== verification/Inline_Syntax.thy ===== *)
theory Inline_Syntax
  imports Block_Sequence Inline_Tiling
begin

text \<open>
  The syntax nodes of inlines: those of a parsed fragment are laid out inside its range, also
  after the hard breaks of its texts have been split off.
\<close>

section \<open>Nodes side by side\<close>

text \<open>Nodes that may be the children of one node over \<open>a\<close> to \<open>b\<close>.\<close>

definition laid :: "SourceDocument \<Rightarrow> nat \<Rightarrow> SyntaxNode list \<Rightarrow> nat \<Rightarrow> bool" where
  "laid d a ns b \<longleftrightarrow> spaced a ns b \<and> (\<forall>n \<in> set ns. nested d n \<and> tokenless n)"

lemma spaced_widen: "spaced a ns b \<Longrightarrow> a' \<le> a \<Longrightarrow> b \<le> b' \<Longrightarrow> spaced a' ns b'"
proof (induction ns arbitrary: a a')
  case (Cons n ns)
  from Cons.prems Cons.IH [of "range_end (node_range n)" "range_end (node_range n)"] show ?case by auto
qed simp

lemma spaced_append: "spaced a xs m \<Longrightarrow> spaced m ys b \<Longrightarrow> a \<le> m \<Longrightarrow> m \<le> b \<Longrightarrow> spaced a (xs @ ys) b"
  by (induction xs arbitrary: a) (auto intro: spaced_widen)

lemma laid_Nil [simp]: "laid d a [] b"
  by (simp add: laid_def)

lemma laid_Cons:
  "laid d a (n # ns) b \<longleftrightarrow>
     a \<le> range_start (node_range n) \<and> range_end (node_range n) \<le> b \<and> nested d n \<and> tokenless n
     \<and> laid d (range_end (node_range n)) ns b"
  by (auto simp: laid_def)

lemma laid_widen: "laid d a ns b \<Longrightarrow> a' \<le> a \<Longrightarrow> b \<le> b' \<Longrightarrow> laid d a' ns b'"
  by (auto simp: laid_def intro: spaced_widen)

lemma laid_append: "laid d a xs m \<Longrightarrow> laid d m ys b \<Longrightarrow> a \<le> m \<Longrightarrow> m \<le> b \<Longrightarrow> laid d a (xs @ ys) b"
  by (auto simp: laid_def intro: spaced_append)

lemma spaced_sorted:
  "spaced a ns b \<Longrightarrow> \<forall>n \<in> set ns. range_start (node_range n) \<le> range_end (node_range n) \<Longrightarrow>
     sorted (map annotation_key ns) \<and> (\<forall>n \<in> set ns. a \<le> range_start (node_range n))"
proof (induction ns arbitrary: a)
  case (Cons n ns)
  then have s: "sorted (map annotation_key ns)" "\<forall>m \<in> set ns. range_end (node_range n) \<le> range_start (node_range m)"
    by auto
  have "annotation_key n \<le> annotation_key m" if "m \<in> set ns" for m
  proof -
    from that s(2) Cons.prems(2) have "range_start (node_range n) \<le> range_end (node_range n)"
      "range_end (node_range n) \<le> range_start (node_range m)" "range_start (node_range m) \<le> range_end (node_range m)"
      by auto
    then show ?thesis by (simp add: annotation_key_def less_eq_prod_def)
  qed
  with s Cons.prems show ?case by fastforce
qed simp

lemma sort_key_sorted: "sorted (map f xs) \<Longrightarrow> sort_key f xs = xs"
  by (induction xs) (simp_all add: insort_is_Cons)

text \<open>A range of the document is one that can be cut out of its text.\<close>

lemma cut_text:
  assumes "well_indexed s 0 d" "cut s r" "range_start r \<le> range_end r"
  shows "sd_text d r \<noteq> None"
  using assms by (auto simp: well_indexed_def sd_text_def str_get_def cut_def dest: char_boundary_le)

lemma nested_ordered:
  assumes "well_indexed s 0 d" "nested d n"
  shows "range_start (node_range n) \<le> range_end (node_range n)"
  using sd_text_cut(1) [OF assms(1) nested_text [OF assms(2)]] .

lemma laid_sorted:
  assumes "well_indexed s 0 d" "laid d a ns b"
  shows "sorted (map annotation_key ns)" "sort_key annotation_key ns = ns"
proof -
  have "spaced a ns b" "\<forall>n \<in> set ns. range_start (node_range n) \<le> range_end (node_range n)"
    using assms nested_ordered [OF assms(1)] by (auto simp: laid_def)
  then show s: "sorted (map annotation_key ns)" using spaced_sorted by blast
  then show "sort_key annotation_key ns = ns" by (rule sort_key_sorted)
qed

lemma nested_node:
  assumes "well_indexed s 0 d" "cut s r" "range_start r \<le> range_end r" "laid d (range_start r) cs (range_end r)"
    and "\<forall>t. k \<noteq> TokenNode t"
  shows "nested d (SyntaxNode k r cs)" "tokenless (SyntaxNode k r cs)"
  using assms(4,5) cut_text [OF assms(1-3)] by (simp_all add: laid_sorted [OF assms(1,4)]) (auto simp: laid_def)

lemma laid_one:
  assumes "well_indexed s 0 d" "cut s r" "range_start r \<le> range_end r" "laid d (range_start r) cs (range_end r)"
    and "\<forall>t. k \<noteq> TokenNode t" "a \<le> range_start r" "range_end r \<le> b"
  shows "laid d a [SyntaxNode k r cs] b"
  using assms nested_node [OF assms(1-5)] by (simp add: laid_Cons)

lemma laid_leaf:
  assumes "well_indexed s 0 d" "cut s r" "range_start r \<le> range_end r" "\<forall>t. k \<noteq> TokenNode t"
    "a \<le> range_start r" "range_end r \<le> b"
  shows "laid d a [leaf k r] b"
  unfolding leaf_def using assms by (intro laid_one) simp_all

section \<open>Inlines as far as their nodes matter\<close>

definition is_text :: "Inline \<Rightarrow> bool" where
  "is_text i \<longleftrightarrow> (case i of TextInline _ \<Rightarrow> True | _ \<Rightarrow> False)"

lemma is_text_simps [simp]:
  "is_text (TextInline t)" "\<not> is_text (LiteralInline k r c v)" "\<not> is_text (StyledInline y r c inner)"
  "\<not> is_text (AttributeReferenceInline r n x z e)" "\<not> is_text (LinkInline l)" "\<not> is_text (ReferenceInline f)"
  "\<not> is_text (FormulaInline m)" "\<not> is_text (MacroInline w)" "\<not> is_text (PassthroughInline p r c v)"
  "\<not> is_text (HardBreakInline r)"
  by (simp_all add: is_text_def)

text \<open>Inlines that are no text stand one after the other between \<open>a\<close> and \<open>b\<close>.\<close>

function placed :: "str \<Rightarrow> Inline \<Rightarrow> bool"
  and arranged :: "str \<Rightarrow> nat \<Rightarrow> Inline list \<Rightarrow> nat \<Rightarrow> bool" where
  "placed doc i =
     (case i of
        TextInline _ \<Rightarrow> True
      | LiteralInline _ r content _ \<Rightarrow> within content r \<and> cut doc content
      | StyledInline _ r content inner \<Rightarrow>
          within content r \<and> cut doc content \<and> arranged doc (range_start content) inner (range_end content)
      | AttributeReferenceInline r name_r _ _ _ \<Rightarrow> within name_r r \<and> cut doc name_r
      | LinkInline l \<Rightarrow>
          within (link_target_range l) (link_range l) \<and> cut doc (link_target_range l)
          \<and> (case link_label_range l of None \<Rightarrow> True
             | Some q \<Rightarrow> within q (link_range l) \<and> cut doc q \<and> range_end (link_target_range l) \<le> range_start q
                 \<and> arranged doc (range_start q) (link_label l) (range_end q))
      | ReferenceInline x \<Rightarrow>
          within (reference_target_range x) (reference_range x) \<and> cut doc (reference_target_range x)
          \<and> (case reference_label_range x of None \<Rightarrow> True
             | Some q \<Rightarrow> within q (reference_range x) \<and> cut doc q \<and> range_end (reference_target_range x) \<le> range_start q
                 \<and> arranged doc (range_start q) (reference_label x) (range_end q))
      | FormulaInline f \<Rightarrow> within (formula_content_range f) (formula_range f) \<and> cut doc (formula_content_range f)
      | MacroInline m \<Rightarrow> within (macro_target_range m) (macro_range m) \<and> cut doc (macro_target_range m)
      | PassthroughInline _ r content _ \<Rightarrow> within content r \<and> cut doc content
      | HardBreakInline _ \<Rightarrow> True)"
| "arranged doc a [] b = True"
| "arranged doc a (i # is) b =
     (if is_text i then arranged doc a is b
      else a \<le> range_start (inline_range i) \<and> range_start (inline_range i) \<le> range_end (inline_range i)
        \<and> range_end (inline_range i) \<le> b \<and> cut doc (inline_range i) \<and> placed doc i
        \<and> arranged doc (range_end (inline_range i)) is b)"
  by pat_completeness auto
termination
proof (relation "measure (\<lambda>x. case x of Inl (doc, i) \<Rightarrow> size i | Inr (doc, a, is, b) \<Rightarrow> size_list size is)", goal_cases)
  case (3 doc i l q)
  then show ?case by (cases l) simp
next
  case (4 doc i x q)
  then show ?case by (cases x) simp
qed auto

declare placed.simps [simp del]

lemma placed_simps [simp]:
  "placed doc (TextInline t)" "placed doc (HardBreakInline r)"
  "placed doc (LiteralInline k r content v) \<longleftrightarrow> within content r \<and> cut doc content"
  "placed doc (StyledInline y r content inner) \<longleftrightarrow>
     within content r \<and> cut doc content \<and> arranged doc (range_start content) inner (range_end content)"
  "placed doc (AttributeReferenceInline r name_r n x z) \<longleftrightarrow> within name_r r \<and> cut doc name_r"
  "placed doc (FormulaInline f) \<longleftrightarrow> within (formula_content_range f) (formula_range f) \<and> cut doc (formula_content_range f)"
  "placed doc (MacroInline m) \<longleftrightarrow> within (macro_target_range m) (macro_range m) \<and> cut doc (macro_target_range m)"
  "placed doc (PassthroughInline p r content v) \<longleftrightarrow> within content r \<and> cut doc content"
  by (simp_all add: placed.simps)

lemma arranged_widen: "arranged doc a is b \<Longrightarrow> a' \<le> a \<Longrightarrow> b \<le> b' \<Longrightarrow> arranged doc a' is b'"
proof (induction "is" arbitrary: a a')
  case (Cons i "is")
  from Cons.prems Cons.IH [of a a'] Cons.IH [of "range_end (inline_range i)" "range_end (inline_range i)"]
  show ?case by (auto split: if_splits)
qed simp

lemma arranged_append: "arranged doc a xs m \<Longrightarrow> arranged doc m ys b \<Longrightarrow> a \<le> m \<Longrightarrow> m \<le> b \<Longrightarrow> arranged doc a (xs @ ys) b"
  by (induction xs arbitrary: a) (auto intro: arranged_widen split: if_splits)

lemma consecutive_ordered: "consecutive doc a rs b \<Longrightarrow> a \<le> b"
  by (induction rs arbitrary: a) fastforce+

lemma consecutive_arranged:
  "consecutive doc a (map inline_range is) b \<Longrightarrow> \<forall>i \<in> set is. placed doc i \<Longrightarrow> arranged doc a is b"
proof (induction "is" arbitrary: a)
  case (Cons i "is")
  then have "arranged doc (range_end (inline_range i)) is b" "range_end (inline_range i) \<le> b"
    by (auto dest: consecutive_ordered)
  with Cons.prems show ?case by (auto intro: arranged_widen)
qed simp

lemma inline_ok_placed: "inline_ok doc i \<Longrightarrow> placed doc i"
proof (induction doc i rule: inline_ok.induct)
  case (3 doc s r content inner)
  then show ?case by (auto simp: list_all_iff intro!: consecutive_arranged)
next
  case (5 doc l)
  then show ?case
    by (cases "link_label_range l")
      (auto simp: placed.simps [of doc "LinkInline l"] marks_def spells_def list_all_iff intro!: consecutive_arranged)
next
  case (6 doc x)
  then show ?case
    by (cases "reference_label_range x")
      (auto simp: placed.simps [of doc "ReferenceInline x"] marks_def spells_def list_all_iff intro!: consecutive_arranged)
qed (auto simp: marks_def spells_def macro_ok_def)

lemma parsed_arranged:
  "consecutive doc a (map inline_range is) b \<Longrightarrow> list_all (inline_ok doc) is \<Longrightarrow> arranged doc a is b"
  by (auto simp: list_all_iff intro!: consecutive_arranged inline_ok_placed)

section \<open>Nodes of inlines\<close>

text \<open>\<open>TextRange::new\<close> of an ordered range.\<close>

lemma expect_range_ordered:
  "a \<le> b \<Longrightarrow> expect_position (TextRange_new a b) = Inr \<lparr>range_start = a, range_end = b\<rparr>"
  by (simp add: expect_position_def TextRange_new_def)

lemma span_node_laid:
  assumes d: "well_indexed s 0 d" and r: "cut s r" "range_start r \<le> range_end r" and c: "within content r" "cut s content"
    and inner: "laid d (range_start content) ns (range_end content)"
  shows "\<exists>n. span_node r content ns = Inr n \<and> laid d (range_start r) [n] (range_end r)"
proof -
  from c(1) have o: "range_start r \<le> range_start content" "range_start content \<le> range_end content"
    "range_end content \<le> range_end r" by (simp_all add: within_def)
  let ?open = "\<lparr>range_start = range_start r, range_end = range_start content\<rparr>"
  let ?close = "\<lparr>range_start = range_end content, range_end = range_end r\<rparr>"
  have b: "laid d (range_start r) [leaf InlineDelimiter ?open] (range_start content)"
    using r c o by (intro laid_leaf [OF d]) (simp_all add: cut_def)
  have e: "laid d (range_end content) [leaf InlineDelimiter ?close] (range_end r)"
    using r c o by (intro laid_leaf [OF d]) (simp_all add: cut_def)
  have bi: "laid d (range_start r) (leaf InlineDelimiter ?open # ns) (range_end content)"
    using laid_append [OF b inner o(1,2)] by simp
  have all: "laid d (range_start r) ((leaf InlineDelimiter ?open # ns) @ [leaf InlineDelimiter ?close]) (range_end r)"
    using o by (intro laid_append [OF bi e]) simp_all
  show ?thesis
  proof (cases "range_end content < range_end r")
    case True
    with laid_one [OF d r all, of InlineSpan] o show ?thesis
      by (auto simp: span_node_def expect_range_ordered)
  next
    case False
    with laid_one [OF d r laid_widen [OF bi order_refl o(3)], of InlineSpan] o show ?thesis
      by (auto simp: span_node_def expect_range_ordered)
  qed
qed

lemma macro_node_laid:
  assumes d: "well_indexed s 0 d" and r: "cut s r" "range_start r \<le> range_end r" and t: "within tgt r" "cut s tgt"
    and label: "laid d (range_end tgt) ns (range_end r)"
  shows "laid d (range_start r) [macro_node r tgt ns] (range_end r)"
proof -
  from t(1) have o: "range_start r \<le> range_start tgt" "range_start tgt \<le> range_end tgt" "range_end tgt \<le> range_end r"
    by (simp_all add: within_def)
  have "laid d (range_start r) [leaf TargetNode tgt] (range_end tgt)" using t o by (intro laid_leaf [OF d]) simp_all
  from laid_append [OF this label] o have "laid d (range_start r) (leaf TargetNode tgt # ns) (range_end r)" by simp
  from laid_one [OF d r this, of MacroNode] show ?thesis by (simp add: macro_node_def)
qed

lemma inlines_syntax_laid:
  assumes d: "well_indexed s 0 d"
  shows "placed s i \<Longrightarrow> cut s (inline_range i) \<Longrightarrow> range_start (inline_range i) \<le> range_end (inline_range i) \<Longrightarrow>
      \<exists>ns. inline_syntax i = Inr ns \<and> laid d (range_start (inline_range i)) ns (range_end (inline_range i))"
    and "arranged s a is b \<Longrightarrow> a \<le> b \<Longrightarrow> \<exists>ns. inlines_syntax is = Inr ns \<and> laid d a ns b"
proof (induction i and "is" arbitrary: and a b rule: inline_syntax_inlines_syntax.induct)
  case (2 k r content v)
  with span_node_laid [OF d, of r content "[]"] show ?case by auto
next
  case (3 k r content inlines)
  then have c: "within content r" "cut s content" "arranged s (range_start content) inlines (range_end content)"
    and r: "cut s r" "range_start r \<le> range_end r" by simp_all
  from c(1) have "range_start content \<le> range_end content" by (simp add: within_def)
  from 3(1) [OF c(3) this] obtain ns where ns: "inlines_syntax inlines = Inr ns"
    "laid d (range_start content) ns (range_end content)" by blast
  from span_node_laid [OF d r c(1,2) ns(2)] ns(1) show ?case by auto
next
  case (4 r name_r n x e)
  with macro_node_laid [OF d, of r name_r "[]"] show ?case by (simp add: macro_node_def)
next
  case (5 l)
  show ?case
  proof (cases "link_label_range l")
    case None
    with macro_node_laid [OF d, of "link_range l" "link_target_range l" "[]"] 5 show ?thesis
      by (simp add: placed.simps [of s "LinkInline l"])
  next
    case (Some q)
    with 5(2-) have q: "within q (link_range l)" "cut s q" "range_end (link_target_range l) \<le> range_start q"
      "arranged s (range_start q) (link_label l) (range_end q)"
      and t: "within (link_target_range l) (link_range l)" "cut s (link_target_range l)"
      by (simp_all add: placed.simps [of s "LinkInline l"])
    from q(1) have o: "range_start q \<le> range_end q" "range_end q \<le> range_end (link_range l)" by (simp_all add: within_def)
    from 5(1) [OF Some q(4) o(1)] obtain ns where ns: "inlines_syntax (link_label l) = Inr ns"
      "laid d (range_start q) ns (range_end q)" by blast
    from laid_one [OF d q(2) o(1) ns(2), of LabelNode, OF _ q(3) o(2)]
    have "laid d (range_end (link_target_range l)) [SyntaxNode LabelNode q ns] (range_end (link_range l))" by simp
    with macro_node_laid [OF d _ _ t this] 5(3,4) Some ns(1) show ?thesis by simp
  qed
next
  case (6 x)
  show ?case
  proof (cases "reference_label_range x")
    case None
    with macro_node_laid [OF d, of "reference_range x" "reference_target_range x" "[]"] 6 show ?thesis
      by (simp add: placed.simps [of s "ReferenceInline x"])
  next
    case (Some q)
    with 6(2-) have q: "within q (reference_range x)" "cut s q" "range_end (reference_target_range x) \<le> range_start q"
      "arranged s (range_start q) (reference_label x) (range_end q)"
      and t: "within (reference_target_range x) (reference_range x)" "cut s (reference_target_range x)"
      by (simp_all add: placed.simps [of s "ReferenceInline x"])
    from q(1) have o: "range_start q \<le> range_end q" "range_end q \<le> range_end (reference_range x)" by (simp_all add: within_def)
    from 6(1) [OF Some q(4) o(1)] obtain ns where ns: "inlines_syntax (reference_label x) = Inr ns"
      "laid d (range_start q) ns (range_end q)" by blast
    from laid_one [OF d q(2) o(1) ns(2), of LabelNode, OF _ q(3) o(2)]
    have "laid d (range_end (reference_target_range x)) [SyntaxNode LabelNode q ns] (range_end (reference_range x))" by simp
    with macro_node_laid [OF d _ _ t this] 6(3,4) Some ns(1) show ?thesis by simp
  qed
next
  case (7 f)
  with macro_node_laid [OF d, of "formula_range f" "formula_content_range f" "[]"] show ?case by simp
next
  case (8 m)
  with macro_node_laid [OF d, of "macro_range m" "macro_target_range m" "[]"] show ?case by (simp add: macro_node_def)
next
  case (9 r)
  then show ?case by (auto intro!: laid_leaf [OF d])
next
  case (10 k r content v)
  with span_node_laid [OF d, of r content "[]"] show ?case by auto
next
  case (12 i "is")
  show ?case
  proof (cases "is_text i")
    case True
    then obtain t where "i = TextInline t" by (cases i) auto
    with 12(2) [of "[]" a b] 12(3,4) show ?thesis by auto
  next
    case False
    let ?r = "inline_range i"
    from False 12(3) have o: "a \<le> range_start ?r" "range_start ?r \<le> range_end ?r" "range_end ?r \<le> b"
      "cut s ?r" "placed s i" "arranged s (range_end ?r) is b" by simp_all
    from 12(1) [OF o(5,4,2)] obtain ns where ns: "inline_syntax i = Inr ns" "laid d (range_start ?r) ns (range_end ?r)" by blast
    from 12(2) [OF ns(1) o(6,3)] obtain ms where ms: "inlines_syntax is = Inr ms" "laid d (range_end ?r) ms b" by blast
    have "laid d a (ns @ ms) b"
      using o by (intro laid_append [OF laid_widen [OF ns(2) o(1) order_refl] ms(2)]) simp_all
    with ns(1) ms(1) show ?thesis by simp
  qed
qed simp_all

section \<open>Hard breaks\<close>

text \<open>A hard break is a blank and a plus sign at the end of a line.\<close>

definition has_break :: "str \<Rightarrow> bool" where
  "has_break v \<longleftrightarrow> sublist [CHR '' '', CHR ''+'', line_feed] v
     \<or> sublist [CHR '' '', CHR ''+'', carriage_return, line_feed] v"

lemma line_feeds_at: "n \<in> set (line_feeds i v) \<Longrightarrow> i \<le> n \<and> n < i + length v \<and> v ! (n - i) = line_feed"
proof (induction v arbitrary: i)
  case (Cons b v)
  show ?case
  proof (cases "n = i")
    case False
    with Cons.prems Cons.IH [of "Suc i"] have "Suc i \<le> n" "n < Suc i + length v" "v ! (n - Suc i) = line_feed"
      by (auto split: if_splits)
    then show ?thesis by (simp add: nth_Cons')
  qed (use Cons.prems Cons.IH [of "Suc i"] in \<open>auto split: if_splits\<close>)
qed simp

lemma line_feeds_sorted: "sorted_wrt (<) (line_feeds i v)"
  by (induction v arbitrary: i) (auto dest: line_feeds_at)

text \<open>The end of the line before a line feed.\<close>

definition marker_stop_of :: "str \<Rightarrow> nat \<Rightarrow> nat" where
  "marker_stop_of v n = (if 0 < n \<and> v ! (n - 1) = carriage_return then n - 1 else n)"

lemma marker_break:
  assumes "n < length v" "v ! n = line_feed" "2 \<le> marker_stop_of v n"
    and "slice v (marker_stop_of v n - 2) (marker_stop_of v n) = '' +''"
  shows "has_break v" and "v ! (marker_stop_of v n - 2) = CHR '' ''" and "v ! (marker_stop_of v n - 1) = CHR ''+''"
proof -
  let ?m = "marker_stop_of v n"
  have m: "?m \<le> n" by (simp add: marker_stop_of_def)
  with assms(1) have "?m \<le> length v" by simp
  then have "slice v (?m - 2) ?m ! 0 = v ! (?m - 2)" "slice v (?m - 2) ?m ! 1 = v ! (?m - 2 + 1)"
    using assms(3) by (simp_all add: slice_def)
  moreover have "?m - 2 + 1 = ?m - 1" using assms(3) by simp
  ultimately show "v ! (?m - 2) = CHR '' ''" "v ! (?m - 1) = CHR ''+''" using assms(4) by simp_all
  have "v = take (?m - 2) v @ slice v (?m - 2) ?m @ drop ?m v"
  proof -
    have "drop (?m - 2) v = take 2 (drop (?m - 2) v) @ drop 2 (drop (?m - 2) v)"
      by (rule append_take_drop_id [symmetric])
    moreover have "2 + (?m - 2) = ?m" "?m - (?m - 2) = 2" using assms(3) by simp_all
    then have "slice v (?m - 2) ?m = take 2 (drop (?m - 2) v)" "drop 2 (drop (?m - 2) v) = drop ?m v"
      by (simp_all only: slice_def drop_drop)
    ultimately show ?thesis using append_take_drop_id [of "?m - 2" v] by simp
  qed
  moreover have "drop ?m v = line_feed # drop (Suc n) v \<or> drop ?m v = carriage_return # line_feed # drop (Suc n) v"
  proof (cases "0 < n \<and> v ! (n - 1) = carriage_return")
    case True
    then have "drop (n - 1) v = carriage_return # drop n v"
      using Cons_nth_drop_Suc [of "n - 1" v] assms(1) by simp
    with True Cons_nth_drop_Suc [OF assms(1)] assms(2) show ?thesis by (simp add: marker_stop_of_def)
  next
    case False
    then have "?m = n" unfolding marker_stop_of_def by auto
    with Cons_nth_drop_Suc [OF assms(1)] assms(2) show ?thesis by simp
  qed
  ultimately have "v = take (?m - 2) v @ [CHR '' '', CHR ''+'', line_feed] @ drop (Suc n) v
      \<or> v = take (?m - 2) v @ [CHR '' '', CHR ''+'', carriage_return, line_feed] @ drop (Suc n) v"
    using assms(4) by auto
  then show "has_break v" unfolding has_break_def sublist_def by blast
qed

lemma hard_break_loop_Cons:
  "hard_break_loop t (n # ns) cursor out =
     (let v = inline_text_value t; m = marker_stop_of v n in
      if m < 2 \<or> slice v (m - 2) m \<noteq> '' +'' then hard_break_loop t ns cursor out
      else
        and_then (push_piece t cursor (m - 2) out) (\<lambda>out.
        and_then (relative_range (inline_text_range t) (m - 2) (n + 1)) (\<lambda>r.
          hard_break_loop t ns (n + 1) (out @ [HardBreakInline r]))))"
  by (simp add: marker_stop_of_def Let_def)

declare hard_break_loop.simps(2) [simp del]

lemma no_hard_break:
  "\<not> has_break (inline_text_value t) \<Longrightarrow>
     \<forall>n \<in> set ns. n < length (inline_text_value t) \<and> inline_text_value t ! n = line_feed \<Longrightarrow>
     hard_break_loop t ns cursor out = Inr (cursor, out)"
proof (induction ns)
  case (Cons n ns)
  let ?v = "inline_text_value t"
  have "\<not> (2 \<le> marker_stop_of ?v n \<and> slice ?v (marker_stop_of ?v n - 2) (marker_stop_of ?v n) = '' +'')"
    using marker_break(1) [of n ?v] Cons.prems by auto
  with Cons show ?case by (simp only: hard_break_loop_Cons Let_def) auto
qed simp

lemma arranged_text: "arranged doc a is b \<Longrightarrow> arranged doc a (is @ [TextInline t]) b"
  by (induction "is" arbitrary: a) (auto split: if_splits)

lemma relative_range_ok:
  assumes "located doc v r" "a \<le> b" "b \<le> length v"
  shows "relative_range r a b = Inr (part r a b)"
  using assms by (simp add: relative_range_def expect_position_def text_range_ok located_def)

lemma push_piece_ok:
  assumes l: "located doc v r" and c: "char_boundary v a" "char_boundary v b"
    and out: "arranged doc p out (range_start r + a)" and le: "a \<le> b"
  shows "\<exists>out'. push_piece \<lparr>inline_text_range = r, inline_text_value = v\<rparr> a b out = Inr out'
    \<and> arranged doc p out' (range_start r + b)"
proof (cases "a < b")
  case True
  then have "arranged doc p (out @ [TextInline t]) (range_start r + b)" for t
    using arranged_widen [OF arranged_text [OF out]] by simp
  with True show ?thesis
    using relative_range_ok [OF l le char_boundary_le [OF c(2)]]
    by (simp add: push_piece_def sub_str_ok [OF le c])
next
  case False
  with out le show ?thesis by (simp add: push_piece_def)
qed

lemma hard_break_loop_ok:
  assumes l: "located doc v r" and t: "t = \<lparr>inline_text_range = r, inline_text_value = v\<rparr>"
  shows "sorted_wrt (<) ns \<Longrightarrow> \<forall>n \<in> set ns. cursor \<le> n \<and> n < length v \<and> v ! n = line_feed \<Longrightarrow>
    char_boundary v cursor \<Longrightarrow> (0 < cursor \<longrightarrow> v ! (cursor - 1) = line_feed) \<Longrightarrow>
    arranged doc (range_start r) out (range_start r + cursor) \<Longrightarrow>
    \<exists>c out'. hard_break_loop t ns cursor out = Inr (c, out') \<and> char_boundary v c
      \<and> arranged doc (range_start r) out' (range_start r + c)"
proof (induction ns arbitrary: cursor out)
  case Nil
  then show ?case by auto
next
  case (Cons n ns)
  let ?m = "marker_stop_of v n"
  have n: "cursor \<le> n" "n < length v" "v ! n = line_feed" using Cons.prems(2) by simp_all
  show ?case
  proof (cases "?m < 2 \<or> slice v (?m - 2) ?m \<noteq> '' +''")
    case True
    with Cons.IH [of cursor out] Cons.prems show ?thesis
      by (simp add: hard_break_loop_Cons Let_def t)
  next
    case False
    then have m: "2 \<le> ?m" and sp: "v ! (?m - 2) = CHR '' ''" "v ! (?m - 1) = CHR ''+''"
      using marker_break [OF n(2,3)] by auto
    have mn: "?m \<le> n" "?m < n \<Longrightarrow> v ! ?m = carriage_return \<and> n = Suc ?m"
      by (auto simp: marker_stop_of_def split: if_splits)
    have le: "cursor \<le> ?m - 2"
    proof (rule ccontr)
      assume "\<not> cursor \<le> ?m - 2"
      then have c: "?m - 2 < cursor" "0 < cursor" by simp_all
      with n(1) mn m have "cursor - 1 = ?m - 2 \<or> cursor - 1 = ?m - 1 \<or> (cursor - 1 = ?m \<and> ?m < n)"
        by (cases "?m < n") auto
      with Cons.prems(4) c(2) sp mn(2) show False by auto
    qed
    have lt: "?m - 2 < length v" using mn(1) n(2) m by simp
    have b: "char_boundary v (?m - 2)" "char_boundary v (Suc n)"
      using byte_found [OF located_valid [OF l] lt sp(1)] byte_found [OF located_valid [OF l] n(2,3)] by simp_all
    from push_piece_ok [OF l Cons.prems(3) b(1) Cons.prems(5) le] obtain out' where
      o': "push_piece t cursor (?m - 2) out = Inr out'" "arranged doc (range_start r) out' (range_start r + (?m - 2))"
      unfolding t by blast
    have le2: "?m - 2 \<le> Suc n" using mn(1) by simp
    have r': "relative_range r (?m - 2) (n + 1) = Inr (part r (?m - 2) (n + 1))"
      using relative_range_ok [OF l le2 char_boundary_le [OF b(2)]] by simp
    have "arranged doc (range_start r + (?m - 2)) [HardBreakInline (part r (?m - 2) (Suc n))] (range_start r + Suc n)"
      using le2 cut_part [OF l b] by simp
    from arranged_append [OF o'(2) this] le2
    have out'': "arranged doc (range_start r) (out' @ [HardBreakInline (part r (?m - 2) (Suc n))]) (range_start r + Suc n)" by simp
    have "\<exists>c out1. hard_break_loop t ns (Suc n) (out' @ [HardBreakInline (part r (?m - 2) (Suc n))]) = Inr (c, out1)
        \<and> char_boundary v c \<and> arranged doc (range_start r) out1 (range_start r + c)"
      using Cons.prems(1,2) n(3) out'' b(2) by (intro Cons.IH) auto
    with False o'(1) r' show ?thesis by (simp add: hard_break_loop_Cons Let_def t)
  qed
qed

text \<open>
  The condition under which hard breaks are split off where they stand: a text that an escape
  has shortened holds none.
\<close>

definition exact_breaks :: "str \<Rightarrow> bool" where
  "exact_breaks doc \<longleftrightarrow> backslash \<notin> set doc \<or> \<not> has_break doc"

lemma has_break_sublist: "has_break v \<Longrightarrow> sublist v doc \<Longrightarrow> has_break doc"
  unfolding has_break_def using sublist_order.order.trans by blast

lemma sublist_slice: "sublist (slice s a b) s"
  unfolding sublist_def slice_def by (metis append_take_drop_id append.assoc)

lemma split_text_ok:
  assumes doc: "valid_utf8 doc" "length doc < u32_max" "exact_breaks doc"
    and r: "cut doc r" "range_start r \<le> range_end r" and v: "unescapes (text_at doc r) v"
  shows "\<exists>xs. split_hard_break_text \<lparr>inline_text_range = r, inline_text_value = v\<rparr> = Inr xs
    \<and> arranged doc (range_start r) xs (range_end r)"
proof -
  let ?t = "\<lparr>inline_text_range = r, inline_text_value = v\<rparr>"
  have b: "char_boundary doc (range_start r)" "char_boundary doc (range_end r)" using r(1) by (simp_all add: cut_def)
  have len: "range_end r \<le> length doc" using b(2) by (rule char_boundary_le)
  have feeds: "\<forall>n \<in> set (line_feeds 0 v). 0 \<le> n \<and> n < length v \<and> v ! n = line_feed"
    using line_feeds_at [of _ 0 v] by auto
  show ?thesis
  proof (cases "v = text_at doc r")
    case True
    have l: "located doc v r"
      using doc r b len valid_utf8_slice [OF doc(1) b r(2)]
      by (auto simp: located_def text_at_def True length_slice)
    have end_r: "range_end r = range_start r + length v" using l by (simp add: located_def)
    from hard_break_loop_ok [OF l refl line_feeds_sorted feeds char_boundary_0, of "[]"]
    obtain c out where c: "hard_break_loop ?t (line_feeds 0 v) 0 [] = Inr (c, out)" "char_boundary v c"
      "arranged doc (range_start r) out (range_start r + c)" by auto
    from push_piece_ok [OF l c(2) char_boundary_length c(3) char_boundary_le [OF c(2)]] c(1)
    show ?thesis by (auto simp: split_hard_break_text_def end_r)
  next
    case False
    with v obtain k where k: "text_at doc r = replicate k backslash @ v" "0 < k"
      unfolding unescapes_def by (metis append_Cons append_Nil replicate_Suc replicate_0 zero_less_Suc)
    have "backslash \<in> set doc"
      using k set_mono_sublist [OF sublist_slice [of doc "range_start r" "range_end r"]]
      by (cases k) (auto simp: text_at_def)
    moreover have "sublist v doc"
      using k(1) sublist_slice [of doc "range_start r" "range_end r"] unfolding text_at_def sublist_def
      by (metis append.assoc)
    ultimately have no: "\<not> has_break v" using doc(3) has_break_sublist by (auto simp: exact_breaks_def)
    have lv: "range_start r + length v \<le> u32_max"
    proof -
      have "length v \<le> range_end r - range_start r"
        using arg_cong [OF k(1), of length] len by (simp add: text_at_def length_slice)
      with r(2) len doc(2) show ?thesis by simp
    qed
    have "hard_break_loop ?t (line_feeds 0 v) 0 [] = Inr (0, [])" using no feeds by (intro no_hard_break) simp_all
    with lv show ?thesis
      by (auto simp: split_hard_break_text_def push_piece_def relative_range_def expect_position_def text_range_ok
          sub_str_def str_get_def)
  qed
qed

lemma placed_arranged:
  "placed doc i \<Longrightarrow> cut doc (inline_range i) \<Longrightarrow> range_start (inline_range i) \<le> range_end (inline_range i) \<Longrightarrow>
     arranged doc (range_start (inline_range i)) [i] (range_end (inline_range i))"
  by simp

lemma set_link_label_simps [simp]:
  "link_range (set_link_label inner l) = link_range l"
  "link_target_range (set_link_label inner l) = link_target_range l"
  "link_label_range (set_link_label inner l) = link_label_range l"
  "link_label (set_link_label inner l) = inner"
  by (cases l; simp)+

lemma set_reference_label_simps [simp]:
  "reference_range (set_reference_label inner x) = reference_range x"
  "reference_target_range (set_reference_label inner x) = reference_target_range x"
  "reference_label_range (set_reference_label inner x) = reference_label_range x"
  "reference_label (set_reference_label inner x) = inner"
  by (cases x; simp)+

lemma split_hard_breaks_ok:
  assumes doc: "valid_utf8 doc" "length doc < u32_max" "exact_breaks doc"
  shows "inline_ok doc i \<Longrightarrow> cut doc (inline_range i) \<Longrightarrow> range_start (inline_range i) \<le> range_end (inline_range i) \<Longrightarrow>
      \<exists>xs. split_hard_break i = Inr xs
        \<and> arranged doc (range_start (inline_range i)) xs (range_end (inline_range i))"
    and "consecutive doc a (map inline_range is) b \<Longrightarrow> list_all (inline_ok doc) is \<Longrightarrow>
      \<exists>ys. split_hard_breaks is = Inr ys \<and> arranged doc a ys b"
proof (induction i and "is" arbitrary: and a b rule: split_hard_break_split_hard_breaks.induct)
  case (1 t)
  with split_text_ok [OF doc, of "inline_text_range t" "inline_text_value t"] show ?case by (cases t) simp
next
  case (2 style r content inner)
  from 2(2) have c: "consecutive doc (range_start content) (map inline_range inner) (range_end content)"
    "list_all (inline_ok doc) inner" "within content r" "cut doc content" by simp_all
  from 2(1) [OF c(1,2)] 2(3,4) c(3,4) show ?case by auto
next
  case (3 l)
  show ?case
  proof (cases "link_label_range l")
    case None
    with 3(2) have "link_label l = []" by simp
    with inline_ok_placed [OF 3(2)] 3(3,4) None show ?thesis
      by (simp add: placed.simps [of doc "LinkInline _"])
  next
    case (Some q)
    with 3(2) have c: "consecutive doc (range_start q) (map inline_range (link_label l)) (range_end q)"
      "list_all (inline_ok doc) (link_label l)" by simp_all
    from 3(1) [OF c] inline_ok_placed [OF 3(2)] 3(3,4) Some show ?thesis
      by (auto simp: placed.simps [of doc "LinkInline _"])
  qed
next
  case (4 x)
  show ?case
  proof (cases "reference_label_range x")
    case None
    with 4(2) have "reference_label x = []" by simp
    with inline_ok_placed [OF 4(2)] 4(3,4) None show ?thesis
      by (simp add: placed.simps [of doc "ReferenceInline _"])
  next
    case (Some q)
    with 4(2) have c: "consecutive doc (range_start q) (map inline_range (reference_label x)) (range_end q)"
      "list_all (inline_ok doc) (reference_label x)" by simp_all
    from 4(1) [OF c] inline_ok_placed [OF 4(2)] 4(3,4) Some show ?thesis
      by (auto simp: placed.simps [of doc "ReferenceInline _"])
  qed
next
  case (7 i "is")
  let ?r = "inline_range i"
  from 7(3,4) have i: "range_start ?r = a" "a < range_end ?r" "cut doc ?r" "inline_ok doc i"
    "consecutive doc (range_end ?r) (map inline_range is) b" "list_all (inline_ok doc) is" by simp_all
  from 7(1) i obtain xs where xs: "split_hard_break i = Inr xs" "arranged doc a xs (range_end ?r)" by auto
  from 7(2) [OF xs(1) i(5,6)] obtain ys where ys: "split_hard_breaks is = Inr ys" "arranged doc (range_end ?r) ys b" by blast
  from arranged_append [OF xs(2) ys(2)] i(2) consecutive_ordered [OF i(5)] xs(1) ys(1) show ?case by simp
qed (simp_all add: marks_def spells_def macro_ok_def)

end
