(* ===== verification/List_Parser.thy ===== *)
theory List_Parser
  imports Block_Sequence
begin

text \<open>
  Lists: the flat items of \<open>parse_lists\<close> (\<open>parser.rs\<close>) and the tree built from them
  (\<open>list_parser.rs\<close>). The parser of delimited blocks that a continuation may need is an
  argument here; \<open>lists_fuel\<close> bounds the lists inside continuations, each of which starts at
  a later line.
\<close>

section \<open>From flat items to a tree\<close>

record FlatListItem =
  flat_depth :: nat
  flat_kind :: ListKind
  flat_item :: "AstBlock ListItem"

definition default_list_facts :: "ListKind \<Rightarrow> TextRange \<Rightarrow> ListBlockFacts" where
  "default_list_facts k r =
     \<lparr>list_metadata = TitledMetadata_default, list_kind = k,
      list_presentation = OrderedListPresentation_default, list_presentation_problems = [],
      list_range = r\<rparr>"

text \<open>The children go to the item, which then reaches to the end of the last of them.\<close>

definition adopt :: "AstBlock ListBlock list \<Rightarrow> AstBlock ListItem \<Rightarrow> AstBlock ListItem block_result" where
  "adopt children item =
     (let kids = item_children item @ children; f = item_facts item in
      if kids = [] then Inr (MkListItem f [] (item_continuations item))
      else
        and_then (block_range_new (range_start (item_range f)) (range_end (list_range (list_facts (last kids)))))
          (\<lambda>r. Inr (MkListItem (f\<lparr>item_range := r\<rparr>) kids (item_continuations item))))"

definition list_of_items ::
    "ListKind \<Rightarrow> AstBlock ListItem list \<Rightarrow> ParseState \<Rightarrow> (AstBlock ListBlock \<times> ParseState) block_result" where
  "list_of_items kind items st =
     and_then (expect (if items = [] then None else Some (hd items))) (\<lambda>first.
     and_then (block_range_new (range_start (item_range (item_facts first)))
                               (range_end (item_range (item_facts (last items))))) (\<lambda>r.
     and_then (spend consume_node st) (\<lambda>st.
       Inr (MkListBlock (default_list_facts kind r) items, st))))"

text \<open>
  \<open>build_tree\<close> with its two loops; the cursor is the list of the items that are left. The
  fuel drops with every call.
\<close>

fun tree_items ::
    "nat \<Rightarrow> nat \<Rightarrow> ListKind \<Rightarrow> FlatListItem list \<Rightarrow> AstBlock ListItem list \<Rightarrow> ParseState
     \<Rightarrow> (AstBlock ListBlock \<times> FlatListItem list \<times> ParseState) block_result"
  and tree_children ::
    "nat \<Rightarrow> nat \<Rightarrow> FlatListItem list \<Rightarrow> AstBlock ListBlock list \<Rightarrow> ParseState
     \<Rightarrow> (AstBlock ListBlock list \<times> FlatListItem list \<times> ParseState) block_result" where
  "tree_items 0 depth kind flat items st = Inl Panic"
| "tree_items (Suc n) depth kind flat items st =
     (case flat of
        x # rest \<Rightarrow>
          if flat_depth x = depth \<and> flat_kind x = kind then
            and_then (tree_children n depth rest [] st) (\<lambda>(children, rest, st).
            and_then (adopt children (flat_item x)) (\<lambda>item.
              tree_items n depth kind rest (items @ [item]) st))
          else and_then (list_of_items kind items st) (\<lambda>(l, st). Inr (l, flat, st))
      | [] \<Rightarrow> and_then (list_of_items kind items st) (\<lambda>(l, st). Inr (l, flat, st)))"
| "tree_children 0 depth flat children st = Inl Panic"
| "tree_children (Suc n) depth flat children st =
     (case flat of
        x # _ \<Rightarrow>
          if depth < flat_depth x then
            and_then (tree_items n (flat_depth x) (flat_kind x) flat [] st) (\<lambda>(l, rest, st).
              tree_children n depth rest (children @ [l]) st)
          else Inr (children, flat, st)
      | [] \<Rightarrow> Inr (children, flat, st))"

definition build_tree ::
    "nat \<Rightarrow> ListKind \<Rightarrow> FlatListItem list \<Rightarrow> ParseState
     \<Rightarrow> (AstBlock ListBlock \<times> FlatListItem list \<times> ParseState) block_result" where
  "build_tree depth kind flat st = tree_items (3 * length flat + 3) depth kind flat [] st"

text \<open>A root list starts wherever the last one ended; the fuel counts the items left.\<close>

fun roots_loop ::
    "nat \<Rightarrow> FlatListItem list \<Rightarrow> AstBlock ListBlock list \<Rightarrow> ParseState
     \<Rightarrow> (AstBlock ListBlock list \<times> ParseState) block_result" where
  "roots_loop n [] roots st = Inr (roots, st)"
| "roots_loop 0 (x # rest) roots st = Inl Panic"
| "roots_loop (Suc n) (x # rest) roots st =
     and_then (spend consume_block st) (\<lambda>st.
     and_then (build_tree (flat_depth x) (flat_kind x) (x # rest) st) (\<lambda>(l, rest, st).
       roots_loop n rest (roots @ [l]) st))"

section \<open>Terms without a description\<close>

definition combines_with_next :: "FlatListItem \<Rightarrow> FlatListItem \<Rightarrow> bool" where
  "combines_with_next x y \<longleftrightarrow>
     flat_kind x = Description \<and> item_text (item_facts (flat_item x)) = [] \<and> flat_kind y = Description
     \<and> flat_depth y = flat_depth x"

text \<open>The first item is dropped; the second gets its terms and reaches back to its start.\<close>

definition combine_items :: "FlatListItem \<Rightarrow> FlatListItem \<Rightarrow> FlatListItem block_result" where
  "combine_items x y =
     (let f = item_facts (flat_item x); g = item_facts (flat_item y) in
      and_then (block_range_new (range_start (item_range f)) (range_end (item_range g))) (\<lambda>r.
        Inr (y\<lparr>flat_item := MkListItem (g\<lparr>item_terms := item_terms f @ item_terms g, item_range := r\<rparr>)
                 (item_children (flat_item y)) (item_continuations (flat_item y))\<rparr>)))"

fun combine_terms :: "FlatListItem list \<Rightarrow> FlatListItem list block_result" where
  "combine_terms (x # y # rest) =
     (if combines_with_next x y
      then and_then (combine_items x y) (\<lambda>z. combine_terms (z # rest))
      else and_then (combine_terms (y # rest)) (\<lambda>out. Inr (x # out)))"
| "combine_terms flat = Inr flat"

section \<open>One item\<close>

text \<open>The lines of the principal text: it ends before \<open>stop\<close>, and the last range end is kept.\<close>

function principal_loop ::
    "ParseContext \<Rightarrow> nat \<Rightarrow> nat \<Rightarrow> nat \<Rightarrow> ParseState \<Rightarrow> (nat \<times> nat \<times> ParseState) block_result" where
  "principal_loop ctx end_line stop principal_end st =
     (if stop < end_line then
        and_then (poll ctx st) (\<lambda>st.
        and_then (read_line (ctx_document ctx) stop) (\<lambda>(l, content).
          if content = ''+'' \<or> list_marker content \<noteq> None then Inr (stop, principal_end, st)
          else
            and_then (unfailing (recognize_line content (content_at (ctx_document ctx) (stop + 1))
                (range_start (content_range l)) (full_range l) False)) (\<lambda>recognition.
              if recognition = Paragraph_line \<or> recognition = Literal_paragraph_line
              then principal_loop ctx end_line (stop + 1) (range_end (content_range l)) st
              else Inr (stop, principal_end, st))))
      else Inr (stop, principal_end, st))"
  by pat_completeness auto
termination
  by (relation "measure (\<lambda>(ctx, end_line, stop, principal_end, st). end_line - stop)") auto

declare principal_loop.simps [simp del]

text \<open>A check mark after the marker of an unordered item takes four bytes of the text.\<close>

definition checklist_of :: "ListKind \<Rightarrow> str \<Rightarrow> ChecklistState option" where
  "checklist_of kind rest =
     (if kind = Unordered \<and> 4 \<le> length rest \<and> rest ! 0 = CHR ''['' \<and> rest ! 2 = CHR '']''
         \<and> is_blank (rest ! 3)
      then (if rest ! 1 = CHR '' '' then Some Unchecked
            else if rest ! 1 \<in> {CHR ''x'', CHR ''X'', CHR ''*''} then Some Checked else None)
      else None)"

definition item_problems_of ::
    "ParseConfig \<Rightarrow> ParsedListMarker \<Rightarrow> str \<Rightarrow> str \<Rightarrow> TextRange \<Rightarrow> TextRange \<Rightarrow> TextRange \<Rightarrow> nat
     \<Rightarrow> (nat \<times> ListKind) option \<Rightarrow> ListKind option list \<Rightarrow> ListProblem list" where
  "item_problems_of config m content v text_r marker_r separator_r effective previous kinds =
     (let p = (\<lambda>k r. \<lparr>list_problem_kind = k, list_problem_range = r\<rparr>) in
      (if v = [] \<and> marker_kind m \<noteq> Description then [p EmptyItem text_r] else [])
      @ (if marker_end m < length content \<and> content ! marker_end m = tab
         then [p NonCanonicalSeparator separator_r] else [])
      @ (if config_max_list_depth config < marker_depth m then [p DepthLimitExceeded marker_r] else [])
      @ (case previous of
           Some (d, _) \<Rightarrow> if d + 1 < effective then [p InvalidNesting marker_r] else []
         | None \<Rightarrow> [])
      @ (if effective < length kinds \<and> kinds ! effective \<noteq> None \<and> kinds ! effective \<noteq> Some (marker_kind m)
         then [p InconsistentMarker marker_r] else []))"

text \<open>\<open>kinds_by_depth.resize(...)\<close>, then the assignment.\<close>

definition set_kind :: "nat \<Rightarrow> ListKind \<Rightarrow> ListKind option list \<Rightarrow> ListKind option list" where
  "set_kind depth kind kinds =
     (kinds @ replicate (depth + 1 - length kinds) None)[depth := Some kind]"

definition parse_terms ::
    "ParseContext \<Rightarrow> str \<Rightarrow> nat \<Rightarrow> nat option \<Rightarrow> ParseState \<Rightarrow> (DescriptionTerm list \<times> ParseState) block_result" where
  "parse_terms ctx content absolute term_stop st =
     (case term_stop of
        None \<Rightarrow> Inr ([], st)
      | Some stop \<Rightarrow>
          and_then (block_text_range absolute (absolute + stop)) (\<lambda>r.
          and_then (sub_str content 0 stop) (\<lambda>v.
          and_then (parse_text ctx v r st) (\<lambda>(out, st).
            Inr ([\<lparr>term_range = r, term_text = v, term_inlines = output_inlines out,
                   term_inline_problems = output_problems out\<rparr>], st)))))"

text \<open>
  The item at \<open>index\<close>, up to the end of its principal text: the flat item, the line after it and
  the kinds seen so far.
\<close>

definition list_item_head ::
    "ParseContext \<Rightarrow> nat \<Rightarrow> nat \<Rightarrow> SourceLine \<Rightarrow> str \<Rightarrow> ParsedListMarker \<Rightarrow> FlatListItem list
     \<Rightarrow> (nat \<times> ListKind) option \<Rightarrow> ListKind option list \<Rightarrow> ParseState
     \<Rightarrow> (FlatListItem \<times> nat \<times> ListKind option list \<times> ParseState) block_result" where
  "list_item_head ctx end_line index l content m flat previous kinds st =
     (let kind = marker_kind m;
          (number, invalid_number) = public_fields (explicit_number m);
          effective = min (marker_depth m) (max 1 (config_max_list_depth (ctx_config ctx)));
          absolute = range_start (content_range l)
      in and_then (block_text_range (absolute + marker_start m) (absolute + marker_end m)) (\<lambda>marker_r.
         and_then (block_text_range (absolute + marker_end m) (absolute + text_start m)) (\<lambda>separator_r.
         and_then (if kind = Unordered then sub_str content (text_start m) (length content) else Inr []) (\<lambda>rest.
         let checklist = checklist_of kind rest;
             text_from = text_start m + (if checklist = None then 0 else 4);
             callout = (if kind = Callout \<and> callout_id m = Some 0
               then Some (length (filter (\<lambda>x. flat_kind x = Callout) flat) mod 2 ^ 32 + 1)
               else callout_id m);
             line_end = range_end (content_range l)
         in and_then (if kind = Callout then Inr (index + 1, line_end, st)
                      else principal_loop ctx end_line (index + 1) line_end st) (\<lambda>(stop, principal_end, st).
         and_then (if kind \<noteq> Callout \<and> line_end \<le> absolute + text_from \<and> index + 1 < stop
                   then and_then (expect (get_line (ctx_document ctx) (index + 1))) (\<lambda>next.
                          Inr (range_start (content_range next)))
                   else Inr (absolute + text_from)) (\<lambda>principal_start.
         and_then (sub_str (ctx_source ctx) principal_start principal_end) (\<lambda>v.
         and_then (block_text_range principal_start principal_end) (\<lambda>text_r.
         and_then (parse_text ctx v text_r st) (\<lambda>(out, st).
         let probs = item_problems_of (ctx_config ctx) m content v text_r marker_r separator_r effective
                       previous kinds
         in and_then (spend consume_node st) (\<lambda>st.
         and_then (parse_terms ctx content absolute (term_end m) st) (\<lambda>(terms, st).
         and_then (expect (get_line (ctx_document ctx) (stop - 1))) (\<lambda>last_line.
         and_then (block_range_new (range_start (full_range l)) (range_end (full_range last_line))) (\<lambda>r.
         and_then (split_hard_breaks (output_inlines out)) (\<lambda>inlines.
           Inr (\<lparr>flat_depth = effective, flat_kind = kind,
                 flat_item = MkListItem
                   \<lparr>item_range = r, item_marker_range = marker_r, item_explicit_number = number,
                    invalid_explicit_number = invalid_number, item_separator_range = separator_r,
                    item_text_range = text_r, item_text = v, item_inlines = inlines, item_terms = terms,
                    item_checklist = checklist, item_callout_id = callout,
                    item_inline_problems = output_problems out, item_continuation_ranges = [],
                    item_problems = probs\<rparr> [] []\<rparr>,
                stop, set_kind effective kind kinds, st)))))))))))))))"

section \<open>Continuations\<close>

definition is_metadata_line :: "str \<Rightarrow> nat \<Rightarrow> TextRange \<Rightarrow> bool block_result" where
  "is_metadata_line content start full =
     (if is_block_title content
         \<or> starts_with content ''[['' \<and> parse_explicit_anchor content start full \<noteq> None
      then Inr True
      else and_then (unfailing (parse_block_attributes content start)) (\<lambda>m. Inr (m \<noteq> None)))"

function metadata_end_loop :: "SourceDocument \<Rightarrow> nat \<Rightarrow> nat \<Rightarrow> nat block_result" where
  "metadata_end_loop d end_line cursor =
     (if cursor < end_line then
        (case get_line d cursor of
           None \<Rightarrow> Inr (length (sd_lines d))
         | Some l \<Rightarrow>
             and_then (expect (line_content d l)) (\<lambda>content.
               if blank_text content then Inr cursor
               else and_then (is_metadata_line content (range_start (content_range l)) (full_range l)) (\<lambda>yes.
                      if yes then metadata_end_loop d end_line (cursor + 1) else Inr cursor)))
      else Inr cursor)"
  by pat_completeness auto
termination
  by (relation "measure (\<lambda>(d, end_line, cursor). end_line - cursor)") auto

declare metadata_end_loop.simps [simp del]

definition continuation_metadata_end :: "SourceDocument \<Rightarrow> nat \<Rightarrow> nat \<Rightarrow> nat option block_result" where
  "continuation_metadata_end d index end_line =
     and_then (metadata_end_loop d end_line index) (\<lambda>cursor.
       Inr (if index < cursor \<and> cursor < end_line
               \<and> (case content_at d cursor of None \<Rightarrow> False | Some c \<Rightarrow> \<not> blank_text c)
            then Some cursor else None))"

definition continuation_metadata_line ::
    "ParseContext \<Rightarrow> SourceLine \<Rightarrow> str \<Rightarrow> TitledMetadata \<Rightarrow> ParseState
     \<Rightarrow> (TitledMetadata \<times> ParseState) block_result" where
  "continuation_metadata_line ctx l content m st =
     (let start = range_start (content_range l);
          anchor = (if starts_with content ''[[''
                    then parse_explicit_anchor content start (full_range l) else None)
      in
      and_then
        (if is_block_title content then
           and_then (parse_block_title ctx content start st) (\<lambda>(title, st).
           and_then (spend consume_node st) (\<lambda>st.
           and_then (spend consume_attribute st) (\<lambda>st.
             Inr (m\<lparr>metadata_title := title\<rparr>, st))))
         else (case anchor of
           Some a \<Rightarrow>
             and_then (spend consume_node st) (\<lambda>st.
               Inr (m\<lparr>metadata_id := Some \<lparr>metadata_value = anchor_id a, metadata_value_range = anchor_id_range a\<rparr>\<rparr>,
                    add_anchor a st))
         | None \<Rightarrow>
             and_then (unfailing (parse_block_attributes content start)) (\<lambda>parsed. case parsed of
               None \<Rightarrow> invariant_broken
             | Some p \<Rightarrow>
                 and_then (spend consume_node st) (\<lambda>st.
                 and_then (spend (consume_metadata_budget p) st) (\<lambda>st.
                   Inr (m\<lparr>metadata_id := (if metadata_id p \<noteq> None then metadata_id p else metadata_id m),
                          metadata_roles := metadata_roles m @ metadata_roles p,
                          metadata_options := metadata_options m @ metadata_options p,
                          metadata_attributes := metadata_attributes m @ metadata_attributes p\<rparr>,
                        (case metadata_id p of
                           None \<Rightarrow> st | Some v \<Rightarrow> add_anchor (anchor_of_metadata (full_range l) v) st)))))))
        (\<lambda>(m, st).
        and_then (case metadata_range m of
            Some r \<Rightarrow> block_range_new (range_start r) (range_end (full_range l))
          | None \<Rightarrow> Inr (full_range l)) (\<lambda>r.
          Inr (m\<lparr>metadata_range := Some r\<rparr>, st))))"

function metadata_lines_loop ::
    "ParseContext \<Rightarrow> nat \<Rightarrow> nat \<Rightarrow> TitledMetadata \<Rightarrow> ParseState
     \<Rightarrow> (TitledMetadata \<times> nat \<times> ParseState) block_result" where
  "metadata_lines_loop ctx metadata_stop cursor m st =
     (if cursor < metadata_stop then
        (case get_line (ctx_document ctx) cursor of
           None \<Rightarrow> Inr (m, cursor, st)
         | Some l \<Rightarrow>
             and_then (expect (line_content (ctx_document ctx) l)) (\<lambda>content.
               if blank_text content then Inr (m, cursor, st)
               else
                 and_then (continuation_metadata_line ctx l content m st) (\<lambda>(m, st).
                   metadata_lines_loop ctx metadata_stop (cursor + 1) m st)))
      else Inr (m, cursor, st))"
  by pat_completeness auto
termination
  by (relation "measure (\<lambda>(ctx, metadata_stop, cursor, m, st). metadata_stop - cursor)") auto

declare metadata_lines_loop.simps [simp del]

definition collect_continuation_metadata ::
    "ParseContext \<Rightarrow> nat \<Rightarrow> nat \<Rightarrow> ParseState \<Rightarrow> (TitledMetadata \<times> nat \<times> ParseState) block_result" where
  "collect_continuation_metadata ctx index end_line st =
     and_then (continuation_metadata_end (ctx_document ctx) index end_line) (\<lambda>stop. case stop of
        None \<Rightarrow> Inr (TitledMetadata_default, index, st)
      | Some metadata_stop \<Rightarrow> metadata_lines_loop ctx metadata_stop index TitledMetadata_default st)"

text \<open>The parser of a delimited block at a line, and the parser of the lists at a line.\<close>

type_synonym delimited_parser =
  "nat \<Rightarrow> nat \<Rightarrow> DelimiterSpec \<Rightarrow> ParseState \<Rightarrow> ParseDepth \<Rightarrow> TitledMetadata option
   \<Rightarrow> (AstBlock DelimitedBlock \<times> SyntaxNode list \<times> nat \<times> ParseState) block_result"

type_synonym list_parser =
  "nat \<Rightarrow> nat \<Rightarrow> ParseState \<Rightarrow> ParseDepth
   \<Rightarrow> (AstBlock ListBlock list \<times> nat \<times> TextRange \<times> ParseState) block_result"

definition with_metadata :: "TitledMetadata \<Rightarrow> AstBlock DelimitedBlock \<Rightarrow> AstBlock DelimitedBlock" where
  "with_metadata m b =
     (if metadata_range m \<noteq> None
      then MkDelimited ((delimited_facts b)\<lparr>delimited_metadata := m\<rparr>) (delimited_content b) else b)"

definition first_list_metadata ::
    "TitledMetadata \<Rightarrow> AstBlock ListBlock list \<Rightarrow> AstBlock ListBlock list block_result" where
  "first_list_metadata m ls =
     (case ls of
        [] \<Rightarrow> Inr []
      | l # rest \<Rightarrow>
          if metadata_range m = None then Inr ls
          else
            and_then (merge_block_metadata m (list_metadata (list_facts l))) (\<lambda>merged.
              Inr (MkListBlock ((list_facts l)\<lparr>list_metadata := merged\<rparr>) (list_items l) # rest)))"

definition parse_list_continuation ::
    "delimited_parser \<Rightarrow> list_parser \<Rightarrow> ParseContext \<Rightarrow> nat \<Rightarrow> nat \<Rightarrow> ParseState \<Rightarrow> ParseDepth
     \<Rightarrow> ((AstBlock list \<times> nat) option \<times> ParseState) block_result" where
  "parse_list_continuation delimited nested_lists ctx index end_line st depth =
     (case (if index < end_line then get_line (ctx_document ctx) index else None) of
        None \<Rightarrow> Inr (None, st)
      | Some l \<Rightarrow>
          and_then (expect (line_content (ctx_document ctx) l)) (\<lambda>content.
          if blank_text content then Inr (None, st)
          else
            and_then (spend consume_block st) (\<lambda>st.
            and_then (spend consume_node st) (\<lambda>st.
            and_then (collect_continuation_metadata ctx index end_line st) (\<lambda>(m, index, st).
            case get_line (ctx_document ctx) index of
              None \<Rightarrow> Inr (None, st)
            | Some l \<Rightarrow>
                and_then (expect (line_content (ctx_document ctx) l)) (\<lambda>content.
                case delimiter_spec content of
                  Some spec \<Rightarrow>
                    and_then (delimited index end_line spec st
                        (depth\<lparr>depth_block := depth_block depth + 1\<rparr>)
                        (if metadata_range m \<noteq> None then Some m else None)) (\<lambda>(block, _, stop, st).
                      Inr (Some ([DelimitedAst (with_metadata m block)], stop), st))
                | None \<Rightarrow>
                    if list_marker content \<noteq> None then
                      and_then (nested_lists index end_line st depth) (\<lambda>(ls, stop, _, st).
                      and_then (first_list_metadata m ls) (\<lambda>ls.
                        Inr (Some (map ListAst ls, stop), st)))
                    else
                      and_then (resolve_paragraph_inlines ctx
                          \<lparr>paragraph_metadata = m, paragraph_range = full_range l,
                           paragraph_content_range = content_range l, paragraph_value = content,
                           paragraph_inlines = [], paragraph_admonition = None,
                           paragraph_inline_problems = []\<rparr> st) (\<lambda>(p, st).
                        Inr (Some ([ParagraphBlock p], index + 1), st))))))))"

definition attach_continuation ::
    "TextRange \<Rightarrow> AstBlock list \<Rightarrow> AstBlock ListItem \<Rightarrow> AstBlock ListItem block_result" where
  "attach_continuation r attached item =
     and_then (expect (if attached = [] then None else Some (last attached))) (\<lambda>last_block.
     let f = item_facts item in
     and_then (block_range_new (range_start (item_range f)) (range_end (block_range last_block))) (\<lambda>ir.
       Inr (MkListItem (f\<lparr>item_range := ir, item_continuation_ranges := item_continuation_ranges f @ [r]\<rparr>)
              (item_children item) (item_continuations item @ attached))))"

text \<open>The loop over the lines that hold a plus sign. The fuel bounds its turns.\<close>

fun continuation_loop ::
    "nat \<Rightarrow> delimited_parser \<Rightarrow> list_parser \<Rightarrow> ParseContext \<Rightarrow> nat \<Rightarrow> ParseDepth \<Rightarrow> nat
     \<Rightarrow> AstBlock ListItem \<Rightarrow> ParseState \<Rightarrow> (AstBlock ListItem \<times> nat \<times> ParseState) block_result" where
  "continuation_loop 0 delimited nested_lists ctx end_line depth index item st = Inl Panic"
| "continuation_loop (Suc n) delimited nested_lists ctx end_line depth index item st =
     (if content_at (ctx_document ctx) index = Some ''+'' then
        and_then (expect (get_line (ctx_document ctx) index)) (\<lambda>l.
        and_then (spend consume_list_continuation st) (\<lambda>st.
        and_then (parse_list_continuation delimited nested_lists ctx (index + 1) end_line st depth)
          (\<lambda>(found, st). case found of
             None \<Rightarrow> Inr (item, index, st)
           | Some (attached, stop) \<Rightarrow>
               and_then (attach_continuation (full_range l) attached item) (\<lambda>item.
                 continuation_loop n delimited nested_lists ctx end_line depth stop item st))))
      else Inr (item, index, st))"

section \<open>The loop over the items\<close>

fun items_loop ::
    "nat \<Rightarrow> delimited_parser \<Rightarrow> list_parser \<Rightarrow> ParseContext \<Rightarrow> nat \<Rightarrow> ParseDepth \<Rightarrow> nat
     \<Rightarrow> FlatListItem list \<Rightarrow> (nat \<times> ListKind) option \<Rightarrow> ListKind option list \<Rightarrow> ParseState
     \<Rightarrow> (FlatListItem list \<times> nat \<times> ParseState) block_result" where
  "items_loop 0 delimited nested_lists ctx end_line depth index flat previous kinds st = Inl Panic"
| "items_loop (Suc n) delimited nested_lists ctx end_line depth index flat previous kinds st =
     (if \<not> index < end_line then Inr (flat, index, st)
      else
        and_then (read_line (ctx_document ctx) index) (\<lambda>(l, content).
        case list_marker content of
          None \<Rightarrow> Inr (flat, index, st)
        | Some m \<Rightarrow>
            and_then (list_item_head ctx end_line index l content m flat previous kinds st)
              (\<lambda>(x, stop, kinds, st).
            and_then (continuation_loop (Suc (length (sd_lines (ctx_document ctx)))) delimited nested_lists
                ctx end_line depth stop (flat_item x) st) (\<lambda>(item, index, st).
              items_loop n delimited nested_lists ctx end_line depth index
                (flat @ [x\<lparr>flat_item := item\<rparr>]) (Some (flat_depth x, flat_kind x)) kinds st))))"

definition parse_lists_with ::
    "delimited_parser \<Rightarrow> list_parser \<Rightarrow> ParseContext \<Rightarrow> list_parser" where
  "parse_lists_with delimited nested_lists ctx start end_line st depth =
     and_then (items_loop (Suc (end_line - start)) delimited nested_lists ctx end_line depth start [] None [] st)
       (\<lambda>(flat, index, st).
     and_then (combine_terms flat) (\<lambda>flat.
     and_then (expect (get_line (ctx_document ctx) start)) (\<lambda>first.
     and_then (block_range_new (range_start (full_range first))
         (if flat = [] then range_end (full_range first)
          else range_end (item_range (item_facts (flat_item (last flat)))))) (\<lambda>r.
     and_then (roots_loop (length flat) flat [] st) (\<lambda>(roots, st).
       Inr (roots, index, r, st))))))"

fun lists_fuel :: "nat \<Rightarrow> delimited_parser \<Rightarrow> ParseContext \<Rightarrow> list_parser" where
  "lists_fuel 0 delimited ctx start end_line st depth = Inl Panic"
| "lists_fuel (Suc n) delimited ctx start end_line st depth =
     parse_lists_with delimited (lists_fuel n delimited ctx) ctx start end_line st depth"

definition parse_lists :: "delimited_parser \<Rightarrow> ParseContext \<Rightarrow> list_parser" where
  "parse_lists delimited ctx start end_line st depth =
     lists_fuel (Suc (length (sd_lines (ctx_document ctx)))) delimited ctx start end_line st depth"

end
