(* ===== verification/Table_Configuration.thy ===== *)
theory Table_Configuration
  imports Syntax_Builder
begin

text \<open>
  \<open>table/configuration.rs\<close> and \<open>table/layout.rs\<close>: the settings of a table read from its
  metadata and its delimiter, and the layout of its cells in rows.
\<close>

section \<open>Input\<close>

record TableInputSpec =
  input_format :: TableFormat
  input_separator :: str

datatype TableConfigurationError = ColumnCount nat | ColumnWidth nat

definition u64_max :: nat where
  "u64_max = 18446744073709551615"

definition valid_custom_separator :: "str \<Rightarrow> bool" where
  "valid_custom_separator ch \<longleftrightarrow> ch \<noteq> ''='' \<and> \<not> is_control ch \<and> \<not> is_whitespace ch"

definition delimiter_separator :: "str \<Rightarrow> str option" where
  "delimiter_separator v =
     (case raw_delimiter_separator v of
        Some separator \<Rightarrow> if valid_custom_separator separator then Some separator else None
      | None \<Rightarrow> None)"

text \<open>The last attribute of a name.\<close>

definition last_attribute :: "str \<Rightarrow> 'm BlockMetadata_scheme \<Rightarrow> ElementAttribute option" where
  "last_attribute name m = List.find (\<lambda>a. element_name a = Some name) (rev (metadata_attributes m))"

definition single_character :: "str \<Rightarrow> str option" where
  "single_character v = (case chars v of
      [separator] \<Rightarrow> if valid_custom_separator separator then Some separator else None
    | _ \<Rightarrow> None)"

definition table_problem :: "TableProblemKind \<Rightarrow> TextRange \<Rightarrow> TableProblem" where
  "table_problem k r = \<lparr>table_problem_kind = k, table_problem_range = r\<rparr>"

definition parse_format :: "str \<Rightarrow> TableFormat option" where
  "parse_format v =
     (let v = to_ascii_lowercase (trim_matches [double_quote] v) in
      if v = ''psv'' then Some Psv else if v = ''csv'' then Some Csv
      else if v = ''dsv'' then Some Dsv else if v = ''tsv'' then Some Tsv else None)"

definition resolve_input ::
    "str \<Rightarrow> TextRange \<Rightarrow> 'm BlockMetadata_scheme \<Rightarrow> TableInputSpec \<times> TableProblem list" where
  "resolve_input delimiter delimiter_range m =
     (let format_attribute = last_attribute ''format'' m;
          parsed_format = Option.bind format_attribute (\<lambda>a. parse_format (element_value a));
          from_delimiter = (if delimiter \<noteq> ''|==='' then delimiter_separator delimiter else None);
          inferred_format = (if from_delimiter = Some '','' then Csv
                             else if from_delimiter = Some '':'' then Dsv else Psv);
          format = (if format_attribute \<noteq> None
                    then (case parsed_format of Some f \<Rightarrow> f | None \<Rightarrow> Psv) else inferred_format);
          separator_attribute = last_attribute ''separator'' m;
          from_attribute = Option.bind separator_attribute
            (\<lambda>a. single_character (trim_matches [double_quote] (element_value a)));
          separator = (case from_delimiter of
              Some s \<Rightarrow> s
            | None \<Rightarrow> (case from_attribute of Some s \<Rightarrow> s | None \<Rightarrow> default_separator format))
      in (\<lparr>input_format = format, input_separator = separator\<rparr>,
          (if delimiter \<noteq> ''|==='' \<and> from_delimiter = None
           then [table_problem InvalidSeparator delimiter_range] else [])
          @ (case format_attribute of
               Some a \<Rightarrow> if parsed_format = None then [table_problem InvalidFormat (element_range a)] else []
             | None \<Rightarrow> [])
          @ (case separator_attribute of
               Some a \<Rightarrow> if from_attribute = None then [table_problem InvalidSeparator (element_range a)] else []
             | None \<Rightarrow> [])
          @ (case (from_delimiter, from_attribute, separator_attribute) of
               (Some s, Some t, Some a) \<Rightarrow>
                 if s \<noteq> t then [table_problem InvalidSeparator (element_range a)] else []
             | _ \<Rightarrow> [])))"

section \<open>Columns\<close>

datatype UnsignedError = InvalidUnsigned | Overflow

fun unsigned_fold :: "nat \<Rightarrow> str \<Rightarrow> UnsignedError + nat" where
  "unsigned_fold current [] = Inr current"
| "unsigned_fold current (b # s) =
     (let n = current * 10 + digit_val b in
      if n \<le> u64_max then unsigned_fold n s else Inl Overflow)"

definition parse_count :: "str \<Rightarrow> UnsignedError + nat" where
  "parse_count v =
     (if v = [] \<or> \<not> list_all is_ascii_digit v then Inl InvalidUnsigned else unsigned_fold 0 v)"

text \<open>The digits of a specifier form the width, wherever they stand.\<close>

fun width_fold :: "nat option \<Rightarrow> str \<Rightarrow> TableConfigurationError + nat option" where
  "width_fold current [] = Inr current"
| "width_fold current (b # s) =
     (let n = (case current of Some n \<Rightarrow> n | None \<Rightarrow> 0) * 10 + digit_val b in
      if n \<le> u64_max then width_fold (Some n) s else Inl (ColumnWidth u64_max))"

definition horizontal_of :: "str \<Rightarrow> HorizontalAlignment option" where
  "horizontal_of ch = (if ch = ''<'' then Some LeftAligned else if ch = ''^'' then Some CenterAligned
                       else if ch = ''>'' then Some RightAligned else None)"

definition vertical_of :: "str \<Rightarrow> VerticalAlignment option" where
  "vertical_of ch = (if ch = ''<'' then Some TopAligned else if ch = ''^'' then Some MiddleAligned
                     else if ch = ''>'' then Some BottomAligned else None)"

definition cell_style_of :: "str \<Rightarrow> TableCellStyle option" where
  "cell_style_of ch =
     (if ch = ''a'' then Some AsciiDocStyle else if ch = ''d'' then Some DefaultStyle
      else if ch = ''e'' then Some EmphasisStyle else if ch = ''h'' then Some HeaderStyle
      else if ch = ''l'' then Some LiteralStyle else if ch = ''m'' then Some MonospaceStyle
      else if ch = ''s'' then Some StrongStyle else if ch = ''v'' then Some VerseStyle else None)"

definition last_style :: "str \<Rightarrow> TableCellStyle option" where
  "last_style v = (if chars v = [] then None else cell_style_of (last (chars v)))"

definition vertical_after_dot :: "str \<Rightarrow> VerticalAlignment option" where
  "vertical_after_dot v =
     Option.bind (rsplit_once_char (CHR ''.'') v) (\<lambda>(_, suffix). find_map vertical_of (chars suffix))"

definition parse_column :: "str \<Rightarrow> TableConfigurationError + TableColumn" where
  "parse_column v =
     and_then (width_fold None (filter is_ascii_digit v)) (\<lambda>width.
     and_then (case width of
         None \<Rightarrow> Inr None
       | Some n \<Rightarrow> if n \<le> u32_max then Inr (Some n) else Inl (ColumnWidth n)) (\<lambda>width.
       Inr \<lparr>column_index = 0, column_width = width,
            column_horizontal_alignment =
              (case find_map horizontal_of (chars v) of Some a \<Rightarrow> a | None \<Rightarrow> LeftAligned),
            column_vertical_alignment =
              (case vertical_after_dot v of Some a \<Rightarrow> a | None \<Rightarrow> TopAligned),
            column_style = (case last_style v of Some s \<Rightarrow> s | None \<Rightarrow> DefaultStyle)\<rparr>))"

text \<open>One entry of the attribute: how many columns, and what each of them is.\<close>

definition column_entry :: "str \<Rightarrow> TableConfigurationError + nat \<times> str" where
  "column_entry v =
     (case split_once_char (CHR ''*'') v of
        None \<Rightarrow> Inr (1, v)
      | Some (amount, spec) \<Rightarrow>
          (case parse_count amount of
             Inr n \<Rightarrow> Inr (n, spec)
           | Inl InvalidUnsigned \<Rightarrow> Inr (1, v)
           | Inl Overflow \<Rightarrow> Inl (ColumnCount u64_max)))"

fun columns_loop ::
    "nat \<Rightarrow> str list \<Rightarrow> nat \<Rightarrow> TableColumn list \<Rightarrow> TableConfigurationError + TableColumn list" where
  "columns_loop maximum [] so_far columns = Inr columns"
| "columns_loop maximum (v # vs) so_far columns =
     and_then (column_entry (trim v)) (\<lambda>(amount, spec).
     let amount = max amount 1; so_far = min u64_max (so_far + amount) in
     if maximum < so_far then Inl (ColumnCount so_far)
     else and_then (parse_column spec) (\<lambda>column.
            columns_loop maximum vs so_far (columns @ replicate amount column)))"

definition number_columns :: "TableColumn list \<Rightarrow> TableColumn list" where
  "number_columns columns = map (\<lambda>(i, c). c\<lparr>column_index := i mod 2 ^ 32\<rparr>) (List.enumerate 0 columns)"

definition resolve_columns ::
    "'m BlockMetadata_scheme \<Rightarrow> nat \<Rightarrow> TableConfigurationError + TableColumn list option" where
  "resolve_columns m maximum =
     (case last_attribute ''cols'' m of
        None \<Rightarrow> Inr None
      | Some a \<Rightarrow>
          let v = trim_matches [double_quote] (element_value a) in
          if trim v = [] then Inr None
          else and_then (columns_loop maximum (split_chars '','' v) 0 []) (\<lambda>columns.
            Inr (if columns = [] then None else Some (number_columns columns))))"

definition default_columns :: "nat \<Rightarrow> TableColumn list" where
  "default_columns amount =
     map (\<lambda>i. \<lparr>column_index = i mod 2 ^ 32, column_width = None,
               column_horizontal_alignment = LeftAligned, column_vertical_alignment = TopAligned,
               column_style = DefaultStyle\<rparr>) [0..<amount]"

section \<open>Presentation\<close>

definition has_option :: "'m BlockMetadata_scheme \<Rightarrow> str \<Rightarrow> bool" where
  "has_option m name \<longleftrightarrow>
     list_ex (\<lambda>o'. metadata_value o' = name) (metadata_options m)
     \<or> list_ex (\<lambda>a. element_name a = Some ''options''
         \<and> list_ex (\<lambda>w. trim w = name) (split_chars '','' (trim_matches [double_quote] (element_value a))))
         (metadata_attributes m)"

definition percentage_width :: "str \<Rightarrow> nat option" where
  "percentage_width v =
     (let v = (case strip_suffix v ''%'' of Some w \<Rightarrow> w | None \<Rightarrow> v) in
      if v \<noteq> [] \<and> list_all is_ascii_digit v
      then (case parse_unsigned 255 v of
              Some n \<Rightarrow> if 1 \<le> n \<and> n \<le> 100 then Some n else None
            | None \<Rightarrow> None)
      else None)"

definition named_attributes :: "str \<Rightarrow> 'm BlockMetadata_scheme \<Rightarrow> ElementAttribute list" where
  "named_attributes name m = filter (\<lambda>a. element_name a = Some name) (metadata_attributes m)"

text \<open>
  The first attribute of a name decides; a value it cannot have is a problem, and the fallback
  stays.
\<close>

definition choose_value ::
    "str \<Rightarrow> (str \<times> 'v) list \<Rightarrow> 'v \<Rightarrow> 'm BlockMetadata_scheme \<Rightarrow> 'v \<times> TableProblem list" where
  "choose_value name options fallback m =
     (case named_attributes name m of
        [] \<Rightarrow> (fallback, [])
      | a # _ \<Rightarrow> (case map_of options (element_value a) of
            Some v \<Rightarrow> (v, [])
          | None \<Rightarrow> (fallback, [table_problem InvalidPresentation (element_range a)])))"

definition resolve_presentation ::
    "'m BlockMetadata_scheme \<Rightarrow> TablePresentation \<times> TableProblem list" where
  "resolve_presentation m =
     (let duplicates = concat (map (\<lambda>name.
              map (\<lambda>a. table_problem InvalidPresentation (element_range a)) (tl (named_attributes name m)))
            [''frame'', ''grid'', ''stripes'', ''width'']);
          (frame, frame_problems) = choose_value ''frame''
            [(''all'', FrameAll), (''ends'', FrameEnds), (''none'', FrameNone), (''sides'', FrameSides)]
            FrameAll m;
          (grid, grid_problems) = choose_value ''grid''
            [(''all'', GridAll), (''cols'', GridColumns), (''none'', GridNone), (''rows'', GridRows)]
            GridAll m;
          (stripes, stripes_problems) = choose_value ''stripes''
            [(''all'', StripesAll), (''even'', StripesEven), (''hover'', StripesHover),
             (''none'', StripesNone), (''odd'', StripesOdd)] StripesNone m;
          (width, width_problems) = (case named_attributes ''width'' m of
              [] \<Rightarrow> (None, [])
            | a # _ \<Rightarrow> (percentage_width (element_value a),
                if percentage_width (element_value a) = None
                then [table_problem InvalidPresentation (element_range a)] else []));
          autowidth = has_option m ''autowidth'';
          both = (autowidth \<and> width \<noteq> None)
      in (\<lparr>table_frame = frame, table_grid = grid, table_stripes = stripes,
           table_width = (if both then None else width), table_autowidth = autowidth\<rparr>,
          duplicates @ frame_problems @ grid_problems @ stripes_problems @ width_problems
          @ (if both then (case named_attributes ''width'' m of
               a # _ \<Rightarrow> [table_problem InvalidPresentation (element_range a)] | [] \<Rightarrow> []) else [])))"

section \<open>The resolved configuration\<close>

record ResolvedTableConfiguration =
  config_input :: TableInputSpec
  config_input_problems :: "TableProblem list"
  config_columns :: "TableColumn list option"
  config_presentation :: TablePresentation
  config_presentation_problems :: "TableProblem list"
  explicit_header :: bool
  explicit_noheader :: bool
  config_footer :: bool

definition resolve_configuration ::
    "str \<Rightarrow> TextRange \<Rightarrow> 'm BlockMetadata_scheme \<Rightarrow> nat
     \<Rightarrow> TableConfigurationError + ResolvedTableConfiguration" where
  "resolve_configuration delimiter delimiter_range m maximum =
     (let (input, input_problems) = resolve_input delimiter delimiter_range m in
      and_then (resolve_columns m maximum) (\<lambda>columns.
      let (presentation, presentation_problems) = resolve_presentation m in
      Inr \<lparr>config_input = input, config_input_problems = input_problems, config_columns = columns,
           config_presentation = presentation, config_presentation_problems = presentation_problems,
           explicit_header = has_option m ''header'', explicit_noheader = has_option m ''noheader'',
           config_footer = has_option m ''footer''\<rparr>))"

definition column_styles :: "ResolvedTableConfiguration \<Rightarrow> TableCellStyle list" where
  "column_styles c = map column_style (case config_columns c of Some cs \<Rightarrow> cs | None \<Rightarrow> [])"

record ScannedTable =
  scanned_format :: TableFormat
  scanned_separator :: str
  scanned_content_range :: TextRange
  inferred_columns :: nat
  implicit_header_candidate :: bool
  scanned_cells :: "ScannedCell list"
  scanned_problems :: "TableProblem list"

definition materialized_cell_count :: "ScannedTable \<Rightarrow> nat" where
  "materialized_cell_count t = sum_list (map duplication (scanned_cells t))"

record ConfiguredTable =
  configured_facts :: TableFacts
  configured_cells :: "ConfiguredCell list"
  configured_header :: bool
  configured_footer :: bool

text \<open>Every copy of a cell is preceded by a checkpoint; \<open>q\<close> counts the queries made.\<close>

fun copy_cell :: "cancel_host \<Rightarrow> nat \<Rightarrow> nat \<Rightarrow> ConfiguredCell \<Rightarrow> (ConfiguredCell list \<times> nat) block_result" where
  "copy_cell host q 0 c = Inr ([], q)"
| "copy_cell host q (Suc n) c =
     (if host q then Inl (Err ParseCancelled)
      else and_then (copy_cell host (Suc q) n c) (\<lambda>(cs, q). Inr (c # cs, q)))"

fun copy_cells :: "cancel_host \<Rightarrow> nat \<Rightarrow> ScannedCell list \<Rightarrow> (ConfiguredCell list \<times> nat) block_result" where
  "copy_cells host q [] = Inr ([], q)"
| "copy_cells host q (c # cs) =
     and_then (copy_cell host q (duplication c) (ConfiguredCell.truncate c)) (\<lambda>(copies, q).
     and_then (copy_cells host q cs) (\<lambda>(rest, q). Inr (copies @ rest, q)))"

definition configure ::
    "cancel_host \<Rightarrow> nat \<Rightarrow> ResolvedTableConfiguration \<Rightarrow> ScannedTable
     \<Rightarrow> (ConfiguredTable \<times> nat) block_result" where
  "configure host q c t =
     and_then (copy_cells host q (scanned_cells t)) (\<lambda>(cells, q).
       Inr (\<lparr>configured_facts =
               \<lparr>table_format = scanned_format t, table_separator = scanned_separator t,
                table_content_range = scanned_content_range t,
                table_columns = (case config_columns c of
                    Some cs \<Rightarrow> cs | None \<Rightarrow> default_columns (inferred_columns t)),
                table_presentation = config_presentation c,
                table_problems = config_input_problems c @ scanned_problems t
                  @ config_presentation_problems c\<rparr>,
             configured_cells = cells,
             configured_header = (explicit_header c
               \<or> \<not> explicit_noheader c \<and> implicit_header_candidate t),
             configured_footer = config_footer c\<rparr>, q))"

section \<open>Layout\<close>

record LaidOutRow =
  laid_out_range :: TextRange
  laid_out_section :: TableSection
  laid_out_cells :: "LaidOutCell list"

definition apply_column_style :: "TableColumn \<Rightarrow> ConfiguredCell \<Rightarrow> ConfiguredCell" where
  "apply_column_style column c =
     (if style_is_explicit c then c else c\<lparr>cell_style := column_style column\<rparr>)"

text \<open>\<open>xs[i..i + n]\<close> with a function applied to each element.\<close>

definition update_span :: "(nat \<Rightarrow> nat) \<Rightarrow> nat \<Rightarrow> nat \<Rightarrow> nat list \<Rightarrow> nat list" where
  "update_span f i n xs = take i xs @ map f (take n (drop i xs)) @ drop (i + n) xs"

text \<open>
  The loop over the columns of a row. \<open>pending\<close> holds for each column how many rows a cell
  above still covers. It stops at the first cell that does not fit in what is left of the row.
\<close>

fun row_loop ::
    "TableColumn list \<Rightarrow> nat list \<Rightarrow> ConfiguredCell list \<Rightarrow> nat \<Rightarrow> LaidOutCell list
     \<Rightarrow> LaidOutCell list \<times> nat list \<times> ConfiguredCell list" where
  "row_loop columns pending [] column row = (row, pending, [])"
| "row_loop columns pending (next # rest) column row =
     (let column_count = length columns;
          column = column + length (takeWhile (\<lambda>n. 0 < n) (drop column pending));
          occupied = min (column_span next) column_count
      in if column_count \<le> column \<or> column_count < column + occupied
            \<or> list_ex (\<lambda>n. 0 < n) (take occupied (drop column pending))
         then (row, pending, next # rest)
         else
           row_loop columns
             (if 1 < row_span next then update_span (max (row_span next)) column occupied pending else pending)
             rest (column + occupied)
             (row @ [\<lparr>laid_out_cell = apply_column_style (columns ! column) next,
                      cell_column_index = column mod 2 ^ 32\<rparr>]))"

lemma row_loop_split:
  "row_loop columns pending cells column row = (row', pending', rest) \<Longrightarrow>
     length row' + length rest = length row + length cells \<and> length row \<le> length row'"
proof (induction columns pending cells column row rule: row_loop.induct)
  case (2 columns pending "next" rest' column row)
  then show ?case by (fastforce simp: Let_def split: if_splits)
qed simp

definition row_of :: "LaidOutCell list \<Rightarrow> LaidOutRow block_result" where
  "row_of row =
     and_then (expect (if row = [] then None else Some (hd row))) (\<lambda>first.
     and_then (expect_position (TextRange_new
         (range_start (cell_range (laid_out_cell first)))
         (range_end (cell_range (laid_out_cell (last row)))))) (\<lambda>r.
       Inr \<lparr>laid_out_range = r, laid_out_section = BodyRow, laid_out_cells = row\<rparr>))"

text \<open>
  A row without a cell takes one at the first column, however wide it is, so that every row
  consumes a cell.
\<close>

function layout_rows ::
    "TableColumn list \<Rightarrow> nat list \<Rightarrow> ConfiguredCell list \<Rightarrow> LaidOutRow list block_result" where
  "layout_rows columns pending cells =
     (case cells of [] \<Rightarrow> Inr [] | _ \<Rightarrow>
       (case row_loop columns (map (\<lambda>n. n - 1) pending) cells 0 [] of
          ([], _, []) \<Rightarrow> Inl Panic
        | ([], _, c # rest) \<Rightarrow>
            let occupied = min (column_span c) (length columns);
                cleared = replicate (length pending) 0;
                pending = (if 1 < row_span c then update_span (\<lambda>_. row_span c) 0 occupied cleared else cleared)
            in and_then (expect (if columns = [] then None else Some (hd columns))) (\<lambda>column.
               and_then (row_of [\<lparr>laid_out_cell = apply_column_style column c, cell_column_index = 0\<rparr>]) (\<lambda>row.
               and_then (layout_rows columns pending rest) (\<lambda>rows. Inr (row # rows))))
        | (x # xs, pending, rest) \<Rightarrow>
            and_then (row_of (x # xs)) (\<lambda>row.
            and_then (layout_rows columns pending rest) (\<lambda>rows. Inr (row # rows)))))"
  by pat_completeness auto
termination
  by (relation "measure (\<lambda>(columns, pending, cells). length cells)")
    (auto simp del: row_loop.simps dest!: row_loop_split [OF sym])

declare layout_rows.simps [simp del]

definition set_first :: "('a \<Rightarrow> 'a) \<Rightarrow> 'a list \<Rightarrow> 'a list" where
  "set_first f xs = (case xs of [] \<Rightarrow> [] | x # ys \<Rightarrow> f x # ys)"

definition table_layout :: "ConfiguredTable \<Rightarrow> LaidOutRow list block_result" where
  "table_layout t =
     (let columns = table_columns (configured_facts t) in
      and_then (if columns = [] then Inr []
                else layout_rows columns (replicate (length columns) 0) (configured_cells t)) (\<lambda>rows.
      let rows = (if configured_header t then set_first (\<lambda>r. r\<lparr>laid_out_section := HeaderRow\<rparr>) rows else rows);
          rows = (if configured_footer t
                  then rev (set_first (\<lambda>r. r\<lparr>laid_out_section := FooterRow\<rparr>) (rev rows)) else rows)
      in Inr rows))"

end
