(* ===== verification/Table_Scan.thy ===== *)
theory Table_Scan
  imports Table_Configuration
begin

text \<open>
  \<open>table/scan.rs\<close>: the cells of a table, found in the text between its delimiters. Separators
  are scalars. A slice that would split a scalar, and a range that does not fit, is
  \<open>Inl Panic\<close>.
\<close>

section \<open>Headers and comments\<close>

record ImplicitHeaderLayout =
  header_candidate :: bool
  first_record_start :: "nat option"
  ignored_comment_lines :: "nat list"

definition no_header :: ImplicitHeaderLayout where
  "no_header = \<lparr>header_candidate = False, first_record_start = None, ignored_comment_lines = []\<rparr>"

definition is_line_comment :: "str \<Rightarrow> bool" where
  "is_line_comment ln \<longleftrightarrow> starts_with (trim_start_matches space_or_tab ln) ''//''"

fun header_loop :: "str list \<Rightarrow> nat \<Rightarrow> ImplicitHeaderLayout \<Rightarrow> ImplicitHeaderLayout" where
  "header_loop [] offset h = no_header"
| "header_loop (l # ls) offset h =
     (let ln = trim_end_matches [carriage_return] (trim_end_matches [line_feed] l);
          next = offset + length l
      in if is_line_comment ln
         then header_loop ls next (h\<lparr>ignored_comment_lines := ignored_comment_lines h @ [offset]\<rparr>)
         else if first_record_start h = None then
           (if ln = [] then no_header else header_loop ls next (h\<lparr>first_record_start := Some offset\<rparr>))
         else if ln = [] then h\<lparr>header_candidate := True\<rparr> else no_header)"

definition implicit_header_layout :: "str \<Rightarrow> ImplicitHeaderLayout" where
  "implicit_header_layout v = header_loop (split_inclusive_lf v) 0 no_header"

section \<open>Cell specifiers\<close>

record CellSpec =
  spec_column_span :: nat
  spec_row_span :: nat
  spec_horizontal_alignment :: "HorizontalAlignment option"
  spec_vertical_alignment :: "VerticalAlignment option"
  spec_style :: TableCellStyle
  spec_style_is_explicit :: bool
  spec_duplication :: nat

definition u32_or_one :: "str \<Rightarrow> nat" where
  "u32_or_one v = (case parse_u32 v of Some n \<Rightarrow> n | None \<Rightarrow> 1)"

definition parse_cell_spec :: "str \<Rightarrow> CellSpec" where
  "parse_cell_spec v =
     (let explicit_style = last_style v;
          span = (case split_once_char (CHR ''+'') v of Some (span, _) \<Rightarrow> span | None \<Rightarrow> []);
          (columns, rows) = (case split_once_char (CHR ''.'') span of
              None \<Rightarrow> (u32_or_one span, 1)
            | Some (c, r) \<Rightarrow> (u32_or_one c, u32_or_one r))
      in \<lparr>spec_column_span = max columns 1, spec_row_span = max rows 1,
          spec_horizontal_alignment = find_map horizontal_of (chars v),
          spec_vertical_alignment = vertical_after_dot v,
          spec_style = (case explicit_style of Some s \<Rightarrow> s | None \<Rightarrow> DefaultStyle),
          spec_style_is_explicit = (explicit_style \<noteq> None),
          spec_duplication = max 1 (case split_once_char (CHR ''*'') v of
              Some (n, _) \<Rightarrow> u32_or_one n | None \<Rightarrow> 1)\<rparr>)"

definition cell_spec_character :: "str \<Rightarrow> bool" where
  "cell_spec_character ch \<longleftrightarrow>
     (case ch of [b] \<Rightarrow> is_ascii_digit b | _ \<Rightarrow> False)
     \<or> ch \<in> {''.'', ''+'', ''*'', ''<'', ''>'', ''^'', ''a'', ''d'', ''e'', ''h'', ''l'', ''m'', ''s'', ''v''}"

definition cell_spec_start :: "str \<Rightarrow> str \<Rightarrow> nat" where
  "cell_spec_start pre separator =
     length pre - length (concat (takeWhile (\<lambda>ch. ch \<noteq> separator \<and> cell_spec_character ch) (rev (chars pre))))"

definition ascii_whitespace :: "char \<Rightarrow> bool" where
  "ascii_whitespace b \<longleftrightarrow> byte_val b \<in> {9, 10, 12, 13, 32}"

text \<open>The start of the specifier and the offset of the separator, for every marker of a line.\<close>

definition marker_position :: "str \<Rightarrow> str \<Rightarrow> nat \<times> str \<Rightarrow> (nat \<times> nat) option" where
  "marker_position ln separator = (\<lambda>(pipe, ch).
     if ch \<noteq> separator then None
     else if odd (length (takeWhile (\<lambda>b. b = backslash) (rev (take pipe ln)))) then None
     else
       let prefix_start = cell_spec_start (take pipe ln) separator in
       if prefix_start = 0 \<or> ascii_whitespace (ln ! (prefix_start - 1))
       then Some (prefix_start, pipe) else None)"

definition marker_positions :: "str \<Rightarrow> str \<Rightarrow> (nat \<times> nat) list" where
  "marker_positions ln separator = List.map_filter (marker_position ln separator) (char_indices ln)"

section \<open>Cells marked by a separator\<close>

definition absolute_range :: "TextRange \<Rightarrow> nat \<Rightarrow> nat \<Rightarrow> TextRange block_result" where
  "absolute_range parent start stop =
     expect_position (text_range (range_start parent + start) (range_start parent + stop))"

definition saturating_usize_add :: "nat \<Rightarrow> nat \<Rightarrow> nat" where
  "saturating_usize_add a b = min usize_max (a + b)"

definition saturating_usize_mul :: "nat \<Rightarrow> nat \<Rightarrow> nat" where
  "saturating_usize_mul a b = min usize_max (a * b)"

definition cell_uses_asciidoc_style :: "ScannedCell \<Rightarrow> nat \<Rightarrow> TableCellStyle list \<Rightarrow> bool" where
  "cell_uses_asciidoc_style c start_column styles =
     (if style_is_explicit c then cell_style c = AsciiDocStyle
      else if styles = [] then False
      else list_ex (\<lambda>duplicate.
             styles ! (saturating_usize_add start_column (saturating_usize_mul duplicate (column_span c))
               mod length styles) = AsciiDocStyle)
           [0..<min (duplication c) (length styles)])"

record PsvScan =
  psv_cells :: "ScannedCell list"
  psv_offset :: nat
  psv_maximum_columns :: nat
  psv_first_record_columns :: nat
  last_cell_start_column :: nat
  next_cell_start_column :: nat
  psv_comments :: "nat list"

text \<open>A line without a marker continues the cell before it.\<close>

definition continue_cell ::
    "TextRange \<Rightarrow> str \<Rightarrow> nat \<Rightarrow> ScannedCell list \<Rightarrow> ScannedCell list block_result" where
  "continue_cell r ln offset cells =
     (if cells = [] then Inr []
      else
        let previous = last cells in
        and_then (absolute_range r (range_start (cell_content_range previous) - range_start r)
            (offset + length ln)) (\<lambda>content.
        and_then (expect_position (TextRange_new (range_start (cell_range previous)) (range_end content)))
          (\<lambda>whole.
          Inr (butlast cells @ [previous\<lparr>cell_raw := cell_raw previous @ [line_feed] @ ln,
                                          cell_content_range := content, cell_range := whole\<rparr>]))))"

text \<open>The cells of a line: \<open>stop\<close> is where the next marker begins, or the end of the line.\<close>

fun marker_cells ::
    "TextRange \<Rightarrow> str \<Rightarrow> TableCellStyle list \<Rightarrow> (nat \<times> nat) list \<Rightarrow> PsvScan \<Rightarrow> PsvScan block_result" where
  "marker_cells r ln styles [] st = Inr st"
| "marker_cells r ln styles ((spec_from, pipe) # rest) st =
     (let stop = (case rest of [] \<Rightarrow> length ln | (next_start, _) # _ \<Rightarrow> next_start);
          content_start = pipe + 1
      in and_then (sub_str ln 0 stop) (\<lambda>line_head.
         let raw_end = length (trim_end_matches space_or_tab line_head) in
         and_then (sub_str ln (min content_start raw_end) raw_end) (\<lambda>raw.
         and_then (sub_str ln spec_from pipe) (\<lambda>spec_text.
         let spec = parse_cell_spec spec_text;
             n = length styles;
             next_column = (if styles = [] then next_cell_start_column st
               else (next_cell_start_column st
                     + saturating_usize_mul (spec_column_span spec mod n) (spec_duplication spec mod n) mod n)
                    mod n)
         in and_then (absolute_range r (psv_offset st + spec_from) (psv_offset st + pipe + 1)) (\<lambda>marker_r.
            and_then (absolute_range r (psv_offset st + content_start) (psv_offset st + raw_end)) (\<lambda>content_r.
            and_then (expect_position (TextRange_new (range_start marker_r) (range_end content_r))) (\<lambda>whole.
              marker_cells r ln styles rest
                (st\<lparr>last_cell_start_column := next_cell_start_column st,
                    next_cell_start_column := next_column,
                    psv_cells := psv_cells st @
                      [\<lparr>cell_range = whole, cell_marker_range = marker_r, cell_content_range = content_r,
                        cell_raw = raw, column_span = spec_column_span spec, row_span = spec_row_span spec,
                        cell_horizontal_alignment = spec_horizontal_alignment spec,
                        cell_vertical_alignment = spec_vertical_alignment spec, cell_style = spec_style spec,
                        style_is_explicit = spec_style_is_explicit spec,
                        duplication = spec_duplication spec\<rparr>]\<rparr>))))))))"

fun line_column_count :: "str \<Rightarrow> (nat \<times> nat) list \<Rightarrow> nat block_result" where
  "line_column_count ln [] = Inr 0"
| "line_column_count ln ((start, stop) # rest) =
     and_then (sub_str ln start stop) (\<lambda>spec_text.
     and_then (line_column_count ln rest) (\<lambda>n.
       Inr (saturating_usize_add (spec_duplication (parse_cell_spec spec_text)) n)))"

definition psv_line ::
    "TextRange \<Rightarrow> str \<Rightarrow> ImplicitHeaderLayout \<Rightarrow> TableCellStyle list \<Rightarrow> str \<Rightarrow> PsvScan
     \<Rightarrow> PsvScan block_result" where
  "psv_line r separator header styles line_with_ending st =
     (let ln = (case strip_suffix line_with_ending [line_feed] of Some l \<Rightarrow> l | None \<Rightarrow> line_with_ending);
          ln = (case strip_suffix ln [carriage_return] of Some l \<Rightarrow> l | None \<Rightarrow> ln);
          next_offset = psv_offset st + length line_with_ending;
          is_comment = (case psv_comments st of [] \<Rightarrow> False | c # _ \<Rightarrow> c = psv_offset st);
          st = (if is_comment then st\<lparr>psv_comments := tl (psv_comments st)\<rparr> else st)
      in if is_comment \<and> \<not> (psv_cells st \<noteq> []
              \<and> cell_uses_asciidoc_style (last (psv_cells st)) (last_cell_start_column st) styles)
         then Inr (st\<lparr>psv_offset := next_offset\<rparr>)
         else
           let markers = marker_positions ln separator in
           and_then (line_column_count ln markers) (\<lambda>line_columns.
           let st = st\<lparr>psv_maximum_columns := max (psv_maximum_columns st) line_columns,
                       psv_first_record_columns :=
                         (if psv_offset st = (case first_record_start header of
                              Some s \<Rightarrow> s | None \<Rightarrow> usize_max)
                          then line_columns else psv_first_record_columns st)\<rparr>
           in if markers = [] then
                and_then (continue_cell r ln (psv_offset st) (psv_cells st)) (\<lambda>cells.
                  Inr (st\<lparr>psv_cells := cells, psv_offset := next_offset\<rparr>))
              else
                and_then (marker_cells r ln styles markers st) (\<lambda>st.
                  Inr (st\<lparr>psv_offset := next_offset\<rparr>))))"

fun psv_lines ::
    "TextRange \<Rightarrow> str \<Rightarrow> ImplicitHeaderLayout \<Rightarrow> TableCellStyle list \<Rightarrow> str list \<Rightarrow> PsvScan
     \<Rightarrow> PsvScan block_result" where
  "psv_lines r separator header styles [] st = Inr st"
| "psv_lines r separator header styles (l # ls) st =
     and_then (psv_line r separator header styles l st) (psv_lines r separator header styles ls)"

definition cell_space :: "char list" where
  "cell_space = [CHR '' '', tab, carriage_return, line_feed]"

definition trim_cell :: "ScannedCell \<Rightarrow> ScannedCell block_result" where
  "trim_cell c =
     (let raw = cell_raw c;
          leading = length raw - length (trim_start_matches cell_space raw);
          trailing = length raw - length (trim_end_matches cell_space raw);
          stop = range_end (cell_content_range c) - trailing;
          start = range_start (cell_content_range c) + leading
      in and_then (expect_position (text_range start (max stop start))) (\<lambda>content.
         and_then (expect_position (TextRange_new (range_start (cell_marker_range c)) (range_end content)))
           (\<lambda>whole.
           Inr (c\<lparr>cell_content_range := content, cell_range := whole,
                  cell_raw := trim_matches cell_space raw\<rparr>))))"

fun trim_cells :: "ScannedCell list \<Rightarrow> ScannedCell list block_result" where
  "trim_cells [] = Inr []"
| "trim_cells (c # cs) = and_then (trim_cell c) (\<lambda>c. and_then (trim_cells cs) (\<lambda>cs. Inr (c # cs)))"

definition scan_psv ::
    "str \<Rightarrow> TextRange \<Rightarrow> str \<Rightarrow> ImplicitHeaderLayout \<Rightarrow> TableCellStyle list \<Rightarrow> ScannedTable block_result" where
  "scan_psv v r separator header styles =
     and_then (psv_lines r separator header styles (split_inclusive_lf v)
         \<lparr>psv_cells = [], psv_offset = 0, psv_maximum_columns = 0, psv_first_record_columns = 0,
          last_cell_start_column = 0, next_cell_start_column = 0,
          psv_comments = ignored_comment_lines header\<rparr>) (\<lambda>st.
     and_then (trim_cells (psv_cells st)) (\<lambda>cells.
     let from_header = (header_candidate header \<and> psv_first_record_columns st \<noteq> 0) in
       Inr \<lparr>scanned_format = Psv, scanned_separator = separator, scanned_content_range = r,
            inferred_columns = max 1 (if from_header then psv_first_record_columns st
                                      else psv_maximum_columns st),
            implicit_header_candidate = from_header, scanned_cells = cells, scanned_problems = []\<rparr>))"

fun single_line_row :: "nat \<Rightarrow> ScannedCell list \<Rightarrow> nat \<Rightarrow> bool" where
  "single_line_row wanted [] columns = False"
| "single_line_row wanted (c # cs) columns =
     (if line_feed \<in> set (cell_raw c) then False
      else
        let columns = saturating_usize_add columns (saturating_usize_mul (column_span c) (duplication c)) in
        if wanted \<le> columns then True else single_line_row wanted cs columns)"

definition first_psv_row_is_single_line :: "ScannedTable \<Rightarrow> bool" where
  "first_psv_row_is_single_line t = single_line_row (inferred_columns t) (scanned_cells t) 0"

section \<open>Cells between separators\<close>

record DelimitedScan =
  ds_cells :: "ScannedCell list"
  field_start :: nat
  field_content_start :: nat
  field_raw :: str
  ds_quoted :: bool
  quote_closed :: bool
  ds_maximum_columns :: nat
  ds_first_record_columns :: nat
  row_columns :: nat
  completed_rows :: nat
  ds_comments :: "nat list"
  ds_candidate :: bool

definition push_delimited_cell ::
    "TextRange \<Rightarrow> nat \<Rightarrow> DelimitedScan \<Rightarrow> DelimitedScan block_result" where
  "push_delimited_cell parent field_end st =
     and_then (absolute_range parent (field_start st) field_end) (\<lambda>whole.
     and_then (absolute_range parent (field_start st) (field_content_start st)) (\<lambda>marker_r.
     and_then (absolute_range parent (field_content_start st) field_end) (\<lambda>content_r.
       Inr (st\<lparr>ds_cells := ds_cells st @
           [\<lparr>cell_range = whole, cell_marker_range = marker_r, cell_content_range = content_r,
             cell_raw = trim_end_matches [carriage_return] (field_raw st), column_span = 1, row_span = 1,
             cell_horizontal_alignment = None, cell_vertical_alignment = None, cell_style = DefaultStyle,
             style_is_explicit = False, duplication = 1\<rparr>],
         field_raw := []\<rparr>))))"

definition start_field :: "nat \<Rightarrow> DelimitedScan \<Rightarrow> DelimitedScan" where
  "start_field offset st = st\<lparr>field_start := offset, field_content_start := offset, quote_closed := False\<rparr>"

text \<open>A scalar outside quotes that is not the start of a comment.\<close>

definition unquoted_step ::
    "TextRange \<Rightarrow> str \<Rightarrow> nat \<Rightarrow> str \<Rightarrow> DelimitedScan \<Rightarrow> DelimitedScan block_result" where
  "unquoted_step r separator offset ch st =
     (let row_end = (ch = [line_feed]); next = offset + length ch in
      if ch = [double_quote] \<and> field_raw st = [] \<and> \<not> quote_closed st
      then Inr (st\<lparr>ds_quoted := True, field_content_start := next\<rparr>)
      else if ch = separator \<or> row_end then
        (if row_end \<and> row_columns st = 0 \<and> trim_end_matches [carriage_return] (field_raw st) = []
            \<and> field_start st = field_content_start st
         then Inr (start_field next (st\<lparr>field_raw := []\<rparr>))
         else
           and_then (push_delimited_cell r offset st) (\<lambda>st.
           let columns = row_columns st + 1;
               st = (if row_end
                 then st\<lparr>ds_first_record_columns :=
                           (if completed_rows st = 0 then columns else ds_first_record_columns st),
                         ds_maximum_columns := max (ds_maximum_columns st) columns,
                         row_columns := 0, completed_rows := completed_rows st + 1\<rparr>
                 else st\<lparr>row_columns := columns\<rparr>)
           in Inr (start_field next st)))
      else if \<not> quote_closed st \<or> \<not> (case ch of [b] \<Rightarrow> ascii_whitespace b | _ \<Rightarrow> False)
      then Inr (st\<lparr>field_raw := field_raw st @ ch\<rparr>)
      else Inr st)"

text \<open>A scalar inside quotes; it returns whether the next scalar was taken with it.\<close>

definition quoted_step :: "str \<Rightarrow> (nat \<times> str) list \<Rightarrow> DelimitedScan \<Rightarrow> DelimitedScan \<times> bool" where
  "quoted_step ch rest st =
     (if ch = [double_quote] then
        (case rest of
           (_, next) # _ \<Rightarrow>
             if next = [double_quote] then (st\<lparr>field_raw := field_raw st @ [double_quote]\<rparr>, True)
             else (st\<lparr>ds_quoted := False, quote_closed := True\<rparr>, False)
         | [] \<Rightarrow> (st\<lparr>ds_quoted := False, quote_closed := True\<rparr>, False))
      else
        (st\<lparr>field_raw := field_raw st @ ch,
            ds_candidate := ds_candidate st \<and> \<not> (ch = [line_feed] \<and> completed_rows st = 0)\<rparr>, False))"

function (sequential) delimited_loop ::
    "TextRange \<Rightarrow> str \<Rightarrow> nat \<Rightarrow> (nat \<times> str) list \<Rightarrow> DelimitedScan \<Rightarrow> DelimitedScan block_result" where
  "delimited_loop r separator len [] st = Inr st"
| "delimited_loop r separator len ((offset, ch) # rest) st =
     (if \<not> ds_quoted st \<and> (case ds_comments st of [] \<Rightarrow> False | c # _ \<Rightarrow> c = offset) then
        let after = dropWhile (\<lambda>(_, c). c \<noteq> [line_feed]) rest;
            next_line = (case after of [] \<Rightarrow> len | (o', c) # _ \<Rightarrow> o' + length c)
        in delimited_loop r separator len (tl after)
             (start_field next_line (st\<lparr>ds_comments := tl (ds_comments st), field_raw := []\<rparr>))
      else if ds_quoted st then
        let (st, taken) = quoted_step ch rest st in
        delimited_loop r separator len (if taken then tl rest else rest) st
      else
        and_then (unquoted_step r separator offset ch st) (delimited_loop r separator len rest))"
  by pat_completeness auto
termination
proof (relation "measure (\<lambda>(r, separator, len, cs, st). length cs)", goal_cases)
  case (2 r separator len offset ch rest st after next_line)
  then show ?case using length_dropWhile_le [of "\<lambda>(_, c). c \<noteq> [line_feed]" rest] by simp
qed auto

definition scan_delimited ::
    "str \<Rightarrow> TextRange \<Rightarrow> TableInputSpec \<Rightarrow> ImplicitHeaderLayout \<Rightarrow> ScannedTable block_result" where
  "scan_delimited v r input header =
     and_then (delimited_loop r (input_separator input) (length v) (char_indices v)
         \<lparr>ds_cells = [], field_start = 0, field_content_start = 0, field_raw = [], ds_quoted = False,
          quote_closed = False, ds_maximum_columns = 0, ds_first_record_columns = 0, row_columns = 0,
          completed_rows = 0, ds_comments = ignored_comment_lines header,
          ds_candidate = header_candidate header\<rparr>) (\<lambda>st.
     and_then (if field_start st < length v \<or> v \<noteq> [] \<and> ends_with v (input_separator input)
               then and_then (push_delimited_cell r (length v) st) (\<lambda>st.
                      Inr (st\<lparr>row_columns := row_columns st + 1\<rparr>))
               else Inr st) (\<lambda>st.
     and_then (if ds_quoted st
               then and_then (absolute_range r (field_start st) (field_start st)) (\<lambda>a.
                    and_then (absolute_range r (length v) (length v)) (\<lambda>b.
                    and_then (expect_position (TextRange_new (range_start a) (range_end b))) (\<lambda>q.
                      Inr [table_problem UnclosedQuotedCell q])))
               else Inr []) (\<lambda>problems.
       Inr \<lparr>scanned_format = input_format input, scanned_separator = input_separator input,
            scanned_content_range = r,
            inferred_columns = max 1 (if ds_candidate st \<and> ds_first_record_columns st \<noteq> 0
              then ds_first_record_columns st else max (ds_maximum_columns st) (row_columns st)),
            implicit_header_candidate = ds_candidate st, scanned_cells = ds_cells st,
            scanned_problems = problems\<rparr>)))"

definition scan_with_configuration ::
    "str \<Rightarrow> TextRange \<Rightarrow> TableInputSpec \<Rightarrow> TableCellStyle list \<Rightarrow> ScannedTable block_result" where
  "scan_with_configuration v r input styles =
     (let header = implicit_header_layout v in
      if input_format input = Psv then
        and_then (scan_psv v r (input_separator input) header styles) (\<lambda>t.
          Inr (t\<lparr>implicit_header_candidate :=
                  implicit_header_candidate t \<and> first_psv_row_is_single_line t\<rparr>))
      else scan_delimited v r input header)"

end
