(* ===== verification/Block_Parser.thy ===== *)
theory Block_Parser
  imports List_Parser Table_Scan
begin

text \<open>
  \<open>parser.rs\<close>: delimited blocks, tables, mathematics and the loop over the lines of a block
  sequence. A body is parsed by the sequence parser one level deeper, which is an argument
  here; \<open>blocks_fuel\<close> ties the knot by the depth that the configuration allows.
\<close>

section \<open>Nested blocks\<close>

record NestedBlocks =
  nested_blocks :: "AstBlock list"
  nested_syntax :: "SyntaxNode list"

type_synonym nested_parser =
  "SourceDocument \<Rightarrow> nat \<Rightarrow> nat \<Rightarrow> ParseState \<Rightarrow> ParseDepth \<Rightarrow> BlockLocation
   \<Rightarrow> (NestedBlocks \<times> ParseState) block_result"

section \<open>Tables\<close>

definition rejected :: "str \<Rightarrow> u32 \<Rightarrow> nat \<Rightarrow> 'a block_result" where
  "rejected name limit amount =
     Inl (Err (ParseBudgetExceeded
       \<lparr>resource = name, exceeded_limit = limit, actual = word_of_nat amount\<rparr>))"

definition build_failure :: "SourceDocumentBuildError \<Rightarrow> ParseFailure" where
  "build_failure e = (case e of
      PositionFailure p \<Rightarrow> ParsePosition p
    | LineLimitExceeded limit amount \<Rightarrow>
        ParseBudgetExceeded \<lparr>resource = ''line bytes'', exceeded_limit = word_of_nat limit,
                             actual = word_of_nat amount\<rparr>
    | BuildCancelled \<Rightarrow> ParseCancelled)"

text \<open>The queries that indexing a text makes.\<close>

definition indexing_queries :: "cancel_host \<Rightarrow> nat \<Rightarrow> str \<Rightarrow> nat \<Rightarrow> nat \<Rightarrow> nat" where
  "indexing_queries host q v line_limit base =
     (case scan_lines host q v line_limit base 0 0 [] [] of
        Inr (_, _, _, q) \<Rightarrow> Suc q | Inl _ \<Rightarrow> q)"

text \<open>
  The document of an AsciiDoc cell: a view of the whole when the cell's text is what the source
  holds at its range, and a fragment of its own otherwise.
\<close>

definition cell_document ::
    "ParseContext \<Rightarrow> ConfiguredCell \<Rightarrow> ParseState \<Rightarrow> (SourceDocument \<times> ParseState) block_result" where
  "cell_document ctx cell st =
     (if sd_text (ctx_document ctx) (cell_content_range cell) = Some (cell_raw cell) then
        and_then (position (indexed_view (ctx_document ctx) (cell_content_range cell))) (\<lambda>d. Inr (d, st))
      else
        let base = range_start (cell_content_range cell);
            limit = unat (max_line_bytes (config_limits (ctx_config ctx)))
        in and_then (map_err (\<lambda>e. Err (build_failure e))
               (from_fragment_bounded (ctx_host ctx) (ps_queries st) (cell_raw cell) base limit)) (\<lambda>d.
             Inr (d, st\<lparr>ps_queries := indexing_queries (ctx_host ctx) (ps_queries st) (cell_raw cell) limit base\<rparr>)))"

definition lower_cell ::
    "nested_parser \<Rightarrow> ParseContext \<Rightarrow> ParseDepth \<Rightarrow> ConfiguredCell \<Rightarrow> SyntaxNode list \<Rightarrow> ParseState
     \<Rightarrow> (AstBlock TableCellContent \<times> SyntaxNode list \<times> ParseState) block_result" where
  "lower_cell parse ctx depth cell syntax st =
     (if cell_style cell = LiteralStyle \<or> cell_style cell = VerseStyle
      then Inr (VerbatimCell (cell_raw cell), syntax, st)
      else if cell_style cell = AsciiDocStyle then
        and_then (cell_document ctx cell st) (\<lambda>(d, st).
        and_then (parse d 0 (length (sd_lines d)) st
            \<lparr>depth_block = depth_block depth + 1, depth_table = depth_table depth + 1\<rparr> AsciiDocCellBody)
          (\<lambda>(inner, st).
          Inr (AsciiDocCell (nested_blocks inner), syntax @ nested_syntax inner, st)))
      else
        and_then (parse_text ctx (cell_raw cell) (cell_content_range cell) st) (\<lambda>(out, st).
          Inr (InlineCell (output_inlines out), syntax, st)))"

fun lower_cells ::
    "nested_parser \<Rightarrow> ParseContext \<Rightarrow> ParseDepth \<Rightarrow> LaidOutCell list \<Rightarrow> SyntaxNode list \<Rightarrow> ParseState
     \<Rightarrow> (AstBlock TableCell list \<times> SyntaxNode list \<times> ParseState) block_result" where
  "lower_cells parse ctx depth [] syntax st = Inr ([], syntax, st)"
| "lower_cells parse ctx depth (c # cs) syntax st =
     and_then (lower_cell parse ctx depth (laid_out_cell c) syntax st) (\<lambda>(content, syntax, st).
     and_then (lower_cells parse ctx depth cs syntax st) (\<lambda>(cells, syntax, st).
       Inr (MkTableCell c content # cells, syntax, st)))"

fun lower_rows ::
    "nested_parser \<Rightarrow> ParseContext \<Rightarrow> ParseDepth \<Rightarrow> LaidOutRow list \<Rightarrow> SyntaxNode list \<Rightarrow> ParseState
     \<Rightarrow> (AstBlock TableRow list \<times> SyntaxNode list \<times> ParseState) block_result" where
  "lower_rows parse ctx depth [] syntax st = Inr ([], syntax, st)"
| "lower_rows parse ctx depth (r # rs) syntax st =
     and_then (lower_cells parse ctx depth (laid_out_cells r) syntax st) (\<lambda>(cells, syntax, st).
     and_then (lower_rows parse ctx depth rs syntax st) (\<lambda>(rows, syntax, st).
       Inr (MkTableRow (laid_out_range r) (laid_out_section r) cells # rows, syntax, st)))"

text \<open>\<open>TableSyntaxInput\<close>.\<close>

record TableSyntaxInput =
  table_value :: str
  table_input_range :: TextRange
  table_delimiter :: str
  table_delimiter_range :: TextRange
  table_metadata :: TitledMetadata

definition parse_table ::
    "nested_parser \<Rightarrow> ParseContext \<Rightarrow> TableSyntaxInput \<Rightarrow> ParseState \<Rightarrow> ParseDepth
     \<Rightarrow> (AstBlock ParsedTable \<times> SyntaxNode list \<times> ParseState) block_result" where
  "parse_table parse ctx input st depth =
     (let limits = config_limits (ctx_config ctx); v = table_value input in
      if unat (max_table_bytes limits) < length v
      then rejected ''table bytes'' (max_table_bytes limits) (length v)
      else if unat (max_table_depth limits) < depth_table depth
      then rejected ''table nesting depth'' (max_table_depth limits) (depth_table depth)
      else
        and_then (map_err (\<lambda>e. Err (ParseBudgetExceeded (case e of
              ColumnCount n \<Rightarrow> \<lparr>resource = ''table columns'', exceeded_limit = max_table_columns limits,
                               actual = word_of_nat n\<rparr>
            | ColumnWidth n \<Rightarrow> \<lparr>resource = ''table column width'', exceeded_limit = - 1,
                               actual = word_of_nat n\<rparr>)))
          (resolve_configuration (table_delimiter input) (table_delimiter_range input) (table_metadata input)
            (unat (max_table_columns limits)))) (\<lambda>configuration.
        and_then (scan_with_configuration v (table_input_range input) (config_input configuration)
            (column_styles configuration)) (\<lambda>scanned.
        let cells = materialized_cell_count scanned in
        if unat (max_table_cells limits) < cells
        then rejected ''table cells'' (max_table_cells limits) cells
        else if unat (max_table_columns limits) < inferred_columns scanned
        then rejected ''table columns'' (max_table_columns limits) (inferred_columns scanned)
        else
          and_then (poll ctx st) (\<lambda>st.
          and_then (spend (consume_nodes (word_of_nat cells)) st) (\<lambda>st.
          and_then (configure (ctx_host ctx) (ps_queries st) configuration scanned) (\<lambda>(configured, q).
          let st = st\<lparr>ps_queries := q\<rparr> in
          and_then (table_layout configured) (\<lambda>rows.
          and_then (lower_rows parse ctx depth rows [] st) (\<lambda>(rows, syntax, st).
            Inr (MkTable (configured_facts configured) rows, syntax, st))))))))) "

section \<open>Delimited blocks and mathematics\<close>

definition parse_delimited_block ::
    "nested_parser \<Rightarrow> ParseContext \<Rightarrow> delimited_parser" where
  "parse_delimited_block parse ctx opener_index end_line spec st depth m =
     (let d = ctx_document ctx in
      and_then (read_line d opener_index) (\<lambda>(opener, delimiter).
      and_then (map_err (\<lambda>e. case e of Panic \<Rightarrow> Panic | Err p \<Rightarrow> Err (ParsePosition p))
          (delimited_body d opener_index delimiter (ctx_source ctx) end_line)) (\<lambda>body.
      and_then (sub_str (ctx_source ctx) (range_start (body_content_range body)) (range_end (body_content_range body)))
        (\<lambda>v.
      and_then
        (case spec_model spec of
           Compound \<Rightarrow>
             and_then (parse d (opener_index + 1) (content_end_line body) st
                 (depth\<lparr>depth_block := depth_block depth + 1\<rparr>) CompoundBody) (\<lambda>(inner, st).
               Inr (CompoundBlocks (nested_blocks inner), nested_syntax inner, st))
         | VerbatimContent \<Rightarrow> Inr (VerbatimBody v, [], st)
         | Raw \<Rightarrow> Inr (PassthroughBody v, [], st)
         | TableContent \<Rightarrow>
             and_then (parse_table parse ctx
                 \<lparr>table_value = v, table_input_range = body_content_range body, table_delimiter = delimiter,
                  table_delimiter_range = content_range opener,
                  table_metadata = (case m of None \<Rightarrow> TitledMetadata_default | Some m \<Rightarrow> m)\<rparr> st depth)
               (\<lambda>(table, syntax, st). Inr (TableBody table, syntax, st))) (\<lambda>(content, syntax, st).
      and_then (block_range_new (range_start (full_range opener)) (body_end body)) (\<lambda>r.
        Inr (MkDelimited
          \<lparr>delimited_metadata = TitledMetadata_default, delimited_kind = spec_kind spec, delimited_range = r,
           opening_delimiter_range = content_range opener,
           delimited_closing_range = closing_delimiter_range body,
           delimited_content_range = body_content_range body, delimiter_text = delimiter,
           delimited_presentation = None, delimited_problems = problems body\<rparr> content,
          syntax, next_line body, st)))))))"

definition parse_math_block ::
    "ParseContext \<Rightarrow> nat \<Rightarrow> nat \<Rightarrow> (MathBlock \<times> nat) block_result" where
  "parse_math_block ctx attribute_index end_line =
     (let d = ctx_document ctx in
      and_then (read_line d attribute_index) (\<lambda>(attribute, attribute_text).
      and_then (unfailing (parse_math_attribute attribute_text)) (\<lambda>language.
      and_then (expect language) (\<lambda>language.
      and_then (expect (get_line d (attribute_index + 1))) (\<lambda>delimiter.
      and_then (map_err (\<lambda>e. case e of Panic \<Rightarrow> Panic | Err p \<Rightarrow> Err (ParsePosition p))
          (delimited_body d (attribute_index + 1) ''++++'' (ctx_source ctx) end_line)) (\<lambda>body.
      and_then (sub_str (ctx_source ctx) (range_start (body_content_range body)) (range_end (body_content_range body)))
        (\<lambda>v.
      let p = (\<lambda>k r. \<lparr>math_problem_kind = k, math_problem_range = r\<rparr>) in
      and_then (block_range_new (range_start (full_range attribute)) (body_end body)) (\<lambda>r.
        Inr (\<lparr>math_metadata = TitledMetadata_default, math_range = r,
              math_attribute_range = content_range attribute, math_delimiter_range = content_range delimiter,
              math_content_range = body_content_range body, math_language = language, math_value = v,
              math_problems =
                (if list_ex (\<lambda>p. block_problem_kind p = BlockProblemKind.UnclosedBlock) (problems body)
                 then [p UnclosedMath (content_range delimiter)] else [])
                @ (if v = [] then [p EmptyMath (body_content_range body)] else [])
                @ (if config_max_formula_bytes (ctx_config ctx) < length v
                   then [p MathSizeLimitExceeded (body_content_range body)] else [])\<rparr>,
             next_line body)))))))))"

section \<open>Blocks of the simple kinds\<close>

record BlockCommit =
  commit_syntax :: SyntaxNode
  commit_block :: AstBlock
  commit_charge :: ParseBudgetCharge

definition single_commit :: "SyntaxNode \<Rightarrow> AstBlock \<Rightarrow> nat \<Rightarrow> BlockCommit" where
  "single_commit node block attribute_count =
     \<lparr>commit_syntax = node, commit_block = block,
      commit_charge = \<lparr>charge_blocks = 1, charge_nodes = 1, charge_attributes = attribute_count\<rparr>\<rparr>"

definition already_charged :: "SyntaxNode \<Rightarrow> AstBlock \<Rightarrow> BlockCommit" where
  "already_charged node block =
     \<lparr>commit_syntax = node, commit_block = block,
      commit_charge = \<lparr>charge_blocks = 0, charge_nodes = 0, charge_attributes = 0\<rparr>\<rparr>"

definition recognize_source_or_math ::
    "LineRecognition \<Rightarrow> ParseContext \<Rightarrow> nat \<Rightarrow> nat \<Rightarrow> str \<Rightarrow> SourceLine
     \<Rightarrow> BlockCommit BlockRecognition block_result" where
  "recognize_source_or_math recognition ctx line_index end_line content l =
     (if recognition = Math_line then
        and_then (parse_math_block ctx line_index end_line) (\<lambda>(math, following).
        and_then (unfailing (parse_block_attributes content (range_start (content_range l)))) (\<lambda>parsed.
        let m = untitled (case parsed of Some m \<Rightarrow> m | None \<Rightarrow> BlockMetadata_default);
            amount = metadata_attribute_count m;
            math = math\<lparr>math_metadata := m\<lparr>metadata_range := Some (full_range l)\<rparr>\<rparr>;
            commit = single_commit (math_node math) (MathAst math) amount
        in Inr (if math_problems math \<noteq> [] then RecoveredBlock (Through following) commit
                else MatchedBlock (Through following) commit)))
      else invariant_broken)"

definition unsupported_commit :: "SourceLine \<Rightarrow> str \<Rightarrow> str \<Rightarrow> UnsupportedKind \<Rightarrow> BlockCommit" where
  "unsupported_commit l content why kind =
     single_commit
       (SyntaxNode UnsupportedNode (full_range l) [leaf UnknownNode (full_range l)])
       (UnsupportedAst
         \<lparr>unsupported_metadata = TitledMetadata_default, unsupported_range = full_range l,
          unsupported_raw = content, reason = why, unsupported_kind = kind\<rparr>) 0"

definition recognize_simple_block ::
    "LineRecognition \<Rightarrow> SourceDocument \<Rightarrow> nat \<Rightarrow> str \<Rightarrow> SourceLine
     \<Rightarrow> BlockCommit BlockRecognition block_result" where
  "recognize_simple_block recognition d line_index content l =
     (case recognition of
        Break_line \<Rightarrow>
          let kind = (if content = [quote_char, quote_char, quote_char] then Thematic else Page)
          in Inr (MatchedBlock OneLine (single_commit
               (leaf (if kind = Thematic then ThematicBreak else PageBreak) (full_range l))
               (BreakAst \<lparr>break_metadata = TitledMetadata_default, break_range = full_range l, break_kind = kind\<rparr>) 0))
      | Literal_paragraph_line \<Rightarrow>
          and_then (parse_literal_paragraph d line_index) (\<lambda>(literal, following).
            Inr (MatchedBlock (Through following) (single_commit
              (leaf SyntaxKind.LiteralBlock (literal_range literal)) (LiteralParagraphBlock literal) 0)))
      | Preprocessor_directive_line \<Rightarrow>
          (case classify_directive_line content of
             None \<Rightarrow> invariant_broken
           | Some directive \<Rightarrow>
               Inr (MatchedBlock OneLine (unsupported_commit l content (directive_reason directive)
                 UnprocessedDirectiveLine)))
      | Unsupported_line \<Rightarrow>
          (case unsupported_reason content of
             None \<Rightarrow> invariant_broken
           | Some why \<Rightarrow> Inr (MatchedBlock OneLine (unsupported_commit l content why UnsupportedSyntax)))
      | _ \<Rightarrow> Inr NoMatch)"

section \<open>The state of a sequence\<close>

text \<open>\<open>BlockParserState\<close> with the vectors of \<open>parse_block_sequence\<close>.\<close>

record BlockParserState =
  bp_cursor :: BlockCursor
  document_header_phase :: "DocumentHeaderState option"
  pending_metadata :: PendingBlockMetadata
  paragraph_lines :: "(SourceLine \<times> str) list"
  saw_content :: bool
  bp_context :: BlockContext
  bp_out :: Recognized
  bp_state :: ParseState

definition BlockParserState_new :: "BlockInput \<Rightarrow> BlockContext \<Rightarrow> ParseState \<Rightarrow> BlockParserState" where
  "BlockParserState_new i c st =
     \<lparr>bp_cursor = cursor_for_range i,
      document_header_phase = (if allows_document_header c then Some DocumentHeaderState_default else None),
      pending_metadata = no_pending, paragraph_lines = [], saw_content = False, bp_context = c,
      bp_out = \<lparr>recognized_syntax = [], recognized_blocks = []\<rparr>,
      bp_state = st\<lparr>ps_anchors := []\<rparr>\<rparr>"

definition push_syntax :: "SyntaxNode \<Rightarrow> BlockParserState \<Rightarrow> BlockParserState" where
  "push_syntax n p = p\<lparr>bp_out := (bp_out p)\<lparr>recognized_syntax := recognized_syntax (bp_out p) @ [n]\<rparr>\<rparr>"

definition with_state :: "(ParseState \<Rightarrow> ParseState block_result) \<Rightarrow> BlockParserState \<Rightarrow> BlockParserState block_result" where
  "with_state f p = and_then (f (bp_state p)) (\<lambda>st. Inr (p\<lparr>bp_state := st\<rparr>))"

definition commit_lines :: "BlockConsumption \<Rightarrow> BlockParserState \<Rightarrow> BlockParserState block_result" where
  "commit_lines consumption p =
     and_then (cursor_commit consumption (bp_cursor p)) (\<lambda>c. Inr (p\<lparr>bp_cursor := c\<rparr>))"

definition flush_paragraph_state :: "ParseContext \<Rightarrow> BlockParserState \<Rightarrow> BlockParserState block_result" where
  "flush_paragraph_state ctx p =
     and_then (flush_paragraph ctx (bp_out p) (paragraph_lines p) (pending_metadata p) (bp_state p))
       (\<lambda>(out, pending, st).
       Inr (p\<lparr>bp_out := out, pending_metadata := pending, bp_state := st, paragraph_lines := []\<rparr>))"

definition flush_orphan_state :: "ParseContext \<Rightarrow> BlockParserState \<Rightarrow> BlockParserState block_result" where
  "flush_orphan_state ctx p =
     and_then (flush_orphan_metadata ctx (bp_out p) (pending_metadata p) (bp_state p)) (\<lambda>(out, pending, st).
       Inr (p\<lparr>bp_out := out, pending_metadata := pending, bp_state := st\<rparr>))"

definition attach_state :: "BlockParserState \<Rightarrow> BlockParserState block_result" where
  "attach_state p =
     and_then (attach_pending_metadata (bp_out p) (pending_metadata p)) (\<lambda>(out, pending).
       Inr (p\<lparr>bp_out := out, pending_metadata := pending\<rparr>))"

definition push_block :: "SyntaxNode \<Rightarrow> AstBlock \<Rightarrow> BlockParserState \<Rightarrow> BlockParserState" where
  "push_block n b p =
     p\<lparr>bp_out := \<lparr>recognized_syntax = recognized_syntax (bp_out p) @ [n],
                  recognized_blocks = recognized_blocks (bp_out p) @ [b]\<rparr>\<rparr>"

definition update_header :: "(DocumentHeaderState \<Rightarrow> DocumentHeaderState) \<Rightarrow> BlockParserState \<Rightarrow> BlockParserState" where
  "update_header f p = p\<lparr>document_header_phase := map_option f (document_header_phase p)\<rparr>"

definition close_header_attributes :: "BlockParserState \<Rightarrow> BlockParserState" where
  "close_header_attributes = update_header (\<lambda>h. h\<lparr>attributes_open := False\<rparr>)"

definition stop_header_author_revision :: "BlockParserState \<Rightarrow> BlockParserState" where
  "stop_header_author_revision = update_header (\<lambda>h. h\<lparr>expect_author := False, expect_revision := False\<rparr>)"

definition close_header_at_blank :: "TextRange \<Rightarrow> BlockParserState \<Rightarrow> BlockParserState" where
  "close_header_at_blank r =
     update_header (\<lambda>h. if attributes_open h \<and> header_range (header_facts h) \<noteq> None
       then h\<lparr>attributes_open := False, header_facts := (header_facts h)\<lparr>header_end := range_start r\<rparr>\<rparr>
       else h)"

definition mark_content_seen :: "BlockParserState \<Rightarrow> BlockParserState" where
  "mark_content_seen p = p\<lparr>saw_content := True\<rparr>"

definition mark_body_content :: "BlockParserState \<Rightarrow> BlockParserState" where
  "mark_body_content p = close_header_attributes (mark_content_seen p)"

text \<open>A change of the header that the root state must have.\<close>

definition in_header ::
    "(DocumentHeaderState \<Rightarrow> DocumentHeaderState block_result) \<Rightarrow> BlockParserState
     \<Rightarrow> BlockParserState block_result" where
  "in_header f p =
     and_then (expect (document_header_phase p)) (\<lambda>h.
     and_then (f h) (\<lambda>h. Inr (p\<lparr>document_header_phase := Some h\<rparr>)))"

definition record_author :: "Author \<Rightarrow> TextRange \<Rightarrow> BlockParserState \<Rightarrow> BlockParserState block_result" where
  "record_author a r =
     in_header (\<lambda>h. and_then (extend_header_range r h) (\<lambda>h.
       Inr (h\<lparr>header_facts := (header_facts h)\<lparr>header_authors := header_authors (header_facts h) @ [a]\<rparr>,
              expect_revision := True\<rparr>)))"

definition record_revision :: "Revision \<Rightarrow> TextRange \<Rightarrow> BlockParserState \<Rightarrow> BlockParserState block_result" where
  "record_revision v r =
     in_header (\<lambda>h. and_then (extend_header_range r h) (\<lambda>h.
       Inr (h\<lparr>header_facts := (header_facts h)\<lparr>header_revision := Some v\<rparr>\<rparr>)))"

definition open_header_after_title :: "TextRange \<Rightarrow> BlockParserState \<Rightarrow> BlockParserState block_result" where
  "open_header_after_title r =
     in_header (\<lambda>h. and_then (extend_header_range r (h\<lparr>attributes_open := True\<rparr>)) (\<lambda>h.
       Inr (h\<lparr>expect_author := True\<rparr>)))"

definition take_author_expectation :: "BlockParserState \<Rightarrow> bool \<times> BlockParserState" where
  "take_author_expectation p =
     ((case document_header_phase p of None \<Rightarrow> False | Some h \<Rightarrow> expect_author h),
      update_header (\<lambda>h. h\<lparr>expect_author := False\<rparr>) p)"

definition take_revision_expectation :: "BlockParserState \<Rightarrow> bool \<times> BlockParserState" where
  "take_revision_expectation p =
     ((case document_header_phase p of None \<Rightarrow> False | Some h \<Rightarrow> expect_revision h),
      update_header (\<lambda>h. h\<lparr>expect_revision := False\<rparr>) p)"

definition document_attribute_allowed :: "SourceDocument \<Rightarrow> nat \<Rightarrow> BlockParserState \<Rightarrow> bool block_result" where
  "document_attribute_allowed d line_index p =
     (case document_header_phase p of
        None \<Rightarrow> Inr False
      | Some h \<Rightarrow>
          if attributes_open h then Inr True
          else body_attribute_has_blank_offset d line_index (saw_content p \<or> \<not> attributes_open h))"

text \<open>The commit of a recognized block; whether there was one.\<close>

definition commit_recognized_block ::
    "BlockCommit BlockRecognition \<Rightarrow> BlockParserState \<Rightarrow> (bool \<times> BlockParserState) block_result" where
  "commit_recognized_block recognition p =
     (case into_commit recognition of
        None \<Rightarrow> Inr (False, p)
      | Some (consumption, commit) \<Rightarrow>
          and_then (cursor_validate consumption (bp_cursor p)) (\<lambda>_.
          and_then (with_state (spend (charged (commit_charge commit))) p) (\<lambda>p.
          and_then (commit_lines consumption p) (\<lambda>p.
          and_then (attach_state (push_block (commit_syntax commit) (commit_block commit) p)) (\<lambda>p.
            Inr (True, p))))))"

section \<open>One line of a sequence\<close>

text \<open>A line that the header may read as an author or a revision.\<close>

definition plain_header_line :: "str \<Rightarrow> bool" where
  "plain_header_line content \<longleftrightarrow>
     \<not> list_ex is_control (chars content)
     \<and> \<not> (content \<noteq> [] \<and> hd content \<in> {CHR '':'', CHR ''['', CHR ''=''})
     \<and> delimiter_spec content = None \<and> \<not> starts_with content ''//''"

text \<open>The author line and the revision line: what is left to do, or the state after the line.\<close>

definition author_step ::
    "str \<Rightarrow> SourceLine \<Rightarrow> BlockParserState \<Rightarrow> (bool \<times> BlockParserState) block_result" where
  "author_step content l p =
     (if blank_text content then Inr (False, p)
      else
        let (expected, p) = take_author_expectation p in
        if \<not> expected \<or> \<not> plain_header_line content then Inr (False, p)
        else
          and_then (parse_author content l) (\<lambda>author. case author of
             None \<Rightarrow> Inr (False, p)
           | Some a \<Rightarrow>
               and_then (with_state (spend consume_node) p) (\<lambda>p.
               and_then (record_author a (full_range l) p) (\<lambda>p.
               and_then (commit_lines OneLine (push_syntax (leaf AuthorLine (full_range l)) p)) (\<lambda>p.
                 Inr (True, p))))))"

definition revision_step ::
    "str \<Rightarrow> SourceLine \<Rightarrow> BlockParserState \<Rightarrow> (bool \<times> BlockParserState) block_result" where
  "revision_step content l p =
     (if blank_text content then Inr (False, p)
      else
        let (expected, p) = take_revision_expectation p in
        if \<not> expected \<or> \<not> plain_header_line content then Inr (False, p)
        else
          and_then (parse_revision content l) (\<lambda>revision.
          and_then (with_state (spend consume_node) p) (\<lambda>p.
          and_then (record_revision revision (full_range l) p) (\<lambda>p.
          and_then (commit_lines OneLine (push_syntax (leaf RevisionLine (full_range l)) p)) (\<lambda>p.
            Inr (True, p))))))"

definition simple_recognitions :: "LineRecognition set" where
  "simple_recognitions =
     {Math_line, Break_line, Literal_paragraph_line, Preprocessor_directive_line, Unsupported_line}"

text \<open>Mathematics, breaks, literal paragraphs and what is not supported.\<close>

definition simple_block_step ::
    "ParseContext \<Rightarrow> LineRecognition \<Rightarrow> nat \<Rightarrow> nat \<Rightarrow> str \<Rightarrow> SourceLine \<Rightarrow> BlockParserState
     \<Rightarrow> (bool \<times> BlockParserState) block_result" where
  "simple_block_step ctx recognition line_index end_line content l p =
     (if recognition \<notin> simple_recognitions then Inr (False, p)
      else
        and_then (flush_paragraph_state ctx p) (\<lambda>p.
        and_then (budgeted (check \<lparr>charge_blocks = 1, charge_nodes = 1, charge_attributes = 0\<rparr>
            (ps_budget (bp_state p)))) (\<lambda>_.
        and_then (if recognition = Math_line
                  then recognize_source_or_math recognition ctx line_index end_line content l
                  else recognize_simple_block recognition (ctx_document ctx) line_index content l) (\<lambda>recognized.
        and_then (commit_recognized_block recognized p) (\<lambda>(committed, p).
        if \<not> committed then Inr (False, p)
        else if recognition = Math_line then
          (case metadata_id (block_metadata (last (recognized_blocks (bp_out p)))) of
             Some v \<Rightarrow>
               Inr (True, mark_content_seen
                 (if range_start (full_range l) \<le> range_start (metadata_value_range v)
                  then p\<lparr>bp_state := add_anchor (anchor_of_metadata (full_range l) v) (bp_state p)\<rparr> else p))
           | None \<Rightarrow> Inr (True, mark_content_seen p))
        else Inr (True, mark_body_content p))))))"

definition delimited_step ::
    "nested_parser \<Rightarrow> ParseContext \<Rightarrow> nat \<Rightarrow> nat \<Rightarrow> str \<Rightarrow> BlockParserState \<Rightarrow> BlockParserState block_result" where
  "delimited_step parse ctx line_index end_line content p =
     and_then (expect (delimiter_spec content)) (\<lambda>spec.
     and_then (flush_paragraph_state ctx p) (\<lambda>p.
     and_then (with_state (spend consume_block) p) (\<lambda>p.
     and_then (with_state (spend consume_node) p) (\<lambda>p.
     and_then (parse_delimited_block parse ctx line_index end_line spec (bp_state p)
         (context_depth (bp_context p)) (Some (pending_semantic (pending_metadata p)))) (\<lambda>(block, syntax, following, st).
     let commit = already_charged (delimited_node block syntax) (DelimitedAst block) in
     and_then (commit_recognized_block
         (if delimited_problems (delimited_facts block) = [] then MatchedBlock (Through following) commit
          else RecoveredBlock (Through following) commit) (p\<lparr>bp_state := st\<rparr>)) (\<lambda>(_, p).
       Inr (mark_body_content p)))))))"

definition heading_step ::
    "ParseContext \<Rightarrow> str \<Rightarrow> SourceLine \<Rightarrow> BlockParserState \<Rightarrow> BlockParserState block_result" where
  "heading_step ctx content l p =
     and_then (flush_paragraph_state ctx p) (\<lambda>p.
     and_then (with_state (spend consume_block) p) (\<lambda>p.
     and_then (with_state (spend consume_node) p) (\<lambda>p.
     and_then (parse_heading ctx content l (document_title_position (bp_context p) (saw_content p)) (bp_state p))
       (\<lambda>(h, st).
     let kind = (if heading_problems h = []
       then (if heading_kind h = DocumentTitleHeading then DocumentTitle else SyntaxKind.Heading)
       else MalformedHeading)
     in and_then (heading_node h kind) (\<lambda>node.
        and_then (attach_state (push_block node (HeadingBlock h) (p\<lparr>bp_state := st\<rparr>))) (\<lambda>p.
        and_then
          (if allows_document_header (bp_context p) \<and> heading_kind h = DocumentTitleHeading
              \<and> well_formed h \<and> hierarchy_valid h
           then open_header_after_title (full_range l) p else Inr p) (\<lambda>p.
          Inr (mark_content_seen p))))))))"

definition list_step ::
    "nested_parser \<Rightarrow> ParseContext \<Rightarrow> nat \<Rightarrow> nat \<Rightarrow> BlockParserState \<Rightarrow> BlockParserState block_result" where
  "list_step parse ctx line_index end_line p =
     and_then (flush_paragraph_state ctx p) (\<lambda>p.
     and_then (parse_lists (parse_delimited_block parse ctx) ctx line_index end_line (bp_state p)
         (context_depth (bp_context p))) (\<lambda>(ls, following, r, st).
     and_then (list_node r ls) (\<lambda>node.
     and_then (attach_state (p\<lparr>bp_state := st,
         bp_out := \<lparr>recognized_syntax = recognized_syntax (bp_out p) @ [node],
                    recognized_blocks = recognized_blocks (bp_out p) @ map ListAst ls\<rparr>\<rparr>)) (\<lambda>p.
       commit_lines (Through following) (mark_body_content p)))))"

definition attribute_step ::
    "ParseContext \<Rightarrow> nat \<Rightarrow> BlockParserState \<Rightarrow> BlockParserState block_result" where
  "attribute_step ctx line_index p =
     and_then (parse_lines (ctx_host ctx) (ps_queries (bp_state p)) (ctx_document ctx) line_index) (\<lambda>(parsed, q).
     and_then (expect parsed) (\<lambda>(attribute, problem, last_line).
     let p = p\<lparr>bp_state := (bp_state p)\<lparr>ps_queries := q\<rparr>\<rparr> in
     and_then (flush_paragraph_state ctx p) (\<lambda>p.
     and_then (flush_orphan_state ctx p) (\<lambda>p.
     and_then (with_state (spend consume_attribute) p) (\<lambda>p.
     and_then (with_state (spend consume_node) p) (\<lambda>p.
     and_then (in_header (\<lambda>h.
         let extended = h\<lparr>header_attributes := header_attributes h @ [attribute],
               header_attribute_problems := header_attribute_problems h
                 @ (case problem of None \<Rightarrow> [] | Some x \<Rightarrow> [x])\<rparr>
         in if attributes_open h then extend_header_range (occ_range attribute) extended else Inr extended)
         (push_syntax (leaf DocumentAttribute (occ_range attribute)) p)) (\<lambda>p.
       commit_lines (if line_index < last_line then Through (last_line + 1) else OneLine) p)))))))"

definition anchor_step ::
    "ParseContext \<Rightarrow> str \<Rightarrow> SourceLine \<Rightarrow> BlockParserState \<Rightarrow> BlockParserState block_result" where
  "anchor_step ctx content l p =
     and_then (expect (if starts_with content ''[[''
         then parse_explicit_anchor content (range_start (content_range l)) (full_range l) else None)) (\<lambda>a.
     and_then (flush_paragraph_state ctx p) (\<lambda>p.
     and_then (with_state (spend consume_node) p) (\<lambda>p.
     and_then (push_anchor a (pending_metadata p)) (\<lambda>pending.
       Inr (mark_body_content (p\<lparr>pending_metadata := pending,
              bp_state := add_anchor a (bp_state p)\<rparr>))))))"

definition title_step ::
    "ParseContext \<Rightarrow> str \<Rightarrow> SourceLine \<Rightarrow> BlockParserState \<Rightarrow> BlockParserState block_result" where
  "title_step ctx content l p =
     and_then (parse_block_title ctx content (range_start (content_range l)) (bp_state p)) (\<lambda>(title, st).
     and_then (expect title) (\<lambda>title.
     and_then (flush_paragraph_state ctx (p\<lparr>bp_state := st\<rparr>)) (\<lambda>p.
     and_then (with_state (spend consume_node) p) (\<lambda>p.
     and_then (with_state (spend consume_attribute) p) (\<lambda>p.
     and_then (push_title title (full_range l) (pending_metadata p)) (\<lambda>pending.
       Inr (close_header_attributes (p\<lparr>pending_metadata := pending\<rparr>))))))))"

definition metadata_step ::
    "ParseContext \<Rightarrow> str \<Rightarrow> SourceLine \<Rightarrow> BlockParserState \<Rightarrow> BlockParserState block_result" where
  "metadata_step ctx content l p =
     and_then (unfailing (parse_block_attributes content (range_start (content_range l)))) (\<lambda>parsed.
     and_then (expect parsed) (\<lambda>m.
     and_then (flush_paragraph_state ctx p) (\<lambda>p.
     and_then (with_state (spend consume_node) p) (\<lambda>p.
     and_then (with_state (spend (consume_metadata_budget m)) p) (\<lambda>p.
     and_then (push_attributes m (full_range l) (pending_metadata p)) (\<lambda>pending.
       Inr (close_header_attributes (p\<lparr>pending_metadata := pending,
         bp_state := (case metadata_id m of
            None \<Rightarrow> bp_state p
          | Some v \<Rightarrow> add_anchor (anchor_of_metadata (full_range l) v) (bp_state p))\<rparr>))))))))"

definition comment_step ::
    "ParseContext \<Rightarrow> SourceLine \<Rightarrow> BlockParserState \<Rightarrow> BlockParserState block_result" where
  "comment_step ctx l p =
     and_then (flush_paragraph_state ctx (stop_header_author_revision p)) (\<lambda>p.
       let comment = leaf CommentLine (full_range l) in
       Inr (if pending_is_empty (pending_metadata p) then push_syntax comment p
            else p\<lparr>pending_metadata := push_interstitial comment (pending_metadata p)\<rparr>))"

definition blank_step ::
    "ParseContext \<Rightarrow> SourceLine \<Rightarrow> BlockParserState \<Rightarrow> BlockParserState block_result" where
  "blank_step ctx l p =
     and_then (flush_paragraph_state ctx (stop_header_author_revision p)) (\<lambda>p.
     and_then (flush_orphan_state ctx p) (\<lambda>p.
       Inr (close_header_at_blank (full_range l) (push_syntax (leaf BlankLine (full_range l)) p))))"

text \<open>The dispatch on what the line grammar says. A step of one line commits that line last.\<close>

definition recognized_step ::
    "nested_parser \<Rightarrow> ParseContext \<Rightarrow> LineRecognition \<Rightarrow> nat \<Rightarrow> nat \<Rightarrow> str \<Rightarrow> SourceLine
     \<Rightarrow> BlockParserState \<Rightarrow> BlockParserState block_result" where
  "recognized_step parse ctx recognition line_index end_line content l p =
     (let one_line = (\<lambda>r. and_then r (commit_lines OneLine)) in
      case recognition of
        Delimited_line \<Rightarrow> delimited_step parse ctx line_index end_line content p
      | Anchor_line \<Rightarrow> one_line (anchor_step ctx content l p)
      | Block_title_line \<Rightarrow> one_line (title_step ctx content l p)
      | Block_metadata_line \<Rightarrow> one_line (metadata_step ctx content l p)
      | Comment_line \<Rightarrow> one_line (comment_step ctx l p)
      | Blank_line \<Rightarrow> one_line (blank_step ctx l p)
      | Document_attribute_line \<Rightarrow> attribute_step ctx line_index p
      | Heading_line \<Rightarrow> one_line (heading_step ctx content l p)
      | List_line \<Rightarrow> list_step parse ctx line_index end_line p
      | _ \<Rightarrow> one_line (Inr (mark_body_content
               (p\<lparr>paragraph_lines := paragraph_lines p @ [(l, content)]\<rparr>))))"

definition line_step ::
    "nested_parser \<Rightarrow> ParseContext \<Rightarrow> nat \<Rightarrow> nat \<Rightarrow> BlockParserState \<Rightarrow> BlockParserState block_result" where
  "line_step parse ctx end_line line_index p =
     (let d = ctx_document ctx in
      and_then (with_state (poll ctx) p) (\<lambda>p.
      and_then (read_line d line_index) (\<lambda>(l, content).
      let next_text = (if line_index + 1 < end_line then content_at d (line_index + 1) else None) in
      and_then (author_step content l p) (\<lambda>(finished_line, p).
      if finished_line then Inr p
      else and_then (revision_step content l p) (\<lambda>(finished_line, p).
      if finished_line then Inr p
      else
        and_then (document_attribute_allowed d line_index p) (\<lambda>attribute_ok.
        and_then (unfailing (recognize_line content next_text (range_start (content_range l)) (full_range l)
            attribute_ok)) (\<lambda>recognition.
        and_then (simple_block_step ctx recognition line_index end_line content l p) (\<lambda>(finished_line, p).
        if finished_line then Inr p
        else recognized_step parse ctx recognition line_index end_line content l p))))))))"

text \<open>The loop over the lines; the fuel bounds the lines that are left.\<close>

fun sequence_loop ::
    "nat \<Rightarrow> nested_parser \<Rightarrow> ParseContext \<Rightarrow> nat \<Rightarrow> BlockParserState \<Rightarrow> BlockParserState block_result" where
  "sequence_loop n parse ctx end_line p =
     (case cursor_current (bp_cursor p) of
        None \<Rightarrow> Inr p
      | Some line_index \<Rightarrow>
          (case n of 0 \<Rightarrow> Inl Panic
           | Suc n \<Rightarrow> and_then (line_step parse ctx end_line line_index p) (sequence_loop n parse ctx end_line)))"

declare sequence_loop.simps [simp del]

section \<open>Sequences\<close>

record BlockFacts =
  facts_syntax :: "SyntaxNode list"
  facts_blocks :: "AstBlock list"
  facts_anchors :: "ExplicitAnchor list"

record RootBlockSequenceOutput =
  root_common :: BlockFacts
  root_attributes :: "DocumentAttributeOccurrence list"
  root_attribute_problems :: "AttributeProblem list"
  root_header :: DocumentHeader

datatype BlockSequenceOutput = RootOutput RootBlockSequenceOutput | NestedOutput BlockFacts

definition parse_block_sequence ::
    "nested_parser \<Rightarrow> ParseContext \<Rightarrow> BlockInput \<Rightarrow> ParseState \<Rightarrow> BlockContext
     \<Rightarrow> (BlockSequenceOutput \<times> ParseState) block_result" where
  "parse_block_sequence parse ctx input st context =
     (let ctx = ctx\<lparr>ctx_document := block_input_document input\<rparr>;
          end_line = block_input_end input
      in and_then (sequence_loop (end_line - block_input_start input) parse ctx end_line
             (BlockParserState_new input context st)) (\<lambda>p.
         and_then (flush_paragraph_state ctx p) (\<lambda>p.
         and_then (flush_orphan_state ctx p) (\<lambda>p.
         let common = \<lparr>facts_syntax = recognized_syntax (bp_out p), facts_blocks = recognized_blocks (bp_out p),
                       facts_anchors = ps_anchors (bp_state p)\<rparr>
         in Inr ((case document_header_phase p of
               Some h \<Rightarrow> RootOutput \<lparr>root_common = common, root_attributes = header_attributes h,
                   root_attribute_problems = header_attribute_problems h, root_header = header_facts h\<rparr>
             | None \<Rightarrow> NestedOutput common),
             (bp_state p)\<lparr>ps_anchors := ps_anchors st\<rparr>)))))"

definition parse_nested_blocks :: "nested_parser \<Rightarrow> ParseContext \<Rightarrow> nested_parser" where
  "parse_nested_blocks parse ctx d start stop st depth location =
     (let limit = config_max_block_depth (ctx_config ctx) in
      if max 1 limit < depth_block depth
      then rejected ''block nesting depth'' (word_of_nat (min u32_max limit)) (depth_block depth)
      else if start = stop then Inr (\<lparr>nested_blocks = [], nested_syntax = []\<rparr>, st)
      else
        and_then (BlockInput_new d start stop) (\<lambda>input.
        and_then (parse_block_sequence parse ctx input st
            \<lparr>context_depth = depth, context_location = location\<rparr>) (\<lambda>(out, st).
        case out of
          RootOutput _ \<Rightarrow> invariant_broken
        | NestedOutput facts \<Rightarrow>
            Inr (\<lparr>nested_blocks = facts_blocks facts, nested_syntax = facts_syntax facts\<rparr>,
                 st\<lparr>ps_anchors := ps_anchors st @ facts_anchors facts\<rparr>))))"

fun blocks_fuel :: "nat \<Rightarrow> ParseContext \<Rightarrow> nested_parser" where
  "blocks_fuel 0 ctx d start stop st depth location = Inl Panic"
| "blocks_fuel (Suc n) ctx d start stop st depth location =
     parse_nested_blocks (blocks_fuel n ctx) ctx d start stop st depth location"

section \<open>A whole source\<close>

text \<open>
  \<open>parse_shared_cancellable\<close> up to the end of the block parser; the document and the root
  sequence are what it hands over.
\<close>

definition parse_source ::
    "cancel_host \<Rightarrow> (str \<Rightarrow> bool) \<Rightarrow> ParseConfig \<Rightarrow> str
     \<Rightarrow> (SourceDocument \<times> RootBlockSequenceOutput) block_result" where
  "parse_source host alnum config source =
     and_then (budgeted (ParseBudget_new (config_limits config))) (\<lambda>budget.
     let limit = unat (max_line_bytes (config_limits config)) in
     and_then (map_err (\<lambda>e. Err (build_failure e)) (from_shared_bounded host 0 source limit)) (\<lambda>d.
     let ctx = \<lparr>ctx_document = d, ctx_source = source, ctx_config = config, ctx_host = host, ctx_alnum = alnum\<rparr>;
         st = \<lparr>ps_budget = budget, ps_anchors = [],
               ps_queries = indexing_queries host 0 source limit 0\<rparr>
     in and_then (BlockInput_new d 0 (length (sd_lines d))) (\<lambda>input.
        and_then (parse_block_sequence (blocks_fuel (config_max_block_depth config + 3) ctx) ctx input st root_context)
          (\<lambda>(out, st).
          case out of RootOutput root \<Rightarrow> Inr (d, root) | NestedOutput _ \<Rightarrow> invariant_broken))))"

end
