(* ===== verification/Document_Layout.thy ===== *)
theory Document_Layout
  imports Inline_Syntax Block_Parser
begin

text \<open>
  The lines of a document as the block parser reads them, and what the recognizers that span
  no other block make of them: they fail only when a limit is exceeded or the host cancels, and
  their nodes are laid out over their lines.
\<close>

section \<open>Failures a parse may end with\<close>

definition benign :: "cancel_host \<Rightarrow> ParseFailure \<Rightarrow> bool" where
  "benign host e \<longleftrightarrow> (\<exists>b. e = ParseBudgetExceeded b) \<or> (e = ParseCancelled \<and> (\<exists>q. host q))"

text \<open>A limit, a cancellation by the host, or a result with \<open>P\<close>: no panic, no broken invariant.\<close>

definition lawful :: "cancel_host \<Rightarrow> ('a \<Rightarrow> bool) \<Rightarrow> 'a block_result \<Rightarrow> bool" where
  "lawful host P r \<longleftrightarrow> (case r of Inl Panic \<Rightarrow> False | Inl (Err e) \<Rightarrow> benign host e | Inr a \<Rightarrow> P a)"

lemma lawful_simps [simp]:
  "lawful host P (Inr a) \<longleftrightarrow> P a" "lawful host P (Inl (Err e)) \<longleftrightarrow> benign host e" "\<not> lawful host P (Inl Panic)"
  by (simp_all add: lawful_def)

lemma lawful_and_then:
  assumes "lawful host Q r" "\<And>a. Q a \<Longrightarrow> lawful host P (k a)"
  shows "lawful host P (and_then r k)"
proof (cases r)
  case (Inl e)
  with assms(1) show ?thesis by (cases e) simp_all
qed (use assms in simp)

lemma lawful_mono: "lawful host Q r \<Longrightarrow> (\<And>a. Q a \<Longrightarrow> P a) \<Longrightarrow> lawful host P r"
  by (auto simp: lawful_def split: sum.splits failure.splits)

lemma lawful_expect [simp]: "lawful host P (expect x) \<longleftrightarrow> (case x of None \<Rightarrow> False | Some a \<Rightarrow> P a)"
  by (cases x) simp_all

lemma lawful_budgeted: "lawful host (\<lambda>b. True) (budgeted r)"
  by (cases r) (simp_all add: budgeted_def benign_def)

lemma lawful_spend: "lawful host (\<lambda>st'. st' = st\<lparr>ps_budget := ps_budget st'\<rparr>) (spend tick st)"
  unfolding spend_def by (rule lawful_and_then [OF lawful_budgeted]) simp

lemma lawful_poll: "lawful (ctx_host ctx) (\<lambda>st'. st' = st\<lparr>ps_queries := Suc (ps_queries st)\<rparr>) (poll ctx st)"
  by (auto simp: poll_def benign_def)

section \<open>The context of a parse\<close>

definition table_free :: "SourceDocument \<Rightarrow> bool" where
  "table_free d \<longleftrightarrow> list_all (\<lambda>l. case line_content d l of None \<Rightarrow> True | Some c \<Rightarrow> \<not> is_table_delimiter c) (sd_lines d)"

text \<open>The source and its index; the hypotheses of the theorems below about the source.\<close>

definition context_ok :: "ParseContext \<Rightarrow> bool" where
  "context_ok ctx \<longleftrightarrow>
     valid_utf8 (ctx_source ctx) \<and> length (ctx_source ctx) < u32_max \<and> exact_breaks (ctx_source ctx)
     \<and> well_indexed (ctx_source ctx) 0 (ctx_document ctx) \<and> table_free (ctx_document ctx)"

section \<open>Lines\<close>

text \<open>Where line \<open>i\<close> begins; the number of lines stands for the end of the source.\<close>

definition bnd :: "SourceDocument \<Rightarrow> nat \<Rightarrow> nat" where
  "bnd d i = (if i < length (sd_lines d) then line_start d i else length (sd_source d))"

lemma indexed_line:
  assumes "valid_utf8 s" "well_indexed s 0 d" "i < length (sd_lines d)"
  obtains c e where "sd_lines d ! i = line_of 0 (bnd d i) c (bnd d (Suc i)) e"
    "bnd d i \<le> c" "c \<le> bnd d (Suc i)" "bnd d (Suc i) \<le> length s"
    "char_boundary s (bnd d i)" "char_boundary s c" "char_boundary s (bnd d (Suc i))"
    "Suc i < length (sd_lines d) \<Longrightarrow> c < bnd d (Suc i)"
    "content_at d i = Some (slice s (bnd d i) c)"
proof -
  obtain a c e k where l: "sd_lines d ! i = line_of 0 a c e k"
    "a \<le> c" "c \<le> e" "e \<le> length s" "char_boundary s a" "char_boundary s c" "line_start d i = 0 + a"
    "if Suc i < length (sd_lines d) then c < e \<and> line_start d (Suc i) = 0 + e else c = e \<and> e = length s"
    by (rule well_indexed_line [OF assms]) blast
  have src: "sd_source d = s" "sd_base d = 0" using assms(2) by (simp_all add: well_indexed_def)
  have b: "bnd d i = a" using l(7) assms(3) by (simp add: bnd_def)
  have b2: "bnd d (Suc i) = e"
    using l(8) src by (cases "Suc i < length (sd_lines d)") (simp_all add: bnd_def)
  have "char_boundary s e"
  proof (cases "Suc i < length (sd_lines d)")
    case True
    obtain a' where "char_boundary s a'" "line_start d (Suc i) = 0 + a'"
      by (rule well_indexed_line [OF assms(1,2) True]) blast
    with l(8) True show ?thesis by simp
  next
    case False
    with l(8) show ?thesis by simp
  qed
  moreover have "content_at d i = Some (slice s a c)"
    using l assms(3) src by (simp add: content_at_def get_line_def line_content_def sd_text_def str_get_def)
  moreover have "c < e" if "Suc i < length (sd_lines d)" using l(8) that by simp
  ultimately show ?thesis using l b b2 by (intro that [of c k]) simp_all
qed

lemma bnd_step: "valid_utf8 s \<Longrightarrow> well_indexed s 0 d \<Longrightarrow> bnd d i \<le> bnd d (Suc i)"
proof (cases "i < length (sd_lines d)")
  case True
  assume "valid_utf8 s" "well_indexed s 0 d"
  from indexed_line [OF this True] show ?thesis by (metis order_trans)
qed (simp add: bnd_def)

lemma bnd_mono: "valid_utf8 s \<Longrightarrow> well_indexed s 0 d \<Longrightarrow> i \<le> j \<Longrightarrow> bnd d i \<le> bnd d j"
  by (rule lift_Suc_mono_le [of "bnd d", OF bnd_step])

lemma bnd_cut:
  assumes "valid_utf8 s" "well_indexed s 0 d"
  shows "char_boundary s (bnd d i)"
proof (cases "i < length (sd_lines d)")
  case True
  from indexed_line [OF assms this] show ?thesis by metis
next
  case False
  then show ?thesis using assms(2) by (simp add: bnd_def well_indexed_def)
qed

lemma bnd_0:
  assumes "valid_utf8 s" "well_indexed s 0 d"
  shows "bnd d 0 = 0"
proof -
  have "0 < length (sd_lines d)" using assms(2) by (auto simp: well_indexed_def)
  from well_indexed_line [OF assms this] this show ?thesis by (auto simp: bnd_def)
qed

lemma bnd_end: "well_indexed s 0 d \<Longrightarrow> bnd d (length (sd_lines d)) = length s"
  by (simp add: bnd_def well_indexed_def)

section \<open>What a recognition says of its line\<close>

lemma recognition_cases:
  assumes "line_fits content start full"
  shows "\<exists>l. recognize_line content following start full attribute_ok = Inr l
    \<and> (let run = run_recognizer
          \<lparr>input_content = content, next_content = following, content_start = start,
           input_full_range = full, document_attribute_position = attribute_ok\<rparr>
       in (\<exists>r. run r = Inr (Some l)) \<or> l = Paragraph_line \<and> run R_Blank = Inr None)"
proof -
  let ?i = "\<lparr>input_content = content, next_content = following, content_start = start,
           input_full_range = full, document_attribute_position = attribute_ok\<rparr>"
  have "line_fits (input_content ?i) (content_start ?i) (input_full_range ?i)" using assms by simp
  from first_recognized_cases [OF run_recognizer_total [OF this], of BLOCK_RECOGNIZER_PRIORITY]
  obtain l where "first_recognized ?i BLOCK_RECOGNIZER_PRIORITY = Inr l"
    "(\<exists>r. run_recognizer ?i r = Inr (Some l))
     \<or> l = Paragraph_line \<and> (\<forall>r \<in> set BLOCK_RECOGNIZER_PRIORITY. run_recognizer ?i r = Inr None)" by blast
  moreover have "R_Blank \<in> set BLOCK_RECOGNIZER_PRIORITY" by (simp add: BLOCK_RECOGNIZER_PRIORITY_def)
  ultimately show ?thesis unfolding recognize_line_def Let_def by blast
qed

text \<open>What every recognition stands for.\<close>

definition recognition_means ::
    "str \<Rightarrow> str option \<Rightarrow> nat \<Rightarrow> TextRange \<Rightarrow> bool \<Rightarrow> LineRecognition \<Rightarrow> bool" where
  "recognition_means content following start full attribute_ok l =
     (case l of
        Math_line \<Rightarrow> (\<exists>m. parse_math_attribute content = Inr (Some m)) \<and> following = Some ''++++''
      | Delimited_line \<Rightarrow> delimiter_spec content \<noteq> None
      | Anchor_line \<Rightarrow> parse_explicit_anchor content start full \<noteq> None \<and> starts_with content ''[[''
      | Block_title_line \<Rightarrow> is_block_title content
      | Block_metadata_line \<Rightarrow> (\<exists>m. parse_block_attributes content start = Inr (Some m))
      | Comment_line \<Rightarrow> starts_with content ''//''
      | Blank_line \<Rightarrow> blank_text content
      | Document_attribute_line \<Rightarrow> attribute_ok \<and> (\<exists>p. parse_line content start full = Inr (Some p))
      | Break_line \<Rightarrow> True
      | Literal_paragraph_line \<Rightarrow> content \<noteq> [] \<and> is_blank (hd content)
      | Heading_line \<Rightarrow> starts_with content ''=''
      | List_line \<Rightarrow> list_marker content \<noteq> None
      | Preprocessor_directive_line \<Rightarrow> classify_directive_line content \<noteq> None
      | Unsupported_line \<Rightarrow> unsupported_reason content \<noteq> None
      | Paragraph_line \<Rightarrow> \<not> blank_text content)"

lemma recognize_line_means:
  assumes "line_fits content start full"
  obtains l where "recognize_line content following start full attribute_ok = Inr l"
    "recognition_means content following start full attribute_ok l"
proof -
  let ?run = "run_recognizer \<lparr>input_content = content, next_content = following, content_start = start,
           input_full_range = full, document_attribute_position = attribute_ok\<rparr>"
  from recognition_cases [OF assms, of following attribute_ok] obtain l where
    l: "recognize_line content following start full attribute_ok = Inr l"
    and c: "(\<exists>r. ?run r = Inr (Some l)) \<or> l = Paragraph_line \<and> ?run R_Blank = Inr None"
    unfolding Let_def by blast
  have "recognition_means content following start full attribute_ok l"
  proof (cases "l = Paragraph_line \<and> ?run R_Blank = Inr None")
    case True
    then show ?thesis by (simp add: recognition_means_def run_recognizer_def line_if_def blank_text_def split: if_splits)
  next
    case False
    with c obtain r where "?run r = Inr (Some l)" by blast
    then show ?thesis
      by (cases r) (auto simp: recognition_means_def run_recognizer_def line_if_def blank_text_def result_simps
          Let_def split: if_splits)
  qed
  with l show ?thesis by (rule that)
qed

lemma blank_text_bytes: "blank_text content \<longleftrightarrow> (\<forall>b \<in> set content. is_blank b)"
proof -
  let ?p = "\<lambda>b. List.member space_or_tab b"
  have "blank_text content \<longleftrightarrow> (\<forall>b \<in> set (dropWhile ?p content). ?p b)"
    by (simp add: blank_text_def trim_matches_def trim_start_matches_def trim_end_matches_def)
  also have "\<dots> \<longleftrightarrow> (\<forall>b \<in> set content. ?p b)"
  proof
    assume all: "\<forall>b \<in> set (dropWhile ?p content). ?p b"
    show "\<forall>b \<in> set content. ?p b"
    proof (rule ccontr)
      assume "\<not> (\<forall>b \<in> set content. ?p b)"
      then have "dropWhile ?p content \<noteq> []" by auto
      with hd_dropWhile [OF this] all show False by (metis list.set_sel(1))
    qed
  qed (auto dest: set_dropWhileD)
  finally show ?thesis by (auto simp: space_or_tab_def is_blank_def)
qed

text \<open>A blank line is no anchor, title, metadata, comment or paragraph.\<close>

lemma blank_recognition:
  assumes "recognition_means content following start full attribute_ok l" "blank_text content"
  shows "l \<notin> {Anchor_line, Block_title_line, Block_metadata_line, Comment_line, Paragraph_line}"
proof -
  have no: "\<not> starts_with content (b # p)" if "\<not> is_blank b" for b p
    using assms(2) that by (auto simp: blank_text_bytes starts_with_prefix)
  have "\<not> is_block_title content"
    using no [of "CHR ''.''" "[]"] by (auto simp: is_block_title_def strip_prefix_def is_blank_def)
  moreover have "parse_block_attributes content start = Inr None"
    using no [of "CHR ''[''" "[]"] by (auto simp: parse_block_attributes_def strip_prefix_def is_blank_def)
  ultimately show ?thesis
    using assms no [of "CHR ''[''" "''[''"] no [of "CHR ''/''" "''/''"]
    by (auto simp: recognition_means_def is_blank_def)
qed

section \<open>Boundaries of trimmed text\<close>

lemma ascii_prefix_boundary:
  assumes "valid_utf8 s" "s = a @ b" "\<forall>c \<in> set a. byte_val c < 128"
  shows "char_boundary s (length a)"
proof (cases a rule: rev_cases)
  case (snoc xs x)
  with assms have "length xs < length s" "s ! length xs = x" "byte_val x < 128" by (simp_all add: nth_append)
  from byte_found [OF assms(1) this] snoc show ?thesis by simp
qed simp

lemma ascii_suffix_boundary:
  assumes "s = a @ b" "\<forall>c \<in> set b. byte_val c < 128"
  shows "char_boundary s (length a)"
proof (cases b)
  case (Cons x xs)
  with assms show ?thesis by (intro boundary_ascii) (simp_all add: nth_append)
qed (use assms in simp)

lemma space_or_tab_ascii: "List.member space_or_tab b \<Longrightarrow> byte_val b < 128"
  by (auto simp: space_or_tab_def)

lemma trim_start_boundary:
  assumes "valid_utf8 s"
  shows "char_boundary s (length s - length (trim_start_matches space_or_tab s))"
proof -
  obtain a where a: "s = a @ trim_start_matches space_or_tab s" "\<forall>b \<in> set a. List.member space_or_tab b"
    using trim_start_matches_split by blast
  then have "length s - length (trim_start_matches space_or_tab s) = length a"
    by (metis add_diff_cancel_right' length_append)
  with ascii_prefix_boundary [OF assms a(1)] a(2) space_or_tab_ascii show ?thesis by auto
qed

lemma trim_end_boundary:
  shows "char_boundary s (length (trim_end_matches space_or_tab s))"
proof -
  obtain e where "s = trim_end_matches space_or_tab s @ e" "\<forall>b \<in> set e. List.member space_or_tab b"
    using trim_end_matches_split by blast
  with ascii_suffix_boundary space_or_tab_ascii show ?thesis by blast
qed

section \<open>Lines and texts of a parse\<close>

lemma context_facts:
  assumes "context_ok ctx"
  shows "valid_utf8 (ctx_source ctx)" "length (ctx_source ctx) < u32_max" "exact_breaks (ctx_source ctx)"
    "well_indexed (ctx_source ctx) 0 (ctx_document ctx)" "table_free (ctx_document ctx)"
  using assms by (simp_all add: context_ok_def)

lemma located_slice:
  assumes "context_ok ctx" "char_boundary (ctx_source ctx) a" "char_boundary (ctx_source ctx) b" "a \<le> b"
  shows "located (ctx_source ctx) (slice (ctx_source ctx) a b) \<lparr>range_start = a, range_end = b\<rparr>"
  using assms context_facts [OF assms(1)] char_boundary_le [OF assms(3)]
  by (auto simp: located_def valid_utf8_slice text_at_def cut_def length_slice)

lemma parse_line_at:
  assumes "context_ok ctx" "i < length (sd_lines (ctx_document ctx))"
  obtains l content c where
    "sd_lines (ctx_document ctx) ! i = l" "read_line (ctx_document ctx) i = Inr (l, content)"
    "content_at (ctx_document ctx) i = Some content" "line_content (ctx_document ctx) l = Some content"
    "full_range l = \<lparr>range_start = bnd (ctx_document ctx) i, range_end = bnd (ctx_document ctx) (Suc i)\<rparr>"
    "content_range l = \<lparr>range_start = bnd (ctx_document ctx) i, range_end = c\<rparr>"
    "content = slice (ctx_source ctx) (bnd (ctx_document ctx) i) c"
    "bnd (ctx_document ctx) i \<le> c" "c \<le> bnd (ctx_document ctx) (Suc i)"
    "bnd (ctx_document ctx) (Suc i) \<le> length (ctx_source ctx)"
    "char_boundary (ctx_source ctx) (bnd (ctx_document ctx) i)" "char_boundary (ctx_source ctx) c"
    "char_boundary (ctx_source ctx) (bnd (ctx_document ctx) (Suc i))"
    "length content = c - bnd (ctx_document ctx) i" "line_fits content (bnd (ctx_document ctx) i) (full_range l)"
    "located (ctx_source ctx) content (content_range l)"
proof -
  let ?s = "ctx_source ctx" and ?d = "ctx_document ctx"
  note f = context_facts [OF assms(1)]
  obtain c e where l: "sd_lines ?d ! i = line_of 0 (bnd ?d i) c (bnd ?d (Suc i)) e"
    "bnd ?d i \<le> c" "c \<le> bnd ?d (Suc i)" "bnd ?d (Suc i) \<le> length ?s"
    "char_boundary ?s (bnd ?d i)" "char_boundary ?s c" "char_boundary ?s (bnd ?d (Suc i))"
    "content_at ?d i = Some (slice ?s (bnd ?d i) c)"
    by (rule indexed_line [OF f(1,4) assms(2)]) blast
  have lc: "line_content ?d (sd_lines ?d ! i) = Some (slice ?s (bnd ?d i) c)"
    using l(8) assms(2) by (simp add: content_at_def get_line_def)
  have len: "length (slice ?s (bnd ?d i) c) = c - bnd ?d i" using l(3,4) by (simp add: length_slice)
  show ?thesis
  proof (rule that [of "sd_lines ?d ! i" "slice ?s (bnd ?d i) c" c])
    show "read_line ?d i = Inr (sd_lines ?d ! i, slice ?s (bnd ?d i) c)"
      using lc assms(2) by (simp add: read_line_def get_line_def)
    show "located ?s (slice ?s (bnd ?d i) c) (content_range (sd_lines ?d ! i))"
      using located_slice [OF assms(1) l(5,6,2)] l(1) by simp
    show "line_fits (slice ?s (bnd ?d i) c) (bnd ?d i) (full_range (sd_lines ?d ! i))"
      using l len f(2) by (simp add: line_fits_def)
  qed (use l lc len in simp_all)
qed

lemma parse_text_ok:
  assumes "located (ctx_source ctx) v r"
  shows "lawful host (\<lambda>(out, st'). consecutive (ctx_source ctx) (range_start r) (map inline_range (output_inlines out)) (range_end r)
      \<and> list_all (inline_ok (ctx_source ctx)) (output_inlines out)
      \<and> st' = st\<lparr>ps_budget := ps_budget st'\<rparr>) (parse_text ctx v r st)"
proof -
  from parse_fuel_ok [of "ctx_source ctx" "Suc (length v)" "ctx_alnum ctx" "inline_config (ctx_config ctx)"] assms
  have "yields (output_ok (ctx_source ctx) r (ps_budget st))
      (parse_inlines (ctx_alnum ctx) v r (inline_config (ctx_config ctx)) (ps_budget st))"
    by (simp add: parser_ok_def parse_inlines_def parse_segment_def del: parse_fuel.simps)
  then show ?thesis
    by (auto simp: yields_def output_ok_def parse_text_def budgeted_parse_def benign_def
        split: sum.splits failure.splits)
qed

lemma split_parsed:
  assumes "context_ok ctx" "consecutive (ctx_source ctx) a (map inline_range is) b" "list_all (inline_ok (ctx_source ctx)) is"
  shows "\<exists>ys. split_hard_breaks is = Inr ys \<and> arranged (ctx_source ctx) a ys b"
  using split_hard_breaks_ok(2) [OF context_facts(1-3) [OF assms(1)] assms(2,3)] .

text \<open>The inlines of a text, split at its hard breaks.\<close>

lemma parse_text_split:
  assumes "context_ok ctx" "located (ctx_source ctx) v r"
    and "\<And>out st' ys. arranged (ctx_source ctx) (range_start r) ys (range_end r) \<Longrightarrow> st' = st\<lparr>ps_budget := ps_budget st'\<rparr> \<Longrightarrow>
      lawful host P (k out st' ys)"
  shows "lawful host P (and_then (parse_text ctx v r st) (\<lambda>(out, st'). and_then (split_hard_breaks (output_inlines out)) (\<lambda>ys. k out st' ys)))"
proof (rule lawful_and_then [OF parse_text_ok [OF assms(2)]], clarify)
  fix out :: InlineParseOutput and st' :: ParseState
  assume c: "consecutive (ctx_source ctx) (range_start r) (map inline_range (output_inlines out)) (range_end r)"
    "list_all (inline_ok (ctx_source ctx)) (output_inlines out)" and st: "st' = st\<lparr>ps_budget := ps_budget st'\<rparr>"
  from split_parsed [OF assms(1) c] obtain ys where ys: "split_hard_breaks (output_inlines out) = Inr ys"
    "arranged (ctx_source ctx) (range_start r) ys (range_end r)" by blast
  show "lawful host P (and_then (split_hard_breaks (output_inlines out)) (\<lambda>ys. k out st' ys))"
    unfolding ys(1) and_then_Inr by (rule assms(3) [OF ys(2) st])
qed

text \<open>A node of the sequence over a range of the source.\<close>

definition block_node :: "SourceDocument \<Rightarrow> nat \<Rightarrow> nat \<Rightarrow> SyntaxNode \<Rightarrow> bool" where
  "block_node d a b n \<longleftrightarrow>
     is_block (node_kind n) \<and> node_range n = \<lparr>range_start = a, range_end = b\<rparr> \<and> nested d n \<and> tokenless n"

lemma is_block_token: "is_block k \<Longrightarrow> \<forall>t. k \<noteq> TokenNode t"
  by (auto simp: is_block_def)

lemma block_node_build:
  assumes "well_indexed s 0 d" "char_boundary s a" "char_boundary s b" "a \<le> b" "laid d a cs b" "is_block k"
  shows "block_node d a b (SyntaxNode k \<lparr>range_start = a, range_end = b\<rparr> cs)"
  using nested_node [OF assms(1), of "\<lparr>range_start = a, range_end = b\<rparr>" cs k] assms(2-) is_block_token [OF assms(6)]
  by (simp add: block_node_def cut_def)

lemma block_node_leaf:
  assumes "well_indexed s 0 d" "char_boundary s a" "char_boundary s b" "a \<le> b" "is_block k"
  shows "block_node d a b (leaf k \<lparr>range_start = a, range_end = b\<rparr>)"
  unfolding leaf_def using assms by (intro block_node_build) simp_all

section \<open>Titles and headings\<close>

lemma parse_block_title_ok:
  assumes c: "context_ok ctx" and l: "located (ctx_source ctx) content \<lparr>range_start = base, range_end = e\<rparr>"
    and t: "is_block_title content"
  shows "lawful host (\<lambda>(t, st'). t \<noteq> None \<and> st' = st\<lparr>ps_budget := ps_budget st'\<rparr>)
    (parse_block_title ctx content base st)"
proof -
  obtain v where v: "strip_prefix content ''.'' = Some v"
    using t by (auto simp: is_block_title_def split: option.splits)
  then have content: "content = CHR ''.'' # v" by (simp add: strip_prefix_Some)
  have b: "char_boundary content 1"
    using byte_found [OF located_valid [OF l], of 0 "CHR ''.''"] content by simp
  from located_part [OF l b char_boundary_length]
  have inner: "located (ctx_source ctx) v \<lparr>range_start = base + 1, range_end = base + length content\<rparr>"
    using content by (simp add: slice_to_end)
  have "base + length content \<le> u32_max" using inner by (simp add: located_def)
  then have r: "expect_position (text_range (base + 1) (base + length content))
      = Inr \<lparr>range_start = base + 1, range_end = base + length content\<rparr>"
    using content by (simp add: expect_position_def text_range_ok)
  show ?thesis
    unfolding parse_block_title_def v r expect_simps and_then_Inr
    using t by (simp only: not_True_eq_False if_False) (rule parse_text_split [OF c inner], simp)
qed

lemma count_equals_boundary:
  assumes "valid_utf8 content" and "n = length (takeWhile (\<lambda>b. b = CHR ''='') content)"
  shows "char_boundary content n" "n < length content \<Longrightarrow> content ! n = CHR '' '' \<Longrightarrow> char_boundary content (Suc n)"
    "n \<le> length content"
proof -
  let ?t = "takeWhile (\<lambda>b. b = CHR ''='') content"
  have "content = ?t @ dropWhile (\<lambda>b. b = CHR ''='') content" by simp
  moreover have "\<forall>b \<in> set ?t. byte_val b < 128" by (auto dest: set_takeWhileD)
  ultimately show b: "char_boundary content n"
    using ascii_prefix_boundary [OF assms(1)] assms(2) by blast
  then show "n \<le> length content" by (rule char_boundary_le)
  show "n < length content \<Longrightarrow> content ! n = CHR '' '' \<Longrightarrow> char_boundary content (Suc n)"
    using byte_found [OF assms(1), of n "CHR '' ''"] by simp
qed

lemma parse_heading_ok:
  assumes c: "context_ok ctx" and i: "i < length (sd_lines (ctx_document ctx))"
    and l: "sd_lines (ctx_document ctx) ! i = l" "content_at (ctx_document ctx) i = Some content"
  shows "lawful host (\<lambda>(h, st'). st' = st\<lparr>ps_budget := ps_budget st'\<rparr>
      \<and> (\<forall>k. is_block k \<longrightarrow> (\<exists>n. heading_node h k = Inr n
          \<and> block_node (ctx_document ctx) (bnd (ctx_document ctx) i) (bnd (ctx_document ctx) (Suc i)) n)))
    (parse_heading ctx content l title_position st)"
proof -
  let ?s = "ctx_source ctx" and ?d = "ctx_document ctx"
  let ?a = "bnd ?d i" and ?b = "bnd ?d (Suc i)"
  note f = context_facts [OF c]
  obtain e where lc: "full_range l = \<lparr>range_start = ?a, range_end = ?b\<rparr>" "content_range l = \<lparr>range_start = ?a, range_end = e\<rparr>"
    "?a \<le> e" "e \<le> ?b" "?b \<le> length ?s" "char_boundary ?s ?a" "char_boundary ?s ?b" "length content = e - ?a"
    "located ?s content (content_range l)"
    by (rule parse_line_at [OF c i]) (use l in auto)
  note loc = lc(9) [unfolded lc(2)]
  define n where "n = length (takeWhile (\<lambda>b. b = CHR ''='') content)"
  note n = count_equals_boundary [OF located_valid [OF loc] n_def]
  define has_space where "has_space \<longleftrightarrow> n < length content \<and> content ! n = CHR '' ''"
  define from' where "from' = n + (if has_space then 1 else 0)"
  have from_b: "char_boundary content from'" using n by (auto simp: from'_def has_space_def)
  have from_le: "from' \<le> length content" using from_b by (rule char_boundary_le)
  define w where "w = slice content from' (length content)"
  have w: "str_get content from' (length content) = Some w"
    using from_b from_le by (simp add: str_get_def w_def)
  define v where "v = trim_end_matches space_or_tab w"
  have lw: "located ?s w \<lparr>range_start = ?a + from', range_end = ?a + length content\<rparr>"
    using located_part [OF loc from_b char_boundary_length from_le] unfolding w_def by simp
  have "v = slice w 0 (length v)" using trim_end_matches_eq_take [of space_or_tab w] by (simp add: v_def slice_from_zero)
  moreover have "char_boundary w (length v)" unfolding v_def by (rule trim_end_boundary)
  ultimately have lv: "located ?s v \<lparr>range_start = ?a + from', range_end = ?a + from' + length v\<rparr>"
    using located_part [OF lw char_boundary_0, of "length v"] by simp
  have vlen: "from' + length v \<le> length content"
    using length_trim_end_matches [of space_or_tab w] from_le by (simp add: v_def w_def slice_def)
  have bound: "?a + length content \<le> u32_max" using lc(5) lc(4) lc(3) lc(8) f(2) by simp
  have ranges: "block_text_range ?a (?a + n) = Inr \<lparr>range_start = ?a, range_end = ?a + n\<rparr>"
    "block_text_range (?a + from') (?a + from' + length v) = Inr \<lparr>range_start = ?a + from', range_end = ?a + from' + length v\<rparr>"
    "\<exists>r. (if has_space then block_text_range (?a + n) (?a + n + 1) else block_text_range (?a + n) (?a + n)) = Inr r"
    using bound n(3) vlen from_le by (auto simp: block_text_range_def position_def text_range_ok from'_def split: if_splits)
  obtain sep where sep: "(if has_space then block_text_range (?a + n) (?a + n + 1) else block_text_range (?a + n) (?a + n)) = Inr sep"
    using ranges(3) by blast
  have marker: "laid ?d ?a [leaf HeadingMarker \<lparr>range_start = ?a, range_end = ?a + n\<rparr>] (?a + from')"
    using cut_part [OF loc char_boundary_0 n(1)] by (intro laid_leaf [OF f(4)]) (simp_all add: from'_def)
  have node: "\<exists>m. heading_node h k = Inr m \<and> block_node ?d ?a ?b m"
    if h: "heading_range h = full_range l" "heading_marker_range h = \<lparr>range_start = ?a, range_end = ?a + n\<rparr>"
      "consecutive ?s (?a + from') (map inline_range (heading_inlines h)) (?a + from' + length v)"
      "list_all (inline_ok ?s) (heading_inlines h)" "is_block k" for h k
  proof -
    from inlines_syntax_laid(2) [OF f(4) parsed_arranged [OF h(3,4)]] obtain ns where
      ns: "inlines_syntax (heading_inlines h) = Inr ns" "laid ?d (?a + from') ns (?a + from' + length v)" by auto
    have "laid ?d ?a (leaf HeadingMarker \<lparr>range_start = ?a, range_end = ?a + n\<rparr> # ns) (?a + from' + length v)"
      using laid_append [OF marker ns(2)] by simp
    then have "laid ?d ?a (leaf HeadingMarker \<lparr>range_start = ?a, range_end = ?a + n\<rparr> # ns) ?b"
      by (rule laid_widen [OF _ order_refl]) (use vlen lc in simp)
    from block_node_build [OF f(4) lc(6,7) _ this h(5)] lc(3,4) show ?thesis
      by (simp add: heading_node_def ns(1) h(1,2) lc(1))
  qed
  obtain k ps where kind: "heading_kind_of n title_position = (k, ps)" by fastforce
  show ?thesis
    unfolding parse_heading_def Let_def lc(2) TextRange.select_convs n_def [symmetric] has_space_def [symmetric]
      from'_def [symmetric] w option.case v_def [symmetric] min_absorb1 [OF from_le] ranges(1,2) sep and_then_Inr
      kind case_prod_conv
    by (rule lawful_and_then [OF parse_text_ok [OF lv]]) (auto intro!: node)
qed

end
