(* ===== verification/Spec2Isabelle.thy ===== *)
theory Spec2Isabelle
  imports Cancellation_Checks Source Source_Lines Budget Substitution Attributes Preprocessor_Types
    Directives Delimiters Source_Maps Expansion Includes Machine Machine_Control
    Machine_Invariants Preprocessor Preprocessor_Runs Resumption Urls Targets Diagnostics
    Syntax_Tree Block_Grammar Formatter Html_Writer Lsp_Lifecycle Confinement
    Document_Layout
begin

text \<open>
  A verification library for the core of adocweave, an AsciiDoc processor written in Rust
  (\<open>src/crates/adocweave-core\<close> and its consumers). All paths below are relative to
  \<open>src/crates/adocweave-core/src\<close> unless they name a crate.

  The program. A host hands a source text and its options to the preprocessor, which expands
  attribute definitions, conditionals and include directives into one text with a map from
  every expanded range back to its origin. Resources are looked up by the host; one that is
  not at hand suspends the run, which the host later resumes with a response. The expanded
  text is indexed and parsed under resource limits, with a cancellation check polled at
  bounded intervals, and the result feeds the renderers, the formatter, the linter and the
  language server.

  Theories and what they model.

  \<^item> \<open>Prelude\<close>, \<open>Str\<close>: fallible results as sums (\<open>Inl\<close> an error or a panic), \<open>partition_point\<close>,
    and Rust's \<open>str\<close> as the list of its UTF-8 bytes, so that a byte offset of the source is a
    list index of the model. The \<open>str\<close> methods that work per scalar value go through \<open>chars\<close>.
  \<^item> \<open>Cancellation_Checks\<close> (\<open>cancellation.rs\<close>, \<open>adocweave-lsp/src/cancellation.rs\<close>): a host is the function
    from the number of a query to its answer, and whoever polls carries the number of
    queries made. The contract of a polled check is the locale \<open>polled_check\<close>, interpreted for
    the core checkpoint and the query checkpoint of the language server.
  \<^item> \<open>Source\<close>, \<open>Source_Lines\<close> (\<open>source.rs\<close>): the line index, the lossless tokens, bounded
    construction, indexed views and the conversion between offsets and UTF-8 or UTF-16
    positions. The round trips say that tokens reconstruct the text and positions the offset.
  \<^item> \<open>Budget\<close> (\<open>limits.rs\<close>, \<open>budget.rs\<close>): the counters of one parse; the locale \<open>bounded_counter\<close> is
    the contract of each, interpreted for all of them and for those of \<open>Expansion\<close>.
  \<^item> \<open>Substitution\<close> (\<open>substitution.rs\<close>): bounded attribute expansion and replacements. The locale
    \<open>attribute_resolver\<close> is what the expansion relies on from whoever resolves names.
  \<^item> \<open>Attributes\<close> (\<open>attributes.rs\<close>): attribute lines and continued values, counters, the
    sequential state of the preprocessor and the position-indexed environment of the
    analysis, with the agreement between them.
  \<^item> \<open>Preprocessor_Types\<close>, \<open>Directives\<close>, \<open>Delimiters\<close>, \<open>Source_Maps\<close>, \<open>Expansion\<close>, \<open>Includes\<close>
    (\<open>preprocessor.rs\<close>, \<open>preprocessor/directive.rs\<close>, \<open>delimiter.rs\<close>, \<open>preprocessor/source_map.rs\<close>,
    \<open>preprocessor/expansion.rs\<close>, \<open>preprocessor/include.rs\<close>): the parts of the preprocessor. Each
    has the functional behaviour of its operations: recognition round trips, projections
    inside their origins, confinement of resolved targets, faithfulness of selected lines.
  \<^item> \<open>Machine\<close> (\<open>preprocessor/machine.rs\<close>): the resumable state machine, one definition per method
    and one for an iteration of its loop. \<open>Machine_Control\<close> shows which operations leave the
    control part alone, and gives the loop; \<open>Machine_Invariants\<close> the invariant of every
    iteration.
  \<^item> \<open>Preprocessor\<close> (\<open>preprocessor.rs\<close>): starting, suspending and resuming a run, the effective
    contract and the snapshot entry points. \<open>Preprocessor_Runs\<close> lifts the invariant to whole
    runs, \<open>Resumption\<close> proves that suspension is transparent.
  \<^item> \<open>Urls\<close>, \<open>Targets\<close> (\<open>url.rs\<close>, \<open>reference.rs\<close>, \<open>resource.rs\<close>, \<open>local_target.rs\<close>): the two URL
    policies, reference keys, media types and the candidates of local target checks. The
    theorems say what an accepted URL or candidate cannot contain, also after decoding.
  \<^item> \<open>Block_Grammar\<close> (\<open>block_grammar.rs\<close>, the markers of \<open>list_parser.rs\<close>): the classification of a
    line, block attributes, anchors and list markers, with ranges that denote their text.
  \<^item> \<open>Syntax_Tree\<close> (\<open>syntax.rs\<close>): the lossless tree built over the blocks of the parser. Building
    it accepts exactly well laid out blocks, and its token leaves spell the source.
  \<^item> \<open>Diagnostics\<close> (\<open>diagnostic.rs\<close> and the loop of \<open>adocweave-project/src/process.rs\<close> that applies
    a fix): an accepted fix replaces its ranges all at once.
  \<^item> \<open>Formatter\<close> (\<open>formatter.rs\<close>): the edits of the formatter over a syntax tree. They give the text
    of a reference that writes line by line, and touch neither visible nor protected text.
  \<^item> \<open>Inline_Model\<close>, \<open>Inline_Scan\<close>, \<open>Inline_Parser\<close> (\<open>inline_model.rs\<close>, \<open>inline.rs\<close>,
    \<open>inline/lowering.rs\<close>): the inlines of a fragment, the index of the places where markup may
    begin, the recognition of one as a token of byte offsets and its lowering to an inline.
    \<open>Inline_Candidates\<close>, \<open>Inline_Recognition\<close>, \<open>Inline_Lowering\<close> and \<open>Inline_Tiling\<close> follow them:
    candidates are ordered and at boundaries, recognitions go forward, lowered inlines spell
    their ranges, and the loop lays them side by side over the whole fragment.
  \<^item> \<open>Block_Model\<close>, \<open>Syntax_Builder\<close>, \<open>Block_Sequence\<close>, \<open>Table_Configuration\<close>, \<open>Table_Scan\<close>,
    \<open>List_Parser\<close>, \<open>Block_Parser\<close> (\<open>block_model.rs\<close>, \<open>syntax_builder.rs\<close>, \<open>block_sequence.rs\<close>,
    \<open>document_header.rs\<close>, \<open>table/config.rs\<close>, \<open>table/scan.rs\<close>, \<open>list_parser.rs\<close>, \<open>parser.rs\<close>): the
    parser of blocks, from the lines of a source to the blocks and syntax nodes of the whole
    document. A parser that parses a body is given the parser of sequences as an argument;
    \<open>blocks_fuel\<close> ties the knot by the block depth that the configuration allows.
  \<^item> \<open>Inline_Syntax\<close>, \<open>Document_Layout\<close>: the syntax nodes of parsed inlines are laid out inside the
    range of their text, also after its hard breaks have been split off; every line of a
    document is read and recognized without a panic, and its titles, headings and paragraphs
    fail only when a limit is exceeded or the host cancels.
  \<^item> \<open>Cjk\<close>, \<open>Html_Writer\<close> (\<open>cjk.rs\<close>, \<open>html/safe.rs\<close>): the writer all HTML goes through. An HTML reader finds
    in its output what the renderer asked for, and only vetted names and URLs.
  \<^item> \<open>Lsp_Lifecycle\<close> (\<open>adocweave-lsp/src/lifecycle.rs\<close>): the protocol gate of the language server as
    a state machine, with the sessions the service behind it can see.
  \<^item> \<open>Confinement\<close> (\<open>adocweave-project/src/filesystem\<close>): decoding and normalizing authored paths
    below a root, and the registry of opened roots.

  State and operations. A Rust struct is a record with the field names of the source
  (prefixed where two structs share one), an enum a datatype, a method a function from the
  state to a sum of a failure and the result with the next state. A \<open>TextSize\<close> is a natural
  number bounded by \<open>u32_max\<close>, counters that saturate or overflow are words. An \<open>Arc\<close> whose
  identity the program observes (a suspension and its request) is the number of its
  allocation. A panic of the source is the value \<open>Inl Panic\<close> of the model.

  Termination. Every loop of the model is a total function. The loop of \<open>drive\<close> terminates by
  the include budget left, then the lines left on the stack; the proof is in
  \<open>Machine_Control\<close>. Attribute expansion recurses at most to its depth limit.

  Parameters. The host's cancellation answers and resource lookups, the parser and analysis
  behind the snapshot entry points, and Rust's Unicode alphanumeric class beyond ASCII are
  arguments of the definitions that use them.

  Not modelled. The lowering of parsed blocks to a resolved document, the renderers and the linter;
  the file system, processes, configuration files, the wire formats and the editor packages.
  The components of the manifest give the reason for each.
\<close>

end
